(* ===== verification/Prelude.thy ===== *)
theory Prelude
  imports Main "HOL-Library.AList"
begin

text \<open>
  Shared vocabulary of the development.

  \<^item> Python's insertion-ordered \<open>dict\<close> with string keys is an association list:
    assignment to a present key keeps its position, assignment to a new key appends
    (this is \<open>AList.update\<close>), \<open>pop\<close> is \<open>AList.delete\<close>.
  \<^item> A raised exception is a value of \<open>pyerr\<close>: the constructor is the exception class,
    its argument the message the source builds. Fallible code returns \<open>pyerr + 'a\<close>.
  \<^item> The collections \<open>dict_simps\<close>, \<open>res_simps\<close> and \<open>wf_intros\<close> gather the rewriting
    and introduction rules that the component theories feed to the simplifier.
\<close>

named_theorems dict_simps
named_theorems res_simps
named_theorems wf_intros

section \<open>Exceptions and results\<close>

datatype pyerr =
    RuntimeGraphError string
  | RuntimeGraphRuntimeError string
  | RuntimeGraphCheckpointError string
  | RuntimeGraphStoreError string
  | RuntimeGraphToolError string
  | RuntimeDurablePolicyError string
  | AuthorizedEffectEvidenceError string
  | FunFlowRuntimeError string
  | ProtocolPersonAbiError string
  | RuntimeError string
  | ValueError string
  | TypeError string
  | KeyError string
  | IndexError string
  | AttributeError string
  | DatabaseError string
  | OSError string
  | UserError string

type_synonym 'a result = "pyerr + 'a"

definition res_bind :: "'e + 'a \<Rightarrow> ('a \<Rightarrow> 'e + 'b) \<Rightarrow> 'e + 'b" where
  "res_bind r f = (case r of Inl e \<Rightarrow> Inl e | Inr x \<Rightarrow> f x)"

fun res_map :: "('a \<Rightarrow> 'e + 'b) \<Rightarrow> 'a list \<Rightarrow> 'e + 'b list" where
  "res_map f [] = Inr []"
| "res_map f (x # xs) =
     res_bind (f x) (\<lambda>y. res_bind (res_map f xs) (\<lambda>ys. Inr (y # ys)))"

definition is_ok :: "'e + 'a \<Rightarrow> bool" where
  "is_ok r = (case r of Inl _ \<Rightarrow> False | Inr _ \<Rightarrow> True)"

lemma res_bind_simps [simp, res_simps]:
  "res_bind (Inl e) f = Inl e"
  "res_bind (Inr x) f = f x"
  by (simp_all add: res_bind_def)

lemma res_bind_Inr_iff [res_simps]:
  "res_bind r f = Inr y \<longleftrightarrow> (\<exists>x. r = Inr x \<and> f x = Inr y)"
  by (cases r) simp_all

lemma res_bind_Inl_iff:
  "res_bind r f = Inl e \<longleftrightarrow> r = Inl e \<or> (\<exists>x. r = Inr x \<and> f x = Inl e)"
  by (cases r) simp_all

lemma res_bind_cong [fundef_cong]:
  "r = r' \<Longrightarrow> (\<And>x. r' = Inr x \<Longrightarrow> f x = f' x) \<Longrightarrow> res_bind r f = res_bind r' f'"
  by (cases r') simp_all

lemma is_ok_simps [simp]: "is_ok (Inr x)" "\<not> is_ok (Inl e)"
  by (simp_all add: is_ok_def)

lemma is_ok_iff: "is_ok r \<longleftrightarrow> (\<exists>x. r = Inr x)"
  by (cases r) simp_all

fun ok_option :: "'e + 'a \<Rightarrow> 'a option" where
  "ok_option (Inl _) = None"
| "ok_option (Inr x) = Some x"

lemma ok_option_simps [simp]:
  "ok_option r = Some x \<longleftrightarrow> r = Inr x" "ok_option r = None \<longleftrightarrow> \<not> is_ok r"
  by (cases r; simp)+

lemma res_map_Inr_length: "res_map f xs = Inr ys \<Longrightarrow> length ys = length xs"
  by (induction xs arbitrary: ys) (auto simp: res_bind_Inr_iff)

lemma res_map_Inr_iff: "res_map f xs = Inr ys \<longleftrightarrow> list_all2 (\<lambda>x y. f x = Inr y) xs ys"
  by (induction xs arbitrary: ys) (auto simp: res_bind_Inr_iff list_all2_Cons1)

lemma res_map_Inr_in: "res_map f xs = Inr ys \<Longrightarrow> y \<in> set ys \<Longrightarrow> \<exists>x \<in> set xs. f x = Inr y"
  by (induction xs arbitrary: ys) (auto simp: res_bind_Inr_iff)

lemma sort_Nil_iff [simp]: "sort xs = [] \<longleftrightarrow> xs = []"
  by (metis length_0_conv length_sort)

lemma res_map_total: "(\<And>x. x \<in> set xs \<Longrightarrow> f x = Inr (g x)) \<Longrightarrow> res_map f xs = Inr (map g xs)"
  by (induction xs) simp_all

section \<open>Joining strings\<close>

text \<open>\<open>sep.join(parts)\<close>.\<close>

fun str_join :: "string \<Rightarrow> string list \<Rightarrow> string" where
  "str_join sep [] = []"
| "str_join sep [x] = x"
| "str_join sep (x # y # ys) = x @ sep @ str_join sep (y # ys)"

text \<open>\<open>s.endswith(suffix)\<close>.\<close>

definition ends_with :: "string \<Rightarrow> string \<Rightarrow> bool" where
  "ends_with s suffix \<longleftrightarrow>
     length suffix \<le> length s \<and> drop (length s - length suffix) s = suffix"

lemma ends_with_append [simp]: "ends_with (s @ suffix) suffix"
  by (simp add: ends_with_def)

lemma find_append:
  "find P (xs @ ys) = (case find P xs of None \<Rightarrow> find P ys | Some x \<Rightarrow> Some x)"
  by (induction xs) simp_all

section \<open>Insertion-ordered dictionaries\<close>

type_synonym 'v pydict = "(string \<times> 'v) list"

abbreviation dict_get :: "('k \<times> 'v) list \<Rightarrow> 'k \<Rightarrow> 'v option" where
  "dict_get d k \<equiv> map_of d k"

abbreviation dict_set :: "'k \<Rightarrow> 'v \<Rightarrow> ('k \<times> 'v) list \<Rightarrow> ('k \<times> 'v) list" where
  "dict_set k v d \<equiv> AList.update k v d"

abbreviation dict_pop :: "'k \<Rightarrow> ('k \<times> 'v) list \<Rightarrow> ('k \<times> 'v) list" where
  "dict_pop k d \<equiv> AList.delete k d"

abbreviation dict_keys :: "('k \<times> 'v) list \<Rightarrow> 'k list" where
  "dict_keys d \<equiv> map fst d"

abbreviation dict_wf :: "('k \<times> 'v) list \<Rightarrow> bool" where
  "dict_wf d \<equiv> distinct (map fst d)"

text \<open>\<open>d.update(u)\<close>: the entries of \<open>u\<close> are assigned in order.\<close>

fun dict_update :: "('k \<times> 'v) list \<Rightarrow> ('k \<times> 'v) list \<Rightarrow> ('k \<times> 'v) list" where
  "dict_update d [] = d"
| "dict_update d ((k, v) # u) = dict_update (dict_set k v d) u"

text \<open>A dict comprehension or display: entries assigned in order into an empty dict.\<close>

definition dict_of :: "('k \<times> 'v) list \<Rightarrow> ('k \<times> 'v) list" where
  "dict_of xs = dict_update [] xs"

text \<open>\<open>d.get(k, default)\<close> and \<open>d[k]\<close>.\<close>

definition dict_get_or :: "('k \<times> 'v) list \<Rightarrow> 'k \<Rightarrow> 'v \<Rightarrow> 'v" where
  "dict_get_or d k v = (case dict_get d k of None \<Rightarrow> v | Some x \<Rightarrow> x)"

definition dict_index :: "'v pydict \<Rightarrow> string \<Rightarrow> 'v result" where
  "dict_index d k = (case dict_get d k of None \<Rightarrow> Inl (KeyError k) | Some v \<Rightarrow> Inr v)"

lemma dict_get_set [simp, dict_simps]:
  "dict_get (dict_set k v d) k' = (if k' = k then Some v else dict_get d k')"
  by (simp add: update_conv')

lemma dict_get_pop [simp, dict_simps]:
  "dict_get (dict_pop k d) k' = (if k' = k then None else dict_get d k')"
  by (simp add: delete_conv')

lemma dict_wf_set [simp, wf_intros]: "dict_wf d \<Longrightarrow> dict_wf (dict_set k v d)"
  by (rule distinct_update)

lemma dict_wf_pop [simp, wf_intros]: "dict_wf d \<Longrightarrow> dict_wf (dict_pop k d)"
  by (simp add: distinct_delete)

lemma dict_keys_set:
  "set (dict_keys (dict_set k v d)) = insert k (set (dict_keys d))"
  by (simp add: dom_update)

lemma dict_wf_update [simp, wf_intros]: "dict_wf d \<Longrightarrow> dict_wf (dict_update d u)"
  by (induction d u rule: dict_update.induct) simp_all

lemma dict_update_snoc: "dict_update d (u @ [(k, v)]) = dict_set k v (dict_update d u)"
  by (induction d u rule: dict_update.induct) simp_all

lemma dict_update_append: "dict_update d (u @ u') = dict_update (dict_update d u) u'"
  by (induction d u rule: dict_update.induct) simp_all

lemma dict_get_update_rev:
  "dict_get (dict_update d u) k =
     (case map_of (rev u) k of None \<Rightarrow> dict_get d k | Some v \<Rightarrow> Some v)"
  by (induction d u rule: dict_update.induct)
     (auto simp: map_add_def split: option.splits)

lemma map_of_rev_wf: "dict_wf u \<Longrightarrow> map_of (rev u) = map_of u"
  by (subst map_of_inject_set) (simp_all add: rev_map [symmetric])

lemma dict_get_update:
  "dict_wf u \<Longrightarrow>
   dict_get (dict_update d u) k = (case dict_get u k of None \<Rightarrow> dict_get d k | Some v \<Rightarrow> Some v)"
  by (simp add: dict_get_update_rev map_of_rev_wf)

lemma dict_keys_update:
  "set (dict_keys (dict_update d u)) = set (dict_keys d) \<union> set (dict_keys u)"
  by (induction d u rule: dict_update.induct) (auto simp: dom_update)

lemma dict_wf_of [simp, wf_intros]: "dict_wf (dict_of xs)"
  by (simp add: dict_of_def)

lemma dict_set_fresh: "k \<notin> set (dict_keys d) \<Longrightarrow> dict_set k v d = d @ [(k, v)]"
  by (induction d) auto

lemma dict_update_fresh:
  "dict_wf u \<Longrightarrow> set (dict_keys d) \<inter> set (dict_keys u) = {} \<Longrightarrow> dict_update d u = d @ u"
  by (induction d u rule: dict_update.induct) (auto simp: dict_set_fresh dom_update)

lemma dict_of_distinct [simp]: "dict_wf xs \<Longrightarrow> dict_of xs = xs"
  by (simp add: dict_of_def dict_update_fresh)

lemma dict_index_simps [simp]:
  "dict_get d k = Some v \<Longrightarrow> dict_index d k = Inr v"
  "dict_get d k = None \<Longrightarrow> dict_index d k = Inl (KeyError k)"
  by (simp_all add: dict_index_def)

lemma dict_get_or_simps [simp]:
  "dict_get d k = Some v \<Longrightarrow> dict_get_or d k w = v"
  "dict_get d k = None \<Longrightarrow> dict_get_or d k w = w"
  by (simp_all add: dict_get_or_def)

text \<open>\<open>defaultdict(list)\<close>: a missing key reads as the empty list.\<close>

definition dd_get :: "('k \<times> 'v list) list \<Rightarrow> 'k \<Rightarrow> 'v list" where
  "dd_get d k = (case dict_get d k of None \<Rightarrow> [] | Some xs \<Rightarrow> xs)"

definition dd_append :: "'k \<Rightarrow> 'v \<Rightarrow> ('k \<times> 'v list) list \<Rightarrow> ('k \<times> 'v list) list" where
  "dd_append k v d = dict_set k (dd_get d k @ [v]) d"

lemma dd_get_Nil [simp]: "dd_get [] k = []"
  by (simp add: dd_get_def)

lemma dd_get_append [simp]:
  "dd_get (dd_append k v d) k' = (if k' = k then dd_get d k @ [v] else dd_get d k')"
  by (simp add: dd_append_def dd_get_def)

end
