(* ===== verification/Graph_Types.thy ===== *)
theory Graph_Types
  imports Prelude
begin

text \<open>
  The data of the runtime graph (\<open>_runtime_graph_types.py\<close>, and the message classes of
  \<open>messages.py\<close> that travel inside a graph state): Python values, plans, commands, sends,
  interrupts, events, what an action or a router may return, and the interruption that
  carries a paused run.

  A Python \<open>str\<close> is a HOL string holding its UTF-8 bytes, and \<open>bytes\<close> is the same type, so
  \<open>encode\<close> and \<open>decode\<close> are the identity. User code (actions, routers, reducers) is a
  function argument of the model. Actions and routers thread a world \<open>'w\<close> so that nothing
  is assumed about their determinism or side effects; an action also reports the values it
  pushed into the custom stream with \<open>runtime.emit_custom\<close>.
\<close>

section \<open>Plans\<close>

definition START :: string where "START = ''__start__''"
definition END :: string where "END = ''__end__''"

record graph_edge =
  edge_source :: string
  edge_target :: string

record graph_conditional_edge =
  ce_source :: string
  ce_router :: string
  ce_routes :: "string pydict"

record graph_plan =
  plan_nodes :: "string list"
  plan_edges :: "graph_edge list"
  plan_conditional_edges :: "graph_conditional_edge list"
  plan_step_limit :: int
  plan_metadata :: "string pydict"

section \<open>Values\<close>

datatype 'v tool_call =
  ToolCall (tc_name: string) (tc_args: "(string \<times> 'v) list") (tc_id: string)

datatype 'v message =
  Message (msg_role: string) (msg_content: 'v) (msg_id: "string option")
    (msg_name: "string option") (msg_tool_calls: "'v tool_call list")
    (msg_tool_call_id: "string option")

datatype pyval =
    PNone
  | PBool bool
  | PInt int
  | PStr string
  | PTuple "pyval list"
  | PList "pyval list"
  | PDict "(string \<times> pyval) list"
  | PSend string "(string \<times> pyval) list"
  | PMsg "pyval message"
  | PPlan graph_plan

type_synonym state = "pyval pydict"

section \<open>Commands, sends, interrupts, events\<close>

datatype goto = GotoNone | GotoStr string | GotoSeq "string list"

record graph_command =
  cmd_update :: state
  cmd_goto :: goto

definition goto_nodes :: "graph_command \<Rightarrow> string list" where
  "goto_nodes c =
     (case cmd_goto c of GotoNone \<Rightarrow> [] | GotoStr n \<Rightarrow> [n] | GotoSeq ns \<Rightarrow> ns)"

record graph_send =
  send_target :: string
  send_update :: state

record graph_interrupt =
  int_value :: pyval
  int_resumable :: bool

record graph_event =
  ev_kind :: string
  ev_node :: "string option"
  ev_step :: int
  ev_detail :: state

text \<open>An item of the pending queue: a node name, or a send with its branch update.\<close>

datatype target = TNode string | TSend graph_send

fun target_val :: "target \<Rightarrow> pyval" where
  "target_val (TNode n) = PStr n"
| "target_val (TSend s) = PSend (send_target s) (send_update s)"

fun target_name :: "target \<Rightarrow> string" where
  "target_name (TNode n) = n"
| "target_name (TSend s) = send_target s"

definition strs :: "string list \<Rightarrow> pyval" where
  "strs xs = PTuple (map PStr xs)"

text \<open>
  What an action returns: a mapping, a command, an interrupt, one send, a sequence of sends
  (an empty sequence is one), nothing, an awaitable (a coroutine, that only the asynchronous
  executor unwraps; what awaiting it yields or raises is its argument, and its effects are
  part of the call that made it), or any other object, which has no \<open>items\<close> method.
\<close>

datatype action_result =
    RNone
  | RUpdate state
  | RCommand graph_command
  | RInterrupt graph_interrupt
  | RSend graph_send
  | RSends "graph_send list"
  | RAwaitable "pyerr + action_result"
  | ROther

datatype route =
    RtStr string
  | RtSeq "string list"
  | RtSend graph_send
  | RtSends "graph_send list"
  | RtAwaitable string "pyerr + route"
  | RtOther string

type_synonym 'w action = "'w \<Rightarrow> state \<Rightarrow> 'w \<times> pyval list \<times> action_result result"
type_synonym 'w router = "'w \<Rightarrow> state \<Rightarrow> 'w \<times> route result"
type_synonym reducer = "pyval \<Rightarrow> pyval \<Rightarrow> pyval result"

section \<open>Interrupted runs\<close>

record graph_interrupted =
  gi_interrupt :: graph_interrupt
  gi_node :: string
  gi_step :: int
  gi_state :: state
  gi_trace :: "string list"
  gi_pending :: "target list"
  gi_events :: "graph_event list"
  gi_validation_receipt :: string
  gi_plan_digest :: "string option"

text \<open>An exception leaving the executor: an interruption is one, with its payload.\<close>

datatype graph_exn = Raise pyerr | Interrupted graph_interrupted

lemma START_neq_END [simp]: "START \<noteq> END" "END \<noteq> START"
  by (simp_all add: START_def END_def)

end
