(* ===== verification/Graph_State.thy ===== *)
theory Graph_State
  imports Graph_Types "HOL-Library.List_Lexorder" "HOL-Library.Char_ord"
begin

text \<open>
  The pure helpers of the graph executor: \<open>_runtime_graph_state.py\<close> (endpoint check, edge
  indices, state merge, branch update, normalisation of an action's result),
  \<open>_runtime_graph_context.py\<close> (the mutable run context) and \<open>_runtime_graph_factory.py\<close>
  (linear plans, binding the runtime to an action).
\<close>

section \<open>\<open>_runtime_graph_state.py\<close>\<close>

datatype update_value = UNone | UMap state | UObj

record normalized =
  na_update :: update_value
  na_goto :: "string list"
  na_controls_flow :: bool
  na_sends :: "graph_send list"
  na_interrupt :: "graph_interrupt option"

definition check_endpoint :: "string \<Rightarrow> string list \<Rightarrow> unit result" where
  "check_endpoint endpoint node_set =
     (if endpoint \<notin> set node_set \<and> endpoint \<notin> {START, END}
      then Inl (RuntimeGraphError (''unknown runtime graph endpoint: '' @ endpoint))
      else Inr ())"

definition index_edges :: "graph_edge list \<Rightarrow> (string \<times> string list) list" where
  "index_edges edges = fold (\<lambda>e d. dd_append (edge_source e) (edge_target e) d) edges []"

definition index_conditional_edges ::
  "graph_conditional_edge list \<Rightarrow> (string \<times> graph_conditional_edge list) list" where
  "index_conditional_edges edges = fold (\<lambda>e d. dd_append (ce_source e) e d) edges []"

fun merge_state :: "state \<Rightarrow> state \<Rightarrow> (string \<times> reducer) list \<Rightarrow> state result" where
  "merge_state merged [] reducers = Inr merged"
| "merge_state merged ((key, val) # update) reducers =
     (case (dict_get merged key, dict_get reducers key) of
        (Some old, Some red) \<Rightarrow>
          res_bind (red old val) (\<lambda>x. merge_state (dict_set key x merged) update reducers)
      | _ \<Rightarrow> merge_state (dict_set key val merged) update reducers)"

definition with_branch_update :: "state \<Rightarrow> state option \<Rightarrow> state" where
  "with_branch_update st upd =
     (case upd of None \<Rightarrow> st | Some u \<Rightarrow> if u = [] then st else dict_update st u)"

fun normalize_action_result :: "action_result \<Rightarrow> normalized" where
  "normalize_action_result (RInterrupt i) =
     \<lparr>na_update = UNone, na_goto = [], na_controls_flow = True, na_sends = [],
      na_interrupt = Some i\<rparr>"
| "normalize_action_result (RCommand c) =
     \<lparr>na_update = UMap (cmd_update c), na_goto = goto_nodes c,
      na_controls_flow = (goto_nodes c \<noteq> []), na_sends = [], na_interrupt = None\<rparr>"
| "normalize_action_result (RSend s) =
     \<lparr>na_update = UNone, na_goto = [], na_controls_flow = True, na_sends = [s],
      na_interrupt = None\<rparr>"
| "normalize_action_result (RSends ss) =
     \<lparr>na_update = UNone, na_goto = [], na_controls_flow = True, na_sends = ss,
      na_interrupt = None\<rparr>"
| "normalize_action_result RNone =
     \<lparr>na_update = UNone, na_goto = [], na_controls_flow = False, na_sends = [],
      na_interrupt = None\<rparr>"
| "normalize_action_result (RUpdate u) =
     \<lparr>na_update = UMap u, na_goto = [], na_controls_flow = False, na_sends = [],
      na_interrupt = None\<rparr>"
| "normalize_action_result (RAwaitable r) =
     \<lparr>na_update = UObj, na_goto = [], na_controls_flow = False, na_sends = [],
      na_interrupt = None\<rparr>"
| "normalize_action_result ROther =
     \<lparr>na_update = UObj, na_goto = [], na_controls_flow = False, na_sends = [],
      na_interrupt = None\<rparr>"

section \<open>\<open>_runtime_graph_context.py\<close>\<close>

record graph_ctx =
  cx_state :: state
  cx_pending :: "target list"
  cx_trace :: "string list"
  cx_events :: "graph_event list"
  cx_step :: int

definition ctx_from_initial :: "(string \<times> string list) list \<Rightarrow> state \<Rightarrow> graph_ctx" where
  "ctx_from_initial edges initial_state =
     \<lparr>cx_state = initial_state, cx_pending = map TNode (dd_get edges START),
      cx_trace = [], cx_events = [], cx_step = 0\<rparr>"

definition ctx_from_interrupted :: "graph_interrupted \<Rightarrow> graph_ctx" where
  "ctx_from_interrupted i =
     \<lparr>cx_state = gi_state i, cx_pending = gi_pending i, cx_trace = gi_trace i,
      cx_events = gi_events i, cx_step = gi_step i\<rparr>"

text \<open>\<open>deque.popleft\<close> raises on an empty queue; the run loops only call it on a non-empty one.\<close>

definition next_node :: "graph_ctx \<Rightarrow> (string \<times> state option \<times> graph_ctx) result" where
  "next_node cx =
     (case cx_pending cx of
        [] \<Rightarrow> Inl (IndexError ''pop from an empty deque'')
      | TSend s # rest \<Rightarrow> Inr (send_target s, Some (send_update s), cx\<lparr>cx_pending := rest\<rparr>)
      | TNode n # rest \<Rightarrow> Inr (n, None, cx\<lparr>cx_pending := rest\<rparr>))"

definition advance_step :: "int \<Rightarrow> graph_ctx \<Rightarrow> graph_ctx result" where
  "advance_step step_limit cx =
     (let cx' = cx\<lparr>cx_step := cx_step cx + 1\<rparr>
      in if cx_step cx' > step_limit
         then Inl (RuntimeGraphError ''runtime graph step limit exceeded'')
         else Inr cx')"

definition publish ::
  "string \<Rightarrow> string option \<Rightarrow> int \<Rightarrow> state \<Rightarrow> graph_ctx \<Rightarrow> graph_event \<times> graph_ctx" where
  "publish kind node step detail cx =
     (let ev = \<lparr>ev_kind = kind, ev_node = node, ev_step = step, ev_detail = detail\<rparr>
      in (ev, cx\<lparr>cx_events := cx_events cx @ [ev]\<rparr>))"

definition record_trace :: "string option \<Rightarrow> graph_ctx \<Rightarrow> graph_ctx" where
  "record_trace trace_key cx =
     (case trace_key of
        None \<Rightarrow> cx
      | Some k \<Rightarrow> cx\<lparr>cx_state := dict_set k (PList (map PStr (cx_trace cx))) (cx_state cx)\<rparr>)"

section \<open>\<open>_runtime_graph_factory.py\<close>\<close>

definition mk_edge :: "string \<Rightarrow> string \<Rightarrow> graph_edge" where
  "mk_edge s t = \<lparr>edge_source = s, edge_target = t\<rparr>"

definition linear_plan :: "string list \<Rightarrow> int \<Rightarrow> graph_plan result" where
  "linear_plan nodes step_limit =
     (if nodes = []
      then Inl (RuntimeGraphError ''linear runtime graph requires at least one node'')
      else Inr \<lparr>plan_nodes = nodes,
                plan_edges = [mk_edge START (hd nodes)]
                  @ map (\<lambda>(s, t). mk_edge s t) (zip nodes (tl nodes))
                  @ [mk_edge (last nodes) END],
                plan_conditional_edges = [],
                plan_step_limit = step_limit,
                plan_metadata = []\<rparr>)"

text \<open>
  A Python callable as \<open>bind_runtime_action\<close> sees it: the number of its positional
  parameters, whether it takes \<open>*args\<close>, and its behaviour with and without the runtime as a
  second argument.
\<close>

record ('r, 'w) callable =
  ca_positional :: nat
  ca_varargs :: bool
  ca_call1 :: "'w action"
  ca_call2 :: "'r \<Rightarrow> 'w action"

definition bind_runtime_action :: "('r, 'w) callable \<Rightarrow> 'r \<Rightarrow> 'w action" where
  "bind_runtime_action action runtime =
     (if ca_varargs action \<or> ca_positional action \<ge> 2
      then ca_call2 action runtime else ca_call1 action)"

section \<open>Lemmas\<close>

lemma mk_edge_simps [simp]: "edge_source (mk_edge s t) = s" "edge_target (mk_edge s t) = t"
  by (simp_all add: mk_edge_def)

lemma check_endpoint_Inr [simp]:
  "check_endpoint e ns = Inr u \<longleftrightarrow> e \<in> set ns \<union> {START, END}"
  by (simp add: check_endpoint_def)

lemma fold_dd_append:
  "dd_get (fold (\<lambda>e d. dd_append (f e) (g e) d) es d0) n =
   dd_get d0 n @ map g (filter (\<lambda>e. f e = n) es)"
  by (induction es arbitrary: d0) auto

text \<open>The index of the edges: the targets of the edges leaving a node, in plan order.\<close>

lemma index_edges_get:
  "dd_get (index_edges es) n = map edge_target (filter (\<lambda>e. edge_source e = n) es)"
  by (simp add: index_edges_def fold_dd_append)

lemma index_conditional_edges_get:
  "dd_get (index_conditional_edges es) n = filter (\<lambda>e. ce_source e = n) es"
  using fold_dd_append [of ce_source "\<lambda>e. e" es "[]" n] by (simp add: index_conditional_edges_def)

lemma merge_state_ConsE:
  assumes "merge_state s ((k, v) # u) rs = Inr s'"
  obtains x where "merge_state (dict_set k x s) u rs = Inr s'"
  using assms by (auto simp: res_bind_Inr_iff split: option.splits)

lemma merge_state_wf: "dict_wf s \<Longrightarrow> merge_state s u rs = Inr s' \<Longrightarrow> dict_wf s'"
proof (induction u arbitrary: s)
  case (Cons kv u)
  then obtain x where "merge_state (dict_set (fst kv) x s) u rs = Inr s'"
    by (metis merge_state_ConsE prod.collapse)
  with Cons.IH [OF _ this] Cons.prems(1) show ?case by simp
qed simp

lemma merge_state_keys:
  "merge_state s u rs = Inr s' \<Longrightarrow> set (dict_keys s') = set (dict_keys s) \<union> set (dict_keys u)"
proof (induction u arbitrary: s)
  case (Cons kv u)
  then obtain x where "merge_state (dict_set (fst kv) x s) u rs = Inr s'"
    by (metis merge_state_ConsE prod.collapse)
  from Cons.IH [OF this] show ?case by (simp add: dom_update)
qed simp

lemma merge_state_frame:
  "k \<notin> set (dict_keys u) \<Longrightarrow> merge_state s u rs = Inr s' \<Longrightarrow> dict_get s' k = dict_get s k"
proof (induction u arbitrary: s)
  case (Cons kv u)
  then obtain x where "merge_state (dict_set (fst kv) x s) u rs = Inr s'"
    by (metis merge_state_ConsE prod.collapse)
  with Cons.IH [OF _ this] Cons.prems(1) show ?case by simp
qed simp

text \<open>Without reducers a merge is \<open>dict.update\<close>.\<close>

lemma merge_state_no_reducers: "merge_state s u [] = Inr (dict_update s u)"
  by (induction s u "[] :: (string \<times> reducer) list" rule: merge_state.induct)
     (auto split: option.splits)

lemma advance_step_Inr [simp]:
  "advance_step l cx = Inr cx' \<longleftrightarrow> cx_step cx + 1 \<le> l \<and> cx' = cx\<lparr>cx_step := cx_step cx + 1\<rparr>"
  by (auto simp: advance_step_def Let_def)

lemma record_trace_simps [simp]:
  "cx_pending (record_trace k cx) = cx_pending cx"
  "cx_trace (record_trace k cx) = cx_trace cx"
  "cx_events (record_trace k cx) = cx_events cx"
  "cx_step (record_trace k cx) = cx_step cx"
  by (auto simp: record_trace_def split: option.splits)

lemma publish_simps [simp]:
  "snd (publish k n s d cx) = cx\<lparr>cx_events := cx_events cx @ [fst (publish k n s d cx)]\<rparr>"
  "ev_kind (fst (publish k n s d cx)) = k"
  "ev_node (fst (publish k n s d cx)) = n"
  "ev_step (fst (publish k n s d cx)) = s"
  "ev_detail (fst (publish k n s d cx)) = d"
  by (simp_all add: publish_def Let_def)

end
