(* ===== verification/Py_Text.thy ===== *)
theory Py_Text
  imports Prelude
begin

text \<open>
  The text operations of Python that the manifests, receipts and data printers use:
  \<open>strip\<close>, \<open>splitlines\<close>, \<open>split\<close> at a separator, \<open>lower\<close>, \<open>str\<close> and \<open>int\<close> on integers. Text is
  a HOL string; the whitespace and the line boundaries are the ASCII ones, which is what
  the manifests of the repository are written in.
\<close>

section \<open>Stripping and splitting\<close>

definition is_space :: "char \<Rightarrow> bool" where
  "is_space c \<longleftrightarrow> c \<in> {CHR '' '', CHR 0x09, CHR 0x0A, CHR 0x0B, CHR 0x0C, CHR 0x0D,
                       CHR 0x1C, CHR 0x1D, CHR 0x1E, CHR 0x1F}"

definition is_newline :: "char \<Rightarrow> bool" where
  "is_newline c \<longleftrightarrow> c \<in> {CHR 0x0A, CHR 0x0B, CHR 0x0C, CHR 0x0D, CHR 0x1C, CHR 0x1D, CHR 0x1E}"

definition strip :: "string \<Rightarrow> string" where
  "strip s = rev (dropWhile is_space (rev (dropWhile is_space s)))"

text \<open>\<open>s.splitlines()\<close>: a final line without a terminator counts, an empty rest does not.\<close>

fun splitlines_acc :: "string \<Rightarrow> string \<Rightarrow> string list" where
  "splitlines_acc acc [] = (if acc = [] then [] else [rev acc])"
| "splitlines_acc acc [c] = (if is_newline c then [rev acc] else [rev (c # acc)])"
| "splitlines_acc acc (c # d # s) =
     (if c = CHR 0x0D \<and> d = CHR 0x0A then rev acc # splitlines_acc [] s
      else if is_newline c then rev acc # splitlines_acc [] (d # s)
      else splitlines_acc (c # acc) (d # s))"

definition splitlines :: "string \<Rightarrow> string list" where
  "splitlines s = splitlines_acc [] s"

text \<open>\<open>s.split(sep)\<close> for a one-character separator, and \<open>s.split(sep, 1)\<close> when \<open>sep\<close> occurs.\<close>

fun split_on :: "char \<Rightarrow> string \<Rightarrow> string list" where
  "split_on sep [] = [[]]"
| "split_on sep (c # s) =
     (if c = sep then [] # split_on sep s
      else (case split_on sep s of [] \<Rightarrow> [[c]] | w # ws \<Rightarrow> (c # w) # ws))"

definition split_once :: "char \<Rightarrow> string \<Rightarrow> string \<times> string" where
  "split_once sep s = (takeWhile (\<lambda>c. c \<noteq> sep) s, tl (dropWhile (\<lambda>c. c \<noteq> sep) s))"

definition lower_char :: "char \<Rightarrow> char" where
  "lower_char c =
     (let n = of_char c :: nat in if 65 \<le> n \<and> n \<le> 90 then char_of (n + 32) else c)"

abbreviation lower :: "string \<Rightarrow> string" where
  "lower s \<equiv> map lower_char s"

lemma dropWhile_id: "(s = [] \<or> \<not> P (hd s)) \<Longrightarrow> dropWhile P s = s"
  by (cases s) simp_all

lemma strip_Nil [simp]: "strip [] = []"
  by (simp add: strip_def)

text \<open>A text that does not begin or end with whitespace is its own strip.\<close>

definition trimmed :: "string \<Rightarrow> bool" where
  "trimmed s \<longleftrightarrow> s = [] \<or> (\<not> is_space (hd s) \<and> \<not> is_space (last s))"

lemma strip_trimmed: "trimmed s \<Longrightarrow> strip s = s"
proof (cases "s = []")
  case False
  assume "trimmed s"
  with False have "\<not> is_space (hd s)" "\<not> is_space (last s)" by (auto simp: trimmed_def)
  with False show ?thesis by (simp add: strip_def dropWhile_id hd_rev)
qed simp

lemma trimmed_strip: "trimmed (strip s)"
proof (cases "strip s = []")
  case False
  let ?d = "dropWhile is_space s"
  let ?r = "dropWhile is_space (rev ?d)"
  from False have r: "?r \<noteq> []" by (simp add: strip_def)
  then have "\<not> is_space (hd ?r)" by (rule hd_dropWhile)
  then have l: "\<not> is_space (last (strip s))" using r by (simp add: strip_def last_rev)
  have d: "?d \<noteq> []" using r by (metis dropWhile.simps(1) rev.simps(1))
  then have hd: "\<not> is_space (hd ?d)" by (rule hd_dropWhile)
  have "hd (strip s) = hd ?d"
  proof -
    have "rev ?d = takeWhile is_space (rev ?d) @ ?r" by simp
    then have "?d = rev ?r @ rev (takeWhile is_space (rev ?d))" by (metis rev_append rev_rev_ident)
    then show ?thesis using r by (metis hd_append2 rev_is_Nil_conv strip_def)
  qed
  with hd l show ?thesis by (simp add: trimmed_def)
qed (simp add: trimmed_def)

text \<open>Joining lines that hold no line boundary and splitting again.\<close>

lemma splitlines_acc_line:
  assumes "\<forall>c \<in> set s. \<not> is_newline c"
  shows "splitlines_acc acc (s @ CHR 0x0A # rest) = (rev acc @ s) # splitlines_acc [] rest"
  using assms
proof (induction s arbitrary: acc)
  case Nil
  show ?case by (cases rest) (simp_all add: is_newline_def)
next
  case (Cons c s)
  have "c \<noteq> CHR 0x0D" using Cons.prems by (auto simp: is_newline_def)
  then show ?case
    using Cons.prems Cons.IH [of "c # acc"] by (cases "s @ CHR 0x0A # rest") auto
qed

lemma splitlines_lines:
  assumes "\<And>l c. l \<in> set ls \<Longrightarrow> c \<in> set l \<Longrightarrow> \<not> is_newline c"
  shows "splitlines (concat (map (\<lambda>l. l @ [CHR 0x0A]) ls)) = ls"
  using assms unfolding splitlines_def
proof (induction ls)
  case (Cons l ls)
  have "\<forall>c \<in> set l. \<not> is_newline c" using Cons.prems by (meson list.set_intros(1))
  then have "splitlines_acc [] (l @ CHR 0x0A # concat (map (\<lambda>l. l @ [CHR 0x0A]) ls)) =
      l # splitlines_acc [] (concat (map (\<lambda>l. l @ [CHR 0x0A]) ls))"
    using splitlines_acc_line [of l "[]"] by simp
  moreover have "splitlines_acc [] (concat (map (\<lambda>l. l @ [CHR 0x0A]) ls)) = ls"
    by (rule Cons.IH) (meson Cons.prems list.set_intros(2))
  ultimately show ?case by simp
qed simp

lemma str_join_newline:
  "ls \<noteq> [] \<Longrightarrow> str_join [CHR 0x0A] ls @ [CHR 0x0A] = concat (map (\<lambda>l. l @ [CHR 0x0A]) ls)"
  by (induction "[CHR 0x0A]" ls rule: str_join.induct) simp_all

lemma split_once_append:
  "sep \<notin> set k \<Longrightarrow> split_once sep (k @ sep # v) = (k, v)"
  by (induction k) (auto simp: split_once_def)

lemma split_on_no_sep: "sep \<notin> set s \<Longrightarrow> split_on sep s = [s]"
  by (induction s) auto

lemma split_on_append:
  "sep \<notin> set s \<Longrightarrow> split_on sep (s @ sep # rest) = s # split_on sep rest"
  by (induction s) auto

lemma split_on_join:
  "ws \<noteq> [] \<Longrightarrow> (\<And>w. w \<in> set ws \<Longrightarrow> sep \<notin> set w) \<Longrightarrow> split_on sep (str_join [sep] ws) = ws"
  by (induction "[sep]" ws rule: str_join.induct) (simp_all add: split_on_no_sep split_on_append)

section \<open>Integers as text\<close>

definition digit_char :: "nat \<Rightarrow> char" where
  "digit_char n = char_of (48 + n)"

definition is_digit :: "char \<Rightarrow> bool" where
  "is_digit c \<longleftrightarrow> 48 \<le> (of_char c :: nat) \<and> (of_char c :: nat) \<le> 57"

definition digit_val :: "char \<Rightarrow> nat" where
  "digit_val c = of_char c - 48"

fun nat_str :: "nat \<Rightarrow> string" where
  "nat_str n = (if n < 10 then [digit_char n] else nat_str (n div 10) @ [digit_char (n mod 10)])"

declare nat_str.simps [simp del]

definition int_str :: "int \<Rightarrow> string" where
  "int_str i = (if i < 0 then CHR ''-'' # nat_str (nat (- i)) else nat_str (nat i))"

definition nat_val :: "string \<Rightarrow> nat" where
  "nat_val s = foldl (\<lambda>a c. 10 * a + digit_val c) 0 s"

text \<open>\<open>int(s)\<close>: surrounding whitespace, a sign, digits, single underscores between digits.\<close>

fun digits_ok :: "string \<Rightarrow> bool" where
  "digits_ok [] = False"
| "digits_ok [c] = is_digit c"
| "digits_ok (c # d # s) =
     (is_digit c \<and> (if d = CHR ''_'' then digits_ok s else digits_ok (d # s)))"

definition parse_int :: "string \<Rightarrow> int result" where
  "parse_int s =
     (let t = strip s;
          neg = (t \<noteq> [] \<and> hd t = CHR ''-'');
          body = (if t \<noteq> [] \<and> hd t \<in> {CHR ''-'', CHR ''+''} then tl t else t);
          n = int (nat_val (filter (\<lambda>c. c \<noteq> CHR ''_'') body))
      in if digits_ok body then Inr (if neg then - n else n)
         else Inl (ValueError (''invalid literal for int() with base 10: '' @ s)))"

lemma of_char_digit [simp]: "n < 10 \<Longrightarrow> (of_char (digit_char n) :: nat) = 48 + n"
  by (simp add: digit_char_def)

lemma digit_char_simps [simp]:
  "n < 10 \<Longrightarrow> is_digit (digit_char n)" "n < 10 \<Longrightarrow> digit_val (digit_char n) = n"
  by (simp_all add: is_digit_def digit_val_def)

lemma nat_str_digits: "\<forall>c \<in> set (nat_str n). is_digit c"
  by (induction n rule: nat_str.induct) (subst nat_str.simps, auto)

lemma nat_str_nonempty [simp]: "nat_str n \<noteq> []"
  by (subst nat_str.simps) simp

lemma nat_val_str [simp]: "nat_val (nat_str n) = n"
proof (induction n rule: nat_str.induct)
  case (1 n)
  then show ?case
    by (subst nat_str.simps) (auto simp: nat_val_def)
qed

lemma is_digit_neq:
  "is_digit c \<Longrightarrow> \<not> is_space c" "is_digit c \<Longrightarrow> c \<noteq> CHR ''_''" "is_digit c \<Longrightarrow> c \<noteq> CHR ''-''"
  "is_digit c \<Longrightarrow> c \<noteq> CHR ''+''" "is_digit c \<Longrightarrow> \<not> is_newline c"
  by (auto simp: is_digit_def is_space_def is_newline_def)

lemma digits_ok_all: "s \<noteq> [] \<Longrightarrow> \<forall>c \<in> set s. is_digit c \<Longrightarrow> digits_ok s"
  by (induction s rule: digits_ok.induct) (auto dest: is_digit_neq(2))

lemma filter_digits: "\<forall>c \<in> set s. is_digit c \<Longrightarrow> filter (\<lambda>c. c \<noteq> CHR ''_'') s = s"
  by (auto simp: filter_id_conv dest: is_digit_neq(2))

lemma nat_str_trimmed: "trimmed (nat_str n)" "trimmed (CHR ''-'' # nat_str n)"
proof -
  have "is_digit (hd (nat_str n))" "is_digit (last (nat_str n))"
    using nat_str_digits [of n] by simp_all
  then show "trimmed (nat_str n)" "trimmed (CHR ''-'' # nat_str n)"
    by (auto simp: trimmed_def is_space_def dest: is_digit_neq(1))
qed

lemma nat_str_body:
  "digits_ok (nat_str n)" "filter (\<lambda>c. c \<noteq> CHR ''_'') (nat_str n) = nat_str n"
  "hd (nat_str n) \<noteq> CHR ''-''" "hd (nat_str n) \<noteq> CHR ''+''"
  using nat_str_digits [of n] is_digit_neq(3,4) [of "hd (nat_str n)"]
  by (auto simp: digits_ok_all filter_digits)

lemma int_str_trimmed: "trimmed (int_str i)"
  by (simp add: int_str_def nat_str_trimmed)

text \<open>Printing an integer and parsing it back.\<close>

lemma parse_int_str [simp]: "parse_int (int_str i) = Inr i"
  by (simp add: parse_int_def int_str_def strip_trimmed nat_str_trimmed nat_str_body Let_def)

lemma int_str_no_newline: "c \<in> set (int_str i) \<Longrightarrow> \<not> is_newline c"
  using nat_str_digits by (fastforce simp: int_str_def is_newline_def is_digit_def split: if_splits)

end
