(* ===== verification/Py_Repr.thy ===== *)
theory Py_Repr
  imports Py_Text
begin

text \<open>
  Python's \<open>repr\<close> of texts, integers and nested tuples, on texts of UTF-8 bytes: bytes from
  \<open>0x80\<close> on are copied, as Python does for printable characters. \<open>repr\<close> is injective.
\<close>

section \<open>\<open>repr\<close>\<close>

datatype pyrepr = ReprStr string | ReprInt int | ReprTuple "pyrepr list"

text \<open>The quote is \<open>'\<close> unless the text has a \<open>'\<close> and no \<open>"\<close>.\<close>

definition repr_quote :: "string \<Rightarrow> char" where
  "repr_quote s = (if CHR 0x27 \<in> set s \<and> CHR 0x22 \<notin> set s then CHR 0x22 else CHR 0x27)"

definition repr_hex :: "nat \<Rightarrow> char" where
  "repr_hex n = (if n < 10 then char_of (48 + n) else char_of (87 + n))"

definition repr_char :: "char \<Rightarrow> char \<Rightarrow> string" where
  "repr_char q c =
     (if c = CHR 0x5C \<or> c = q then [CHR 0x5C, c]
      else if c = CHR 0x09 then [CHR 0x5C, CHR ''t'']
      else if c = CHR 0x0A then [CHR 0x5C, CHR ''n'']
      else if c = CHR 0x0D then [CHR 0x5C, CHR ''r'']
      else let n = of_char c :: nat in
        if n < 32 \<or> n = 127
        then [CHR 0x5C, CHR ''x'', repr_hex (n div 16), repr_hex (n mod 16)]
        else [c])"

definition repr_str :: "string \<Rightarrow> string" where
  "repr_str s = (let q = repr_quote s in q # concat (map (repr_char q) s) @ [q])"

fun py_repr :: "pyrepr \<Rightarrow> string" and repr_items :: "pyrepr list \<Rightarrow> string"
  and repr_rest :: "pyrepr list \<Rightarrow> string" where
  "py_repr (ReprStr s) = repr_str s"
| "py_repr (ReprInt i) = int_str i"
| "py_repr (ReprTuple xs) = CHR ''('' # repr_items xs"
| "repr_items [] = [CHR '')'']"
| "repr_items (x # xs) = py_repr x @ (if xs = [] then '',)'' else repr_rest xs)"
| "repr_rest [] = [CHR '')'']"
| "repr_rest (x # xs) = '', '' @ py_repr x @ repr_rest xs"

section \<open>\<open>repr\<close> is injective\<close>

definition quote_char :: "char \<Rightarrow> bool" where
  "quote_char q \<longleftrightarrow> q = CHR 0x22 \<or> q = CHR 0x27"

lemma repr_hex_inj: "a < 16 \<Longrightarrow> b < 16 \<Longrightarrow> repr_hex a = repr_hex b \<longleftrightarrow> a = b"
proof -
  assume ab: "a < 16" "b < 16"
  have e: "of_char (repr_hex n) = (if n < 10 then 48 + n else 87 + n)" if "n < 16" for n :: nat
    using that by (simp add: repr_hex_def)
  show ?thesis
  proof
    assume "repr_hex a = repr_hex b"
    then have "of_char (repr_hex a) = (of_char (repr_hex b) :: nat)" by simp
    with e [OF ab(1)] e [OF ab(2)] show "a = b" by (simp split: if_splits)
  qed simp
qed

lemma hex_pair_inj:
  assumes "m < 256" "n < 256" "repr_hex (m div 16) = repr_hex (n div 16)" "repr_hex (m mod 16) = repr_hex (n mod 16)"
  shows "m = (n :: nat)"
proof -
  have "m div 16 = n div 16" "m mod 16 = n mod 16"
    using assms repr_hex_inj [of "m div 16" "n div 16"] repr_hex_inj [of "m mod 16" "n mod 16"] by auto
  then show ?thesis by (metis div_mult_mod_eq)
qed

lemma of_char_less_256: "of_char c < (256 :: nat)"
  by (rule nat_of_char_less_256)

lemma repr_char_inj:
  assumes "quote_char q" "repr_char q c @ r = repr_char q d @ r'"
  shows "c = d \<and> r = r'"
  using assms
  by (auto simp: quote_char_def repr_char_def Let_def split: if_splits
      dest!: hex_pair_inj [OF of_char_less_256 of_char_less_256]) (metis of_char_eq_iff)+

lemma repr_char_hd:
  assumes "quote_char q"
  shows "repr_char q c \<noteq> []" "hd (repr_char q c) \<noteq> q"
  using assms by (auto simp: repr_char_def Let_def quote_char_def)

lemma repr_body_inj:
  assumes "quote_char q" "concat (map (repr_char q) s) @ q # r = concat (map (repr_char q) t) @ q # r'"
  shows "s = t \<and> r = r'"
  using assms(2)
proof (induction s arbitrary: t)
  case Nil
  then show ?case
    using repr_char_hd [OF assms(1)] by (cases t) (auto, metis hd_append2 list.sel(1))
next
  case (Cons c s)
  show ?case
  proof (cases t)
    case Nil
    with Cons.prems repr_char_hd [OF assms(1), of c] show ?thesis by (auto, metis hd_append2 list.sel(1))
  next
    case (Cons d t')
    with Cons.prems repr_char_inj [OF assms(1)] Cons.IH [of t'] show ?thesis by auto
  qed
qed

lemma quote_char_repr [simp]: "quote_char (repr_quote s)"
  by (simp add: repr_quote_def quote_char_def)

lemma repr_str_inj: "repr_str s @ r = repr_str t @ r' \<Longrightarrow> s = t \<and> r = r'"
  using repr_body_inj [of "repr_quote t" s r t r'] by (auto simp: repr_str_def Let_def)

lemma takeWhile_digits:
  "\<forall>c \<in> set ds. is_digit c \<Longrightarrow> r = [] \<or> \<not> is_digit (hd r) \<Longrightarrow> takeWhile is_digit (ds @ r) = ds"
  by (induction ds) (cases r, auto)

lemma nat_str_inj:
  assumes "r = [] \<or> \<not> is_digit (hd r)" "r' = [] \<or> \<not> is_digit (hd r')" "nat_str m @ r = nat_str n @ r'"
  shows "m = n \<and> r = r'"
proof -
  have "nat_str m = nat_str n"
    using takeWhile_digits [OF nat_str_digits assms(1), of m] takeWhile_digits [OF nat_str_digits assms(2), of n]
      assms(3) by simp
  with assms(3) show ?thesis by (metis nat_val_str same_append_eq)
qed

lemma nat_str_hd: "is_digit (hd (nat_str n @ r))"
  using nat_str_digits [of n] hd_in_set [OF nat_str_nonempty] by simp

lemma int_str_split:
  "int_str i = (if i < 0 then ''-'' else []) @ nat_str (nat \<bar>i\<bar>)"
  by (simp add: int_str_def)

lemma int_str_inj:
  assumes "r = [] \<or> \<not> is_digit (hd r)" "r' = [] \<or> \<not> is_digit (hd r')" "int_str i @ r = int_str j @ r'"
  shows "i = j \<and> r = r'"
proof -
  have neg: "(hd (int_str k @ s) = CHR ''-'') = (k < 0)" for k s
    using nat_str_hd [of "nat k" s] by (auto simp: int_str_split is_digit_def)
  with assms(3) have s: "i < 0 \<longleftrightarrow> j < 0" by metis
  with assms(3) have "nat_str (nat \<bar>i\<bar>) @ r = nat_str (nat \<bar>j\<bar>) @ r'"
    by (simp add: int_str_split split: if_splits)
  from nat_str_inj [OF assms(1,2) this] s show ?thesis by (auto split: if_splits)
qed

definition delim :: "string \<Rightarrow> bool" where
  "delim r \<longleftrightarrow> r = [] \<or> hd r = CHR '','' \<or> hd r = CHR '')''"

lemma delim_not_digit: "delim r \<Longrightarrow> r = [] \<or> \<not> is_digit (hd r)"
  by (auto simp: delim_def is_digit_def)

lemma repr_rest_delim: "delim (repr_rest xs @ r)"
  by (cases xs) (simp_all add: delim_def)

text \<open>The first character of a representation tells its kind.\<close>

definition head_class :: "char \<Rightarrow> nat" where
  "head_class c = (if quote_char c then 0 else if c = CHR ''('' then 1
     else if c = CHR '','' \<or> c = CHR '')'' then 3 else 2)"

lemma head_class_digit: "is_digit c \<or> c = CHR ''-'' \<Longrightarrow> head_class c = 2"
  by (auto simp: head_class_def is_digit_def quote_char_def)

lemma py_repr_nonempty [simp]: "py_repr x \<noteq> []"
  by (cases x) (simp_all add: repr_str_def Let_def int_str_split)

lemma py_repr_head:
  "head_class (hd (py_repr x @ r)) = (case x of ReprStr _ \<Rightarrow> 0 | ReprInt _ \<Rightarrow> 2 | ReprTuple _ \<Rightarrow> 1)"
proof (cases x)
  case (ReprStr s)
  then show ?thesis by (simp add: repr_str_def Let_def head_class_def)
next
  case (ReprInt i)
  then show ?thesis
    using nat_str_hd [of "nat i" r] by (simp add: int_str_split head_class_digit)
next
  case (ReprTuple xs)
  then show ?thesis by (simp add: head_class_def quote_char_def)
qed

lemma py_repr_head_neq: "py_repr x @ r \<noteq> CHR '')'' # s" "py_repr x @ r \<noteq> CHR '','' # s"
proof -
  have "head_class CHR '')'' = 3" "head_class CHR '','' = 3" by (simp_all add: head_class_def quote_char_def)
  moreover have "head_class (hd (py_repr x @ r)) \<noteq> 3"
    unfolding py_repr_head by (cases x) simp_all
  ultimately show "py_repr x @ r \<noteq> CHR '')'' # s" "py_repr x @ r \<noteq> CHR '','' # s"
    by (metis list.sel(1))+
qed

lemma py_repr_same_kind:
  "py_repr x @ r = py_repr y @ r' \<Longrightarrow>
   (\<exists>s t. x = ReprStr s \<and> y = ReprStr t) \<or> (\<exists>i j. x = ReprInt i \<and> y = ReprInt j)
   \<or> (\<exists>xs ys. x = ReprTuple xs \<and> y = ReprTuple ys)"
  using py_repr_head [of x r] py_repr_head [of y r'] by (cases x; cases y) auto

lemma py_repr_inj:
  "py_repr x @ r = py_repr y @ r' \<Longrightarrow> delim r \<Longrightarrow> delim r' \<Longrightarrow> x = y \<and> r = r'"
  "repr_items xs @ r = repr_items ys @ r' \<Longrightarrow> xs = ys \<and> r = r'"
  "repr_rest xs @ r = repr_rest ys @ r' \<Longrightarrow> xs = ys \<and> r = r'"
proof (induction x and xs and xs arbitrary: y r r' and ys r r' and ys r r'
    rule: py_repr_repr_items_repr_rest.induct)
  case (1 s)
  from py_repr_same_kind [OF 1(1)] 1(1) show ?case by (auto dest: repr_str_inj)
next
  case (2 i)
  from py_repr_same_kind [OF 2(1)] 2(1) int_str_inj [OF delim_not_digit [OF 2(2)] delim_not_digit [OF 2(3)]]
  show ?case by auto
next
  case (3 xs)
  from py_repr_same_kind [OF 3(2)] 3(1,2) show ?case by auto
next
  case 4
  then show ?case using py_repr_head_neq(1) by (cases ys) (auto, metis)
next
  case (5 x xs)
  let ?tail = "\<lambda>xs. if xs = [] then '',)'' else repr_rest xs"
  have d: "delim (?tail zs @ s)" for zs s
    using repr_rest_delim by (simp add: delim_def)
  from 5(3) py_repr_head_neq(1) obtain y' ys' where ys: "ys = y' # ys'"
    by (cases ys) (auto simp del: append_assoc, metis append_assoc)
  have "py_repr x @ ?tail xs @ r = py_repr y' @ ?tail ys' @ r'" using 5(3) ys by simp
  from 5(1) [OF this d d] have xy: "x = y'" and t: "?tail xs @ r = ?tail ys' @ r'" by auto
  show ?case
  proof (cases "xs = [] \<or> ys' = []")
    case True
    with t have "xs = [] \<and> ys' = [] \<and> r = r'" by (cases xs; cases ys') auto
    with xy ys show ?thesis by simp
  next
    case False
    with t 5(2) [of r ys' r'] xy ys show ?thesis by auto
  qed
next
  case 6
  then show ?case by (cases ys) auto
next
  case (7 x xs)
  from 7(3) obtain y ys' where ys: "ys = y # ys'" by (cases ys) auto
  with 7(3) have "py_repr x @ repr_rest xs @ r = py_repr y @ repr_rest ys' @ r'" by simp
  from 7(1) [OF this repr_rest_delim repr_rest_delim] 7(2) ys show ?case by auto
qed

end
