(* ===== verification/Materialization.thy ===== *)
theory Materialization
  imports Graph_State Py_Repr "HOL-Library.Product_Lexorder"
begin

text \<open>
  Plan descriptions (\<open>materialization.py\<close>) and the receipts they are written as
  (\<open>receipts.py\<close>): the bindings of nodes to action symbols, the canonical text of a plan with
  its bindings (Python's \<open>repr\<close> of nested tuples), its truncated SHA-256 digest, the receipt
  lines, and the receipt parser. SHA-256 is a parameter (\<open>sha\<close>, its hex digest).

  The lemmas show that the canonical text determines the plan and its bindings, and that a
  receipt parses back to its fields.
\<close>

section \<open>Bindings\<close>

record graph_bindings =
  gb_node_actions :: "string pydict"
  gb_state_reducers :: "string pydict"

definition empty_bindings :: graph_bindings where
  "empty_bindings = \<lparr>gb_node_actions = [], gb_state_reducers = []\<rparr>"

definition action_for :: "graph_bindings \<Rightarrow> string \<Rightarrow> string" where
  "action_for gb node = dict_get_or (gb_node_actions gb) node node"

definition validate_graph_bindings :: "graph_plan \<Rightarrow> graph_bindings \<Rightarrow> unit result" where
  "validate_graph_bindings p gb =
     (let extra_actions = sort (filter (\<lambda>n. n \<notin> set (plan_nodes p)) (dict_keys (gb_node_actions gb)))
      in if extra_actions \<noteq> []
         then Inl (ValueError (''node action bindings reference unknown nodes: ''
                                @ str_join '', '' extra_actions))
         else Inr ())"

section \<open>Descriptions\<close>

definition repr_pair :: "string \<times> string \<Rightarrow> pyrepr" where
  "repr_pair kv = ReprTuple [ReprStr (fst kv), ReprStr (snd kv)]"

definition repr_pairs :: "(string \<times> string) list \<Rightarrow> pyrepr" where
  "repr_pairs kvs = ReprTuple (map repr_pair kvs)"

definition canonical_tuple :: "graph_plan \<Rightarrow> graph_bindings \<Rightarrow> pyrepr" where
  "canonical_tuple p gb =
     ReprTuple
       [ReprTuple (map ReprStr (plan_nodes p)),
        repr_pairs (map (\<lambda>e. (edge_source e, edge_target e)) (plan_edges p)),
        ReprTuple (map (\<lambda>e. ReprTuple [ReprStr (ce_source e), ReprStr (ce_router e),
                               repr_pairs (sort (ce_routes e))]) (plan_conditional_edges p)),
        ReprInt (plan_step_limit p),
        repr_pairs (sort (gb_node_actions gb)),
        repr_pairs (sort (gb_state_reducers gb))]"

definition plan_digest :: "(string \<Rightarrow> string) \<Rightarrow> graph_plan \<Rightarrow> graph_bindings \<Rightarrow> string" where
  "plan_digest sha p gb = take 16 (sha (py_repr (canonical_tuple p gb)))"

definition describe_lines :: "(string \<Rightarrow> string) \<Rightarrow> graph_plan \<Rightarrow> graph_bindings \<Rightarrow> string list" where
  "describe_lines sha p gb =
     [''poo-flow-receipt.v1'',
      ''kind=runtime-graph-domain-validation'',
      ''nodes='' @ nat_str (length (plan_nodes p)),
      ''node-actions='' @ nat_str (length (plan_nodes p)),
      ''state-reducers='' @ nat_str (length (gb_state_reducers gb)),
      ''edges='' @ nat_str (length (plan_edges p)),
      ''conditional-routes='' @ nat_str (sum_list (map (\<lambda>e. length (ce_routes e)) (plan_conditional_edges p))),
      ''step-limit='' @ int_str (plan_step_limit p),
      ''plan-digest='' @ plan_digest sha p gb]"

definition describe_runtime_graph_plan ::
  "(string \<Rightarrow> string) \<Rightarrow> graph_plan \<Rightarrow> graph_bindings \<Rightarrow> string result" where
  "describe_runtime_graph_plan sha p gb =
     res_bind (validate_graph_bindings p gb) (\<lambda>_.
       Inr (str_join [CHR 0x0A] (describe_lines sha p gb) @ [CHR 0x0A]))"

section \<open>Receipts\<close>

record runtime_receipt =
  rr_version :: string
  rr_fields :: "string pydict"

definition rr_plan_digest :: "runtime_receipt \<Rightarrow> string option" where
  "rr_plan_digest r = dict_get (rr_fields r) ''plan-digest''"

definition rr_require :: "runtime_receipt \<Rightarrow> string \<Rightarrow> string result" where
  "rr_require r key =
     (case dict_get (rr_fields r) key of
        None \<Rightarrow> Inl (ValueError (''missing runtime receipt field: '' @ key))
      | Some v \<Rightarrow> Inr v)"

definition rr_kind :: "runtime_receipt \<Rightarrow> string result" where
  "rr_kind r = rr_require r ''kind''"

definition rr_integer :: "runtime_receipt \<Rightarrow> string \<Rightarrow> int result" where
  "rr_integer r key =
     res_bind (rr_require r key) (\<lambda>v.
       case parse_int v of
         Inl _ \<Rightarrow> Inl (ValueError (''runtime receipt field is not an integer: '' @ key @ ''='' @ v))
       | Inr i \<Rightarrow> Inr i)"

fun receipt_fields_of :: "string list \<Rightarrow> string pydict \<Rightarrow> string pydict result" where
  "receipt_fields_of [] fs = Inr fs"
| "receipt_fields_of (line # lines) fs =
     (let (key, val) = split_once CHR ''='' line
      in if CHR ''='' \<notin> set line \<or> key = []
         then Inl (ValueError (''runtime receipt has invalid field line: '' @ line))
         else receipt_fields_of lines (dict_set key val fs))"

definition parse_runtime_receipt :: "string \<Rightarrow> runtime_receipt result" where
  "parse_runtime_receipt receipt =
     (let lines = filter (\<lambda>l. l \<noteq> []) (splitlines receipt)
      in if lines = [] \<or> hd lines \<noteq> ''poo-flow-receipt.v1''
         then Inl (ValueError ''runtime receipt has unsupported version'')
         else res_bind (receipt_fields_of (tl lines) []) (\<lambda>fs.
                Inr \<lparr>rr_version = hd lines, rr_fields = fs\<rparr>))"

section \<open>The canonical text is injective\<close>

lemma map_ReprStr_inj: "map ReprStr xs = map ReprStr ys \<longleftrightarrow> xs = ys"
  by (simp add: inj_map_eq_map inj_def)

lemma repr_pairs_inj [simp]: "repr_pairs xs = repr_pairs ys \<longleftrightarrow> xs = ys"
  by (simp add: repr_pairs_def repr_pair_def inj_map_eq_map inj_def prod_eq_iff)

text \<open>What the canonical text keeps of a plan: everything but the metadata and the order of routes.\<close>

definition same_plan :: "graph_plan \<times> graph_bindings \<Rightarrow> graph_plan \<times> graph_bindings \<Rightarrow> bool" where
  "same_plan = (\<lambda>(p, gb) (p', gb').
     plan_nodes p = plan_nodes p' \<and> plan_edges p = plan_edges p' \<and>
     list_all2 (\<lambda>e e'. ce_source e = ce_source e' \<and> ce_router e = ce_router e' \<and>
       sort (ce_routes e) = sort (ce_routes e')) (plan_conditional_edges p) (plan_conditional_edges p') \<and>
     plan_step_limit p = plan_step_limit p' \<and>
     sort (gb_node_actions gb) = sort (gb_node_actions gb') \<and>
     sort (gb_state_reducers gb) = sort (gb_state_reducers gb'))"

lemma map_eq_list_all2: "map f xs = map f ys \<longleftrightarrow> list_all2 (\<lambda>x y. f x = f y) xs ys"
  by (simp add: list_all2_conv_all_nth list_eq_iff_nth_eq) (metis nth_map)

lemma graph_edge_eq: "edge_source e = edge_source e' \<Longrightarrow> edge_target e = edge_target e' \<Longrightarrow> e = (e' :: graph_edge)"
  by (cases e; cases e') simp

lemma canonical_tuple_inj:
  "canonical_tuple p gb = canonical_tuple p' gb' \<longleftrightarrow> same_plan (p, gb) (p', gb')"
proof -
  have "map (\<lambda>e. (edge_source e, edge_target e)) es = map (\<lambda>e. (edge_source e, edge_target e)) es' \<longleftrightarrow> es = es'" for es es' :: "graph_edge list"
    by (rule inj_map_eq_map) (rule injI, auto intro: graph_edge_eq)
  then show ?thesis
    by (simp add: canonical_tuple_def same_plan_def map_ReprStr_inj map_eq_list_all2 list.rel_eq)
qed

lemma canonical_text_inj:
  "py_repr (canonical_tuple p gb) = py_repr (canonical_tuple p' gb') \<longleftrightarrow> same_plan (p, gb) (p', gb')"
  using py_repr_inj(1) [of "canonical_tuple p gb" "[]" "canonical_tuple p' gb'" "[]"]
  by (auto simp: canonical_tuple_inj [symmetric] delim_def)

section \<open>Receipts parse back\<close>

text \<open>A digest is written in one line of text without line breaks.\<close>

definition hex_digest :: "(string \<Rightarrow> string) \<Rightarrow> bool" where
  "hex_digest sha \<longleftrightarrow> (\<forall>s. 16 \<le> length (sha s) \<and> (\<forall>c \<in> set (sha s). c \<in> set ''0123456789abcdef''))"

definition describe_fields :: "(string \<Rightarrow> string) \<Rightarrow> graph_plan \<Rightarrow> graph_bindings \<Rightarrow> string pydict" where
  "describe_fields sha p gb =
     [(''kind'', ''runtime-graph-domain-validation''),
      (''nodes'', nat_str (length (plan_nodes p))),
      (''node-actions'', nat_str (length (plan_nodes p))),
      (''state-reducers'', nat_str (length (gb_state_reducers gb))),
      (''edges'', nat_str (length (plan_edges p))),
      (''conditional-routes'', nat_str (sum_list (map (\<lambda>e. length (ce_routes e)) (plan_conditional_edges p)))),
      (''step-limit'', int_str (plan_step_limit p)),
      (''plan-digest'', plan_digest sha p gb)]"

definition field_line :: "string \<times> string \<Rightarrow> string" where
  "field_line kv = fst kv @ CHR ''='' # snd kv"

lemma describe_lines_fields:
  "describe_lines sha p gb = ''poo-flow-receipt.v1'' # map field_line (describe_fields sha p gb)"
  by (simp add: describe_lines_def describe_fields_def field_line_def)

definition no_newline :: "string \<Rightarrow> bool" where
  "no_newline s \<longleftrightarrow> list_all (\<lambda>c. \<not> is_newline c) s"

lemma field_line_no_newline [simp]: "no_newline (field_line kv) \<longleftrightarrow> no_newline (fst kv) \<and> no_newline (snd kv)"
  by (simp add: no_newline_def field_line_def is_newline_def)

lemma plan_digest_no_newline: "hex_digest sha \<Longrightarrow> no_newline (plan_digest sha p gb)"
proof -
  assume h: "hex_digest sha"
  have "\<not> is_newline c" if "c \<in> set (plan_digest sha p gb)" for c
  proof -
    from that have "c \<in> set (sha (py_repr (canonical_tuple p gb)))"
      unfolding plan_digest_def by (rule in_set_takeD)
    with h have "c \<in> set ''0123456789abcdef''" by (simp only: hex_digest_def)
    then show ?thesis by (auto simp: is_newline_def)
  qed
  then show ?thesis by (simp add: no_newline_def list_all_iff)
qed

lemma number_no_newline: "no_newline (nat_str n)" "no_newline (int_str i)"
  using nat_str_digits is_digit_neq(5) int_str_no_newline by (auto simp: no_newline_def list_all_iff)

lemma describe_fields_no_newline:
  assumes "hex_digest sha"
  shows "list_all (\<lambda>kv. no_newline (fst kv) \<and> no_newline (snd kv)) (describe_fields sha p gb)"
  using plan_digest_no_newline [OF assms, of p gb]
  by (simp add: describe_fields_def number_no_newline) (simp add: no_newline_def is_newline_def)

lemma splitlines_join:
  assumes "ls \<noteq> []" "list_all no_newline ls"
  shows "splitlines (str_join [CHR 0x0A] ls @ [CHR 0x0A]) = ls"
  using splitlines_lines [of ls] assms
  by (simp add: str_join_newline no_newline_def list_all_iff)

text \<open>Reading the lines of a field list gives the fields back.\<close>

lemma receipt_fields_of_lines:
  assumes "list_all (\<lambda>kv. fst kv \<noteq> [] \<and> CHR ''='' \<notin> set (fst kv)) kvs"
  shows "receipt_fields_of (map field_line kvs) fs = Inr (dict_update fs kvs)"
  using assms by (induction kvs arbitrary: fs) (auto simp: field_line_def split_once_append)

lemma parse_runtime_receipt_lines:
  assumes "list_all (\<lambda>kv. fst kv \<noteq> [] \<and> CHR ''='' \<notin> set (fst kv)) kvs"
    and "list_all (\<lambda>kv. no_newline (fst kv) \<and> no_newline (snd kv)) kvs"
  shows "parse_runtime_receipt (str_join [CHR 0x0A] (''poo-flow-receipt.v1'' # map field_line kvs) @ [CHR 0x0A]) =
         Inr \<lparr>rr_version = ''poo-flow-receipt.v1'', rr_fields = dict_of kvs\<rparr>"
proof -
  have v: "no_newline ''poo-flow-receipt.v1''" by (simp add: no_newline_def is_newline_def)
  have ne: "filter (\<lambda>l. l \<noteq> []) (map field_line kvs) = map field_line kvs"
    by (simp add: filter_id_conv field_line_def)
  have "list_all no_newline (''poo-flow-receipt.v1'' # map field_line kvs)"
    using assms(2) v by (simp add: list_all_iff)
  from splitlines_join [OF _ this] ne receipt_fields_of_lines [OF assms(1), of "[]"] show ?thesis
    by (simp add: parse_runtime_receipt_def dict_of_def)
qed

text \<open>The receipt of a description carries the plan's digest and its counts.\<close>

lemma describe_parses:
  assumes "hex_digest sha" "describe_runtime_graph_plan sha p gb = Inr receipt"
  shows "parse_runtime_receipt receipt =
         Inr \<lparr>rr_version = ''poo-flow-receipt.v1'', rr_fields = describe_fields sha p gb\<rparr>"
proof -
  have "list_all (\<lambda>kv. fst kv \<noteq> [] \<and> CHR ''='' \<notin> set (fst kv)) (describe_fields sha p gb)"
    by (simp add: describe_fields_def)
  moreover have "dict_wf (describe_fields sha p gb)" by (simp add: describe_fields_def)
  ultimately show ?thesis
    using parse_runtime_receipt_lines [OF _ describe_fields_no_newline [OF assms(1)], of p gb] assms(2)
    by (auto simp: describe_runtime_graph_plan_def describe_lines_fields res_bind_Inr_iff)
qed

text \<open>
  C34. The plan digest identifies the plan. When SHA-256 does not collide on the canonical texts of
  two descriptions (in its first 16 hex digits), equal digests mean the same nodes, edges,
  routes, step limit and bindings: the text that is hashed determines all of them.
\<close>

theorem plan_digest_identifies:
  assumes "take 16 (sha (py_repr (canonical_tuple p gb))) = take 16 (sha (py_repr (canonical_tuple p' gb')))
           \<Longrightarrow> py_repr (canonical_tuple p gb) = py_repr (canonical_tuple p' gb')"
  shows "plan_digest sha p gb = plan_digest sha p' gb' \<longleftrightarrow> same_plan (p, gb) (p', gb')"
  using assms canonical_text_inj [of p gb p' gb'] by (auto simp: plan_digest_def)

text \<open>
  A plan's receipt parses back: the parser accepts every receipt the describer writes, and
  reads from it the kind, the plan digest, the step limit and the number of nodes.
\<close>

theorem receipt_roundtrip:
  assumes "hex_digest sha" "describe_runtime_graph_plan sha p gb = Inr receipt"
  shows "\<exists>r. parse_runtime_receipt receipt = Inr r \<and>
    rr_kind r = Inr ''runtime-graph-domain-validation'' \<and>
    rr_plan_digest r = Some (plan_digest sha p gb) \<and>
    rr_integer r ''step-limit'' = Inr (plan_step_limit p) \<and>
    rr_integer r ''nodes'' = Inr (int (length (plan_nodes p)))"
proof -
  have n: "parse_int (nat_str k) = Inr (int k)" for k
    using parse_int_str [of "int k"] by (simp add: int_str_split)
  from describe_parses [OF assms] show ?thesis
    by (simp add: rr_kind_def rr_require_def rr_plan_digest_def rr_integer_def describe_fields_def n)
qed

definition demo_sha :: "string \<Rightarrow> string" where
  "demo_sha s = ''00000000'' @ (if CHR ''x'' \<in> set s then ''aaaaaaaa'' else ''bbbbbbbb'')"

lemma demo_sha_hex: "hex_digest demo_sha"
  by (simp add: hex_digest_def demo_sha_def)

definition one_node_plan :: "string \<Rightarrow> graph_plan" where
  "one_node_plan n = \<lparr>plan_nodes = [n], plan_edges = [mk_edge START n, mk_edge n END],
     plan_conditional_edges = [], plan_step_limit = 10, plan_metadata = []\<rparr>"

theorem plan_digest_identifies_witness:
  "plan_digest demo_sha (one_node_plan ''x'') empty_bindings \<noteq> plan_digest demo_sha (one_node_plan ''y'') empty_bindings"
proof -
  have "\<not> same_plan (one_node_plan ''x'', empty_bindings) (one_node_plan ''y'', empty_bindings)"
    by (simp add: same_plan_def one_node_plan_def)
  moreover have "take 16 (demo_sha (py_repr (canonical_tuple (one_node_plan ''x'') empty_bindings))) \<noteq>
      take 16 (demo_sha (py_repr (canonical_tuple (one_node_plan ''y'') empty_bindings)))"
    by code_simp
  ultimately show ?thesis
    using plan_digest_identifies [of demo_sha "one_node_plan ''x''" empty_bindings "one_node_plan ''y''" empty_bindings]
    by blast
qed

theorem receipt_roundtrip_witness:
  "\<exists>receipt r. describe_runtime_graph_plan demo_sha (one_node_plan ''x'') empty_bindings = Inr receipt \<and>
     parse_runtime_receipt receipt = Inr r \<and> rr_integer r ''step-limit'' = Inr 10"
proof -
  obtain receipt where d: "describe_runtime_graph_plan demo_sha (one_node_plan ''x'') empty_bindings = Inr receipt"
    by (simp add: describe_runtime_graph_plan_def validate_graph_bindings_def empty_bindings_def)
  from receipt_roundtrip [OF demo_sha_hex d] d show ?thesis by (auto simp: one_node_plan_def)
qed

end
