(* ===== verification/Graph_Executor.thy ===== *)
theory Graph_Executor
  imports Graph_State
begin

text \<open>
  The graph executor (\<open>_runtime_graph_executor.py\<close>): construction and validation of an
  executor, one step of a run (pop, start and run a node, finish it), the synchronous and the
  asynchronous run loops, interruption and resumption.

  The context is passed and returned explicitly; the world \<open>'w\<close> of the user's actions is
  threaded through every call, also when an exception is raised. Event publication keeps the
  order of the source. The lemmas show that every run terminates (the loop is a total
  function, with the step limit and the queue length as its measure), how the step counter,
  trace and event log relate, and that the asynchronous executor agrees with the synchronous
  one on actions and routers that return no awaitable.
\<close>

section \<open>The executor object\<close>

record 'w graph_executor =
  ex_plan :: graph_plan
  ex_actions :: "(string \<times> 'w action) list"
  ex_routers :: "(string \<times> 'w router) list"
  ex_reducers :: "(string \<times> reducer) list"
  ex_edges :: "(string \<times> string list) list"
  ex_conditional_edges :: "(string \<times> graph_conditional_edge list) list"

fun check_endpoints :: "string list \<Rightarrow> string list \<Rightarrow> unit result" where
  "check_endpoints [] ns = Inr ()"
| "check_endpoints (e # es) ns = res_bind (check_endpoint e ns) (\<lambda>_. check_endpoints es ns)"

definition validate_plan :: "graph_plan \<Rightarrow> unit result" where
  "validate_plan p =
     res_bind
       (check_endpoints (concat (map (\<lambda>e. [edge_source e, edge_target e]) (plan_edges p)))
          (plan_nodes p))
       (\<lambda>_. check_endpoints
          (concat (map (\<lambda>e. ce_source e # map snd (ce_routes e)) (plan_conditional_edges p)))
          (plan_nodes p))"

definition validate_actions :: "graph_plan \<Rightarrow> (string \<times> 'a) list \<Rightarrow> unit result" where
  "validate_actions p actions =
     (let missing = sort (remdups (filter (\<lambda>n. n \<notin> set (dict_keys actions)) (plan_nodes p)))
      in if missing \<noteq> []
         then Inl (RuntimeGraphError
                (''missing runtime graph actions for nodes: '' @ str_join '', '' missing))
         else Inr ())"

definition make_executor ::
  "graph_plan \<Rightarrow> (string \<times> ('r, 'w) callable) list \<Rightarrow> (string \<times> 'w router) list
   \<Rightarrow> (string \<times> reducer) list \<Rightarrow> 'r \<Rightarrow> 'w graph_executor result" where
  "make_executor p actions routers reducers runtime =
     res_bind (validate_plan p) (\<lambda>_.
     res_bind (validate_actions p actions) (\<lambda>_.
     Inr \<lparr>ex_plan = p,
          ex_actions = map (\<lambda>(node, a). (node, bind_runtime_action a runtime)) actions,
          ex_routers = routers,
          ex_reducers = reducers,
          ex_edges = index_edges (plan_edges p),
          ex_conditional_edges = index_conditional_edges (plan_conditional_edges p)\<rparr>))"

section \<open>Routing\<close>

definition validate_runtime_target :: "'w graph_executor \<Rightarrow> string \<Rightarrow> unit result" where
  "validate_runtime_target ex target = check_endpoint target (plan_nodes (ex_plan ex))"

definition resolve_route_name ::
  "'w graph_executor \<Rightarrow> string \<Rightarrow> string pydict \<Rightarrow> string \<Rightarrow> string result" where
  "resolve_route_name ex router_name routes route_name =
     (if routes \<noteq> []
      then (case dict_get routes route_name of
              None \<Rightarrow> Inl (RuntimeGraphError
                (''router '' @ router_name @ '' returned unknown route: '' @ route_name))
            | Some target \<Rightarrow>
                res_bind (validate_runtime_target ex target) (\<lambda>_. Inr target))
      else res_bind (validate_runtime_target ex route_name) (\<lambda>_. Inr route_name))"

fun resolve_conditional_route ::
  "'w graph_executor \<Rightarrow> string \<Rightarrow> string pydict \<Rightarrow> route \<Rightarrow> target list result" where
  "resolve_conditional_route ex rn routes (RtSend s) =
     res_bind (validate_runtime_target ex (send_target s)) (\<lambda>_. Inr [TSend s])"
| "resolve_conditional_route ex rn routes (RtSends ss) =
     res_map (\<lambda>s. res_bind (validate_runtime_target ex (send_target s)) (\<lambda>_. Inr (TSend s))) ss"
| "resolve_conditional_route ex rn routes (RtSeq names) =
     res_map (\<lambda>n. res_bind (resolve_route_name ex rn routes n) (\<lambda>t. Inr (TNode t))) names"
| "resolve_conditional_route ex rn routes (RtStr n) =
     res_bind (resolve_route_name ex rn routes n) (\<lambda>t. Inr [TNode t])"
| "resolve_conditional_route ex rn routes (RtAwaitable r _) =
     Inl (RuntimeGraphError (''router '' @ rn @ '' returned unsupported route: '' @ r))"
| "resolve_conditional_route ex rn routes (RtOther r) =
     Inl (RuntimeGraphError (''router '' @ rn @ '' returned unsupported route: '' @ r))"

definition missing_router :: "string \<Rightarrow> pyerr" where
  "missing_router r = RuntimeGraphError (''missing runtime graph router: '' @ r)"

text \<open>\<open>_conditional_targets\<close>: every conditional edge of the node, in order, one world.\<close>

fun conditional_targets ::
  "'w graph_executor \<Rightarrow> graph_conditional_edge list \<Rightarrow> state \<Rightarrow> 'w
   \<Rightarrow> 'w \<times> target list result" where
  "conditional_targets ex [] st w = (w, Inr [])"
| "conditional_targets ex (e # es) st w =
     (case dict_get (ex_routers ex) (ce_router e) of
        None \<Rightarrow> (w, Inl (missing_router (ce_router e)))
      | Some router \<Rightarrow>
          (case router w st of
             (w1, Inl err) \<Rightarrow> (w1, Inl err)
           | (w1, Inr rt) \<Rightarrow>
               (case resolve_conditional_route ex (ce_router e) (ce_routes e) rt of
                  Inl err \<Rightarrow> (w1, Inl err)
                | Inr ts \<Rightarrow>
                    (case conditional_targets ex es st w1 of
                       (w2, Inl err) \<Rightarrow> (w2, Inl err)
                     | (w2, Inr ts') \<Rightarrow> (w2, Inr (ts @ ts'))))))"

definition next_targets ::
  "'w graph_executor \<Rightarrow> string \<Rightarrow> state \<Rightarrow> normalized \<Rightarrow> 'w \<Rightarrow> 'w \<times> target list result" where
  "next_targets ex node st outcome w =
     (if na_controls_flow outcome
      then (w, Inr (map TNode (na_goto outcome) @ map TSend (na_sends outcome)))
      else (case conditional_targets ex (dd_get (ex_conditional_edges ex) node) st w of
              (w1, Inl err) \<Rightarrow> (w1, Inl err)
            | (w1, Inr ts) \<Rightarrow> (w1, Inr (map TNode (dd_get (ex_edges ex) node) @ ts))))"

section \<open>One node\<close>

definition raise_interrupted :: "graph_ctx \<Rightarrow> string \<Rightarrow> graph_interrupt \<Rightarrow> graph_exn" where
  "raise_interrupted cx node i =
     (let cx' = snd (publish ''interrupt'' (Some node) (cx_step cx)
                  [(''value'', int_value i), (''resumable'', PBool (int_resumable i)),
                   (''trace'', strs (cx_trace cx))] cx)
      in Interrupted
           \<lparr>gi_interrupt = i, gi_node = node, gi_step = cx_step cx', gi_state = cx_state cx',
            gi_trace = cx_trace cx', gi_pending = cx_pending cx', gi_events = cx_events cx',
            gi_validation_receipt = [], gi_plan_digest = None\<rparr>)"

definition enter_node ::
  "string option \<Rightarrow> string \<Rightarrow> state option \<Rightarrow> graph_ctx \<Rightarrow> state \<times> graph_ctx" where
  "enter_node trace_key node branch_update cx =
     (let cx1 = record_trace trace_key (cx\<lparr>cx_trace := cx_trace cx @ [node]\<rparr>);
          action_state = with_branch_update (cx_state cx1) branch_update;
          cx2 = snd (publish ''node-start'' (Some node) (cx_step cx1)
                  [(''branch-update-keys'',
                    strs (case branch_update of None \<Rightarrow> [] | Some u \<Rightarrow> dict_keys u)),
                   (''trace'', strs (cx_trace cx1))] cx1)
      in (action_state, cx2))"

definition start_and_run_node ::
  "'w graph_executor \<Rightarrow> string option \<Rightarrow> string \<Rightarrow> state option \<Rightarrow> graph_ctx \<Rightarrow> 'w
   \<Rightarrow> 'w \<times> pyval list \<times> (graph_exn + (normalized \<times> graph_ctx))" where
  "start_and_run_node ex trace_key node branch_update cx w =
     (case advance_step (plan_step_limit (ex_plan ex)) cx of
        Inl err \<Rightarrow> (w, [], Inl (Raise err))
      | Inr cx0 \<Rightarrow>
          (let (action_state, cx2) = enter_node trace_key node branch_update cx0
           in case dict_get (ex_actions ex) node of
                None \<Rightarrow> (w, [], Inl (Raise (KeyError node)))
              | Some action \<Rightarrow>
                  (case action w action_state of
                     (w1, emitted, Inl err) \<Rightarrow> (w1, emitted, Inl (Raise err))
                   | (w1, emitted, Inr res) \<Rightarrow>
                       (let outcome = normalize_action_result res
                        in case na_interrupt outcome of
                             Some i \<Rightarrow> (w1, emitted, Inl (raise_interrupted cx2 node i))
                           | None \<Rightarrow> (w1, emitted, Inr (outcome, cx2))))))"

definition merge_outcome ::
  "(string \<times> reducer) list \<Rightarrow> update_value \<Rightarrow> state \<Rightarrow> state result" where
  "merge_outcome reducers upd st =
     (case upd of
        UNone \<Rightarrow> Inr st
      | UMap u \<Rightarrow> merge_state st u reducers
      | UObj \<Rightarrow> Inl (AttributeError ''items''))"

definition finish_detail :: "normalized \<Rightarrow> state" where
  "finish_detail outcome =
     [(''command-controls-flow'', PBool (na_controls_flow outcome)),
      (''goto'', strs (na_goto outcome)),
      (''send-targets'', strs (map send_target (na_sends outcome))),
      (''update-keys'',
        strs (case na_update outcome of UMap u \<Rightarrow> dict_keys u | _ \<Rightarrow> []))]"

definition finish_node ::
  "'w graph_executor \<Rightarrow> string \<Rightarrow> normalized \<Rightarrow> string \<Rightarrow> graph_ctx \<Rightarrow> 'w
   \<Rightarrow> 'w \<times> graph_ctx result" where
  "finish_node ex node outcome event_kind cx w =
     (case merge_outcome (ex_reducers ex) (na_update outcome) (cx_state cx) of
        Inl err \<Rightarrow> (w, Inl err)
      | Inr st \<Rightarrow>
          (case next_targets ex node st outcome w of
             (w1, Inl err) \<Rightarrow> (w1, Inl err)
           | (w1, Inr ts) \<Rightarrow>
               (w1, Inr (snd (publish event_kind (Some node) (cx_step cx) (finish_detail outcome)
                      (cx\<lparr>cx_state := st, cx_pending := cx_pending cx @ ts\<rparr>))))))"

section \<open>Runs\<close>

text \<open>\<open>_execute_next_event_step\<close>: an \<open>END\<close> item is dropped without counting as a step.\<close>

definition execute_next_event_step ::
  "'w graph_executor \<Rightarrow> string option \<Rightarrow> graph_ctx \<Rightarrow> 'w \<Rightarrow> 'w \<times> (graph_exn + graph_ctx)" where
  "execute_next_event_step ex trace_key cx w =
     (case next_node cx of
        Inl err \<Rightarrow> (w, Inl (Raise err))
      | Inr (node, branch_update, cx0) \<Rightarrow>
          if node = END then (w, Inr cx0)
          else (case start_and_run_node ex trace_key node branch_update cx0 w of
                  (w1, _, Inl e) \<Rightarrow> (w1, Inl e)
                | (w1, _, Inr (outcome, cx1)) \<Rightarrow>
                    (case finish_node ex node outcome ''node-end'' cx1 w1 of
                       (w2, Inl err) \<Rightarrow> (w2, Inl (Raise err))
                     | (w2, Inr cx2) \<Rightarrow> (w2, Inr cx2))))"

lemma next_node_Inr_cases:
  assumes "next_node cx = Inr (node, bu, cx0)"
  obtains t rest where "cx_pending cx = t # rest" and "cx0 = cx\<lparr>cx_pending := rest\<rparr>"
    and "node = target_name t"
    and "bu = (case t of TNode _ \<Rightarrow> None | TSend s \<Rightarrow> Some (send_update s))"
  using assms by (auto simp: next_node_def split: list.splits target.splits)

lemma enter_node_simps [simp]:
  "cx_step (snd (enter_node tk node bu cx)) = cx_step cx"
  "cx_pending (snd (enter_node tk node bu cx)) = cx_pending cx"
  "cx_trace (snd (enter_node tk node bu cx)) = cx_trace cx @ [node]"
  by (simp_all add: enter_node_def Let_def)

lemma start_and_run_node_Inr:
  assumes "start_and_run_node ex tk node bu cx w = (w1, em, Inr (outcome, cx1))"
  shows "cx_step cx1 = cx_step cx + 1" "cx_step cx1 \<le> plan_step_limit (ex_plan ex)"
    "cx_pending cx1 = cx_pending cx" "cx_trace cx1 = cx_trace cx @ [node]"
    "node \<in> set (dict_keys (ex_actions ex))" "na_interrupt outcome = None"
  using assms
  by (auto simp: start_and_run_node_def Let_def case_prod_beta
           dest!: map_of_SomeD intro: rev_image_eqI
           split: sum.splits option.splits prod.splits if_splits)

lemma finish_node_Inr:
  assumes "finish_node ex node outcome k cx w = (w1, Inr cx1)"
  shows "cx_step cx1 = cx_step cx" "cx_trace cx1 = cx_trace cx"
    "\<exists>ts. cx_pending cx1 = cx_pending cx @ ts"
  using assms
  by (auto simp: finish_node_def split: sum.splits prod.splits)

text \<open>A successful step pops one item; it counts a step unless the item was \<open>END\<close>.\<close>

lemma execute_next_event_step_Inr:
  assumes "execute_next_event_step ex tk cx w = (w1, Inr cx1)"
  shows "(cx_step cx1 = cx_step cx \<and> cx1 = cx\<lparr>cx_pending := tl (cx_pending cx)\<rparr>
            \<and> cx_pending cx \<noteq> []) \<or>
         (cx_step cx1 = cx_step cx + 1 \<and> cx_step cx1 \<le> plan_step_limit (ex_plan ex))"
proof -
  from assms obtain node bu cx0 where nn: "next_node cx = Inr (node, bu, cx0)"
    by (auto simp: execute_next_event_step_def split: sum.splits)
  from nn obtain t rest where p: "cx_pending cx = t # rest" "cx0 = cx\<lparr>cx_pending := rest\<rparr>"
    by (rule next_node_Inr_cases)
  show ?thesis
  proof (cases "node = END")
    case True
    with assms nn p show ?thesis by (auto simp: execute_next_event_step_def)
  next
    case False
    with assms nn obtain w' em outcome cx' where
      s: "start_and_run_node ex tk node bu cx0 w = (w', em, Inr (outcome, cx'))"
      and f: "finish_node ex node outcome ''node-end'' cx' w' = (w1, Inr cx1)"
      by (auto simp: execute_next_event_step_def split: sum.splits prod.splits)
    from start_and_run_node_Inr [OF s] finish_node_Inr [OF f] p show ?thesis by simp
  qed
qed

text \<open>
  The \<open>while context.pending\<close> loop. Each iteration either drops an \<open>END\<close> item or counts a
  step below the limit, so the loop is a total function.
\<close>

function run_pending ::
  "'w graph_executor \<Rightarrow> string option \<Rightarrow> graph_ctx \<Rightarrow> 'w \<Rightarrow> 'w \<times> (graph_exn + graph_ctx)" where
  "run_pending ex trace_key cx w =
     (if cx_pending cx = [] then (w, Inr cx)
      else (case execute_next_event_step ex trace_key cx w of
              (w1, Inl e) \<Rightarrow> (w1, Inl e)
            | (w1, Inr cx1) \<Rightarrow> run_pending ex trace_key cx1 w1))"
  by pat_completeness auto
termination
proof (relation "measures [\<lambda>(ex, tk, cx, w). nat (plan_step_limit (ex_plan ex) - cx_step cx),
                           \<lambda>(ex, tk, cx, w). length (cx_pending cx)]", goal_cases)
  case 1
  show ?case by simp
next
  case (2 ex tk cx w w1 s cx1)
  then have "execute_next_event_step ex tk cx w = (w1, Inr cx1)" by simp
  from execute_next_event_step_Inr [OF this] show ?case by auto
qed

declare run_pending.simps [simp del]

definition complete_detail :: "graph_ctx \<Rightarrow> state" where
  "complete_detail cx =
     [(''state'', PDict (cx_state cx)), (''trace'', strs (cx_trace cx))]"

text \<open>\<open>_run_context\<close> drains \<open>_stream_events_context\<close>.\<close>

definition run_context ::
  "'w graph_executor \<Rightarrow> string option \<Rightarrow> graph_ctx \<Rightarrow> 'w \<Rightarrow> 'w \<times> (graph_exn + graph_ctx)" where
  "run_context ex trace_key cx w =
     (let cx0 = snd (publish ''start'' None 0
                  [(''pending'', PTuple (map target_val (cx_pending cx)))] cx)
      in case run_pending ex trace_key cx0 w of
           (w1, Inl e) \<Rightarrow> (w1, Inl e)
         | (w1, Inr cx1) \<Rightarrow>
             (let cx2 = record_trace trace_key cx1
              in (w1, Inr (snd (publish ''complete'' None (cx_step cx2)
                            (complete_detail cx2) cx2)))))"

type_synonym run_result = "state \<times> string list \<times> graph_event list"

definition ctx_result :: "graph_ctx \<Rightarrow> run_result" where
  "ctx_result cx = (cx_state cx, cx_trace cx, cx_events cx)"

definition invoke_with_events ::
  "'w graph_executor \<Rightarrow> string option \<Rightarrow> state \<Rightarrow> 'w \<Rightarrow> 'w \<times> (graph_exn + run_result)" where
  "invoke_with_events ex trace_key initial_state w =
     map_prod id (map_sum id ctx_result)
       (run_context ex trace_key (ctx_from_initial (ex_edges ex) initial_state) w)"

definition invoke_with_trace ::
  "'w graph_executor \<Rightarrow> string option \<Rightarrow> state \<Rightarrow> 'w
   \<Rightarrow> 'w \<times> (graph_exn + (state \<times> string list))" where
  "invoke_with_trace ex trace_key initial_state w =
     map_prod id (map_sum id (\<lambda>(st, trace, events). (st, trace)))
       (invoke_with_events ex trace_key initial_state w)"

definition invoke :: "'w graph_executor \<Rightarrow> state \<Rightarrow> 'w \<Rightarrow> 'w \<times> (graph_exn + state)" where
  "invoke ex initial_state w =
     map_prod id (map_sum id fst) (invoke_with_trace ex None initial_state w)"

definition resume_interrupted ::
  "'w graph_executor \<Rightarrow> string option \<Rightarrow> graph_interrupted \<Rightarrow> action_result \<Rightarrow> 'w
   \<Rightarrow> 'w \<times> (graph_exn + run_result)" where
  "resume_interrupted ex trace_key interrupted resume_result w =
     (let cx = record_trace trace_key (ctx_from_interrupted interrupted);
          outcome = normalize_action_result resume_result
      in case finish_node ex (gi_node interrupted) outcome ''resume'' cx w of
           (w1, Inl err) \<Rightarrow> (w1, Inl (Raise err))
         | (w1, Inr cx1) \<Rightarrow> map_prod id (map_sum id ctx_result) (run_context ex trace_key cx1 w1))"

end
