(* ===== verification/Messages.thy ===== *)
theory Messages
  imports Graph_Executor
begin

text \<open>
  Messages and tools (\<open>messages.py\<close>, \<open>tools.py\<close>, \<open>tools_condition\<close> of \<open>prebuilt.py\<close>): message
  constructors, the \<open>add_messages\<close> reducer with its index of ids, and the tool node. Tools are
  user code: a tool is a function of the world and its arguments.
\<close>

type_synonym msg = "pyval message"

section \<open>Constructors\<close>

definition human_message :: "pyval \<Rightarrow> string option \<Rightarrow> msg" where
  "human_message content i = Message ''human'' content i None [] None"

definition ai_message :: "pyval \<Rightarrow> string option \<Rightarrow> pyval tool_call list \<Rightarrow> msg" where
  "ai_message content i calls = Message ''ai'' content i None calls None"

definition tool_message :: "pyval \<Rightarrow> string \<Rightarrow> string option \<Rightarrow> string option \<Rightarrow> msg" where
  "tool_message content tool_call_id i name = Message ''tool'' content i name [] (Some tool_call_id)"

section \<open>Adding messages\<close>

datatype msg_arg = ArgNone | ArgOne msg | ArgSeq "msg list"

fun coerce_messages :: "msg_arg \<Rightarrow> msg list" where
  "coerce_messages ArgNone = []"
| "coerce_messages (ArgOne m) = [m]"
| "coerce_messages (ArgSeq ms) = ms"

text \<open>The index is a dict from ids to positions; a message without id writes \<open>-1\<close> under \<open>None\<close>.\<close>

definition index_by_id :: "msg list \<Rightarrow> (string option \<times> int) list" where
  "index_by_id ms =
     dict_of (map (\<lambda>(i, m). (msg_id m, int i)) (filter (\<lambda>(i, m). msg_id m \<noteq> None) (enumerate 0 ms)))"

fun add_loop :: "msg list \<Rightarrow> (string option \<times> int) list \<Rightarrow> msg list \<Rightarrow> msg list" where
  "add_loop merged idx [] = merged"
| "add_loop merged idx (m # ms) =
     (case (if msg_id m = None then None else dict_get idx (msg_id m)) of
        Some p \<Rightarrow> add_loop (merged[nat p := m]) idx ms
      | None \<Rightarrow>
          add_loop (merged @ [m])
            (dict_set (msg_id m) (if msg_id m = None then -1 else int (length merged)) idx) ms)"

definition add_messages :: "msg_arg \<Rightarrow> msg_arg \<Rightarrow> msg list" where
  "add_messages left right =
     (let merged = coerce_messages left in add_loop merged (index_by_id merged) (coerce_messages right))"

text \<open>The reference: replace the message of the same id, or append.\<close>

definition upsert :: "msg \<Rightarrow> msg list \<Rightarrow> msg list" where
  "upsert m ms =
     (if msg_id m \<noteq> None \<and> msg_id m \<in> msg_id ` set ms
      then map (\<lambda>x. if msg_id x = msg_id m then m else x) ms
      else ms @ [m])"

definition ids_distinct :: "msg list \<Rightarrow> bool" where
  "ids_distinct ms \<longleftrightarrow> distinct (filter (\<lambda>i. i \<noteq> None) (map msg_id ms))"

text \<open>The index is right when it holds the position of every id and nothing else but \<open>None\<close>.\<close>

definition idx_ok :: "msg list \<Rightarrow> (string option \<times> int) list \<Rightarrow> bool" where
  "idx_ok ms idx \<longleftrightarrow> ids_distinct ms \<and>
     (\<forall>i p. i \<noteq> None \<longrightarrow> dict_get idx i = Some p \<longleftrightarrow>
        0 \<le> p \<and> nat p < length ms \<and> msg_id (ms ! nat p) = i)"

lemma ids_distinct_nth:
  assumes "ids_distinct ms" "p < length ms" "q < length ms" "msg_id (ms ! p) = msg_id (ms ! q)"
    "msg_id (ms ! p) \<noteq> None"
  shows "p = q"
  using assms
proof (induction ms arbitrary: p q)
  case (Cons m ms)
  have rest: "ids_distinct ms" using Cons.prems(1) by (auto simp: ids_distinct_def split: if_splits)
  have head: "msg_id m \<noteq> msg_id (ms ! q)" if "msg_id m \<noteq> None" "q < length ms" for q
    using Cons.prems(1) that nth_mem [of q ms] by (auto simp: ids_distinct_def)
  show ?case
  proof (cases p; cases q)
    fix p' q' assume pq: "p = Suc p'" "q = Suc q'"
    with Cons.prems Cons.IH [OF rest, of p' q'] show "p = q" by auto
  qed (use Cons.prems head head [symmetric] in auto)
qed simp

lemma enumerate_ids:
  assumes "ids_distinct ms"
  shows "dict_wf (map (\<lambda>(i, m). (msg_id m, int i)) (filter (\<lambda>(i, m). msg_id m \<noteq> None) (enumerate n ms)))"
proof -
  have "map fst (map (\<lambda>(i, m). (msg_id m, int i)) (filter (\<lambda>(i, m). msg_id m \<noteq> None) (enumerate n ms))) =
      filter (\<lambda>i. i \<noteq> None) (map msg_id ms)"
    by (induction ms arbitrary: n) auto
  with assms show ?thesis by (simp add: ids_distinct_def)
qed

lemma index_by_id_ok:
  assumes "ids_distinct ms"
  shows "idx_ok ms (index_by_id ms)"
proof -
  note wf = enumerate_ids [OF assms, of 0]
  have "dict_get (index_by_id ms) i = Some p \<longleftrightarrow> 0 \<le> p \<and> nat p < length ms \<and> msg_id (ms ! nat p) = i"
    if "i \<noteq> None" for i p
  proof -
    have "dict_get (index_by_id ms) i = Some p \<longleftrightarrow>
        (i, p) \<in> set (map (\<lambda>(i, m). (msg_id m, int i)) (filter (\<lambda>(i, m). msg_id m \<noteq> None) (enumerate 0 ms)))"
      unfolding index_by_id_def dict_of_distinct [OF wf] by (rule map_of_eq_Some_iff [OF wf])
    also have "\<dots> \<longleftrightarrow> (\<exists>q < length ms. p = int q \<and> msg_id (ms ! q) = i)"
      using that by (force simp: in_set_enumerate_eq image_iff)
    finally show ?thesis by (auto intro!: exI [of _ "nat p"])
  qed
  with assms show ?thesis by (simp add: idx_ok_def)
qed

lemma idx_ok_None:
  assumes "idx_ok ms idx" "i \<noteq> None" "dict_get idx i = None"
  shows "i \<notin> msg_id ` set ms"
proof
  assume "i \<in> msg_id ` set ms"
  then obtain p where "p < length ms" "msg_id (ms ! p) = i" by (auto simp: in_set_conv_nth)
  with assms show False unfolding idx_ok_def by (metis nat_int of_nat_0_le_iff option.distinct(1))
qed

lemma update_is_map:
  assumes "ids_distinct ms" "p < length ms" "msg_id (ms ! p) = msg_id m" "msg_id m \<noteq> None"
  shows "ms[p := m] = map (\<lambda>x. if msg_id x = msg_id m then m else x) ms"
  using ids_distinct_nth [OF assms(1)] assms
  by (intro nth_equalityI) (auto simp: nth_list_update)

lemma ids_distinct_map: "map msg_id ms = map msg_id ms' \<Longrightarrow> ids_distinct ms \<longleftrightarrow> ids_distinct ms'"
  by (simp add: ids_distinct_def)

lemma idx_ok_replace:
  assumes "idx_ok ms idx" "dict_get idx (msg_id m) = Some p" "msg_id m \<noteq> None"
  shows "idx_ok (ms[nat p := m]) idx" "ms[nat p := m] = upsert m ms"
proof -
  from assms have p: "nat p < length ms" "msg_id (ms ! nat p) = msg_id m" by (auto simp: idx_ok_def)
  have ids: "map msg_id (ms[nat p := m]) = map msg_id ms"
    using p by (simp add: map_update list_update_same_conv)
  have "msg_id (ms[nat p := m] ! q) = msg_id (ms ! q)" if "q < length ms" for q
    using that p by (cases "q = nat p") simp_all
  with assms(1) ids_distinct_map [OF ids] show "idx_ok (ms[nat p := m]) idx"
    by (auto simp: idx_ok_def)
  have "msg_id m \<in> msg_id ` set ms" using p by (metis imageI nth_mem)
  with update_is_map [of ms "nat p" m] assms p show "ms[nat p := m] = upsert m ms"
    by (simp add: upsert_def idx_ok_def)
qed

lemma idx_ok_append:
  assumes "idx_ok ms idx" "msg_id m = None \<or> dict_get idx (msg_id m) = None"
  shows "idx_ok (ms @ [m]) (dict_set (msg_id m) (if msg_id m = None then -1 else int (length ms)) idx)"
    "ms @ [m] = upsert m ms"
proof -
  have new: "msg_id m = None \<or> msg_id m \<notin> msg_id ` set ms"
    using assms idx_ok_None by blast
  then show "ms @ [m] = upsert m ms" by (auto simp: upsert_def)
  have "ids_distinct (ms @ [m])"
    using assms(1) new by (auto simp: idx_ok_def ids_distinct_def image_iff)
  moreover have "msg_id ((ms @ [m]) ! q) = (if q = length ms then msg_id m else msg_id (ms ! q))"
    if "q < Suc (length ms)" for q
    using that by (auto simp: nth_append)
  moreover have "nat p < Suc (length ms) \<longleftrightarrow> nat p < length ms \<or> nat p = length ms" for p by auto
  moreover have "msg_id m \<noteq> None \<Longrightarrow> nat p < length ms \<Longrightarrow> msg_id (ms ! nat p) \<noteq> msg_id m" for p
    using new by (metis imageI nth_mem)
  ultimately show "idx_ok (ms @ [m]) (dict_set (msg_id m) (if msg_id m = None then -1 else int (length ms)) idx)"
    using assms(1) unfolding idx_ok_def by auto
qed

lemma add_loop_upsert: "idx_ok ms idx \<Longrightarrow> add_loop ms idx rs = fold upsert rs ms"
proof (induction rs arbitrary: ms idx)
  case (Cons m rs)
  show ?case
  proof (cases "if msg_id m = None then None else dict_get idx (msg_id m)")
    case None
    then have n: "msg_id m = None \<or> dict_get idx (msg_id m) = None" by (auto split: if_splits)
    from Cons.IH [OF idx_ok_append(1) [OF Cons.prems n]] None idx_ok_append(2) [OF Cons.prems n]
    show ?thesis by simp
  next
    case (Some p)
    then have s: "dict_get idx (msg_id m) = Some p" "msg_id m \<noteq> None" by (auto split: if_splits)
    from Cons.IH [OF idx_ok_replace(1) [OF Cons.prems s]] Some idx_ok_replace(2) [OF Cons.prems s]
    show ?thesis by simp
  qed
qed simp

text \<open>
  The indexed merge of messages is the simple one: for a history in which no id occurs
  twice, \<open>add_messages\<close> inserts the new messages one by one, each replacing the message of the
  same id in place or going to the end, and the result has no id twice either.
\<close>

theorem add_messages_upserts:
  assumes "ids_distinct (coerce_messages left)"
  shows "add_messages left right = fold upsert (coerce_messages right) (coerce_messages left)
         \<and> ids_distinct (add_messages left right)"
proof
  note ok = index_by_id_ok [OF assms]
  show eq: "add_messages left right = fold upsert (coerce_messages right) (coerce_messages left)"
    using add_loop_upsert [OF ok] by (simp add: add_messages_def)
  have "ids_distinct (upsert m ms)" if "ids_distinct ms" for m ms
  proof (cases "msg_id m \<noteq> None \<and> msg_id m \<in> msg_id ` set ms")
    case True
    have "map msg_id (map (\<lambda>x. if msg_id x = msg_id m then m else x) ms) = map msg_id ms" by auto
    from ids_distinct_map [OF this] True that show ?thesis by (simp add: upsert_def)
  next
    case False
    with that show ?thesis by (auto simp: upsert_def ids_distinct_def image_iff)
  qed
  then have "ids_distinct (fold upsert rs ms)" if "ids_distinct ms" for rs ms
    using that by (induction rs arbitrary: ms) simp_all
  with assms show "ids_distinct (add_messages left right)" unfolding eq by blast
qed

theorem add_messages_upserts_witness:
  "add_messages (ArgSeq [human_message (PStr ''a'') (Some ''1''), human_message (PStr ''b'') None])
     (ArgSeq [human_message (PStr ''c'') (Some ''1''), human_message (PStr ''d'') (Some ''2'')]) =
   [human_message (PStr ''c'') (Some ''1''), human_message (PStr ''b'') None, human_message (PStr ''d'') (Some ''2'')]"
  using add_messages_upserts [of "ArgSeq [human_message (PStr ''a'') (Some ''1''), human_message (PStr ''b'') None]"
     "ArgSeq [human_message (PStr ''c'') (Some ''1''), human_message (PStr ''d'') (Some ''2'')]"]
  by (simp add: ids_distinct_def human_message_def upsert_def)

end
