(* ===== verification/Graph_Run.thy ===== *)
theory Graph_Run
  imports Graph_Executor
begin

text \<open>
  What a run of the graph executor does. The loop is related to a step relation
  \<open>graph_step\<close> and its reachable states, so that facts about runs are proved once per step
  and lifted by rule induction: step counter and trace, the event log, well-formedness of the
  state dictionary, absence of \<open>KeyError\<close> on closed plans, and the irrelevance of the event
  log for control flow, which makes resuming an interrupted run transparent.
\<close>

section \<open>The step relation\<close>

inductive graph_step ::
  "'w graph_executor \<Rightarrow> string option \<Rightarrow> graph_ctx \<times> 'w \<Rightarrow> graph_ctx \<times> 'w \<Rightarrow> bool"
  for ex tk where
  step: "cx_pending cx \<noteq> [] \<Longrightarrow> execute_next_event_step ex tk cx w = (w', Inr cx') \<Longrightarrow>
         graph_step ex tk (cx, w) (cx', w')"

inductive graph_reach ::
  "'w graph_executor \<Rightarrow> string option \<Rightarrow> graph_ctx \<times> 'w \<Rightarrow> graph_ctx \<times> 'w \<Rightarrow> bool"
  for ex tk s where
  refl: "graph_reach ex tk s s"
| trans: "graph_reach ex tk s t \<Longrightarrow> graph_step ex tk t u \<Longrightarrow> graph_reach ex tk s u"

inductive_simps graph_step_iff: "graph_step ex tk (cx, w) (cx', w')"
inductive_cases graph_stepE: "graph_step ex tk s t"

definition step_raises ::
  "'w graph_executor \<Rightarrow> string option \<Rightarrow> graph_ctx \<times> 'w \<Rightarrow> 'w \<Rightarrow> graph_exn \<Rightarrow> bool" where
  "step_raises ex tk s w' e \<longleftrightarrow>
     cx_pending (fst s) \<noteq> [] \<and> execute_next_event_step ex tk (fst s) (snd s) = (w', Inl e)"

lemma graph_reach_step:
  "graph_step ex tk s t \<Longrightarrow> graph_reach ex tk t u \<Longrightarrow> graph_reach ex tk s u"
  by (rotate_tac 1, induction rule: graph_reach.induct) (blast intro: graph_reach.intros)+

lemma run_pending_Nil [simp]: "cx_pending cx = [] \<Longrightarrow> run_pending ex tk cx w = (w, Inr cx)"
  by (simp add: run_pending.simps)

lemma run_pending_step:
  "graph_step ex tk (cx, w) (cx', w') \<Longrightarrow> run_pending ex tk cx w = run_pending ex tk cx' w'"
  by (subst run_pending.simps) (auto simp: graph_step_iff)

text \<open>A run ends in a state reached by steps: with an empty queue, or at a step that raises.\<close>

lemma run_pending_sound:
  "case run_pending ex tk cx w of
     (w', Inr cx') \<Rightarrow> graph_reach ex tk (cx, w) (cx', w') \<and> cx_pending cx' = []
   | (w', Inl e) \<Rightarrow> \<exists>t. graph_reach ex tk (cx, w) t \<and> step_raises ex tk t w' e"
proof (induction ex tk cx w rule: run_pending.induct)
  case (1 ex tk cx w)
  show ?case
  proof (cases "cx_pending cx = []")
    case True
    then show ?thesis by (simp add: graph_reach.refl)
  next
    case ne: False
    obtain w1 r where s: "execute_next_event_step ex tk cx w = (w1, r)" by fastforce
    show ?thesis
    proof (cases r)
      case (Inl e)
      with s ne have "run_pending ex tk cx w = (w1, Inl e)"
        by (subst run_pending.simps) simp
      moreover from s ne Inl have "step_raises ex tk (cx, w) w1 e" by (simp add: step_raises_def)
      ultimately show ?thesis by (auto intro: graph_reach.refl)
    next
      case (Inr cx1)
      with s ne have gs: "graph_step ex tk (cx, w) (cx1, w1)" by (simp add: graph_step_iff)
      from "1" [OF ne s [symmetric] Inr] show ?thesis
        unfolding run_pending_step [OF gs]
        by (auto split: prod.splits sum.splits intro: graph_reach_step [OF gs])
    qed
  qed
qed

lemma run_pending_Inr:
  assumes "run_pending ex tk cx w = (w', Inr cx')"
  shows "graph_reach ex tk (cx, w) (cx', w')" "cx_pending cx' = []"
  using run_pending_sound [of ex tk cx w] assms by simp_all

lemma run_pending_Inl:
  assumes "run_pending ex tk cx w = (w', Inl e)"
  obtains cx1 w1 where "graph_reach ex tk (cx, w) (cx1, w1)" "step_raises ex tk (cx1, w1) w' e"
  using run_pending_sound [of ex tk cx w] assms by auto

text \<open>Invariants of single steps hold in every reached state.\<close>

lemma graph_reach_invariant:
  assumes "graph_reach ex tk s t" and "P (fst s)"
    and "\<And>cx w w' cx'. P cx \<Longrightarrow> execute_next_event_step ex tk cx w = (w', Inr cx') \<Longrightarrow> P cx'"
  shows "P (fst t)"
  using assms(1,2)
proof (induction rule: graph_reach.induct)
  case (trans t u)
  then have "P (fst t)" by blast
  with trans.hyps(2) show ?case by (auto elim!: graph_stepE intro: assms(3))
qed

section \<open>One step in detail\<close>

text \<open>A successful step that is not a dropped \<open>END\<close>, with everything it did.\<close>

lemma execute_next_event_step_elim:
  assumes "execute_next_event_step ex tk cx w = (w2, Inr cx2)"
  obtains (end_item) t where "hd (cx_pending cx) = t" "target_name t = END" "cx_pending cx \<noteq> []"
      "cx2 = cx\<lparr>cx_pending := tl (cx_pending cx)\<rparr>" "w2 = w"
    | (node) node bu cx0 w1 em outcome cx1 where
      "next_node cx = Inr (node, bu, cx0)" "node \<noteq> END"
      "start_and_run_node ex tk node bu cx0 w = (w1, em, Inr (outcome, cx1))"
      "finish_node ex node outcome ''node-end'' cx1 w1 = (w2, Inr cx2)"
proof -
  from assms obtain node bu cx0 where nn: "next_node cx = Inr (node, bu, cx0)"
    by (auto simp: execute_next_event_step_def split: sum.splits)
  from nn obtain t rest where p: "cx_pending cx = t # rest" "cx0 = cx\<lparr>cx_pending := rest\<rparr>"
      "node = target_name t"
    by (rule next_node_Inr_cases)
  show thesis
  proof (cases "node = END")
    case True
    with assms nn p show thesis
      by (intro end_item [of t]) (auto simp: execute_next_event_step_def)
  next
    case False
    with assms nn obtain w1 em outcome cx1 where
      "start_and_run_node ex tk node bu cx0 w = (w1, em, Inr (outcome, cx1))"
      "finish_node ex node outcome ''node-end'' cx1 w1 = (w2, Inr cx2)"
      by (auto simp: execute_next_event_step_def split: sum.splits prod.splits)
    with nn False show thesis by (rule node)
  qed
qed

lemma start_and_run_node_elim:
  assumes "start_and_run_node ex tk node bu cx w = (w1, em, Inr (outcome, cx1))"
  obtains action res where
    "cx_step cx + 1 \<le> plan_step_limit (ex_plan ex)"
    "dict_get (ex_actions ex) node = Some action"
    "action w (fst (enter_node tk node bu (cx\<lparr>cx_step := cx_step cx + 1\<rparr>))) = (w1, em, Inr res)"
    "outcome = normalize_action_result res" "na_interrupt outcome = None"
    "cx1 = snd (enter_node tk node bu (cx\<lparr>cx_step := cx_step cx + 1\<rparr>))"
  using assms
  by (auto simp: start_and_run_node_def Let_def case_prod_beta
           split: sum.splits option.splits prod.splits)
     (metis prod.collapse)

lemma finish_node_elim:
  assumes "finish_node ex node outcome k cx w = (w1, Inr cx1)"
  obtains st ts where
    "merge_outcome (ex_reducers ex) (na_update outcome) (cx_state cx) = Inr st"
    "next_targets ex node st outcome w = (w1, Inr ts)"
    "cx1 = cx\<lparr>cx_state := st, cx_pending := cx_pending cx @ ts,
              cx_events := cx_events cx @
                [fst (publish k (Some node) (cx_step cx) (finish_detail outcome) cx)]\<rparr>"
  using assms
  by (auto simp: finish_node_def publish_def Let_def split: sum.splits prod.splits)

section \<open>Step counter, trace and event log\<close>

abbreviation event_sig :: "graph_event \<Rightarrow> string \<times> string option \<times> int" where
  "event_sig e \<equiv> (ev_kind e, ev_node e, ev_step e)"

text \<open>The log of \<open>n\<close> finished nodes, the first of which ran as step \<open>i\<close>.\<close>

fun node_log :: "int \<Rightarrow> string list \<Rightarrow> (string \<times> string option \<times> int) list" where
  "node_log i [] = []"
| "node_log i (n # ns) =
     (''node-start'', Some n, i) # (''node-end'', Some n, i) # node_log (i + 1) ns"

lemma node_log_append:
  "node_log i (xs @ ys) = node_log i xs @ node_log (i + int (length xs)) ys"
  by (induction xs arbitrary: i) (simp_all add: algebra_simps)

definition log_inv :: "int \<Rightarrow> string list \<Rightarrow> (string \<times> string option \<times> int) list \<Rightarrow> graph_ctx \<Rightarrow> bool"
  where
  "log_inv i0 tr0 log0 cx \<longleftrightarrow>
     (\<exists>ns. cx_trace cx = tr0 @ ns \<and> cx_step cx = i0 + int (length ns)
        \<and> map event_sig (cx_events cx) = log0 @ node_log (i0 + 1) ns)"

lemma step_log_inv:
  assumes "log_inv i0 tr0 log0 cx" and "execute_next_event_step ex tk cx w = (w', Inr cx')"
  shows "log_inv i0 tr0 log0 cx'"
  using assms(2)
proof (cases rule: execute_next_event_step_elim)
  case end_item
  with assms(1) show ?thesis by (auto simp: log_inv_def)
next
  case (node n bu cx0 w1 em outcome cx1)
  from assms(1) obtain ns where ns: "cx_trace cx = tr0 @ ns"
    "cx_step cx = i0 + int (length ns)"
    "map event_sig (cx_events cx) = log0 @ node_log (i0 + 1) ns"
    by (auto simp: log_inv_def)
  from node(1) have cx0: "cx_trace cx0 = cx_trace cx" "cx_step cx0 = cx_step cx"
    "cx_events cx0 = cx_events cx"
    by (auto elim!: next_node_Inr_cases)
  from node(3) have cx1: "cx_trace cx1 = cx_trace cx @ [n]" "cx_step cx1 = cx_step cx + 1"
    "map event_sig (cx_events cx1) =
       map event_sig (cx_events cx) @ [(''node-start'', Some n, cx_step cx + 1)]"
    by (auto elim!: start_and_run_node_elim simp: cx0 enter_node_def Let_def)
  from node(4) have cx': "cx_trace cx' = cx_trace cx1" "cx_step cx' = cx_step cx1"
    "map event_sig (cx_events cx') =
       map event_sig (cx_events cx1) @ [(''node-end'', Some n, cx_step cx1)]"
    by (auto elim!: finish_node_elim)
  show ?thesis
    unfolding log_inv_def
    by (rule exI [of _ "ns @ [n]"]) (simp add: ns cx1 cx' node_log_append)
qed

lemma reach_log_inv:
  "graph_reach ex tk (cx, w) (cx', w') \<Longrightarrow> log_inv i0 tr0 log0 cx \<Longrightarrow> log_inv i0 tr0 log0 cx'"
  using graph_reach_invariant [of ex tk "(cx, w)" "(cx', w')" "log_inv i0 tr0 log0"] step_log_inv
  by (metis fst_conv)

definition bound_inv :: "int \<Rightarrow> graph_ctx \<Rightarrow> bool" where
  "bound_inv limit cx \<longleftrightarrow> cx_step cx \<le> max 0 limit"

lemma step_bound_inv:
  "bound_inv (plan_step_limit (ex_plan ex)) cx \<Longrightarrow>
   execute_next_event_step ex tk cx w = (w', Inr cx') \<Longrightarrow>
   bound_inv (plan_step_limit (ex_plan ex)) cx'"
  using execute_next_event_step_Inr [of ex tk cx w w' cx'] by (auto simp: bound_inv_def)

lemma reach_bound_inv:
  "graph_reach ex tk (cx, w) (cx', w') \<Longrightarrow> bound_inv (plan_step_limit (ex_plan ex)) cx \<Longrightarrow>
   bound_inv (plan_step_limit (ex_plan ex)) cx'"
  using graph_reach_invariant
    [of ex tk "(cx, w)" "(cx', w')" "bound_inv (plan_step_limit (ex_plan ex))"] step_bound_inv
  by (metis fst_conv)

section \<open>Interruptions\<close>

lemma raise_interrupted_fields:
  assumes "Interrupted i = raise_interrupted cx node k"
  shows "gi_interrupt i = k" "gi_node i = node" "gi_step i = cx_step cx"
    "gi_state i = cx_state cx" "gi_trace i = cx_trace cx" "gi_pending i = cx_pending cx"
  using assms by (simp_all add: raise_interrupted_def Let_def)

text \<open>A step raises an interruption only from the node it started, whose action returned it.\<close>

lemma interrupted_elim:
  assumes "execute_next_event_step ex tk cx w = (w', Inl (Interrupted i))"
  obtains node bu cx0 action em where
    "next_node cx = Inr (node, bu, cx0)" "node \<noteq> END"
    "cx_step cx0 + 1 \<le> plan_step_limit (ex_plan ex)"
    "dict_get (ex_actions ex) node = Some action"
    "action w (fst (enter_node tk node bu (cx0\<lparr>cx_step := cx_step cx0 + 1\<rparr>))) =
       (w', em, Inr (RInterrupt (gi_interrupt i)))"
    "Interrupted i = raise_interrupted
       (snd (enter_node tk node bu (cx0\<lparr>cx_step := cx_step cx0 + 1\<rparr>))) node (gi_interrupt i)"
proof -
  from assms obtain node bu cx0 em where nn: "next_node cx = Inr (node, bu, cx0)" "node \<noteq> END"
    and s: "start_and_run_node ex tk node bu cx0 w = (w', em, Inl (Interrupted i))"
    by (auto simp: execute_next_event_step_def split: sum.splits prod.splits if_splits)
  let ?en = "enter_node tk node bu (cx0\<lparr>cx_step := cx_step cx0 + 1\<rparr>)"
  from s obtain action res i' where a: "cx_step cx0 + 1 \<le> plan_step_limit (ex_plan ex)"
    "dict_get (ex_actions ex) node = Some action"
    "action w (fst ?en) = (w', em, Inr res)"
    and i': "na_interrupt (normalize_action_result res) = Some i'"
    "Interrupted i = raise_interrupted (snd ?en) node i'"
    by (auto simp: start_and_run_node_def Let_def case_prod_beta
             split: sum.splits option.splits prod.splits) (metis prod.collapse)
  from i'(1) have "res = RInterrupt i'" by (cases res) simp_all
  moreover from i'(2) have "i' = gi_interrupt i"
    by (simp add: raise_interrupted_fields)
  ultimately show thesis using that nn a i'(2) by blast
qed

text \<open>What the interruption carries: the context at the pause, with the node already traced.\<close>

lemma interrupted_payload:
  assumes "execute_next_event_step ex tk cx w = (w', Inl (Interrupted i))"
  shows "gi_step i = cx_step cx + 1" "gi_step i \<le> plan_step_limit (ex_plan ex)"
    "gi_trace i = cx_trace cx @ [gi_node i]" "gi_pending i = tl (cx_pending cx)"
    "gi_node i = target_name (hd (cx_pending cx))"
proof -
  from assms obtain node bu cx0 action em where nn: "next_node cx = Inr (node, bu, cx0)"
    and lim: "cx_step cx0 + 1 \<le> plan_step_limit (ex_plan ex)"
    and ri: "Interrupted i = raise_interrupted
      (snd (enter_node tk node bu (cx0\<lparr>cx_step := cx_step cx0 + 1\<rparr>))) node (gi_interrupt i)"
    by (rule interrupted_elim)
  from nn obtain t rest where "cx_pending cx = t # rest" "cx0 = cx\<lparr>cx_pending := rest\<rparr>"
    "node = target_name t"
    by (rule next_node_Inr_cases)
  with lim raise_interrupted_fields [OF ri]
  show "gi_step i = cx_step cx + 1" "gi_step i \<le> plan_step_limit (ex_plan ex)"
    "gi_trace i = cx_trace cx @ [gi_node i]" "gi_pending i = tl (cx_pending cx)"
    "gi_node i = target_name (hd (cx_pending cx))"
    by simp_all
qed

section \<open>The event log does not steer the run\<close>

definition no_events :: "graph_ctx \<Rightarrow> graph_ctx" where
  "no_events cx = cx\<lparr>cx_events := []\<rparr>"

fun exn_core :: "graph_exn \<Rightarrow> graph_exn" where
  "exn_core (Raise e) = Raise e"
| "exn_core (Interrupted i) = Interrupted (i\<lparr>gi_events := []\<rparr>)"

abbreviation run_core :: "'w \<times> (graph_exn + graph_ctx) \<Rightarrow> 'w \<times> (graph_exn + graph_ctx)" where
  "run_core \<equiv> map_prod id (map_sum exn_core no_events)"

lemma no_events_simps [simp]:
  "cx_state (no_events cx) = cx_state cx" "cx_pending (no_events cx) = cx_pending cx"
  "cx_trace (no_events cx) = cx_trace cx" "cx_step (no_events cx) = cx_step cx"
  "cx_events (no_events cx) = []" "no_events (no_events cx) = no_events cx"
  "no_events (cx\<lparr>cx_events := es\<rparr>) = no_events cx"
  by (simp_all add: no_events_def)

lemma no_events_eq_iff:
  "no_events cx = no_events cx' \<longleftrightarrow>
     cx_state cx = cx_state cx' \<and> cx_pending cx = cx_pending cx' \<and> cx_trace cx = cx_trace cx'
     \<and> cx_step cx = cx_step cx'"
  by (cases cx; cases cx') (auto simp: no_events_def)

lemma enter_node_no_events:
  "fst (enter_node tk n bu (no_events cx)) = fst (enter_node tk n bu cx)"
  "no_events (snd (enter_node tk n bu (no_events cx))) = no_events (snd (enter_node tk n bu cx))"
  by (auto simp: enter_node_def Let_def no_events_eq_iff record_trace_def split: option.splits)

lemma raise_interrupted_no_events:
  "no_events cx = no_events cx' \<Longrightarrow>
   exn_core (raise_interrupted cx n i) = exn_core (raise_interrupted cx' n i)"
  by (simp add: raise_interrupted_def Let_def no_events_eq_iff)

lemma finish_node_no_events:
  "map_prod id (map_sum id no_events) (finish_node ex n oc k (no_events cx) w) =
   map_prod id (map_sum id no_events) (finish_node ex n oc k cx w)"
  by (auto simp: finish_node_def no_events_eq_iff split: sum.splits prod.splits)

lemma start_and_run_node_no_events:
  "map_prod id (map_prod id (map_sum exn_core (map_prod id no_events)))
     (start_and_run_node ex tk n bu (no_events cx) w) =
   map_prod id (map_prod id (map_sum exn_core (map_prod id no_events)))
     (start_and_run_node ex tk n bu cx w)"
proof -
  have eq: "(no_events cx)\<lparr>cx_step := x\<rparr> = no_events (cx\<lparr>cx_step := x\<rparr>)" for x
    by (simp add: no_events_def)
  show ?thesis
    by (auto simp: start_and_run_node_def advance_step_def Let_def case_prod_beta eq
          enter_node_no_events split: sum.splits option.splits prod.splits
          intro!: raise_interrupted_no_events)
qed

lemma finish_node_sim:
  assumes "no_events cx = no_events cx'"
  shows "map_prod id (map_sum id no_events) (finish_node ex n oc k cx w) =
         map_prod id (map_sum id no_events) (finish_node ex n oc k cx' w)"
  using finish_node_no_events [of ex n oc k cx w] finish_node_no_events [of ex n oc k cx' w] assms
  by simp

lemma start_and_run_node_sim:
  assumes "no_events cx = no_events cx'"
  shows "map_prod id (map_prod id (map_sum exn_core (map_prod id no_events)))
           (start_and_run_node ex tk n bu cx w) =
         map_prod id (map_prod id (map_sum exn_core (map_prod id no_events)))
           (start_and_run_node ex tk n bu cx' w)"
  using start_and_run_node_no_events [of ex tk n bu cx w]
    start_and_run_node_no_events [of ex tk n bu cx' w] assms
  by simp

lemma execute_next_event_step_sim:
  assumes "no_events cx = no_events cx'"
  shows "run_core (execute_next_event_step ex tk cx w) =
         run_core (execute_next_event_step ex tk cx' w)"
proof (cases "next_node cx")
  case (Inl e)
  with assms show ?thesis
    by (auto simp: execute_next_event_step_def next_node_def no_events_eq_iff
             split: list.splits target.splits)
next
  case (Inr r)
  obtain n bu c where r: "r = (n, bu, c)" by (cases r)
  with Inr assms obtain c' where c': "next_node cx' = Inr (n, bu, c')" "no_events c = no_events c'"
    by (auto simp: next_node_def no_events_eq_iff split: list.splits target.splits)
  obtain w1 em q where S: "start_and_run_node ex tk n bu c w = (w1, em, q)" by (metis prod_cases3)
  obtain w1' em' q' where S': "start_and_run_node ex tk n bu c' w = (w1', em', q')"
    by (metis prod_cases3)
  from start_and_run_node_sim [OF c'(2), of ex tk n bu w] S S'
  have w: "w1' = w1" and q: "map_sum exn_core (map_prod id no_events) q' =
      map_sum exn_core (map_prod id no_events) q"
    by simp_all
  show ?thesis
  proof (cases q)
    case (Inl e)
    with q Inr r c' S S' w show ?thesis
      by (cases q') (auto simp: execute_next_event_step_def)
  next
    case (Inr oc)
    with q obtain d d' out where d: "q = Inr (out, d)" "q' = Inr (out, d')" "no_events d' = no_events d"
      by (cases q'; cases oc) auto
    from finish_node_sim [OF d(3), of ex n out "''node-end''" w1]
    show ?thesis
      using \<open>next_node cx = Inr r\<close> r c' S S' w d
      by (auto simp: execute_next_event_step_def split: prod.splits sum.splits)
  qed
qed

text \<open>Two contexts that differ only in their event logs run to results that differ only there.\<close>

lemma run_pending_sim:
  "no_events cx = no_events cx' \<Longrightarrow>
   run_core (run_pending ex tk cx w) = run_core (run_pending ex tk cx' w)"
proof (induction ex tk cx w arbitrary: cx' rule: run_pending.induct)
  case (1 ex tk cx w)
  from "1.prems" have p: "cx_pending cx' = cx_pending cx" by (simp add: no_events_eq_iff)
  show ?case
  proof (cases "cx_pending cx = []")
    case True
    with p "1.prems" show ?thesis by simp
  next
    case ne: False
    obtain w1 r where s: "execute_next_event_step ex tk cx w = (w1, r)" by fastforce
    obtain w1' r' where s': "execute_next_event_step ex tk cx' w = (w1', r')" by fastforce
    from execute_next_event_step_sim [OF "1.prems", of ex tk w] s s'
    have w: "w1' = w1" and rr: "map_sum exn_core no_events r = map_sum exn_core no_events r'"
      by simp_all
    show ?thesis
    proof (cases r)
      case (Inl e)
      with rr ne p s s' w show ?thesis
        by (cases r') (auto simp: run_pending.simps [of ex tk cx w] run_pending.simps [of ex tk cx' w])
    next
      case (Inr c)
      with rr obtain c' where c': "r' = Inr c'" "no_events c = no_events c'"
        by (cases r') auto
      from "1.IH" [OF ne s [symmetric] Inr c'(2)] show ?thesis
        using ne p s s' w Inr c'
        by (simp add: run_pending.simps [of ex tk cx w] run_pending.simps [of ex tk cx' w])
    qed
  qed
qed

end
