(* ===== verification/Graph_Props.thy ===== *)
theory Graph_Props
  imports Graph_Run
begin

text \<open>
  Properties of the graph executor: the event log of a run, the step limit, the executable
  queue of a closed plan, the result of a linear plan, and transparency of resumption.
\<close>

section \<open>Specification vocabulary\<close>

text \<open>An executor is closed when whatever its actions and routers ask for has an action.\<close>

definition runnable :: "'w graph_executor \<Rightarrow> target \<Rightarrow> bool" where
  "runnable ex t \<longleftrightarrow> target_name t \<in> set (dict_keys (ex_actions ex)) \<union> {END}"

fun route_targets :: "string pydict \<Rightarrow> route \<Rightarrow> string set" where
  "route_targets routes (RtStr n) = (if routes = [] then {n} else {})"
| "route_targets routes (RtSeq ns) = (if routes = [] then set ns else {})"
| "route_targets routes (RtSend s) = {send_target s}"
| "route_targets routes (RtSends ss) = send_target ` set ss"
| "route_targets routes (RtAwaitable r rt) = {}"
| "route_targets routes (RtOther r) = {}"

definition closed_executor :: "'w graph_executor \<Rightarrow> bool" where
  "closed_executor ex \<longleftrightarrow>
     (\<forall>e \<in> set (plan_edges (ex_plan ex)). edge_target e \<noteq> START) \<and>
     (\<forall>e \<in> set (plan_conditional_edges (ex_plan ex)). START \<notin> snd ` set (ce_routes e)) \<and>
     (\<forall>n a w st w' em res. (n, a) \<in> set (ex_actions ex) \<longrightarrow> a w st = (w', em, Inr res) \<longrightarrow>
        set (map TNode (na_goto (normalize_action_result res))
             @ map TSend (na_sends (normalize_action_result res))) \<subseteq> {t. runnable ex t}) \<and>
     (\<forall>n r w st w' rt routes. (n, r) \<in> set (ex_routers ex) \<longrightarrow> r w st = (w', Inr rt) \<longrightarrow>
        START \<notin> route_targets routes rt)"

definition pure_action :: "(state \<Rightarrow> state) \<Rightarrow> 'w action" where
  "pure_action f w st = (w, [], Inr (RUpdate (f st)))"

text \<open>The intended result of a linear plan: each node's update merged in turn.\<close>

fun linear_spec ::
  "(string \<times> reducer) list \<Rightarrow> (string \<Rightarrow> state \<Rightarrow> state) \<Rightarrow> string list \<Rightarrow> state \<Rightarrow> state result"
  where
  "linear_spec reds f [] st = Inr st"
| "linear_spec reds f (n # ns) st =
     res_bind (merge_state st (f n st) reds) (linear_spec reds f ns)"

section \<open>Helper lemmas\<close>

lemma check_endpoints_Inr:
  "check_endpoints es ns = Inr () \<longleftrightarrow> set es \<subseteq> set ns \<union> {START, END}"
  by (induction es) (auto simp: res_bind_Inr_iff)

lemma validate_actions_Inr:
  "validate_actions p actions = Inr () \<longleftrightarrow> set (plan_nodes p) \<subseteq> set (dict_keys actions)"
  by (auto simp: validate_actions_def Let_def filter_empty_conv)

lemma make_executor_Inr:
  assumes "make_executor p actions routers reducers rt = Inr ex"
  shows "ex_plan ex = p" "ex_edges ex = index_edges (plan_edges p)"
    "ex_conditional_edges ex = index_conditional_edges (plan_conditional_edges p)"
    "ex_routers ex = routers" "ex_reducers ex = reducers"
    "set (plan_nodes p) \<subseteq> set (dict_keys (ex_actions ex))"
    "\<And>e. e \<in> set (plan_edges p) \<Longrightarrow> edge_target e \<in> set (plan_nodes p) \<union> {START, END}"
  using assms
  by (auto simp: make_executor_def validate_plan_def res_bind_Inr_iff check_endpoints_Inr
        validate_actions_Inr case_prod_beta image_image)

lemma resolve_route_name_Inr:
  "resolve_route_name ex rn routes n = Inr t \<Longrightarrow>
   t \<in> set (plan_nodes (ex_plan ex)) \<union> {START, END} \<and>
   (if routes = [] then t = n else t \<in> snd ` set routes)"
  by (auto simp: resolve_route_name_def validate_runtime_target_def res_bind_Inr_iff
           dest!: map_of_SomeD intro: rev_image_eqI split: if_splits option.splits)

lemma resolve_conditional_route_Inr:
  assumes "resolve_conditional_route ex rn routes rt = Inr ts" and "t \<in> set ts"
  shows "target_name t \<in> set (plan_nodes (ex_plan ex)) \<union> {START, END} \<and>
         target_name t \<in> snd ` set routes \<union> route_targets routes rt"
proof (cases rt)
  case (RtStr n)
  with assms show ?thesis
    by (auto simp: res_bind_Inr_iff dest!: resolve_route_name_Inr split: if_splits)
next
  case (RtSeq ns)
  with assms obtain n where n: "n \<in> set ns" "resolve_route_name ex rn routes n = Inr (target_name t)"
    by (auto simp: res_bind_Inr_iff dest!: res_map_Inr_in)
  from resolve_route_name_Inr [OF n(2)] n(1) RtSeq show ?thesis by (auto split: if_splits)
next
  case (RtSend s)
  with assms show ?thesis
    by (auto simp: res_bind_Inr_iff validate_runtime_target_def)
next
  case (RtSends ss)
  with assms have "\<exists>s \<in> set ss. t = TSend s \<and> validate_runtime_target ex (send_target s) = Inr ()"
    by (auto simp: res_bind_Inr_iff dest!: res_map_Inr_in)
  with RtSends show ?thesis by (auto simp: validate_runtime_target_def intro: rev_image_eqI)
qed (use assms in simp_all)

lemma closed_executorD:
  assumes "closed_executor ex"
  shows "e \<in> set (plan_edges (ex_plan ex)) \<Longrightarrow> edge_target e \<noteq> START"
    "ce \<in> set (plan_conditional_edges (ex_plan ex)) \<Longrightarrow> START \<notin> snd ` set (ce_routes ce)"
    "(n, a) \<in> set (ex_actions ex) \<Longrightarrow> a w st = (w', em, Inr res) \<Longrightarrow>
       t \<in> set (map TNode (na_goto (normalize_action_result res))
               @ map TSend (na_sends (normalize_action_result res))) \<Longrightarrow> runnable ex t"
    "(n, r) \<in> set (ex_routers ex) \<Longrightarrow> r w st = (w', Inr rt) \<Longrightarrow> START \<notin> route_targets routes rt"
  using assms unfolding closed_executor_def by (simp, simp, fast, simp)

lemma conditional_targets_runnable:
  assumes "closed_executor ex" and "set (plan_nodes (ex_plan ex)) \<subseteq> set (dict_keys (ex_actions ex))"
    and "set es \<subseteq> set (plan_conditional_edges (ex_plan ex))"
    and "conditional_targets ex es st w = (w', Inr ts)" and "t \<in> set ts"
  shows "runnable ex t"
  using assms(3-5)
proof (induction es arbitrary: w ts)
  case (Cons e es)
  from Cons.prems(2) obtain router w1 rt ts1 w2 ts2 where
    r: "dict_get (ex_routers ex) (ce_router e) = Some router" "router w st = (w1, Inr rt)"
    "resolve_conditional_route ex (ce_router e) (ce_routes e) rt = Inr ts1"
    "conditional_targets ex es st w1 = (w', Inr ts2)" "ts = ts1 @ ts2"
    by (auto split: option.splits prod.splits sum.splits)
  show ?case
  proof (cases "t \<in> set ts2")
    case True
    with Cons.IH [OF _ r(4)] Cons.prems(1) show ?thesis by simp
  next
    case False
    with Cons.prems(3) r(5) have "t \<in> set ts1" by simp
    from resolve_conditional_route_Inr [OF r(3) this]
    have t: "target_name t \<in> set (plan_nodes (ex_plan ex)) \<union> {START, END}"
      "target_name t \<in> snd ` set (ce_routes e) \<union> route_targets (ce_routes e) rt" by auto
    from Cons.prems(1) have "START \<notin> snd ` set (ce_routes e)"
      using closed_executorD(2) [OF assms(1), of e] by simp
    moreover have "START \<notin> route_targets (ce_routes e) rt"
      by (rule closed_executorD(4) [OF assms(1) map_of_SomeD [OF r(1)] r(2)])
    ultimately have "target_name t \<noteq> START" using t(2) by (metis UnE)
    with t(1) assms(2) show ?thesis by (auto simp: runnable_def)
  qed
qed simp

lemma next_targets_runnable:
  assumes "closed_executor ex" "set (plan_nodes (ex_plan ex)) \<subseteq> set (dict_keys (ex_actions ex))"
    and "ex_edges ex = index_edges (plan_edges (ex_plan ex))"
    and "ex_conditional_edges ex = index_conditional_edges (plan_conditional_edges (ex_plan ex))"
    and "\<And>e. e \<in> set (plan_edges (ex_plan ex)) \<Longrightarrow>
              edge_target e \<in> set (plan_nodes (ex_plan ex)) \<union> {START, END}"
    and "\<And>t. t \<in> set (map TNode (na_goto oc) @ map TSend (na_sends oc)) \<Longrightarrow> runnable ex t"
    and "next_targets ex n st oc w = (w', Inr ts)" and "t \<in> set ts"
  shows "runnable ex t"
proof (cases "na_controls_flow oc")
  case True
  with assms(6-8) show ?thesis by (auto simp: next_targets_def)
next
  case False
  with assms(7) obtain ts' where
    c: "conditional_targets ex (dd_get (ex_conditional_edges ex) n) st w = (w', Inr ts')"
    and ts: "ts = map TNode (dd_get (ex_edges ex) n) @ ts'"
    by (auto simp: next_targets_def split: prod.splits sum.splits)
  from ts assms(8) consider "t \<in> set ts'" | "t \<in> set (map TNode (dd_get (ex_edges ex) n))" by auto
  then show ?thesis
  proof cases
    case 1
    with conditional_targets_runnable [OF assms(1,2) _ c] show ?thesis
      by (auto simp: assms(4) index_conditional_edges_get)
  next
    case 2
    then obtain e where "e \<in> set (plan_edges (ex_plan ex))" "t = TNode (edge_target e)"
      by (auto simp: assms(3) index_edges_get)
    with closed_executorD(1) [OF assms(1), of e] assms(2) assms(5) [of e] show ?thesis
      by (auto simp: runnable_def)
  qed
qed

lemma step_runnable:
  assumes mk: "make_executor p actions routers reducers rt = Inr ex" and cl: "closed_executor ex"
    and inv: "\<forall>t \<in> set (cx_pending cx). runnable ex t"
    and step: "execute_next_event_step ex tk cx w = (w', Inr cx')"
  shows "\<forall>t \<in> set (cx_pending cx'). runnable ex t"
  using step
proof (cases rule: execute_next_event_step_elim)
  case end_item
  with inv show ?thesis by (auto dest: list.set_sel(2))
next
  case (node n bu cx0 w1 em oc cx1)
  note mk' = make_executor_Inr [OF mk]
  from node(1) have p0: "set (cx_pending cx0) \<subseteq> set (cx_pending cx)"
    by (auto elim!: next_node_Inr_cases)
  from node(3) obtain a res where a: "dict_get (ex_actions ex) n = Some a"
    "a w (fst (enter_node tk n bu (cx0\<lparr>cx_step := cx_step cx0 + 1\<rparr>))) = (w1, em, Inr res)"
    "oc = normalize_action_result res" "cx_pending cx1 = cx_pending cx0"
    by (auto elim!: start_and_run_node_elim)
  have g: "t \<in> set (map TNode (na_goto oc) @ map TSend (na_sends oc)) \<Longrightarrow> runnable ex t" for t
    using closed_executorD(3) [OF cl map_of_SomeD [OF a(1)] a(2)] unfolding a(3) .
  from node(4) obtain st ts where ts: "next_targets ex n st oc w1 = (w', Inr ts)"
    "cx_pending cx' = cx_pending cx1 @ ts"
    by (auto elim!: finish_node_elim)
  have "t \<in> set ts \<Longrightarrow> runnable ex t" for t
    using mk' by (intro next_targets_runnable [OF cl _ _ _ _ g ts(1)]) auto
  with ts(2) a(4) p0 inv show ?thesis by auto
qed

section \<open>Linear plans\<close>

lemma filter_zip_tl:
  assumes "distinct (pre @ n # post)"
  shows "filter (\<lambda>(s, t). s = n) (zip (pre @ n # post) (tl (pre @ n # post))) =
         (case post of [] \<Rightarrow> [] | m # _ \<Rightarrow> [(n, m)])"
  using assms
proof (induction pre)
  case Nil
  then show ?case
    by (cases post) (auto simp: filter_empty_conv dest: set_zip_leftD)
next
  case (Cons x pre)
  then show ?case by (cases pre) auto
qed

lemma linear_edges_mid:
  assumes "linear_plan nodes limit = Inr p" and "distinct nodes"
    and "START \<notin> set nodes" and "nodes = pre @ n # post"
  shows "dd_get (index_edges (plan_edges p)) n = [case post of [] \<Rightarrow> END | m # _ \<Rightarrow> m]"
proof -
  let ?mid = "map (\<lambda>(s, t). mk_edge s t) (zip nodes (tl nodes))"
  have last: "last nodes = n \<longleftrightarrow> post = []"
    using assms(2,4) by (cases post rule: rev_cases) auto
  have p: "plan_edges p = mk_edge START (hd nodes) # ?mid @ [mk_edge (last nodes) END]"
    using assms(1) by (auto simp: linear_plan_def split: if_splits)
  have "filter (\<lambda>e. edge_source e = n) ?mid =
        map (\<lambda>(s, t). mk_edge s t) (filter (\<lambda>(s, t). s = n) (zip nodes (tl nodes)))"
    by (simp add: filter_map comp_def case_prod_beta')
  also have "\<dots> = map (\<lambda>(s, t). mk_edge s t) (case post of [] \<Rightarrow> [] | m # _ \<Rightarrow> [(n, m)])"
    using filter_zip_tl [of pre n post] assms(2,4) by simp
  finally have mid: "map edge_target (filter (\<lambda>e. edge_source e = n) ?mid) =
      (case post of [] \<Rightarrow> [] | m # _ \<Rightarrow> [m])"
    by (simp split: list.splits)
  from assms(3,4) have "START \<noteq> n" by auto
  then show ?thesis
    by (simp add: index_edges_get p mid last split: list.splits)
qed

lemma linear_edges_start:
  assumes "linear_plan nodes limit = Inr p" and "START \<notin> set nodes"
  shows "dd_get (index_edges (plan_edges p)) START = [hd nodes]"
proof -
  let ?mid = "map (\<lambda>(s, t). mk_edge s t) (zip nodes (tl nodes))"
  have p: "plan_edges p = mk_edge START (hd nodes) # ?mid @ [mk_edge (last nodes) END]"
    and ne: "nodes \<noteq> []"
    using assms(1) by (auto simp: linear_plan_def split: if_splits)
  have mid: "filter (\<lambda>e. edge_source e = START) ?mid = []"
    using assms(2) by (auto simp: filter_empty_conv dest: set_zip_leftD)
  from ne assms(2) have "last nodes \<noteq> START" by (metis last_in_set)
  then show ?thesis by (simp add: index_edges_get p mid)
qed


lemma invoke_with_events_Inr:
  assumes "invoke_with_events ex tk st w = (w', Inr (st', trace, events))"
  obtains cx1 where
    "run_pending ex tk (snd (publish ''start'' None 0
        [(''pending'', PTuple (map target_val (cx_pending (ctx_from_initial (ex_edges ex) st))))]
        (ctx_from_initial (ex_edges ex) st))) w = (w', Inr cx1)"
    "st' = cx_state (record_trace tk cx1)" "trace = cx_trace cx1"
    "map event_sig events = map event_sig (cx_events cx1) @ [(''complete'', None, cx_step cx1)]"
  using assms
  by (auto simp: invoke_with_events_def run_context_def ctx_result_def Let_def
           split: prod.splits sum.splits)

lemma initial_log_inv:
  "log_inv 0 [] [(''start'', None, 0)]
     (snd (publish ''start'' None 0 d (ctx_from_initial edges st)))"
  by (auto simp: log_inv_def ctx_from_initial_def publish_def Let_def)

lemma initial_bound_inv: "bound_inv l (snd (publish k n s d (ctx_from_initial edges st)))"
  by (auto simp: bound_inv_def ctx_from_initial_def publish_def Let_def)

section \<open>The event log and the step limit\<close>

text \<open>
  The event log of a run that completes is determined by its trace: one \<open>start\<close>, then a
  \<open>node-start\<close>/\<open>node-end\<close> pair for every executed node in execution order, numbered from 1
  without gaps, then one \<open>complete\<close> carrying the number of executed nodes.
\<close>

theorem invoke_event_log:
  assumes "invoke_with_events ex tk st w = (w', Inr (st', trace, events))"
  shows "map event_sig events =
    (''start'', None, 0) # node_log 1 trace @ [(''complete'', None, int (length trace))]"
  using assms
proof (rule invoke_with_events_Inr)
  fix cx1
  assume r: "run_pending ex tk (snd (publish ''start'' None 0
        [(''pending'', PTuple (map target_val (cx_pending (ctx_from_initial (ex_edges ex) st))))]
        (ctx_from_initial (ex_edges ex) st))) w = (w', Inr cx1)"
    and tr: "trace = cx_trace cx1"
    and ev: "map event_sig events = map event_sig (cx_events cx1) @ [(''complete'', None, cx_step cx1)]"
  from reach_log_inv [OF run_pending_Inr(1) [OF r] initial_log_inv]
  show ?thesis by (auto simp: log_inv_def tr ev)
qed


section \<open>The queue of a closed executor\<close>

text \<open>
  C3. If the actions and routers of an executor only ask for nodes that have an action (or the
  end marker), no edge or route points back at the start marker, and the executor passed
  validation, then in every state a run reaches each pending item has an action or is the end
  marker, so looking up the action of a popped node never fails with a \<open>KeyError\<close>.
\<close>

theorem pending_always_runnable:
  assumes mk: "make_executor p actions routers reducers rt = Inr ex"
    and cl: "closed_executor ex"
    and reach: "graph_reach ex tk (ctx_from_initial (ex_edges ex) st, w) (cx, w')"
  shows "list_all (runnable ex) (cx_pending cx)"
proof -
  note mk' = make_executor_Inr [OF mk]
  have init: "\<forall>t \<in> set (cx_pending (ctx_from_initial (ex_edges ex) st)). runnable ex t"
    using mk' closed_executorD(1) [OF cl]
    by (fastforce simp: ctx_from_initial_def index_edges_get runnable_def)
  have "\<forall>t \<in> set (cx_pending (fst (cx, w'))). runnable ex t"
    by (rule graph_reach_invariant [OF reach, where P = "\<lambda>c. \<forall>t \<in> set (cx_pending c). runnable ex t"])
      (use init step_runnable [OF mk cl] in auto)
  then show ?thesis by (simp add: list_all_iff)
qed

lemma linear_step:
  assumes "dict_get (ex_actions ex) n = Some (pure_action g)" and "n \<noteq> END"
    and "cx_step cx + 1 \<le> plan_step_limit (ex_plan ex)"
    and "ex_conditional_edges ex = []" and "dd_get (ex_edges ex) n = [m]"
    and "cx_pending cx = [TNode n]"
  shows "case merge_state (cx_state cx) (g (cx_state cx)) (ex_reducers ex) of
           Inl e \<Rightarrow> execute_next_event_step ex None cx w = (w, Inl (Raise e))
         | Inr s \<Rightarrow> \<exists>cx'. execute_next_event_step ex None cx w = (w, Inr cx') \<and> cx_state cx' = s
             \<and> cx_trace cx' = cx_trace cx @ [n] \<and> cx_step cx' = cx_step cx + 1
             \<and> cx_pending cx' = [TNode m]"
  using assms
  by (auto simp: execute_next_event_step_def next_node_def start_and_run_node_def advance_step_def
        enter_node_def Let_def pure_action_def finish_node_def merge_outcome_def next_targets_def
        record_trace_def with_branch_update_def split: sum.splits)

lemma linear_run_pending:
  assumes "\<And>pre n post. nodes = pre @ n # post \<Longrightarrow>
      dd_get (ex_edges ex) n = [case post of [] \<Rightarrow> END | m # _ \<Rightarrow> m]"
    and "\<And>n. n \<in> set nodes \<Longrightarrow> dict_get (ex_actions ex) n = Some (pure_action (f n))"
    and "END \<notin> set nodes" and "ex_conditional_edges ex = []"
    and "nodes = pre @ post"
    and "cx_pending cx = [TNode (case post of [] \<Rightarrow> END | m # _ \<Rightarrow> m)]"
    and "cx_step cx + int (length post) \<le> plan_step_limit (ex_plan ex)"
  shows "case linear_spec (ex_reducers ex) f post (cx_state cx) of
           Inl e \<Rightarrow> run_pending ex None cx w = (w, Inl (Raise e))
         | Inr s \<Rightarrow> \<exists>cx'. run_pending ex None cx w = (w, Inr cx') \<and> cx_state cx' = s
             \<and> cx_trace cx' = cx_trace cx @ post"
  using assms(5-7)
proof (induction post arbitrary: pre cx)
  case Nil
  then show ?case
    by (simp add: run_pending.simps [of ex None cx] execute_next_event_step_def next_node_def)
next
  case (Cons n post)
  let ?m = "case post of [] \<Rightarrow> END | m # _ \<Rightarrow> m"
  from Cons.prems assms(1-4)
  have step: "case merge_state (cx_state cx) (f n (cx_state cx)) (ex_reducers ex) of
           Inl e \<Rightarrow> execute_next_event_step ex None cx w = (w, Inl (Raise e))
         | Inr s \<Rightarrow> \<exists>cx'. execute_next_event_step ex None cx w = (w, Inr cx') \<and> cx_state cx' = s
             \<and> cx_trace cx' = cx_trace cx @ [n] \<and> cx_step cx' = cx_step cx + 1
             \<and> cx_pending cx' = [TNode ?m]"
    by (intro linear_step) auto
  show ?case
  proof (cases "merge_state (cx_state cx) (f n (cx_state cx)) (ex_reducers ex)")
    case (Inl e)
    with step Cons.prems(2) show ?thesis by (simp add: run_pending.simps [of ex None cx])
  next
    case (Inr s)
    with step obtain cx' where cx': "execute_next_event_step ex None cx w = (w, Inr cx')"
      "cx_state cx' = s" "cx_trace cx' = cx_trace cx @ [n]" "cx_step cx' = cx_step cx + 1"
      "cx_pending cx' = [TNode ?m]"
      by auto
    have "case linear_spec (ex_reducers ex) f post (cx_state cx') of
           Inl e \<Rightarrow> run_pending ex None cx' w = (w, Inl (Raise e))
         | Inr s \<Rightarrow> \<exists>cx''. run_pending ex None cx' w = (w, Inr cx'') \<and> cx_state cx'' = s
             \<and> cx_trace cx'' = cx_trace cx' @ post"
      using Cons.prems cx' by (intro Cons.IH [of "pre @ [n]"]) auto
    with Inr Cons.prems(2) cx' show ?thesis
      by (auto simp: run_pending.simps [of ex None cx] split: sum.splits)
  qed
qed

text \<open>
  C4. A linear plan computes what its name says: with distinct ordinary nodes whose actions
  return updates, and a step limit that admits them all, invoking it runs the nodes once each
  in order and returns the initial state with every node's update merged in turn through the
  reducers, or raises the first reducer error. It never stops early and touches nothing else.
\<close>

theorem linear_plan_computes:
  assumes "linear_plan nodes limit = Inr p" and "distinct nodes"
    and "START \<notin> set nodes" and "END \<notin> set nodes" and "int (length nodes) \<le> limit"
    and "make_executor p actions routers reducers rt = Inr ex"
    and "\<And>n. n \<in> set nodes \<Longrightarrow> dict_get (ex_actions ex) n = Some (pure_action (f n))"
  shows "invoke_with_trace ex None st w =
         (w, map_sum Raise (\<lambda>s. (s, nodes)) (linear_spec reducers f nodes st))"
proof -
  note mk = make_executor_Inr [OF assms(6)]
  let ?cx0 = "ctx_from_initial (ex_edges ex) st"
  let ?cx = "snd (publish ''start'' None 0 [(''pending'', PTuple (map target_val (cx_pending ?cx0)))] ?cx0)"
  from assms(1) have p: "plan_step_limit p = limit" "plan_conditional_edges p = []" "nodes \<noteq> []"
    by (auto simp: linear_plan_def split: if_splits)
  have pend: "cx_pending ?cx = [TNode (case nodes of [] \<Rightarrow> END | m # _ \<Rightarrow> m)]"
    using linear_edges_start [OF assms(1,3)] p(3)
    by (simp add: ctx_from_initial_def mk(2) split: list.splits)
  have "case linear_spec (ex_reducers ex) f nodes (cx_state ?cx) of
           Inl e \<Rightarrow> run_pending ex None ?cx w = (w, Inl (Raise e))
         | Inr s \<Rightarrow> \<exists>cx'. run_pending ex None ?cx w = (w, Inr cx') \<and> cx_state cx' = s
             \<and> cx_trace cx' = cx_trace ?cx @ nodes"
    using linear_edges_mid [OF assms(1-3)] assms(4,5,7) pend
    by (intro linear_run_pending [where nodes = nodes and pre = "[]"])
       (auto simp: mk p index_conditional_edges_def ctx_from_initial_def)
  then show ?thesis
    by (auto simp: invoke_with_trace_def invoke_with_events_def run_context_def ctx_result_def
          Let_def ctx_from_initial_def record_trace_def mk split: sum.splits)
qed

section \<open>Resuming an interrupted run\<close>

lemma record_trace_idem [simp]: "record_trace tk (record_trace tk cx) = record_trace tk cx"
  by (cases tk) (simp_all add: record_trace_def)

lemma record_trace_events:
  "record_trace tk (cx\<lparr>cx_events := es\<rparr>) = (record_trace tk cx)\<lparr>cx_events := es\<rparr>"
  by (cases tk) (simp_all add: record_trace_def)

lemma interrupted_context:
  assumes "Interrupted i =
      raise_interrupted (snd (enter_node tk node bu cx)) node (gi_interrupt i)"
  shows "no_events (record_trace tk (ctx_from_interrupted i)) =
         no_events (snd (enter_node tk node bu cx))"
  using raise_interrupted_fields [OF assms]
  by (cases tk)
    (auto simp: no_events_eq_iff ctx_from_interrupted_def enter_node_def record_trace_def Let_def)

lemma finish_node_kind:
  "map_prod id (map_sum id no_events) (finish_node ex n oc k cx w) =
   map_prod id (map_sum id no_events) (finish_node ex n oc k' cx w)"
  by (auto simp: finish_node_def no_events_eq_iff split: sum.splits prod.splits)

text \<open>The result of a run without its event log.\<close>

definition run_outcome ::
  "'w \<times> (graph_exn + run_result) \<Rightarrow> 'w \<times> (graph_exn + state \<times> string list)" where
  "run_outcome = map_prod id (map_sum exn_core (\<lambda>(st, trace, events). (st, trace)))"

lemma run_context_outcome:
  assumes "no_events cx = no_events cx'"
  shows "run_outcome (map_prod id (map_sum id ctx_result) (run_context ex tk cx w)) =
         map_prod id (map_sum exn_core (\<lambda>c. (cx_state (record_trace tk c), cx_trace c)))
           (run_pending ex tk cx' w)"
proof -
  let ?cx = "snd (publish ''start'' None 0 [(''pending'', PTuple (map target_val (cx_pending cx)))] cx)"
  obtain w1 q where q: "run_pending ex tk ?cx w = (w1, q)" by fastforce
  obtain w2 q' where q': "run_pending ex tk cx' w = (w2, q')" by fastforce
  have "run_core (run_pending ex tk ?cx w) = run_core (run_pending ex tk cx' w)"
    using assms by (intro run_pending_sim) simp
  with q q' have eq: "w2 = w1" "map_sum exn_core no_events q = map_sum exn_core no_events q'"
    by simp_all
  show ?thesis
  proof (cases q)
    case (Inl e)
    with eq obtain e' where "q' = Inl e'" "exn_core e = exn_core e'" by (cases q') auto
    with q q' eq Inl show ?thesis by (simp add: run_context_def run_outcome_def)
  next
    case (Inr c)
    with eq obtain c' where "q' = Inr c'" "no_events c = no_events c'" by (cases q') auto
    with q q' eq Inr show ?thesis
      by (cases tk)
        (simp_all add: run_context_def run_outcome_def ctx_result_def no_events_eq_iff
          record_trace_def Let_def)
  qed
qed

text \<open>
  C1. Resuming is transparent. Suppose a step paused because the action of a node returned an
  interrupt. Resuming the saved interruption with a result that is not itself an interrupt
  ends with the same world, state and trace, or the same exception, as the run in which that
  action had returned this result in the first place. Only the event log tells them apart.
\<close>

theorem resume_transparent:
  assumes paused: "execute_next_event_step ex tk cx w = (w1, Inl (Interrupted i))"
    and ex': "ex' = ex\<lparr>ex_actions := dict_set (gi_node i) a' (ex_actions ex)\<rparr>"
    and a': "\<And>s. a' w s = (w1, em, Inr r)"
    and r: "na_interrupt (normalize_action_result r) = None"
  shows "run_outcome (resume_interrupted ex' tk i r w1) =
         map_prod id (map_sum exn_core (\<lambda>c. (cx_state (record_trace tk c), cx_trace c)))
           (run_pending ex' tk cx w)"
proof -
  from paused obtain node bu cx0 action em0 where nn: "next_node cx = Inr (node, bu, cx0)" "node \<noteq> END"
    and lim: "cx_step cx0 + 1 \<le> plan_step_limit (ex_plan ex)"
    and ri: "Interrupted i = raise_interrupted
      (snd (enter_node tk node bu (cx0\<lparr>cx_step := cx_step cx0 + 1\<rparr>))) node (gi_interrupt i)"
    by (rule interrupted_elim)
  let ?cx1 = "snd (enter_node tk node bu (cx0\<lparr>cx_step := cx_step cx0 + 1\<rparr>))"
  let ?cr = "record_trace tk (ctx_from_interrupted i)"
  let ?out = "normalize_action_result r"
  have node: "node = gi_node i" using raise_interrupted_fields [OF ri] by simp
  from nn have ne: "cx_pending cx \<noteq> []" by (auto elim!: next_node_Inr_cases)
  have step: "execute_next_event_step ex' tk cx w =
      (case finish_node ex' (gi_node i) ?out ''node-end'' ?cx1 w1 of
         (w2, Inl err) \<Rightarrow> (w2, Inl (Raise err)) | (w2, Inr cx2) \<Rightarrow> (w2, Inr cx2))"
    using nn lim r
    by (cases "enter_node tk node bu (cx0\<lparr>cx_step := cx_step cx0 + 1\<rparr>)")
      (simp add: execute_next_event_step_def start_and_run_node_def advance_step_def ex' node a')
  have "map_prod id (map_sum id no_events) (finish_node ex' (gi_node i) ?out ''resume'' ?cr w1) =
        map_prod id (map_sum id no_events) (finish_node ex' (gi_node i) ?out ''resume'' ?cx1 w1)"
    by (rule finish_node_sim [OF interrupted_context [OF ri]])
  also have "\<dots> = map_prod id (map_sum id no_events) (finish_node ex' (gi_node i) ?out ''node-end'' ?cx1 w1)"
    by (rule finish_node_kind)
  finally have fin: "map_prod id (map_sum id no_events) (finish_node ex' (gi_node i) ?out ''resume'' ?cr w1) =
    map_prod id (map_sum id no_events) (finish_node ex' (gi_node i) ?out ''node-end'' ?cx1 w1)" .
  obtain w2 q where q: "finish_node ex' (gi_node i) ?out ''resume'' ?cr w1 = (w2, q)" by fastforce
  with fin obtain q' where q': "finish_node ex' (gi_node i) ?out ''node-end'' ?cx1 w1 = (w2, q')"
    "map_sum id no_events q = map_sum id no_events q'"
    by (auto simp: map_prod_def split: prod.splits)
  show ?thesis
  proof (cases q)
    case (Inl e)
    with q' have "q' = Inl e" by (cases q') auto
    with q q' Inl ne step show ?thesis
      by (simp add: resume_interrupted_def run_pending.simps [of ex' tk cx w] run_outcome_def Let_def)
  next
    case (Inr c)
    with q' obtain c' where c': "q' = Inr c'" "no_events c = no_events c'" by (cases q') auto
    from run_context_outcome [OF c'(2), of ex' tk w2] show ?thesis
      using q q' Inr c' ne step
      by (simp add: resume_interrupted_def run_pending.simps [of ex' tk cx w] Let_def)
  qed
qed

section \<open>A concrete graph\<close>

text \<open>Two nodes in a row: the first adds a key, the second asks the user before it goes on.\<close>

definition demo_plan :: graph_plan where
  "demo_plan = \<lparr>plan_nodes = [''a'', ''b''],
     plan_edges = [mk_edge START ''a'', mk_edge ''a'' ''b'', mk_edge ''b'' END],
     plan_conditional_edges = [], plan_step_limit = 5, plan_metadata = []\<rparr>"

definition demo_callable :: "'w action \<Rightarrow> (unit, 'w) callable" where
  "demo_callable a = \<lparr>ca_positional = 1, ca_varargs = False, ca_call1 = a, ca_call2 = (\<lambda>_. a)\<rparr>"

definition demo_update :: "string \<Rightarrow> state \<Rightarrow> state" where
  "demo_update n st = [(n, PInt (int (length st)))]"

definition demo_pause :: "unit action" where
  "demo_pause w st = (w, [], Inr (RInterrupt \<lparr>int_value = PStr ''ok?'', int_resumable = True\<rparr>))"

definition demo_executor :: "unit action \<Rightarrow> unit graph_executor" where
  "demo_executor b = \<lparr>ex_plan = demo_plan,
     ex_actions = [(''a'', pure_action (demo_update ''a'')), (''b'', b)],
     ex_routers = [], ex_reducers = [], ex_edges = index_edges (plan_edges demo_plan),
     ex_conditional_edges = []\<rparr>"

definition demo_ctx :: graph_ctx where
  "demo_ctx = \<lparr>cx_state = [(''a'', PInt 0)], cx_pending = [TNode ''b''], cx_trace = [''a''],
     cx_events = [], cx_step = 1\<rparr>"

lemmas demo_defs = demo_plan_def demo_executor_def demo_update_def demo_pause_def pure_action_def
  index_edges_def dd_append_def dd_get_def mk_edge_def START_def END_def

lemmas exec_defs = execute_next_event_step_def next_node_def start_and_run_node_def
  advance_step_def enter_node_def finish_node_def merge_outcome_def next_targets_def
  record_trace_def with_branch_update_def publish_def Let_def raise_interrupted_def

lemma demo_linear: "linear_plan [''a'', ''b''] 5 = Inr demo_plan"
  by (simp add: linear_plan_def demo_plan_def)

lemma demo_make:
  "make_executor demo_plan
     (map (\<lambda>n. (n, demo_callable (pure_action (demo_update n)))) [''a'', ''b''] ) [] [] () =
   Inr (demo_executor (pure_action (demo_update ''b'')))"
  by (simp add: make_executor_def validate_plan_def validate_actions_def demo_plan_def
      demo_executor_def check_endpoint_def demo_callable_def bind_runtime_action_def
      index_conditional_edges_def res_bind_def)

lemma demo_run:
  "invoke_with_trace (demo_executor (pure_action (demo_update ''b''))) None [] () =
   ((), Inr ([(''a'', PInt 0), (''b'', PInt 1)], [''a'', ''b'']))"
  by code_simp

theorem invoke_event_log_witness:
  "\<exists>events. snd (invoke_with_events (demo_executor (pure_action (demo_update ''b''))) None [] ()) =
     Inr ([(''a'', PInt 0), (''b'', PInt 1)], [''a'', ''b''], events) \<and>
   map event_sig events =
     [(''start'', None, 0), (''node-start'', Some ''a'', 1), (''node-end'', Some ''a'', 1),
      (''node-start'', Some ''b'', 2), (''node-end'', Some ''b'', 2), (''complete'', None, 2)]"
proof -
  from demo_run obtain events where
    e: "invoke_with_events (demo_executor (pure_action (demo_update ''b''))) None [] () =
      ((), Inr ([(''a'', PInt 0), (''b'', PInt 1)], [''a'', ''b''], events))"
    by (auto simp: invoke_with_trace_def map_sum_def map_prod_def split: prod.splits sum.splits)
  from invoke_event_log [OF e] e show ?thesis by simp
qed

lemma demo_paused: "\<exists>i. execute_next_event_step (demo_executor demo_pause) None demo_ctx () = ((), Inl (Interrupted i)) \<and> gi_node i = ''b''"
  by (simp add: exec_defs demo_defs demo_ctx_def)

theorem resume_transparent_witness:
  "\<exists>i. execute_next_event_step (demo_executor demo_pause) None demo_ctx () = ((), Inl (Interrupted i))
   \<and> run_outcome (resume_interrupted
         (demo_executor (\<lambda>w s. (w, [], Inr (RUpdate [(''b'', PInt 7)])))) None i
         (RUpdate [(''b'', PInt 7)]) ()) =
       ((), Inr ([(''a'', PInt 0), (''b'', PInt 7)], [''a'', ''b'']))"
proof -
  let ?a = "\<lambda>w s. (w, [], Inr (RUpdate [(''b'', PInt 7)]))"
  from demo_paused obtain i where
    i: "execute_next_event_step (demo_executor demo_pause) None demo_ctx () = ((), Inl (Interrupted i))"
    "gi_node i = ''b''"
    by blast
  have ex: "demo_executor ?a = (demo_executor demo_pause)\<lparr>ex_actions :=
      dict_set (gi_node i) ?a (ex_actions (demo_executor demo_pause))\<rparr>"
    by (simp add: i(2) demo_executor_def)
  have run: "map_prod id (map_sum exn_core (\<lambda>c. (cx_state (record_trace None c), cx_trace c)))
      (run_pending (demo_executor ?a) None demo_ctx ()) =
      ((), Inr ([(''a'', PInt 0), (''b'', PInt 7)], [''a'', ''b'']))"
    by code_simp
  from resume_transparent [OF i(1) ex, of "[]" "RUpdate [(''b'', PInt 7)]"] run i(1)
  show ?thesis by auto
qed

lemma demo_interrupts:
  "\<exists>i. invoke_with_events (demo_executor demo_pause) None [] () = ((), Inl (Interrupted i))
     \<and> gi_trace i = [''a'', ''b'']"
proof -
  have "(case invoke_with_events (demo_executor demo_pause) None [] () of
     (_, Inl (Interrupted i)) \<Rightarrow> gi_trace i = [''a'', ''b''] | _ \<Rightarrow> False)"
    by code_simp
  then show ?thesis by (auto split: prod.splits sum.splits graph_exn.splits)
qed


lemma demo_closed: "closed_executor (demo_executor (pure_action (demo_update ''b'')))"
  by (auto simp: closed_executor_def demo_executor_def demo_plan_def pure_action_def START_def
      END_def mk_edge_def)

theorem pending_always_runnable_witness:
  "graph_reach (demo_executor (pure_action (demo_update ''b''))) None
     (ctx_from_initial (ex_edges (demo_executor (pure_action (demo_update ''b'')))) [], ())
     (ctx_from_initial (ex_edges (demo_executor (pure_action (demo_update ''b'')))) [], ())
   \<and> list_all (runnable (demo_executor (pure_action (demo_update ''b''))))
       (cx_pending (ctx_from_initial (ex_edges (demo_executor (pure_action (demo_update ''b'')))) []))
   \<and> cx_pending (ctx_from_initial (ex_edges (demo_executor (pure_action (demo_update ''b'')))) [])
       = [TNode ''a'']"
  using pending_always_runnable [OF demo_make demo_closed graph_reach.refl [of _ None]]
  by (auto intro: graph_reach.refl simp: ctx_from_initial_def demo_defs)

theorem linear_plan_computes_witness:
  "invoke_with_trace (demo_executor (pure_action (demo_update ''b''))) None [(''x'', PNone)] () =
   ((), Inr ([(''x'', PNone), (''a'', PInt 1), (''b'', PInt 2)], [''a'', ''b'']))"
proof -
  have "dict_get (ex_actions (demo_executor (pure_action (demo_update ''b'')))) n =
      Some (pure_action (demo_update n))" if "n \<in> set [''a'', ''b'']" for n
    using that by (auto simp: demo_executor_def)
  from linear_plan_computes [OF demo_linear _ _ _ _ demo_make this, of "[(''x'', PNone)]" "()"]
  show ?thesis by (simp add: START_def END_def merge_state_no_reducers demo_update_def)
qed

end
