(* ===== verification/Builder.thy ===== *)
theory Builder
  imports Messages Graph_Props Py_Text
begin

text \<open>
  The runtime object (\<open>runtime.py\<close>), the graph builder (\<open>builder.py\<close>), the tool node and the
  prebuilt tool-call loop (\<open>tools.py\<close>, \<open>prebuilt.py\<close>) and subgraphs (\<open>subgraphs.py\<close>). The store,
  checkpointer and native context of a runtime are opaque objects of types \<open>'st\<close>, \<open>'ck\<close>, \<open>'nc\<close>.
\<close>

section \<open>The runtime object\<close>

record ('st, 'ck, 'nc) runtime =
  rt_thread_id :: "string option"
  rt_store :: "'st option"
  rt_checkpointer :: "'ck option"
  rt_metadata :: "pyval pydict"
  rt_backend :: string
  rt_native_context :: "'nc option"

definition check_runtime :: "('st, 'ck, 'nc) runtime \<Rightarrow> ('st, 'ck, 'nc) runtime result" where
  "check_runtime rt =
     (if rt_backend rt \<notin> {''native'', ''reference''}
      then Inl (RuntimeGraphRuntimeError (''unknown runtime backend: '' @ rt_backend rt))
      else if rt_backend rt = ''reference'' \<and> rt_native_context rt \<noteq> None
      then Inl (RuntimeGraphRuntimeError ''reference backend cannot carry a native runtime context'')
      else Inr rt)"

definition default_runtime :: "('st, 'ck, 'nc) runtime" where
  "default_runtime = \<lparr>rt_thread_id = None, rt_store = None, rt_checkpointer = None,
     rt_metadata = [], rt_backend = ''native'', rt_native_context = None\<rparr>"

definition runtime_reference :: "('st, 'ck, 'nc) runtime \<Rightarrow> ('st, 'ck, 'nc) runtime result" where
  "runtime_reference kwargs = check_runtime (kwargs\<lparr>rt_backend := ''reference''\<rparr>)"

definition runtime_native ::
  "'nc option \<Rightarrow> ('st, 'ck, 'nc) runtime \<Rightarrow> ('st, 'ck, 'nc) runtime result" where
  "runtime_native nc kwargs =
     (case nc of
        None \<Rightarrow> Inl (RuntimeGraphRuntimeError ''native runtime context is required'')
      | Some c \<Rightarrow> check_runtime (kwargs\<lparr>rt_backend := ''native'', rt_native_context := Some c\<rparr>))"

definition require_native_context :: "('nc \<Rightarrow> bool) \<Rightarrow> ('st, 'ck, 'nc) runtime \<Rightarrow> 'nc result" where
  "require_native_context closed rt =
     (if rt_backend rt \<noteq> ''native'' then
        Inl (RuntimeGraphRuntimeError ''production runtime requires a negotiated native context'')
      else case rt_native_context rt of
        None \<Rightarrow> Inl (RuntimeGraphRuntimeError ''production runtime requires a negotiated native context'')
      | Some c \<Rightarrow> if closed c then Inl (RuntimeGraphRuntimeError ''native runtime context is closed'')
                  else Inr c)"

definition require_thread_id :: "('st, 'ck, 'nc) runtime \<Rightarrow> string result" where
  "require_thread_id rt =
     (case rt_thread_id rt of
        None \<Rightarrow> Inl (RuntimeGraphRuntimeError ''runtime graph thread_id is not configured'')
      | Some t \<Rightarrow> Inr t)"

definition require_store :: "('st, 'ck, 'nc) runtime \<Rightarrow> 'st result" where
  "require_store rt =
     (case rt_store rt of
        None \<Rightarrow> Inl (RuntimeGraphRuntimeError ''runtime graph store is not configured'')
      | Some s \<Rightarrow> Inr s)"

definition require_checkpointer :: "('st, 'ck, 'nc) runtime \<Rightarrow> 'ck result" where
  "require_checkpointer rt =
     (case rt_checkpointer rt of
        None \<Rightarrow> Inl (RuntimeGraphRuntimeError ''runtime graph checkpointer is not configured'')
      | Some c \<Rightarrow> Inr c)"

definition runtime_from_compile_options ::
  "('st, 'ck, 'nc) runtime option \<Rightarrow> string option \<Rightarrow> 'st option \<Rightarrow> 'ck option
   \<Rightarrow> pyval pydict option \<Rightarrow> ('st, 'ck, 'nc) runtime result" where
  "runtime_from_compile_options runtime thread_id store checkpointer metadata =
     (let none = (thread_id = None \<and> store = None \<and> checkpointer = None \<and> metadata = None);
          md = (case metadata of None \<Rightarrow> [] | Some m \<Rightarrow> m)
      in case runtime of
           None \<Rightarrow>
             if none then Inr default_runtime
             else check_runtime (default_runtime\<lparr>rt_thread_id := thread_id, rt_store := store,
                    rt_checkpointer := checkpointer, rt_metadata := md\<rparr>)
         | Some rt \<Rightarrow>
             if none then Inr rt
             else check_runtime
                    \<lparr>rt_thread_id = (if thread_id \<noteq> None then thread_id else rt_thread_id rt),
                     rt_store = (if store \<noteq> None then store else rt_store rt),
                     rt_checkpointer = (if checkpointer \<noteq> None then checkpointer else rt_checkpointer rt),
                     rt_metadata = dict_update (rt_metadata rt) md,
                     rt_backend = rt_backend rt, rt_native_context = rt_native_context rt\<rparr>)"

section \<open>The builder\<close>

record ('r, 'w) graph_builder =
  bd_nodes :: "(string \<times> ('r, 'w) callable) list"
  bd_edges :: "graph_edge list"
  bd_conditional_edges :: "graph_conditional_edge list"
  bd_routers :: "(string \<times> 'w router) list"
  bd_reducers :: "(string \<times> reducer) list"
  bd_metadata :: "string pydict"
  bd_step_limit :: int

definition empty_builder :: "('r, 'w) graph_builder" where
  "empty_builder = \<lparr>bd_nodes = [], bd_edges = [], bd_conditional_edges = [], bd_routers = [],
     bd_reducers = [], bd_metadata = [], bd_step_limit = 100\<rparr>"

definition add_node :: "string \<Rightarrow> ('r, 'w) callable \<Rightarrow> ('r, 'w) graph_builder \<Rightarrow> ('r, 'w) graph_builder" where
  "add_node name action b = b\<lparr>bd_nodes := dict_set name action (bd_nodes b)\<rparr>"

definition add_edge :: "string \<Rightarrow> string \<Rightarrow> ('r, 'w) graph_builder \<Rightarrow> ('r, 'w) graph_builder" where
  "add_edge source target b = b\<lparr>bd_edges := bd_edges b @ [mk_edge source target]\<rparr>"

definition set_entry_point :: "string \<Rightarrow> ('r, 'w) graph_builder \<Rightarrow> ('r, 'w) graph_builder" where
  "set_entry_point name b = add_edge START name b"

definition set_finish_point :: "string \<Rightarrow> ('r, 'w) graph_builder \<Rightarrow> ('r, 'w) graph_builder" where
  "set_finish_point name b = add_edge name END b"

fun add_items ::
  "string option \<Rightarrow> (string \<times> ('r, 'w) callable) list \<Rightarrow> ('r, 'w) graph_builder \<Rightarrow> ('r, 'w) graph_builder"
  where
  "add_items previous [] b = b"
| "add_items previous ((name, action) # items) b =
     (let b1 = add_node name action b;
          b2 = (case previous of None \<Rightarrow> b1 | Some p \<Rightarrow> add_edge p name b1)
      in add_items (Some name) items b2)"

definition add_sequence ::
  "(string \<times> ('r, 'w) callable) list \<Rightarrow> ('r, 'w) graph_builder \<Rightarrow> ('r, 'w) graph_builder result" where
  "add_sequence items b =
     (if items = [] then Inl (RuntimeGraphError ''runtime graph sequence cannot be empty'')
      else Inr (add_items None items b))"

text \<open>The router of a conditional edge: the name of a registered one, or a function.\<close>

datatype 'w router_arg = RouterName string | RouterFun "'w router"

definition add_conditional_edges ::
  "string \<Rightarrow> 'w router_arg \<Rightarrow> string pydict \<Rightarrow> string option \<Rightarrow> ('r, 'w) graph_builder
   \<Rightarrow> ('r, 'w) graph_builder" where
  "add_conditional_edges source router routes name b =
     (let (router_name, b1) =
            (case router of
               RouterName n \<Rightarrow> (n, b)
             | RouterFun f \<Rightarrow>
                 (let n = (case name of
                             Some x \<Rightarrow> if x \<noteq> [] then x
                                       else source @ '':router:'' @ nat_str (length (bd_conditional_edges b))
                           | None \<Rightarrow> source @ '':router:'' @ nat_str (length (bd_conditional_edges b)))
                  in (n, b\<lparr>bd_routers := dict_set n f (bd_routers b)\<rparr>)))
      in b1\<lparr>bd_conditional_edges := bd_conditional_edges b1
              @ [\<lparr>ce_source = source, ce_router = router_name, ce_routes = routes\<rparr>]\<rparr>)"

definition add_reducer :: "string \<Rightarrow> reducer \<Rightarrow> ('r, 'w) graph_builder \<Rightarrow> ('r, 'w) graph_builder" where
  "add_reducer state_key reducer b = b\<lparr>bd_reducers := dict_set state_key reducer (bd_reducers b)\<rparr>"

definition builder_plan :: "('r, 'w) graph_builder \<Rightarrow> graph_plan" where
  "builder_plan b =
     \<lparr>plan_nodes = dict_keys (bd_nodes b), plan_edges = bd_edges b,
      plan_conditional_edges = bd_conditional_edges b, plan_step_limit = bd_step_limit b,
      plan_metadata = bd_metadata b\<rparr>"

definition compile :: "'r \<Rightarrow> ('r, 'w) graph_builder \<Rightarrow> 'w graph_executor result" where
  "compile runtime b =
     make_executor (builder_plan b) (bd_nodes b) (bd_routers b) (bd_reducers b) runtime"

section \<open>The tool node\<close>

type_synonym 'w tool = "'w \<Rightarrow> pyval pydict \<Rightarrow> 'w \<times> pyval result"

definition seq_items :: "pyval option \<Rightarrow> pyval list result" where
  "seq_items v =
     (case v of
        None \<Rightarrow> Inr []
      | Some (PTuple xs) \<Rightarrow> Inr xs
      | Some (PList xs) \<Rightarrow> Inr xs
      | Some (PStr s) \<Rightarrow> Inr (map (\<lambda>c. PStr [c]) s)
      | Some (PDict d) \<Rightarrow> Inr (map (\<lambda>(k, _). PStr k) d)
      | _ \<Rightarrow> Inl (TypeError ''object is not iterable''))"

definition tool_calls_of :: "pyval \<Rightarrow> pyval tool_call list result" where
  "tool_calls_of v =
     (case v of PMsg m \<Rightarrow> Inr (msg_tool_calls m) | _ \<Rightarrow> Inl (AttributeError ''tool_calls''))"

definition invoke_tool :: "(string \<times> 'w tool) list \<Rightarrow> pyval tool_call \<Rightarrow> 'w \<Rightarrow> 'w \<times> msg result" where
  "invoke_tool tools call w =
     (case dict_get tools (tc_name call) of
        None \<Rightarrow> (w, Inl (RuntimeGraphToolError (''missing runtime graph tool: '' @ tc_name call)))
      | Some tool \<Rightarrow>
          (case tool w (tc_args call) of
             (w1, Inl e) \<Rightarrow> (w1, Inl e)
           | (w1, Inr v) \<Rightarrow> (w1, Inr (tool_message v (tc_id call) None (Some (tc_name call))))))"

fun invoke_tools ::
  "(string \<times> 'w tool) list \<Rightarrow> pyval tool_call list \<Rightarrow> 'w \<Rightarrow> 'w \<times> msg list result" where
  "invoke_tools tools [] w = (w, Inr [])"
| "invoke_tools tools (c # cs) w =
     (case invoke_tool tools c w of
        (w1, Inl e) \<Rightarrow> (w1, Inl e)
      | (w1, Inr m) \<Rightarrow>
          (case invoke_tools tools cs w1 of
             (w2, Inl e) \<Rightarrow> (w2, Inl e)
           | (w2, Inr ms) \<Rightarrow> (w2, Inr (m # ms))))"

definition tool_node :: "(string \<times> 'w tool) list \<Rightarrow> string \<Rightarrow> 'w action" where
  "tool_node tools messages_key w st =
     (case seq_items (dict_get st messages_key) of
        Inl e \<Rightarrow> (w, [], Inl e)
      | Inr messages \<Rightarrow>
          if messages = []
          then (w, [], Inl (RuntimeGraphToolError ''runtime graph tool node requires messages''))
          else (case tool_calls_of (last messages) of
                  Inl e \<Rightarrow> (w, [], Inl e)
                | Inr calls \<Rightarrow>
                    (case invoke_tools tools calls w of
                       (w1, Inl e) \<Rightarrow> (w1, [], Inl e)
                     | (w1, Inr outs) \<Rightarrow> (w1, [], Inr (RUpdate [(messages_key, PList (map PMsg outs))])))))"

definition tools_condition :: "string \<Rightarrow> string \<Rightarrow> string \<Rightarrow> state \<Rightarrow> string result" where
  "tools_condition messages_key tools_route end_route st =
     res_bind (seq_items (dict_get st messages_key)) (\<lambda>messages.
       if messages = [] then Inr end_route
       else res_bind (tool_calls_of (last messages)) (\<lambda>calls.
              Inr (if calls \<noteq> [] then tools_route else end_route)))"

text \<open>The \<open>add_messages\<close> reducer on state values.\<close>

fun pmsg :: "pyval \<Rightarrow> msg result" where
  "pmsg (PMsg m) = Inr m"
| "pmsg _ = Inl (AttributeError ''id'')"

definition messages_reducer :: reducer where
  "messages_reducer l r =
     (let arg = (\<lambda>v. case v of
                   PNone \<Rightarrow> Inr ArgNone
                 | PMsg m \<Rightarrow> Inr (ArgOne m)
                 | _ \<Rightarrow> res_bind (seq_items (Some v)) (\<lambda>xs. res_bind (res_map pmsg xs) (\<lambda>ms. Inr (ArgSeq ms))))
      in res_bind (arg l) (\<lambda>a. res_bind (arg r) (\<lambda>b. Inr (PList (map PMsg (add_messages a b))))))"

definition one_arg :: "'w action \<Rightarrow> ('r, 'w) callable" where
  "one_arg a = \<lparr>ca_positional = 1, ca_varargs = False, ca_call1 = a, ca_call2 = (\<lambda>_. a)\<rparr>"

definition tool_call_loop ::
  "('r, 'w) callable \<Rightarrow> (string \<times> 'w tool) list \<Rightarrow> string \<Rightarrow> string \<Rightarrow> string \<Rightarrow> ('r, 'w) graph_builder"
  where
  "tool_call_loop model_action tools model_node tnode messages_key =
     add_reducer messages_key messages_reducer
     (add_conditional_edges model_node
        (RouterFun (\<lambda>w st. (w, map_sum id RtStr (tools_condition messages_key tnode END st))))
        (dict_of [(tnode, tnode), (END, END)]) (Some (model_node @ '':tools-condition''))
     (add_edge tnode model_node
     (set_entry_point model_node
     (add_node tnode (one_arg (tool_node tools messages_key))
     (add_node model_node model_action empty_builder)))))"

definition create_tool_call_loop ::
  "'r \<Rightarrow> ('r, 'w) callable \<Rightarrow> (string \<times> 'w tool) list \<Rightarrow> string \<Rightarrow> string \<Rightarrow> string
   \<Rightarrow> 'w graph_executor result" where
  "create_tool_call_loop runtime model_action tools model_node tnode messages_key =
     compile runtime (tool_call_loop model_action tools model_node tnode messages_key)"

section \<open>Subgraphs\<close>

record 'w subgraph =
  sg_executor :: "'w graph_executor"
  sg_input_keys :: "string list option"
  sg_output_keys :: "string list option"
  sg_trace_key :: "string option"
  sg_trace_output_key :: "string option"

text \<open>\<open>{key: state[key] for key in keys}\<close>, and the same with \<open>if key in state\<close>.\<close>

definition select_keys :: "string list \<Rightarrow> state \<Rightarrow> state result" where
  "select_keys keys st = res_bind (res_map (\<lambda>k. res_bind (dict_index st k) (\<lambda>v. Inr (k, v))) keys) (\<lambda>kvs. Inr (dict_of kvs))"

definition select_present :: "string list \<Rightarrow> state \<Rightarrow> state" where
  "select_present keys st =
     dict_of (List.map_filter (\<lambda>k. map_option (Pair k) (dict_get st k)) keys)"

definition subgraph_invoke :: "'w subgraph \<Rightarrow> state \<Rightarrow> 'w \<Rightarrow> 'w \<times> (graph_exn + state)" where
  "subgraph_invoke sg st w =
     (case (case sg_input_keys sg of None \<Rightarrow> Inr st | Some ks \<Rightarrow> select_keys ks st) of
        Inl e \<Rightarrow> (w, Inl (Raise e))
      | Inr child \<Rightarrow>
          (case invoke_with_trace (sg_executor sg) (sg_trace_key sg) child w of
             (w1, Inl e) \<Rightarrow> (w1, Inl e)
           | (w1, Inr (res, trace)) \<Rightarrow>
               (case (case sg_output_keys sg of None \<Rightarrow> Inr res | Some ks \<Rightarrow> select_keys ks res) of
                  Inl e \<Rightarrow> (w1, Inl (Raise e))
                | Inr update \<Rightarrow>
                    (w1, Inr (case sg_trace_output_key sg of
                                None \<Rightarrow> update
                              | Some k \<Rightarrow> dict_set k (PList (map PStr trace)) update)))))"

definition subgraph_stream_input :: "'w subgraph \<Rightarrow> state \<Rightarrow> state" where
  "subgraph_stream_input sg st =
     (case sg_input_keys sg of None \<Rightarrow> st | Some ks \<Rightarrow> select_present ks st)"

definition project_state :: "'w subgraph \<Rightarrow> state \<Rightarrow> state" where
  "project_state sg st =
     (let res = (case sg_output_keys sg of None \<Rightarrow> st | Some ks \<Rightarrow> select_present ks st)
      in case (sg_trace_output_key sg, sg_trace_key sg) of
           (Some (c # ok), Some (d # tk)) \<Rightarrow>
             (case dict_get st (d # tk) of None \<Rightarrow> res | Some v \<Rightarrow> dict_set (c # ok) v res)
         | _ \<Rightarrow> res)"

section \<open>Properties\<close>

lemma add_items_edges:
  "bd_edges (add_items prev items b) = bd_edges b @
     map (\<lambda>(s, t). mk_edge s t) (zip ((case prev of None \<Rightarrow> [] | Some p \<Rightarrow> [p]) @ map fst items)
        (case prev of None \<Rightarrow> tl (map fst items) | Some p \<Rightarrow> map fst items))"
proof (induction prev items b rule: add_items.induct)
  case (2 prev name action items b)
  then show ?case
    by (cases prev; cases items) (simp_all add: add_node_def add_edge_def Let_def)
qed (simp split: option.splits)

lemma add_items_nodes:
  "bd_nodes (add_items prev items b) = dict_update (bd_nodes b) items"
  by (induction prev items b rule: add_items.induct)
     (auto simp: add_node_def add_edge_def Let_def split: option.splits)

lemma add_items_rest:
  "bd_conditional_edges (add_items prev items b) = bd_conditional_edges b"
  "bd_step_limit (add_items prev items b) = bd_step_limit b"
  "bd_metadata (add_items prev items b) = bd_metadata b"
  by (induction prev items b rule: add_items.induct)
     (auto simp: add_node_def add_edge_def Let_def split: option.splits)

text \<open>
  A builder that adds a sequence and sets its first and last node as entry and finish point
  builds the linear plan: the same nodes in the same order, the same outgoing edges of every
  node, no conditional edges, and the default step limit.
\<close>

theorem builder_sequence_is_linear:
  assumes "add_sequence items empty_builder = Inr b" and "dict_wf items" and "START \<notin> fst ` set items"
    and "p = builder_plan (set_finish_point (fst (last items)) (set_entry_point (fst (hd items)) b))"
    and "linear_plan (map fst items) 100 = Inr q"
  shows "plan_nodes p = plan_nodes q \<and> plan_conditional_edges p = plan_conditional_edges q \<and>
         plan_step_limit p = plan_step_limit q \<and>
         (\<forall>n. dd_get (index_edges (plan_edges p)) n = dd_get (index_edges (plan_edges q)) n)"
proof -
  let ?ns = "map fst items"
  let ?mid = "map (\<lambda>(s, t). mk_edge s t) (zip ?ns (tl ?ns))"
  from assms(1) have ne: "items \<noteq> []" and b: "b = add_items None items empty_builder"
    by (auto simp: add_sequence_def split: if_splits)
  have pe: "plan_edges p = ?mid @ [mk_edge START (hd ?ns), mk_edge (last ?ns) END]"
    using ne by (simp add: assms(4) b builder_plan_def set_finish_point_def set_entry_point_def add_edge_def
        add_items_edges empty_builder_def hd_map last_map)
  have q: "plan_nodes q = ?ns" "plan_conditional_edges q = []" "plan_step_limit q = 100"
    "plan_edges q = mk_edge START (hd ?ns) # ?mid @ [mk_edge (last ?ns) END]"
    using assms(5) by (auto simp: linear_plan_def split: if_splits)
  have mid: "filter (\<lambda>e. edge_source e = START) ?mid = []"
    using assms(3) by (auto simp: filter_empty_conv dest: set_zip_leftD)
  have "dd_get (index_edges (plan_edges p)) n = dd_get (index_edges (plan_edges q)) n" for n
    by (cases "n = START") (auto simp: index_edges_get pe q(4) mid)
  then show ?thesis
    using q dict_of_distinct [OF assms(2)]
    by (simp add: assms(4) b builder_plan_def set_finish_point_def set_entry_point_def add_edge_def
        add_items_nodes add_items_rest empty_builder_def dict_of_def)
qed

lemma check_endpoints_ok: "set es \<subseteq> set ns \<union> {START, END} \<Longrightarrow> check_endpoints es ns = Inr ()"
  by (simp add: check_endpoints_Inr)

lemma tool_call_loop_compiles:
  "\<exists>ex. create_tool_call_loop rt a tools mn tn key = Inr ex \<and> ex_plan ex = builder_plan (tool_call_loop a tools mn tn key)
     \<and> ex_edges ex = index_edges [mk_edge START mn, mk_edge tn mn]
     \<and> ex_conditional_edges ex = index_conditional_edges
         [\<lparr>ce_source = mn, ce_router = mn @ '':tools-condition'', ce_routes = dict_of [(tn, tn), (END, END)]\<rparr>]
     \<and> dict_get (ex_routers ex) (mn @ '':tools-condition'') =
         Some (\<lambda>w st. (w, map_sum id RtStr (tools_condition key tn END st)))"
proof -
  let ?b = "tool_call_loop a tools mn tn key"
  have nodes: "set (dict_keys (bd_nodes ?b)) = {mn, tn}"
    by (auto simp: tool_call_loop_def add_reducer_def add_conditional_edges_def add_edge_def
        set_entry_point_def add_node_def empty_builder_def Let_def)
  have edges: "bd_edges ?b = [mk_edge START mn, mk_edge tn mn]"
    "bd_conditional_edges ?b =
       [\<lparr>ce_source = mn, ce_router = mn @ '':tools-condition'', ce_routes = dict_of [(tn, tn), (END, END)]\<rparr>]"
    "dict_get (bd_routers ?b) (mn @ '':tools-condition'') =
         Some (\<lambda>w st. (w, map_sum id RtStr (tools_condition key tn END st)))"
    by (simp_all add: tool_call_loop_def add_reducer_def add_conditional_edges_def add_edge_def
        set_entry_point_def add_node_def empty_builder_def Let_def)
  have routes: "snd ` set (dict_of [(tn, tn), (END, END)]) \<subseteq> {tn, END}"
    by (auto simp: dict_of_def)
  have "validate_plan (builder_plan ?b) = Inr ()"
    using nodes routes
    by (auto simp: validate_plan_def builder_plan_def edges check_endpoints_Inr res_bind_Inr_iff)
  moreover have "validate_actions (builder_plan ?b) (bd_nodes ?b) = Inr ()"
    by (simp add: validate_actions_Inr builder_plan_def)
  ultimately show ?thesis
    using edges by (simp add: create_tool_call_loop_def compile_def make_executor_def builder_plan_def)
qed

text \<open>
  The prebuilt tool-call loop always compiles, and after the model node it goes exactly where
  the last message says: to the tool node when that message carries tool calls, to the end
  otherwise, and nowhere else.
\<close>

theorem tool_call_loop_routes:
  assumes "mn \<noteq> tn" and "mn \<noteq> START"
  shows "\<exists>ex. create_tool_call_loop rt a tools mn tn key = Inr ex \<and>
    (\<forall>oc st w. \<not> na_controls_flow oc \<longrightarrow>
       next_targets ex mn st oc w = (w, map_sum id (\<lambda>r. [TNode r]) (tools_condition key tn END st)))"
proof -
  from tool_call_loop_compiles obtain ex where ex:
    "create_tool_call_loop rt a tools mn tn key = Inr ex"
    "ex_plan ex = builder_plan (tool_call_loop a tools mn tn key)"
    "ex_edges ex = index_edges [mk_edge START mn, mk_edge tn mn]"
    "ex_conditional_edges ex = index_conditional_edges
         [\<lparr>ce_source = mn, ce_router = mn @ '':tools-condition'', ce_routes = dict_of [(tn, tn), (END, END)]\<rparr>]"
    "dict_get (ex_routers ex) (mn @ '':tools-condition'') =
         Some (\<lambda>w st. (w, map_sum id RtStr (tools_condition key tn END st)))"
    by metis
  have tn: "tn \<in> set (plan_nodes (ex_plan ex))"
    by (auto simp: ex(2) tool_call_loop_def builder_plan_def add_reducer_def add_conditional_edges_def
        add_edge_def set_entry_point_def add_node_def empty_builder_def Let_def dom_update)
  have routes: "dict_get (dict_of [(tn, tn), (END, END)]) r = Some r" if "r \<in> {tn, END}" for r
    using that by (auto simp: dict_of_def)
  have ne: "dict_of [(tn, tn), (END, END)] \<noteq> []" by (simp add: dict_of_def)
  have "next_targets ex mn st oc w = (w, map_sum id (\<lambda>r. [TNode r]) (tools_condition key tn END st))"
    if "\<not> na_controls_flow oc" for oc st w
  proof (cases "tools_condition key tn END st")
    case (Inl e)
    with that ex assms show ?thesis
      by (simp add: next_targets_def index_conditional_edges_get index_edges_get)
  next
    case (Inr r)
    then have "r \<in> {tn, END}" by (auto simp: tools_condition_def res_bind_Inr_iff split: if_splits)
    then have "resolve_route_name ex rn (dict_of [(tn, tn), (END, END)]) r = Inr r" for rn
      using routes [of r] ne tn
      by (auto simp: resolve_route_name_def validate_runtime_target_def check_endpoint_def)
    with that ex(3-5) assms Inr show ?thesis
      by (simp add: next_targets_def index_conditional_edges_get index_edges_get)
  qed
  with ex(1) show ?thesis by blast
qed

lemma invoke_tools_ids:
  "invoke_tools tools calls w = (w', Inr outs) \<Longrightarrow>
   map msg_tool_call_id outs = map (\<lambda>c. Some (tc_id c)) calls \<and>
   map msg_name outs = map (\<lambda>c. Some (tc_name c)) calls \<and> list_all (\<lambda>m. msg_role m = ''tool'') outs"
  by (induction calls arbitrary: w outs)
     (auto simp: invoke_tool_def tool_message_def split: prod.splits sum.splits option.splits)

text \<open>
  The tool node answers every call: when it succeeds, its update holds one tool message per
  call of the last message, in the order of the calls, each with the id and the name of its
  call; a call of a tool that does not exist makes it fail.
\<close>

theorem tool_node_answers_calls:
  assumes "tool_node tools key w st = (w', em, Inr r)"
  shows "\<exists>ms m outs. seq_items (dict_get st key) = Inr (ms @ [PMsg m]) \<and>
    r = RUpdate [(key, PList (map PMsg outs))] \<and>
    map msg_tool_call_id outs = map (\<lambda>c. Some (tc_id c)) (msg_tool_calls m) \<and>
    map msg_name outs = map (\<lambda>c. Some (tc_name c)) (msg_tool_calls m) \<and>
    set (map tc_name (msg_tool_calls m)) \<subseteq> set (dict_keys tools)"
proof -
  from assms obtain xs calls outs where x: "seq_items (dict_get st key) = Inr xs" "xs \<noteq> []"
    "tool_calls_of (last xs) = Inr calls" "invoke_tools tools calls w = (w', Inr outs)"
    "r = RUpdate [(key, PList (map PMsg outs))]"
    by (auto simp: tool_node_def split: sum.splits if_splits prod.splits)
  from x(3) obtain m where m: "last xs = PMsg m" "msg_tool_calls m = calls"
    by (auto simp: tool_calls_of_def split: pyval.splits)
  have "invoke_tools tools calls w = (w', Inr outs) \<Longrightarrow> set (map tc_name calls) \<subseteq> set (dict_keys tools)"
    for w outs
    by (induction calls arbitrary: w outs)
      (auto simp: invoke_tool_def dest!: map_of_SomeD intro: rev_image_eqI split: prod.splits sum.splits option.splits)
  with x(4) invoke_tools_ids [OF x(4)] m x(1,2,5) show ?thesis
    by (intro exI [of _ "butlast xs"] exI [of _ m] exI [of _ outs]) (auto simp flip: m(1))
qed

lemma select_keys_cong: "(\<And>k. k \<in> set ks \<Longrightarrow> dict_get st k = dict_get st' k) \<Longrightarrow> select_keys ks st = select_keys ks st'"
proof -
  assume a: "\<And>k. k \<in> set ks \<Longrightarrow> dict_get st k = dict_get st' k"
  then have "res_map (\<lambda>k. res_bind (dict_index st k) (\<lambda>v. Inr (k, v))) ks =
      res_map (\<lambda>k. res_bind (dict_index st' k) (\<lambda>v. Inr (k, v))) ks"
    by (induction ks) (simp_all add: dict_index_def)
  then show ?thesis by (simp add: select_keys_def)
qed

lemma select_keys_get:
  assumes "select_keys ks st = Inr u"
  shows "set (dict_keys u) = set ks \<and> (\<forall>k \<in> set ks. dict_get u k = dict_get st k)"
proof -
  have ix: "(\<exists>xa. dict_index st x = Inr xa \<and> (x, xa) = y) \<longleftrightarrow> fst y = x \<and> dict_get st x = Some (snd y)" for x y
    by (cases y; cases "dict_get st x") auto
  from assms obtain kvs where kvs: "list_all2 (\<lambda>k kv. fst kv = k \<and> dict_get st k = Some (snd kv)) ks kvs"
    and u: "u = dict_of kvs"
    by (auto simp: select_keys_def res_bind_Inr_iff res_map_Inr_iff ix)
  have keys: "map fst kvs = ks" using kvs by (induction rule: list_all2_induct) auto
  have vals: "dict_get st k = Some v" if "(k, v) \<in> set kvs" for k v
    using kvs that by (induction rule: list_all2_induct) auto
  have "set (dict_keys u) = set ks" 
    using dict_keys_update [of "[]" kvs] keys by (auto simp: u dict_of_def)
  moreover have "dict_get u k = dict_get st k" if "k \<in> set ks" for k
  proof -
    have "k \<in> fst ` set (rev kvs)" using that keys by force
    then obtain v where v: "map_of (rev kvs) k = Some v"
      by (metis domD dom_map_of_conv_image_fst)
    with vals [of k v] map_of_SomeD [OF v] show ?thesis
      by (simp add: u dict_of_def dict_get_update_rev)
  qed
  ultimately show ?thesis by blast
qed

text \<open>
  A subgraph with declared keys is isolated: its result depends only on the declared inputs
  of the parent state, and its update writes exactly the declared outputs.
\<close>

theorem subgraph_isolated:
  assumes "sg_input_keys sg = Some iks" and "sg_output_keys sg = Some oks"
    and "sg_trace_output_key sg = None"
  shows "((\<forall>k \<in> set iks. dict_get st k = dict_get st' k) \<longrightarrow>
            subgraph_invoke sg st w = subgraph_invoke sg st' w) \<and>
         (\<forall>w' u. subgraph_invoke sg st w = (w', Inr u) \<longrightarrow> set (dict_keys u) = set oks)"
proof
  show "(\<forall>k \<in> set iks. dict_get st k = dict_get st' k) \<longrightarrow> subgraph_invoke sg st w = subgraph_invoke sg st' w"
    using select_keys_cong [of iks st st'] assms(1) by (simp add: subgraph_invoke_def)
  show "\<forall>w' u. subgraph_invoke sg st w = (w', Inr u) \<longrightarrow> set (dict_keys u) = set oks"
    using assms select_keys_get
    by (auto simp: subgraph_invoke_def split: sum.splits prod.splits)
qed

theorem builder_sequence_is_linear_witness:
  "\<exists>b q. add_sequence [(''a'', one_arg (pure_action (demo_update ''a''))), (''b'', one_arg (pure_action (demo_update ''b'')))]
          (empty_builder :: (unit, unit) graph_builder) = Inr b \<and>
    linear_plan [''a'', ''b''] 100 = Inr q \<and>
    plan_nodes (builder_plan (set_finish_point ''b'' (set_entry_point ''a'' b))) = plan_nodes q"
proof -
  let ?items = "[(''a'', one_arg (pure_action (demo_update ''a''))),
    (''b'', one_arg (pure_action (demo_update ''b'')))] :: (string \<times> (unit, unit) callable) list"
  have b: "add_sequence ?items empty_builder = Inr (add_items None ?items empty_builder)"
    by (simp add: add_sequence_def)
  obtain q where q: "linear_plan (map fst ?items) 100 = Inr q" by (simp add: linear_plan_def)
  from builder_sequence_is_linear [OF b _ _ HOL.refl q] have
    "plan_nodes (builder_plan (set_finish_point ''b'' (set_entry_point ''a'' (add_items None ?items empty_builder)))) = plan_nodes q"
    by (simp add: START_def)
  with b q show ?thesis by auto
qed

theorem tool_call_loop_routes_witness:
  "\<exists>ex :: unit graph_executor. create_tool_call_loop () (one_arg demo_pause) [] ''model'' ''tools'' ''messages'' = Inr ex \<and>
     next_targets ex ''model'' [(''messages'', PList [PMsg (ai_message PNone None [ToolCall ''f'' [] ''1''])])]
       (normalize_action_result RNone) () = ((), Inr [TNode ''tools''])"
proof -
  obtain ex where ex: "create_tool_call_loop () (one_arg demo_pause) [] ''model'' ''tools'' ''messages'' = Inr ex"
    "\<forall>oc st w. \<not> na_controls_flow oc \<longrightarrow> next_targets ex ''model'' st oc w =
       (w, map_sum id (\<lambda>r. [TNode r]) (tools_condition ''messages'' ''tools'' END st))"
    using tool_call_loop_routes [of "''model''" "''tools''" "()" "one_arg demo_pause" "[]" "''messages''"]
    by (auto simp: START_def)
  then show ?thesis
    by (intro exI [of _ ex]) (simp add: tools_condition_def seq_items_def tool_calls_of_def ai_message_def)
qed

theorem tool_node_answers_calls_witness:
  "\<exists>outs. tool_node [(''f'', \<lambda>w args. (w, Inr (PInt 1)))] ''messages'' ()
     [(''messages'', PList [PMsg (ai_message PNone None [ToolCall ''f'' [] ''1''])])] =
     ((), [], Inr (RUpdate [(''messages'', PList (map PMsg outs))])) \<and>
     map msg_tool_call_id outs = [Some ''1'']"
proof -
  let ?st = "[(''messages'', PList [PMsg (ai_message PNone None [ToolCall ''f'' [] ''1''])])]"
  have e: "tool_node [(''f'', \<lambda>w args. (w, Inr (PInt 1)))] ''messages'' () ?st =
     ((), [], Inr (RUpdate [(''messages'', PList [PMsg (tool_message (PInt 1) ''1'' None (Some ''f''))])]))"
    by (simp add: tool_node_def seq_items_def tool_calls_of_def ai_message_def invoke_tool_def)
  from tool_node_answers_calls [OF e]
  have "map msg_tool_call_id [tool_message (PInt 1) ''1'' None (Some ''f'')] = [Some ''1'']"
    by (auto simp: seq_items_def ai_message_def)
  with e show ?thesis
    by (intro exI [of _ "[tool_message (PInt 1) ''1'' None (Some ''f'')]"]) simp
qed

theorem subgraph_isolated_witness:
  "let sg = \<lparr>sg_executor = demo_executor (pure_action (demo_update ''b'')), sg_input_keys = Some [''x''],
       sg_output_keys = Some [''b''], sg_trace_key = None, sg_trace_output_key = None\<rparr>
   in subgraph_invoke sg [(''x'', PNone), (''y'', PInt 1)] () = subgraph_invoke sg [(''x'', PNone), (''y'', PInt 2)] ()"
  using subgraph_isolated [of "\<lparr>sg_executor = demo_executor (pure_action (demo_update ''b'')), sg_input_keys = Some [''x''],
       sg_output_keys = Some [''b''], sg_trace_key = None, sg_trace_output_key = None\<rparr>" "[''x'']" "[''b'']"
       "[(''x'', PNone), (''y'', PInt 1)]" "[(''x'', PNone), (''y'', PInt 2)]" "()"]
  by simp

text \<open>
  A missing input key makes \<open>invoke\<close> of a subgraph fail with a \<open>KeyError\<close>, while \<open>stream\<close> of the
  same subgraph runs the child without the key.
\<close>

lemma subgraph_missing_input:
  "sg_input_keys sg = Some [k] \<Longrightarrow>
   subgraph_invoke sg [] w = (w, Inl (Raise (KeyError k))) \<and> subgraph_stream_input sg [] = []"
  by (simp add: subgraph_invoke_def select_keys_def subgraph_stream_input_def select_present_def
      List.map_filter_def)

end
