(* ===== verification/Graph_Async.thy ===== *)
theory Graph_Async
  imports Graph_Run
begin

text \<open>
  The asynchronous executor (the \<open>async\<close> methods of \<open>_runtime_graph_executor.py\<close>). They repeat
  the synchronous ones and await what an action, a router or the caller's resume value
  returns when it is awaitable. Each definition follows its own method of the source; the
  lemmas relate every one of them to the synchronous method on the executor whose actions
  and routers have been awaited (\<open>await_executor\<close>), up to whole runs and resumptions.
\<close>

section \<open>Awaiting\<close>

text \<open>\<open>if inspect.isawaitable(x): x = await x\<close>: one layer is unwrapped.\<close>

fun await_result :: "action_result \<Rightarrow> action_result result" where
  "await_result (RAwaitable r) = r"
| "await_result r = Inr r"

fun await_route :: "route \<Rightarrow> route result" where
  "await_route (RtAwaitable _ r) = r"
| "await_route r = Inr r"

section \<open>The asynchronous methods\<close>

fun aconditional_targets ::
  "'w graph_executor \<Rightarrow> graph_conditional_edge list \<Rightarrow> state \<Rightarrow> 'w
   \<Rightarrow> 'w \<times> target list result" where
  "aconditional_targets ex [] st w = (w, Inr [])"
| "aconditional_targets ex (e # es) st w =
     (case dict_get (ex_routers ex) (ce_router e) of
        None \<Rightarrow> (w, Inl (missing_router (ce_router e)))
      | Some router \<Rightarrow>
          (case router w st of
             (w1, Inl err) \<Rightarrow> (w1, Inl err)
           | (w1, Inr rt) \<Rightarrow>
               (case await_route rt of
                  Inl err \<Rightarrow> (w1, Inl err)
                | Inr rt' \<Rightarrow>
                    (case resolve_conditional_route ex (ce_router e) (ce_routes e) rt' of
                       Inl err \<Rightarrow> (w1, Inl err)
                     | Inr ts \<Rightarrow>
                         (case aconditional_targets ex es st w1 of
                            (w2, Inl err) \<Rightarrow> (w2, Inl err)
                          | (w2, Inr ts') \<Rightarrow> (w2, Inr (ts @ ts')))))))"

definition anext_targets ::
  "'w graph_executor \<Rightarrow> string \<Rightarrow> state \<Rightarrow> normalized \<Rightarrow> 'w \<Rightarrow> 'w \<times> target list result" where
  "anext_targets ex node st outcome w =
     (if na_controls_flow outcome
      then (w, Inr (map TNode (na_goto outcome) @ map TSend (na_sends outcome)))
      else (case aconditional_targets ex (dd_get (ex_conditional_edges ex) node) st w of
              (w1, Inl err) \<Rightarrow> (w1, Inl err)
            | (w1, Inr ts) \<Rightarrow> (w1, Inr (map TNode (dd_get (ex_edges ex) node) @ ts))))"

definition astart_and_run_node ::
  "'w graph_executor \<Rightarrow> string option \<Rightarrow> string \<Rightarrow> state option \<Rightarrow> graph_ctx \<Rightarrow> 'w
   \<Rightarrow> 'w \<times> pyval list \<times> (graph_exn + (normalized \<times> graph_ctx))" where
  "astart_and_run_node ex trace_key node branch_update cx w =
     (case advance_step (plan_step_limit (ex_plan ex)) cx of
        Inl err \<Rightarrow> (w, [], Inl (Raise err))
      | Inr cx0 \<Rightarrow>
          (let (action_state, cx2) = enter_node trace_key node branch_update cx0
           in case dict_get (ex_actions ex) node of
                None \<Rightarrow> (w, [], Inl (Raise (KeyError node)))
              | Some action \<Rightarrow>
                  (case action w action_state of
                     (w1, emitted, Inl err) \<Rightarrow> (w1, emitted, Inl (Raise err))
                   | (w1, emitted, Inr res) \<Rightarrow>
                       (case await_result res of
                          Inl err \<Rightarrow> (w1, emitted, Inl (Raise err))
                        | Inr res' \<Rightarrow>
                            (let outcome = normalize_action_result res'
                             in case na_interrupt outcome of
                                  Some i \<Rightarrow> (w1, emitted, Inl (raise_interrupted cx2 node i))
                                | None \<Rightarrow> (w1, emitted, Inr (outcome, cx2)))))))"

definition afinish_node ::
  "'w graph_executor \<Rightarrow> string \<Rightarrow> normalized \<Rightarrow> string \<Rightarrow> graph_ctx \<Rightarrow> 'w
   \<Rightarrow> 'w \<times> graph_ctx result" where
  "afinish_node ex node outcome event_kind cx w =
     (case merge_outcome (ex_reducers ex) (na_update outcome) (cx_state cx) of
        Inl err \<Rightarrow> (w, Inl err)
      | Inr st \<Rightarrow>
          (case anext_targets ex node st outcome w of
             (w1, Inl err) \<Rightarrow> (w1, Inl err)
           | (w1, Inr ts) \<Rightarrow>
               (w1, Inr (snd (publish event_kind (Some node) (cx_step cx) (finish_detail outcome)
                      (cx\<lparr>cx_state := st, cx_pending := cx_pending cx @ ts\<rparr>))))))"

definition aexecute_next_event_step ::
  "'w graph_executor \<Rightarrow> string option \<Rightarrow> graph_ctx \<Rightarrow> 'w \<Rightarrow> 'w \<times> (graph_exn + graph_ctx)" where
  "aexecute_next_event_step ex trace_key cx w =
     (case next_node cx of
        Inl err \<Rightarrow> (w, Inl (Raise err))
      | Inr (node, branch_update, cx0) \<Rightarrow>
          if node = END then (w, Inr cx0)
          else (case astart_and_run_node ex trace_key node branch_update cx0 w of
                  (w1, _, Inl e) \<Rightarrow> (w1, Inl e)
                | (w1, _, Inr (outcome, cx1)) \<Rightarrow>
                    (case afinish_node ex node outcome ''node-end'' cx1 w1 of
                       (w2, Inl err) \<Rightarrow> (w2, Inl (Raise err))
                     | (w2, Inr cx2) \<Rightarrow> (w2, Inr cx2))))"

section \<open>Awaited executors\<close>

definition await_action :: "'w action \<Rightarrow> 'w action" where
  "await_action a w st =
     (case a w st of
        (w1, em, Inl err) \<Rightarrow> (w1, em, Inl err)
      | (w1, em, Inr res) \<Rightarrow> (w1, em, await_result res))"

definition await_router :: "'w router \<Rightarrow> 'w router" where
  "await_router r w st =
     (case r w st of (w1, Inl err) \<Rightarrow> (w1, Inl err) | (w1, Inr rt) \<Rightarrow> (w1, await_route rt))"

definition await_executor :: "'w graph_executor \<Rightarrow> 'w graph_executor" where
  "await_executor ex =
     ex\<lparr>ex_actions := map (map_prod id await_action) (ex_actions ex),
        ex_routers := map (map_prod id await_router) (ex_routers ex)\<rparr>"

lemma await_executor_simps [simp]:
  "ex_plan (await_executor ex) = ex_plan ex" "ex_reducers (await_executor ex) = ex_reducers ex"
  "ex_edges (await_executor ex) = ex_edges ex"
  "ex_conditional_edges (await_executor ex) = ex_conditional_edges ex"
  "dict_get (ex_actions (await_executor ex)) n = map_option await_action (dict_get (ex_actions ex) n)"
  "dict_get (ex_routers (await_executor ex)) n = map_option await_router (dict_get (ex_routers ex) n)"
  by (simp_all add: await_executor_def map_of_map map_prod_def)

lemma resolve_route_name_await [simp]:
  "validate_runtime_target (await_executor ex) = validate_runtime_target ex"
  "resolve_route_name (await_executor ex) = resolve_route_name ex"
proof -
  show v: "validate_runtime_target (await_executor ex) = validate_runtime_target ex"
    by (simp add: fun_eq_iff validate_runtime_target_def)
  show "resolve_route_name (await_executor ex) = resolve_route_name ex"
    unfolding resolve_route_name_def v ..
qed

lemma resolve_conditional_route_await [simp]:
  "resolve_conditional_route (await_executor ex) rn routes rt = resolve_conditional_route ex rn routes rt"
  by (cases rt) simp_all

lemma aconditional_targets_await:
  "aconditional_targets ex es st w = conditional_targets (await_executor ex) es st w"
  by (induction es arbitrary: w)
     (auto simp: await_router_def split: option.splits prod.splits sum.splits)

lemma anext_targets_await: "anext_targets ex = next_targets (await_executor ex)"
  by (simp add: fun_eq_iff anext_targets_def next_targets_def aconditional_targets_await)

lemma astart_and_run_node_await:
  "astart_and_run_node ex tk n bu cx w = start_and_run_node (await_executor ex) tk n bu cx w"
  by (cases "advance_step (plan_step_limit (ex_plan ex)) cx")
     (auto simp: astart_and_run_node_def start_and_run_node_def await_action_def Let_def
           simp del: advance_step_Inr split: sum.splits option.splits prod.splits)

lemma afinish_node_await: "afinish_node ex = finish_node (await_executor ex)"
  unfolding afinish_node_def finish_node_def anext_targets_await await_executor_simps ..

lemma aexecute_next_event_step_await:
  "aexecute_next_event_step ex = execute_next_event_step (await_executor ex)"
  unfolding aexecute_next_event_step_def execute_next_event_step_def astart_and_run_node_await
    afinish_node_await ..

section \<open>Runs\<close>

text \<open>The \<open>while context.pending\<close> loop of \<open>_arun_events_context\<close>.\<close>

function arun_pending ::
  "'w graph_executor \<Rightarrow> string option \<Rightarrow> graph_ctx \<Rightarrow> 'w \<Rightarrow> 'w \<times> (graph_exn + graph_ctx)" where
  "arun_pending ex trace_key cx w =
     (if cx_pending cx = [] then (w, Inr cx)
      else (case aexecute_next_event_step ex trace_key cx w of
              (w1, Inl e) \<Rightarrow> (w1, Inl e)
            | (w1, Inr cx1) \<Rightarrow> arun_pending ex trace_key cx1 w1))"
  by pat_completeness auto
termination
proof (relation "measures [\<lambda>(ex, tk, cx, w). nat (plan_step_limit (ex_plan ex) - cx_step cx),
                           \<lambda>(ex, tk, cx, w). length (cx_pending cx)]", goal_cases)
  case 1
  show ?case by simp
next
  case (2 ex tk cx w w1 s cx1)
  then have "execute_next_event_step (await_executor ex) tk cx w = (w1, Inr cx1)"
    by (simp add: aexecute_next_event_step_await)
  from execute_next_event_step_Inr [OF this] show ?case by auto
qed

declare arun_pending.simps [simp del]

definition arun_events_context ::
  "'w graph_executor \<Rightarrow> string option \<Rightarrow> graph_ctx \<Rightarrow> 'w \<Rightarrow> 'w \<times> (graph_exn + graph_ctx)" where
  "arun_events_context ex trace_key cx w =
     (let cx0 = snd (publish ''start'' None 0
                  [(''pending'', PTuple (map target_val (cx_pending cx)))] cx)
      in case arun_pending ex trace_key cx0 w of
           (w1, Inl e) \<Rightarrow> (w1, Inl e)
         | (w1, Inr cx1) \<Rightarrow>
             (let cx2 = record_trace trace_key cx1
              in (w1, Inr (snd (publish ''complete'' None (cx_step cx2)
                            (complete_detail cx2) cx2)))))"

definition arun_context ::
  "'w graph_executor \<Rightarrow> string option \<Rightarrow> graph_ctx \<Rightarrow> 'w \<Rightarrow> 'w \<times> (graph_exn + run_result)" where
  "arun_context ex trace_key cx w =
     map_prod id (map_sum id ctx_result) (arun_events_context ex trace_key cx w)"

definition ainvoke_with_events ::
  "'w graph_executor \<Rightarrow> string option \<Rightarrow> state \<Rightarrow> 'w \<Rightarrow> 'w \<times> (graph_exn + run_result)" where
  "ainvoke_with_events ex trace_key initial_state w =
     arun_context ex trace_key (ctx_from_initial (ex_edges ex) initial_state) w"

definition ainvoke_with_trace ::
  "'w graph_executor \<Rightarrow> string option \<Rightarrow> state \<Rightarrow> 'w
   \<Rightarrow> 'w \<times> (graph_exn + (state \<times> string list))" where
  "ainvoke_with_trace ex trace_key initial_state w =
     map_prod id (map_sum id (\<lambda>(st, trace, events). (st, trace)))
       (ainvoke_with_events ex trace_key initial_state w)"

definition ainvoke :: "'w graph_executor \<Rightarrow> state \<Rightarrow> 'w \<Rightarrow> 'w \<times> (graph_exn + state)" where
  "ainvoke ex initial_state w =
     map_prod id (map_sum id fst) (ainvoke_with_trace ex None initial_state w)"

definition aresume_interrupted ::
  "'w graph_executor \<Rightarrow> string option \<Rightarrow> graph_interrupted \<Rightarrow> action_result \<Rightarrow> 'w
   \<Rightarrow> 'w \<times> (graph_exn + run_result)" where
  "aresume_interrupted ex trace_key interrupted resume_result w =
     (let cx = record_trace trace_key (ctx_from_interrupted interrupted)
      in case await_result resume_result of
           Inl err \<Rightarrow> (w, Inl (Raise err))
         | Inr res \<Rightarrow>
             (let outcome = normalize_action_result res
              in case afinish_node ex (gi_node interrupted) outcome ''resume'' cx w of
                   (w1, Inl err) \<Rightarrow> (w1, Inl (Raise err))
                 | (w1, Inr cx1) \<Rightarrow> arun_context ex trace_key cx1 w1))"

lemma arun_pending_await: "arun_pending ex tk cx w = run_pending (await_executor ex) tk cx w"
proof (induction ex tk cx w rule: arun_pending.induct)
  case (1 ex tk cx w)
  then show ?case
    by (simp add: arun_pending.simps [of ex tk cx w] run_pending.simps [of "await_executor ex" tk cx w]
        aexecute_next_event_step_await split: prod.splits sum.splits)
qed

lemma arun_context_await:
  "arun_context ex tk cx w =
   map_prod id (map_sum id ctx_result) (run_context (await_executor ex) tk cx w)"
  by (simp add: arun_context_def arun_events_context_def run_context_def arun_pending_await)

text \<open>
  C28. The asynchronous executor is the synchronous one on awaited actions and routers. For every
  graph, initial state and world, \<open>ainvoke_with_events\<close> returns the state, trace, event log,
  exception and world that \<open>invoke_with_events\<close> returns when each action and router result has
  one awaitable layer removed; in particular both agree on graphs that use no awaitables.
\<close>

theorem ainvoke_is_invoke_awaited:
  "ainvoke_with_events ex tk st w = invoke_with_events (await_executor ex) tk st w"
  by (simp add: ainvoke_with_events_def invoke_with_events_def arun_context_await)

text \<open>
  Asynchronous resumption agrees with the synchronous one in the same sense; a resume value
  whose awaiting raises is raised before the graph runs any further.
\<close>

theorem aresume_is_resume_awaited:
  "aresume_interrupted ex tk i r w =
     (case await_result r of
        Inl err \<Rightarrow> (w, Inl (Raise err))
      | Inr r' \<Rightarrow> resume_interrupted (await_executor ex) tk i r' w)"
  by (simp add: aresume_interrupted_def resume_interrupted_def arun_context_await
      afinish_node_await split: sum.splits prod.splits)

end
