(* ===== verification/Checkpoints.thy ===== *)
theory Checkpoints
  imports Graph_State
begin

text \<open>
  Checkpoints and checkpointers (\<open>checkpoints.py\<close>): the checkpoint record and its
  conversions, the in-memory checkpointer and the file checkpointer. The clock and the
  random part of a generated id are arguments (\<open>fid\<close>, \<open>now\<close>); SHA-256 is a parameter, and
  what a checkpointer needs of it is a hypothesis on the thread ids in use.

  The locale \<open>checkpointer\<close> states what every checkpointer promises to its clients: a saved
  checkpoint is what \<open>load\<close> and \<open>load_at\<close> return, other threads keep theirs, \<open>clear\<close> forgets
  a thread. From these laws the locale derives that any sequence of saves, state updates and
  clears refines a map from thread ids to checkpoints (\<open>spec_op\<close>), and that an interruption
  survives the trip through the store. The laws are discharged here for the memory and the
  file checkpointer, and in theory \<open>Durable\<close> for the Turso one.
\<close>

section \<open>Checkpoints\<close>

record graph_checkpoint =
  ck_checkpoint_id :: string
  ck_thread_id :: string
  ck_interrupt :: "graph_interrupt option"
  ck_node :: string
  ck_step :: int
  ck_state :: state
  ck_trace :: "string list"
  ck_pending :: "target list"
  ck_events :: "graph_event list"
  ck_validation_receipt :: string
  ck_plan_digest :: "string option"

text \<open>\<open>fid\<close> stands for \<open>f"{time.time_ns()}-{uuid.uuid4().hex}"\<close>.\<close>

definition assign_checkpoint_id :: "string \<Rightarrow> graph_checkpoint \<Rightarrow> graph_checkpoint" where
  "assign_checkpoint_id fid ck = ck\<lparr>ck_checkpoint_id := fid\<rparr>"

definition ensure_id :: "string \<Rightarrow> graph_checkpoint \<Rightarrow> graph_checkpoint" where
  "ensure_id fid ck = (if ck_checkpoint_id ck = [] then assign_checkpoint_id fid ck else ck)"

definition from_interrupted :: "string \<Rightarrow> graph_interrupted \<Rightarrow> graph_checkpoint" where
  "from_interrupted thread_id i =
     \<lparr>ck_checkpoint_id = [], ck_thread_id = thread_id, ck_interrupt = Some (gi_interrupt i),
      ck_node = gi_node i, ck_step = gi_step i, ck_state = gi_state i, ck_trace = gi_trace i,
      ck_pending = gi_pending i, ck_events = gi_events i,
      ck_validation_receipt = gi_validation_receipt i, ck_plan_digest = gi_plan_digest i\<rparr>"

definition to_interrupted :: "graph_checkpoint \<Rightarrow> graph_interrupted result" where
  "to_interrupted ck =
     (case ck_interrupt ck of
        None \<Rightarrow> Inl (RuntimeGraphCheckpointError ''checkpoint does not contain an interrupt'')
      | Some i \<Rightarrow>
          Inr \<lparr>gi_interrupt = i, gi_node = ck_node ck, gi_step = ck_step ck,
               gi_state = ck_state ck, gi_trace = ck_trace ck, gi_pending = ck_pending ck,
               gi_events = ck_events ck, gi_validation_receipt = ck_validation_receipt ck,
               gi_plan_digest = ck_plan_digest ck\<rparr>)"

definition with_state_update :: "state \<Rightarrow> bool \<Rightarrow> graph_checkpoint \<Rightarrow> graph_checkpoint" where
  "with_state_update update replace ck =
     ck\<lparr>ck_checkpoint_id := [],
        ck_state := (if replace then update else dict_update (ck_state ck) update)\<rparr>"

lemma ensure_id_simps [simp]:
  "ck_thread_id (ensure_id fid ck) = ck_thread_id ck"
  "ck_state (ensure_id fid ck) = ck_state ck"
  "to_interrupted (ensure_id fid ck) = to_interrupted ck"
  by (simp_all add: ensure_id_def assign_checkpoint_id_def to_interrupted_def split: option.splits)

lemma from_interrupted_simps [simp]:
  "ck_thread_id (from_interrupted t i) = t" "ck_checkpoint_id (from_interrupted t i) = []"
  "to_interrupted (from_interrupted t i) = Inr i"
  by (simp_all add: from_interrupted_def to_interrupted_def)

lemma with_state_update_simps [simp]:
  "ck_thread_id (with_state_update u r ck) = ck_thread_id ck"
  "ck_checkpoint_id (with_state_update u r ck) = []"
  by (simp_all add: with_state_update_def)

section \<open>The interface of a checkpointer\<close>

text \<open>
  \<open>save_interrupted\<close>, \<open>load_interrupted\<close> and \<open>update_state\<close> have the same body in every
  checkpointer class; they are functions of its \<open>save\<close> and \<open>load\<close>.
\<close>

type_synonym 's save_op = "string \<Rightarrow> int \<Rightarrow> graph_checkpoint \<Rightarrow> 's \<Rightarrow> 's \<times> graph_checkpoint result"
type_synonym 's load_op = "'s \<Rightarrow> string \<Rightarrow> graph_checkpoint result"

definition save_interrupted ::
  "'s save_op \<Rightarrow> string \<Rightarrow> int \<Rightarrow> string \<Rightarrow> graph_interrupted \<Rightarrow> 's \<Rightarrow> 's \<times> graph_checkpoint result"
  where
  "save_interrupted save fid now thread_id i s = save fid now (from_interrupted thread_id i) s"

definition load_interrupted :: "'s load_op \<Rightarrow> 's \<Rightarrow> string \<Rightarrow> graph_interrupted result" where
  "load_interrupted load s thread_id = res_bind (load s thread_id) to_interrupted"

definition update_state ::
  "'s save_op \<Rightarrow> 's load_op \<Rightarrow> string \<Rightarrow> int \<Rightarrow> string \<Rightarrow> state \<Rightarrow> bool \<Rightarrow> 's
   \<Rightarrow> 's \<times> graph_checkpoint result" where
  "update_state save load fid now thread_id update replace s =
     (case load s thread_id of
        Inl e \<Rightarrow> (s, Inl e)
      | Inr ck \<Rightarrow> save fid now (with_state_update update replace ck) s)"

section \<open>Histories of operations\<close>

datatype ck_op =
    OpSave string int graph_checkpoint
  | OpUpdate string int string state bool
  | OpClear string

fun op_thread :: "ck_op \<Rightarrow> string" where
  "op_thread (OpSave fid now ck) = ck_thread_id ck"
| "op_thread (OpUpdate fid now t u r) = t"
| "op_thread (OpClear t) = t"

fun exec_op :: "'s save_op \<Rightarrow> 's load_op \<Rightarrow> (string \<Rightarrow> 's \<Rightarrow> 's) \<Rightarrow> ck_op \<Rightarrow> 's \<Rightarrow> 's" where
  "exec_op save load clear (OpSave fid now ck) s = fst (save fid now ck s)"
| "exec_op save load clear (OpUpdate fid now t u r) s = fst (update_state save load fid now t u r s)"
| "exec_op save load clear (OpClear t) s = clear t s"

text \<open>The abstract checkpointer: the current checkpoint of every thread.\<close>

fun spec_op :: "ck_op \<Rightarrow> (string \<rightharpoonup> graph_checkpoint) \<Rightarrow> (string \<rightharpoonup> graph_checkpoint)" where
  "spec_op (OpSave fid now ck) m = m(ck_thread_id ck \<mapsto> ensure_id fid ck)"
| "spec_op (OpUpdate fid now t u r) m =
     (case m t of None \<Rightarrow> m | Some ck \<Rightarrow> m(t \<mapsto> ensure_id fid (with_state_update u r ck)))"
| "spec_op (OpClear t) m = m(t := None)"

text \<open>An operation is admissible when the save it performs is.\<close>

fun op_adm ::
  "(string \<Rightarrow> int \<Rightarrow> graph_checkpoint \<Rightarrow> 's \<Rightarrow> bool) \<Rightarrow> (string \<Rightarrow> bool) \<Rightarrow> 's load_op \<Rightarrow> ck_op \<Rightarrow> 's \<Rightarrow> bool"
  where
  "op_adm adm tid_ok load (OpSave fid now ck) s \<longleftrightarrow> tid_ok (ck_thread_id ck) \<and> adm fid now ck s"
| "op_adm adm tid_ok load (OpUpdate fid now t u r) s \<longleftrightarrow> tid_ok t \<and>
     (case load s t of Inl _ \<Rightarrow> True | Inr ck \<Rightarrow> adm fid now (with_state_update u r ck) s)"
| "op_adm adm tid_ok load (OpClear t) s \<longleftrightarrow> tid_ok t"

fun ops_adm ::
  "(string \<Rightarrow> int \<Rightarrow> graph_checkpoint \<Rightarrow> 's \<Rightarrow> bool) \<Rightarrow> (string \<Rightarrow> bool) \<Rightarrow> 's save_op \<Rightarrow> 's load_op
   \<Rightarrow> (string \<Rightarrow> 's \<Rightarrow> 's) \<Rightarrow> ck_op list \<Rightarrow> 's \<Rightarrow> bool" where
  "ops_adm adm tid_ok save load clear [] s = True"
| "ops_adm adm tid_ok save load clear (op # ops) s \<longleftrightarrow>
     op_adm adm tid_ok load op s \<and>
     ops_adm adm tid_ok save load clear ops (exec_op save load clear op s)"

locale checkpointer =
  fixes save :: "'s save_op"
    and load :: "'s load_op"
    and load_at :: "'s \<Rightarrow> string \<Rightarrow> string \<Rightarrow> graph_checkpoint result"
    and has :: "'s \<Rightarrow> string \<Rightarrow> bool"
    and clear :: "string \<Rightarrow> 's \<Rightarrow> 's"
    and invar :: "'s \<Rightarrow> bool"
    and tid_ok :: "string \<Rightarrow> bool"
    and adm :: "string \<Rightarrow> int \<Rightarrow> graph_checkpoint \<Rightarrow> 's \<Rightarrow> bool"
  assumes save_ok: "invar s \<Longrightarrow> tid_ok (ck_thread_id ck) \<Longrightarrow> adm fid now ck s \<Longrightarrow>
      \<exists>s'. save fid now ck s = (s', Inr (ensure_id fid ck)) \<and> invar s'"
    and load_save: "invar s \<Longrightarrow> tid_ok (ck_thread_id ck) \<Longrightarrow> adm fid now ck s \<Longrightarrow> tid_ok t \<Longrightarrow>
      load (fst (save fid now ck s)) t =
        (if t = ck_thread_id ck then Inr (ensure_id fid ck) else load s t)"
    and load_at_save: "invar s \<Longrightarrow> tid_ok (ck_thread_id ck) \<Longrightarrow> adm fid now ck s \<Longrightarrow>
      load_at (fst (save fid now ck s)) (ck_thread_id ck) (ck_checkpoint_id (ensure_id fid ck)) =
        Inr (ensure_id fid ck)"
    and load_thread: "invar s \<Longrightarrow> tid_ok t \<Longrightarrow> load s t = Inr ck \<Longrightarrow> ck_thread_id ck = t"
    and has_load: "invar s \<Longrightarrow> tid_ok t \<Longrightarrow> has s t \<longleftrightarrow> is_ok (load s t)"
    and clear_invar: "invar s \<Longrightarrow> tid_ok t \<Longrightarrow> invar (clear t s)"
    and clear_load: "invar s \<Longrightarrow> tid_ok t \<Longrightarrow> tid_ok t' \<Longrightarrow>
      ok_option (load (clear t s) t') = (if t' = t then None else ok_option (load s t'))"
begin

text \<open>An interruption survives the trip through the store.\<close>

lemma interrupted_roundtrip:
  assumes "invar s" "tid_ok t" "adm fid now (from_interrupted t i) s"
    and "save_interrupted save fid now t i s = (s', r)"
  shows "load_interrupted load s' t = Inr i"
proof -
  from assms(4) have "s' = fst (save fid now (from_interrupted t i) s)"
    by (simp add: save_interrupted_def)
  with load_save [of s "from_interrupted t i" fid now t] assms(1-3) show ?thesis
    by (simp add: load_interrupted_def)
qed

definition sim :: "'s \<Rightarrow> (string \<rightharpoonup> graph_checkpoint) \<Rightarrow> bool" where
  "sim s m \<longleftrightarrow> invar s \<and> (\<forall>t. tid_ok t \<longrightarrow> ok_option (load s t) = m t)"

lemma sim_save:
  assumes "sim s m" "tid_ok (ck_thread_id ck)" "adm fid now ck s"
  shows "sim (fst (save fid now ck s)) (m(ck_thread_id ck \<mapsto> ensure_id fid ck))"
  using assms save_ok [of s ck fid now] load_save [of s ck fid now] by (auto simp: sim_def)

lemma sim_update:
  assumes "sim s m" "op_adm adm tid_ok load (OpUpdate fid now t u r) s"
  shows "sim (fst (update_state save load fid now t u r s)) (spec_op (OpUpdate fid now t u r) m)"
proof (cases "load s t")
  case (Inl e)
  with assms have "m t = None" by (auto simp: sim_def)
  with assms(1) Inl show ?thesis by (simp add: update_state_def)
next
  case (Inr ck)
  with assms have m: "m t = Some ck" "ck_thread_id ck = t"
    by (auto simp: sim_def load_thread)
  from Inr assms(2) have "adm fid now (with_state_update u r ck) s" "tid_ok t" by simp_all
  with sim_save [OF assms(1), of "with_state_update u r ck"] m Inr show ?thesis
    by (simp add: update_state_def)
qed

lemma sim_clear: "sim s m \<Longrightarrow> tid_ok t \<Longrightarrow> sim (clear t s) (m(t := None))"
  by (auto simp: sim_def clear_invar clear_load)

lemma sim_op:
  "sim s m \<Longrightarrow> op_adm adm tid_ok load op s \<Longrightarrow> sim (exec_op save load clear op s) (spec_op op m)"
  using sim_save sim_update sim_clear by (cases op) simp_all

lemma sim_ops:
  "sim s m \<Longrightarrow> ops_adm adm tid_ok save load clear ops s \<Longrightarrow>
   sim (fold (exec_op save load clear) ops s) (fold spec_op ops m)"
  by (induction ops arbitrary: s m) (simp_all add: sim_op)

text \<open>Every history of operations refines the map of current checkpoints.\<close>

lemma refines:
  assumes "invar s" "\<And>t. tid_ok t \<Longrightarrow> \<not> is_ok (load s t)"
    and "ops_adm adm tid_ok save load clear ops s" "tid_ok t"
  shows "ok_option (load (fold (exec_op save load clear) ops s) t) = fold spec_op ops Map.empty t"
proof -
  have "ok_option (load s t') = None" if "tid_ok t'" for t'
    using assms(2) [OF that] by (simp only: ok_option_simps simp_thms)
  with assms(1) have "sim s Map.empty" by (simp add: sim_def)
  from sim_ops [OF this assms(3)] assms(4) show ?thesis by (simp add: sim_def)
qed

end

section \<open>The memory checkpointer\<close>

record mem_ckpt =
  mc_checkpoints :: "graph_checkpoint pydict"
  mc_history :: "(string \<times> graph_checkpoint list) list"

definition mem_empty :: mem_ckpt where
  "mem_empty = \<lparr>mc_checkpoints = [], mc_history = []\<rparr>"

definition mem_save :: "mem_ckpt save_op" where
  "mem_save fid now ck m =
     (let ck' = ensure_id fid ck
      in (m\<lparr>mc_checkpoints := dict_set (ck_thread_id ck') ck' (mc_checkpoints m),
            mc_history := dd_append (ck_thread_id ck') ck' (mc_history m)\<rparr>, Inr ck'))"

definition mem_load :: "mem_ckpt load_op" where
  "mem_load m thread_id =
     (case dict_get (mc_checkpoints m) thread_id of
        None \<Rightarrow> Inl (RuntimeGraphCheckpointError (''missing runtime graph checkpoint: '' @ thread_id))
      | Some ck \<Rightarrow> Inr ck)"

definition mem_load_at :: "mem_ckpt \<Rightarrow> string \<Rightarrow> string \<Rightarrow> graph_checkpoint result" where
  "mem_load_at m thread_id checkpoint_id =
     (case find (\<lambda>ck. ck_checkpoint_id ck = checkpoint_id) (dd_get (mc_history m) thread_id) of
        None \<Rightarrow> Inl (RuntimeGraphCheckpointError
                  (''missing runtime graph checkpoint: '' @ thread_id @ ''/'' @ checkpoint_id))
      | Some ck \<Rightarrow> Inr ck)"

definition mem_history :: "mem_ckpt \<Rightarrow> string \<Rightarrow> graph_checkpoint list" where
  "mem_history m thread_id = dd_get (mc_history m) thread_id"

definition mem_has :: "mem_ckpt \<Rightarrow> string \<Rightarrow> bool" where
  "mem_has m thread_id \<longleftrightarrow> thread_id \<in> set (dict_keys (mc_checkpoints m))"

definition mem_clear :: "string \<Rightarrow> mem_ckpt \<Rightarrow> mem_ckpt" where
  "mem_clear thread_id m =
     m\<lparr>mc_checkpoints := dict_pop thread_id (mc_checkpoints m),
       mc_history := dict_pop thread_id (mc_history m)\<rparr>"

definition mem_invar :: "mem_ckpt \<Rightarrow> bool" where
  "mem_invar m \<longleftrightarrow>
     (\<forall>t ck. dict_get (mc_checkpoints m) t = Some ck \<longrightarrow> ck_thread_id ck = t)"

text \<open>A saved id is new in its thread: what a generated id is.\<close>

definition mem_adm :: "string \<Rightarrow> int \<Rightarrow> graph_checkpoint \<Rightarrow> mem_ckpt \<Rightarrow> bool" where
  "mem_adm fid now ck m \<longleftrightarrow>
     ck_checkpoint_id (ensure_id fid ck) \<notin>
       set (map ck_checkpoint_id (mem_history m (ck_thread_id ck)))"

interpretation memc: checkpointer mem_save mem_load mem_load_at mem_has mem_clear mem_invar
  "\<lambda>_. True" mem_adm
proof (unfold_locales, goal_cases)
  case (1 s ck fid now)
  then show ?case by (simp add: mem_save_def mem_invar_def Let_def)
next
  case (2 s ck fid now t)
  then show ?case by (simp add: mem_save_def mem_load_def Let_def)
next
  case (3 s ck fid now)
  then have "find (\<lambda>c. ck_checkpoint_id c = ck_checkpoint_id (ensure_id fid ck))
      (dd_get (mc_history s) (ck_thread_id ck)) = None"
    by (simp add: mem_adm_def mem_history_def find_None_iff) (metis image_eqI)
  then show ?case by (simp add: mem_save_def mem_load_at_def Let_def find_append)
next
  case (4 s t ck)
  then show ?case by (auto simp: mem_load_def mem_invar_def split: option.splits)
next
  case (5 s t)
  show ?case
    using map_of_eq_None_iff [of "mc_checkpoints s" t]
    by (auto simp: mem_has_def mem_load_def split: option.splits)
next
  case (6 s t)
  then show ?case by (simp add: mem_clear_def mem_invar_def)
next
  case (7 s t t')
  then show ?case by (simp add: mem_clear_def mem_load_def)
qed

section \<open>The file checkpointer\<close>

text \<open>
  The root directory: pickled files by name, and history directories by name. A pickle holds
  a checkpoint or some other object; writing goes through a temporary file that replaces the
  target, so a write is one assignment.
\<close>

datatype pickled = PickledCheckpoint graph_checkpoint | PickledOther

record file_root =
  fs_files :: "pickled pydict"
  fs_dirs :: "pickled pydict pydict"

definition file_empty :: file_root where
  "file_empty = \<lparr>fs_files = [], fs_dirs = []\<rparr>"

definition file_path :: "(string \<Rightarrow> string) \<Rightarrow> string \<Rightarrow> string" where
  "file_path sha256 thread_id = sha256 thread_id @ ''.checkpoint.pickle''"

definition file_history_dir :: "(string \<Rightarrow> string) \<Rightarrow> string \<Rightarrow> string" where
  "file_history_dir sha256 thread_id = sha256 thread_id @ ''.history''"

definition file_history_path :: "string \<Rightarrow> string" where
  "file_history_path checkpoint_id = checkpoint_id @ ''.checkpoint.pickle''"

definition file_save :: "(string \<Rightarrow> string) \<Rightarrow> file_root save_op" where
  "file_save sha256 fid now ck s =
     (let ck' = ensure_id fid ck;
          d = file_history_dir sha256 (ck_thread_id ck')
      in (s\<lparr>fs_files := dict_set (file_path sha256 (ck_thread_id ck')) (PickledCheckpoint ck') (fs_files s),
            fs_dirs := dict_set d
              (dict_set (file_history_path (ck_checkpoint_id ck')) (PickledCheckpoint ck')
                 (dict_get_or (fs_dirs s) d [])) (fs_dirs s)\<rparr>, Inr ck'))"

definition file_load :: "(string \<Rightarrow> string) \<Rightarrow> file_root load_op" where
  "file_load sha256 s thread_id =
     (case dict_get (fs_files s) (file_path sha256 thread_id) of
        None \<Rightarrow> Inl (RuntimeGraphCheckpointError (''missing runtime graph checkpoint: '' @ thread_id))
      | Some PickledOther \<Rightarrow>
          Inl (RuntimeGraphCheckpointError (''invalid runtime graph checkpoint: '' @ thread_id))
      | Some (PickledCheckpoint ck) \<Rightarrow> Inr ck)"

definition file_load_at ::
  "(string \<Rightarrow> string) \<Rightarrow> file_root \<Rightarrow> string \<Rightarrow> string \<Rightarrow> graph_checkpoint result" where
  "file_load_at sha256 s thread_id checkpoint_id =
     (case dict_get (dict_get_or (fs_dirs s) (file_history_dir sha256 thread_id) [])
             (file_history_path checkpoint_id) of
        None \<Rightarrow> Inl (RuntimeGraphCheckpointError
                  (''missing runtime graph checkpoint: '' @ thread_id @ ''/'' @ checkpoint_id))
      | Some PickledOther \<Rightarrow> Inl (RuntimeGraphCheckpointError
                  (''invalid runtime graph checkpoint: '' @ thread_id @ ''/'' @ checkpoint_id))
      | Some (PickledCheckpoint ck) \<Rightarrow> Inr ck)"

definition file_history ::
  "(string \<Rightarrow> string) \<Rightarrow> file_root \<Rightarrow> string \<Rightarrow> graph_checkpoint list result" where
  "file_history sha256 s thread_id =
     (case dict_get (fs_dirs s) (file_history_dir sha256 thread_id) of
        None \<Rightarrow> Inr []
      | Some d \<Rightarrow>
          res_map (\<lambda>(name, x).
              case x of
                PickledOther \<Rightarrow> Inl (RuntimeGraphCheckpointError
                  (''invalid runtime graph checkpoint history: '' @ thread_id))
              | PickledCheckpoint ck \<Rightarrow> Inr ck)
            (sort_key fst (filter (\<lambda>(name, x). ends_with name ''.checkpoint.pickle'') d)))"

definition file_has :: "(string \<Rightarrow> string) \<Rightarrow> file_root \<Rightarrow> string \<Rightarrow> bool" where
  "file_has sha256 s thread_id \<longleftrightarrow>
     file_path sha256 thread_id \<in> set (dict_keys (fs_files s))"

definition file_clear :: "(string \<Rightarrow> string) \<Rightarrow> string \<Rightarrow> file_root \<Rightarrow> file_root \<times> unit result" where
  "file_clear sha256 thread_id s =
     (let s1 = s\<lparr>fs_files := dict_pop (file_path sha256 thread_id) (fs_files s)\<rparr>;
          dn = file_history_dir sha256 thread_id
      in case dict_get (fs_dirs s1) dn of
           None \<Rightarrow> (s1, Inr ())
         | Some d \<Rightarrow>
             (let d' = filter (\<lambda>(name, x). \<not> ends_with name ''.checkpoint.pickle'') d
              in if d' = [] then (s1\<lparr>fs_dirs := dict_pop dn (fs_dirs s1)\<rparr>, Inr ())
                 else (s1\<lparr>fs_dirs := dict_set dn d' (fs_dirs s1)\<rparr>,
                       Inl (OSError ''Directory not empty''))))"

definition file_invar :: "(string \<Rightarrow> string) \<Rightarrow> string set \<Rightarrow> file_root \<Rightarrow> bool" where
  "file_invar sha256 T s \<longleftrightarrow> inj_on sha256 T \<and>
     (\<forall>t \<in> T. \<forall>x. dict_get (fs_files s) (file_path sha256 t) = Some x \<longrightarrow>
        (\<exists>ck. x = PickledCheckpoint ck \<and> ck_thread_id ck = t))"

lemma file_path_inj:
  "inj_on sha256 T \<Longrightarrow> t \<in> T \<Longrightarrow> t' \<in> T \<Longrightarrow> file_path sha256 t = file_path sha256 t' \<longleftrightarrow> t = t'"
  by (auto simp: file_path_def inj_on_def)

lemma file_clear_files [simp]:
  "fs_files (fst (file_clear sha256 t s)) = dict_pop (file_path sha256 t) (fs_files s)"
  by (simp add: file_clear_def Let_def split: option.splits)

interpretation filec: checkpointer "file_save sha256" "file_load sha256" "file_load_at sha256"
  "file_has sha256" "\<lambda>t s. fst (file_clear sha256 t s)" "file_invar sha256 T" "\<lambda>t. t \<in> T"
  "\<lambda>fid now ck s. CHR ''/'' \<notin> set (ck_checkpoint_id (ensure_id fid ck))"
  for sha256 T
proof (unfold_locales, goal_cases)
  case (1 s ck fid now)
  then show ?case by (auto simp: file_save_def file_invar_def file_path_inj Let_def)
next
  case (2 s ck fid now t)
  then show ?case
    by (auto simp: file_save_def file_load_def file_invar_def file_path_inj Let_def)
next
  case (3 s ck fid now)
  then show ?case by (simp add: file_save_def file_load_at_def Let_def)
next
  case (4 s t ck)
  then show ?case
    by (fastforce simp: file_load_def file_invar_def split: option.splits pickled.splits)
next
  case (5 s t)
  show ?case
  proof (cases "dict_get (fs_files s) (file_path sha256 t)")
    case None
    moreover from None have "file_path sha256 t \<notin> fst ` set (fs_files s)"
      by (simp add: map_of_eq_None_iff)
    ultimately show ?thesis by (simp add: file_has_def file_load_def)
  next
    case (Some x)
    with 5 obtain ck where "x = PickledCheckpoint ck" by (auto simp: file_invar_def)
    with Some show ?thesis
      by (simp add: file_has_def file_load_def) (metis domI dom_map_of_conv_image_fst)
  qed
next
  case (6 s t)
  then show ?case by (auto simp: file_invar_def split: if_splits)
next
  case (7 s t t')
  then show ?case by (auto simp: file_load_def file_invar_def file_path_inj)
qed

section \<open>Properties\<close>

text \<open>
  The memory checkpointer implements the abstract checkpointer: after any sequence of saves
  with new ids, state updates and clears on a new checkpointer, \<open>load\<close> of a thread returns
  exactly the checkpoint that the map of current checkpoints holds for it, and fails when the
  map holds none.
\<close>

theorem mem_checkpointer_refines:
  assumes "ops_adm mem_adm (\<lambda>_. True) mem_save mem_load mem_clear ops mem_empty"
  shows "ok_option (mem_load (fold (exec_op mem_save mem_load mem_clear) ops mem_empty) t) =
         fold spec_op ops Map.empty t"
  by (rule memc.refines [OF _ _ assms]) (simp_all add: mem_empty_def mem_invar_def mem_load_def)

text \<open>
  The file checkpointer implements the same abstract checkpointer, for every digest function
  that does not collide on the thread ids in use and ids that are plain file names.
\<close>

theorem file_checkpointer_refines:
  assumes "inj_on sha256 T" and "t \<in> T"
    and "ops_adm (\<lambda>fid now ck s. CHR ''/'' \<notin> set (ck_checkpoint_id (ensure_id fid ck)))
           (\<lambda>t. t \<in> T) (file_save sha256) (file_load sha256)
           (\<lambda>t s. fst (file_clear sha256 t s)) ops file_empty"
  shows "ok_option (file_load sha256
           (fold (exec_op (file_save sha256) (file_load sha256)
                    (\<lambda>t s. fst (file_clear sha256 t s))) ops file_empty) t) =
         fold spec_op ops Map.empty t"
  by (rule filec.refines [OF _ _ assms(3,2)])
     (use assms(1) in \<open>simp_all add: file_empty_def file_invar_def file_load_def\<close>)

text \<open>
  Saving an interruption in the file checkpointer and loading it back returns the same
  interruption: interrupt, node, step, state, trace, pending queue, events, receipt and digest,
  whatever the store held before.
\<close>

theorem file_interrupted_roundtrip:
  assumes "file_invar sha256 T s" and "t \<in> T" and "fid \<noteq> []" and "CHR ''/'' \<notin> set fid"
    and "save_interrupted (file_save sha256) fid now t i s = (s', r)"
  shows "load_interrupted (file_load sha256) s' t = Inr i"
  using filec.interrupted_roundtrip [of sha256 T s t fid i now s' r] assms
  by (simp add: ensure_id_def assign_checkpoint_id_def)

definition demo_ckpt :: "string \<Rightarrow> string \<Rightarrow> int \<Rightarrow> graph_checkpoint" where
  "demo_ckpt cid t n =
     \<lparr>ck_checkpoint_id = cid, ck_thread_id = t, ck_interrupt = None, ck_node = ''a'', ck_step = n,
      ck_state = [(''x'', PInt n)], ck_trace = [], ck_pending = [], ck_events = [],
      ck_validation_receipt = [], ck_plan_digest = None\<rparr>"

definition demo_ops :: "ck_op list" where
  "demo_ops = [OpSave ''f1'' 1 (demo_ckpt [] ''t'' 1), OpSave ''f2'' 2 (demo_ckpt ''k'' ''u'' 2),
     OpUpdate ''f3'' 3 ''t'' [(''y'', PNone)] False, OpClear ''u'']"

theorem mem_checkpointer_refines_witness:
  "mem_load (fold (exec_op mem_save mem_load mem_clear) demo_ops mem_empty) ''t'' =
     Inr ((demo_ckpt ''f3'' ''t'' 1)\<lparr>ck_state := [(''x'', PInt 1), (''y'', PNone)]\<rparr>)
   \<and> \<not> is_ok (mem_load (fold (exec_op mem_save mem_load mem_clear) demo_ops mem_empty) ''u'')"
proof -
  have "ops_adm mem_adm (\<lambda>_. True) mem_save mem_load mem_clear demo_ops mem_empty"
    by code_simp
  note r = mem_checkpointer_refines [OF this]
  have "fold spec_op demo_ops Map.empty ''t'' =
      Some ((demo_ckpt ''f3'' ''t'' 1)\<lparr>ck_state := [(''x'', PInt 1), (''y'', PNone)]\<rparr>)"
    "fold spec_op demo_ops Map.empty ''u'' = None"
    by (simp_all add: demo_ops_def demo_ckpt_def ensure_id_def assign_checkpoint_id_def
        with_state_update_def)
  with r [of "''t''"] r [of "''u''"] show ?thesis by simp
qed

theorem file_checkpointer_refines_witness:
  "file_load rev (fold (exec_op (file_save rev) (file_load rev)
       (\<lambda>t s. fst (file_clear rev t s))) demo_ops file_empty) ''t'' =
     Inr ((demo_ckpt ''f3'' ''t'' 1)\<lparr>ck_state := [(''x'', PInt 1), (''y'', PNone)]\<rparr>)"
proof -
  have adm: "ops_adm (\<lambda>fid now ck s. CHR ''/'' \<notin> set (ck_checkpoint_id (ensure_id fid ck)))
           (\<lambda>t. t \<in> {''t'', ''u''}) (file_save rev) (file_load rev)
           (\<lambda>t s. fst (file_clear rev t s)) demo_ops file_empty"
    by code_simp
  have "fold spec_op demo_ops Map.empty ''t'' =
      Some ((demo_ckpt ''f3'' ''t'' 1)\<lparr>ck_state := [(''x'', PInt 1), (''y'', PNone)]\<rparr>)"
    by (simp add: demo_ops_def demo_ckpt_def ensure_id_def assign_checkpoint_id_def
        with_state_update_def)
  with file_checkpointer_refines [OF _ _ adm, of "''t''"] show ?thesis by (simp add: inj_on_def)
qed

theorem file_interrupted_roundtrip_witness:
  "load_interrupted (file_load rev)
     (fst (save_interrupted (file_save rev) ''f'' 1 ''t''
        \<lparr>gi_interrupt = \<lparr>int_value = PNone, int_resumable = True\<rparr>, gi_node = ''n'', gi_step = 2,
         gi_state = [(''x'', PInt 1)], gi_trace = [''m'', ''n''], gi_pending = [TNode ''z''],
         gi_events = [], gi_validation_receipt = ''r'', gi_plan_digest = Some ''d''\<rparr> file_empty))
     ''t'' =
   Inr \<lparr>gi_interrupt = \<lparr>int_value = PNone, int_resumable = True\<rparr>, gi_node = ''n'', gi_step = 2,
        gi_state = [(''x'', PInt 1)], gi_trace = [''m'', ''n''], gi_pending = [TNode ''z''],
        gi_events = [], gi_validation_receipt = ''r'', gi_plan_digest = Some ''d''\<rparr>"
  by (rule file_interrupted_roundtrip [where T = "{''t''}" and r = "snd (save_interrupted (file_save rev) ''f'' 1 ''t'' _ file_empty)", OF _ _ _ _ prod.collapse [symmetric]])
     (simp_all add: file_invar_def file_empty_def)

text \<open>
  With a reused id the memory checkpointer keeps both entries and \<open>load_at\<close> returns the older
  one, while \<open>load\<close> returns the newer: freshness of ids is a real precondition.
\<close>

lemma mem_load_at_stale:
  "let m = fst (mem_save ''f'' 2 (demo_ckpt ''k'' ''t'' 2) (fst (mem_save ''f'' 1 (demo_ckpt ''k'' ''t'' 1) mem_empty)))
   in mem_load m ''t'' = Inr (demo_ckpt ''k'' ''t'' 2)
      \<and> mem_load_at m ''t'' ''k'' = Inr (demo_ckpt ''k'' ''t'' 1)"
  by code_simp

end
