(* ===== verification/Program.thy ===== *)
theory Program
  imports Materialization Builder Graph_Async Checkpoints
begin

text \<open>
  Runtime graph programs (\<open>_program_runtime.py\<close>, \<open>_program_resolution.py\<close>): a plan with its
  bindings and registries, validated through a receipt before every run; the executor a
  program builds; runs, resumptions and runs on a checkpointed thread, synchronous and
  asynchronous; the delegation of the durable adapter (\<open>durable_adapter.py\<close>).

  A checkpointer is given by its operations, with the state \<open>'s\<close> threaded next to the world.
  \<open>sha\<close> is the hex digest of SHA-256; \<open>closed\<close> tells whether a native context is closed;
  \<open>fid\<close> and \<open>now\<close> are the id and clock value that \<open>save\<close> would draw.
  \<open>_call_checkpoint_method\<close> calls the asynchronous twin of an operation or runs the operation in
  a worker thread; both are one call of the operation here.
\<close>

section \<open>Programs\<close>

record ('r, 'w) registries =
  rg_actions :: "(string \<times> ('r, 'w) callable) list"
  rg_routers :: "(string \<times> 'w router) list"
  rg_reducers :: "(string \<times> reducer) list"

record ('st, 'ck, 'nc, 'w) program =
  pg_plan :: graph_plan
  pg_bindings :: graph_bindings
  pg_registries :: "(('st, 'ck, 'nc) runtime, 'w) registries"
  pg_runtime :: "('st, 'ck, 'nc) runtime"

definition plan_state_key :: string where
  "plan_state_key = ''_poo_flow_runtime_graph_plan''"

definition empty_registries :: "('r, 'w) registries" where
  "empty_registries = \<lparr>rg_actions = [], rg_routers = [], rg_reducers = []\<rparr>"

definition make_program ::
  "graph_plan \<Rightarrow> graph_bindings option \<Rightarrow> (('st, 'ck, 'nc) runtime, 'w) registries option
   \<Rightarrow> ('st, 'ck, 'nc) runtime option \<Rightarrow> ('st, 'ck, 'nc, 'w) program" where
  "make_program plan bindings registries runtime =
     \<lparr>pg_plan = plan,
      pg_bindings = (case bindings of None \<Rightarrow> empty_bindings | Some b \<Rightarrow> b),
      pg_registries = (case registries of None \<Rightarrow> empty_registries | Some r \<Rightarrow> r),
      pg_runtime = (case runtime of None \<Rightarrow> default_runtime | Some rt \<Rightarrow> rt)\<rparr>"

definition program_reference ::
  "graph_plan \<Rightarrow> graph_bindings option \<Rightarrow> (('st, 'ck, 'nc) runtime, 'w) registries option
   \<Rightarrow> ('st, 'ck, 'nc) runtime option \<Rightarrow> ('st, 'ck, 'nc, 'w) program result" where
  "program_reference plan bindings registries runtime =
     (case runtime of
        None \<Rightarrow> res_bind (runtime_reference default_runtime)
                 (\<lambda>rt. Inr (make_program plan bindings registries (Some rt)))
      | Some rt \<Rightarrow>
          if rt_backend rt \<noteq> ''reference''
          then Inl (RuntimeGraphError ''reference program requires a reference runtime'')
          else Inr (make_program plan bindings registries (Some rt)))"

section \<open>Resolution\<close>

fun resolve_nodes ::
  "string list \<Rightarrow> graph_bindings \<Rightarrow> (string \<times> 'a) list \<Rightarrow> (string \<times> 'a) list \<Rightarrow> (string \<times> 'a) list result" where
  "resolve_nodes [] gb actions resolved = Inr resolved"
| "resolve_nodes (node # nodes) gb actions resolved =
     (case dict_get actions (action_for gb node) of
        None \<Rightarrow> Inl (RuntimeGraphError (''missing runtime action registry entry: '' @ action_for gb node))
      | Some a \<Rightarrow> resolve_nodes nodes gb actions (dict_set node a resolved))"

definition resolve_actions ::
  "graph_plan \<Rightarrow> graph_bindings \<Rightarrow> ('r, 'w) registries \<Rightarrow> (string \<times> ('r, 'w) callable) list result" where
  "resolve_actions plan gb rg = resolve_nodes (plan_nodes plan) gb (rg_actions rg) []"

fun resolve_reducer_items ::
  "string pydict \<Rightarrow> (string \<times> 'a) list \<Rightarrow> (string \<times> 'a) list \<Rightarrow> (string \<times> 'a) list result" where
  "resolve_reducer_items [] reducers resolved = Inr resolved"
| "resolve_reducer_items ((state_key, reducer_symbol) # items) reducers resolved =
     (case dict_get reducers reducer_symbol of
        None \<Rightarrow> Inl (RuntimeGraphError (''missing runtime reducer registry entry: '' @ reducer_symbol))
      | Some r \<Rightarrow> resolve_reducer_items items reducers (dict_set state_key r resolved))"

definition resolve_reducers ::
  "graph_bindings \<Rightarrow> ('r, 'w) registries \<Rightarrow> (string \<times> reducer) list result" where
  "resolve_reducers gb rg = resolve_reducer_items (gb_state_reducers gb) (rg_reducers rg) []"

definition program_executor :: "('st, 'ck, 'nc, 'w) program \<Rightarrow> 'w graph_executor result" where
  "program_executor p =
     res_bind (resolve_actions (pg_plan p) (pg_bindings p) (pg_registries p)) (\<lambda>actions.
     res_bind (resolve_reducers (pg_bindings p) (pg_registries p)) (\<lambda>reducers.
     make_executor (pg_plan p) actions (rg_routers (pg_registries p)) reducers (pg_runtime p)))"

definition describe :: "(string \<Rightarrow> string) \<Rightarrow> ('st, 'ck, 'nc, 'w) program \<Rightarrow> string result" where
  "describe sha p = describe_runtime_graph_plan sha (pg_plan p) (pg_bindings p)"

definition validated_plan ::
  "(string \<Rightarrow> string) \<Rightarrow> ('nc \<Rightarrow> bool) \<Rightarrow> ('st, 'ck, 'nc, 'w) program
   \<Rightarrow> (string \<times> string option) result" where
  "validated_plan sha closed p =
     res_bind (if rt_backend (pg_runtime p) = ''native''
               then res_bind (require_native_context closed (pg_runtime p)) (\<lambda>_. Inr ())
               else Inr ()) (\<lambda>_.
     res_bind (describe sha p) (\<lambda>receipt.
     res_bind (parse_runtime_receipt receipt) (\<lambda>r. Inr (receipt, rr_plan_digest r))))"

section \<open>Public and internal state\<close>

definition internal_state :: "('st, 'ck, 'nc, 'w) program \<Rightarrow> state \<Rightarrow> state" where
  "internal_state p st = dict_set plan_state_key (PPlan (pg_plan p)) st"

definition public_state :: "state \<Rightarrow> state" where
  "public_state st = dict_pop plan_state_key st"

definition public_interrupted ::
  "graph_interrupted \<Rightarrow> string \<Rightarrow> string option \<Rightarrow> graph_interrupted" where
  "public_interrupted i receipt digest =
     i\<lparr>gi_state := public_state (gi_state i), gi_validation_receipt := receipt, gi_plan_digest := digest\<rparr>"

record graph_execution =
  xe_state :: state
  xe_trace :: "string list"
  xe_validation_receipt :: string
  xe_events :: "graph_event list"

definition execution :: "string \<Rightarrow> run_result \<Rightarrow> graph_execution" where
  "execution receipt = (\<lambda>(st, trace, events).
     \<lparr>xe_state = public_state st, xe_trace = trace, xe_validation_receipt = receipt, xe_events = events\<rparr>)"

definition xe_plan_digest :: "graph_execution \<Rightarrow> string option result" where
  "xe_plan_digest x = res_bind (parse_runtime_receipt (xe_validation_receipt x)) (\<lambda>r. Inr (rr_plan_digest r))"

section \<open>Runs\<close>

text \<open>\<open>except RuntimeGraphInterrupted as exc: raise self._public_interrupted(...)\<close>.\<close>

fun publish_exn :: "string \<Rightarrow> string option \<Rightarrow> graph_exn \<Rightarrow> graph_exn" where
  "publish_exn receipt digest (Interrupted i) = Interrupted (public_interrupted i receipt digest)"
| "publish_exn receipt digest (Raise e) = Raise e"

definition program_invoke_with_trace ::
  "(string \<Rightarrow> string) \<Rightarrow> ('nc \<Rightarrow> bool) \<Rightarrow> ('st, 'ck, 'nc, 'w) program \<Rightarrow> string option \<Rightarrow> state \<Rightarrow> 'w
   \<Rightarrow> 'w \<times> (graph_exn + graph_execution)" where
  "program_invoke_with_trace sha closed p trace_key initial_state w =
     (case validated_plan sha closed p of
        Inl e \<Rightarrow> (w, Inl (Raise e))
      | Inr (receipt, digest) \<Rightarrow>
          (case program_executor p of
             Inl e \<Rightarrow> (w, Inl (Raise e))
           | Inr ex \<Rightarrow>
               map_prod id (map_sum (publish_exn receipt digest) (execution receipt))
                 (invoke_with_events ex trace_key (internal_state p initial_state) w)))"

definition program_invoke ::
  "(string \<Rightarrow> string) \<Rightarrow> ('nc \<Rightarrow> bool) \<Rightarrow> ('st, 'ck, 'nc, 'w) program \<Rightarrow> state \<Rightarrow> 'w
   \<Rightarrow> 'w \<times> (graph_exn + state)" where
  "program_invoke sha closed p initial_state w =
     map_prod id (map_sum id xe_state) (program_invoke_with_trace sha closed p None initial_state w)"

definition ainvoke_prepared ::
  "('st, 'ck, 'nc, 'w) program \<Rightarrow> string option \<Rightarrow> string \<Rightarrow> string option \<Rightarrow> 'w graph_executor \<Rightarrow> state \<Rightarrow> 'w
   \<Rightarrow> 'w \<times> (graph_exn + graph_execution)" where
  "ainvoke_prepared p trace_key receipt digest ex initial_state w =
     (case ainvoke_with_events ex trace_key (internal_state p initial_state) w of
        (w1, Inl (Interrupted i)) \<Rightarrow> (w1, Inl (Interrupted (public_interrupted i receipt digest)))
      | (w1, Inl (Raise e)) \<Rightarrow> (w1, Inl (Raise e))
      | (w1, Inr r) \<Rightarrow> (w1, Inr (execution receipt r)))"

definition program_ainvoke_with_trace ::
  "(string \<Rightarrow> string) \<Rightarrow> ('nc \<Rightarrow> bool) \<Rightarrow> ('st, 'ck, 'nc, 'w) program \<Rightarrow> string option \<Rightarrow> state \<Rightarrow> 'w
   \<Rightarrow> 'w \<times> (graph_exn + graph_execution)" where
  "program_ainvoke_with_trace sha closed p trace_key initial_state w =
     (case res_bind (validated_plan sha closed p) (\<lambda>v. res_bind (program_executor p) (\<lambda>ex. Inr (v, ex))) of
        Inl e \<Rightarrow> (w, Inl (Raise e))
      | Inr ((receipt, digest), ex) \<Rightarrow> ainvoke_prepared p trace_key receipt digest ex initial_state w)"

definition program_ainvoke ::
  "(string \<Rightarrow> string) \<Rightarrow> ('nc \<Rightarrow> bool) \<Rightarrow> ('st, 'ck, 'nc, 'w) program \<Rightarrow> state \<Rightarrow> 'w
   \<Rightarrow> 'w \<times> (graph_exn + state)" where
  "program_ainvoke sha closed p initial_state w =
     map_prod id (map_sum id xe_state) (program_ainvoke_with_trace sha closed p None initial_state w)"

section \<open>Resumption\<close>

definition digest_mismatch :: pyerr where
  "digest_mismatch = RuntimeGraphError ''runtime graph plan digest mismatch before resume''"

definition restored ::
  "('st, 'ck, 'nc, 'w) program \<Rightarrow> graph_interrupted \<Rightarrow> string \<Rightarrow> string option \<Rightarrow> graph_interrupted" where
  "restored p i receipt digest =
     i\<lparr>gi_state := internal_state p (gi_state i), gi_validation_receipt := receipt, gi_plan_digest := digest\<rparr>"

text \<open>The synchronous guard tests \<open>if interrupted.plan_digest and ...\<close>: an empty digest is not checked.\<close>

definition program_resume_interrupted ::
  "(string \<Rightarrow> string) \<Rightarrow> ('nc \<Rightarrow> bool) \<Rightarrow> ('st, 'ck, 'nc, 'w) program \<Rightarrow> string option \<Rightarrow> graph_interrupted
   \<Rightarrow> action_result \<Rightarrow> 'w \<Rightarrow> 'w \<times> (graph_exn + graph_execution)" where
  "program_resume_interrupted sha closed p trace_key i resume_result w =
     (case validated_plan sha closed p of
        Inl e \<Rightarrow> (w, Inl (Raise e))
      | Inr (receipt, digest) \<Rightarrow>
          if gi_plan_digest i \<notin> {None, Some []} \<and> gi_plan_digest i \<noteq> digest
          then (w, Inl (Raise digest_mismatch))
          else (case program_executor p of
                  Inl e \<Rightarrow> (w, Inl (Raise e))
                | Inr ex \<Rightarrow>
                    map_prod id (map_sum id (execution receipt))
                      (resume_interrupted ex trace_key (restored p i receipt digest) resume_result w)))"

text \<open>The asynchronous guard tests \<open>interrupted.plan_digest is not None\<close>.\<close>

definition program_aresume_interrupted ::
  "(string \<Rightarrow> string) \<Rightarrow> ('nc \<Rightarrow> bool) \<Rightarrow> ('st, 'ck, 'nc, 'w) program \<Rightarrow> string option \<Rightarrow> graph_interrupted
   \<Rightarrow> action_result \<Rightarrow> 'w \<Rightarrow> 'w \<times> (graph_exn + graph_execution)" where
  "program_aresume_interrupted sha closed p trace_key i resume_result w =
     (case validated_plan sha closed p of
        Inl e \<Rightarrow> (w, Inl (Raise e))
      | Inr (receipt, digest) \<Rightarrow>
          if gi_plan_digest i \<noteq> None \<and> gi_plan_digest i \<noteq> digest
          then (w, Inl (Raise digest_mismatch))
          else (case program_executor p of
                  Inl e \<Rightarrow> (w, Inl (Raise e))
                | Inr ex \<Rightarrow>
                    map_prod id (map_sum id (execution receipt))
                      (aresume_interrupted ex trace_key (restored p i receipt digest) resume_result w)))"

section \<open>Threads\<close>

text \<open>\<open>max(steps, default=len(trace))\<close>.\<close>

definition checkpoint_from_execution :: "string \<Rightarrow> graph_execution \<Rightarrow> graph_checkpoint result" where
  "checkpoint_from_execution thread_id x =
     (let step = (if xe_events x = [] then int (length (xe_trace x)) else Max (set (map ev_step (xe_events x))))
      in res_bind (xe_plan_digest x) (\<lambda>digest.
         Inr \<lparr>ck_checkpoint_id = [], ck_thread_id = thread_id, ck_interrupt = None,
              ck_node = (if xe_trace x = [] then [] else last (xe_trace x)), ck_step = step,
              ck_state = xe_state x, ck_trace = xe_trace x, ck_pending = [], ck_events = xe_events x,
              ck_validation_receipt = xe_validation_receipt x, ck_plan_digest = digest\<rparr>))"

text \<open>What \<open>invoke_thread\<close> and \<open>ainvoke_thread\<close> do with the outcome of the run.\<close>

definition save_outcome ::
  "'s save_op \<Rightarrow> string \<Rightarrow> int \<Rightarrow> string \<Rightarrow> graph_exn + graph_execution \<Rightarrow> 's
   \<Rightarrow> 's \<times> (graph_exn + graph_execution)" where
  "save_outcome save fid now thread_id outcome s =
     (case outcome of
        Inl (Interrupted i) \<Rightarrow>
          (case save_interrupted save fid now thread_id i s of
             (s1, Inl e) \<Rightarrow> (s1, Inl (Raise e))
           | (s1, Inr _) \<Rightarrow> (s1, Inl (Interrupted i)))
      | Inl (Raise e) \<Rightarrow> (s, Inl (Raise e))
      | Inr x \<Rightarrow>
          (case checkpoint_from_execution thread_id x of
             Inl e \<Rightarrow> (s, Inl (Raise e))
           | Inr ck \<Rightarrow>
               (case save fid now ck s of
                  (s1, Inl e) \<Rightarrow> (s1, Inl (Raise e))
                | (s1, Inr _) \<Rightarrow> (s1, Inr x))))"

definition invoke_thread ::
  "(string \<Rightarrow> string) \<Rightarrow> ('nc \<Rightarrow> bool) \<Rightarrow> 's save_op \<Rightarrow> string \<Rightarrow> int \<Rightarrow> ('st, 'ck, 'nc, 'w) program
   \<Rightarrow> string option \<Rightarrow> string \<Rightarrow> state \<Rightarrow> 'w \<times> 's \<Rightarrow> ('w \<times> 's) \<times> (graph_exn + graph_execution)" where
  "invoke_thread sha closed save fid now p trace_key thread_id initial_state = (\<lambda>(w, s).
     case program_invoke_with_trace sha closed p trace_key initial_state w of
       (w1, outcome) \<Rightarrow>
         (case save_outcome save fid now thread_id outcome s of (s1, r) \<Rightarrow> ((w1, s1), r)))"

definition ainvoke_thread ::
  "(string \<Rightarrow> string) \<Rightarrow> ('nc \<Rightarrow> bool) \<Rightarrow> 's save_op \<Rightarrow> string \<Rightarrow> int \<Rightarrow> ('st, 'ck, 'nc, 'w) program
   \<Rightarrow> string option \<Rightarrow> string \<Rightarrow> state \<Rightarrow> 'w \<times> 's \<Rightarrow> ('w \<times> 's) \<times> (graph_exn + graph_execution)" where
  "ainvoke_thread sha closed save fid now p trace_key thread_id initial_state = (\<lambda>(w, s).
     case program_ainvoke_with_trace sha closed p trace_key initial_state w of
       (w1, outcome) \<Rightarrow>
         (case save_outcome save fid now thread_id outcome s of (s1, r) \<Rightarrow> ((w1, s1), r)))"

type_synonym 's clear_op = "string \<Rightarrow> 's \<Rightarrow> 's \<times> unit result"

definition clear_after ::
  "'s clear_op \<Rightarrow> bool \<Rightarrow> string \<Rightarrow> 'w \<times> (graph_exn + graph_execution) \<Rightarrow> 's
   \<Rightarrow> ('w \<times> 's) \<times> (graph_exn + graph_execution)" where
  "clear_after clr do_clear thread_id = (\<lambda>(w1, outcome) s.
     case outcome of
       Inl e \<Rightarrow> ((w1, s), Inl e)
     | Inr x \<Rightarrow>
         if do_clear
         then (case clr thread_id s of
                 (s1, Inl e) \<Rightarrow> ((w1, s1), Inl (Raise e))
               | (s1, Inr _) \<Rightarrow> ((w1, s1), Inr x))
         else ((w1, s), Inr x))"

definition resume_thread ::
  "(string \<Rightarrow> string) \<Rightarrow> ('nc \<Rightarrow> bool) \<Rightarrow> 's load_op \<Rightarrow> 's clear_op \<Rightarrow> ('st, 'ck, 'nc, 'w) program
   \<Rightarrow> string option \<Rightarrow> bool \<Rightarrow> string \<Rightarrow> action_result \<Rightarrow> 'w \<times> 's
   \<Rightarrow> ('w \<times> 's) \<times> (graph_exn + graph_execution)" where
  "resume_thread sha closed load clr p trace_key do_clear thread_id resume_result = (\<lambda>(w, s).
     case load_interrupted load s thread_id of
       Inl e \<Rightarrow> ((w, s), Inl (Raise e))
     | Inr i \<Rightarrow>
         clear_after clr do_clear thread_id
           (program_resume_interrupted sha closed p trace_key i resume_result w) s)"

definition aresume_thread ::
  "(string \<Rightarrow> string) \<Rightarrow> ('nc \<Rightarrow> bool) \<Rightarrow> 's load_op \<Rightarrow> 's clear_op \<Rightarrow> ('st, 'ck, 'nc, 'w) program
   \<Rightarrow> string option \<Rightarrow> bool \<Rightarrow> string \<Rightarrow> action_result \<Rightarrow> 'w \<times> 's
   \<Rightarrow> ('w \<times> 's) \<times> (graph_exn + graph_execution)" where
  "aresume_thread sha closed load clr p trace_key do_clear thread_id resume_result = (\<lambda>(w, s).
     case load_interrupted load s thread_id of
       Inl e \<Rightarrow> ((w, s), Inl (Raise e))
     | Inr i \<Rightarrow>
         clear_after clr do_clear thread_id
           (program_aresume_interrupted sha closed p trace_key i resume_result w) s)"

section \<open>Compiling a builder to a program\<close>

definition compile_program ::
  "('st, 'ck, 'nc) runtime \<Rightarrow> (('st, 'ck, 'nc) runtime, 'w) graph_builder \<Rightarrow> ('st, 'ck, 'nc, 'w) program" where
  "compile_program runtime b =
     \<lparr>pg_plan = builder_plan b,
      pg_bindings = \<lparr>gb_node_actions = map (\<lambda>n. (n, n)) (dict_keys (bd_nodes b)),
                     gb_state_reducers = map (\<lambda>k. (k, k)) (dict_keys (bd_reducers b))\<rparr>,
      pg_registries = \<lparr>rg_actions = bd_nodes b, rg_routers = bd_routers b, rg_reducers = bd_reducers b\<rparr>,
      pg_runtime = runtime\<rparr>"

section \<open>Lemmas\<close>

lemma validated_plan_digest:
  assumes "hex_digest sha" "validated_plan sha closed p = Inr (receipt, digest)"
  shows "digest = Some (plan_digest sha (pg_plan p) (pg_bindings p))"
    "parse_runtime_receipt receipt = Inr \<lparr>rr_version = ''poo-flow-receipt.v1'',
       rr_fields = describe_fields sha (pg_plan p) (pg_bindings p)\<rparr>"
proof -
  from assms(2) obtain r where r: "describe_runtime_graph_plan sha (pg_plan p) (pg_bindings p) = Inr receipt"
    "parse_runtime_receipt receipt = Inr r" "digest = rr_plan_digest r"
    by (auto simp: validated_plan_def describe_def res_bind_Inr_iff)
  with describe_parses [OF assms(1) r(1)] show
    "digest = Some (plan_digest sha (pg_plan p) (pg_bindings p))"
    "parse_runtime_receipt receipt = Inr \<lparr>rr_version = ''poo-flow-receipt.v1'',
       rr_fields = describe_fields sha (pg_plan p) (pg_bindings p)\<rparr>"
    by (auto simp: rr_plan_digest_def describe_fields_def)
qed

lemma plan_digest_nonempty: "hex_digest sha \<Longrightarrow> plan_digest sha p gb \<noteq> []"
  by (metis hex_digest_def plan_digest_def take_eq_Nil zero_neq_numeral list.size(3) not_numeral_le_zero)

lemma ainvoke_with_events_await:
  "ainvoke_with_events ex tk st w = invoke_with_events (await_executor ex) tk st w"
  by (simp add: ainvoke_with_events_def invoke_with_events_def arun_context_await)

text \<open>The program whose actions and routers have been awaited.\<close>

definition await_callable :: "('r, 'w) callable \<Rightarrow> ('r, 'w) callable" where
  "await_callable c = c\<lparr>ca_call1 := await_action (ca_call1 c), ca_call2 := \<lambda>r. await_action (ca_call2 c r)\<rparr>"

definition map_vals :: "('a \<Rightarrow> 'b) \<Rightarrow> ('k \<times> 'a) list \<Rightarrow> ('k \<times> 'b) list" where
  "map_vals f d = map (\<lambda>(k, v). (k, f v)) d"

lemma map_vals_simps [simp]:
  "map_vals f [] = []" "map_vals f ((k, v) # d) = (k, f v) # map_vals f d"
  "dict_get (map_vals f d) k = map_option f (dict_get d k)"
  "map fst (map_vals f d) = map fst d" "fst ` set (map_vals f d) = fst ` set d"
  "dict_set k (f v) (map_vals f d) = map_vals f (dict_set k v d)"
proof -
  show "dict_set k (f v) (map_vals f d) = map_vals f (dict_set k v d)"
    by (induction d) (auto simp: map_vals_def)
qed (force simp: map_vals_def map_of_map case_prod_beta image_iff)+

lemma bind_await_callable:
  "bind_runtime_action (await_callable c) r = await_action (bind_runtime_action c r)"
  by (simp add: bind_runtime_action_def await_callable_def)

definition await_program :: "('st, 'ck, 'nc, 'w) program \<Rightarrow> ('st, 'ck, 'nc, 'w) program" where
  "await_program p = p\<lparr>pg_registries := (pg_registries p)
     \<lparr>rg_actions := map_vals await_callable (rg_actions (pg_registries p)),
      rg_routers := map_vals await_router (rg_routers (pg_registries p))\<rparr>\<rparr>"

lemma await_program_simps [simp]:
  "pg_plan (await_program p) = pg_plan p" "pg_bindings (await_program p) = pg_bindings p"
  "pg_runtime (await_program p) = pg_runtime p"
  "rg_reducers (pg_registries (await_program p)) = rg_reducers (pg_registries p)"
  by (simp_all add: await_program_def)

lemma validated_await [simp]: "validated_plan sha closed (await_program p) = validated_plan sha closed p"
  by (simp add: validated_plan_def describe_def)

lemma resolve_nodes_map:
  "resolve_nodes ns gb (map_vals f acts) (map_vals f r) = map_sum id (map_vals f) (resolve_nodes ns gb acts r)"
  by (induction ns arbitrary: r) (simp_all split: option.splits)

lemma make_executor_await:
  "make_executor p (map_vals await_callable acts) (map_vals await_router rts) reds rt =
   map_sum id await_executor (make_executor p acts rts reds rt)"
proof -
  have "validate_actions p (map_vals await_callable acts) = validate_actions p acts"
    by (simp add: validate_actions_def)
  then show ?thesis
    by (cases "validate_plan p"; cases "validate_actions p acts")
      (simp_all add: make_executor_def await_executor_def case_prod_beta map_prod_def map_vals_def
        bind_await_callable)
qed

lemma program_executor_await:
  "program_executor (await_program p) = map_sum id await_executor (program_executor p)"
proof -
  have a: "resolve_actions (pg_plan p) (pg_bindings p) (pg_registries (await_program p)) =
    map_sum id (map_vals await_callable) (resolve_actions (pg_plan p) (pg_bindings p) (pg_registries p))"
    using resolve_nodes_map [of "plan_nodes (pg_plan p)" "pg_bindings p" await_callable
        "rg_actions (pg_registries p)" "[]"]
    by (simp add: resolve_actions_def await_program_def)
  have r: "resolve_reducers (pg_bindings p) (pg_registries (await_program p)) =
    resolve_reducers (pg_bindings p) (pg_registries p)"
    by (simp add: resolve_reducers_def)
  have t: "rg_routers (pg_registries (await_program p)) = map_vals await_router (rg_routers (pg_registries p))"
    by (simp add: await_program_def)
  show ?thesis
    by (cases "resolve_actions (pg_plan p) (pg_bindings p) (pg_registries p)";
        cases "resolve_reducers (pg_bindings p) (pg_registries p)")
      (simp_all add: program_executor_def a r t make_executor_await)
qed

lemma program_ainvoke_await:
  "program_ainvoke_with_trace sha closed p tk st w = program_invoke_with_trace sha closed (await_program p) tk st w"
proof -
  have i: "internal_state (await_program p) = internal_state p" by (simp add: internal_state_def fun_eq_iff)
  show ?thesis
    by (cases "validated_plan sha closed p"; cases "program_executor p")
      (auto simp: program_ainvoke_with_trace_def program_invoke_with_trace_def ainvoke_prepared_def
        program_executor_await i ainvoke_with_events_await split: prod.splits sum.splits graph_exn.splits)
qed

text \<open>
  Runs of a program on a thread: the asynchronous run returns the same execution or exception,
  leaves the same world and the same checkpoint store as the synchronous run of the program
  whose actions and routers have been awaited.
\<close>

theorem ainvoke_thread_is_invoke_thread:
  "ainvoke_thread sha closed save fid now p tk tid st ws =
   invoke_thread sha closed save fid now (await_program p) tk tid st ws"
  by (simp add: ainvoke_thread_def invoke_thread_def program_ainvoke_await)

text \<open>
  Compiling a builder to a program and to an executor gives the same executor.
\<close>

lemma dict_get_mid: "k \<notin> set (dict_keys xs) \<Longrightarrow> dict_get (xs @ (k, v) # ys) k = Some v"
  by (induction xs) auto

lemma ident_get: "dict_get_or (map (\<lambda>n. (n, n)) ns) k k = k"
proof -
  have "dict_get (map (\<lambda>n. (n, n)) ns) k = (if k \<in> set ns then Some k else None)" by (induction ns) auto
  then show ?thesis by (simp add: dict_get_or_def)
qed

lemma resolve_nodes_ident:
  assumes "dict_wf (xs @ ys)" "gb_node_actions gb = map (\<lambda>n. (n, n)) ns"
  shows "resolve_nodes (dict_keys ys) gb (xs @ ys) xs = Inr (xs @ ys)"
  using assms(1)
proof (induction ys arbitrary: xs)
  case (Cons kv ys)
  obtain k v where kv: "kv = (k, v)" by (cases kv)
  have a: "action_for gb k = k" using assms(2) by (simp add: action_for_def ident_get)
  from Cons.prems kv have k: "k \<notin> set (dict_keys xs)" "k \<notin> set (dict_keys ys)" by auto
  from Cons.IH [of "xs @ [kv]"] Cons.prems k show ?case
    by (simp add: kv a dict_get_mid dict_set_fresh del: map_of_append)
qed simp

lemma resolve_reducers_ident:
  assumes "dict_wf (xs @ ys)"
  shows "resolve_reducer_items (map (\<lambda>k. (k, k)) (dict_keys ys)) (xs @ ys) xs = Inr (xs @ ys)"
  using assms
proof (induction ys arbitrary: xs)
  case (Cons kv ys)
  obtain k v where kv: "kv = (k, v)" by (cases kv)
  from Cons.prems kv have k: "k \<notin> set (dict_keys xs)" "k \<notin> set (dict_keys ys)" by auto
  from Cons.IH [of "xs @ [kv]"] Cons.prems k show ?case
    by (simp add: kv dict_get_mid dict_set_fresh del: map_of_append)
qed simp

text \<open>
  A program compiled from a builder runs the same executor that the builder compiles
  directly: resolving every node and reducer through the registries finds exactly the
  builder's own actions and reducers, in order, and never fails.
\<close>

theorem compile_program_same_executor:
  assumes "dict_wf (bd_nodes b)" and "dict_wf (bd_reducers b)"
  shows "program_executor (compile_program rt b) = compile rt b"
  using resolve_nodes_ident [of "[]" "bd_nodes b" "pg_bindings (compile_program rt b)" "dict_keys (bd_nodes b)"]
    resolve_reducers_ident [of "[]" "bd_reducers b"] assms
  by (simp add: program_executor_def compile_program_def resolve_actions_def resolve_reducers_def
      builder_plan_def compile_def)

section \<open>Resuming under the right plan\<close>

lemma map_outcome_Inl: "map_prod id (map_sum f g) x = (w, Inl e) \<longleftrightarrow> (\<exists>e'. x = (w, Inl e') \<and> f e' = e)"
  by (cases x; cases "snd x") auto

lemma map_outcome_Inr: "map_prod id (map_sum f g) x = (w, Inr y) \<longleftrightarrow> (\<exists>z. x = (w, Inr z) \<and> g z = y)"
  by (cases x; cases "snd x") auto

lemma invoke_with_trace_interrupted:
  assumes "program_invoke_with_trace sha closed p tk st w = (w1, Inl (Interrupted i))"
  obtains receipt digest ex j where "validated_plan sha closed p = Inr (receipt, digest)"
    and "program_executor p = Inr ex"
    and "invoke_with_events ex tk (internal_state p st) w = (w1, Inl (Interrupted j))"
    and "i = public_interrupted j receipt digest"
proof -
  have *: "\<exists>j. e = Interrupted j \<and> i = public_interrupted j rc dg" if "publish_exn rc dg e = Interrupted i" for e rc dg
    using that by (cases e) auto
  from assms show thesis
    by (auto simp: program_invoke_with_trace_def map_outcome_Inl split: sum.splits prod.splits
        dest!: * intro: that)
qed

lemma interrupted_digest:
  assumes "hex_digest sha" "program_invoke_with_trace sha closed p tk st w = (w1, Inl (Interrupted i))"
  shows "gi_plan_digest i = Some (plan_digest sha (pg_plan p) (pg_bindings p))"
  using assms(2)
  by (rule invoke_with_trace_interrupted)
     (simp add: public_interrupted_def validated_plan_digest(1) [OF assms(1)])

text \<open>
  C33. A paused run is never resumed under another plan. If a run of a program pauses and a program
  whose nodes, edges, routes, step limit or bindings differ is asked to resume it, both the
  synchronous and the asynchronous resumption refuse with the mismatch error and run nothing:
  the world is unchanged. Hypotheses: SHA-256 returns hex text and its first 16 digits do not
  collide on the two canonical texts; the second program is itself valid.
\<close>

theorem resume_refuses_other_plan:
  assumes "hex_digest sha"
    and "program_invoke_with_trace sha closed p tk st w = (w1, Inl (Interrupted i))"
    and "validated_plan sha closed' p' = Inr v"
    and "\<not> same_plan (pg_plan p, pg_bindings p) (pg_plan p', pg_bindings p')"
    and "take 16 (sha (py_repr (canonical_tuple (pg_plan p) (pg_bindings p)))) =
         take 16 (sha (py_repr (canonical_tuple (pg_plan p') (pg_bindings p')))) \<Longrightarrow>
         py_repr (canonical_tuple (pg_plan p) (pg_bindings p)) =
         py_repr (canonical_tuple (pg_plan p') (pg_bindings p'))"
  shows "program_resume_interrupted sha closed' p' tk' i r w2 = (w2, Inl (Raise digest_mismatch)) \<and>
         program_aresume_interrupted sha closed' p' tk' i r w2 = (w2, Inl (Raise digest_mismatch))"
proof -
  obtain receipt digest where v: "v = (receipt, digest)" by (cases v)
  have "plan_digest sha (pg_plan p) (pg_bindings p) \<noteq> plan_digest sha (pg_plan p') (pg_bindings p')"
    using assms(4,5) canonical_text_inj by (auto simp: plan_digest_def)
  moreover have "gi_plan_digest i = Some (plan_digest sha (pg_plan p) (pg_bindings p))"
    by (rule interrupted_digest [OF assms(1,2)])
  ultimately show ?thesis
    using assms(3) validated_plan_digest(1) [OF assms(1) assms(3) [unfolded v]] plan_digest_nonempty [OF assms(1)]
    by (simp add: v program_resume_interrupted_def program_aresume_interrupted_def)
qed

lemma resume_same_program:
  assumes "hex_digest sha" "validated_plan sha closed p = Inr (receipt, digest)" "program_executor p = Inr ex"
    and "gi_plan_digest i = Some (plan_digest sha (pg_plan p) (pg_bindings p))"
  shows "program_resume_interrupted sha closed p tk i r w =
    map_prod id (map_sum id (execution receipt)) (resume_interrupted ex tk (restored p i receipt digest) r w)"
  using assms validated_plan_digest(1) [OF assms(1,2)] by (simp add: program_resume_interrupted_def)

section \<open>A second interruption\<close>

lemma start_and_run_node_interrupted:
  "start_and_run_node ex tk n bu cx w = (w1, em, Inl (Interrupted j)) \<Longrightarrow> gi_plan_digest j = None"
  by (auto simp: start_and_run_node_def raise_interrupted_def Let_def split: sum.splits prod.splits option.splits if_splits)

lemma run_pending_interrupted:
  "run_pending ex tk cx w = (w1, Inl (Interrupted j)) \<Longrightarrow> gi_plan_digest j = None"
proof (induction ex tk cx w rule: run_pending.induct)
  case (1 ex tk cx w)
  show ?case
  proof (cases "execute_next_event_step ex tk cx w")
    case (Pair w2 r)
    with 1 show ?thesis
      by (subst (asm) run_pending.simps)
        (auto simp: execute_next_event_step_def split: sum.splits prod.splits if_splits
          dest: start_and_run_node_interrupted)
  qed
qed


lemma run_context_interrupted:
  "run_context ex tk cx w = (w1, Inl (Interrupted j)) \<Longrightarrow> gi_plan_digest j = None"
  by (auto simp: run_context_def Let_def split: sum.splits prod.splits dest: run_pending_interrupted)

text \<open>
  A run that is interrupted again while it is resumed leaves the program as the executor raised
  it: without a plan digest, so that the next resumption is not checked, and the thread's
  store still holds the first interruption.
\<close>

lemma second_interrupt_unguarded:
  assumes "program_resume_interrupted sha closed p tk i r w = (w1, Inl (Interrupted j))"
  shows "gi_plan_digest j = None"
  using assms
  by (auto simp: program_resume_interrupted_def resume_interrupted_def Let_def map_outcome_Inl
      split: sum.splits prod.splits if_splits dest: run_context_interrupted)

lemma second_interrupt_not_saved:
  assumes "resume_thread sha closed load clr p tk do_clear t r (w, s) = ((w1, s1), Inl (Interrupted j))"
  shows "s1 = s"
  using assms
  by (auto simp: resume_thread_def clear_after_def split: sum.splits prod.splits if_splits)

section \<open>The internal key\<close>

text \<open>
  The plan that a run carries in its state is removed from the state of an execution and of an
  interruption, but the completion event of an execution still holds it.
\<close>

lemma execution_hides_plan:
  "dict_get (xe_state (execution receipt x)) plan_state_key = None"
  "dict_get (gi_state (public_interrupted i receipt digest)) plan_state_key = None"
  by (simp_all add: execution_def public_interrupted_def public_state_def case_prod_beta)

section \<open>Examples\<close>

definition demo_runtime :: "(unit, unit, unit) runtime" where
  "demo_runtime = default_runtime\<lparr>rt_backend := ''reference''\<rparr>"

definition demo_builder :: "string \<Rightarrow> unit action \<Rightarrow> ((unit, unit, unit) runtime, unit) graph_builder" where
  "demo_builder n a = set_finish_point n (set_entry_point n (add_node n (one_arg a) empty_builder))"

definition demo_program :: "string \<Rightarrow> unit action \<Rightarrow> (unit, unit, unit, unit) program" where
  "demo_program n a = compile_program demo_runtime (demo_builder n a)"

definition interruption :: "'w \<times> (graph_exn + 'b) \<Rightarrow> graph_interrupted option" where
  "interruption r = (case snd r of Inl (Interrupted i) \<Rightarrow> Some i | _ \<Rightarrow> None)"

lemma interruption_unit:
  "interruption (r :: unit \<times> (graph_exn + 'b)) = Some i \<longleftrightarrow> r = ((), Inl (Interrupted i))"
  by (cases r; cases "snd r") (auto simp: interruption_def split: graph_exn.splits)

lemma demo_program_pauses:
  obtains i where "program_invoke_with_trace demo_sha (\<lambda>_. False) (demo_program ''x'' demo_pause) None [] () =
    ((), Inl (Interrupted i))" "gi_node i = ''x''"
proof -
  have "(case interruption (program_invoke_with_trace demo_sha (\<lambda>_. False) (demo_program ''x'' demo_pause) None [] ()) of
      None \<Rightarrow> False | Some i \<Rightarrow> gi_node i = ''x'')"
    by code_simp
  then show thesis by (auto simp: interruption_unit intro: that split: option.splits)
qed

theorem compile_program_same_executor_witness:
  "program_executor (demo_program ''x'' demo_pause) = compile demo_runtime (demo_builder ''x'' demo_pause)"
  unfolding demo_program_def
  by (rule compile_program_same_executor) (simp_all add: demo_builder_def empty_builder_def add_node_def
      set_finish_point_def set_entry_point_def add_edge_def)

theorem resume_refuses_other_plan_witness:
  "\<exists>i. program_invoke_with_trace demo_sha (\<lambda>_. False) (demo_program ''x'' demo_pause) None [] () =
         ((), Inl (Interrupted i)) \<and>
       program_resume_interrupted demo_sha (\<lambda>_. False) (demo_program ''y'' demo_pause) None i RNone () =
         ((), Inl (Raise digest_mismatch))"
proof -
  obtain i where i: "program_invoke_with_trace demo_sha (\<lambda>_. False) (demo_program ''x'' demo_pause) None [] () =
    ((), Inl (Interrupted i))" by (rule demo_program_pauses)
  have "is_ok (validated_plan demo_sha (\<lambda>_. False) (demo_program ''y'' demo_pause))" by code_simp
  then obtain v where v: "validated_plan demo_sha (\<lambda>_. False) (demo_program ''y'' demo_pause) = Inr v"
    by (auto simp: is_ok_iff)
  have n: "take 16 (demo_sha (py_repr (canonical_tuple (pg_plan (demo_program ''x'' demo_pause)) (pg_bindings (demo_program ''x'' demo_pause))))) \<noteq>
    take 16 (demo_sha (py_repr (canonical_tuple (pg_plan (demo_program ''y'' demo_pause)) (pg_bindings (demo_program ''y'' demo_pause)))))"
    by code_simp
  have "\<not> same_plan (pg_plan (demo_program ''x'' demo_pause), pg_bindings (demo_program ''x'' demo_pause))
    (pg_plan (demo_program ''y'' demo_pause), pg_bindings (demo_program ''y'' demo_pause))"
    using n canonical_text_inj by metis
  from resume_refuses_other_plan [OF demo_sha_hex i v this] n i show ?thesis by blast
qed

text \<open>The completion event of an execution holds the internal plan that its state hides.\<close>

lemma execution_events_keep_plan:
  "\<exists>x. snd (program_invoke_with_trace demo_sha (\<lambda>_. False)
          (demo_program ''x'' (pure_action (demo_update ''k''))) None [] ()) = Inr x \<and>
     dict_get (xe_state x) plan_state_key = None \<and>
     (case dict_get (ev_detail (last (xe_events x))) ''state'' of
        Some (PDict d) \<Rightarrow> dict_get d plan_state_key \<noteq> None | _ \<Rightarrow> False)"
proof -
  let ?r = "snd (program_invoke_with_trace demo_sha (\<lambda>_. False)
          (demo_program ''x'' (pure_action (demo_update ''k''))) None [] ())"
  have "(case ?r of Inr x \<Rightarrow> dict_get (xe_state x) plan_state_key = None \<and>
     (case dict_get (ev_detail (last (xe_events x))) ''state'' of
        Some (PDict d) \<Rightarrow> \<not> Option.is_none (dict_get d plan_state_key) | _ \<Rightarrow> False) | Inl _ \<Rightarrow> False)"
    by code_simp
  then show ?thesis by (auto simp: Option.is_none_def split: sum.splits option.splits pyval.splits)
qed

end
