(* ===== verification/Durable_Policy.thy ===== *)
theory Durable_Policy
  imports Py_Text
begin

text \<open>
  Durable policy manifests (\<open>durable_policy.py\<close>), runtime envelopes (\<open>durable_envelope.py\<close>),
  the capability record of the Turso backend (\<open>durable_turso_backend.py\<close>) and the adapter
  receipt (\<open>durable_adapter.py\<close>): coercion from text or mapping, validation, and printing.

  A mapping value is an \<open>mval\<close>. \<open>so\<close> stands for Python's \<open>str\<close> on containers and byte
  strings, which the coercion applies to a value of the wrong shape. Quoted values in
  messages are written with plain single quotes.
\<close>

datatype mval =
    MStr string
  | MBytes string
  | MBool bool
  | MInt int
  | MNone
  | MSeq "string list"
  | MMap "(string \<times> mval) list"

section \<open>Coercions\<close>

fun mstr :: "(mval \<Rightarrow> string) \<Rightarrow> mval \<Rightarrow> string" where
  "mstr so (MStr s) = s"
| "mstr so (MBool b) = (if b then ''True'' else ''False'')"
| "mstr so (MInt i) = int_str i"
| "mstr so MNone = ''None''"
| "mstr so v = so v"

definition truthy_words :: "string list" where
  "truthy_words = [''1'', ''true'', ''yes'', ''on'']"

fun as_bool :: "(mval \<Rightarrow> string) \<Rightarrow> mval \<Rightarrow> bool" where
  "as_bool so (MBool b) = b"
| "as_bool so v = (lower (mstr so v) \<in> set truthy_words)"

fun as_bytes :: "(mval \<Rightarrow> string) \<Rightarrow> mval \<Rightarrow> string" where
  "as_bytes so (MBytes b) = b"
| "as_bytes so v = mstr so v"

fun to_int :: "mval \<Rightarrow> int result" where
  "to_int (MInt i) = Inr i"
| "to_int (MBool b) = Inr (if b then 1 else 0)"
| "to_int (MStr s) = parse_int s"
| "to_int (MBytes s) = parse_int s"
| "to_int _ = Inl (TypeError ''int() argument must be a string or a number'')"

definition optional_int :: "mval \<Rightarrow> int option result" where
  "optional_int v =
     (if v \<in> {MNone, MStr []} then Inr None else res_bind (to_int v) (\<lambda>i. Inr (Some i)))"

fun as_str_tuple :: "mval \<Rightarrow> string list result" where
  "as_str_tuple MNone = Inr []"
| "as_str_tuple (MStr s) = Inr (filter (\<lambda>p. p \<noteq> []) (map strip (split_on CHR '','' s)))"
| "as_str_tuple (MSeq xs) = Inr xs"
| "as_str_tuple (MMap d) = Inr (dict_keys d)"
| "as_str_tuple (MBytes b) = Inr (map (\<lambda>c. int_str (int (of_char c))) b)"
| "as_str_tuple _ = Inl (TypeError ''object is not iterable'')"

text \<open>\<open>value.get(a, value.get(b, default))\<close>.\<close>

definition mget2 :: "mval pydict \<Rightarrow> string \<Rightarrow> string \<Rightarrow> mval \<Rightarrow> mval" where
  "mget2 d a b v = dict_get_or d a (dict_get_or d b v)"

definition parse_line :: "string \<Rightarrow> (string \<times> string) option" where
  "parse_line raw =
     (let line = strip raw
      in if line = [] \<or> hd line = CHR ''#'' \<or> CHR ''='' \<notin> set line then None
         else (let (k, v) = split_once CHR ''='' line in Some (strip k, strip v)))"

definition parse_manifest_lines :: "string \<Rightarrow> string pydict" where
  "parse_manifest_lines value = dict_of (List.map_filter parse_line (splitlines value))"

section \<open>Policies\<close>

record durable_policy =
  pol_manifest_schema :: string
  pol_policy_id :: string
  pol_owner :: string
  pol_checkpoint_id_strategy :: string
  pol_require_plan_digest_match :: bool
  pol_history_retention_limit :: "int option"
  pol_checkpoint_store :: string
  pol_repair_mode :: string
  pol_action_classes :: "string list"
  pol_runtime_owner :: string
  pol_receipt_schema :: string
  pol_receipt_kind :: string
  pol_receipt_valid :: bool
  pol_receipt_diagnostic_count :: int
  pol_receipt :: string
  pol_backend :: "mval pydict"

definition default_action_classes :: "string list" where
  "default_action_classes = [''replayable'', ''idempotent'', ''compensatable'', ''terminal'', ''manual'']"

definition allowed_repair_modes :: "string list" where
  "allowed_repair_modes =
     [''fail-closed'', ''retry'', ''rebuild'', ''compensate'', ''quarantine'', ''manual'']"

definition policy_schema :: string where
  "policy_schema = ''poo-flow.durable.runtime-policy-manifest.v1''"

definition default_policy :: durable_policy where
  "default_policy =
     \<lparr>pol_manifest_schema = policy_schema, pol_policy_id = ''durable/default'',
      pol_owner = ''scheme'', pol_checkpoint_id_strategy = ''runtime-generated'',
      pol_require_plan_digest_match = True, pol_history_retention_limit = None,
      pol_checkpoint_store = ''runtime/checkpoint-store'', pol_repair_mode = ''fail-closed'',
      pol_action_classes = default_action_classes, pol_runtime_owner = ''marlin-agent-core'',
      pol_receipt_schema = ''poo-flow.module-system.durable-policy.receipt.v1'',
      pol_receipt_kind = ''poo-flow.durable.policy'', pol_receipt_valid = True,
      pol_receipt_diagnostic_count = 0, pol_receipt = [], pol_backend = []\<rparr>"

definition quoted :: "string \<Rightarrow> string" where
  "quoted s = CHR 0x27 # s @ [CHR 0x27]"

definition tuple_repr :: "string list \<Rightarrow> string" where
  "tuple_repr xs =
     ''('' @ str_join '', '' (map quoted xs) @ (if length xs = 1 then '','' else []) @ '')''"

definition policy_error :: "string \<Rightarrow> 'a result" where
  "policy_error msg = Inl (RuntimeDurablePolicyError msg)"

definition validate_policy :: "durable_policy \<Rightarrow> durable_policy result" where
  "validate_policy p =
     (let unsupported =
            filter (\<lambda>a. a \<notin> set default_action_classes) (pol_action_classes p)
      in if pol_owner p \<noteq> ''scheme'' then policy_error ''durable policy owner must be scheme''
         else if pol_manifest_schema p \<noteq> policy_schema
         then policy_error
                ''durable policy manifest schema must be poo-flow.durable.runtime-policy-manifest.v1''
         else if pol_checkpoint_id_strategy p \<notin> {''runtime-generated'', ''provided''}
         then policy_error ''checkpoint_id_strategy must be runtime-generated or provided''
         else if (case pol_history_retention_limit p of None \<Rightarrow> False | Some n \<Rightarrow> n < 1)
         then policy_error ''history_retention_limit must be positive''
         else if pol_checkpoint_store p = [] then policy_error ''checkpoint_store is required''
         else if pol_repair_mode p \<notin> set allowed_repair_modes
         then policy_error ''repair_mode is not supported by Scheme policy''
         else if unsupported \<noteq> []
         then policy_error (''action_classes include unsupported values: '' @ tuple_repr unsupported)
         else if \<not> pol_receipt_valid p
         then policy_error ''Scheme durable policy receipt is invalid''
         else if pol_receipt_diagnostic_count p < 0
         then policy_error ''receipt_diagnostic_count must be non-negative''
         else Inr p)"

definition backend_field_aliases :: "string pydict" where
  "backend_field_aliases =
     [(''backend-driver'', ''driver''), (''backend-concurrent-writes'', ''concurrent-writes''),
      (''backend-sync-model'', ''sync-model''), (''backend-ai-vector-search'', ''ai-vector-search''),
      (''backend-vector-index'', ''vector-index''), (''backend-vector-query'', ''vector-query'')]"

definition coerce_backend :: "mval pydict \<Rightarrow> mval pydict" where
  "coerce_backend d =
     fold (\<lambda>(fld, backend_field) b.
             case dict_get d fld of None \<Rightarrow> b | Some v \<Rightarrow> dict_set backend_field v b)
       backend_field_aliases
       (case dict_get_or d ''backend'' (MMap []) of MMap b \<Rightarrow> b | _ \<Rightarrow> [])"

definition coerce_policy_map :: "(mval \<Rightarrow> string) \<Rightarrow> mval pydict \<Rightarrow> durable_policy result" where
  "coerce_policy_map so d =
     res_bind (optional_int (mget2 d ''history_retention_limit'' ''history-retention-limit'' MNone)) (\<lambda>limit.
     res_bind (as_str_tuple (mget2 d ''action_classes'' ''action-classes'' (MSeq default_action_classes))) (\<lambda>classes.
     res_bind (to_int (mget2 d ''receipt_diagnostic_count'' ''receipt-diagnostic-count'' (MInt 0))) (\<lambda>diag.
     validate_policy
       \<lparr>pol_manifest_schema = mstr so (dict_get_or d ''manifest_schema''
          (mget2 d ''manifest-schema'' ''schema'' (MStr policy_schema))),
        pol_policy_id = mstr so (mget2 d ''policy_id'' ''policy-id'' (MStr ''durable/default'')),
        pol_owner = mstr so (dict_get_or d ''owner'' (MStr ''scheme'')),
        pol_checkpoint_id_strategy = mstr so
          (mget2 d ''checkpoint_id_strategy'' ''checkpoint-id-strategy'' (MStr ''runtime-generated'')),
        pol_require_plan_digest_match = as_bool so
          (mget2 d ''require_plan_digest_match'' ''require-plan-digest-match'' (MBool True)),
        pol_history_retention_limit = limit,
        pol_checkpoint_store = mstr so
          (mget2 d ''checkpoint_store'' ''checkpoint-store'' (MStr ''runtime/checkpoint-store'')),
        pol_repair_mode = mstr so (mget2 d ''repair_mode'' ''repair-mode'' (MStr ''fail-closed'')),
        pol_action_classes = classes,
        pol_runtime_owner = mstr so
          (mget2 d ''runtime_owner'' ''runtime-owner'' (MStr ''marlin-agent-core'')),
        pol_receipt_schema = mstr so (mget2 d ''receipt_schema'' ''receipt-schema''
          (MStr ''poo-flow.module-system.durable-policy.receipt.v1'')),
        pol_receipt_kind = mstr so
          (mget2 d ''receipt_kind'' ''receipt-kind'' (MStr ''poo-flow.durable.policy'')),
        pol_receipt_valid = as_bool so (mget2 d ''receipt_valid'' ''receipt-valid'' (MBool True)),
        pol_receipt_diagnostic_count = diag,
        pol_receipt = as_bytes so (dict_get_or d ''receipt'' (MBytes [])),
        pol_backend = coerce_backend d\<rparr>)))"

definition parse_policy_bytes :: "(mval \<Rightarrow> string) \<Rightarrow> string \<Rightarrow> durable_policy result" where
  "parse_policy_bytes so bs =
     coerce_policy_map so
       (dict_set ''receipt'' (MBytes bs) (map (\<lambda>(k, v). (k, MStr v)) (parse_manifest_lines bs)))"

datatype policy_input =
    PolNone
  | PolManifest durable_policy
  | PolBytes string
  | PolMap "mval pydict"

fun coerce_policy :: "(mval \<Rightarrow> string) \<Rightarrow> policy_input \<Rightarrow> durable_policy result" where
  "coerce_policy so PolNone = Inr default_policy"
| "coerce_policy so (PolManifest p) = validate_policy p"
| "coerce_policy so (PolBytes bs) = res_bind (parse_policy_bytes so bs) validate_policy"
| "coerce_policy so (PolMap d) = coerce_policy_map so d"

section \<open>The Turso backend\<close>

record turso_backend =
  tb_driver :: string
  tb_driver_package :: string
  tb_driver_version :: string
  tb_connection_module :: string
  tb_database :: string
  tb_concurrent_writes :: bool
  tb_sync_model :: string
  tb_ai_vector_search :: bool
  tb_vector_index :: string
  tb_vector_query :: string

definition bool_word :: "bool \<Rightarrow> string" where
  "bool_word b = (if b then ''true'' else ''false'')"

definition receipt_fields :: "turso_backend \<Rightarrow> string pydict" where
  "receipt_fields b =
     [(''driver'', tb_driver b), (''driver-package'', tb_driver_package b),
      (''driver-version'', tb_driver_version b), (''connection-module'', tb_connection_module b),
      (''concurrent-writes'', bool_word (tb_concurrent_writes b)),
      (''sync-model'', tb_sync_model b),
      (''ai-vector-search'', bool_word (tb_ai_vector_search b)),
      (''vector-index'', tb_vector_index b), (''vector-query'', tb_vector_query b)]"

text \<open>The driver version is what package metadata reports, \<open>unknown\<close> when it reports none.\<close>

definition turso_runtime_graph_backend :: "string option \<Rightarrow> string \<Rightarrow> string \<Rightarrow> turso_backend" where
  "turso_runtime_graph_backend version_metadata module_name database =
     \<lparr>tb_driver = ''turso'', tb_driver_package = ''pyturso'',
      tb_driver_version = (case version_metadata of None \<Rightarrow> ''unknown'' | Some v \<Rightarrow> v),
      tb_connection_module = module_name, tb_database = database,
      tb_concurrent_writes = True, tb_sync_model = ''local-first-push-pull'',
      tb_ai_vector_search = True, tb_vector_index = ''libsql_vector_idx'',
      tb_vector_query = ''vector_top_k''\<rparr>"

fun truthy :: "mval \<Rightarrow> bool" where
  "truthy (MStr s) = (s \<noteq> [])"
| "truthy (MBytes s) = (s \<noteq> [])"
| "truthy (MBool b) = b"
| "truthy (MInt i) = (i \<noteq> 0)"
| "truthy MNone = False"
| "truthy (MSeq xs) = (xs \<noteq> [])"
| "truthy (MMap d) = (d \<noteq> [])"

fun require_true :: "mval \<Rightarrow> bool" where
  "require_true (MBool b) = b"
| "require_true (MStr s) = (lower (strip s) \<in> set truthy_words)"
| "require_true v = truthy v"

definition check_requirement ::
  "(mval \<Rightarrow> string) \<Rightarrow> string \<Rightarrow> mval pydict \<Rightarrow> string \<Rightarrow> unit result" where
  "check_requirement so fld req actual =
     (let v = dict_get_or req fld MNone
      in if truthy v \<and> mstr so v \<noteq> actual
         then policy_error (''durable backend requires '' @ fld @ '' '' @ quoted (mstr so v)
                @ '', got '' @ quoted actual)
         else Inr ())"

definition check_capability :: "string \<Rightarrow> mval pydict \<Rightarrow> bool \<Rightarrow> unit result" where
  "check_capability fld req actual =
     (if require_true (dict_get_or req fld MNone) \<and> \<not> actual
      then policy_error (''durable backend requires '' @ fld @ '', but Turso capability is false'')
      else Inr ())"

definition validate_turso_backend_requirements ::
  "(mval \<Rightarrow> string) \<Rightarrow> mval \<Rightarrow> turso_backend \<Rightarrow> unit result" where
  "validate_turso_backend_requirements so requirements b =
     (case requirements of
        MMap req \<Rightarrow>
          if req = [] then Inr ()
          else res_bind (check_requirement so ''driver'' req (tb_driver b)) (\<lambda>_.
               res_bind (check_requirement so ''sync-model'' req (tb_sync_model b)) (\<lambda>_.
               res_bind (check_requirement so ''vector-index'' req (tb_vector_index b)) (\<lambda>_.
               res_bind (check_requirement so ''vector-query'' req (tb_vector_query b)) (\<lambda>_.
               res_bind (check_capability ''concurrent-writes'' req (tb_concurrent_writes b)) (\<lambda>_.
               check_capability ''ai-vector-search'' req (tb_ai_vector_search b))))))
      | _ \<Rightarrow> Inr ())"

end
