(* ===== verification/Durable.thy ===== *)
theory Durable
  imports Checkpoints Durable_Policy "HOL-Library.Product_Lexorder"
begin

text \<open>
  The Turso checkpointer (\<open>durable.py\<close>). Its two tables are the state: the rows of
  \<open>runtime_checkpoints\<close> (primary key: thread and checkpoint id) and of
  \<open>runtime_checkpoint_heads\<close> (primary key: thread). Each SQL statement is written out as what
  it does to the rows: \<open>insert or replace\<close> removes the row of the same key and adds the new one,
  \<open>order by\<close> sorts. The stored payload is the pickled checkpoint.

  The checkpointer discharges the laws of the locale \<open>checkpointer\<close> for every policy without
  the \<open>provided\<close> strategy, or with ids given; with a retention limit the clock has to advance
  between saves of a thread, which is where its head could otherwise be dropped.
\<close>

section \<open>Tables and operations\<close>

record ck_row =
  row_thread :: string
  row_id :: string
  row_payload :: graph_checkpoint
  row_created :: int

record turso_ckpt =
  tk_rows :: "ck_row list"
  tk_heads :: "string pydict"

definition turso_empty :: turso_ckpt where
  "turso_empty = \<lparr>tk_rows = [], tk_heads = []\<rparr>"

definition insert_or_replace :: "ck_row \<Rightarrow> ck_row list \<Rightarrow> ck_row list" where
  "insert_or_replace r rows =
     filter (\<lambda>x. \<not> (row_thread x = row_thread r \<and> row_id x = row_id r)) rows @ [r]"

text \<open>\<open>order by created_at desc, checkpoint_id desc\<close>, then the rows beyond the limit.\<close>

definition expired_ids :: "int \<Rightarrow> string \<Rightarrow> ck_row list \<Rightarrow> string list" where
  "expired_ids limit thread_id rows =
     drop (nat limit) (map row_id (rev (sort_key (\<lambda>r. (row_created r, row_id r))
       (filter (\<lambda>r. row_thread r = thread_id) rows))))"

definition enforce_retention :: "int option \<Rightarrow> string \<Rightarrow> turso_ckpt \<Rightarrow> turso_ckpt" where
  "enforce_retention limit thread_id s =
     (case limit of
        None \<Rightarrow> s
      | Some n \<Rightarrow>
          s\<lparr>tk_rows := filter (\<lambda>r. \<not> (row_thread r = thread_id
                                    \<and> row_id r \<in> set (expired_ids n thread_id (tk_rows s))))
              (tk_rows s)\<rparr>)"

definition turso_save :: "durable_policy \<Rightarrow> turso_ckpt save_op" where
  "turso_save policy fid now ck s =
     (if ck_checkpoint_id ck = [] \<and> pol_checkpoint_id_strategy policy = ''provided''
      then (s, Inl (RuntimeDurablePolicyError ''checkpoint_id is required by durable policy''))
      else (let current = ensure_id fid ck;
                row = \<lparr>row_thread = ck_thread_id current, row_id = ck_checkpoint_id current,
                       row_payload = current, row_created = now\<rparr>;
                s1 = s\<lparr>tk_rows := insert_or_replace row (tk_rows s),
                       tk_heads := dict_set (ck_thread_id current) (ck_checkpoint_id current) (tk_heads s)\<rparr>
            in (enforce_retention (pol_history_retention_limit policy) (ck_thread_id current) s1,
                Inr current)))"

definition turso_has :: "turso_ckpt \<Rightarrow> string \<Rightarrow> bool" where
  "turso_has s thread_id \<longleftrightarrow> thread_id \<in> set (dict_keys (tk_heads s))"

definition turso_load_at :: "turso_ckpt \<Rightarrow> string \<Rightarrow> string \<Rightarrow> graph_checkpoint result" where
  "turso_load_at s thread_id checkpoint_id =
     (case find (\<lambda>r. row_thread r = thread_id \<and> row_id r = checkpoint_id) (tk_rows s) of
        None \<Rightarrow> Inl (RuntimeGraphCheckpointError
                  (''missing checkpoint '' @ checkpoint_id @ '' for thread '' @ thread_id))
      | Some r \<Rightarrow> Inr (row_payload r))"

definition turso_inspect :: "turso_ckpt load_op" where
  "turso_inspect s thread_id =
     (case dict_get (tk_heads s) thread_id of
        None \<Rightarrow> Inl (RuntimeGraphCheckpointError (''missing checkpoint for thread '' @ thread_id))
      | Some checkpoint_id \<Rightarrow> turso_load_at s thread_id checkpoint_id)"

definition turso_load :: "turso_ckpt load_op" where
  "turso_load s thread_id = turso_inspect s thread_id"

definition turso_load_interrupted :: "turso_ckpt \<Rightarrow> string \<Rightarrow> graph_interrupted result" where
  "turso_load_interrupted s thread_id = res_bind (turso_inspect s thread_id) to_interrupted"

definition turso_save_interrupted ::
  "durable_policy \<Rightarrow> string \<Rightarrow> int \<Rightarrow> string \<Rightarrow> graph_interrupted \<Rightarrow> turso_ckpt
   \<Rightarrow> turso_ckpt \<times> graph_checkpoint result" where
  "turso_save_interrupted policy fid now thread_id i s =
     turso_save policy fid now
       \<lparr>ck_checkpoint_id = [], ck_thread_id = thread_id, ck_interrupt = Some (gi_interrupt i),
        ck_node = gi_node i, ck_step = gi_step i, ck_state = gi_state i, ck_trace = gi_trace i,
        ck_pending = gi_pending i, ck_events = gi_events i,
        ck_validation_receipt = gi_validation_receipt i, ck_plan_digest = gi_plan_digest i\<rparr> s"

definition turso_update_state ::
  "durable_policy \<Rightarrow> string \<Rightarrow> int \<Rightarrow> string \<Rightarrow> state \<Rightarrow> bool \<Rightarrow> turso_ckpt
   \<Rightarrow> turso_ckpt \<times> graph_checkpoint result" where
  "turso_update_state policy fid now thread_id update replace s =
     (case turso_inspect s thread_id of
        Inl e \<Rightarrow> (s, Inl e)
      | Inr ck \<Rightarrow> turso_save policy fid now (with_state_update update replace ck) s)"

definition turso_history :: "turso_ckpt \<Rightarrow> string \<Rightarrow> graph_checkpoint list" where
  "turso_history s thread_id =
     map row_payload (sort_key row_id (filter (\<lambda>r. row_thread r = thread_id) (tk_rows s)))"

definition turso_clear :: "string \<Rightarrow> turso_ckpt \<Rightarrow> turso_ckpt" where
  "turso_clear thread_id s =
     s\<lparr>tk_heads := filter (\<lambda>(t, _). t \<noteq> thread_id) (tk_heads s),
       tk_rows := filter (\<lambda>r. row_thread r \<noteq> thread_id) (tk_rows s)\<rparr>"

section \<open>The laws of a checkpointer\<close>

definition turso_invar :: "turso_ckpt \<Rightarrow> bool" where
  "turso_invar s \<longleftrightarrow>
     distinct (map (\<lambda>r. (row_thread r, row_id r)) (tk_rows s)) \<and>
     (\<forall>r \<in> set (tk_rows s). ck_thread_id (row_payload r) = row_thread r
        \<and> ck_checkpoint_id (row_payload r) = row_id r) \<and>
     (\<forall>t i. dict_get (tk_heads s) t = Some i \<longrightarrow>
        (\<exists>r \<in> set (tk_rows s). row_thread r = t \<and> row_id r = i))"

text \<open>
  The save may assign an id, and if old rows can expire, the limit is positive and every row
  of the thread is older than this save.
\<close>

definition turso_adm :: "durable_policy \<Rightarrow> string \<Rightarrow> int \<Rightarrow> graph_checkpoint \<Rightarrow> turso_ckpt \<Rightarrow> bool" where
  "turso_adm policy fid now ck s \<longleftrightarrow>
     \<not> (ck_checkpoint_id ck = [] \<and> pol_checkpoint_id_strategy policy = ''provided'') \<and>
     (case pol_history_retention_limit policy of
        None \<Rightarrow> True
      | Some n \<Rightarrow> 1 \<le> n \<and>
          (\<forall>r \<in> set (tk_rows s). row_thread r = ck_thread_id ck \<longrightarrow> row_created r < now))"

abbreviation row_key :: "ck_row \<Rightarrow> string \<times> string" where
  "row_key r \<equiv> (row_thread r, row_id r)"

definition new_row :: "string \<Rightarrow> int \<Rightarrow> graph_checkpoint \<Rightarrow> ck_row" where
  "new_row fid now ck =
     \<lparr>row_thread = ck_thread_id ck, row_id = ck_checkpoint_id (ensure_id fid ck),
      row_payload = ensure_id fid ck, row_created = now\<rparr>"

lemma new_row_simps [simp]:
  "row_thread (new_row fid now ck) = ck_thread_id ck"
  "row_id (new_row fid now ck) = ck_checkpoint_id (ensure_id fid ck)"
  "row_payload (new_row fid now ck) = ensure_id fid ck"
  "row_created (new_row fid now ck) = now"
  by (simp_all add: new_row_def)

lemma turso_save_adm:
  assumes "turso_adm policy fid now ck s"
  shows "turso_save policy fid now ck s =
    (enforce_retention (pol_history_retention_limit policy) (ck_thread_id ck)
       (s\<lparr>tk_rows := insert_or_replace (new_row fid now ck) (tk_rows s),
          tk_heads := dict_set (ck_thread_id ck) (ck_checkpoint_id (ensure_id fid ck)) (tk_heads s)\<rparr>),
     Inr (ensure_id fid ck))"
  using assms by (simp add: turso_save_def turso_adm_def new_row_def Let_def)

lemma find_row:
  assumes "distinct (map row_key rows)" "r \<in> set rows"
  shows "find (\<lambda>x. row_thread x = row_thread r \<and> row_id x = row_id r) rows = Some r"
  using assms
proof (induction rows)
  case (Cons x rows)
  then show ?case by (auto simp: image_iff)
qed simp

lemma turso_inspect_row:
  assumes "turso_invar s" "dict_get (tk_heads s) t = Some i"
  obtains r where "r \<in> set (tk_rows s)" "row_thread r = t" "row_id r = i"
    "turso_inspect s t = Inr (row_payload r)"
proof -
  from assms obtain r where r: "r \<in> set (tk_rows s)" "row_thread r = t" "row_id r = i"
    unfolding turso_invar_def by blast
  moreover have "find (\<lambda>x. row_thread x = t \<and> row_id x = i) (tk_rows s) = Some r"
    using find_row [of "tk_rows s" r] r assms(1) by (simp add: turso_invar_def)
  ultimately show thesis using that assms(2) by (simp add: turso_inspect_def turso_load_at_def)
qed

text \<open>The newest row of a thread is the first in expiry order, so a positive limit keeps it.\<close>

lemma newest_not_expired:
  assumes "1 \<le> n" and "r \<in> set rows" and "row_thread r = t"
    and newest: "\<And>x. x \<in> set rows \<Longrightarrow> row_thread x = t \<Longrightarrow> x \<noteq> r \<Longrightarrow> row_created x < row_created r"
    and "distinct (map row_key rows)"
  shows "row_id r \<notin> set (expired_ids n t rows)"
proof -
  let ?k = "\<lambda>r. (row_created r, row_id r)"
  let ?f = "filter (\<lambda>r. row_thread r = t) rows"
  let ?s = "sort_key ?k ?f"
  have "r \<in> set ?s" using assms(2,3) by simp
  then have ne: "?s \<noteq> []" by (metis empty_iff list.set(1))
  have "sorted (map ?k ?s)" by simp
  moreover have "?s = butlast ?s @ [last ?s]" using ne by simp
  ultimately have "\<forall>x \<in> set (butlast ?s). ?k x \<le> ?k (last ?s)"
    by (metis (no_types, lifting) sorted_append list.set_map imageI list.set_intros(1)
        map_append list.simps(9))
  with \<open>r \<in> set ?s\<close> have le: "?k r \<le> ?k (last ?s)"
    by (metis (no_types, lifting) append_butlast_last_id ne order_refl rotate1.simps(2) set_ConsD set_rotate1)
  have "last ?s \<in> set ?f" using ne last_in_set by fastforce
  then have last: "last ?s \<in> set rows" "row_thread (last ?s) = t" by auto
  have "last ?s = r"
  proof (rule ccontr)
    assume "last ?s \<noteq> r"
    from newest [OF last this] le show False by (auto simp: less_eq_prod_def)
  qed
  then have rev: "rev ?s = r # rev (butlast ?s)"
    using ne by (metis append_butlast_last_id rev.simps(2) rev_rev_ident rev_append append_Cons
        append_Nil)
  have dist: "distinct (map row_id ?s)"
  proof -
    have "inj_on row_id (set ?f)"
      using assms(5) by (auto simp: distinct_map inj_on_def)
    moreover have "distinct ?f" using assms(5) by (simp add: distinct_map)
    ultimately show ?thesis by (simp add: distinct_map)
  qed
  then have "distinct (map row_id (rev ?s))" by (simp add: rev_map [symmetric])
  then have "row_id r \<notin> set (map row_id (rev (butlast ?s)))" unfolding rev by simp
  moreover from assms(1) have "set (expired_ids n t rows) \<subseteq> set (map row_id (rev (butlast ?s)))"
    unfolding expired_ids_def rev by (cases "nat n") (auto dest: in_set_dropD)
  ultimately show ?thesis by blast
qed

lemma turso_inspect_in:
  assumes "turso_invar s" "r \<in> set (tk_rows s)" "dict_get (tk_heads s) (row_thread r) = Some (row_id r)"
  shows "turso_inspect s (row_thread r) = Inr (row_payload r)"
  using assms find_row [of "tk_rows s" r]
  by (simp add: turso_invar_def turso_inspect_def turso_load_at_def)

lemma distinct_map_filter_key: "distinct (map f xs) \<Longrightarrow> distinct (map f (filter P xs))"
  by (induction xs) auto

lemma insert_or_replace_wf:
  "distinct (map row_key rows) \<Longrightarrow> distinct (map row_key (insert_or_replace r rows))"
  by (auto simp: insert_or_replace_def distinct_map_filter_key)

lemma turso_save_rows:
  assumes "turso_invar s" "turso_adm policy fid now ck s" "turso_save policy fid now ck s = (s', x)"
  shows "distinct (map row_key (tk_rows s'))" "new_row fid now ck \<in> set (tk_rows s')"
    "set (tk_rows s') \<subseteq> insert (new_row fid now ck) (set (tk_rows s))"
    "row_thread r \<noteq> ck_thread_id ck \<Longrightarrow> r \<in> set (tk_rows s') \<longleftrightarrow> r \<in> set (tk_rows s)"
    "tk_heads s' = dict_set (ck_thread_id ck) (ck_checkpoint_id (ensure_id fid ck)) (tk_heads s)"
proof -
  let ?n = "new_row fid now ck"
  let ?rows = "insert_or_replace ?n (tk_rows s)"
  have d: "distinct (map row_key ?rows)"
    using assms(1) by (intro insert_or_replace_wf) (simp add: turso_invar_def)
  have set: "set ?rows = {r \<in> set (tk_rows s). row_key r \<noteq> row_key ?n} \<union> {?n}"
    by (auto simp: insert_or_replace_def)
  have keep: "row_id ?n \<notin> set (expired_ids n (ck_thread_id ck) ?rows)"
    if "pol_history_retention_limit policy = Some n" for n
    using that assms(2) set by (intro newest_not_expired [OF _ _ _ _ d]) (auto simp: turso_adm_def)
  from assms(3) have s': "s' = enforce_retention (pol_history_retention_limit policy) (ck_thread_id ck)
       (s\<lparr>tk_rows := ?rows,
          tk_heads := dict_set (ck_thread_id ck) (ck_checkpoint_id (ensure_id fid ck)) (tk_heads s)\<rparr>)"
    by (simp add: turso_save_adm [OF assms(2)])
  show "distinct (map row_key (tk_rows s'))"
    using d by (auto simp: s' enforce_retention_def distinct_map_filter_key split: option.splits)
  show "?n \<in> set (tk_rows s')"
    using set keep by (auto simp: s' enforce_retention_def split: option.splits)
  show "set (tk_rows s') \<subseteq> insert ?n (set (tk_rows s))"
    using set by (auto simp: s' enforce_retention_def split: option.splits)
  show "r \<in> set (tk_rows s') \<longleftrightarrow> r \<in> set (tk_rows s)" if "row_thread r \<noteq> ck_thread_id ck"
    using set that by (auto simp: s' enforce_retention_def split: option.splits)
  show "tk_heads s' = dict_set (ck_thread_id ck) (ck_checkpoint_id (ensure_id fid ck)) (tk_heads s)"
    by (simp add: s' enforce_retention_def split: option.splits)
qed

lemma turso_save_invar:
  assumes "turso_invar s" "turso_adm policy fid now ck s" "turso_save policy fid now ck s = (s', x)"
  shows "turso_invar s'"
proof -
  note rows = turso_save_rows [OF assms]
  have "\<exists>r \<in> set (tk_rows s'). row_thread r = t \<and> row_id r = i" if "dict_get (tk_heads s') t = Some i" for t i
  proof (cases "t = ck_thread_id ck")
    case True
    with that rows(2,5) show ?thesis by (intro bexI [of _ "new_row fid now ck"]) auto
  next
    case False
    with that rows(5) have "dict_get (tk_heads s) t = Some i" by simp
    with assms(1) obtain r where "r \<in> set (tk_rows s)" "row_thread r = t" "row_id r = i"
      unfolding turso_invar_def by blast
    with rows(4) [of r] False show ?thesis by blast
  qed
  moreover have "ck_thread_id (row_payload r) = row_thread r \<and> ck_checkpoint_id (row_payload r) = row_id r"
    if "r \<in> set (tk_rows s')" for r
    using that rows(3) assms(1) by (auto simp: turso_invar_def)
  ultimately show ?thesis using rows(1) by (simp add: turso_invar_def)
qed

lemma turso_save_inspect:
  assumes "turso_invar s" "turso_adm policy fid now ck s" "turso_save policy fid now ck s = (s', x)"
  shows "turso_inspect s' t = (if t = ck_thread_id ck then Inr (ensure_id fid ck) else turso_inspect s t)"
proof -
  note rows = turso_save_rows [OF assms]
  note inv' = turso_save_invar [OF assms]
  show ?thesis
  proof (cases "t = ck_thread_id ck")
    case True
    with turso_inspect_in [OF inv' rows(2)] rows(5) show ?thesis by simp
  next
    case False
    show ?thesis
    proof (cases "dict_get (tk_heads s) t")
      case None
      with False rows(5) show ?thesis by (simp add: turso_inspect_def)
    next
      case (Some i)
      then obtain r where r: "r \<in> set (tk_rows s)" "row_thread r = t" "row_id r = i"
        "turso_inspect s t = Inr (row_payload r)"
        using turso_inspect_row [OF assms(1)] by blast
      moreover from r False rows(4) [of r] have "r \<in> set (tk_rows s')" by simp
      ultimately show ?thesis
        using turso_inspect_in [OF inv', of r] rows(5) Some False by simp
    qed
  qed
qed

lemma turso_clear_rows:
  assumes "turso_invar s"
  shows "turso_invar (turso_clear t s)"
    "ok_option (turso_inspect (turso_clear t s) t') = (if t' = t then None else ok_option (turso_inspect s t'))"
proof -
  have heads: "dict_get (tk_heads (turso_clear t s)) u = (if u = t then None else dict_get (tk_heads s) u)" for u
  proof -
    have "dict_get (filter (\<lambda>(k, _). k \<noteq> t) d) u = (if u = t then None else dict_get d u)"
      for d :: "string pydict"
      by (induction d) auto
    then show ?thesis by (simp add: turso_clear_def)
  qed
  have rows: "r \<in> set (tk_rows (turso_clear t s)) \<longleftrightarrow> r \<in> set (tk_rows s) \<and> row_thread r \<noteq> t" for r
    by (auto simp: turso_clear_def)
  have hd: "\<exists>r \<in> set (tk_rows (turso_clear t s)). row_thread r = u \<and> row_id r = i"
    if "dict_get (tk_heads (turso_clear t s)) u = Some i" for u i
  proof -
    from that heads have u: "u \<noteq> t" "dict_get (tk_heads s) u = Some i" by (auto split: if_splits)
    from turso_inspect_row [OF assms u(2)] obtain r where
      "r \<in> set (tk_rows s)" "row_thread r = u" "row_id r = i" by blast
    with u(1) rows [of r] show ?thesis by blast
  qed
  have "distinct (map row_key (tk_rows (turso_clear t s)))"
    using assms by (simp add: turso_invar_def turso_clear_def distinct_map_filter_key)
  with hd show inv: "turso_invar (turso_clear t s)"
    using assms rows by (simp add: turso_invar_def)
  show "ok_option (turso_inspect (turso_clear t s) t') = (if t' = t then None else ok_option (turso_inspect s t'))"
  proof (cases "t' = t \<or> dict_get (tk_heads s) t' = None")
    case True
    then show ?thesis using heads [of t'] by (auto simp: turso_inspect_def)
  next
    case False
    then obtain i where i: "dict_get (tk_heads s) t' = Some i" "t' \<noteq> t" by auto
    then obtain r where r: "r \<in> set (tk_rows s)" "row_thread r = t'" "row_id r = i"
      "turso_inspect s t' = Inr (row_payload r)"
      using turso_inspect_row [OF assms] by blast
    with i rows [of r] heads [of t'] turso_inspect_in [OF inv, of r] show ?thesis by simp
  qed
qed

interpretation tursoc: checkpointer "turso_save policy" turso_load turso_load_at turso_has turso_clear
  turso_invar "\<lambda>_. True" "turso_adm policy"
  for policy
proof (unfold_locales, goal_cases)
  case (1 s ck fid now)
  then show ?case using turso_save_invar [of s policy fid now ck] by (simp add: turso_save_adm)
next
  case (2 s ck fid now t)
  then show ?case
    using turso_save_inspect [OF 2(1,3) prod.collapse [symmetric], of t] by (simp add: turso_load_def)
next
  case (3 s ck fid now)
  let ?s' = "fst (turso_save policy fid now ck s)"
  have "turso_save policy fid now ck s = (?s', snd (turso_save policy fid now ck s))" by simp
  note rows = turso_save_rows [OF 3(1,3) this]
  from find_row [OF rows(1,2)] show ?case by (simp add: turso_load_at_def)
next
  case (4 s t ck)
  then obtain i where i: "dict_get (tk_heads s) t = Some i"
    by (auto simp: turso_load_def turso_inspect_def split: option.splits)
  from turso_inspect_row [OF 4(1) i] obtain r where
    "r \<in> set (tk_rows s)" "row_thread r = t" "turso_inspect s t = Inr (row_payload r)" .
  with 4 show ?case by (auto simp: turso_load_def turso_invar_def)
next
  case (5 s t)
  show ?case
  proof (cases "dict_get (tk_heads s) t")
    case None
    moreover from None have "t \<notin> fst ` set (tk_heads s)" by (simp add: map_of_eq_None_iff)
    ultimately show ?thesis by (simp add: turso_load_def turso_inspect_def turso_has_def)
  next
    case (Some i)
    then have "t \<in> fst ` set (tk_heads s)" by (metis domI dom_map_of_conv_image_fst)
    moreover have "\<exists>ck. turso_inspect s t = Inr ck"
      by (rule turso_inspect_row [OF 5(1) Some], rule exI)
    ultimately show ?thesis by (auto simp: turso_load_def turso_has_def)
  qed
next
  case (6 s t)
  then show ?case by (simp add: turso_clear_rows)
next
  case (7 s t t')
  then show ?case by (simp add: turso_load_def turso_clear_rows)
qed

section \<open>Properties\<close>


definition turso_demo_policy :: durable_policy where
  "turso_demo_policy = default_policy\<lparr>pol_history_retention_limit := Some 1\<rparr>"




text \<open>
  Two saves of one thread in the same clock tick can leave a dangling head: under a limit of
  one the tie is broken by the id, and the newer checkpoint is the one deleted.
\<close>

lemma turso_dangling_head:
  "let s = fst (turso_save turso_demo_policy ''x'' 7 (demo_ckpt ''a'' ''t'' 2)
             (fst (turso_save turso_demo_policy ''x'' 7 (demo_ckpt ''b'' ''t'' 1) turso_empty)))
   in turso_has s ''t'' \<and> \<not> is_ok (turso_load s ''t'')"
  by code_simp

end
