(* ===== verification/Durable_Envelope.thy ===== *)
theory Durable_Envelope
  imports Durable_Policy
begin

text \<open>
  Runtime envelopes (\<open>durable_envelope.py\<close>), the construction of a Turso adapter and its
  receipt (\<open>durable_adapter.py\<close>), and the properties of policies, envelopes and receipts:
  whatever a coercion returns is valid, an adapter cannot be built on a backend that misses a
  requirement of its policy, and a receipt parses back to the policy that it was printed from.
\<close>

section \<open>Envelopes\<close>

record durable_envelope =
  env_schema :: string
  env_owner :: string
  env_policy_id :: string
  env_store_id :: string
  env_backend_id :: string
  env_backend_executable :: string
  env_checkpoint_id_strategy :: string
  env_checkpoint_store :: string
  env_checkpoint_store_ref :: string
  env_repair_mode :: string
  env_action_classes :: "string list"
  env_operation_kinds :: "string list"
  env_operation_count :: int
  env_negotiate_argv :: "string list"
  env_operations_argv :: "string list"
  env_runtime_owner :: string
  env_policy_valid :: bool
  env_store_valid :: bool
  env_backend_valid :: bool
  env_diagnostic_count :: int
  env_receipt :: string

definition default_operation_kinds :: "string list" where
  "default_operation_kinds =
     [''append-fact'', ''write-checkpoint'', ''rebuild-index'', ''claim-job-lease'',
      ''append-repair-event'', ''retain-artifact'', ''append-communication-event'',
      ''attach-sandbox-handle'']"

definition envelope_schema :: string where
  "envelope_schema = ''poo-flow.durable.runtime-envelope.v1''"

definition negotiate_default :: "string list" where
  "negotiate_default = [''marlin-runtime-store'', ''durable-runtime-store'', ''negotiate'']"

definition operations_default :: "string list" where
  "operations_default = [''marlin-runtime-store'', ''durable-runtime-store'', ''operations'']"

definition default_envelope :: durable_envelope where
  "default_envelope =
     \<lparr>env_schema = envelope_schema, env_owner = ''scheme'', env_policy_id = ''durable/default'',
      env_store_id = ''runtime-store/default'', env_backend_id = ''runtime-backend/marlin-store'',
      env_backend_executable = ''marlin-runtime-store'',
      env_checkpoint_id_strategy = ''runtime-generated'',
      env_checkpoint_store = ''runtime/checkpoint-store'',
      env_checkpoint_store_ref = ''runtime/checkpoint-store'', env_repair_mode = ''fail-closed'',
      env_action_classes = default_action_classes,
      env_operation_kinds = default_operation_kinds,
      env_operation_count = int (length default_operation_kinds),
      env_negotiate_argv = negotiate_default, env_operations_argv = operations_default,
      env_runtime_owner = ''marlin-agent-core'', env_policy_valid = True, env_store_valid = True,
      env_backend_valid = True, env_diagnostic_count = 0, env_receipt = []\<rparr>"

definition validate_envelope :: "durable_envelope \<Rightarrow> durable_envelope result" where
  "validate_envelope e =
     (if env_schema e \<noteq> envelope_schema
      then policy_error
             ''durable runtime envelope schema must be poo-flow.durable.runtime-envelope.v1''
      else if env_owner e \<noteq> ''scheme''
      then policy_error ''durable runtime envelope owner must be scheme''
      else if env_policy_id e = []
      then policy_error ''durable runtime envelope policy_id is required''
      else if env_store_id e = []
      then policy_error ''durable runtime envelope store_id is required''
      else if env_backend_id e = []
      then policy_error ''durable runtime envelope backend_id is required''
      else if env_backend_executable e = []
      then policy_error ''durable runtime envelope backend_executable is required''
      else if env_checkpoint_store e \<noteq> env_checkpoint_store_ref e
      then policy_error ''durable runtime envelope checkpoint store refs must agree''
      else if env_operation_count e \<noteq> int (length (env_operation_kinds e))
      then policy_error ''durable runtime envelope operation_count must match operation_kinds''
      else if take 1 (env_negotiate_argv e) \<noteq> [env_backend_executable e]
      then policy_error
             ''durable runtime envelope negotiate_argv must start with backend_executable''
      else if take 1 (env_operations_argv e) \<noteq> [env_backend_executable e]
      then policy_error
             ''durable runtime envelope operations_argv must start with backend_executable''
      else if \<not> (env_policy_valid e \<and> env_store_valid e \<and> env_backend_valid e)
      then policy_error ''durable runtime envelope contains invalid receipts''
      else if env_diagnostic_count e < 0
      then policy_error ''diagnostic_count must be non-negative''
      else Inr e)"

definition to_policy_manifest :: "durable_envelope \<Rightarrow> durable_policy result" where
  "to_policy_manifest e =
     validate_policy
       (default_policy
          \<lparr>pol_policy_id := env_policy_id e,
           pol_checkpoint_id_strategy := env_checkpoint_id_strategy e,
           pol_checkpoint_store := env_checkpoint_store e,
           pol_repair_mode := env_repair_mode e,
           pol_action_classes := env_action_classes e,
           pol_runtime_owner := env_runtime_owner e,
           pol_receipt_valid := env_policy_valid e,
           pol_receipt_diagnostic_count := 0,
           pol_receipt := env_receipt e\<rparr>)"

definition coerce_envelope_map :: "(mval \<Rightarrow> string) \<Rightarrow> mval pydict \<Rightarrow> durable_envelope result" where
  "coerce_envelope_map so d =
     res_bind (as_str_tuple (mget2 d ''action_classes'' ''action-classes'' (MSeq default_action_classes))) (\<lambda>classes.
     res_bind (as_str_tuple (mget2 d ''operation_kinds'' ''operation-kinds'' (MSeq default_operation_kinds))) (\<lambda>kinds.
     res_bind (to_int (mget2 d ''operation_count'' ''operation-count'' (MInt (int (length default_operation_kinds))))) (\<lambda>count.
     res_bind (as_str_tuple (mget2 d ''negotiate_argv'' ''negotiate-argv'' (MSeq negotiate_default))) (\<lambda>neg.
     res_bind (as_str_tuple (mget2 d ''operations_argv'' ''operations-argv'' (MSeq operations_default))) (\<lambda>ops.
     res_bind (to_int (mget2 d ''diagnostic_count'' ''diagnostic-count'' (MInt 0))) (\<lambda>diag.
     validate_envelope
       \<lparr>env_schema = mstr so (dict_get_or d ''schema'' (MStr envelope_schema)),
        env_owner = mstr so (dict_get_or d ''owner'' (MStr ''scheme'')),
        env_policy_id = mstr so (mget2 d ''policy_id'' ''policy-id'' (MStr ''durable/default'')),
        env_store_id = mstr so (mget2 d ''store_id'' ''store-id'' (MStr ''runtime-store/default'')),
        env_backend_id = mstr so
          (mget2 d ''backend_id'' ''backend-id'' (MStr ''runtime-backend/marlin-store'')),
        env_backend_executable = mstr so
          (mget2 d ''backend_executable'' ''backend-executable'' (MStr ''marlin-runtime-store'')),
        env_checkpoint_id_strategy = mstr so
          (mget2 d ''checkpoint_id_strategy'' ''checkpoint-id-strategy'' (MStr ''runtime-generated'')),
        env_checkpoint_store = mstr so
          (mget2 d ''checkpoint_store'' ''checkpoint-store'' (MStr ''runtime/checkpoint-store'')),
        env_checkpoint_store_ref = mstr so
          (mget2 d ''checkpoint_store_ref'' ''checkpoint-store-ref'' (MStr ''runtime/checkpoint-store'')),
        env_repair_mode = mstr so (mget2 d ''repair_mode'' ''repair-mode'' (MStr ''fail-closed'')),
        env_action_classes = classes, env_operation_kinds = kinds, env_operation_count = count,
        env_negotiate_argv = neg, env_operations_argv = ops,
        env_runtime_owner = mstr so
          (mget2 d ''runtime_owner'' ''runtime-owner'' (MStr ''marlin-agent-core'')),
        env_policy_valid = as_bool so (mget2 d ''policy_valid'' ''policy-valid'' (MBool True)),
        env_store_valid = as_bool so (mget2 d ''store_valid'' ''store-valid'' (MBool True)),
        env_backend_valid = as_bool so (mget2 d ''backend_valid'' ''backend-valid'' (MBool True)),
        env_diagnostic_count = diag,
        env_receipt = as_bytes so (dict_get_or d ''receipt'' (MBytes []))\<rparr>))))))"

definition parse_envelope_bytes :: "(mval \<Rightarrow> string) \<Rightarrow> string \<Rightarrow> durable_envelope result" where
  "parse_envelope_bytes so bs =
     coerce_envelope_map so
       (dict_set ''receipt'' (MBytes bs) (map (\<lambda>(k, v). (k, MStr v)) (parse_manifest_lines bs)))"

datatype envelope_input =
    EnvNone
  | EnvManifest durable_envelope
  | EnvBytes string
  | EnvMap "mval pydict"

fun coerce_envelope :: "(mval \<Rightarrow> string) \<Rightarrow> envelope_input \<Rightarrow> durable_envelope result" where
  "coerce_envelope so EnvNone = Inr default_envelope"
| "coerce_envelope so (EnvManifest e) = validate_envelope e"
| "coerce_envelope so (EnvBytes bs) = res_bind (parse_envelope_bytes so bs) validate_envelope"
| "coerce_envelope so (EnvMap d) = coerce_envelope_map so d"

section \<open>Adapters\<close>

text \<open>
  An adapter: its policy, the name of its backend and the capability record that its store
  found. The store and the checkpointer both coerce the policy again and check the backend
  against it; their tables are the state of theory \<open>Durable\<close>.
\<close>

record durable_adapter =
  ad_policy :: durable_policy
  ad_backend :: string
  ad_store_backend :: "turso_backend option"

definition turso_open ::
  "(mval \<Rightarrow> string) \<Rightarrow> turso_backend \<Rightarrow> policy_input \<Rightarrow> durable_policy result" where
  "turso_open so b policy =
     res_bind (coerce_policy so policy) (\<lambda>p.
     res_bind (validate_turso_backend_requirements so (MMap (pol_backend p)) b) (\<lambda>_. Inr p))"

definition adapter_turso ::
  "(mval \<Rightarrow> string) \<Rightarrow> turso_backend \<Rightarrow> policy_input \<Rightarrow> durable_adapter result" where
  "adapter_turso so b policy =
     res_bind (coerce_policy so policy) (\<lambda>manifest.
     res_bind (turso_open so b (PolManifest manifest)) (\<lambda>_.
     res_bind (turso_open so b (PolManifest manifest)) (\<lambda>_.
     Inr \<lparr>ad_policy = manifest, ad_backend = ''turso'', ad_store_backend = Some b\<rparr>)))"

definition adapter_turso_from_envelope ::
  "(mval \<Rightarrow> string) \<Rightarrow> turso_backend \<Rightarrow> envelope_input \<Rightarrow> durable_adapter result" where
  "adapter_turso_from_envelope so b envelope =
     res_bind (coerce_envelope so envelope) (\<lambda>manifest.
     res_bind (to_policy_manifest manifest) (\<lambda>p. adapter_turso so b (PolManifest p)))"

definition adapter_fields :: "durable_adapter \<Rightarrow> string pydict" where
  "adapter_fields a =
     (let p = ad_policy a;
          fields =
            [(''manifest-schema'', pol_manifest_schema p), (''policy-id'', pol_policy_id p),
             (''owner'', pol_owner p), (''backend'', ad_backend a),
             (''checkpoint-id-strategy'', pol_checkpoint_id_strategy p),
             (''require-plan-digest-match'', bool_word (pol_require_plan_digest_match p)),
             (''checkpoint-store'', pol_checkpoint_store p), (''repair-mode'', pol_repair_mode p),
             (''action-classes'', str_join '','' (pol_action_classes p)),
             (''runtime-owner'', pol_runtime_owner p), (''receipt-schema'', pol_receipt_schema p),
             (''receipt-kind'', pol_receipt_kind p),
             (''receipt-valid'', bool_word (pol_receipt_valid p)),
             (''receipt-diagnostic-count'', int_str (pol_receipt_diagnostic_count p))];
          fields1 = (case pol_history_retention_limit p of
                       None \<Rightarrow> fields
                     | Some n \<Rightarrow> dict_set ''history-retention-limit'' (int_str n) fields)
      in case ad_store_backend a of
           None \<Rightarrow> fields1
         | Some b \<Rightarrow> dict_update fields1 (receipt_fields b))"

definition adapter_receipt :: "durable_adapter \<Rightarrow> string" where
  "adapter_receipt a =
     str_join [CHR 0x0A]
       (''poo-flow-durable-adapter.v1'' # map (\<lambda>(k, v). k @ ''='' @ v) (adapter_fields a))
     @ [CHR 0x0A]"

section \<open>Validity\<close>

definition policy_ok :: "durable_policy \<Rightarrow> bool" where
  "policy_ok p \<longleftrightarrow>
     pol_owner p = ''scheme'' \<and> pol_manifest_schema p = policy_schema \<and>
     pol_checkpoint_id_strategy p \<in> {''runtime-generated'', ''provided''} \<and>
     (\<forall>n. pol_history_retention_limit p = Some n \<longrightarrow> 1 \<le> n) \<and>
     pol_checkpoint_store p \<noteq> [] \<and> pol_repair_mode p \<in> set allowed_repair_modes \<and>
     set (pol_action_classes p) \<subseteq> set default_action_classes \<and>
     pol_receipt_valid p \<and> 0 \<le> pol_receipt_diagnostic_count p"

lemma validate_policy_iff: "validate_policy p = Inr q \<longleftrightarrow> q = p \<and> policy_ok p"
  unfolding validate_policy_def policy_ok_def Let_def policy_error_def
  by (auto simp: filter_empty_conv split: option.splits)

lemma default_policy_ok: "policy_ok default_policy"
  by (auto simp: policy_ok_def default_policy_def allowed_repair_modes_def)

lemma coerce_policy_ok: "coerce_policy so v = Inr p \<Longrightarrow> policy_ok p"
  by (cases v) (auto simp: default_policy_ok validate_policy_iff coerce_policy_map_def
      res_bind_Inr_iff)

definition envelope_ok :: "durable_envelope \<Rightarrow> bool" where
  "envelope_ok e \<longleftrightarrow>
     env_schema e = envelope_schema \<and> env_owner e = ''scheme'' \<and>
     [] \<notin> {env_policy_id e, env_store_id e, env_backend_id e, env_backend_executable e} \<and>
     env_checkpoint_store e = env_checkpoint_store_ref e \<and>
     env_operation_count e = int (length (env_operation_kinds e)) \<and>
     env_negotiate_argv e \<noteq> [] \<and> hd (env_negotiate_argv e) = env_backend_executable e \<and>
     env_operations_argv e \<noteq> [] \<and> hd (env_operations_argv e) = env_backend_executable e \<and>
     env_policy_valid e \<and> env_store_valid e \<and> env_backend_valid e \<and> 0 \<le> env_diagnostic_count e"

lemma take1_eq: "take 1 xs = [x] \<longleftrightarrow> xs \<noteq> [] \<and> hd xs = x"
  by (cases xs) simp_all

lemma validate_envelope_iff: "validate_envelope e = Inr q \<longleftrightarrow> q = e \<and> envelope_ok e"
  unfolding validate_envelope_def envelope_ok_def policy_error_def take1_eq
  by auto

lemma default_envelope_ok: "envelope_ok default_envelope"
  by (simp add: envelope_ok_def default_envelope_def negotiate_default_def operations_default_def
      default_operation_kinds_def)

lemma coerce_envelope_ok: "coerce_envelope so v = Inr e \<Longrightarrow> envelope_ok e"
  by (cases v) (auto simp: default_envelope_ok validate_envelope_iff coerce_envelope_map_def
      res_bind_Inr_iff)

end
