(* ===== verification/Durable_Threads.thy ===== *)
theory Durable_Threads
  imports Program Durable Durable_Envelope
begin

text \<open>
  The operations of the durable adapter on threads (\<open>durable_adapter.py\<close>): every one is
  forwarded to the adapter's Turso checkpointer, and runs and resumptions to the program with
  that checkpointer. The property at the end composes the program, the checkpointer's
  contract and the plan digest: a run that paused on the adapter's thread resumes from there.
\<close>

section \<open>Adapter operations\<close>

definition adapter_has :: "durable_adapter \<Rightarrow> turso_ckpt \<Rightarrow> string \<Rightarrow> bool" where
  "adapter_has a s thread_id = turso_has s thread_id"

definition adapter_inspect :: "durable_adapter \<Rightarrow> turso_ckpt \<Rightarrow> string \<Rightarrow> graph_checkpoint result" where
  "adapter_inspect a s thread_id = turso_inspect s thread_id"

definition adapter_history :: "durable_adapter \<Rightarrow> turso_ckpt \<Rightarrow> string \<Rightarrow> graph_checkpoint list" where
  "adapter_history a s thread_id = turso_history s thread_id"

definition adapter_load_at :: "durable_adapter \<Rightarrow> turso_ckpt \<Rightarrow> string \<Rightarrow> string \<Rightarrow> graph_checkpoint result" where
  "adapter_load_at a s thread_id checkpoint_id = turso_load_at s thread_id checkpoint_id"

definition adapter_update_state ::
  "durable_adapter \<Rightarrow> string \<Rightarrow> int \<Rightarrow> string \<Rightarrow> state \<Rightarrow> bool \<Rightarrow> turso_ckpt \<Rightarrow> turso_ckpt \<times> graph_checkpoint result" where
  "adapter_update_state a fid now thread_id update replace s =
     turso_update_state (ad_policy a) fid now thread_id update replace s"

definition adapter_clear :: "durable_adapter \<Rightarrow> string \<Rightarrow> turso_ckpt \<Rightarrow> turso_ckpt" where
  "adapter_clear a thread_id s = turso_clear thread_id s"

definition adapter_invoke_thread ::
  "(string \<Rightarrow> string) \<Rightarrow> ('nc \<Rightarrow> bool) \<Rightarrow> durable_adapter \<Rightarrow> string \<Rightarrow> int \<Rightarrow> ('st, 'ck, 'nc, 'w) program
   \<Rightarrow> string option \<Rightarrow> string \<Rightarrow> state \<Rightarrow> 'w \<times> turso_ckpt
   \<Rightarrow> ('w \<times> turso_ckpt) \<times> (graph_exn + graph_execution)" where
  "adapter_invoke_thread sha closed a fid now p trace_key thread_id initial_state =
     invoke_thread sha closed (turso_save (ad_policy a)) fid now p trace_key thread_id initial_state"

definition adapter_ainvoke_thread ::
  "(string \<Rightarrow> string) \<Rightarrow> ('nc \<Rightarrow> bool) \<Rightarrow> durable_adapter \<Rightarrow> string \<Rightarrow> int \<Rightarrow> ('st, 'ck, 'nc, 'w) program
   \<Rightarrow> string option \<Rightarrow> string \<Rightarrow> state \<Rightarrow> 'w \<times> turso_ckpt
   \<Rightarrow> ('w \<times> turso_ckpt) \<times> (graph_exn + graph_execution)" where
  "adapter_ainvoke_thread sha closed a fid now p trace_key thread_id initial_state =
     ainvoke_thread sha closed (turso_save (ad_policy a)) fid now p trace_key thread_id initial_state"

definition turso_clear_op :: "turso_ckpt clear_op" where
  "turso_clear_op thread_id s = (turso_clear thread_id s, Inr ())"

definition adapter_resume_thread ::
  "(string \<Rightarrow> string) \<Rightarrow> ('nc \<Rightarrow> bool) \<Rightarrow> durable_adapter \<Rightarrow> ('st, 'ck, 'nc, 'w) program
   \<Rightarrow> string option \<Rightarrow> bool \<Rightarrow> string \<Rightarrow> action_result \<Rightarrow> 'w \<times> turso_ckpt
   \<Rightarrow> ('w \<times> turso_ckpt) \<times> (graph_exn + graph_execution)" where
  "adapter_resume_thread sha closed a p trace_key do_clear thread_id resume_result =
     resume_thread sha closed turso_load turso_clear_op p trace_key do_clear thread_id resume_result"

definition adapter_aresume_thread ::
  "(string \<Rightarrow> string) \<Rightarrow> ('nc \<Rightarrow> bool) \<Rightarrow> durable_adapter \<Rightarrow> ('st, 'ck, 'nc, 'w) program
   \<Rightarrow> string option \<Rightarrow> bool \<Rightarrow> string \<Rightarrow> action_result \<Rightarrow> 'w \<times> turso_ckpt
   \<Rightarrow> ('w \<times> turso_ckpt) \<times> (graph_exn + graph_execution)" where
  "adapter_aresume_thread sha closed a p trace_key do_clear thread_id resume_result =
     aresume_thread sha closed turso_load turso_clear_op p trace_key do_clear thread_id resume_result"

section \<open>Threads on a checkpointer\<close>

context checkpointer
begin

lemma paused_thread_saved:
  assumes "invar s" "tid_ok t" "adm fid now (from_interrupted t i) s"
    and "invoke_thread sha closed save fid now p tk t st (w, s) = ((w1, s1), Inl (Interrupted i))"
  shows "load_interrupted load s1 t = Inr i" "invar s1" "program_invoke_with_trace sha closed p tk st w = (w1, Inl (Interrupted i))"
proof -
  obtain o' where o': "program_invoke_with_trace sha closed p tk st w = (w1, o')"
    "save_outcome save fid now t o' s = (s1, Inl (Interrupted i))"
    using assms(4) by (auto simp: invoke_thread_def split: prod.splits)
  then have "o' = Inl (Interrupted i)" "\<exists>x. save_interrupted save fid now t i s = (s1, x)"
    by (auto simp: save_outcome_def split: sum.splits graph_exn.splits prod.splits)
  with o' show "program_invoke_with_trace sha closed p tk st w = (w1, Inl (Interrupted i))" by simp
  from \<open>\<exists>x. _ = (s1, x)\<close> obtain x where x: "save_interrupted save fid now t i s = (s1, x)" ..
  from interrupted_roundtrip [OF assms(1-3) x] show "load_interrupted load s1 t = Inr i" .
  from save_ok [of s "from_interrupted t i" fid now] x assms(1-3) show "invar s1"
    by (auto simp: save_interrupted_def)
qed

text \<open>A paused thread resumes exactly where it stopped; a completed resumption forgets the thread.\<close>

lemma thread_resumes:
  assumes "hex_digest sha" "invar s" "tid_ok t" "adm fid now (from_interrupted t i) s"
    and "invoke_thread sha closed save fid now p tk t st (w, s) = ((w1, s1), Inl (Interrupted i))"
  shows "\<exists>receipt digest ex. validated_plan sha closed p = Inr (receipt, digest) \<and> program_executor p = Inr ex \<and>
    resume_thread sha closed load (\<lambda>t s. (clear t s, Inr ())) p tk' True t r (w2, s1) =
      (case resume_interrupted ex tk' (restored p i receipt digest) r w2 of
         (w3, Inl e) \<Rightarrow> ((w3, s1), Inl e)
       | (w3, Inr x) \<Rightarrow> ((w3, clear t s1), Inr (execution receipt x)))"
proof -
  note s = paused_thread_saved [OF assms(2-5)]
  from s(3) obtain receipt digest ex where v: "validated_plan sha closed p = Inr (receipt, digest)"
    "program_executor p = Inr ex" by (rule invoke_with_trace_interrupted)
  note d = interrupted_digest [OF assms(1) s(3)]
  show ?thesis
    by (intro exI [of _ receipt] exI [of _ digest] exI [of _ ex])
      (simp add: v resume_thread_def s(1) resume_same_program [OF assms(1) v d] clear_after_def
        split: prod.splits sum.splits)
qed

end


definition demo_adapter :: durable_adapter where
  "demo_adapter = \<lparr>ad_policy = default_policy, ad_backend = ''turso'', ad_store_backend = None\<rparr>"

lemma demo_thread_pauses:
  obtains i s1 where "adapter_invoke_thread demo_sha (\<lambda>_. False) demo_adapter ''c1'' 7
    (demo_program ''x'' demo_pause) None ''t'' [] ((), turso_empty) = (((), s1), Inl (Interrupted i))"
proof -
  let ?r = "adapter_invoke_thread demo_sha (\<lambda>_. False) demo_adapter ''c1'' 7
    (demo_program ''x'' demo_pause) None ''t'' [] ((), turso_empty)"
  have "(case interruption ?r of None \<Rightarrow> False | Some _ \<Rightarrow> True)" by code_simp
  then show thesis
    by (cases ?r; cases "fst ?r")
      (auto simp: interruption_def intro: that split: option.splits sum.splits graph_exn.splits)
qed


end
