(* ===== verification/Stores.thy ===== *)
theory Stores
  imports Graph_State "HOL-Library.Product_Lexorder"
begin

text \<open>
  The namespaced key-value stores (\<open>stores.py\<close>): the memory store and the file store. The clock
  is an argument, SHA-256 a parameter. The locale \<open>kv_store\<close> is the contract of a store: it
  behaves like a finite map from namespace and key to items (\<open>view\<close>), a put keeps the creation
  time of the item it replaces, \<open>list\<close> and \<open>search\<close> return exactly the items of a namespace
  and of a namespace prefix. Derived inside it: any sequence of puts and deletes refines the
  map, and what has been put is found under every prefix of its namespace.
\<close>

type_synonym namespace = "string list"

record store_item =
  si_namespace :: namespace
  si_key :: string
  si_value :: pyval
  si_created_at :: int
  si_updated_at :: int

type_synonym store_map = "namespace \<times> string \<rightharpoonup> store_item"

definition normalize_namespace :: "namespace \<Rightarrow> namespace result" where
  "normalize_namespace ns =
     (if ns = []
      then Inl (RuntimeGraphStoreError ''runtime graph store namespace must not be empty'')
      else if list_ex (\<lambda>part. part = []) ns
      then Inl (RuntimeGraphStoreError ''runtime graph store namespace parts must be non-empty'')
      else Inr ns)"

definition ns_valid :: "namespace \<Rightarrow> bool" where
  "ns_valid ns \<longleftrightarrow> ns \<noteq> [] \<and> [] \<notin> set ns"

lemma normalize_namespace_simps [simp]:
  "ns_valid ns \<Longrightarrow> normalize_namespace ns = Inr ns"
  "normalize_namespace ns = Inr m \<longleftrightarrow> ns_valid ns \<and> m = ns"
  by (auto simp: normalize_namespace_def ns_valid_def list_ex_iff)

section \<open>The contract\<close>

definition put_item :: "store_map \<Rightarrow> int \<Rightarrow> namespace \<Rightarrow> string \<Rightarrow> pyval \<Rightarrow> store_item" where
  "put_item m now ns k v =
     \<lparr>si_namespace = ns, si_key = k, si_value = v,
      si_created_at = (case m (ns, k) of None \<Rightarrow> now | Some i \<Rightarrow> si_created_at i),
      si_updated_at = now\<rparr>"

datatype kv_op = OpPut int namespace string pyval | OpDel namespace string

fun kv_spec :: "kv_op \<Rightarrow> store_map \<Rightarrow> store_map" where
  "kv_spec (OpPut now ns k v) m = m((ns, k) \<mapsto> put_item m now ns k v)"
| "kv_spec (OpDel ns k) m = m((ns, k) := None)"

fun kv_exec ::
  "(int \<Rightarrow> namespace \<Rightarrow> string \<Rightarrow> pyval \<Rightarrow> 's \<Rightarrow> 's \<times> store_item result)
   \<Rightarrow> (namespace \<Rightarrow> string \<Rightarrow> 's \<Rightarrow> 's \<times> unit result) \<Rightarrow> kv_op \<Rightarrow> 's \<Rightarrow> 's" where
  "kv_exec put delete (OpPut now ns k v) s = fst (put now ns k v s)"
| "kv_exec put delete (OpDel ns k) s = fst (delete ns k s)"

fun kv_op_ok :: "(namespace \<Rightarrow> string \<Rightarrow> bool) \<Rightarrow> kv_op \<Rightarrow> bool" where
  "kv_op_ok ok (OpPut now ns k v) = ok ns k"
| "kv_op_ok ok (OpDel ns k) = ok ns k"

definition has_prefix :: "namespace \<Rightarrow> namespace \<Rightarrow> bool" where
  "has_prefix p ns \<longleftrightarrow> take (length p) ns = p"

locale kv_store =
  fixes put :: "int \<Rightarrow> namespace \<Rightarrow> string \<Rightarrow> pyval \<Rightarrow> 's \<Rightarrow> 's \<times> store_item result"
    and get :: "'s \<Rightarrow> namespace \<Rightarrow> string \<Rightarrow> store_item option result"
    and delete :: "namespace \<Rightarrow> string \<Rightarrow> 's \<Rightarrow> 's \<times> unit result"
    and list :: "'s \<Rightarrow> namespace \<Rightarrow> store_item list result"
    and search :: "'s \<Rightarrow> namespace \<Rightarrow> store_item list result"
    and view :: "'s \<Rightarrow> store_map"
    and invar :: "'s \<Rightarrow> bool"
    and ok :: "namespace \<Rightarrow> string \<Rightarrow> bool"
    and prefix_ok :: "namespace \<Rightarrow> bool"
  assumes get_view: "invar s \<Longrightarrow> ok ns k \<Longrightarrow> get s ns k = Inr (view s (ns, k))"
    and put_view: "invar s \<Longrightarrow> ok ns k \<Longrightarrow>
      \<exists>s'. put now ns k v s = (s', Inr (put_item (view s) now ns k v)) \<and> invar s' \<and>
           view s' = (view s)((ns, k) \<mapsto> put_item (view s) now ns k v)"
    and delete_view: "invar s \<Longrightarrow> ok ns k \<Longrightarrow>
      \<exists>s'. delete ns k s = (s', Inr ()) \<and> invar s' \<and> view s' = (view s)((ns, k) := None)"
    and list_view: "invar s \<Longrightarrow> ok ns k \<Longrightarrow>
      \<exists>xs. list s ns = Inr xs \<and> distinct xs \<and> set xs = {i. \<exists>k. view s (ns, k) = Some i}"
    and search_view: "invar s \<Longrightarrow> prefix_ok p \<Longrightarrow>
      \<exists>xs. search s p = Inr xs \<and> distinct xs \<and>
           set xs = {i. \<exists>ns k. view s (ns, k) = Some i \<and> has_prefix p ns}"
begin

lemma exec_view:
  "invar s \<Longrightarrow> kv_op_ok ok op \<Longrightarrow>
   invar (kv_exec put delete op s) \<and> view (kv_exec put delete op s) = kv_spec op (view s)"
proof (cases op)
  case (OpPut now ns k v)
  assume "invar s" "kv_op_ok ok op"
  with OpPut put_view [of s ns k now v] show ?thesis by auto
next
  case (OpDel ns k)
  assume "invar s" "kv_op_ok ok op"
  with OpDel delete_view [of s ns k] show ?thesis by auto
qed

lemma refines:
  "invar s \<Longrightarrow> list_all (kv_op_ok ok) ops \<Longrightarrow>
   invar (fold (kv_exec put delete) ops s) \<and>
   view (fold (kv_exec put delete) ops s) = fold kv_spec ops (view s)"
  by (induction ops arbitrary: s) (simp_all add: exec_view)

lemma get_after:
  assumes "invar s" "list_all (kv_op_ok ok) ops" "ok ns k"
  shows "get (fold (kv_exec put delete) ops s) ns k = Inr (fold kv_spec ops (view s) (ns, k))"
  using refines [OF assms(1,2)] get_view assms(3) by simp

lemma search_after:
  assumes "invar s" "list_all (kv_op_ok ok) ops" "prefix_ok p"
  shows "\<exists>xs. search (fold (kv_exec put delete) ops s) p = Inr xs \<and> distinct xs \<and>
    set xs = {i. \<exists>ns k. fold kv_spec ops (view s) (ns, k) = Some i \<and> has_prefix p ns}"
  using refines [OF assms(1,2)] search_view [OF _ assms(3), of "fold (kv_exec put delete) ops s"]
  by simp

end

section \<open>The memory store\<close>

type_synonym mem_store = "((namespace \<times> string) \<times> store_item) list"

definition mem_put :: "int \<Rightarrow> namespace \<Rightarrow> string \<Rightarrow> pyval \<Rightarrow> mem_store \<Rightarrow> mem_store \<times> store_item result" where
  "mem_put now namespace key val s =
     (case normalize_namespace namespace of
        Inl e \<Rightarrow> (s, Inl e)
      | Inr ns \<Rightarrow>
          if key = [] then (s, Inl (RuntimeGraphStoreError ''runtime graph store key must not be empty''))
          else (let previous = dict_get s (ns, key);
                    item = \<lparr>si_namespace = ns, si_key = key, si_value = val,
                            si_created_at = (case previous of None \<Rightarrow> now | Some p \<Rightarrow> si_created_at p),
                            si_updated_at = now\<rparr>
                in (dict_set (ns, key) item s, Inr item)))"

definition mem_get :: "mem_store \<Rightarrow> namespace \<Rightarrow> string \<Rightarrow> store_item option result" where
  "mem_get s namespace key =
     res_bind (normalize_namespace namespace) (\<lambda>ns. Inr (dict_get s (ns, key)))"

definition mem_delete :: "namespace \<Rightarrow> string \<Rightarrow> mem_store \<Rightarrow> mem_store \<times> unit result" where
  "mem_delete namespace key s =
     (case normalize_namespace namespace of
        Inl e \<Rightarrow> (s, Inl e)
      | Inr ns \<Rightarrow> (dict_pop (ns, key) s, Inr ()))"

definition mem_list :: "mem_store \<Rightarrow> namespace \<Rightarrow> store_item list result" where
  "mem_list s namespace =
     res_bind (normalize_namespace namespace) (\<lambda>ns.
       Inr (map snd (filter (\<lambda>((n, _), _). n = ns) (sort_key fst s))))"

definition mem_search :: "mem_store \<Rightarrow> namespace \<Rightarrow> store_item list result" where
  "mem_search s namespace_prefix =
     res_bind (normalize_namespace namespace_prefix) (\<lambda>p.
       Inr (map snd (filter (\<lambda>((n, _), _). take (length p) n = p) (sort_key fst s))))"

definition mem_store_invar :: "mem_store \<Rightarrow> bool" where
  "mem_store_invar s \<longleftrightarrow> dict_wf s \<and>
     (\<forall>ns k i. dict_get s (ns, k) = Some i \<longrightarrow> si_namespace i = ns \<and> si_key i = k)"

lemma mem_store_in:
  assumes "mem_store_invar s"
  shows "((ns, k), i) \<in> set s \<longleftrightarrow> dict_get s (ns, k) = Some i"
  using assms by (simp add: mem_store_invar_def map_of_eq_Some_iff)

lemma mem_store_inj: "mem_store_invar s \<Longrightarrow> inj_on snd (set s)"
proof (rule inj_onI)
  fix x y assume inv: "mem_store_invar s" and xy: "x \<in> set s" "y \<in> set s" "snd x = snd y"
  have "fst z = (si_namespace (snd z), si_key (snd z))" if "z \<in> set s" for z
  proof -
    obtain ns k i where z: "z = ((ns, k), i)" by (metis prod.collapse)
    with that inv have "dict_get s (ns, k) = Some i" by (simp add: mem_store_in)
    with inv z show ?thesis by (simp add: mem_store_invar_def)
  qed
  from this [OF xy(1)] this [OF xy(2)] xy(3) show "x = y" by (simp add: prod_eq_iff)
qed

lemma mem_filter_items:
  assumes "mem_store_invar s"
  shows "distinct (map snd (filter P (sort_key fst s)))"
    "set (map snd (filter (\<lambda>((n, _), _). Q n) (sort_key fst s))) =
       {i. \<exists>ns k. dict_get s (ns, k) = Some i \<and> Q ns}"
proof -
  have "distinct s" using assms by (auto simp: mem_store_invar_def distinct_map)
  moreover have "inj_on snd (set (filter P s))"
    using mem_store_inj [OF assms] by (auto intro: inj_on_subset)
  ultimately show "distinct (map snd (filter P (sort_key fst s)))" by (simp add: distinct_map)
  show "set (map snd (filter (\<lambda>((n, _), _). Q n) (sort_key fst s))) =
       {i. \<exists>ns k. dict_get s (ns, k) = Some i \<and> Q ns}"
    by (force simp: mem_store_in [OF assms, symmetric])
qed

interpretation mems: kv_store mem_put mem_get mem_delete mem_list mem_search dict_get
  mem_store_invar "\<lambda>ns k. ns_valid ns \<and> k \<noteq> []" ns_valid
proof (unfold_locales, goal_cases)
  case (1 s ns k)
  then show ?case by (simp add: mem_get_def)
next
  case (2 s ns k now v)
  let ?i = "put_item (map_of s) now ns k v"
  have "mem_put now ns k v s = (dict_set (ns, k) ?i s, Inr ?i)"
    using 2 by (simp add: mem_put_def put_item_def Let_def)
  moreover have "mem_store_invar (dict_set (ns, k) ?i s)"
    using 2 by (auto simp: mem_store_invar_def put_item_def)
  ultimately show ?case by (auto simp: update_conv')
next
  case (3 s ns k)
  then show ?case by (auto simp: mem_delete_def mem_store_invar_def delete_conv')
next
  case (4 s ns k)
  then show ?case
    using mem_filter_items(1) [OF 4(1)] mem_filter_items(2) [OF 4(1), of "\<lambda>n. n = ns"] by (auto simp: mem_list_def)
next
  case (5 s p)
  then show ?case
    using mem_filter_items(1) [OF 5(1)] mem_filter_items(2) [OF 5(1), of "has_prefix p"] by (auto simp: mem_search_def has_prefix_def)
qed

end
