(* ===== verification/File_Store.thy ===== *)
theory File_Store
  imports Stores
begin

text \<open>
  The file store (\<open>FileRuntimeGraphStore\<close> of \<open>stores.py\<close>) as a provider of the store contract,
  and the properties of the memory and the file store.
\<close>

section \<open>The file store\<close>

text \<open>The root directory: namespace directories by digest, each with its pickled items by name.\<close>

datatype store_pickled = PickledItem store_item | PickledNoItem

type_synonym store_root = "(string \<times> (string \<times> store_pickled) list) list"

definition store_namespace_dir :: "(string \<Rightarrow> string) \<Rightarrow> namespace \<Rightarrow> string" where
  "store_namespace_dir sha256 ns = sha256 (str_join [CHR 0x00] ns)"

definition store_path :: "(string \<Rightarrow> string) \<Rightarrow> string \<Rightarrow> string" where
  "store_path sha256 key = sha256 key @ ''.store.pickle''"

definition load_item :: "store_pickled \<Rightarrow> store_item result" where
  "load_item x =
     (case x of
        PickledItem i \<Rightarrow> Inr i
      | PickledNoItem \<Rightarrow> Inl (RuntimeGraphStoreError ''invalid runtime graph store item''))"

definition fstore_get ::
  "(string \<Rightarrow> string) \<Rightarrow> store_root \<Rightarrow> namespace \<Rightarrow> string \<Rightarrow> store_item option result" where
  "fstore_get sha256 s namespace key =
     res_bind (normalize_namespace namespace) (\<lambda>ns.
       case dict_get (dd_get s (store_namespace_dir sha256 ns)) (store_path sha256 key) of
         None \<Rightarrow> Inr None
       | Some x \<Rightarrow> res_bind (load_item x) (\<lambda>i. Inr (Some i)))"

definition fstore_put ::
  "(string \<Rightarrow> string) \<Rightarrow> int \<Rightarrow> namespace \<Rightarrow> string \<Rightarrow> pyval \<Rightarrow> store_root
   \<Rightarrow> store_root \<times> store_item result" where
  "fstore_put sha256 now namespace key val s =
     (case normalize_namespace namespace of
        Inl e \<Rightarrow> (s, Inl e)
      | Inr ns \<Rightarrow>
          if key = [] then (s, Inl (RuntimeGraphStoreError ''runtime graph store key must not be empty''))
          else (case fstore_get sha256 s ns key of
                  Inl e \<Rightarrow> (s, Inl e)
                | Inr previous \<Rightarrow>
                    (let item = \<lparr>si_namespace = ns, si_key = key, si_value = val,
                           si_created_at = (case previous of None \<Rightarrow> now | Some p \<Rightarrow> si_created_at p),
                           si_updated_at = now\<rparr>;
                         d = store_namespace_dir sha256 ns
                     in (dict_set d (dict_set (store_path sha256 key) (PickledItem item) (dd_get s d)) s,
                         Inr item))))"

definition fstore_delete ::
  "(string \<Rightarrow> string) \<Rightarrow> namespace \<Rightarrow> string \<Rightarrow> store_root \<Rightarrow> store_root \<times> unit result" where
  "fstore_delete sha256 namespace key s =
     (case normalize_namespace namespace of
        Inl e \<Rightarrow> (s, Inl e)
      | Inr ns \<Rightarrow>
          (let d = store_namespace_dir sha256 ns
           in case dict_get s d of
                None \<Rightarrow> (s, Inr ())
              | Some files \<Rightarrow> (dict_set d (dict_pop (store_path sha256 key) files) s, Inr ())))"

definition fstore_list ::
  "(string \<Rightarrow> string) \<Rightarrow> store_root \<Rightarrow> namespace \<Rightarrow> store_item list result" where
  "fstore_list sha256 s namespace =
     res_bind (normalize_namespace namespace) (\<lambda>ns.
       res_map (\<lambda>(_, x). load_item x)
         (sort_key fst (filter (\<lambda>(n, _). ends_with n ''.store.pickle'')
            (dd_get s (store_namespace_dir sha256 ns)))))"

definition store_files :: "store_root \<Rightarrow> ((string \<times> string) \<times> store_pickled) list" where
  "store_files s = concat (map (\<lambda>(d, files). map (\<lambda>(n, x). ((d, n), x)) files) s)"

definition fstore_search ::
  "store_root \<Rightarrow> namespace \<Rightarrow> store_item list result" where
  "fstore_search s namespace_prefix =
     res_bind (normalize_namespace namespace_prefix) (\<lambda>p.
     res_bind (res_map (\<lambda>(_, x). load_item x)
        (sort_key fst (filter (\<lambda>((_, n), _). ends_with n ''.store.pickle'') (store_files s)))) (\<lambda>items.
     Inr (filter (\<lambda>i. take (length p) (si_namespace i) = p) items)))"

text \<open>
  The digest does not collide on the namespaces and on the keys in use, and every file is
  the pickled item of its own path.
\<close>

definition fstore_ok :: "namespace set \<Rightarrow> string set \<Rightarrow> namespace \<Rightarrow> string \<Rightarrow> bool" where
  "fstore_ok N K ns k \<longleftrightarrow> ns \<in> N \<and> k \<in> K \<and> ns_valid ns \<and> k \<noteq> []"

definition fstore_invar :: "(string \<Rightarrow> string) \<Rightarrow> namespace set \<Rightarrow> string set \<Rightarrow> store_root \<Rightarrow> bool" where
  "fstore_invar sha256 N K s \<longleftrightarrow>
     inj_on (store_namespace_dir sha256) N \<and> inj_on sha256 K \<and>
     dict_wf s \<and> (\<forall>d. dict_wf (dd_get s d)) \<and>
     (\<forall>d n x. dict_get (dd_get s d) n = Some x \<longrightarrow>
        (\<exists>i. x = PickledItem i \<and> fstore_ok N K (si_namespace i) (si_key i) \<and>
             d = store_namespace_dir sha256 (si_namespace i) \<and> n = store_path sha256 (si_key i)))"

definition fstore_view ::
  "(string \<Rightarrow> string) \<Rightarrow> namespace set \<Rightarrow> string set \<Rightarrow> store_root \<Rightarrow> store_map" where
  "fstore_view sha256 N K s = (\<lambda>(ns, k).
     if fstore_ok N K ns k
     then (case dict_get (dd_get s (store_namespace_dir sha256 ns)) (store_path sha256 k) of
             Some (PickledItem i) \<Rightarrow> Some i | _ \<Rightarrow> None)
     else None)"

lemma fstore_path_inj:
  assumes "fstore_invar sha256 N K s" "fstore_ok N K ns k" "fstore_ok N K ns' k'"
  shows "store_namespace_dir sha256 ns = store_namespace_dir sha256 ns' \<longleftrightarrow> ns = ns'"
    "store_path sha256 k = store_path sha256 k' \<longleftrightarrow> k = k'"
  using assms by (auto simp: fstore_invar_def fstore_ok_def store_path_def inj_on_def)

lemma fstore_file:
  assumes "fstore_invar sha256 N K s" "dict_get (dd_get s d) n = Some x"
  obtains i where "x = PickledItem i" "fstore_ok N K (si_namespace i) (si_key i)"
    "d = store_namespace_dir sha256 (si_namespace i)" "n = store_path sha256 (si_key i)"
  using assms unfolding fstore_invar_def by blast

lemma fstore_view_iff:
  assumes "fstore_invar sha256 N K s"
  shows "fstore_view sha256 N K s (ns, k) = Some i \<longleftrightarrow>
    fstore_ok N K ns k \<and> si_namespace i = ns \<and> si_key i = k \<and>
    dict_get (dd_get s (store_namespace_dir sha256 ns)) (store_path sha256 k) = Some (PickledItem i)"
proof
  assume "fstore_view sha256 N K s (ns, k) = Some i"
  then have ok: "fstore_ok N K ns k" and
    l: "dict_get (dd_get s (store_namespace_dir sha256 ns)) (store_path sha256 k) = Some (PickledItem i)"
    by (auto simp: fstore_view_def split: if_splits option.splits store_pickled.splits)
  from fstore_file [OF assms l] have "fstore_ok N K (si_namespace i) (si_key i)"
    "store_namespace_dir sha256 ns = store_namespace_dir sha256 (si_namespace i)"
    "store_path sha256 k = store_path sha256 (si_key i)" by auto
  with fstore_path_inj [OF assms ok this(1)] ok l show
    "fstore_ok N K ns k \<and> si_namespace i = ns \<and> si_key i = k \<and>
     dict_get (dd_get s (store_namespace_dir sha256 ns)) (store_path sha256 k) = Some (PickledItem i)"
    by simp
qed (auto simp: fstore_view_def)

lemma fstore_get_view:
  assumes "fstore_invar sha256 N K s" "fstore_ok N K ns k"
  shows "fstore_get sha256 s ns k = Inr (fstore_view sha256 N K s (ns, k))"
proof (cases "dict_get (dd_get s (store_namespace_dir sha256 ns)) (store_path sha256 k)")
  case None
  with assms(2) show ?thesis by (simp add: fstore_get_def fstore_view_def fstore_ok_def)
next
  case (Some x)
  with fstore_file [OF assms(1) Some] obtain i where "x = PickledItem i" by blast
  with Some assms(2) show ?thesis
    by (simp add: fstore_get_def fstore_view_def fstore_ok_def load_item_def)
qed

lemma dd_get_set: "dd_get (dict_set d xs s) d' = (if d' = d then xs else dd_get s d')"
  by (simp add: dd_get_def)

lemma fstore_write:
  assumes inv: "fstore_invar sha256 N K s" and ok: "fstore_ok N K ns k"
    and i: "\<And>i. v = Some i \<Longrightarrow> si_namespace i = ns \<and> si_key i = k"
    and s': "s' = dict_set (store_namespace_dir sha256 ns)
       (case v of None \<Rightarrow> dict_pop (store_path sha256 k) (dd_get s (store_namespace_dir sha256 ns))
        | Some i \<Rightarrow> dict_set (store_path sha256 k) (PickledItem i) (dd_get s (store_namespace_dir sha256 ns))) s"
  shows "fstore_invar sha256 N K s'" "fstore_view sha256 N K s' = (fstore_view sha256 N K s)((ns, k) := v)"
proof -
  let ?d = "store_namespace_dir sha256 ns"
  let ?n = "store_path sha256 k"
  have l: "dict_get (dd_get s' d) n =
      (if d = ?d \<and> n = ?n then map_option PickledItem v else dict_get (dd_get s d) n)" for d n
    by (auto simp: s' dd_get_set split: option.splits)
  have "dict_wf (dd_get s' d)" for d
    using inv by (auto simp: s' dd_get_set fstore_invar_def split: option.splits)
  then show "fstore_invar sha256 N K s'"
    using inv ok i unfolding fstore_invar_def l
    by (auto simp: s' split: if_splits)
  show "fstore_view sha256 N K s' = (fstore_view sha256 N K s)((ns, k) := v)"
  proof
    fix x :: "namespace \<times> string"
    obtain ns' k' where x: "x = (ns', k')" by (cases x)
    show "fstore_view sha256 N K s' x = ((fstore_view sha256 N K s)((ns, k) := v)) x"
    proof (cases "fstore_ok N K ns' k'")
      case True
      then show ?thesis
        using fstore_path_inj [OF inv ok True] ok
        by (auto simp: x fstore_view_def l split: option.splits)
    next
      case False
      with ok show ?thesis by (auto simp: x fstore_view_def)
    qed
  qed
qed

lemma load_items:
  assumes "\<And>y. y \<in> set L \<Longrightarrow> \<exists>i. snd y = PickledItem i"
  shows "\<exists>xs. res_map (\<lambda>(_, x). load_item x) L = Inr xs \<and> map snd L = map PickledItem xs"
  using assms
proof (induction L)
  case (Cons y L)
  then obtain xs where "res_map (\<lambda>(_, x). load_item x) L = Inr xs" "map snd L = map PickledItem xs"
    by auto
  moreover obtain n i where "y = (n, PickledItem i)"
    using Cons.prems [of y] by (cases y) auto
  ultimately show ?case by (intro exI [of _ "i # xs"]) (simp add: load_item_def)
qed simp

text \<open>
  Loading a list of files of a well-formed root, sorted by path: the items, each once, when
  the path of a file is determined by its item.
\<close>

lemma load_sorted:
  assumes "distinct (map fst L)" and "\<And>y. y \<in> set L \<Longrightarrow> \<exists>i. snd y = PickledItem i \<and> fst y = f i"
  shows "\<exists>xs. res_map (\<lambda>(_, x). load_item x) (sort_key fst L) = Inr xs \<and> distinct xs \<and>
           set xs = {i. (f i, PickledItem i) \<in> set L}"
proof -
  obtain xs where xs: "res_map (\<lambda>(_, x). load_item x) (sort_key fst L) = Inr xs"
    "map snd (sort_key fst L) = map PickledItem xs"
    using load_items [of "sort_key fst L"] assms(2) by fastforce
  have inj: "inj_on snd (set L)"
  proof (rule inj_onI)
    fix x y assume "x \<in> set L" "y \<in> set L" "snd x = snd y"
    moreover from this assms(2) obtain i j where "snd x = PickledItem i" "fst x = f i"
      "snd y = PickledItem j" "fst y = f j" by metis
    ultimately show "x = y" by (simp add: prod_eq_iff)
  qed
  have "distinct (map snd (sort_key fst L))"
    using inj assms(1) by (simp add: distinct_map)
  then have "distinct xs" by (simp add: xs(2) distinct_map)
  moreover have "PickledItem ` set xs = snd ` set L"
    using arg_cong [OF xs(2), of set] by simp
  then have "i \<in> set xs \<longleftrightarrow> PickledItem i \<in> snd ` set L" for i
    by (metis image_iff store_pickled.inject)
  moreover have "PickledItem i \<in> snd ` set L \<longleftrightarrow> (f i, PickledItem i) \<in> set L" for i
    using assms(2) by (force simp: image_iff)
  ultimately show ?thesis using xs(1) by blast
qed

lemma fstore_list_view:
  assumes inv: "fstore_invar sha256 N K s" and ok: "fstore_ok N K ns k"
  shows "\<exists>xs. fstore_list sha256 s ns = Inr xs \<and> distinct xs \<and>
     set xs = {i. \<exists>k. fstore_view sha256 N K s (ns, k) = Some i}"
proof -
  let ?d = "store_namespace_dir sha256 ns"
  let ?L = "dd_get s ?d"
  have wf: "dict_wf ?L" using inv by (simp add: fstore_invar_def)
  have fl: "\<exists>i. snd y = PickledItem i \<and> fst y = store_path sha256 (si_key i) \<and>
      fstore_ok N K (si_namespace i) (si_key i) \<and> ?d = store_namespace_dir sha256 (si_namespace i)"
    if "y \<in> set ?L" for y
    using that wf fstore_file [OF inv, of ?d "fst y" "snd y"] by (auto simp: map_of_eq_Some_iff)
  have all: "filter (\<lambda>(n, _). ends_with n ''.store.pickle'') ?L = ?L"
    using fl by (fastforce simp: filter_id_conv store_path_def)
  obtain xs where xs: "res_map (\<lambda>(_, x). load_item x) (sort_key fst ?L) = Inr xs" "distinct xs"
    "set xs = {i. (store_path sha256 (si_key i), PickledItem i) \<in> set ?L}"
    using load_sorted [OF wf, of "\<lambda>i. store_path sha256 (si_key i)"] fl by blast
  have "(store_path sha256 (si_key i), PickledItem i) \<in> set ?L \<longleftrightarrow>
      (\<exists>k. fstore_view sha256 N K s (ns, k) = Some i)" for i
  proof
    assume m: "(store_path sha256 (si_key i), PickledItem i) \<in> set ?L"
    with fl have i: "fstore_ok N K (si_namespace i) (si_key i)"
      "?d = store_namespace_dir sha256 (si_namespace i)" by fastforce+
    with fstore_path_inj(1) [OF inv ok i(1)] have "si_namespace i = ns" by simp
    with i m wf show "\<exists>k. fstore_view sha256 N K s (ns, k) = Some i"
      by (intro exI [of _ "si_key i"]) (simp add: fstore_view_iff [OF inv] map_of_eq_Some_iff)
  next
    assume "\<exists>k. fstore_view sha256 N K s (ns, k) = Some i"
    with wf show "(store_path sha256 (si_key i), PickledItem i) \<in> set ?L"
      by (auto simp: fstore_view_iff [OF inv] map_of_eq_Some_iff)
  qed
  with xs all ok show ?thesis by (simp add: fstore_list_def fstore_ok_def)
qed

lemma store_files_simps [simp]:
  "store_files [] = []"
  "store_files ((d, fs) # s) = map (\<lambda>(n, x). ((d, n), x)) fs @ store_files s"
  by (simp_all add: store_files_def)

lemma store_files_mem:
  "((d, n), x) \<in> set (store_files s) \<longleftrightarrow> (\<exists>fs. (d, fs) \<in> set s \<and> (n, x) \<in> set fs)"
  by (induction s) auto

lemma store_files_iff:
  assumes "dict_wf s" "\<And>d. dict_wf (dd_get s d)"
  shows "((d, n), x) \<in> set (store_files s) \<longleftrightarrow> dict_get (dd_get s d) n = Some x"
proof (cases "dict_get s d")
  case None
  then have "(d, fs) \<notin> set s" for fs by (force simp: map_of_eq_None_iff)
  with None show ?thesis by (simp add: store_files_mem dd_get_def)
next
  case (Some fs)
  with assms(1) have "(d, fs') \<in> set s \<longleftrightarrow> fs' = fs" for fs'
    by (metis map_of_eq_Some_iff option.inject)
  with Some assms(2) [of d] show ?thesis by (simp add: store_files_mem dd_get_def map_of_eq_Some_iff)
qed

lemma store_files_wf:
  assumes "dict_wf s" "\<And>d. dict_wf (dd_get s d)"
  shows "distinct (map fst (store_files s))"
  using assms
proof (induction s)
  case (Cons e s)
  obtain d fs where e: "e = (d, fs)" by (cases e)
  have fresh: "d \<notin> fst ` set s" using Cons.prems(1) e by simp
  have "dict_wf (dd_get s d')" for d'
    using Cons.prems(2) [of d'] fresh e
    by (cases "d' = d") (auto simp: dd_get_def map_of_eq_None_iff [symmetric] split: option.splits if_splits)
  with Cons have tail: "distinct (map fst (store_files s))" by simp
  have "distinct (map fst fs)" using Cons.prems(2) [of d] e by (simp add: dd_get_def)
  moreover have "map fst (map (\<lambda>(n, x). ((d, n), x)) fs) = map (Pair d) (map fst fs)" by auto
  ultimately have "distinct (map fst (map (\<lambda>(n, x). ((d, n), x)) fs))"
    by (simp only: distinct_map) (simp add: inj_on_def)
  moreover have "fst ` set (map (\<lambda>(n, x). ((d, n), x)) fs) \<inter> fst ` set (store_files s) = {}"
    using fresh by (force simp: store_files_mem)
  ultimately show ?case using tail by (simp only: e store_files_simps map_append distinct_append set_map)
qed simp

lemma fstore_search_view:
  assumes inv: "fstore_invar sha256 N K s" and p: "ns_valid p"
  shows "\<exists>xs. fstore_search s p = Inr xs \<and> distinct xs \<and>
     set xs = {i. \<exists>ns k. fstore_view sha256 N K s (ns, k) = Some i \<and> has_prefix p ns}"
proof -
  let ?L = "store_files s"
  let ?f = "\<lambda>i. (store_namespace_dir sha256 (si_namespace i), store_path sha256 (si_key i))"
  have wf: "dict_wf s" "\<And>d. dict_wf (dd_get s d)" using inv by (auto simp: fstore_invar_def)
  have mem: "((d, n), x) \<in> set ?L \<longleftrightarrow> dict_get (dd_get s d) n = Some x" for d n x
    using store_files_iff [OF wf] by simp
  have fl: "\<exists>i. snd y = PickledItem i \<and> fst y = ?f i \<and> fstore_ok N K (si_namespace i) (si_key i)"
    if "y \<in> set ?L" for y
  proof -
    obtain d n x where y: "y = ((d, n), x)" by (metis prod.collapse)
    with that mem have "dict_get (dd_get s d) n = Some x" by simp
    from fstore_file [OF inv this] show ?thesis by (auto simp: y)
  qed
  have all: "filter (\<lambda>((_, n), _). ends_with n ''.store.pickle'') ?L = ?L"
    using fl by (fastforce simp: filter_id_conv store_path_def)
  obtain xs where xs: "res_map (\<lambda>(_, x). load_item x) (sort_key fst ?L) = Inr xs" "distinct xs"
    "set xs = {i. (?f i, PickledItem i) \<in> set ?L}"
    using load_sorted [OF store_files_wf [OF wf], of ?f] fl by blast
  have "i \<in> set xs \<longleftrightarrow> fstore_view sha256 N K s (si_namespace i, si_key i) = Some i" for i
  proof -
    have "i \<in> set xs \<longleftrightarrow> (?f i, PickledItem i) \<in> set ?L" using xs(3) by simp
    moreover have "fstore_ok N K (si_namespace i) (si_key i)" if "(?f i, PickledItem i) \<in> set ?L"
      using fl [OF that] by auto
    ultimately show ?thesis by (auto simp: fstore_view_iff [OF inv] mem)
  qed
  then have "set (filter (\<lambda>i. take (length p) (si_namespace i) = p) xs) =
      {i. \<exists>ns k. fstore_view sha256 N K s (ns, k) = Some i \<and> has_prefix p ns}"
    by (auto simp: has_prefix_def fstore_view_iff [OF inv])
  with xs all p show ?thesis by (simp add: fstore_search_def)
qed

interpretation files: kv_store "fstore_put sha256" "fstore_get sha256" "fstore_delete sha256"
  "fstore_list sha256" fstore_search "fstore_view sha256 N K" "fstore_invar sha256 N K" "fstore_ok N K" ns_valid
  for sha256 N K
proof (unfold_locales, goal_cases)
  case (1 s ns k)
  then show ?case by (rule fstore_get_view)
next
  case (2 s ns k now v)
  let ?i = "put_item (fstore_view sha256 N K s) now ns k v"
  have "fstore_put sha256 now ns k v s =
     (dict_set (store_namespace_dir sha256 ns) (dict_set (store_path sha256 k) (PickledItem ?i)
        (dd_get s (store_namespace_dir sha256 ns))) s, Inr ?i)"
    using 2 fstore_get_view [OF 2] by (simp add: fstore_put_def fstore_ok_def put_item_def Let_def)
  with fstore_write [OF 2, of "Some ?i"] show ?case by (simp add: put_item_def)
next
  case (3 s ns k)
  show ?case
  proof (cases "dict_get s (store_namespace_dir sha256 ns)")
    case None
    then have "fstore_view sha256 N K s (ns, k) = None"
      by (simp add: fstore_view_def dd_get_def)
    with None 3 show ?thesis by (auto simp: fstore_delete_def fstore_ok_def)
  next
    case (Some files)
    with fstore_write [OF 3, of None] 3 show ?thesis
      by (simp add: fstore_delete_def fstore_ok_def dd_get_def)
  qed
next
  case (4 s ns k)
  then show ?case by (rule fstore_list_view)
next
  case (5 s p)
  then show ?case by (rule fstore_search_view)
qed

section \<open>Properties\<close>

text \<open>
  The memory store is a finite map: after any sequence of puts and deletes under valid
  namespaces and keys, \<open>get\<close> returns what the map of the abstract store holds, creation times
  included.
\<close>

theorem mem_store_refines:
  assumes "list_all (kv_op_ok (\<lambda>ns k. ns_valid ns \<and> k \<noteq> [])) ops" and "ns_valid ns" and "k \<noteq> []"
  shows "mem_get (fold (kv_exec mem_put mem_delete) ops []) ns k =
         Inr (fold kv_spec ops Map.empty (ns, k))"
  using mems.get_after [of "[]" ops ns k] assms by (simp add: mem_store_invar_def)

text \<open>
  Searching the file store is exact: after any sequence of puts and deletes, the search for
  a namespace prefix returns each live item whose namespace starts with the prefix once, and
  nothing else, as long as the digest does not collide on the namespaces and keys in use.
\<close>

theorem file_store_search_exact:
  assumes "inj_on (store_namespace_dir sha256) N" and "inj_on sha256 K"
    and "list_all (kv_op_ok (fstore_ok N K)) ops" and "ns_valid p"
  shows "\<exists>xs. fstore_search (fold (kv_exec (fstore_put sha256) (fstore_delete sha256)) ops []) p = Inr xs
           \<and> distinct xs
           \<and> set xs = {i. \<exists>ns k. fold kv_spec ops Map.empty (ns, k) = Some i \<and> has_prefix p ns}"
proof -
  have inv: "fstore_invar sha256 N K []" using assms(1,2) by (simp add: fstore_invar_def)
  moreover have "fstore_view sha256 N K [] = Map.empty" by (auto simp: fstore_view_def fun_eq_iff)
  ultimately show ?thesis using files.search_after [OF inv assms(3,4)] by simp
qed

definition demo_kv :: "kv_op list" where
  "demo_kv = [OpPut 1 [''a'', ''b''] ''k'' (PInt 1), OpPut 2 [''a''] ''k'' (PInt 2),
     OpPut 3 [''a'', ''b''] ''k'' (PInt 3), OpPut 4 [''c''] ''k'' PNone, OpDel [''a''] ''k'']"

theorem mem_store_refines_witness:
  "mem_get (fold (kv_exec mem_put mem_delete) demo_kv []) [''a'', ''b''] ''k'' =
   Inr (Some \<lparr>si_namespace = [''a'', ''b''], si_key = ''k'', si_value = PInt 3,
              si_created_at = 1, si_updated_at = 3\<rparr>)"
proof -
  have "list_all (kv_op_ok (\<lambda>ns k. ns_valid ns \<and> k \<noteq> [])) demo_kv"
    by (simp add: demo_kv_def ns_valid_def)
  from mem_store_refines [OF this, of "[''a'', ''b'']" "''k''"] show ?thesis
    by (simp add: ns_valid_def demo_kv_def put_item_def)
qed

lemma two_point_map:
  "P a \<Longrightarrow> \<not> P b \<Longrightarrow>
   {i. \<exists>ns k. (if ns = a \<and> k = c then Some x else if ns = b \<and> k = c then Some y else None) = Some i \<and> P ns} = {x}"
  by (auto split: if_splits)

theorem file_store_search_exact_witness:
  "\<exists>xs. fstore_search (fold (kv_exec (fstore_put id) (fstore_delete id)) demo_kv []) [''a''] = Inr xs
     \<and> set xs = {\<lparr>si_namespace = [''a'', ''b''], si_key = ''k'', si_value = PInt 3,
                  si_created_at = 1, si_updated_at = 3\<rparr>}"
proof -
  let ?N = "{[''a'', ''b''], [''a''], [''c'']}"
  have inj: "inj_on (store_namespace_dir id) ?N" by (simp add: inj_on_def store_namespace_dir_def)
  have ops: "list_all (kv_op_ok (fstore_ok ?N {''k''})) demo_kv"
    by (simp add: demo_kv_def ns_valid_def fstore_ok_def)
  let ?i = "\<lparr>si_namespace = [''a'', ''b''], si_key = ''k'', si_value = PInt 3,
       si_created_at = 1, si_updated_at = 3\<rparr>"
  have m: "fold kv_spec demo_kv Map.empty (ns, k) =
      (if ns = [''a'', ''b''] \<and> k = ''k'' then Some ?i
       else if ns = [''c''] \<and> k = ''k'' then Some \<lparr>si_namespace = [''c''], si_key = ''k'', si_value = PNone,
         si_created_at = 4, si_updated_at = 4\<rparr> else None)" for ns k
    by (simp add: demo_kv_def put_item_def)
  have "{i. \<exists>ns k. fold kv_spec demo_kv Map.empty (ns, k) = Some i \<and> has_prefix [''a''] ns} = {?i}"
    unfolding m by (rule two_point_map) (simp_all add: has_prefix_def)
  moreover have "inj_on id {''k'' :: string}" "ns_valid [''a'']" by (simp_all add: ns_valid_def)
  note file_store_search_exact [OF inj this(1) ops this(2)]
  ultimately show ?thesis by metis
qed

text \<open>
  The digest input joins the parts with NUL, so two namespaces that differ only by a NUL
  inside a part share a directory, whatever the digest: an item put in one is listed in the
  other. No-collision on the namespaces in use is a real precondition.
\<close>

lemma fstore_namespace_collision:
  "store_namespace_dir sha256 [[CHR ''a'', CHR 0x00, CHR ''b'']] =
   store_namespace_dir sha256 [''a'', ''b'']"
  by (simp add: store_namespace_dir_def)

end
