(* ===== verification/Turso_Store.thy ===== *)
theory Turso_Store
  imports Stores Py_Text
begin

text \<open>
  The Turso store (\<open>TursoRuntimeGraphStore\<close> of \<open>durable.py\<close>). The table \<open>runtime_store\<close> is a
  list of rows with primary key namespace and key; the namespace column is the JSON text of
  the namespace (\<open>json.dumps\<close> with compact separators on ASCII text). \<open>search\<close> uses SQL
  \<open>like\<close>, written out with its wildcards and its case folding.
\<close>

section \<open>JSON text of a namespace\<close>

definition hex_char :: "nat \<Rightarrow> char" where
  "hex_char n = (if n < 10 then char_of (48 + n) else char_of (87 + n))"

definition hex_val :: "char \<Rightarrow> nat" where
  "hex_val c = (let n = of_char c :: nat in if n < 58 then n - 48 else n - 87)"

definition json_char :: "char \<Rightarrow> string" where
  "json_char c =
     (let n = of_char c :: nat
      in if n = 34 then [CHR 0x5C, CHR 0x22]
         else if n = 92 then [CHR 0x5C, CHR 0x5C]
         else if n = 10 then [CHR 0x5C, CHR ''n'']
         else if n = 13 then [CHR 0x5C, CHR ''r'']
         else if n = 9 then [CHR 0x5C, CHR ''t'']
         else if n = 12 then [CHR 0x5C, CHR ''f'']
         else if n = 8 then [CHR 0x5C, CHR ''b'']
         else if 32 \<le> n \<and> n \<le> 126 then [c]
         else [CHR 0x5C, CHR ''u'', CHR ''0'', CHR ''0'', hex_char (n div 16), hex_char (n mod 16)])"

definition json_str :: "string \<Rightarrow> string" where
  "json_str s = CHR 0x22 # concat (map json_char s) @ [CHR 0x22]"

definition encode_ns :: "namespace \<Rightarrow> string" where
  "encode_ns ns = CHR ''['' # str_join '','' (map json_str ns) @ [CHR '']'']"

text \<open>Reading it back: the characters of a string up to its closing quote, then the rest.\<close>

definition unescape :: "char \<Rightarrow> char option" where
  "unescape c =
     (if c = CHR ''n'' then Some (CHR 0x0A) else if c = CHR ''r'' then Some (CHR 0x0D)
      else if c = CHR ''t'' then Some (CHR 0x09) else if c = CHR ''f'' then Some (CHR 0x0C)
      else if c = CHR ''b'' then Some (CHR 0x08)
      else if c \<in> {CHR 0x22, CHR 0x5C, CHR ''/''} then Some c else None)"

fun json_chars :: "string \<Rightarrow> (string \<times> string) option" where
  "json_chars [] = None"
| "json_chars (c # r) =
     (if c = CHR 0x22 then Some ([], r)
      else if c = CHR 0x5C
      then (case r of
              [] \<Rightarrow> None
            | e # r1 \<Rightarrow>
                if e = CHR ''u''
                then (case r1 of
                        a # b # h # l # r2 \<Rightarrow>
                          map_option (map_prod (Cons (char_of (16 * hex_val h + hex_val l))) id)
                            (json_chars r2)
                      | _ \<Rightarrow> None)
                else (case unescape e of
                        None \<Rightarrow> None
                      | Some d \<Rightarrow> map_option (map_prod (Cons d) id) (json_chars r1)))
      else map_option (map_prod (Cons c) id) (json_chars r))"

definition ascii :: "string \<Rightarrow> bool" where
  "ascii s \<longleftrightarrow> (\<forall>c \<in> set s. (of_char c :: nat) < 128)"

lemma char_codes:
  "char_of (34 :: nat) = CHR 0x22" "char_of (92 :: nat) = CHR 0x5C" "char_of (10 :: nat) = CHR 0x0A"
  "char_of (13 :: nat) = CHR 0x0D" "char_of (9 :: nat) = CHR 0x09" "char_of (12 :: nat) = CHR 0x0C"
  "char_of (8 :: nat) = CHR 0x08"
  by code_simp+

lemma char_neq_code: "(of_char c :: nat) \<noteq> of_char d \<Longrightarrow> c \<noteq> d"
  by blast

lemma hex_val_char: "n < 16 \<Longrightarrow> hex_val (hex_char n) = n"
  by (auto simp: hex_val_def hex_char_def Let_def)

lemma json_chars_char:
  assumes "(of_char c :: nat) < 128"
  shows "json_chars (json_char c @ r) = map_option (map_prod (Cons c) id) (json_chars r)"
proof -
  let ?n = "of_char c :: nat"
  consider "?n \<in> {34, 92, 10, 13, 9, 12, 8}" | "?n \<notin> {34, 92, 10, 13, 9, 12, 8}" "32 \<le> ?n \<and> ?n \<le> 126"
    | "?n \<notin> {34, 92, 10, 13, 9, 12, 8}" "\<not> (32 \<le> ?n \<and> ?n \<le> 126)" by blast
  then show ?thesis
  proof cases
    case 1
    then have "c \<in> {CHR 0x22, CHR 0x5C, CHR 0x0A, CHR 0x0D, CHR 0x09, CHR 0x0C, CHR 0x08}"
    proof -
      from 1 have "c \<in> char_of ` {34, 92, 10, 13, 9, 12, 8 :: nat}" by (metis char_of_char imageI)
      then show ?thesis by (simp add: char_codes)
    qed
    then show ?thesis
      by (elim insertE emptyE) (simp_all add: json_char_def Let_def unescape_def)
  next
    case 2
    have "c \<noteq> CHR 0x22" "c \<noteq> CHR 0x5C" using 2 by (intro char_neq_code, simp)+
    with 2 show ?thesis by (simp add: json_char_def Let_def)
  next
    case 3
    have "char_of (16 * (?n div 16) + ?n mod 16) = c" by simp
    moreover have "json_char c =
        [CHR 0x5C, CHR ''u'', CHR ''0'', CHR ''0'', hex_char (?n div 16), hex_char (?n mod 16)]"
      unfolding json_char_def Let_def using 3 by (simp only: if_False simp_thms insert_iff empty_iff de_Morgan_disj)
    ultimately show ?thesis using assms by (simp add: hex_val_char)
  qed
qed

lemma json_chars_str:
  "ascii s \<Longrightarrow> json_chars (concat (map json_char s) @ CHR 0x22 # r) = Some (s, r)"
  by (induction s) (simp_all add: ascii_def json_chars_char)

lemma json_str_prefix_free:
  assumes "ascii s" "ascii t" "json_str s @ x = json_str t @ y"
  shows "s = t \<and> x = y"
proof -
  from assms(3) have "concat (map json_char s) @ CHR 0x22 # x = concat (map json_char t) @ CHR 0x22 # y"
    by (simp add: json_str_def)
  from arg_cong [OF this, of json_chars] show ?thesis
    unfolding json_chars_str [OF assms(1)] json_chars_str [OF assms(2)] by simp
qed


declare json_chars.simps [simp del]

text \<open>\<open>json.loads\<close> on the text of an array of strings.\<close>

fun json_items :: "nat \<Rightarrow> string \<Rightarrow> namespace option" where
  "json_items 0 s = None"
| "json_items (Suc n) s =
     (case s of
        q # r \<Rightarrow>
          if q \<noteq> CHR 0x22 then None
          else (case json_chars r of
                  None \<Rightarrow> None
                | Some (w, r1) \<Rightarrow>
                    if r1 = '']'' then Some [w]
                    else (case r1 of
                            sep # r2 \<Rightarrow> if sep = CHR '','' then map_option (Cons w) (json_items n r2) else None
                          | [] \<Rightarrow> None))
      | [] \<Rightarrow> None)"

definition decode_ns :: "string \<Rightarrow> namespace result" where
  "decode_ns s =
     (if s = ''[]'' then Inr []
      else case s of
             b # r \<Rightarrow>
               (case (if b = CHR ''['' then json_items (length r) r else None) of
                  None \<Rightarrow> Inl (ValueError ''Expecting value'')
                | Some ns \<Rightarrow> Inr ns)
           | [] \<Rightarrow> Inl (ValueError ''Expecting value''))"

lemma json_items_join:
  assumes "ns \<noteq> []" "\<forall>w \<in> set ns. ascii w" "length ns \<le> n"
  shows "json_items n (str_join '','' (map json_str ns) @ '']'') = Some ns"
  using assms
proof (induction ns arbitrary: n)
  case (Cons w ns)
  then obtain m where n: "n = Suc m" by (cases n) auto
  have w: "ascii w" using Cons.prems by simp
  show ?case
  proof (cases ns)
    case Nil
    then show ?thesis using json_chars_str [OF w, of "'']''"] by (simp add: n json_str_def)
  next
    case (Cons v vs)
    have "json_items m (str_join '','' (map json_str ns) @ '']'') = Some ns"
      using Cons.IH [of m] Cons.prems n Cons by simp
    then show ?thesis
      using json_chars_str [OF w, of "CHR '','' # str_join '','' (map json_str ns) @ '']''"]
      by (simp add: n json_str_def [of w] Cons)
  qed
qed simp

lemma length_join_json: "length ns \<le> length (str_join '','' (map json_str ns) @ '']'')"
proof (induction ns)
  case (Cons w ns)
  then show ?case by (cases ns) simp_all
qed simp

lemma decode_encode:
  assumes "\<forall>w \<in> set ns. ascii w"
  shows "decode_ns (encode_ns ns) = Inr ns"
proof (cases "ns = []")
  case False
  then obtain w vs where ns: "ns = w # vs" by (cases ns) auto
  then have "str_join '','' (map json_str ns) @ '']'' \<noteq> '']''"
    by (cases vs) (simp_all add: json_str_def)
  with False json_items_join [OF False assms length_join_json] show ?thesis
    by (simp add: decode_ns_def encode_ns_def)
qed (simp add: decode_ns_def encode_ns_def)

section \<open>The table\<close>

record kv_row =
  kv_namespace :: string
  kv_key :: string
  kv_value :: pyval
  kv_created_at :: int
  kv_updated_at :: int

type_synonym turso_table = "kv_row list"

text \<open>\<open>text like pattern\<close>: percent for any text, underscore for one character, ASCII case folded.\<close>

fun sql_like :: "string \<Rightarrow> string \<Rightarrow> bool" where
  "sql_like [] [] = True"
| "sql_like [] (c # s) = False"
| "sql_like (p # ps) [] = (p = CHR ''%'' \<and> sql_like ps [])"
| "sql_like (p # ps) (c # s) =
     (if p = CHR ''%'' then sql_like ps (c # s) \<or> sql_like (p # ps) s
      else (p = CHR ''_'' \<or> lower_char p = lower_char c) \<and> sql_like ps s)"

definition row_item :: "kv_row \<Rightarrow> store_item result" where
  "row_item r = res_bind (decode_ns (kv_namespace r)) (\<lambda>ns.
     Inr \<lparr>si_namespace = ns, si_key = kv_key r, si_value = kv_value r,
          si_created_at = kv_created_at r, si_updated_at = kv_updated_at r\<rparr>)"

definition tstore_get :: "turso_table \<Rightarrow> namespace \<Rightarrow> string \<Rightarrow> store_item option" where
  "tstore_get s namespace key =
     (case find (\<lambda>r. kv_namespace r = encode_ns namespace \<and> kv_key r = key) s of
        None \<Rightarrow> None
      | Some r \<Rightarrow> Some \<lparr>si_namespace = namespace, si_key = key, si_value = kv_value r,
                        si_created_at = kv_created_at r, si_updated_at = kv_updated_at r\<rparr>)"

definition tstore_put ::
  "int \<Rightarrow> namespace \<Rightarrow> string \<Rightarrow> pyval \<Rightarrow> turso_table \<Rightarrow> turso_table \<times> store_item" where
  "tstore_put now namespace key val s =
     (let encoded = encode_ns namespace;
          created_at = (case tstore_get s namespace key of None \<Rightarrow> now | Some i \<Rightarrow> si_created_at i);
          row = \<lparr>kv_namespace = encoded, kv_key = key, kv_value = val,
                 kv_created_at = created_at, kv_updated_at = now\<rparr>
      in (filter (\<lambda>r. \<not> (kv_namespace r = encoded \<and> kv_key r = key)) s @ [row],
          \<lparr>si_namespace = namespace, si_key = key, si_value = val,
           si_created_at = created_at, si_updated_at = now\<rparr>))"

definition tstore_delete :: "namespace \<Rightarrow> string \<Rightarrow> turso_table \<Rightarrow> turso_table" where
  "tstore_delete namespace key s =
     filter (\<lambda>r. \<not> (kv_namespace r = encode_ns namespace \<and> kv_key r = key)) s"

definition select_items :: "(kv_row \<Rightarrow> bool) \<Rightarrow> turso_table \<Rightarrow> store_item list result" where
  "select_items cond s =
     res_map row_item (sort_key (\<lambda>r. (kv_namespace r, kv_key r)) (filter cond s))"

definition tstore_list :: "turso_table \<Rightarrow> namespace \<Rightarrow> store_item list result" where
  "tstore_list s namespace = select_items (\<lambda>r. kv_namespace r = encode_ns namespace) s"

definition tstore_search :: "turso_table \<Rightarrow> namespace \<Rightarrow> store_item list result" where
  "tstore_search s namespace_prefix =
     (let p = encode_ns namespace_prefix
      in select_items (\<lambda>r. kv_namespace r = p \<or> sql_like (butlast p @ '',%'') (kv_namespace r)) s)"

section \<open>Prefix search\<close>

text \<open>Namespaces whose parts are ASCII, free of capitals and of the wildcards of \<open>like\<close>.\<close>

definition safe_part :: "string \<Rightarrow> bool" where
  "safe_part w \<longleftrightarrow> ascii w \<and> lower w = w \<and> CHR ''%'' \<notin> set w \<and> CHR ''_'' \<notin> set w"

definition safe_ns :: "namespace \<Rightarrow> bool" where
  "safe_ns ns \<longleftrightarrow> ns \<noteq> [] \<and> (\<forall>w \<in> set ns. safe_part w)"

lemma like_any: "sql_like ''%'' s"
  by (induction s) simp_all

lemma like_prefix:
  assumes "CHR ''%'' \<notin> set x" "CHR ''_'' \<notin> set x"
  shows "sql_like (x @ ''%'') s \<longleftrightarrow> (\<exists>y r. s = y @ r \<and> lower y = lower x)"
  using assms
proof (induction x arbitrary: s)
  case Nil
  then show ?case by (simp add: like_any)
next
  case (Cons c x)
  show ?case
  proof (cases s)
    case Nil
    with Cons.prems show ?thesis by auto
  next
    case (Cons d s')
    with Cons.prems Cons.IH [of s'] show ?thesis
      by (auto simp: Cons_eq_append_conv map_eq_Cons_conv) blast
  qed
qed

definition like_safe :: "string \<Rightarrow> bool" where
  "like_safe s \<longleftrightarrow> lower s = s \<and> CHR ''%'' \<notin> set s \<and> CHR ''_'' \<notin> set s"

lemma like_safe_append [simp]: "like_safe (s @ t) \<longleftrightarrow> like_safe s \<and> like_safe t"
  by (auto simp: like_safe_def)

lemma like_safe_concat: "(\<And>w. w \<in> set ws \<Longrightarrow> like_safe w) \<Longrightarrow> like_safe (concat ws)"
  by (induction ws) (simp_all add: like_safe_def)

lemma hex_char_safe:
  assumes "n < 16" shows "like_safe [hex_char n]"
proof -
  have code: "(of_char (hex_char n) :: nat) = (if n < 10 then 48 + n else 87 + n)"
    using assms by (simp add: hex_char_def)
  have "hex_char n \<noteq> CHR ''%''" "hex_char n \<noteq> CHR ''_''"
    using assms code by (auto intro!: char_neq_code split: if_splits)
  moreover have "lower_char (hex_char n) = hex_char n"
    using assms by (simp add: lower_char_def code Let_def)
  ultimately show ?thesis by (simp add: like_safe_def)
qed

lemma json_char_safe:
  assumes "(of_char c :: nat) < 128" "like_safe [c]"
  shows "like_safe (json_char c)"
proof -
  have hex: "like_safe [hex_char (of_char c div 16)]" "like_safe [hex_char (of_char c mod 16)]"
    using assms(1) by (auto intro!: hex_char_safe)
  have u: "like_safe [CHR 0x5C, CHR ''u'', CHR ''0'', CHR ''0'']" "like_safe [CHR 0x5C, CHR 0x22]"
    "like_safe [CHR 0x5C, CHR 0x5C]" "like_safe [CHR 0x5C, CHR ''n'']" "like_safe [CHR 0x5C, CHR ''r'']"
    "like_safe [CHR 0x5C, CHR ''t'']" "like_safe [CHR 0x5C, CHR ''f'']" "like_safe [CHR 0x5C, CHR ''b'']"
    by code_simp+
  have "like_safe ([CHR 0x5C, CHR ''u'', CHR ''0'', CHR ''0''] @ [hex_char (of_char c div 16)] @ [hex_char (of_char c mod 16)])"
    using u(1) hex by (simp only: like_safe_append simp_thms)
  then show ?thesis using u assms(2) by (simp add: json_char_def Let_def)
qed

lemma json_str_safe:
  assumes "safe_part w" shows "like_safe (json_str w)"
proof -
  have c: "like_safe [c]" if "c \<in> set w" for c
  proof -
    from assms have "map lower_char w = map (\<lambda>c. c) w" by (simp add: safe_part_def)
    with that have "lower_char c = c" by (simp only: map_eq_conv)
    with that assms show ?thesis by (auto simp: like_safe_def safe_part_def)
  qed
  have q: "like_safe [CHR 0x22]" by code_simp
  have "like_safe (concat (map json_char w))"
    using assms c by (intro like_safe_concat) (auto simp: safe_part_def ascii_def intro: json_char_safe)
  with q have "like_safe ([CHR 0x22] @ concat (map json_char w) @ [CHR 0x22])"
    by (simp only: like_safe_append simp_thms)
  then show ?thesis by (simp add: json_str_def)
qed

lemma str_join_safe: "(\<And>w. w \<in> set ws \<Longrightarrow> like_safe w) \<Longrightarrow> like_safe (str_join '','' ws)"
proof (induction "'',''" ws rule: str_join.induct)
  case 1
  show ?case by (simp add: like_safe_def)
next
  case (2 x)
  then show ?case by simp
next
  case (3 x y ys)
  have "like_safe '',''" by code_simp
  moreover have "like_safe x" "like_safe (str_join '','' (y # ys))" using 3 by simp_all
  ultimately have "like_safe (x @ '','' @ str_join '','' (y # ys))" by (simp only: like_safe_append simp_thms)
  then show ?case by simp
qed

lemma encode_ns_safe: "safe_ns ns \<Longrightarrow> like_safe (encode_ns ns)"
proof -
  assume "safe_ns ns"
  then have "like_safe (str_join '','' (map json_str ns))"
    by (intro str_join_safe) (auto simp: safe_ns_def json_str_safe)
  moreover have "like_safe ''[''" "like_safe '']''" by code_simp+
  ultimately have "like_safe (''['' @ str_join '','' (map json_str ns) @ '']'')"
    by (simp only: like_safe_append simp_thms)
  then show ?thesis by (simp add: encode_ns_def)
qed

definition prefix_text :: "namespace \<Rightarrow> string" where
  "prefix_text p = CHR ''['' # concat (map (\<lambda>w. json_str w @ '','') p)"

lemma join_comma: "ws \<noteq> [] \<Longrightarrow> str_join '','' ws @ '','' = concat (map (\<lambda>w. w @ '','') ws)"
  by (induction "'',''" ws rule: str_join.induct) simp_all

lemma butlast_encode: "p \<noteq> [] \<Longrightarrow> butlast (encode_ns p) @ '','' = prefix_text p"
  using join_comma [of "map json_str p"] by (simp add: encode_ns_def prefix_text_def butlast_append comp_def)

lemma join_prefix:
  assumes "ns \<noteq> []" "\<forall>w \<in> set ns. ascii w" "\<forall>w \<in> set p. ascii w"
  shows "(\<exists>r. str_join '','' (map json_str ns) @ '']'' = concat (map (\<lambda>w. json_str w @ '','') p) @ r)
     \<longleftrightarrow> has_prefix p ns \<and> length p < length ns"
  using assms
proof (induction p arbitrary: ns)
  case Nil
  then show ?case by (simp add: has_prefix_def)
next
  case (Cons w p)
  obtain v vs where ns: "ns = v # vs" using Cons.prems(1) by (cases ns) auto
  have vw: "ascii v" "ascii w" using Cons.prems ns by auto
  show ?case
  proof (cases vs)
    case Nil
    have "json_str v @ '']'' \<noteq> json_str w @ CHR '','' # r" for r
      using json_str_prefix_free [OF vw, of "'']''" "CHR '','' # r"] by auto
    with Nil ns show ?thesis by (auto simp: has_prefix_def)
  next
    case (Cons v' vs')
    have "str_join '','' (map json_str ns) @ '']'' =
        json_str v @ CHR '','' # str_join '','' (map json_str vs) @ '']''"
      by (simp add: ns Cons)
    moreover have "(json_str v @ CHR '','' # x = json_str w @ CHR '','' # y) \<longleftrightarrow> v = w \<and> x = y" for x y
      using json_str_prefix_free [OF vw, of "CHR '','' # x" "CHR '','' # y"] by auto
    moreover have "(\<exists>r. str_join '','' (map json_str vs) @ '']'' = concat (map (\<lambda>w. json_str w @ '','') p) @ r)
        \<longleftrightarrow> has_prefix p vs \<and> length p < length vs"
      using Cons.IH [of vs] Cons.prems ns Cons by simp
    ultimately show ?thesis by (simp add: ns has_prefix_def)
  qed
qed

lemma encode_ns_inj:
  assumes "\<forall>w \<in> set ns. ascii w" "\<forall>w \<in> set p. ascii w"
  shows "encode_ns ns = encode_ns p \<longleftrightarrow> ns = p"
proof
  assume "encode_ns ns = encode_ns p"
  then have "decode_ns (encode_ns ns) = decode_ns (encode_ns p)" by (rule arg_cong)
  then show "ns = p" unfolding decode_encode [OF assms(1)] decode_encode [OF assms(2)] by simp
qed simp

lemma like_iff_prefix:
  assumes "safe_ns p" "safe_ns ns"
  shows "kv = encode_ns ns \<Longrightarrow>
    (kv = encode_ns p \<or> sql_like (butlast (encode_ns p) @ '',%'') kv) \<longleftrightarrow> has_prefix p ns"
proof -
  assume kv: "kv = encode_ns ns"
  have ne: "p \<noteq> []" "ns \<noteq> []" and a: "\<forall>w \<in> set p. ascii w" "\<forall>w \<in> set ns. ascii w"
    using assms by (auto simp: safe_ns_def safe_part_def)
  have ps: "like_safe (prefix_text p)"
  proof -
    have "like_safe (butlast (encode_ns p))"
      using encode_ns_safe [OF assms(1)] by (metis append_butlast_last_id encode_ns_def like_safe_append list.distinct(1))
    moreover have "like_safe '',''" by code_simp
    ultimately show ?thesis using butlast_encode [OF ne(1)] by (metis like_safe_append)
  qed
  have pat: "butlast (encode_ns p) @ '',%'' = prefix_text p @ ''%''"
    using butlast_encode [OF ne(1)] by (metis append.assoc append_Cons append_Nil)
  have "sql_like (butlast (encode_ns p) @ '',%'') kv \<longleftrightarrow>
      (\<exists>y r. kv = y @ r \<and> lower y = lower (prefix_text p))"
    unfolding pat by (rule like_prefix) (use ps in \<open>simp_all add: like_safe_def\<close>)
  also have "\<dots> \<longleftrightarrow> (\<exists>r. kv = prefix_text p @ r)"
    using ps encode_ns_safe [OF assms(2)] unfolding kv by (metis like_safe_append like_safe_def)
  also have "\<dots> \<longleftrightarrow> has_prefix p ns \<and> length p < length ns"
    using join_prefix [OF ne(2) a(2,1)] by (simp add: kv encode_ns_def prefix_text_def)
  finally have like: "sql_like (butlast (encode_ns p) @ '',%'') kv \<longleftrightarrow> has_prefix p ns \<and> length p < length ns" .
  have eq: "kv = encode_ns p \<longleftrightarrow> ns = p"
    unfolding kv by (rule encode_ns_inj [OF a(2,1)])
  show ?thesis
  proof (cases "length p < length ns")
    case True
    then show ?thesis unfolding like eq by (auto simp: has_prefix_def)
  next
    case False
    then show ?thesis unfolding like eq by (auto simp: has_prefix_def)
  qed
qed

section \<open>The store contract\<close>

definition tstore_invar :: "turso_table \<Rightarrow> bool" where
  "tstore_invar s \<longleftrightarrow> distinct (map (\<lambda>r. (kv_namespace r, kv_key r)) s) \<and>
     (\<forall>r \<in> set s. \<exists>ns. safe_ns ns \<and> kv_namespace r = encode_ns ns)"

definition tstore_view :: "turso_table \<Rightarrow> store_map" where
  "tstore_view s = (\<lambda>(ns, k). if safe_ns ns then tstore_get s ns k else None)"

definition to_item :: "namespace \<Rightarrow> kv_row \<Rightarrow> store_item" where
  "to_item ns r = \<lparr>si_namespace = ns, si_key = kv_key r, si_value = kv_value r,
     si_created_at = kv_created_at r, si_updated_at = kv_updated_at r\<rparr>"

lemma safe_inj: "safe_ns ns \<Longrightarrow> safe_ns p \<Longrightarrow> encode_ns ns = encode_ns p \<longleftrightarrow> ns = p"
  by (rule encode_ns_inj) (auto simp: safe_ns_def safe_part_def)

lemma tstore_get_iff:
  assumes "tstore_invar s"
  shows "tstore_get s ns k = Some i \<longleftrightarrow>
    (\<exists>r \<in> set s. kv_namespace r = encode_ns ns \<and> kv_key r = k \<and> i = to_item ns r)"
proof (cases "find (\<lambda>r. kv_namespace r = encode_ns ns \<and> kv_key r = k) s")
  case None
  then have "tstore_get s ns k = None" by (simp add: tstore_get_def)
  with None show ?thesis by (auto simp: find_None_iff)
next
  case (Some q)
  then have q: "q \<in> set s" "kv_namespace q = encode_ns ns" "kv_key q = k"
    by (auto simp: find_Some_iff)
  have inj: "inj_on (\<lambda>r. (kv_namespace r, kv_key r)) (set s)"
    using assms by (simp add: tstore_invar_def distinct_map)
  have u: "r = q" if "r \<in> set s" "kv_namespace r = encode_ns ns" "kv_key r = k" for r
    by (rule inj_onD [OF inj]) (use q that in simp_all)
  have g: "tstore_get s ns k = Some (to_item ns q)"
    using Some q by (simp add: tstore_get_def to_item_def)
  show ?thesis
  proof
    assume "tstore_get s ns k = Some i"
    with g q show "\<exists>r \<in> set s. kv_namespace r = encode_ns ns \<and> kv_key r = k \<and> i = to_item ns r"
      by (intro bexI [of _ q]) simp_all
  next
    assume "\<exists>r \<in> set s. kv_namespace r = encode_ns ns \<and> kv_key r = k \<and> i = to_item ns r"
    with g u show "tstore_get s ns k = Some i" by blast
  qed
qed

lemma row_item_safe:
  assumes "safe_ns ns" "kv_namespace r = encode_ns ns"
  shows "row_item r = Inr (to_item ns r)"
  using assms decode_encode [of ns] by (simp add: row_item_def to_item_def safe_ns_def safe_part_def)

lemma select_items_view:
  assumes inv: "tstore_invar s"
    and cond: "\<And>r ns. safe_ns ns \<Longrightarrow> kv_namespace r = encode_ns ns \<Longrightarrow> cond r \<longleftrightarrow> Q ns"
  shows "\<exists>xs. select_items cond s = Inr xs \<and> distinct xs \<and>
    set xs = {i. \<exists>ns k. tstore_view s (ns, k) = Some i \<and> Q ns}"
proof -
  define dec where "dec r = (THE ns. safe_ns ns \<and> kv_namespace r = encode_ns ns)" for r :: kv_row
  have dec: "safe_ns (dec r) \<and> kv_namespace r = encode_ns (dec r)" if "r \<in> set s" for r
  proof -
    from that inv obtain ns where ns: "safe_ns ns \<and> kv_namespace r = encode_ns ns"
      unfolding tstore_invar_def by blast
    show ?thesis unfolding dec_def
      by (rule theI [of _ ns]) (use ns safe_inj in \<open>auto\<close>)
  qed
  let ?L = "sort_key (\<lambda>r. (kv_namespace r, kv_key r)) (filter cond s)"
  have sel: "select_items cond s = Inr (map (\<lambda>r. to_item (dec r) r) ?L)"
    unfolding select_items_def using dec by (intro res_map_total row_item_safe) auto
  have inj: "inj_on (\<lambda>r. to_item (dec r) r) (set s)"
  proof (rule inj_onI)
    fix x y assume xy: "x \<in> set s" "y \<in> set s" "to_item (dec x) x = to_item (dec y) y"
    then have "(kv_namespace x, kv_key x) = (kv_namespace y, kv_key y)"
      using dec [OF xy(1)] dec [OF xy(2)] by (simp add: to_item_def)
    with xy inv show "x = y" by (auto simp: tstore_invar_def distinct_map inj_on_def)
  qed
  have "distinct s" using inv by (simp add: tstore_invar_def distinct_map)
  then have "distinct (map (\<lambda>r. to_item (dec r) r) ?L)"
    using inj_on_subset [OF inj, of "set (filter cond s)"] by (simp add: distinct_map)
  moreover have "set (map (\<lambda>r. to_item (dec r) r) ?L) = {i. \<exists>ns k. tstore_view s (ns, k) = Some i \<and> Q ns}"
  proof -
    have "(\<exists>r \<in> set s. cond r \<and> i = to_item (dec r) r) \<longleftrightarrow>
        (\<exists>ns k. tstore_view s (ns, k) = Some i \<and> Q ns)" for i
    proof
      assume "\<exists>r \<in> set s. cond r \<and> i = to_item (dec r) r"
      then obtain r where r: "r \<in> set s" "cond r" "i = to_item (dec r) r" by blast
      from dec [OF r(1)] cond r have "Q (dec r)" "tstore_view s (dec r, kv_key r) = Some i"
        by (auto simp: tstore_view_def tstore_get_iff [OF inv])
      then show "\<exists>ns k. tstore_view s (ns, k) = Some i \<and> Q ns" by blast
    next
      assume "\<exists>ns k. tstore_view s (ns, k) = Some i \<and> Q ns"
      then obtain ns k r where r: "safe_ns ns" "Q ns" "r \<in> set s" "kv_namespace r = encode_ns ns"
        "i = to_item ns r"
        by (auto simp: tstore_view_def tstore_get_iff [OF inv] split: if_splits)
      with dec [OF r(3)] safe_inj have "dec r = ns" by metis
      with r cond show "\<exists>r \<in> set s. cond r \<and> i = to_item (dec r) r" by blast
    qed
    moreover have "i \<in> set (map (\<lambda>r. to_item (dec r) r) ?L) \<longleftrightarrow>
        (\<exists>r \<in> set s. cond r \<and> i = to_item (dec r) r)" for i
      by auto
    ultimately show ?thesis by blast
  qed
  ultimately show ?thesis using sel by blast
qed

lemma option_eqI: "(\<And>i. a = Some i \<longleftrightarrow> b = Some i) \<Longrightarrow> a = b"
  by (cases a; cases b) auto

lemma tstore_write:
  assumes inv: "tstore_invar s" and ok: "safe_ns ns"
    and s': "s' = filter (\<lambda>r. \<not> (kv_namespace r = encode_ns ns \<and> kv_key r = k)) s @ new"
    and new: "new = [] \<and> v = None \<or> (\<exists>r. new = [r] \<and> kv_namespace r = encode_ns ns \<and> kv_key r = k \<and> v = Some (to_item ns r))"
  shows "tstore_invar s'" "tstore_view s' = (tstore_view s)((ns, k) := v)"
proof -
  have "distinct (map (\<lambda>r. (kv_namespace r, kv_key r)) (filter P s))" for P
    using inv by (simp add: tstore_invar_def) (induction s; auto)
  then show inv': "tstore_invar s'"
    using inv ok new by (auto simp: tstore_invar_def s')
  show "tstore_view s' = (tstore_view s)((ns, k) := v)"
  proof
    fix x :: "namespace \<times> string"
    obtain ns' k' where x: "x = (ns', k')" by (cases x)
    have rows: "(\<exists>r \<in> set s'. kv_namespace r = encode_ns ns' \<and> kv_key r = k' \<and> i = to_item ns' r) \<longleftrightarrow>
        (if (ns', k') = (ns, k) then v = Some i
         else \<exists>r \<in> set s. kv_namespace r = encode_ns ns' \<and> kv_key r = k' \<and> i = to_item ns' r)"
      if "safe_ns ns'" for i
    proof (cases "new = []")
      case True
      with new safe_inj [OF that ok] show ?thesis unfolding s' by auto
    next
      case False
      with new obtain q where q: "new = [q]" "kv_namespace q = encode_ns ns" "kv_key q = k"
        "v = Some (to_item ns q)" by blast
      with safe_inj [OF that ok] show ?thesis unfolding s' by auto
    qed
    show "tstore_view s' x = ((tstore_view s)((ns, k) := v)) x"
    proof (cases "safe_ns ns'")
      case True
      have "tstore_get s' ns' k' = (if (ns', k') = (ns, k) then v else tstore_get s ns' k')"
        using rows [OF True] tstore_get_iff [OF inv'] tstore_get_iff [OF inv]
        by (intro option_eqI) auto
      with True show ?thesis by (simp add: x tstore_view_def)
    next
      case False
      with ok show ?thesis by (auto simp: x tstore_view_def)
    qed
  qed
qed

interpretation tursos: kv_store "\<lambda>now ns k v s. map_prod id Inr (tstore_put now ns k v s)"
  "\<lambda>s ns k. Inr (tstore_get s ns k)" "\<lambda>ns k s. (tstore_delete ns k s, Inr ())" tstore_list
  tstore_search tstore_view tstore_invar "\<lambda>ns k. safe_ns ns" safe_ns
proof (unfold_locales, goal_cases)
  case (1 s ns k)
  then show ?case by (simp add: tstore_view_def)
next
  case (2 s ns k now v)
  let ?i = "put_item (tstore_view s) now ns k v"
  let ?r = "\<lparr>kv_namespace = encode_ns ns, kv_key = k, kv_value = v,
      kv_created_at = si_created_at ?i, kv_updated_at = now\<rparr>"
  let ?s = "filter (\<lambda>r. \<not> (kv_namespace r = encode_ns ns \<and> kv_key r = k)) s @ [?r]"
  have i: "?i = to_item ns ?r" by (simp add: to_item_def put_item_def)
  have "tstore_put now ns k v s = (?s, ?i)"
    using 2 by (simp add: tstore_put_def put_item_def tstore_view_def Let_def)
  moreover have "tstore_invar ?s" "tstore_view ?s = (tstore_view s)((ns, k) := Some ?i)"
    using i by (intro tstore_write [OF 2 refl]; auto)+
  ultimately show ?case by simp
next
  case (3 s ns k)
  have "tstore_invar (tstore_delete ns k s)" "tstore_view (tstore_delete ns k s) = (tstore_view s)((ns, k) := None)"
    by (rule tstore_write [OF 3, where new = "[]"], simp_all add: tstore_delete_def)+
  then show ?case by simp
next
  case (4 s ns k)
  then show ?case
    using select_items_view [OF 4(1), of "\<lambda>r. kv_namespace r = encode_ns ns" "\<lambda>n. n = ns"] safe_inj
    by (simp add: tstore_list_def)
next
  case (5 s p)
  then show ?case
    unfolding tstore_search_def Let_def
    by (intro select_items_view) (auto simp: like_iff_prefix)
qed

section \<open>Properties\<close>

text \<open>
  The namespace column is decoded to what was encoded: parsing the compact JSON text of any
  namespace of ASCII parts, control characters, quotes and backslashes included, returns it.
\<close>

theorem namespace_json_roundtrip:
  assumes "list_all ascii ns"
  shows "decode_ns (encode_ns ns) = Inr ns"
  using decode_encode assms by (simp add: list_all_iff)

theorem namespace_json_roundtrip_witness:
  "decode_ns (encode_ns [''a'', [CHR 0x22, CHR 0x0A, CHR 0x01]]) = Inr [''a'', [CHR 0x22, CHR 0x0A, CHR 0x01]]"
proof -
  have "list_all ascii [''a'', [CHR 0x22, CHR 0x0A, CHR 0x01]]" by code_simp
  from namespace_json_roundtrip [OF this] show ?thesis .
qed



text \<open>
  Outside that alphabet the search is wider than the prefix: an underscore in the prefix
  matches any character, and capitals match small letters.
\<close>

lemma turso_search_wildcard:
  "is_ok (tstore_search (fst (tstore_put 1 [''axb'', ''c''] ''k'' PNone [])) [''a_b'']) \<and>
   tstore_search (fst (tstore_put 1 [''axb'', ''c''] ''k'' PNone [])) [''a_b''] \<noteq> Inr [] \<and>
   tstore_search (fst (tstore_put 1 [''ab'', ''c''] ''k'' PNone [])) [''AB''] \<noteq> Inr []"
  by code_simp

end
