(* ===== verification/Graph_Stream.thy ===== *)
theory Graph_Stream
  imports Graph_Async Graph_Props Checkpoints
begin

text \<open>
  Streaming runs (\<open>_runtime_graph_stream.py\<close>, the \<open>stream\<close> and \<open>astream\<close> methods of the executor,
  and the projections of \<open>event_stream.py\<close>). A generator is the list of the chunks it yields
  together with how it ends: in a final context, or with the exception that leaves it after
  these chunks. A chunk carries its mode when several modes are asked for.

  The custom sink receives what the actions emit; the checkpoint store of the runtime is a
  state \<open>'s\<close> with its \<open>save\<close>, whose clock and fresh ids are the argument \<open>env\<close>, indexed by
  the step.
\<close>

section \<open>Modes and chunks\<close>

definition valid_stream_modes :: "string list" where
  "valid_stream_modes =
     [''values'', ''updates'', ''messages'', ''custom'', ''checkpoints'', ''tasks'', ''events'', ''debug'']"

definition default_stream_modes :: "string list" where
  "default_stream_modes = [''values'', ''updates'', ''messages'', ''custom'', ''tasks'', ''events'', ''debug'']"

datatype stream_mode = OneMode string | ManyModes "string list"

fun mode_list :: "stream_mode \<Rightarrow> string list" where
  "mode_list (OneMode m) = [m]"
| "mode_list (ManyModes ms) = ms"

fun is_multi :: "stream_mode \<Rightarrow> bool" where
  "is_multi (OneMode _) = False"
| "is_multi (ManyModes _) = True"

definition validated_stream_modes :: "stream_mode \<Rightarrow> string list result" where
  "validated_stream_modes sm =
     (let modes = mode_list sm;
          unknown = filter (\<lambda>m. m \<notin> set valid_stream_modes) modes
      in if modes = [] then Inl (RuntimeGraphError ''runtime graph stream mode cannot be empty'')
         else if unknown \<noteq> []
         then Inl (RuntimeGraphError (''unknown runtime graph stream mode: '' @ str_join '', '' unknown))
         else Inr modes)"

definition normalize_stream_modes :: "stream_mode option \<Rightarrow> string list" where
  "normalize_stream_modes sm =
     (case sm of None \<Rightarrow> default_stream_modes | Some m \<Rightarrow> mode_list m)"

datatype chunk =
    ChEvent graph_event
  | ChTask string int string
  | ChCustom pyval
  | ChCheckpoint graph_checkpoint
  | ChUpdate string state
  | ChValues state
  | ChMessage pyval string int

text \<open>The publisher: its modes, whether chunks are tagged, the custom values, the thread.\<close>

record publisher =
  pb_modes :: "string list"
  pb_multi :: bool
  pb_custom :: "pyval list"
  pb_thread :: "string option"

type_synonym stream_chunk = "string option \<times> chunk"

definition emit :: "publisher \<Rightarrow> string \<Rightarrow> chunk \<Rightarrow> stream_chunk" where
  "emit pb mode ch = (if pb_multi pb then (Some mode, ch) else (None, ch))"

text \<open>\<open>for mode in self.modes: if mode in wanted: yield self.emit(mode, chunk)\<close>.\<close>

definition for_modes :: "publisher \<Rightarrow> string list \<Rightarrow> chunk \<Rightarrow> stream_chunk list" where
  "for_modes pb wanted ch =
     map (\<lambda>m. emit pb m ch) (filter (\<lambda>m. m \<in> set wanted) (pb_modes pb))"

definition pub_events :: "publisher \<Rightarrow> graph_event \<Rightarrow> stream_chunk list" where
  "pub_events pb ev = for_modes pb [''events'', ''debug''] (ChEvent ev)"

definition pub_tasks :: "publisher \<Rightarrow> string \<Rightarrow> int \<Rightarrow> string \<Rightarrow> stream_chunk list" where
  "pub_tasks pb node step status = for_modes pb [''tasks''] (ChTask node step status)"

definition pub_custom :: "publisher \<Rightarrow> nat \<Rightarrow> stream_chunk list" where
  "pub_custom pb start =
     concat (map (\<lambda>v. for_modes pb [''custom''] (ChCustom v)) (drop start (pb_custom pb)))"

definition update_map :: "update_value \<Rightarrow> state" where
  "update_map u = (case u of UMap m \<Rightarrow> m | _ \<Rightarrow> [])"

definition pub_updates :: "publisher \<Rightarrow> string \<Rightarrow> update_value \<Rightarrow> stream_chunk list" where
  "pub_updates pb node u = for_modes pb [''updates''] (ChUpdate node (update_map u))"

definition pub_values :: "publisher \<Rightarrow> state \<Rightarrow> stream_chunk list" where
  "pub_values pb st = for_modes pb [''values''] (ChValues st)"

definition normalize_messages :: "pyval \<Rightarrow> pyval list" where
  "normalize_messages v = (case v of PTuple xs \<Rightarrow> xs | PList xs \<Rightarrow> xs | _ \<Rightarrow> [v])"

definition pub_messages :: "publisher \<Rightarrow> string \<Rightarrow> int \<Rightarrow> update_value \<Rightarrow> stream_chunk list" where
  "pub_messages pb node step u =
     (case dict_get (update_map u) ''messages'' of
        None \<Rightarrow> []
      | Some PNone \<Rightarrow> []
      | Some v \<Rightarrow> concat (map (\<lambda>m. for_modes pb [''messages''] (ChMessage m node step))
                    (normalize_messages v)))"

text \<open>A checkpoint is saved after every node when a checkpoint mode is on, then yielded.\<close>

definition stream_checkpoint :: "string \<Rightarrow> string \<Rightarrow> graph_ctx \<Rightarrow> graph_checkpoint" where
  "stream_checkpoint thread node cx =
     \<lparr>ck_checkpoint_id = [], ck_thread_id = thread, ck_interrupt = None, ck_node = node,
      ck_step = cx_step cx, ck_state = cx_state cx, ck_trace = cx_trace cx,
      ck_pending = cx_pending cx, ck_events = cx_events cx, ck_validation_receipt = [],
      ck_plan_digest = None\<rparr>"

definition pub_checkpoints ::
  "'s save_op \<Rightarrow> (int \<Rightarrow> string \<times> int) \<Rightarrow> publisher \<Rightarrow> string \<Rightarrow> graph_ctx \<Rightarrow> 's
   \<Rightarrow> 's \<times> stream_chunk list result" where
  "pub_checkpoints save env pb node cx s =
     (case pb_thread pb of
        None \<Rightarrow> (s, Inr [])
      | Some thread \<Rightarrow>
          (case save (fst (env (cx_step cx))) (snd (env (cx_step cx)))
                  (stream_checkpoint thread node cx) s of
             (s1, Inl e) \<Rightarrow> (s1, Inl e)
           | (s1, Inr ck) \<Rightarrow> (s1, Inr (for_modes pb [''checkpoints''] (ChCheckpoint ck)))))"

definition node_outputs ::
  "'s save_op \<Rightarrow> (int \<Rightarrow> string \<times> int) \<Rightarrow> publisher \<Rightarrow> string \<Rightarrow> graph_ctx \<Rightarrow> update_value \<Rightarrow> nat \<Rightarrow> 's
   \<Rightarrow> 's \<times> stream_chunk list \<times> pyerr option" where
  "node_outputs save env pb node cx u start s =
     (case pub_checkpoints save env pb node cx s of
        (s1, Inl e) \<Rightarrow> (s1, pub_custom pb start, Some e)
      | (s1, Inr cks) \<Rightarrow>
          (s1, pub_custom pb start @ cks @ pub_updates pb node u @ pub_values pb (cx_state cx)
               @ pub_messages pb node (cx_step cx) u, None))"

section \<open>One streamed step\<close>

type_synonym ('w, 's) stream_state = "'w \<times> 's \<times> publisher"

definition execute_next_stream_step ::
  "'s save_op \<Rightarrow> (int \<Rightarrow> string \<times> int) \<Rightarrow> 'w graph_executor \<Rightarrow> string option \<Rightarrow> graph_ctx
   \<Rightarrow> ('w, 's) stream_state
   \<Rightarrow> ('w, 's) stream_state \<times> stream_chunk list \<times> (graph_exn + graph_ctx)" where
  "execute_next_stream_step save env ex trace_key cx = (\<lambda>(w, s, pb).
     case next_node cx of
       Inl err \<Rightarrow> ((w, s, pb), [], Inl (Raise err))
     | Inr (node, branch_update, cx0) \<Rightarrow>
         if node = END then ((w, s, pb), [], Inr cx0)
         else (let start_chunks = pub_tasks pb node (cx_step cx0 + 1) ''start'';
                   start_len = length (pb_custom pb)
               in case start_and_run_node ex trace_key node branch_update cx0 w of
                    (w1, em, Inl e) \<Rightarrow>
                      ((w1, s, pb\<lparr>pb_custom := pb_custom pb @ em\<rparr>), start_chunks, Inl e)
                  | (w1, em, Inr (outcome, cx1)) \<Rightarrow>
                      (let pb1 = pb\<lparr>pb_custom := pb_custom pb @ em\<rparr>;
                           ev_chunks = pub_events pb1 (last (cx_events cx1))
                       in case finish_node ex node outcome ''node-end'' cx1 w1 of
                            (w2, Inl err) \<Rightarrow>
                              ((w2, s, pb1), start_chunks @ ev_chunks, Inl (Raise err))
                          | (w2, Inr cx2) \<Rightarrow>
                              (case node_outputs save env pb1 node cx2 (na_update outcome) start_len s of
                                 (s1, outs, err) \<Rightarrow>
                                   ((w2, s1, pb1),
                                    start_chunks @ ev_chunks @ pub_events pb1 (last (cx_events cx2))
                                      @ pub_tasks pb1 node (cx_step cx2) ''finish'' @ outs,
                                    case err of None \<Rightarrow> Inr cx2 | Some e \<Rightarrow> Inl (Raise e))))))"

text \<open>The asynchronous step collects its chunks in a list, which an exception discards.\<close>

definition aexecute_next_stream_step ::
  "'s save_op \<Rightarrow> (int \<Rightarrow> string \<times> int) \<Rightarrow> 'w graph_executor \<Rightarrow> string option \<Rightarrow> graph_ctx
   \<Rightarrow> ('w, 's) stream_state
   \<Rightarrow> ('w, 's) stream_state \<times> stream_chunk list \<times> (graph_exn + graph_ctx)" where
  "aexecute_next_stream_step save env ex trace_key cx = (\<lambda>(w, s, pb).
     case next_node cx of
       Inl err \<Rightarrow> ((w, s, pb), [], Inl (Raise err))
     | Inr (node, branch_update, cx0) \<Rightarrow>
         if node = END then ((w, s, pb), [], Inr cx0)
         else (let start_chunks = pub_tasks pb node (cx_step cx0 + 1) ''start'';
                   start_len = length (pb_custom pb)
               in case astart_and_run_node ex trace_key node branch_update cx0 w of
                    (w1, em, Inl e) \<Rightarrow>
                      ((w1, s, pb\<lparr>pb_custom := pb_custom pb @ em\<rparr>), [], Inl e)
                  | (w1, em, Inr (outcome, cx1)) \<Rightarrow>
                      (let pb1 = pb\<lparr>pb_custom := pb_custom pb @ em\<rparr>;
                           ev_chunks = pub_events pb1 (last (cx_events cx1))
                       in case afinish_node ex node outcome ''node-end'' cx1 w1 of
                            (w2, Inl err) \<Rightarrow> ((w2, s, pb1), [], Inl (Raise err))
                          | (w2, Inr cx2) \<Rightarrow>
                              (case node_outputs save env pb1 node cx2 (na_update outcome) start_len s of
                                 (s1, outs, err) \<Rightarrow>
                                   (case err of
                                      Some e \<Rightarrow> ((w2, s1, pb1), [], Inl (Raise e))
                                    | None \<Rightarrow>
                                        ((w2, s1, pb1),
                                         start_chunks @ ev_chunks @ pub_events pb1 (last (cx_events cx2))
                                           @ pub_tasks pb1 node (cx_step cx2) ''finish'' @ outs,
                                         Inr cx2))))))"

section \<open>Streamed runs\<close>

text \<open>A streamed step that succeeds is a plain step of the same executor.\<close>

lemma stream_step_is_step:
  assumes "execute_next_stream_step save env ex tk cx (w, s, pb) = ((w', s', pb'), chs, Inr cx')"
  shows "execute_next_event_step ex tk cx w = (w', Inr cx')"
  using assms
  by (auto simp: execute_next_stream_step_def execute_next_event_step_def Let_def
      split: sum.splits prod.splits if_splits option.splits)

function run_stream ::
  "'s save_op \<Rightarrow> (int \<Rightarrow> string \<times> int) \<Rightarrow> 'w graph_executor \<Rightarrow> string option \<Rightarrow> graph_ctx
   \<Rightarrow> ('w, 's) stream_state
   \<Rightarrow> ('w, 's) stream_state \<times> stream_chunk list \<times> (graph_exn + graph_ctx)" where
  "run_stream save env ex trace_key cx st =
     (if cx_pending cx = [] then (st, [], Inr cx)
      else (case execute_next_stream_step save env ex trace_key cx st of
              (st1, chs, Inl e) \<Rightarrow> (st1, chs, Inl e)
            | (st1, chs, Inr cx1) \<Rightarrow>
                (case run_stream save env ex trace_key cx1 st1 of
                   (st2, chs2, r) \<Rightarrow> (st2, chs @ chs2, r))))"
  by pat_completeness auto
termination
proof (relation "measures [\<lambda>(save, env, ex, tk, cx, st). nat (plan_step_limit (ex_plan ex) - cx_step cx),
                           \<lambda>(save, env, ex, tk, cx, st). length (cx_pending cx)]", goal_cases)
  case 1
  show ?case by simp
next
  case (2 save env ex tk cx st x y chs r cx1)
  obtain w s pb w1 s1 pb1 where "st = (w, s, pb)" "x = (w1, s1, pb1)" by (metis prod_cases3)
  with 2 have "execute_next_stream_step save env ex tk cx (w, s, pb) = ((w1, s1, pb1), chs, Inr cx1)" by simp
  from execute_next_event_step_Inr [OF stream_step_is_step [OF this]] show ?case by auto
qed

declare run_stream.simps [simp del]

definition stream_context ::
  "'s save_op \<Rightarrow> (int \<Rightarrow> string \<times> int) \<Rightarrow> 'w graph_executor \<Rightarrow> string option \<Rightarrow> graph_ctx
   \<Rightarrow> ('w, 's) stream_state
   \<Rightarrow> ('w, 's) stream_state \<times> stream_chunk list \<times> (graph_exn + graph_ctx)" where
  "stream_context save env ex trace_key cx = (\<lambda>(w, s, pb).
     (let (start, cx0) = publish ''start'' None 0
            [(''pending'', PTuple (map target_val (cx_pending cx)))] cx
      in case run_stream save env ex trace_key cx0 (w, s, pb) of
           (st1, chs, Inl e) \<Rightarrow> (st1, pub_events pb start @ chs, Inl e)
         | ((w1, s1, pb1), chs, Inr cx1) \<Rightarrow>
             (let cx2 = record_trace trace_key cx1;
                  (complete, cx3) = publish ''complete'' None (cx_step cx2) (complete_detail cx2) cx2
              in ((w1, s1, pb1), pub_events pb start @ chs @ pub_events pb1 complete, Inr cx3))))"

text \<open>The runtime's thread and store are needed only when checkpoints are streamed.\<close>

definition make_publisher ::
  "string list \<Rightarrow> bool \<Rightarrow> string option \<Rightarrow> bool \<Rightarrow> publisher result" where
  "make_publisher modes multi thread_id has_checkpointer =
     (if ''checkpoints'' \<notin> set modes
      then Inr \<lparr>pb_modes = modes, pb_multi = multi, pb_custom = [], pb_thread = None\<rparr>
      else case thread_id of
             None \<Rightarrow> Inl (RuntimeGraphRuntimeError ''runtime graph thread_id is not configured'')
           | Some t \<Rightarrow>
               if has_checkpointer
               then Inr \<lparr>pb_modes = modes, pb_multi = multi, pb_custom = [], pb_thread = Some t\<rparr>
               else Inl (RuntimeGraphRuntimeError ''runtime graph checkpointer is not configured''))"

definition stream ::
  "'s save_op \<Rightarrow> (int \<Rightarrow> string \<times> int) \<Rightarrow> 'w graph_executor \<Rightarrow> stream_mode \<Rightarrow> string option
   \<Rightarrow> string option \<Rightarrow> bool \<Rightarrow> state \<Rightarrow> 'w \<times> 's
   \<Rightarrow> ('w \<times> 's) \<times> stream_chunk list \<times> (graph_exn + graph_ctx)" where
  "stream save env ex sm trace_key thread_id has_ck initial_state = (\<lambda>(w, s).
     case res_bind (validated_stream_modes sm)
            (\<lambda>modes. make_publisher modes (is_multi sm) thread_id has_ck) of
       Inl e \<Rightarrow> ((w, s), [], Inl (Raise e))
     | Inr pb \<Rightarrow>
         (case stream_context save env ex trace_key (ctx_from_initial (ex_edges ex) initial_state) (w, s, pb) of
            ((w1, s1, pb1), chs, r) \<Rightarrow> ((w1, s1), chs, r)))"

section \<open>Asynchronous streams\<close>

lemma aexecute_next_stream_step_await:
  "aexecute_next_stream_step save env ex tk cx st =
     (case execute_next_stream_step save env (await_executor ex) tk cx st of
        (st1, chs, Inl e) \<Rightarrow> (st1, [], Inl e)
      | (st1, chs, Inr cx1) \<Rightarrow> (st1, chs, Inr cx1))"
  by (cases st)
    (auto simp: aexecute_next_stream_step_def execute_next_stream_step_def Let_def
      astart_and_run_node_await afinish_node_await split: sum.splits prod.splits option.splits)

function arun_stream ::
  "'s save_op \<Rightarrow> (int \<Rightarrow> string \<times> int) \<Rightarrow> 'w graph_executor \<Rightarrow> string option \<Rightarrow> graph_ctx
   \<Rightarrow> ('w, 's) stream_state
   \<Rightarrow> ('w, 's) stream_state \<times> stream_chunk list \<times> (graph_exn + graph_ctx)" where
  "arun_stream save env ex trace_key cx st =
     (if cx_pending cx = [] then (st, [], Inr cx)
      else (case aexecute_next_stream_step save env ex trace_key cx st of
              (st1, chs, Inl e) \<Rightarrow> (st1, chs, Inl e)
            | (st1, chs, Inr cx1) \<Rightarrow>
                (case arun_stream save env ex trace_key cx1 st1 of
                   (st2, chs2, r) \<Rightarrow> (st2, chs @ chs2, r))))"
  by pat_completeness auto
termination
proof (relation "measures [\<lambda>(save, env, ex, tk, cx, st). nat (plan_step_limit (ex_plan ex) - cx_step cx),
                           \<lambda>(save, env, ex, tk, cx, st). length (cx_pending cx)]", goal_cases)
  case 1
  show ?case by simp
next
  case (2 save env ex tk cx st x y chs r cx1)
  obtain w s pb w1 s1 pb1 where st: "st = (w, s, pb)" "x = (w1, s1, pb1)" by (metis prod_cases3)
  with 2 have "execute_next_stream_step save env (await_executor ex) tk cx (w, s, pb) =
      ((w1, s1, pb1), chs, Inr cx1)"
    by (auto simp: aexecute_next_stream_step_await split: prod.splits sum.splits)
  from execute_next_event_step_Inr [OF stream_step_is_step [OF this]] show ?case by auto
qed

declare arun_stream.simps [simp del]

definition astream_context ::
  "'s save_op \<Rightarrow> (int \<Rightarrow> string \<times> int) \<Rightarrow> 'w graph_executor \<Rightarrow> string option \<Rightarrow> graph_ctx
   \<Rightarrow> ('w, 's) stream_state
   \<Rightarrow> ('w, 's) stream_state \<times> stream_chunk list \<times> (graph_exn + graph_ctx)" where
  "astream_context save env ex trace_key cx = (\<lambda>(w, s, pb).
     (let (start, cx0) = publish ''start'' None 0
            [(''pending'', PTuple (map target_val (cx_pending cx)))] cx
      in case arun_stream save env ex trace_key cx0 (w, s, pb) of
           (st1, chs, Inl e) \<Rightarrow> (st1, pub_events pb start @ chs, Inl e)
         | ((w1, s1, pb1), chs, Inr cx1) \<Rightarrow>
             (let cx2 = record_trace trace_key cx1;
                  (complete, cx3) = publish ''complete'' None (cx_step cx2) (complete_detail cx2) cx2
              in ((w1, s1, pb1), pub_events pb start @ chs @ pub_events pb1 complete, Inr cx3))))"

definition astream ::
  "'s save_op \<Rightarrow> (int \<Rightarrow> string \<times> int) \<Rightarrow> 'w graph_executor \<Rightarrow> stream_mode \<Rightarrow> string option
   \<Rightarrow> string option \<Rightarrow> bool \<Rightarrow> state \<Rightarrow> 'w \<times> 's
   \<Rightarrow> ('w \<times> 's) \<times> stream_chunk list \<times> (graph_exn + graph_ctx)" where
  "astream save env ex sm trace_key thread_id has_ck initial_state = (\<lambda>(w, s).
     case res_bind (validated_stream_modes sm)
            (\<lambda>modes. make_publisher modes (is_multi sm) thread_id has_ck) of
       Inl e \<Rightarrow> ((w, s), [], Inl (Raise e))
     | Inr pb \<Rightarrow>
         (case astream_context save env ex trace_key (ctx_from_initial (ex_edges ex) initial_state) (w, s, pb) of
            ((w1, s1, pb1), chs, r) \<Rightarrow> ((w1, s1), chs, r)))"

lemma arun_stream_await:
  "\<exists>lost. run_stream save env (await_executor ex) tk cx st =
     (case arun_stream save env ex tk cx st of (st', chs, r) \<Rightarrow> (st', chs @ lost, r)) \<and>
     (is_ok (snd (snd (arun_stream save env ex tk cx st))) \<longrightarrow> lost = [])"
proof (induction save env ex tk cx st rule: arun_stream.induct)
  case (1 save env ex tk cx st)
  show ?case
  proof (cases "cx_pending cx = []")
    case True
    then show ?thesis by (simp add: arun_stream.simps run_stream.simps)
  next
    case False
    obtain st1 chs r where s: "execute_next_stream_step save env (await_executor ex) tk cx st = (st1, chs, r)"
      by (metis prod_cases3)
    show ?thesis
    proof (cases r)
      case (Inl e)
      with s False show ?thesis
        by (simp add: arun_stream.simps [of save env ex] run_stream.simps [of save env "await_executor ex"]
            aexecute_next_stream_step_await)
    next
      case (Inr cx1)
      with s have a: "aexecute_next_stream_step save env ex tk cx st = (st1, chs, Inr cx1)"
        by (simp add: aexecute_next_stream_step_await)
      from "1.IH" [OF False a [symmetric] HOL.refl HOL.refl] s Inr a False show ?thesis
        by (auto simp: arun_stream.simps [of save env ex tk cx] run_stream.simps [of save env "await_executor ex" tk cx]
            split: prod.splits)
    qed
  qed
qed

text \<open>
  Asynchronous streaming against synchronous streaming of the awaited executor: worlds, store
  and outcome always agree, and so do the chunks of a stream that completes. When a step
  raises, the asynchronous stream has delivered a prefix of the synchronous chunks: those of
  the failing step are lost.
\<close>

theorem astream_is_stream_prefix:
  "\<exists>lost. stream save env (await_executor ex) sm tk tid hc st0 ws =
     (case astream save env ex sm tk tid hc st0 ws of (ws', chs, r) \<Rightarrow> (ws', chs @ lost, r)) \<and>
     (is_ok (snd (snd (astream save env ex sm tk tid hc st0 ws))) \<longrightarrow> lost = [])"
proof (cases "res_bind (validated_stream_modes sm) (\<lambda>modes. make_publisher modes (is_multi sm) tid hc)")
  case (Inl e)
  then show ?thesis by (cases ws) (simp add: stream_def astream_def)
next
  case (Inr pb)
  obtain w s where ws: "ws = (w, s)" by (cases ws)
  let ?cx = "snd (publish ''start'' None 0 [(''pending'', PTuple (map target_val
     (cx_pending (ctx_from_initial (ex_edges ex) st0))))] (ctx_from_initial (ex_edges ex) st0))"
  obtain st1 chs r where a: "arun_stream save env ex tk ?cx (w, s, pb) = (st1, chs, r)" by (metis prod_cases3)
  from arun_stream_await [of save env ex tk ?cx "(w, s, pb)"] a obtain lost where
    r: "run_stream save env (await_executor ex) tk ?cx (w, s, pb) = (st1, chs @ lost, r)" "is_ok r \<longrightarrow> lost = []"
    by auto
  obtain w1 s1 pb1 where st1: "st1 = (w1, s1, pb1)" by (metis prod_cases3)
  show ?thesis
    using a r Inr
    by (intro exI [of _ lost], cases r)
      (simp_all add: ws st1 stream_def astream_def stream_context_def astream_context_def Let_def case_prod_beta
        split: prod.splits)
qed

section \<open>Projections of a stream\<close>

text \<open>\<open>RuntimeGraphStreamProjection\<close>: the tagged chunks, their modes, the chunks of one mode.\<close>

definition iter_mode :: "string \<Rightarrow> stream_chunk list \<Rightarrow> chunk list" where
  "iter_mode mode chs = map snd (filter (\<lambda>c. fst c = Some mode) chs)"

definition projection_modes :: "stream_chunk list \<Rightarrow> string list" where
  "projection_modes chs = rev (remdups (rev (List.map_filter fst chs)))"

definition stream_projection ::
  "'s save_op \<Rightarrow> (int \<Rightarrow> string \<times> int) \<Rightarrow> 'w graph_executor \<Rightarrow> stream_mode option \<Rightarrow> string option
   \<Rightarrow> string option \<Rightarrow> bool \<Rightarrow> state \<Rightarrow> 'w \<times> 's
   \<Rightarrow> ('w \<times> 's) \<times> stream_chunk list \<times> (graph_exn + graph_ctx)" where
  "stream_projection save env ex sm trace_key thread_id has_ck initial_state ws =
     stream save env ex (ManyModes (normalize_stream_modes sm)) trace_key thread_id has_ck initial_state ws"

lemma iter_mode_simps [simp]:
  "iter_mode m [] = []" "iter_mode m (xs @ ys) = iter_mode m xs @ iter_mode m ys"
  by (simp_all add: iter_mode_def)

lemma iter_mode_for_modes:
  assumes "pb_multi pb" "distinct (pb_modes pb)"
  shows "iter_mode m (for_modes pb wanted ch) =
    (if m \<in> set (pb_modes pb) \<and> m \<in> set wanted then [ch] else [])"
proof -
  have "iter_mode m (map (\<lambda>m. emit pb m ch) ms) = (if m \<in> set ms then [ch] else [])" if "distinct ms" for ms
    using that assms(1) by (induction ms) (auto simp: iter_mode_def emit_def)
  from this [of "filter (\<lambda>m. m \<in> set wanted) (pb_modes pb)"] assms(2) show ?thesis
    by (auto simp: for_modes_def)
qed

lemma iter_mode_concat_Nil: "(\<And>x. x \<in> set xs \<Longrightarrow> iter_mode m (f x) = []) \<Longrightarrow> iter_mode m (concat (map f xs)) = []"
  by (induction xs) simp_all

lemma node_outputs_modes:
  assumes "pb_multi pb" "distinct (pb_modes pb)"
    and "node_outputs save env pb node cx u start s = (s', outs, None)"
  shows "iter_mode ''events'' outs = []"
    "iter_mode ''values'' outs = (if ''values'' \<in> set (pb_modes pb) then [ChValues (cx_state cx)] else [])"
proof -
  note f = iter_mode_for_modes [OF assms(1,2)]
  from assms(3) obtain cks where ck: "pub_checkpoints save env pb node cx s = (s', Inr cks)"
    and outs: "outs = pub_custom pb start @ cks @ pub_updates pb node u @ pub_values pb (cx_state cx)
               @ pub_messages pb node (cx_step cx) u"
    by (auto simp: node_outputs_def split: prod.splits sum.splits)
  have "iter_mode m cks = []" if "m \<noteq> ''checkpoints''" for m
    using ck that by (auto simp: pub_checkpoints_def f split: option.splits prod.splits sum.splits)
  moreover have "iter_mode m (pub_custom pb start) = []" if "m \<noteq> ''custom''" for m
    using that by (auto simp: pub_custom_def f intro!: iter_mode_concat_Nil)
  moreover have "iter_mode m (pub_messages pb node (cx_step cx) u) = []" if "m \<noteq> ''messages''" for m
    using that by (auto simp: pub_messages_def f intro!: iter_mode_concat_Nil split: option.splits pyval.splits)
  ultimately show "iter_mode ''events'' outs = []"
    "iter_mode ''values'' outs = (if ''values'' \<in> set (pb_modes pb) then [ChValues (cx_state cx)] else [])"
    by (simp_all add: outs pub_updates_def pub_values_def f)
qed

text \<open>What one successful streamed step shows, mode by mode.\<close>

lemma stream_step_chunks:
  assumes "pb_multi pb" "distinct (pb_modes pb)"
    and step: "execute_next_stream_step save env ex tk cx (w, s, pb) = ((w', s', pb'), chs, Inr cx')"
  shows "pb_multi pb' \<and> pb_modes pb' = pb_modes pb \<and>
    (chs = [] \<and> cx_events cx' = cx_events cx \<and> cx_trace cx' = cx_trace cx \<and> cx_state cx' = cx_state cx
     \<or> (\<exists>e1 e2 n. cx_events cx' = cx_events cx @ [e1, e2] \<and> cx_trace cx' = cx_trace cx @ [n] \<and>
          (''events'' \<in> set (pb_modes pb) \<longrightarrow> iter_mode ''events'' chs = [ChEvent e1, ChEvent e2]) \<and>
          (''values'' \<in> set (pb_modes pb) \<longrightarrow> iter_mode ''values'' chs = [ChValues (cx_state cx')])))"
proof -
  from step obtain node bu cx0 where nn: "next_node cx = Inr (node, bu, cx0)"
    by (auto simp: execute_next_stream_step_def split: sum.splits)
  from nn have cx0: "cx_events cx0 = cx_events cx" "cx_trace cx0 = cx_trace cx" "cx_state cx0 = cx_state cx"
    by (auto elim!: next_node_Inr_cases)
  show ?thesis
  proof (cases "node = END")
    case True
    with step nn assms cx0 show ?thesis by (auto simp: execute_next_stream_step_def)
  next
    case False
    with step nn obtain w1 em outcome cx1 outs where
      sr: "start_and_run_node ex tk node bu cx0 w = (w1, em, Inr (outcome, cx1))"
      and fn: "finish_node ex node outcome ''node-end'' cx1 w1 = (w', Inr cx')"
      and pb': "pb' = pb\<lparr>pb_custom := pb_custom pb @ em\<rparr>"
      and no: "node_outputs save env pb' node cx' (na_update outcome) (length (pb_custom pb)) s = (s', outs, None)"
      and chs: "chs = pub_tasks pb node (cx_step cx0 + 1) ''start'' @ pub_events pb' (last (cx_events cx1))
         @ pub_events pb' (last (cx_events cx')) @ pub_tasks pb' node (cx_step cx') ''finish'' @ outs"
      by (auto simp: execute_next_stream_step_def Let_def split: sum.splits prod.splits option.splits)
    have m': "pb_multi pb'" "distinct (pb_modes pb')" "pb_modes pb' = pb_modes pb"
      using assms by (simp_all add: pb')
    note f = iter_mode_for_modes [OF assms(1,2)] iter_mode_for_modes [OF m'(1,2)]
    from sr obtain e1 where e1: "cx_events cx1 = cx_events cx @ [e1]" "cx_trace cx1 = cx_trace cx @ [node]"
      by (auto elim!: start_and_run_node_elim simp: cx0 enter_node_def Let_def)
    from fn obtain e2 where e2: "cx_events cx' = cx_events cx1 @ [e2]" "cx_trace cx' = cx_trace cx1"
      by (auto elim!: finish_node_elim)
    have "cx_events cx' = cx_events cx @ [e1, e2]" "cx_trace cx' = cx_trace cx @ [node]"
      using e1 e2 by simp_all
    moreover have "iter_mode ''events'' chs = [ChEvent e1, ChEvent e2]" if "''events'' \<in> set (pb_modes pb)"
      using that node_outputs_modes(1) [OF m'(1,2) no] e1 e2 m'(3)
      by (simp add: chs pub_tasks_def pub_events_def f)
    moreover have "iter_mode ''values'' chs = [ChValues (cx_state cx')]" if "''values'' \<in> set (pb_modes pb)"
      using that node_outputs_modes(2) [OF m'(1,2) no] m'(3)
      by (simp add: chs pub_tasks_def pub_events_def f)
    ultimately show ?thesis using m' by blast
  qed
qed

lemma run_stream_chunks:
  assumes "run_stream save env ex tk cx (w, s, pb) = ((w', s', pb'), chs, Inr cx')"
    and "pb_multi pb" "distinct (pb_modes pb)"
  shows "run_pending ex tk cx w = (w', Inr cx') \<and> pb_multi pb' \<and> pb_modes pb' = pb_modes pb \<and>
    (\<exists>evs ns vs. cx_events cx' = cx_events cx @ evs \<and> cx_trace cx' = cx_trace cx @ ns \<and>
       (''events'' \<in> set (pb_modes pb) \<longrightarrow> iter_mode ''events'' chs = map ChEvent evs) \<and>
       (''values'' \<in> set (pb_modes pb) \<longrightarrow> iter_mode ''values'' chs = map ChValues vs) \<and>
       (''values'' \<in> set (pb_modes pb) \<longrightarrow> length vs = length ns \<and> (if vs = [] then cx_state cx' = cx_state cx else last vs = cx_state cx')))"
  using assms
proof (induction save env ex tk cx "(w, s, pb)" arbitrary: w s pb chs rule: run_stream.induct)
  case (1 save env ex tk cx w s pb)
  show ?case
  proof (cases "cx_pending cx = []")
    case True
    with "1.prems" show ?thesis by (auto simp: run_stream.simps)
  next
    case False
    with "1.prems"(1) obtain w1 s1 pb1 chs1 cx1 chs2 where
      st: "execute_next_stream_step save env ex tk cx (w, s, pb) = ((w1, s1, pb1), chs1, Inr cx1)"
      and rn: "run_stream save env ex tk cx1 (w1, s1, pb1) = ((w', s', pb'), chs2, Inr cx')"
      and chs: "chs = chs1 @ chs2"
      by (subst (asm) run_stream.simps) (auto split: prod.splits sum.splits)
    note sc = stream_step_chunks [OF "1.prems"(2,3) st]
    from sc "1.prems" have pb1: "pb_multi pb1" "distinct (pb_modes pb1)" "pb_modes pb1 = pb_modes pb" by auto
    from "1.hyps" [OF False st [symmetric] HOL.refl HOL.refl rn pb1(1,2)]
    obtain evs ns vs where ih: "run_pending ex tk cx1 w1 = (w', Inr cx')" "pb_multi pb'" "pb_modes pb' = pb_modes pb1"
      "cx_events cx' = cx_events cx1 @ evs" "cx_trace cx' = cx_trace cx1 @ ns"
      "''events'' \<in> set (pb_modes pb) \<Longrightarrow> iter_mode ''events'' chs2 = map ChEvent evs"
      "''values'' \<in> set (pb_modes pb) \<Longrightarrow> iter_mode ''values'' chs2 = map ChValues vs"
      "''values'' \<in> set (pb_modes pb) \<Longrightarrow> length vs = length ns \<and> (if vs = [] then cx_state cx' = cx_state cx1 else last vs = cx_state cx')"
      unfolding pb1(3) by blast
    have run: "run_pending ex tk cx w = (w', Inr cx')"
      using stream_step_is_step [OF st] False ih(1) by (simp add: run_pending.simps [of ex tk cx])
    from sc consider "chs1 = []" "cx_events cx1 = cx_events cx" "cx_trace cx1 = cx_trace cx" "cx_state cx1 = cx_state cx"
      | e1 e2 n where "cx_events cx1 = cx_events cx @ [e1, e2]" "cx_trace cx1 = cx_trace cx @ [n]"
          "''events'' \<in> set (pb_modes pb) \<longrightarrow> iter_mode ''events'' chs1 = [ChEvent e1, ChEvent e2]"
          "''values'' \<in> set (pb_modes pb) \<longrightarrow> iter_mode ''values'' chs1 = [ChValues (cx_state cx1)]"
      by blast
    then show ?thesis
    proof cases
      case 1
      with run ih chs pb1 show ?thesis
        by (auto intro!: exI [of _ evs] exI [of _ ns] exI [of _ vs])
    next
      case 2
      with run ih chs pb1 show ?thesis
        by (auto intro!: exI [of _ "e1 # e2 # evs"] exI [of _ "n # ns"] exI [of _ "cx_state cx1 # vs"])
    qed
  qed
qed

section \<open>Properties\<close>

definition start_event :: "graph_ctx \<Rightarrow> graph_event" where
  "start_event cx = fst (publish ''start'' None 0 [(''pending'', PTuple (map target_val (cx_pending cx)))] cx)"

definition complete_event :: "string option \<Rightarrow> graph_ctx \<Rightarrow> graph_event" where
  "complete_event tk cx =
     fst (publish ''complete'' None (cx_step cx) (complete_detail (record_trace tk cx)) (record_trace tk cx))"

lemma stream_context_Inr:
  assumes "stream_context save env ex tk cx (w, s, pb) = ((w', s', pb'), chs, Inr cx')"
  obtains chs1 cx1 where
    "run_stream save env ex tk (cx\<lparr>cx_events := cx_events cx @ [start_event cx]\<rparr>) (w, s, pb) = ((w', s', pb'), chs1, Inr cx1)"
    "chs = pub_events pb (start_event cx) @ chs1 @ pub_events pb' (complete_event tk cx1)"
    "cx' = (record_trace tk cx1)\<lparr>cx_events := cx_events cx1 @ [complete_event tk cx1]\<rparr>"
proof -
  let ?cx = "cx\<lparr>cx_events := cx_events cx @ [start_event cx]\<rparr>"
  have p: "publish ''start'' None 0 [(''pending'', PTuple (map target_val (cx_pending cx)))] cx = (start_event cx, ?cx)"
    by (simp add: start_event_def publish_def Let_def)
  obtain w1 s1 pb1 chs1 r where r: "run_stream save env ex tk ?cx (w, s, pb) = ((w1, s1, pb1), chs1, r)"
    by (metis prod_cases3)
  show thesis
  proof (cases r)
    case (Inl e)
    with assms r show thesis by (simp add: stream_context_def p)
  next
    case (Inr cx1)
    have q: "publish ''complete'' None (cx_step (record_trace tk cx1)) (complete_detail (record_trace tk cx1)) (record_trace tk cx1)
      = (complete_event tk cx1, (record_trace tk cx1)\<lparr>cx_events := cx_events cx1 @ [complete_event tk cx1]\<rparr>)"
      by (simp add: complete_event_def publish_def Let_def)
    from assms r Inr that [of chs1 cx1] show thesis
      by (simp only: stream_context_def p case_prod_conv Let_def q sum.case prod.inject sum.inject) blast
  qed
qed

lemma run_context_of_pending:
  assumes "run_pending ex tk (cx\<lparr>cx_events := cx_events cx @ [start_event cx]\<rparr>) w = (w', Inr cx1)"
  shows "run_context ex tk cx w =
    (w', Inr ((record_trace tk cx1)\<lparr>cx_events := cx_events cx1 @ [complete_event tk cx1]\<rparr>))"
  using assms by (simp add: run_context_def start_event_def complete_event_def Let_def)

lemma stream_ManyModes:
  assumes "stream save env ex (ManyModes ms) tk tid hc st0 (w, s) = ((w', s'), chs, Inr cx')"
  obtains pb pb' where "pb_multi pb" "pb_modes pb = ms"
    "stream_context save env ex tk (ctx_from_initial (ex_edges ex) st0) (w, s, pb) = ((w', s', pb'), chs, Inr cx')"
proof -
  from assms obtain pb where pb: "res_bind (validated_stream_modes (ManyModes ms))
      (\<lambda>modes. make_publisher modes True tid hc) = Inr pb"
    by (auto simp: stream_def split: sum.splits)
  then have m: "pb_multi pb" "pb_modes pb = ms"
    by (auto simp: res_bind_Inr_iff validated_stream_modes_def make_publisher_def Let_def
        split: if_splits option.splits)
  obtain w1 s1 pb1 chs1 r where r: "stream_context save env ex tk (ctx_from_initial (ex_edges ex) st0) (w, s, pb) = ((w1, s1, pb1), chs1, r)"
    by (metis prod_cases3)
  with assms pb that [OF m] show thesis by (simp add: stream_def)
qed

text \<open>
  Streaming tells the same story as running. A stream over several modes that completes ends
  in the world and the context of the plain run of the graph, and if it includes the \<open>events\<close>
  mode, the chunks of that mode are exactly the event log of the run, in order, none missing
  and none repeated.
\<close>

theorem stream_events_are_the_log:
  assumes "stream save env ex (ManyModes ms) tk tid hc st0 (w, s) = ((w', s'), chs, Inr cx')"
    and "distinct ms" and "''events'' \<in> set ms"
  shows "run_context ex tk (ctx_from_initial (ex_edges ex) st0) w = (w', Inr cx') \<and>
         iter_mode ''events'' chs = map ChEvent (cx_events cx')"
proof -
  let ?cx = "ctx_from_initial (ex_edges ex) st0"
  from assms(1) obtain pb pb' where pb: "pb_multi pb" "pb_modes pb = ms"
    and sc: "stream_context save env ex tk ?cx (w, s, pb) = ((w', s', pb'), chs, Inr cx')"
    by (rule stream_ManyModes)
  from sc obtain chs1 cx1 where
    run: "run_stream save env ex tk (?cx\<lparr>cx_events := cx_events ?cx @ [start_event ?cx]\<rparr>) (w, s, pb) = ((w', s', pb'), chs1, Inr cx1)"
    and chs: "chs = pub_events pb (start_event ?cx) @ chs1 @ pub_events pb' (complete_event tk cx1)"
    and cx': "cx' = (record_trace tk cx1)\<lparr>cx_events := cx_events cx1 @ [complete_event tk cx1]\<rparr>"
    by (rule stream_context_Inr)
  from run_stream_chunks [OF run pb(1)] assms(2) pb obtain evs where
    rp: "run_pending ex tk (?cx\<lparr>cx_events := cx_events ?cx @ [start_event ?cx]\<rparr>) w = (w', Inr cx1)"
    and pb': "pb_multi pb'" "pb_modes pb' = ms"
    and evs: "cx_events cx1 = start_event ?cx # evs" "iter_mode ''events'' chs1 = map ChEvent evs"
    using assms(3) by (auto simp: ctx_from_initial_def)
  have "iter_mode ''events'' (pub_events p e) = [ChEvent e]" if "pb_multi p" "pb_modes p = ms" for p e
    using iter_mode_for_modes [of p] that assms(2,3) by (simp add: pub_events_def)
  with pb pb' evs run_context_of_pending [OF rp] show ?thesis by (simp add: chs cx')
qed

text \<open>
  The \<open>values\<close> mode shows one state per executed node, and the last of them is the state
  that the run returns (without a trace key, which is written once more at the end).
\<close>

theorem stream_values_end_in_result:
  assumes "stream save env ex (ManyModes ms) None tid hc st0 (w, s) = ((w', s'), chs, Inr cx')"
    and "distinct ms" and "''values'' \<in> set ms"
  shows "\<exists>vs. iter_mode ''values'' chs = map ChValues vs \<and> length vs = length (cx_trace cx') \<and>
           (if vs = [] then cx_state cx' = st0 else last vs = cx_state cx')"
proof -
  let ?cx = "ctx_from_initial (ex_edges ex) st0"
  from assms(1) obtain pb pb' where pb: "pb_multi pb" "pb_modes pb = ms"
    and sc: "stream_context save env ex None ?cx (w, s, pb) = ((w', s', pb'), chs, Inr cx')"
    by (rule stream_ManyModes)
  from sc obtain chs1 cx1 where
    run: "run_stream save env ex None (?cx\<lparr>cx_events := cx_events ?cx @ [start_event ?cx]\<rparr>) (w, s, pb) = ((w', s', pb'), chs1, Inr cx1)"
    and chs: "chs = pub_events pb (start_event ?cx) @ chs1 @ pub_events pb' (complete_event None cx1)"
    and cx': "cx' = (record_trace None cx1)\<lparr>cx_events := cx_events cx1 @ [complete_event None cx1]\<rparr>"
    by (rule stream_context_Inr)
  from run_stream_chunks [OF run pb(1)] assms(2) pb obtain ns vs where
    pb': "pb_multi pb'" "pb_modes pb' = ms"
    and vs: "cx_trace cx1 = ns" "iter_mode ''values'' chs1 = map ChValues vs"
      "length vs = length ns" "if vs = [] then cx_state cx1 = st0 else last vs = cx_state cx1"
    using assms(3) by (auto simp: ctx_from_initial_def)
  have "iter_mode ''values'' (pub_events p e) = []" if "pb_multi p" "pb_modes p = ms" for p e
    using iter_mode_for_modes [of p] that assms(2) by (simp add: pub_events_def)
  with pb pb' vs show ?thesis
    by (intro exI [of _ vs]) (simp add: chs cx' record_trace_def)
qed

definition demo_stream ::
  "(unit \<times> mem_ckpt) \<times> stream_chunk list \<times> (graph_exn + graph_ctx)" where
  "demo_stream = stream mem_save (\<lambda>n. (''c'', n)) (demo_executor (pure_action (demo_update ''b'')))
     (ManyModes [''events'', ''values'', ''checkpoints'']) None (Some ''t'') True [] ((), mem_empty)"

lemma demo_stream_completes:
  "\<exists>w' s' chs cx'. demo_stream = ((w', s'), chs, Inr cx') \<and> cx_trace cx' = [''a'', ''b'']"
proof -
  have "case demo_stream of (_, _, Inl _) \<Rightarrow> False | (_, _, Inr cx') \<Rightarrow> cx_trace cx' = [''a'', ''b'']"
    by code_simp
  then show ?thesis by (auto split: prod.splits sum.splits)
qed

theorem stream_events_are_the_log_witness:
  "\<exists>ws chs cx'. demo_stream = (ws, chs, Inr cx') \<and>
     iter_mode ''events'' chs = map ChEvent (cx_events cx') \<and> cx_trace cx' = [''a'', ''b'']"
proof -
  from demo_stream_completes obtain w' s' chs cx' where
    d: "demo_stream = ((w', s'), chs, Inr cx')" "cx_trace cx' = [''a'', ''b'']" by blast
  from stream_events_are_the_log [OF d(1) [unfolded demo_stream_def]] d show ?thesis by auto
qed

theorem stream_values_end_in_result_witness:
  "\<exists>ws chs cx' vs. demo_stream = (ws, chs, Inr cx') \<and> iter_mode ''values'' chs = map ChValues vs \<and>
     length vs = 2 \<and> last vs = cx_state cx'"
proof -
  from demo_stream_completes obtain w' s' chs cx' where
    d: "demo_stream = ((w', s'), chs, Inr cx')" "cx_trace cx' = [''a'', ''b'']" by blast
  from stream_values_end_in_result [OF d(1) [unfolded demo_stream_def]] d obtain vs where
    "iter_mode ''values'' chs = map ChValues vs" "length vs = 2"
    "if vs = [] then cx_state cx' = [] else last vs = cx_state cx'" by auto
  moreover from this have "vs \<noteq> []" by auto
  ultimately show ?thesis using d(1) by fastforce
qed

definition demo_astream ::
  "(unit \<times> mem_ckpt) \<times> stream_chunk list \<times> (graph_exn + graph_ctx)" where
  "demo_astream = astream mem_save (\<lambda>n. (''c'', n)) (demo_executor (pure_action (demo_update ''b'')))
     (ManyModes [''events'', ''values'', ''checkpoints'']) None (Some ''t'') True [] ((), mem_empty)"

theorem astream_is_stream_prefix_witness:
  "is_ok (snd (snd demo_astream)) \<and>
   stream mem_save (\<lambda>n. (''c'', n)) (await_executor (demo_executor (pure_action (demo_update ''b''))))
     (ManyModes [''events'', ''values'', ''checkpoints'']) None (Some ''t'') True [] ((), mem_empty) = demo_astream"
proof
  show ok: "is_ok (snd (snd demo_astream))" by code_simp
  from astream_is_stream_prefix [of mem_save "\<lambda>n. (''c'', n)" "demo_executor (pure_action (demo_update ''b''))"
      "ManyModes [''events'', ''values'', ''checkpoints'']" None "Some ''t''" True "[]" "((), mem_empty)"] ok
  show "stream mem_save (\<lambda>n. (''c'', n)) (await_executor (demo_executor (pure_action (demo_update ''b''))))
     (ManyModes [''events'', ''values'', ''checkpoints'']) None (Some ''t'') True [] ((), mem_empty) = demo_astream"
    by (auto simp: demo_astream_def [symmetric] split: prod.splits)
qed

end
