(* ===== verification/Durable_Receipt.thy ===== *)
theory Durable_Receipt
  imports Durable_Envelope
begin

text \<open>
  Properties of durable adapters: when one can be built, and that the receipt it prints
  parses back to its policy.
\<close>

section \<open>Requirements on the backend\<close>

definition requirement_met :: "(mval \<Rightarrow> string) \<Rightarrow> mval pydict \<Rightarrow> string \<Rightarrow> string \<Rightarrow> bool" where
  "requirement_met so req fld actual \<longleftrightarrow>
     (\<forall>v. dict_get req fld = Some v \<longrightarrow> truthy v \<longrightarrow> mstr so v = actual)"

definition backend_meets :: "(mval \<Rightarrow> string) \<Rightarrow> mval pydict \<Rightarrow> turso_backend \<Rightarrow> bool" where
  "backend_meets so req b \<longleftrightarrow>
     requirement_met so req ''driver'' (tb_driver b) \<and>
     requirement_met so req ''sync-model'' (tb_sync_model b) \<and>
     requirement_met so req ''vector-index'' (tb_vector_index b) \<and>
     requirement_met so req ''vector-query'' (tb_vector_query b) \<and>
     (\<forall>v. dict_get req ''concurrent-writes'' = Some v \<longrightarrow> require_true v \<longrightarrow> tb_concurrent_writes b) \<and>
     (\<forall>v. dict_get req ''ai-vector-search'' = Some v \<longrightarrow> require_true v \<longrightarrow> tb_ai_vector_search b)"

lemma check_requirement_iff: "check_requirement so fld req a = Inr u \<longleftrightarrow> requirement_met so req fld a"
  by (cases "dict_get req fld") (auto simp: check_requirement_def requirement_met_def policy_error_def Let_def)

lemma check_capability_iff:
  "check_capability fld req a = Inr u \<longleftrightarrow> (\<forall>v. dict_get req fld = Some v \<longrightarrow> require_true v \<longrightarrow> a)"
  by (cases "dict_get req fld") (auto simp: check_capability_def policy_error_def)

lemma validate_requirements_iff:
  "validate_turso_backend_requirements so (MMap req) b = Inr u \<longleftrightarrow> backend_meets so req b"
  by (auto simp: validate_turso_backend_requirements_def backend_meets_def res_bind_Inr_iff
      check_requirement_iff check_capability_iff requirement_met_def)

text \<open>
  A Turso adapter is built exactly when the policy input coerces to a policy and the backend
  has every capability the policy asks for. The policy it then carries is valid: owned by
  Scheme, of the known schema and strategy, with a positive retention limit if any, supported
  repair mode and action classes, and a valid receipt.
\<close>

theorem adapter_turso_iff:
  "adapter_turso so b v = Inr a \<longleftrightarrow>
     (\<exists>p. coerce_policy so v = Inr p \<and> policy_ok p \<and> backend_meets so (pol_backend p) b \<and>
          a = \<lparr>ad_policy = p, ad_backend = ''turso'', ad_store_backend = Some b\<rparr>)"
  using coerce_policy_ok [of so v]
  by (auto simp: adapter_turso_def turso_open_def res_bind_Inr_iff validate_policy_iff
      validate_requirements_iff)

text \<open>
  An adapter built from an envelope rests on a consistent envelope (its own schema and owner,
  agreeing checkpoint stores, an operation count that matches, command lines that start with
  the backend executable, three valid receipts) and always carries a valid policy that demands
  a matching plan digest and keeps the whole history.
\<close>

theorem adapter_from_envelope_sound:
  assumes "adapter_turso_from_envelope so b v = Inr a"
  shows "policy_ok (ad_policy a) \<and> pol_require_plan_digest_match (ad_policy a) \<and>
         pol_history_retention_limit (ad_policy a) = None \<and>
         (\<exists>e. coerce_envelope so v = Inr e \<and> envelope_ok e \<and>
              pol_checkpoint_store (ad_policy a) = env_checkpoint_store_ref e \<and>
              pol_policy_id (ad_policy a) = env_policy_id e \<and>
              pol_receipt (ad_policy a) = env_receipt e)"
proof -
  from assms obtain e p where e: "coerce_envelope so v = Inr e" "to_policy_manifest e = Inr p"
    "adapter_turso so b (PolManifest p) = Inr a"
    by (auto simp: adapter_turso_from_envelope_def res_bind_Inr_iff)
  from e(3) have "ad_policy a = p"
    by (auto simp: adapter_turso_def res_bind_Inr_iff validate_policy_iff)
  with e(2) coerce_envelope_ok [OF e(1)] e(1) show ?thesis
    by (auto simp: to_policy_manifest_def validate_policy_iff default_policy_def envelope_ok_def)
qed

section \<open>Receipts parse back\<close>

definition plain :: "string \<Rightarrow> bool" where
  "plain s \<longleftrightarrow> trimmed s \<and> (\<forall>c \<in> set s. \<not> is_newline c)"

definition plain_key :: "string \<Rightarrow> bool" where
  "plain_key k \<longleftrightarrow> plain k \<and> k \<noteq> [] \<and> hd k \<noteq> CHR ''#'' \<and> CHR ''='' \<notin> set k"

lemma plain_line:
  assumes "plain_key k" "plain v"
  shows "parse_line (k @ ''='' @ v) = Some (k, v)" "plain (k @ ''='' @ v)"
proof -
  have hd: "\<not> is_space (hd k)" "hd (k @ CHR ''='' # v) = hd k"
    using assms by (auto simp: plain_key_def plain_def trimmed_def)
  have "\<not> is_space (last (k @ CHR ''='' # v))"
    using assms by (auto simp: plain_def trimmed_def is_space_def)
  with hd have t: "trimmed (k @ CHR ''='' # v)" by (simp add: trimmed_def)
  show "parse_line (k @ ''='' @ v) = Some (k, v)"
    using assms hd
    by (simp add: parse_line_def strip_trimmed [OF t] split_once_append plain_key_def plain_def
        strip_trimmed)
  show "plain (k @ ''='' @ v)"
    using assms t by (auto simp: plain_def plain_key_def is_newline_def)
qed

lemma map_filter_fields:
  assumes "\<And>k v. (k, v) \<in> set fs \<Longrightarrow> plain_key k \<and> plain v"
  shows "List.map_filter parse_line (map (\<lambda>(k, v). k @ ''='' @ v) fs) = fs"
  using assms
proof (induction fs)
  case (Cons f fs)
  obtain k v where f: "f = (k, v)" by (cases f)
  with Cons.prems have "parse_line (k @ ''='' @ v) = Some (k, v)" by (intro plain_line) auto
  moreover have "List.map_filter parse_line (map (\<lambda>(k, v). k @ ''='' @ v) fs) = fs"
    by (rule Cons.IH) (use Cons.prems in auto)
  ultimately show ?case by (simp add: f List.map_filter_def)
qed (simp add: List.map_filter_def)

lemma parse_receipt_lines:
  assumes "\<And>k v. (k, v) \<in> set fs \<Longrightarrow> plain_key k \<and> plain v" "dict_wf fs"
    and h: "plain h" "parse_line h = None"
  shows "parse_manifest_lines
           (str_join [CHR 0x0A] (h # map (\<lambda>(k, v). k @ ''='' @ v) fs) @ [CHR 0x0A]) = fs"
proof -
  let ?ls = "h # map (\<lambda>(k, v). k @ ''='' @ v) fs"
  have "\<not> is_newline c" if "l \<in> set ?ls" "c \<in> set l" for l c
    using that assms(1) h(1) plain_line(2) by (fastforce simp: plain_def)
  then have "splitlines (str_join [CHR 0x0A] ?ls @ [CHR 0x0A]) = ?ls"
    by (subst str_join_newline) (simp, rule splitlines_lines)
  with h(2) map_filter_fields [OF assms(1)] assms(2) show ?thesis
    by (simp add: parse_manifest_lines_def List.map_filter_def)
qed

definition plain_policy :: "durable_policy \<Rightarrow> bool" where
  "plain_policy p \<longleftrightarrow> plain (pol_policy_id p) \<and> plain (pol_checkpoint_store p) \<and>
     plain (pol_runtime_owner p) \<and> plain (pol_receipt_schema p) \<and> plain (pol_receipt_kind p)"

definition plain_backend :: "turso_backend \<Rightarrow> bool" where
  "plain_backend b \<longleftrightarrow> plain (tb_driver b) \<and> plain (tb_driver_package b) \<and>
     plain (tb_driver_version b) \<and> plain (tb_connection_module b) \<and> plain (tb_sync_model b) \<and>
     plain (tb_vector_index b) \<and> plain (tb_vector_query b)"

lemma plain_int_str: "plain (int_str i)"
  by (auto simp: plain_def int_str_trimmed int_str_no_newline)

lemma plain_bool_word: "plain (bool_word b)"
  by (auto simp: plain_def bool_word_def trimmed_def is_space_def is_newline_def)

lemma allowed_words:
  "w \<in> set default_action_classes \<Longrightarrow> plain w \<and> w \<noteq> [] \<and> CHR '','' \<notin> set w"
  "w \<in> set allowed_repair_modes \<Longrightarrow> plain w"
  "plain policy_schema" "plain ''scheme''" "plain ''turso''" "plain ''runtime-generated''"
  "plain ''provided''"
  by (auto simp: default_action_classes_def allowed_repair_modes_def policy_schema_def plain_def
      trimmed_def is_space_def is_newline_def)

lemma plain_append_comma:
  "plain x \<Longrightarrow> plain y \<Longrightarrow> x \<noteq> [] \<Longrightarrow> y \<noteq> [] \<Longrightarrow> plain (x @ '','' @ y)"
  by (auto simp: plain_def trimmed_def is_newline_def)

lemma plain_classes:
  "set ws \<subseteq> set default_action_classes \<Longrightarrow> plain (str_join '','' ws) \<and> (str_join '','' ws = [] \<longleftrightarrow> ws = [])"
proof (induction "'',''" ws rule: str_join.induct)
  case 1
  show ?case by (simp add: plain_def trimmed_def)
next
  case (2 x)
  then show ?case using allowed_words(1) by simp
next
  case (3 x y ys)
  then show ?case using allowed_words(1) [of x] plain_append_comma by auto
qed

lemma parse_classes:
  assumes "set ws \<subseteq> set default_action_classes"
  shows "as_str_tuple (MStr (str_join '','' ws)) = Inr ws"
proof (cases "ws = []")
  case False
  have "split_on CHR '','' (str_join '','' ws) = ws"
    using assms allowed_words(1) by (intro split_on_join [OF False]) auto
  moreover have "map strip ws = ws"
    using assms allowed_words(1) by (intro map_idI strip_trimmed) (auto simp: plain_def)
  moreover have "filter (\<lambda>p. p \<noteq> []) ws = ws"
    using assms allowed_words(1) by (auto simp: filter_id_conv)
  ultimately show ?thesis by simp
qed simp

lemma as_bool_word: "as_bool so (MStr (bool_word b)) = b"
  by (simp add: bool_word_def truthy_words_def lower_char_def)

definition limit_field :: "int option \<Rightarrow> string pydict" where
  "limit_field l = (case l of None \<Rightarrow> [] | Some n \<Rightarrow> [(''history-retention-limit'', int_str n)])"

lemma adapter_fields_eq:
  "adapter_fields \<lparr>ad_policy = p, ad_backend = bn, ad_store_backend = Some b\<rparr> =
     [(''manifest-schema'', pol_manifest_schema p), (''policy-id'', pol_policy_id p),
      (''owner'', pol_owner p), (''backend'', bn),
      (''checkpoint-id-strategy'', pol_checkpoint_id_strategy p),
      (''require-plan-digest-match'', bool_word (pol_require_plan_digest_match p)),
      (''checkpoint-store'', pol_checkpoint_store p), (''repair-mode'', pol_repair_mode p),
      (''action-classes'', str_join '','' (pol_action_classes p)),
      (''runtime-owner'', pol_runtime_owner p), (''receipt-schema'', pol_receipt_schema p),
      (''receipt-kind'', pol_receipt_kind p),
      (''receipt-valid'', bool_word (pol_receipt_valid p)),
      (''receipt-diagnostic-count'', int_str (pol_receipt_diagnostic_count p))]
     @ limit_field (pol_history_retention_limit p) @ receipt_fields b"
  by (cases "pol_history_retention_limit p")
     (simp_all add: adapter_fields_def Let_def receipt_fields_def limit_field_def)

definition adapter_keys :: "string list" where
  "adapter_keys = [''manifest-schema'', ''policy-id'', ''owner'', ''backend'',
     ''checkpoint-id-strategy'', ''require-plan-digest-match'', ''checkpoint-store'',
     ''repair-mode'', ''action-classes'', ''runtime-owner'', ''receipt-schema'',
     ''receipt-kind'', ''receipt-valid'', ''receipt-diagnostic-count'',
     ''history-retention-limit'', ''driver'', ''driver-package'', ''driver-version'',
     ''connection-module'', ''concurrent-writes'', ''sync-model'', ''ai-vector-search'',
     ''vector-index'', ''vector-query'']"

lemma adapter_keys_plain: "list_all plain_key adapter_keys"
  by code_simp

lemma adapter_fields_plain:
  assumes "policy_ok p" "plain_policy p" "plain_backend b"
    and "(k, v) \<in> set (adapter_fields \<lparr>ad_policy = p, ad_backend = ''turso'', ad_store_backend = Some b\<rparr>)"
  shows "plain_key k \<and> plain v"
proof
  from assms(4) have "k \<in> set adapter_keys"
    unfolding adapter_fields_eq
    by (auto simp: limit_field_def receipt_fields_def adapter_keys_def split: option.splits)
  with adapter_keys_plain show "plain_key k" by (simp add: list_all_iff)
  have "plain (pol_checkpoint_id_strategy p)" "plain (pol_repair_mode p)"
    "plain (str_join '','' (pol_action_classes p))" "plain (pol_owner p)" "plain (pol_manifest_schema p)"
    using assms(1) allowed_words plain_classes by (auto simp: policy_ok_def)
  with assms(2-4) show "plain v"
    unfolding adapter_fields_eq
    by (auto simp: limit_field_def receipt_fields_def plain_policy_def plain_backend_def
        plain_int_str plain_bool_word allowed_words split: option.splits)
qed

lemma adapter_fields_wf:
  "dict_wf (adapter_fields \<lparr>ad_policy = p, ad_backend = bn, ad_store_backend = Some b\<rparr>)"
  unfolding adapter_fields_eq
  by (cases "pol_history_retention_limit p") (simp_all add: limit_field_def receipt_fields_def)

lemma adapter_receipt_lines:
  assumes "policy_ok p" "plain_policy p" "plain_backend b"
  shows "parse_manifest_lines (adapter_receipt \<lparr>ad_policy = p, ad_backend = ''turso'', ad_store_backend = Some b\<rparr>) =
     adapter_fields \<lparr>ad_policy = p, ad_backend = ''turso'', ad_store_backend = Some b\<rparr>"
  unfolding adapter_receipt_def
proof (rule parse_receipt_lines)
  show "plain ''poo-flow-durable-adapter.v1''" by (simp add: plain_def trimmed_def is_space_def is_newline_def)
  show "parse_line ''poo-flow-durable-adapter.v1'' = None" by code_simp
qed (use adapter_fields_plain [OF assms] adapter_fields_wf in auto)

lemma int_str_nonempty: "int_str i \<noteq> []"
  by (simp add: int_str_def)

lemma policy_eta:
  "pol_history_retention_limit p = l \<Longrightarrow>
   \<lparr>pol_manifest_schema = pol_manifest_schema p, pol_policy_id = pol_policy_id p,
    pol_owner = pol_owner p, pol_checkpoint_id_strategy = pol_checkpoint_id_strategy p,
    pol_require_plan_digest_match = pol_require_plan_digest_match p,
    pol_history_retention_limit = l, pol_checkpoint_store = pol_checkpoint_store p,
    pol_repair_mode = pol_repair_mode p, pol_action_classes = pol_action_classes p,
    pol_runtime_owner = pol_runtime_owner p, pol_receipt_schema = pol_receipt_schema p,
    pol_receipt_kind = pol_receipt_kind p, pol_receipt_valid = pol_receipt_valid p,
    pol_receipt_diagnostic_count = pol_receipt_diagnostic_count p,
    pol_receipt = r, pol_backend = b\<rparr> = p\<lparr>pol_receipt := r, pol_backend := b\<rparr>"
  by (cases p) simp

text \<open>
  The receipt of an adapter parses back: reading the printed lines with the policy parser
  gives the adapter's policy again, for every valid policy whose texts have no line breaks or
  surrounding blanks. The receipt itself is kept as the new policy's receipt; the backend
  requirements are the one part that the printed form does not carry.
\<close>

theorem adapter_receipt_roundtrip:
  assumes "policy_ok p" "plain_policy p" "plain_backend b"
    and a: "a = \<lparr>ad_policy = p, ad_backend = ''turso'', ad_store_backend = Some b\<rparr>"
  shows "coerce_policy so (PolBytes (adapter_receipt a)) =
         Inr (p\<lparr>pol_receipt := adapter_receipt a, pol_backend := []\<rparr>)"
proof -
  let ?q = "p\<lparr>pol_receipt := adapter_receipt a, pol_backend := []\<rparr>"
  have q: "validate_policy ?q = Inr ?q" using assms(1) by (simp add: validate_policy_iff policy_ok_def)
  have c: "as_str_tuple (MStr (str_join '','' (pol_action_classes p))) = Inr (pol_action_classes p)"
    using assms(1) by (intro parse_classes) (simp add: policy_ok_def)
  have i: "optional_int (MStr (int_str n)) = Inr (Some n)" for n
    by (simp add: optional_int_def int_str_nonempty)
  have "parse_policy_bytes so (adapter_receipt a) = Inr ?q"
    unfolding parse_policy_bytes_def a adapter_receipt_lines [OF assms(1-3)] adapter_fields_eq
    unfolding a [symmetric]
    using q
    by (cases "pol_history_retention_limit p")
      (simp_all add: coerce_policy_map_def mget2_def dict_get_or_def receipt_fields_def limit_field_def
        c i policy_eta as_bool_word coerce_backend_def backend_field_aliases_def optional_int_def [of MNone]
        del: as_str_tuple.simps as_bool.simps)
  with q show ?thesis by simp
qed

theorem adapter_receipt_roundtrip_witness:
  "let a = \<lparr>ad_policy = default_policy\<lparr>pol_history_retention_limit := Some 3\<rparr>, ad_backend = ''turso'',
            ad_store_backend = Some (turso_runtime_graph_backend None ''turso'' ''db'')\<rparr>
   in coerce_policy (\<lambda>_. []) (PolBytes (adapter_receipt a)) =
      Inr (default_policy\<lparr>pol_history_retention_limit := Some 3, pol_receipt := adapter_receipt a\<rparr>)"
proof -
  have "policy_ok (default_policy\<lparr>pol_history_retention_limit := Some 3\<rparr>)"
    using default_policy_ok by (simp add: policy_ok_def)
  moreover have "plain_policy (default_policy\<lparr>pol_history_retention_limit := Some 3\<rparr>)"
    by code_simp
  moreover have "plain_backend (turso_runtime_graph_backend None ''turso'' ''db'')"
    by code_simp
  ultimately show ?thesis
    unfolding Let_def by (subst adapter_receipt_roundtrip) (auto simp: default_policy_def)
qed

theorem adapter_from_envelope_sound_witness:
  "\<exists>a. adapter_turso_from_envelope (\<lambda>_. []) (turso_runtime_graph_backend None ''turso'' ''db'') EnvNone = Inr a
     \<and> policy_ok (ad_policy a) \<and> pol_require_plan_digest_match (ad_policy a)"
proof -
  have "is_ok (adapter_turso_from_envelope (\<lambda>_. []) (turso_runtime_graph_backend None ''turso'' ''db'') EnvNone)"
    by code_simp
  then obtain a where a: "adapter_turso_from_envelope (\<lambda>_. [])
      (turso_runtime_graph_backend None ''turso'' ''db'') EnvNone = Inr a"
    by (auto simp: is_ok_iff)
  from adapter_from_envelope_sound [OF a] a show ?thesis by blast
qed

end
