(* ===== verification/Ordered_Map.thy ===== *)
theory Ordered_Map
  imports Prelude
begin

text \<open>
  Ordered concurrent maps (\<open>_anyio_runtime.py\<close>): a task group runs one task per input, or a
  bounded number of workers that share one iterator; every task writes its result at the index
  of its input, and the list is returned when all tasks are done.

  The scheduler is a step relation: at each step some task runs up to its next suspension
  point. Pulling from the shared iterator has no suspension point, so it is one step; a call
  suspends between its start and its end. What a call may return is a relation \<open>ret\<close> from
  inputs to results, so calls may have effects on each other and any outcome. The first
  exception that leaves a task cancels the group; the group then raises it (anyio wraps it in
  an exception group).
\<close>

section \<open>The pool\<close>

datatype 'a task = Idle | Running nat 'a | Finished

record ('a, 'b) pool =
  po_looping :: bool
  po_tasks :: "'a task list"
  po_pending :: "(nat \<times> 'a) list"
  po_results :: "'b option list"
  po_failed :: "pyerr option"

definition capacity_limiter :: "int option \<Rightarrow> int option result" where
  "capacity_limiter max_concurrency =
     (case max_concurrency of
        None \<Rightarrow> Inr None
      | Some n \<Rightarrow> if n < 1 then Inl (ValueError ''max_concurrency must be positive'') else Inr (Some n))"

definition ordered_results :: "'b option list \<Rightarrow> 'b list result" where
  "ordered_results results =
     (if None \<in> set results
      then Inl (RuntimeError ''ordered runtime mapping left an incomplete result'')
      else Inr (map the results))"

text \<open>The pool that the task group starts: one task per input, or the workers.\<close>

definition task_pool :: "'a list \<Rightarrow> ('a, 'b) pool" where
  "task_pool vals =
     \<lparr>po_looping = False, po_tasks = map (\<lambda>(i, v). Running i v) (enumerate 0 vals),
      po_pending = [], po_results = replicate (length vals) None, po_failed = None\<rparr>"

definition worker_pool :: "int \<Rightarrow> 'a list \<Rightarrow> ('a, 'b) pool" where
  "worker_pool max_concurrency vals =
     \<lparr>po_looping = True, po_tasks = replicate (min (nat max_concurrency) (length vals)) Idle,
      po_pending = enumerate 0 vals, po_results = replicate (length vals) None, po_failed = None\<rparr>"

definition map_ordered_async :: "int option \<Rightarrow> 'a list \<Rightarrow> ('a, 'b) pool result" where
  "map_ordered_async max_concurrency vals =
     res_bind (capacity_limiter max_concurrency) (\<lambda>limiter.
       Inr (case limiter of None \<Rightarrow> task_pool vals | Some n \<Rightarrow> worker_pool n vals))"

text \<open>\<open>map_ordered_blocking\<close> has the same body around \<open>run_blocking(call, value)\<close>.\<close>

definition map_ordered_blocking :: "int option \<Rightarrow> 'a list \<Rightarrow> ('a, 'b) pool result" where
  "map_ordered_blocking max_concurrency vals = map_ordered_async max_concurrency vals"

inductive pool_step :: "('a \<Rightarrow> 'b result \<Rightarrow> bool) \<Rightarrow> ('a, 'b) pool \<Rightarrow> ('a, 'b) pool \<Rightarrow> bool"
  for ret :: "'a \<Rightarrow> 'b result \<Rightarrow> bool"
where
  pull: "po_failed p = None \<Longrightarrow> i < length (po_tasks p) \<Longrightarrow> po_tasks p ! i = Idle \<Longrightarrow>
    po_pending p = (k, v) # rest \<Longrightarrow>
    pool_step ret p (p\<lparr>po_tasks := (po_tasks p)[i := Running k v], po_pending := rest\<rparr>)"
| stop: "po_failed p = None \<Longrightarrow> i < length (po_tasks p) \<Longrightarrow> po_tasks p ! i = Idle \<Longrightarrow>
    po_pending p = [] \<Longrightarrow>
    pool_step ret p (p\<lparr>po_tasks := (po_tasks p)[i := Finished]\<rparr>)"
| finish: "po_failed p = None \<Longrightarrow> i < length (po_tasks p) \<Longrightarrow> po_tasks p ! i = Running k v \<Longrightarrow>
    ret v (Inr y) \<Longrightarrow>
    pool_step ret p (p\<lparr>po_tasks := (po_tasks p)[i := if po_looping p then Idle else Finished],
                       po_results := (po_results p)[k := Some y]\<rparr>)"
| fail: "po_failed p = None \<Longrightarrow> i < length (po_tasks p) \<Longrightarrow> po_tasks p ! i = Running k v \<Longrightarrow>
    ret v (Inl e) \<Longrightarrow>
    pool_step ret p (p\<lparr>po_failed := Some e\<rparr>)"

abbreviation pool_run :: "('a \<Rightarrow> 'b result \<Rightarrow> bool) \<Rightarrow> ('a, 'b) pool \<Rightarrow> ('a, 'b) pool \<Rightarrow> bool" where
  "pool_run ret \<equiv> (pool_step ret)\<^sup>*\<^sup>*"

definition pool_final :: "('a, 'b) pool \<Rightarrow> bool" where
  "pool_final p \<longleftrightarrow> po_failed p \<noteq> None \<or> (\<forall>t \<in> set (po_tasks p). t = Finished)"

text \<open>What the call returns when the task group has ended.\<close>

definition pool_outcome :: "('a, 'b) pool \<Rightarrow> 'b list result" where
  "pool_outcome p =
     (case po_failed p of Some e \<Rightarrow> Inl e | None \<Rightarrow> ordered_results (po_results p))"

section \<open>The invariant\<close>

definition run_ids :: "'a task list \<Rightarrow> nat set" where
  "run_ids ts = {k. \<exists>v. Running k v \<in> set ts}"

definition item_ok :: "'a list \<Rightarrow> nat \<Rightarrow> 'a \<Rightarrow> bool" where
  "item_ok vals k v \<longleftrightarrow> k < length vals \<and> v = vals ! k"

definition tasks_ok :: "'a list \<Rightarrow> 'a task list \<Rightarrow> bool" where
  "tasks_ok vals ts \<longleftrightarrow> (\<forall>k v. Running k v \<in> set ts \<longrightarrow> item_ok vals k v)"

definition results_ok :: "('a \<Rightarrow> 'b result \<Rightarrow> bool) \<Rightarrow> 'a list \<Rightarrow> 'b option list \<Rightarrow> bool" where
  "results_ok ret vals rs \<longleftrightarrow>
     length rs = length vals \<and> (\<forall>k < length vals. \<forall>y. rs ! k = Some y \<longrightarrow> ret (vals ! k) (Inr y))"

text \<open>Every input is still in the iterator, being run, or has its result.\<close>

definition covered :: "'a list \<Rightarrow> ('a, 'b) pool \<Rightarrow> bool" where
  "covered vals p \<longleftrightarrow>
     (\<forall>k < length vals. po_results p ! k \<noteq> None \<or> k \<in> fst ` set (po_pending p) \<or> k \<in> run_ids (po_tasks p))"

definition pool_inv :: "('a \<Rightarrow> 'b result \<Rightarrow> bool) \<Rightarrow> 'a list \<Rightarrow> ('a, 'b) pool \<Rightarrow> bool" where
  "pool_inv ret vals p \<longleftrightarrow>
     (\<forall>(k, v) \<in> set (po_pending p). item_ok vals k v) \<and>
     tasks_ok vals (po_tasks p) \<and> results_ok ret vals (po_results p) \<and> covered vals p \<and>
     (\<not> po_looping p \<or> Finished \<in> set (po_tasks p) \<longrightarrow> po_pending p = []) \<and>
     (po_tasks p = [] \<longrightarrow> vals = [])"

lemma run_ids_update_other:
  assumes "k \<in> run_ids ts" "\<And>v. ts ! i \<noteq> Running k v"
  shows "k \<in> run_ids (ts[i := t])"
proof -
  from assms(1) obtain v j where "j < length ts" "ts ! j = Running k v"
    by (auto simp: run_ids_def in_set_conv_nth)
  with assms(2) [of v] show ?thesis
    by (metis (mono_tags, lifting) length_list_update mem_Collect_eq nth_list_update_neq nth_mem run_ids_def)
qed

lemma run_ids_new: "i < length ts \<Longrightarrow> k \<in> run_ids (ts[i := Running k v])"
  by (auto simp: run_ids_def intro: set_update_memI)

lemma tasks_ok_update:
  "tasks_ok vals ts \<Longrightarrow> (\<And>k v. t = Running k v \<Longrightarrow> item_ok vals k v) \<Longrightarrow> tasks_ok vals (ts[i := t])"
  using set_update_subset_insert [of ts i t] by (fastforce simp: tasks_ok_def)

lemma tasks_ok_nth: "tasks_ok vals ts \<Longrightarrow> i < length ts \<Longrightarrow> ts ! i = Running k v \<Longrightarrow> item_ok vals k v"
  by (metis nth_mem tasks_ok_def)

lemma finished_update: "Finished \<in> set (ts[i := t]) \<Longrightarrow> t = Finished \<or> Finished \<in> set ts"
  using set_update_subset_insert [of ts i t] by fastforce

lemma covered_pull:
  assumes "covered vals p" "i < length (po_tasks p)" "po_tasks p ! i = Idle" "po_pending p = (k, v) # rest"
  shows "covered vals (p\<lparr>po_tasks := (po_tasks p)[i := Running k v], po_pending := rest\<rparr>)"
  using assms run_ids_new [of i "po_tasks p" k v] run_ids_update_other [of _ "po_tasks p" i "Running k v"]
  by (auto simp: covered_def)

lemma covered_stop:
  assumes "covered vals p" "po_tasks p ! i = Idle"
  shows "covered vals (p\<lparr>po_tasks := (po_tasks p)[i := Finished]\<rparr>)"
  using assms run_ids_update_other [of _ "po_tasks p" i Finished] by (auto simp: covered_def)

lemma covered_finish:
  assumes "covered vals p" "po_tasks p ! i = Running k v" "length (po_results p) = length vals" "k < length vals"
  shows "covered vals (p\<lparr>po_tasks := (po_tasks p)[i := t], po_results := (po_results p)[k := Some y]\<rparr>)"
proof -
  have "j \<in> run_ids ((po_tasks p)[i := t])" if "j \<in> run_ids (po_tasks p)" "j \<noteq> k" for j
    using run_ids_update_other [OF that(1), of i t] assms(2) that(2) by simp
  with assms(1,3,4) show ?thesis by (auto simp: covered_def nth_list_update)
qed

lemma results_ok_update:
  "results_ok ret vals rs \<Longrightarrow> item_ok vals k v \<Longrightarrow> ret v (Inr y) \<Longrightarrow> results_ok ret vals (rs[k := Some y])"
  by (auto simp: results_ok_def item_ok_def nth_list_update)

lemma pool_step_inv:
  assumes "pool_step ret p q" "pool_inv ret vals p"
  shows "pool_inv ret vals q"
  using assms
proof (induction rule: pool_step.induct)
  case (pull p i k v rest)
  have f: "Finished \<notin> set (po_tasks p)" using pull by (auto simp: pool_inv_def)
  from pull f covered_pull [of vals p i k v rest] tasks_ok_update [of vals "po_tasks p" "Running k v" i]
  show ?case by (auto simp: pool_inv_def dest: finished_update)
next
  case (stop p i)
  with covered_stop [of vals p i] tasks_ok_update [of vals "po_tasks p" Finished i]
  show ?case by (auto simp: pool_inv_def)
next
  case (finish p i k v y)
  let ?t = "if po_looping p then Idle else Finished"
  have kv: "item_ok vals k v"
    using finish(2,3,5) tasks_ok_nth [of vals "po_tasks p" i k v] by (simp add: pool_inv_def)
  from finish kv covered_finish [of vals p i k v y ?t] tasks_ok_update [of vals "po_tasks p" ?t i]
    results_ok_update [of ret vals "po_results p" k v y]
  show ?case by (auto simp: pool_inv_def results_ok_def item_ok_def split: if_splits dest: finished_update)
next
  case (fail p i k v e)
  then show ?case by (simp add: pool_inv_def covered_def)
qed

lemma enumerate_mem: "(k, v) \<in> set (enumerate 0 xs) \<longleftrightarrow> k < length xs \<and> v = xs ! k"
  by (auto simp: in_set_enumerate_eq)

lemma map_ordered_async_cases:
  assumes "map_ordered_async mc vals = Inr p"
  obtains "mc = None" "p = task_pool vals" | n where "mc = Some n" "1 \<le> n" "p = worker_pool n vals"
  using assms that by (auto simp: map_ordered_async_def capacity_limiter_def split: option.splits if_splits)

lemma results_ok_initial: "results_ok ret vals (replicate (length vals) None)"
  by (simp add: results_ok_def)

lemma length_enumerate_Nil [simp]: "enumerate n xs = [] \<longleftrightarrow> xs = []"
  by (cases xs) simp_all

lemma task_pool_inv: "pool_inv ret vals (task_pool vals)"
proof -
  have "Running k v \<in> set (po_tasks (task_pool vals)) \<longleftrightarrow> item_ok vals k v" for k v
    using enumerate_mem [of k v vals] by (force simp: task_pool_def item_ok_def)
  then have "tasks_ok vals (po_tasks (task_pool vals))"
    "run_ids (po_tasks (task_pool vals)) = {k. k < length vals}"
    by (auto simp: tasks_ok_def run_ids_def item_ok_def)
  then show ?thesis by (simp add: pool_inv_def covered_def results_ok_initial) (simp add: task_pool_def results_ok_initial)
qed

lemma worker_pool_inv: "1 \<le> n \<Longrightarrow> pool_inv ret vals (worker_pool n vals)"
proof -
  assume n: "1 \<le> n"
  have e: "k \<in> fst ` set (enumerate 0 vals)" if "k < length vals" for k
    using that enumerate_mem [of k "vals ! k" vals] by force
  have "\<forall>(k, v) \<in> set (enumerate 0 vals). item_ok vals k v" by (auto simp: enumerate_mem item_ok_def)
  moreover have "Finished \<notin> set (po_tasks (worker_pool n vals))" by (simp add: worker_pool_def)
  ultimately show ?thesis using e n results_ok_initial [of ret vals]
    by (simp add: pool_inv_def worker_pool_def covered_def tasks_ok_def min_def)
qed

lemma initial_inv: "map_ordered_async mc vals = Inr p \<Longrightarrow> pool_inv ret vals p"
  by (erule map_ordered_async_cases) (simp_all add: task_pool_inv worker_pool_inv)

lemma pool_run_inv: "pool_run ret p q \<Longrightarrow> pool_inv ret vals p \<Longrightarrow> pool_inv ret vals q"
  by (induction rule: rtranclp_induct) (auto intro: pool_step_inv)

section \<open>Progress and termination\<close>

fun task_weight :: "'a task \<Rightarrow> nat" where
  "task_weight Idle = 1"
| "task_weight (Running _ _) = 2"
| "task_weight Finished = 0"

definition pool_weight :: "('a, 'b) pool \<Rightarrow> nat" where
  "pool_weight p = 3 * length (po_pending p) + sum_list (map task_weight (po_tasks p))
     + (if po_failed p = None then 1 else 0)"

lemma weight_update:
  "i < length ts \<Longrightarrow>
   sum_list (map task_weight (ts[i := t])) + task_weight (ts ! i) = sum_list (map task_weight ts) + task_weight t"
  by (induction ts arbitrary: i) (auto split: nat.splits)

lemma pool_step_weight: "pool_step ret p q \<Longrightarrow> pool_weight q < pool_weight p"
proof (induction rule: pool_step.induct)
  case (pull p i k v rest)
  with weight_update [of i "po_tasks p" "Running k v"] show ?case by (simp add: pool_weight_def)
next
  case (stop p i)
  with weight_update [of i "po_tasks p" Finished] show ?case by (simp add: pool_weight_def)
next
  case (finish p i k v y)
  with weight_update [of i "po_tasks p" "if po_looping p then Idle else Finished"] show ?case
    by (auto simp: pool_weight_def split: if_splits)
next
  case (fail p i k v e)
  then show ?case by (simp add: pool_weight_def)
qed

lemma pool_steps_weight: "(pool_step ret ^^ n) p q \<Longrightarrow> pool_weight q + n \<le> pool_weight p"
proof (induction n arbitrary: q)
  case (Suc n)
  then obtain r where "(pool_step ret ^^ n) p r" "pool_step ret r q" by auto
  with Suc.IH [of r] pool_step_weight [of ret r q] show ?case by simp
qed simp

lemma sum_weight_running: "sum_list (map task_weight (map (\<lambda>(i, v). Running i v) (enumerate n xs))) = 2 * length xs"
  by (induction xs arbitrary: n) auto

lemma initial_weight:
  "map_ordered_async mc vals = Inr p \<Longrightarrow> pool_weight p \<le> 4 * length vals + 1"
proof (erule map_ordered_async_cases)
  show "pool_weight p \<le> 4 * length vals + 1" if "p = task_pool vals"
    using that sum_weight_running [of 0 vals] by (simp add: pool_weight_def task_pool_def)
  show "pool_weight p \<le> 4 * length vals + 1" if "p = worker_pool n vals" for n
    using that by (simp add: pool_weight_def worker_pool_def sum_list_replicate)
qed

lemma pool_progress:
  assumes "\<not> pool_final p" "\<And>v. \<exists>r. ret v r"
  shows "\<exists>q. pool_step ret p q"
proof -
  from assms(1) obtain i where i: "po_failed p = None" "i < length (po_tasks p)" "po_tasks p ! i \<noteq> Finished"
    by (auto simp: pool_final_def in_set_conv_nth)
  show ?thesis
  proof (cases "po_tasks p ! i")
    case Idle
    with i show ?thesis by (cases "po_pending p") (auto intro: pull stop)
  next
    case (Running k v)
    obtain r where "ret v r" using assms(2) by blast
    with i Running show ?thesis by (cases r) (auto intro: finish fail)
  next
    case Finished
    with i show ?thesis by simp
  qed
qed

lemma pool_steps_length: "(pool_step ret ^^ n) p q \<Longrightarrow> length (po_tasks q) = length (po_tasks p)"
proof (induction n arbitrary: q)
  case (Suc n)
  then obtain r where r: "(pool_step ret ^^ n) p r" "pool_step ret r q" by auto
  from r(2) have "length (po_tasks q) = length (po_tasks r)" by (induction rule: pool_step.induct) simp_all
  with Suc.IH [OF r(1)] show ?case by simp
qed simp

section \<open>Properties\<close>

lemma final_outcome:
  assumes "pool_inv ret vals p" "pool_final p" "po_failed p = None"
  shows "\<exists>ys. pool_outcome p = Inr ys \<and> list_all2 (\<lambda>v y. ret v (Inr y)) vals ys"
proof -
  have fin: "\<forall>t \<in> set (po_tasks p). t = Finished" using assms(2,3) by (simp add: pool_final_def)
  then have r: "run_ids (po_tasks p) = {}" by (auto simp: run_ids_def)
  have pend: "po_pending p = []"
  proof (cases "po_tasks p")
    case Nil
    with assms(1) have "vals = []" by (simp add: pool_inv_def)
    with assms(1) show ?thesis by (cases "po_pending p") (auto simp: pool_inv_def item_ok_def)
  next
    case (Cons t ts)
    with fin assms(1) show ?thesis by (simp add: pool_inv_def)
  qed
  have len: "length (po_results p) = length vals" using assms(1) by (simp add: pool_inv_def results_ok_def)
  have all: "po_results p ! k \<noteq> None" if "k < length vals" for k
    using assms(1) r pend that by (auto simp: pool_inv_def covered_def)
  then have "None \<notin> set (po_results p)" using len by (metis in_set_conv_nth)
  then have o: "pool_outcome p = Inr (map the (po_results p))"
    using assms(3) by (simp add: pool_outcome_def ordered_results_def)
  have "ret (vals ! k) (Inr (map the (po_results p) ! k))" if "k < length vals" for k
    using all [OF that] assms(1) that len by (auto simp: pool_inv_def results_ok_def)
  with len o show ?thesis by (auto simp: list_all2_conv_all_nth)
qed

text \<open>
  C35. Whatever the schedule, an ordered map returns the results in the order of its inputs: when
  the task group ends without an exception, the list it returns has, at every position, a
  result of the call on the input at that position. The error for an incomplete result list is
  never raised.
\<close>

theorem ordered_map_in_order:
  assumes "map_ordered_async mc vals = Inr p" and "pool_run ret p q" and "pool_final q"
  shows "case pool_outcome q of
           Inr ys \<Rightarrow> list_all2 (\<lambda>v y. ret v (Inr y)) vals ys
         | Inl e \<Rightarrow> po_failed q = Some e"
proof (cases "po_failed q")
  case None
  with final_outcome [OF pool_run_inv [OF assms(2) initial_inv [OF assms(1)]] assms(3)] show ?thesis
    by auto
next
  case (Some e)
  then show ?thesis by (simp add: pool_outcome_def)
qed

text \<open>
  C36. An ordered map ends and never exceeds its concurrency. No run has more than four steps per
  input and one, a pool that has not ended can always take a step provided that every call
  eventually returns or raises, and with a limit at most that many calls run at once.
\<close>

theorem ordered_map_terminates:
  assumes "map_ordered_async mc vals = Inr p" and "(pool_step ret ^^ n) p q" and "\<And>v. \<exists>r. ret v r"
  shows "n \<le> 4 * length vals + 1
     \<and> (pool_final q \<or> (\<exists>q'. pool_step ret q q'))
     \<and> (\<forall>m. mc = Some m \<longrightarrow> int (length (filter (\<lambda>t. task_weight t = 2) (po_tasks q))) \<le> m)"
proof -
  have l: "length (po_tasks q) = length (po_tasks p)" by (rule pool_steps_length [OF assms(2)])
  have "int (length (filter (\<lambda>t. task_weight t = 2) (po_tasks q))) \<le> m" if "mc = Some m" for m
    using assms(1)
  proof (rule map_ordered_async_cases)
    show ?thesis if "mc = Some n" "1 \<le> n" "p = worker_pool n vals" for n
      using l length_filter_le [of "\<lambda>t. task_weight t = 2" "po_tasks q"] that \<open>mc = Some m\<close>
      by (simp add: worker_pool_def) linarith
  qed (use that in simp)
  moreover have "n \<le> 4 * length vals + 1"
    using pool_steps_weight [OF assms(2)] initial_weight [OF assms(1)] by simp
  moreover have "pool_final q \<or> (\<exists>q'. pool_step ret q q')"
    using pool_progress [of q ret] assms(3) by blast
  ultimately show ?thesis by blast
qed

text \<open>Two calls on one pool, the second input finishing first.\<close>

definition double_ret :: "int \<Rightarrow> int result \<Rightarrow> bool" where
  "double_ret v r \<longleftrightarrow> r = Inr (2 * v)"

definition demo_pool :: "(int, int) pool" where
  "demo_pool = \<lparr>po_looping = False, po_tasks = [Finished, Finished], po_pending = [],
     po_results = [Some 2, Some 4], po_failed = None\<rparr>"

lemma demo_pool_run: "(pool_step double_ret ^^ 2) (task_pool [1, 2]) demo_pool"
proof -
  let ?p = "task_pool [1, 2] :: (int, int) pool"
  let ?q = "?p\<lparr>po_tasks := [Running 0 1, Finished], po_results := [None, Some 4]\<rparr>"
  have "pool_step double_ret ?p ?q"
    using pool_step.finish [of ?p 1 1 2 double_ret 4]
    by (simp add: task_pool_def double_ret_def)
  moreover have "pool_step double_ret ?q demo_pool"
    using pool_step.finish [of ?q 0 0 1 double_ret 2]
    by (simp add: task_pool_def double_ret_def demo_pool_def)
  ultimately show ?thesis by (auto simp: numeral_2_eq_2)
qed

theorem ordered_map_in_order_witness:
  "pool_outcome demo_pool = Inr [2, 4] \<and> list_all2 (\<lambda>v y. double_ret v (Inr y)) [1, 2] [2, 4]"
proof -
  have s: "map_ordered_async None [1, 2 :: int] = Inr (task_pool [1, 2])"
    by (simp add: map_ordered_async_def capacity_limiter_def)
  have o: "pool_outcome demo_pool = Inr [2, 4]"
    by (simp add: pool_outcome_def ordered_results_def demo_pool_def)
  have r: "pool_run double_ret (task_pool [1, 2]) demo_pool"
    using demo_pool_run by (rule relpowp_imp_rtranclp)
  have f: "pool_final demo_pool" by (simp add: pool_final_def demo_pool_def)
  from ordered_map_in_order [OF s r f] o show ?thesis by simp
qed

theorem ordered_map_terminates_witness:
  "(2 :: nat) \<le> 4 * length [1, 2 :: int] + 1 \<and> (pool_final demo_pool \<or> (\<exists>q'. pool_step double_ret demo_pool q'))"
proof -
  have s: "map_ordered_async None [1, 2 :: int] = Inr (task_pool [1, 2])"
    by (simp add: map_ordered_async_def capacity_limiter_def)
  from ordered_map_terminates [OF s demo_pool_run] show ?thesis by (simp add: double_ret_def)
qed

end
