(* ===== verification/FunFlow.thy ===== *)
theory FunFlow
  imports Materialization "HOL-Library.Multiset"
begin

text \<open>
  FunFlow (\<open>_funflow_types.py\<close>, \<open>_funflow_runtime.py\<close>, \<open>_funflow_cicd.py\<close>): a DAG of steps run in
  waves; every wave runs, concurrently, the steps whose needs are completed, and merges their
  patches in the order of the DAG.

  An action is a function of the runtime state; it returns a mapping, an awaitable, or another
  object, or it raises. Parameters: \<open>late\<close> tells whether \<open>anyio.fail_after\<close> raises on a step,
  \<open>us\<close> the measured time of a step, \<open>sched\<close> the order in which the steps of a wave complete
  (any permutation of the wave). The exception that leaves a wave is the first one in that
  order (anyio wraps it in an exception group).
\<close>

section \<open>Data\<close>

record ff_sandbox =
  sb_label :: string
  sb_timeout_ms :: "nat option"
  sb_allowed_env :: "string list"

datatype ff_value = VMap state | VAwaitable "pyerr + ff_value" | VOther

record ff_step =
  fs_name :: string
  fs_action :: "state \<Rightarrow> ff_value result"
  fs_needs :: "string list"
  fs_sandbox :: ff_sandbox

record ff_step_receipt =
  sr_name :: string
  sr_status :: string
  sr_elapsed_micros :: int
  sr_sandbox :: string
  sr_output_keys :: "string list"

record ff_run_receipt =
  rn_status :: string
  rn_elapsed_micros :: int
  rn_trace :: "string list"
  rn_steps :: "ff_step_receipt list"
  rn_state :: state
  rn_max_wave_width :: nat

record ff_dag =
  dag_name :: string
  dag_steps :: "ff_step list"

record ff_projection =
  pj_dag :: ff_dag
  pj_schema :: string
  pj_origin :: string
  pj_runtime_contract :: string
  pj_source_map :: "string pydict"

datatype ff_input = InDag ff_dag | InProjection ff_projection

definition line_receipt :: "ff_run_receipt \<Rightarrow> string" where
  "line_receipt r =
     ''|poo-flow-funflow-runtime '' @
     ''(schema: '' @ [CHR 0x22] @ ''poo-flow.funflow-runtime.v1'' @ [CHR 0x22] @ '' '' @
     ''status: '' @ [CHR 0x22] @ rn_status r @ [CHR 0x22] @ '' '' @
     ''steps: '' @ nat_str (length (rn_steps r)) @ '' '' @
     ''max-wave-width: '' @ nat_str (rn_max_wave_width r) @ '' '' @
     ''elapsed-us: '' @ int_str (rn_elapsed_micros r) @ '')|''"

section \<open>Steps and waves\<close>

definition call_action :: "(state \<Rightarrow> ff_value result) \<Rightarrow> state \<Rightarrow> ff_value result" where
  "call_action action st =
     res_bind (action st) (\<lambda>v. case v of VAwaitable r \<Rightarrow> r | _ \<Rightarrow> Inr v)"

definition run_step ::
  "(ff_step \<Rightarrow> state \<Rightarrow> bool) \<Rightarrow> (ff_step \<Rightarrow> int) \<Rightarrow> ff_step \<Rightarrow> state \<Rightarrow> (ff_step_receipt \<times> state) result" where
  "run_step late us step st =
     (case (if sb_timeout_ms (fs_sandbox step) = None then call_action (fs_action step) st
            else if late step st then Inl (OSError ''timeout'')
            else call_action (fs_action step) st) of
        Inl _ \<Rightarrow> Inl (FunFlowRuntimeError (''FunFlow step failed: '' @ fs_name step))
      | Inr (VMap patch) \<Rightarrow>
          Inr (\<lparr>sr_name = fs_name step, sr_status = ''passed'', sr_elapsed_micros = us step,
                sr_sandbox = sb_label (fs_sandbox step), sr_output_keys = sort (dict_keys patch)\<rparr>, patch)
      | Inr _ \<Rightarrow> Inl (AttributeError ''keys''))"

text \<open>The results of a wave, by name, in the order of completion.\<close>

fun collect_wave ::
  "(ff_step \<Rightarrow> state \<Rightarrow> bool) \<Rightarrow> (ff_step \<Rightarrow> int) \<Rightarrow> ff_step list \<Rightarrow> state
   \<Rightarrow> (ff_step_receipt \<times> state) pydict \<Rightarrow> (ff_step_receipt \<times> state) pydict result" where
  "collect_wave late us [] st results = Inr results"
| "collect_wave late us (step # steps) st results =
     res_bind (run_step late us step st) (\<lambda>r.
       collect_wave late us steps st (dict_set (fs_name step) r results))"

definition run_wave ::
  "(ff_step list \<Rightarrow> ff_step list) \<Rightarrow> (ff_step \<Rightarrow> state \<Rightarrow> bool) \<Rightarrow> (ff_step \<Rightarrow> int) \<Rightarrow> ff_step list \<Rightarrow> state
   \<Rightarrow> (ff_step_receipt \<times> state) pydict result" where
  "run_wave sched late us steps st = collect_wave late us (sched steps) st []"

section \<open>Runs\<close>

definition coerce_projection :: "ff_input \<Rightarrow> ff_dag result" where
  "coerce_projection d =
     (case d of
        InDag g \<Rightarrow> Inr g
      | InProjection p \<Rightarrow>
          if pj_runtime_contract p \<noteq> ''poo-flow.anyio.v1''
          then Inl (FunFlowRuntimeError
                 (''FunFlow projection requires runtime contract '' @ repr_str ''poo-flow.anyio.v1''))
          else Inr (pj_dag p))"

definition first_missing :: "(string \<times> ff_step) list \<Rightarrow> (string \<times> string) option" where
  "first_missing steps =
     (case filter (\<lambda>(_, d). d \<notin> set (dict_keys steps))
             (concat (map (\<lambda>(_, s). map (\<lambda>d. (fs_name s, d)) (fs_needs s)) steps)) of
        [] \<Rightarrow> None | x # _ \<Rightarrow> Some x)"

definition validate_dag :: "(string \<times> ff_step) list \<Rightarrow> unit result" where
  "validate_dag steps =
     (if steps = [] then Inl (FunFlowRuntimeError ''FunFlow DAG must contain at least one step'')
      else case first_missing steps of
        Some (name, dependency) \<Rightarrow>
          Inl (FunFlowRuntimeError (''FunFlow step '' @ repr_str name @ '' depends on missing step ''
                @ repr_str dependency))
      | None \<Rightarrow> Inr ())"

record ff_progress =
  fp_completed :: "string list"
  fp_state :: state
  fp_receipts :: "ff_step_receipt list"
  fp_trace :: "string list"
  fp_width :: nat

definition ready_names :: "string list \<Rightarrow> (string \<times> ff_step) list \<Rightarrow> string list" where
  "ready_names completed pending =
     map fst (filter (\<lambda>(_, s). set (fs_needs s) \<subseteq> set completed) pending)"

text \<open>The loop \<open>for name in ready\<close>, without the deletion from \<open>pending\<close>.\<close>

fun absorb_wave ::
  "string list \<Rightarrow> (ff_step_receipt \<times> state) pydict \<Rightarrow> ff_progress \<Rightarrow> ff_progress result" where
  "absorb_wave [] results pr = Inr pr"
| "absorb_wave (name # names) results pr =
     res_bind (dict_index results name) (\<lambda>(receipt, patch).
       absorb_wave names results
         (pr\<lparr>fp_state := dict_update (fp_state pr) patch, fp_receipts := fp_receipts pr @ [receipt],
             fp_trace := fp_trace pr @ [name], fp_completed := fp_completed pr @ [name]\<rparr>))"

lemma length_pops: "length (fold dict_pop ks d) \<le> length d"
  by (induction ks arbitrary: d) (auto intro: order_trans length_delete_le)

lemma length_pop_less: "k \<in> set (dict_keys d) \<Longrightarrow> length (dict_pop k d) < length d"
  by (auto simp: AList.delete_eq intro!: length_filter_less)

function run_waves ::
  "(ff_step list \<Rightarrow> ff_step list) \<Rightarrow> (ff_step \<Rightarrow> state \<Rightarrow> bool) \<Rightarrow> (ff_step \<Rightarrow> int)
   \<Rightarrow> (string \<times> ff_step) list \<Rightarrow> ff_progress \<Rightarrow> ff_progress result" where
  "run_waves sched late us pending pr =
     (if pending = [] then Inr pr
      else let ready = ready_names (fp_completed pr) pending
           in if ready = [] then Inl (FunFlowRuntimeError ''FunFlow DAG has unresolved dependencies'')
              else (case res_map (dict_index pending) ready of
                      Inl e \<Rightarrow> Inl e
                    | Inr steps \<Rightarrow>
                        (case run_wave sched late us steps (fp_state pr) of
                           Inl e \<Rightarrow> Inl e
                         | Inr results \<Rightarrow>
                             (case absorb_wave ready results
                                     (pr\<lparr>fp_width := max (fp_width pr) (length ready)\<rparr>) of
                                Inl e \<Rightarrow> Inl e
                              | Inr pr' \<Rightarrow> run_waves sched late us (fold dict_pop ready pending) pr'))))"
  by pat_completeness auto
termination
proof (relation "measure (\<lambda>(sched, late, us, pending, pr). length pending)", goal_cases)
  case 1
  show ?case by simp
next
  case (2 sched late us pending pr ready steps results pr')
  then obtain n ns where r: "ready = n # ns" by (metis neq_Nil_conv)
  have "set ready \<subseteq> set (dict_keys pending)" using 2(2) by (auto simp: ready_names_def)
  with r have "n \<in> set (dict_keys pending)" by simp
  with length_pop_less [of n pending] length_pops [of ns "dict_pop n pending"] r show ?case by simp
qed

declare run_waves.simps [simp del]

definition funflow_run ::
  "(ff_step list \<Rightarrow> ff_step list) \<Rightarrow> (ff_step \<Rightarrow> state \<Rightarrow> bool) \<Rightarrow> (ff_step \<Rightarrow> int) \<Rightarrow> int
   \<Rightarrow> ff_input \<Rightarrow> state \<Rightarrow> ff_run_receipt result" where
  "funflow_run sched late us elapsed d st =
     res_bind (coerce_projection d) (\<lambda>dag.
       let pending = dict_of (map (\<lambda>s. (fs_name s, s)) (dag_steps dag)) in
       res_bind (validate_dag pending) (\<lambda>_.
       res_bind (run_waves sched late us pending
          \<lparr>fp_completed = [], fp_state = st, fp_receipts = [], fp_trace = [], fp_width = 0\<rparr>) (\<lambda>pr.
       Inr \<lparr>rn_status = ''passed'', rn_elapsed_micros = elapsed, rn_trace = fp_trace pr,
            rn_steps = fp_receipts pr, rn_state = fp_state pr, rn_max_wave_width = fp_width pr\<rparr>)))"

section \<open>One wave\<close>

definition steps_wf :: "(string \<times> ff_step) list \<Rightarrow> bool" where
  "steps_wf pending \<longleftrightarrow> dict_wf pending \<and> (\<forall>(n, s) \<in> set pending. fs_name s = n)"

definition ready_steps :: "string list \<Rightarrow> (string \<times> ff_step) list \<Rightarrow> ff_step list" where
  "ready_steps completed pending =
     map snd (filter (\<lambda>(_, s). set (fs_needs s) \<subseteq> set completed) pending)"

lemma fold_pop_filter: "fold dict_pop ks d = filter (\<lambda>(k, _). k \<notin> set ks) d"
proof (induction ks arbitrary: d)
  case (Cons k ks)
  show ?case
    unfolding fold_simps(2) comp_apply Cons.IH
    by (auto simp: AList.delete_eq case_prod_beta intro!: filter_cong)
qed simp

lemma res_map_dict_index:
  assumes "dict_wf d" "set xs \<subseteq> set d"
  shows "res_map (dict_index d) (map fst xs) = Inr (map snd xs)"
  using assms(2)
proof (induction xs)
  case (Cons x xs)
  then have "dict_get d (fst x) = Some (snd x)" using assms(1) by (cases x) simp
  with Cons show ?case by simp
qed simp

lemma ready_index:
  assumes "steps_wf pending"
  shows "res_map (dict_index pending) (ready_names completed pending) = Inr (ready_steps completed pending)"
  unfolding ready_names_def ready_steps_def
  using assms by (intro res_map_dict_index) (auto simp: steps_wf_def)

lemma steps_wf_filter: "steps_wf d \<Longrightarrow> steps_wf (filter P d)"
  by (auto simp: steps_wf_def distinct_map_filter)

lemma ready_names_of_steps:
  "steps_wf pending \<Longrightarrow> map fs_name (ready_steps completed pending) = ready_names completed pending"
  by (auto simp: ready_steps_def ready_names_def steps_wf_def)

lemma ready_names_distinct: "steps_wf pending \<Longrightarrow> distinct (ready_names completed pending)"
  by (simp add: ready_names_def steps_wf_def distinct_map_filter)

text \<open>A wave succeeds when all its steps do, and its results are those of the steps.\<close>

lemma collect_wave_ok:
  "is_ok (collect_wave late us steps st acc) \<longleftrightarrow> (\<forall>s \<in> set steps. is_ok (run_step late us s st))"
proof (induction steps arbitrary: acc)
  case (Cons s steps)
  then show ?case by (cases "run_step late us s st") simp_all
qed simp

lemma collect_wave_get:
  assumes "collect_wave late us steps st acc = Inr res" "distinct (map fs_name steps)"
  shows "dict_get res n =
    (case find (\<lambda>s. fs_name s = n) steps of
       Some s \<Rightarrow> ok_option (run_step late us s st) | None \<Rightarrow> dict_get acc n)"
  using assms
proof (induction steps arbitrary: acc)
  case (Cons s steps)
  then obtain r where r: "run_step late us s st = Inr r" by (auto simp: res_bind_Inr_iff)
  have "find (\<lambda>s. fs_name s = n) steps = None" if "fs_name s = n"
    using Cons.prems(2) that by (auto simp: find_None_iff) (metis image_eqI)
  with Cons r show ?case by (auto split: option.splits)
qed simp

lemma find_perm:
  assumes "mset xs = mset ys" "distinct (map fs_name xs)"
  shows "find (\<lambda>s. fs_name s = n) xs = find (\<lambda>s. fs_name s = n) ys"
proof (cases "find (\<lambda>s. fs_name s = n) xs")
  case None
  then have "find (\<lambda>s. fs_name s = n) ys = None"
    using mset_eq_setD [OF assms(1)] by (simp add: find_None_iff)
  with None show ?thesis by simp
next
  case (Some x)
  then have x: "x \<in> set xs" "fs_name x = n" by (auto simp: find_Some_iff)
  then have "find (\<lambda>s. fs_name s = n) ys \<noteq> None" using mset_eq_setD [OF assms(1)] by (auto simp: find_None_iff)
  then obtain y where y: "find (\<lambda>s. fs_name s = n) ys = Some y" by blast
  then have "y \<in> set xs" "fs_name y = n" using mset_eq_setD [OF assms(1)] by (auto simp: find_Some_iff)
  with x assms(2) have "y = x" by (auto simp: distinct_map inj_on_def)
  with Some y show ?thesis by simp
qed

definition permutes_waves :: "(ff_step list \<Rightarrow> ff_step list) \<Rightarrow> bool" where
  "permutes_waves sched \<longleftrightarrow> (\<forall>xs. mset (sched xs) = mset xs)"

lemma run_wave_ok:
  assumes "permutes_waves sched"
  shows "is_ok (run_wave sched late us steps st) \<longleftrightarrow> (\<forall>s \<in> set steps. is_ok (run_step late us s st))"
  using assms mset_eq_setD [of "sched steps" steps]
  by (simp add: run_wave_def collect_wave_ok permutes_waves_def)

lemma run_wave_get:
  assumes "permutes_waves sched" "distinct (map fs_name steps)" "run_wave sched late us steps st = Inr res"
  shows "dict_get res n = (case find (\<lambda>s. fs_name s = n) steps of
           Some s \<Rightarrow> ok_option (run_step late us s st) | None \<Rightarrow> None)"
proof -
  have m: "mset (sched steps) = mset steps" using assms(1) by (simp add: permutes_waves_def)
  have d: "distinct (map fs_name (sched steps))"
    using assms(2) m by (metis mset_eq_imp_distinct_iff mset_map)
  from collect_wave_get [OF assms(3) [unfolded run_wave_def] d, of n] find_perm [OF m d, of n]
  show ?thesis by (simp split: option.splits)
qed

lemma absorb_wave_cong:
  "(\<And>n. n \<in> set names \<Longrightarrow> dict_get r n = dict_get r' n) \<Longrightarrow> absorb_wave names r pr = absorb_wave names r' pr"
  by (induction names arbitrary: pr) (simp_all add: dict_index_def split: option.splits)

lemma absorb_wave_fields:
  "absorb_wave names r pr = Inr pr' \<Longrightarrow>
   fp_trace pr' = fp_trace pr @ names \<and> fp_completed pr' = fp_completed pr @ names \<and> fp_width pr' = fp_width pr"
proof (induction names arbitrary: pr)
  case (Cons n names)
  then obtain x where "dict_index r n = Inr x" by (auto simp: res_bind_Inr_iff)
  with Cons.IH Cons.prems show ?case by (cases x) fastforce
qed simp

lemma absorb_wave_ok:
  "(\<And>n. n \<in> set names \<Longrightarrow> dict_get r n \<noteq> None) \<Longrightarrow> is_ok (absorb_wave names r pr)"
proof (induction names arbitrary: pr)
  case (Cons n names)
  then obtain x where "dict_get r n = Some x" by fastforce
  with Cons show ?case by (cases x) simp
qed simp

lemma wave_absorbs:
  assumes "permutes_waves sched" "steps_wf pending"
    and "run_wave sched late us (ready_steps c pending) st = Inr res"
  shows "is_ok (absorb_wave (ready_names c pending) res pr)"
proof (rule absorb_wave_ok)
  fix n assume "n \<in> set (ready_names c pending)"
  then have "\<exists>s \<in> set (ready_steps c pending). fs_name s = n"
    using ready_names_of_steps [OF assms(2), of c] by (metis (no_types, lifting) imageE list.set_map)
  then obtain s where s: "find (\<lambda>s. fs_name s = n) (ready_steps c pending) = Some s" "s \<in> set (ready_steps c pending)"
    by (metis (mono_tags, lifting) find_None_iff find_Some_iff not_None_eq nth_mem)
  have d: "distinct (map fs_name (ready_steps c pending))"
    using assms(2) by (simp add: ready_names_of_steps ready_names_distinct)
  have "is_ok (run_step late us s st)"
    using run_wave_ok [OF assms(1), of late us "ready_steps c pending" st] assms(3) s(2) by simp
  with run_wave_get [OF assms(1) d assms(3), of n] s show "dict_get res n \<noteq> None"
    by (auto simp: is_ok_iff)
qed

section \<open>Whole runs\<close>

lemma run_waves_step:
  assumes "steps_wf pending" "pending \<noteq> []"
  shows "run_waves sched late us pending pr =
    (let ready = ready_names (fp_completed pr) pending in
     if ready = [] then Inl (FunFlowRuntimeError ''FunFlow DAG has unresolved dependencies'')
     else case run_wave sched late us (ready_steps (fp_completed pr) pending) (fp_state pr) of
            Inl e \<Rightarrow> Inl e
          | Inr results \<Rightarrow>
              (case absorb_wave ready results (pr\<lparr>fp_width := max (fp_width pr) (length ready)\<rparr>) of
                 Inl e \<Rightarrow> Inl e
               | Inr pr' \<Rightarrow> run_waves sched late us (filter (\<lambda>(k, _). k \<notin> set ready) pending) pr'))"
  using assms by (subst run_waves.simps, unfold fold_pop_filter) (simp add: Let_def ready_index)

lemma run_waves_Nil [simp]: "run_waves sched late us [] pr = Inr pr"
  by (simp add: run_waves.simps)

lemma rest_shorter:
  assumes "ready_names c pending \<noteq> []"
  shows "length (filter (\<lambda>(k, _). k \<notin> set (ready_names c pending)) pending) < length pending"
proof -
  from assms obtain n where n: "n \<in> set (ready_names c pending)" by (metis list.set_sel(1))
  then obtain kv where "kv \<in> set pending" "fst kv = n" by (auto simp: ready_names_def)
  with n have "kv \<in> set pending" "fst kv \<in> set (ready_names c pending)" by simp_all
  then show ?thesis by (intro length_filter_less) (auto simp: case_prod_beta)
qed

text \<open>A schedule only decides the order of completion inside a wave.\<close>

lemma run_waves_schedule:
  assumes "permutes_waves sched" "permutes_waves sched'" "steps_wf pending"
    and "run_waves sched late us pending pr = Inr pr'"
  shows "run_waves sched' late us pending pr = Inr pr'"
  using assms(3,4)
proof (induction "length pending" arbitrary: pending pr rule: less_induct)
  case less
  show ?case
  proof (cases "pending = []")
    case True
    with less.prems show ?thesis by simp
  next
    case False
    let ?c = "fp_completed pr" and ?pr = "pr\<lparr>fp_width := max (fp_width pr) (length (ready_names (fp_completed pr) pending))\<rparr>"
    let ?rest = "filter (\<lambda>(k, _). k \<notin> set (ready_names ?c pending)) pending"
    from less.prems False obtain res pr1 where r: "ready_names ?c pending \<noteq> []"
      "run_wave sched late us (ready_steps ?c pending) (fp_state pr) = Inr res"
      "absorb_wave (ready_names ?c pending) res ?pr = Inr pr1" "run_waves sched late us ?rest pr1 = Inr pr'"
      by (auto simp: run_waves_step Let_def split: if_splits sum.splits)
    have d: "distinct (map fs_name (ready_steps ?c pending))"
      using less.prems(1) by (simp add: ready_names_of_steps ready_names_distinct)
    obtain res' where r': "run_wave sched' late us (ready_steps ?c pending) (fp_state pr) = Inr res'"
      using run_wave_ok [OF assms(1), of late us "ready_steps ?c pending" "fp_state pr"]
        run_wave_ok [OF assms(2), of late us "ready_steps ?c pending" "fp_state pr"] r(2) by (auto simp: is_ok_iff)
    have "absorb_wave (ready_names ?c pending) res' ?pr = Inr pr1"
      using absorb_wave_cong [of "ready_names ?c pending" res' res ?pr] r(3)
        run_wave_get [OF assms(1) d r(2)] run_wave_get [OF assms(2) d r'] by simp
    moreover have "run_waves sched' late us ?rest pr1 = Inr pr'"
      using less.hyps [OF rest_shorter [OF r(1)] steps_wf_filter [OF less.prems(1)] r(4)] .
    ultimately show ?thesis using r r' False less.prems(1) by (simp add: run_waves_step Let_def)
  qed
qed

definition need_of :: "(string \<times> ff_step) list \<Rightarrow> string \<Rightarrow> string list" where
  "need_of steps n = (case dict_get steps n of None \<Rightarrow> [] | Some s \<Rightarrow> fs_needs s)"

text \<open>In \<open>topo\<close> every name comes after the names it needs, starting from \<open>done\<close>.\<close>

fun topo :: "(string \<Rightarrow> string list) \<Rightarrow> string set \<Rightarrow> string list \<Rightarrow> bool" where
  "topo needs seen [] = True"
| "topo needs seen (n # ns) = (set (needs n) \<subseteq> seen \<and> topo needs (insert n seen) ns)"

lemma topo_append: "topo needs seen (xs @ ys) \<longleftrightarrow> topo needs seen xs \<and> topo needs (seen \<union> set xs) ys"
  by (induction xs arbitrary: seen) (auto simp: Un_commute insert_commute)

lemma topo_ready: "\<forall>n \<in> set ns. set (needs n) \<subseteq> seen \<Longrightarrow> topo needs seen ns"
  by (induction ns arbitrary: seen) (auto simp: subset_iff)

lemma topo_cong: "(\<And>n. n \<in> set ns \<Longrightarrow> needs n = needs' n) \<Longrightarrow> topo needs seen ns = topo needs' seen ns"
  by (induction ns arbitrary: seen) simp_all

lemma filter_mset_split:
  assumes "dict_wf pending"
  shows "mset (ready_names c pending) + mset (dict_keys (filter (\<lambda>(k, _). k \<notin> set (ready_names c pending)) pending))
    = mset (dict_keys pending)"
proof -
  let ?r = "ready_names c pending" and ?s = "dict_keys (filter (\<lambda>(k, _). k \<notin> set (ready_names c pending)) pending)"
  have "set ?r \<inter> set ?s = {}" by auto
  moreover have "distinct ?r" "distinct ?s" using assms by (simp_all add: ready_names_def distinct_map_filter)
  ultimately have "distinct (?r @ ?s)" by (simp only: distinct_append)
  moreover have "set (?r @ ?s) = set (dict_keys pending)" by (force simp: ready_names_def)
  ultimately show ?thesis
    using assms set_eq_iff_mset_eq_distinct [of "?r @ ?s" "dict_keys pending"] by simp
qed

lemma ready_need:
  assumes "dict_wf pending" "n \<in> set (ready_names c pending)"
  shows "set (need_of pending n) \<subseteq> set c"
proof -
  from assms(2) obtain s where "(n, s) \<in> set pending" "set (fs_needs s) \<subseteq> set c"
    by (auto simp: ready_names_def)
  with map_of_is_SomeI [OF assms(1)] show ?thesis by (simp add: need_of_def)
qed

lemma run_waves_trace:
  assumes "steps_wf pending" "run_waves sched late us pending pr = Inr pr'"
  shows "\<exists>t. fp_trace pr' = fp_trace pr @ t \<and> fp_completed pr' = fp_completed pr @ t
    \<and> mset t = mset (dict_keys pending) \<and> topo (need_of pending) (set (fp_completed pr)) t"
  using assms
proof (induction "length pending" arbitrary: pending pr rule: less_induct)
  case less
  show ?case
  proof (cases "pending = []")
    case True
    with less.prems show ?thesis by simp
  next
    case False
    let ?c = "fp_completed pr" and ?r = "ready_names (fp_completed pr) pending"
    let ?rest = "filter (\<lambda>(k, _). k \<notin> set ?r) pending"
    from less.prems False obtain res pr1 where r: "?r \<noteq> []"
      "absorb_wave ?r res (pr\<lparr>fp_width := max (fp_width pr) (length ?r)\<rparr>) = Inr pr1"
      "run_waves sched late us ?rest pr1 = Inr pr'"
      by (auto simp: run_waves_step Let_def split: if_splits sum.splits)
    from absorb_wave_fields [OF r(2)] have f: "fp_trace pr1 = fp_trace pr @ ?r" "fp_completed pr1 = ?c @ ?r"
      by simp_all
    from less.hyps [OF rest_shorter [OF r(1)] steps_wf_filter [OF less.prems(1)] r(3)] obtain t where
      t: "fp_trace pr' = fp_trace pr1 @ t" "fp_completed pr' = fp_completed pr1 @ t"
        "mset t = mset (dict_keys ?rest)" "topo (need_of ?rest) (set (fp_completed pr1)) t" by blast
    have wf: "dict_wf pending" using less.prems(1) by (simp add: steps_wf_def)
    have "need_of ?rest n = need_of pending n" if "n \<in> set t" for n
    proof -
      from that t(3) have "n \<in> set (dict_keys ?rest)" by (metis mset_eq_setD)
      then obtain s where s: "(n, s) \<in> set ?rest" by auto
      have "dict_wf ?rest" using wf by (simp add: distinct_map_filter)
      from map_of_is_SomeI [OF this s] map_of_is_SomeI [OF wf, of n s] s show ?thesis by (simp add: need_of_def)
    qed
    with t(4) have "topo (need_of pending) (set (fp_completed pr1)) t" by (simp cong: topo_cong)
    moreover have "topo (need_of pending) (set ?c) ?r"
      using ready_need [OF wf] by (intro topo_ready) blast
    ultimately have "topo (need_of pending) (set ?c) (?r @ t)" by (simp add: topo_append f)
    with t(1,2,3) f filter_mset_split [OF wf, of ?c] show ?thesis by (intro exI [of _ "?r @ t"]) simp
  qed
qed

text \<open>A stuck set: steps each of which waits for another one of them.\<close>

definition stuck_set :: "(string \<Rightarrow> string list) \<Rightarrow> string set \<Rightarrow> bool" where
  "stuck_set needs S \<longleftrightarrow> S \<noteq> {} \<and> (\<forall>n \<in> S. \<exists>d \<in> set (needs n). d \<in> S)"

lemma topo_not_stuck:
  "topo needs seen ns \<Longrightarrow> stuck_set needs S \<Longrightarrow> S \<inter> seen = {} \<Longrightarrow> S \<inter> set ns = {}"
proof (induction ns arbitrary: seen)
  case (Cons n ns)
  have "n \<notin> S" using Cons.prems unfolding stuck_set_def topo.simps by blast
  with Cons show ?case by auto
qed simp

definition steps_succeed :: "(ff_step \<Rightarrow> state \<Rightarrow> bool) \<Rightarrow> (ff_step \<Rightarrow> int) \<Rightarrow> ff_step set \<Rightarrow> bool" where
  "steps_succeed late us S \<longleftrightarrow> (\<forall>s \<in> S. \<forall>st. is_ok (run_step late us s st))"

lemma run_waves_error:
  assumes "permutes_waves sched" "steps_wf pending" "steps_succeed late us (snd ` set pending)"
    and "\<forall>n \<in> set (dict_keys pending). set (need_of pending n) \<subseteq> set (dict_keys pending) \<union> set (fp_completed pr)"
    and "run_waves sched late us pending pr = Inl e"
  shows "e = FunFlowRuntimeError ''FunFlow DAG has unresolved dependencies'' \<and>
    (\<exists>S. stuck_set (need_of pending) S \<and> S \<subseteq> set (dict_keys pending))"
  using assms(2-5)
proof (induction "length pending" arbitrary: pending pr rule: less_induct)
  case less
  note wf = less.prems(1)
  have ne: "pending \<noteq> []" using less.prems(4) by auto
  let ?c = "fp_completed pr" and ?r = "ready_names (fp_completed pr) pending"
  let ?rest = "filter (\<lambda>(k, _). k \<notin> set ?r) pending"
  have dw: "dict_wf pending" using wf by (simp add: steps_wf_def)
  show ?case
  proof (cases "?r = []")
    case True
    have "\<exists>d \<in> set (need_of pending n). d \<in> set (dict_keys pending)" if n: "n \<in> set (dict_keys pending)" for n
    proof -
      from n obtain s where s: "(n, s) \<in> set pending" by auto
      with True obtain d where "d \<in> set (fs_needs s)" "d \<notin> set ?c" by (auto simp: ready_names_def filter_empty_conv)
      moreover have "need_of pending n = fs_needs s" using map_of_is_SomeI [OF dw s] by (simp add: need_of_def)
      ultimately show ?thesis using bspec [OF less.prems(3) n] by (metis UnE subsetD)
    qed
    with ne have "stuck_set (need_of pending) (set (dict_keys pending))" by (auto simp: stuck_set_def)
    moreover have "e = FunFlowRuntimeError ''FunFlow DAG has unresolved dependencies''"
      using less.prems(4) True wf ne by (simp add: run_waves_step)
    ultimately show ?thesis by blast
  next
    case False
    have "\<forall>s \<in> set (ready_steps ?c pending). is_ok (run_step late us s (fp_state pr))"
      using less.prems(2) by (auto simp: ready_steps_def steps_succeed_def)
    then obtain res where res: "run_wave sched late us (ready_steps ?c pending) (fp_state pr) = Inr res"
      using run_wave_ok [OF assms(1)] by (metis is_ok_iff)
    obtain pr1 where pr1: "absorb_wave ?r res (pr\<lparr>fp_width := max (fp_width pr) (length ?r)\<rparr>) = Inr pr1"
      using wave_absorbs [OF assms(1) wf res] by (auto simp: is_ok_iff)
    have e: "run_waves sched late us ?rest pr1 = Inl e"
      using less.prems(4) wf ne False res pr1 by (simp add: run_waves_step Let_def)
    have c: "fp_completed pr1 = ?c @ ?r" using absorb_wave_fields [OF pr1] by simp
    have nd: "need_of ?rest n = need_of pending n" if "n \<in> set (dict_keys ?rest)" for n
    proof -
      from that obtain s where s: "(n, s) \<in> set ?rest" by auto
      have "dict_wf ?rest" using dw by (simp add: distinct_map_filter)
      from map_of_is_SomeI [OF this s] map_of_is_SomeI [OF dw, of n s] s show ?thesis by (simp add: need_of_def)
    qed
    have k: "set (dict_keys ?rest) = set (dict_keys pending) - set ?r" by force
    have "\<forall>n \<in> set (dict_keys ?rest). set (need_of ?rest n) \<subseteq> set (dict_keys ?rest) \<union> set (fp_completed pr1)"
      using less.prems(3) nd k c by fastforce
    moreover have "steps_succeed late us (snd ` set ?rest)" using less.prems(2) by (auto simp: steps_succeed_def)
    ultimately obtain S where S: "stuck_set (need_of ?rest) S" "S \<subseteq> set (dict_keys ?rest)"
      and err: "e = FunFlowRuntimeError ''FunFlow DAG has unresolved dependencies''"
      using less.hyps [OF rest_shorter [OF False] steps_wf_filter [OF wf] _ _ e] by blast
    have "stuck_set (need_of pending) S" using S nd unfolding stuck_set_def by (metis subsetD)
    with S(2) k err show ?thesis by blast
  qed
qed

section \<open>Properties\<close>

lemma dag_steps_wf: "steps_wf (dict_of (map (\<lambda>s. (fs_name s, s)) steps))"
proof -
  have *: "fs_name s = n" if "(n, s) \<in> set (dict_of (map (\<lambda>s. (fs_name s, s)) steps))" for n s
  proof -
    have "dict_get (dict_of (map (\<lambda>s. (fs_name s, s)) steps)) n = Some s"
      using that by (intro map_of_is_SomeI) simp_all
    then have "map_of (rev (map (\<lambda>s. (fs_name s, s)) steps)) n = Some s"
      by (simp add: dict_of_def dict_get_update_rev split: option.splits)
    then have "(n, s) \<in> set (rev (map (\<lambda>s. (fs_name s, s)) steps))" by (rule map_of_SomeD)
    then show ?thesis by auto
  qed
  show ?thesis unfolding steps_wf_def
  proof
    show "dict_wf (dict_of (map (\<lambda>s. (fs_name s, s)) steps))" by simp
  qed (use * in blast)
qed

definition dag_pending :: "ff_dag \<Rightarrow> (string \<times> ff_step) list" where
  "dag_pending dag = dict_of (map (\<lambda>s. (fs_name s, s)) (dag_steps dag))"

lemma funflow_run_Inr:
  assumes "funflow_run sched late us el d st = Inr r"
  obtains dag pr where "coerce_projection d = Inr dag" "validate_dag (dag_pending dag) = Inr ()"
    "run_waves sched late us (dag_pending dag)
       \<lparr>fp_completed = [], fp_state = st, fp_receipts = [], fp_trace = [], fp_width = 0\<rparr> = Inr pr"
    "rn_trace r = fp_trace pr"
  using assms that by (auto simp: funflow_run_def Let_def res_bind_Inr_iff dag_pending_def)

lemma validate_dag_needs:
  assumes "validate_dag pending = Inr ()" "n \<in> set (dict_keys pending)"
  shows "set (need_of pending n) \<subseteq> set (dict_keys pending)"
proof -
  have "filter (\<lambda>(_, d). d \<notin> set (dict_keys pending))
      (concat (map (\<lambda>(_, s). map (\<lambda>d. (fs_name s, d)) (fs_needs s)) pending)) = []"
    using assms(1) by (auto simp: validate_dag_def first_missing_def split: if_splits option.splits list.splits)
  then have "d \<in> set (dict_keys pending)" if "(k, s) \<in> set pending" "d \<in> set (fs_needs s)" for k s d
  proof -
    from that have "(fs_name s, d) \<in> set (concat (map (\<lambda>(_, s). map (\<lambda>d. (fs_name s, d)) (fs_needs s)) pending))"
      by force
    with \<open>filter _ _ = []\<close> show ?thesis by (fastforce simp: filter_empty_conv)
  qed
  then show ?thesis
    by (cases "dict_get pending n") (auto simp: need_of_def dest: map_of_SomeD)
qed



text \<open>
  C39. A run deadlocks exactly on cyclic needs: for a valid DAG whose steps all succeed, the run
  raises, and then with the error for unresolved dependencies, if and only if there is a set of
  steps each of which needs another step of the set. Otherwise it passes.
\<close>

theorem funflow_deadlock_iff_cycle:
  assumes "permutes_waves sched" and "validate_dag (dag_pending dag) = Inr ()"
    and "steps_succeed late us (snd ` set (dag_pending dag))"
  shows "(if \<exists>S. stuck_set (need_of (dag_pending dag)) S \<and> S \<subseteq> set (dict_keys (dag_pending dag))
          then funflow_run sched late us el (InDag dag) st =
                 Inl (FunFlowRuntimeError ''FunFlow DAG has unresolved dependencies'')
          else is_ok (funflow_run sched late us el (InDag dag) st))"
proof -
  let ?p = "dag_pending dag" and ?pr = "\<lparr>fp_completed = [], fp_state = st, fp_receipts = [], fp_trace = [], fp_width = 0\<rparr>"
  have wf: "steps_wf ?p" using dag_steps_wf by (simp add: dag_pending_def)
  have run: "funflow_run sched late us el (InDag dag) st = (case run_waves sched late us ?p ?pr of
     Inl e \<Rightarrow> Inl e | Inr pr \<Rightarrow> Inr \<lparr>rn_status = ''passed'', rn_elapsed_micros = el, rn_trace = fp_trace pr,
            rn_steps = fp_receipts pr, rn_state = fp_state pr, rn_max_wave_width = fp_width pr\<rparr>)"
    using assms(2) by (simp add: funflow_run_def coerce_projection_def dag_pending_def [symmetric] res_bind_def
        split: sum.splits)
  have needs: "\<forall>n \<in> set (dict_keys ?p). set (need_of ?p n) \<subseteq> set (dict_keys ?p) \<union> set (fp_completed ?pr)"
    using validate_dag_needs [OF assms(2)] by auto
  show ?thesis
  proof (cases "run_waves sched late us ?p ?pr")
    case (Inl e)
    from run_waves_error [OF assms(1) wf assms(3) needs Inl] Inl show ?thesis by (simp add: run)
  next
    case (Inr pr)
    from run_waves_trace [OF wf Inr] obtain t where t: "mset t = mset (dict_keys ?p)" "topo (need_of ?p) {} t" by auto
    have "\<not> (stuck_set (need_of ?p) S \<and> S \<subseteq> set (dict_keys ?p))" for S
      using topo_not_stuck [OF t(2), of S] mset_eq_setD [OF t(1)]
      by (metis inf.absorb_iff2 inf_bot_right inf_commute stuck_set_def)
    with Inr show ?thesis by (simp add: run)
  qed
qed

section \<open>The CI/CD example DAG\<close>

definition ff_sandbox_of :: "string \<Rightarrow> nat option \<Rightarrow> string list \<Rightarrow> ff_sandbox" where
  "ff_sandbox_of label ms env = \<lparr>sb_label = label, sb_timeout_ms = ms, sb_allowed_env = env\<rparr>"

definition cicd_checkout :: "state \<Rightarrow> ff_value result" where
  "cicd_checkout st =
     Inr (VMap [(''checkout'', PStr ''ready''), (''commit'', dict_get_or st ''commit'' (PStr ''HEAD''))])"

definition cicd_lint :: "state \<Rightarrow> ff_value result" where
  "cicd_lint st = Inr (VMap [(''lint'', PStr ''passed'')])"

text \<open>\<open>f"{state['commit']}:package"\<close>; \<open>pstr\<close> is \<open>str\<close> on a value that is no text.\<close>

definition cicd_package :: "(pyval \<Rightarrow> string) \<Rightarrow> state \<Rightarrow> ff_value result" where
  "cicd_package pstr st =
     res_bind (dict_index st ''commit'') (\<lambda>v.
       Inr (VMap [(''artifact'', PStr ((case v of PStr s \<Rightarrow> s | _ \<Rightarrow> pstr v) @ '':package''))]))"

definition starts_with :: "string \<Rightarrow> string \<Rightarrow> bool" where
  "starts_with s p = (take (length p) s = p)"

definition cicd_policy_gate :: "state \<Rightarrow> ff_value result" where
  "cicd_policy_gate st =
     (let failed = map fst (filter (\<lambda>(k, v). (k = ''lint'' \<or> starts_with k ''unit_'') \<and> v \<noteq> PStr ''passed'') st)
      in if failed \<noteq> []
         then Inl (FunFlowRuntimeError (''sandbox policy gate rejected steps: ''
                @ py_repr (ReprTuple (map ReprStr failed))))
         else Inr (VMap [(''sandbox_policy'', PStr ''passed'')]))"

definition unit_step :: "nat \<Rightarrow> ff_step" where
  "unit_step index =
     \<lparr>fs_name = ''unit-'' @ nat_str index,
      fs_action = (\<lambda>st. Inr (VAwaitable (Inr (VMap [(''unit_'' @ nat_str index, PStr ''passed'')])))),
      fs_needs = [''checkout''], fs_sandbox = ff_sandbox_of ''unit-test'' (Some 250) []\<rparr>"

definition build_funflow_cicd_sandbox_dag :: "(pyval \<Rightarrow> string) \<Rightarrow> int \<Rightarrow> ff_dag" where
  "build_funflow_cicd_sandbox_dag pstr fanout =
     (let unit_steps = map unit_step [0..<nat fanout];
          gate_needs = ''lint'' # map fs_name unit_steps
      in \<lparr>dag_name = ''funflow-cicd-sandbox-dag'',
          dag_steps =
            [\<lparr>fs_name = ''checkout'', fs_action = cicd_checkout, fs_needs = [],
              fs_sandbox = ff_sandbox_of ''source-checkout'' (Some 250) []\<rparr>,
             \<lparr>fs_name = ''lint'', fs_action = cicd_lint, fs_needs = [''checkout''],
              fs_sandbox = ff_sandbox_of ''tooling'' (Some 250) []\<rparr>]
            @ unit_steps @
            [\<lparr>fs_name = ''sandbox-policy'', fs_action = cicd_policy_gate, fs_needs = gate_needs,
              fs_sandbox = ff_sandbox_of ''poo-policy-gate'' (Some 250) [''CI'', ''POO_FLOW_POLICY'']\<rparr>,
             \<lparr>fs_name = ''package'', fs_action = cicd_package pstr, fs_needs = [''sandbox-policy''],
              fs_sandbox = ff_sandbox_of ''artifact-package'' (Some 250) []\<rparr>]\<rparr>)"

definition build_funflow_cicd_sandbox_projection :: "(pyval \<Rightarrow> string) \<Rightarrow> int \<Rightarrow> ff_projection" where
  "build_funflow_cicd_sandbox_projection pstr fanout =
     (let dag = build_funflow_cicd_sandbox_dag pstr fanout
      in \<lparr>pj_dag = dag, pj_schema = ''poo-flow.funflow-plan-projection.v1'',
          pj_origin = ''use-module funflow'', pj_runtime_contract = ''poo-flow.anyio.v1'',
          pj_source_map = dict_of (map (\<lambda>s. (fs_name s,
             ''use-module funflow:'' @ dag_name dag @ '':'' @ fs_name s)) (dag_steps dag))\<rparr>)"

definition run_funflow_cicd_sandbox_dag ::
  "(ff_step list \<Rightarrow> ff_step list) \<Rightarrow> (ff_step \<Rightarrow> state \<Rightarrow> bool) \<Rightarrow> (ff_step \<Rightarrow> int) \<Rightarrow> int
   \<Rightarrow> (pyval \<Rightarrow> string) \<Rightarrow> int \<Rightarrow> string \<Rightarrow> ff_run_receipt result" where
  "run_funflow_cicd_sandbox_dag sched late us elapsed pstr fanout commit =
     funflow_run sched late us elapsed (InProjection (build_funflow_cicd_sandbox_projection pstr fanout))
       [(''commit'', PStr commit)]"

definition demo_dag :: ff_dag where
  "demo_dag = build_funflow_cicd_sandbox_dag (\<lambda>_. []) 2"

lemma demo_dag_runs:
  obtains r where "funflow_run rev (\<lambda>_ _. False) (\<lambda>_. 1) 9 (InDag demo_dag) [(''commit'', PStr ''c0'')] = Inr r"
    "rn_trace r = [''checkout'', ''lint'', ''unit-0'', ''unit-1'', ''sandbox-policy'', ''package'']"
    "rn_max_wave_width r = 3"
proof -
  have "(case funflow_run rev (\<lambda>_ _. False) (\<lambda>_. 1) 9 (InDag demo_dag) [(''commit'', PStr ''c0'')] of
     Inl _ \<Rightarrow> False
   | Inr r \<Rightarrow> rn_trace r = [''checkout'', ''lint'', ''unit-0'', ''unit-1'', ''sandbox-policy'', ''package'']
       \<and> rn_max_wave_width r = 3)"
    by code_simp
  then show thesis by (auto intro: that split: sum.splits)
qed



definition knot :: ff_dag where
  "knot = \<lparr>dag_name = ''knot'', dag_steps =
     [\<lparr>fs_name = ''a'', fs_action = cicd_lint, fs_needs = [''b''], fs_sandbox = ff_sandbox_of ''s'' None []\<rparr>,
      \<lparr>fs_name = ''b'', fs_action = cicd_lint, fs_needs = [''a''], fs_sandbox = ff_sandbox_of ''s'' None []\<rparr>]\<rparr>"

theorem funflow_deadlock_iff_cycle_witness:
  "funflow_run rev (\<lambda>_ _. False) (\<lambda>_. 1) 9 (InDag knot) [] =
     Inl (FunFlowRuntimeError ''FunFlow DAG has unresolved dependencies'')"
proof -
  have p: "permutes_waves rev" by (simp add: permutes_waves_def)
  have v: "validate_dag (dag_pending knot) = Inr ()"
    by (simp add: validate_dag_def first_missing_def dag_pending_def knot_def)
  have s: "steps_succeed (\<lambda>_ _. False) (\<lambda>_. 1) (snd ` set (dag_pending knot))"
    by (simp add: steps_succeed_def dag_pending_def knot_def run_step_def call_action_def cicd_lint_def
        ff_sandbox_of_def)
  have "\<exists>S. stuck_set (need_of (dag_pending knot)) S \<and> S \<subseteq> set (dict_keys (dag_pending knot))"
    by (rule exI [of _ "{''a'', ''b''}"]) (simp add: stuck_set_def need_of_def dag_pending_def knot_def)
  with funflow_deadlock_iff_cycle [OF p v s, of 9 "[]"] show ?thesis by (simp only: if_True)
qed

text \<open>
  Two steps of the same name are one step for the runtime: the dictionary of pending steps keeps
  the last one and the run passes without executing the first.
\<close>

lemma duplicate_step_dropped:
  "dict_of (map (\<lambda>s. (fs_name s, s)) [s, s\<lparr>fs_action := a\<rparr>]) = [(fs_name s, s\<lparr>fs_action := a\<rparr>)]"
  by (simp add: dict_of_def)

end
