(* ===== verification/Scheme_Datum.thy ===== *)
theory Scheme_Datum
  imports Graph_Types Py_Text
begin

text \<open>
  Scheme data (\<open>_scheme_datum.py\<close>): the writer and the recursive-descent parser of the rows that
  cross the Scheme boundary. The parser's source and index are the rest of the text. Its two
  mutually recursive functions carry fuel; \<open>None\<close> is out of fuel, and a lemma shows that fuel
  linear in the text is always enough, so that \<open>parse_scheme_datum\<close> is total. (Python's
  recursion limit is not modelled.)
\<close>

section \<open>Writing\<close>

definition str_replace :: "char \<Rightarrow> string \<Rightarrow> string \<Rightarrow> string" where
  "str_replace c new s = concat (map (\<lambda>x. if x = c then new else [x]) s)"

definition escape_scheme_string :: "string \<Rightarrow> string" where
  "escape_scheme_string s =
     str_replace CHR 0x0A [CHR 0x5C, CHR ''n'']
       (str_replace CHR 0x22 [CHR 0x5C, CHR 0x22] (str_replace CHR 0x5C [CHR 0x5C, CHR 0x5C] s))"

fun type_name :: "pyval \<Rightarrow> string" where
  "type_name PNone = ''NoneType''"
| "type_name (PBool _) = ''bool''"
| "type_name (PInt _) = ''int''"
| "type_name (PStr _) = ''str''"
| "type_name (PTuple _) = ''tuple''"
| "type_name (PList _) = ''list''"
| "type_name (PDict _) = ''dict''"
| "type_name (PSend _ _) = ''RuntimeGraphSend''"
| "type_name (PMsg _) = ''RuntimeGraphMessage''"
| "type_name (PPlan _) = ''RuntimeGraphPlan''"

fun write_scheme_datum :: "pyval \<Rightarrow> string result"
  and write_items :: "pyval list \<Rightarrow> string list result" where
  "write_scheme_datum (PBool b) = Inr (if b then ''#t'' else ''#f'')"
| "write_scheme_datum (PInt i) = Inr (int_str i)"
| "write_scheme_datum (PStr s) = Inr (CHR 0x22 # escape_scheme_string s @ [CHR 0x22])"
| "write_scheme_datum (PTuple vs) =
     res_bind (write_items vs) (\<lambda>ts. Inr (''('' @ str_join '' '' ts @ '')''))"
| "write_scheme_datum (PList vs) =
     res_bind (write_items vs) (\<lambda>ts. Inr (''('' @ str_join '' '' ts @ '')''))"
| "write_scheme_datum v = Inl (TypeError (''unsupported Scheme datum value: '' @ type_name v))"
| "write_items [] = Inr []"
| "write_items (v # vs) =
     res_bind (write_scheme_datum v) (\<lambda>t. res_bind (write_items vs) (\<lambda>ts. Inr (t # ts)))"

section \<open>Parsing\<close>

definition skip_space :: "string \<Rightarrow> string" where
  "skip_space s = dropWhile is_space s"

definition value_error :: "string \<Rightarrow> 'a result" where
  "value_error msg = Inl (ValueError msg)"

fun parse_string :: "string \<Rightarrow> string \<Rightarrow> (pyval \<times> string) result" where
  "parse_string chars [] = value_error ''unterminated Scheme string''"
| "parse_string chars (ch # s) =
     (if ch = CHR 0x22 then Inr (PStr chars, s)
      else if ch \<noteq> CHR 0x5C then parse_string (chars @ [ch]) s
      else case s of
             [] \<Rightarrow> value_error ''unterminated Scheme string escape''
           | escaped # s' \<Rightarrow>
               parse_string (chars @ [if escaped = CHR ''n'' then CHR 0x0A else escaped]) s')"

definition atom_char :: "char \<Rightarrow> bool" where
  "atom_char c \<longleftrightarrow> \<not> (is_space c \<or> c = CHR ''('' \<or> c = CHR '')'')"

definition parse_atom :: "string \<Rightarrow> (pyval \<times> string) result" where
  "parse_atom s =
     (let token = takeWhile atom_char s; rest = dropWhile atom_char s;
          digits = dropWhile (\<lambda>c. c = CHR ''+'' \<or> c = CHR ''-'') token
      in if token = [] then value_error ''expected Scheme datum''
         else if token = ''#t'' then Inr (PBool True, rest)
         else if token = ''#f'' then Inr (PBool False, rest)
         else if digits \<noteq> [] \<and> list_all is_digit digits
         then res_bind (parse_int token) (\<lambda>i. Inr (PInt i, rest))
         else Inr (PStr token, rest))"

definition dot_token :: "string \<Rightarrow> bool" where
  "dot_token s =
     (case s of
        c # r \<Rightarrow> c = CHR ''.'' \<and> (r = [] \<or> is_space (hd r) \<or> hd r = CHR '')'')
      | [] \<Rightarrow> False)"

fun parse_datum :: "nat \<Rightarrow> string \<Rightarrow> (pyval \<times> string) result option"
  and parse_list :: "nat \<Rightarrow> pyval list \<Rightarrow> string \<Rightarrow> (pyval \<times> string) result option" where
  "parse_datum 0 s = None"
| "parse_datum (Suc f) s =
     (case skip_space s of
        [] \<Rightarrow> Some (value_error ''unexpected end of Scheme load projection'')
      | ch # r \<Rightarrow>
          if ch = CHR ''('' then parse_list f [] r
          else if ch = CHR 0x22 then Some (parse_string [] r)
          else if ch = CHR ''#'' \<and> r \<noteq> [] \<and> hd r = CHR ''('' then parse_list f [] (tl r)
          else Some (parse_atom (ch # r)))"
| "parse_list 0 items s = None"
| "parse_list (Suc f) items s =
     (case skip_space s of
        [] \<Rightarrow> Some (value_error ''unexpected end of Scheme load projection'')
      | ch # r \<Rightarrow>
          if ch = CHR '')'' then Some (Inr (PTuple items, r))
          else if dot_token (ch # r)
          then (if items = [] then Some (value_error ''dotted Scheme pair is missing head'')
                else case parse_datum f r of
                       None \<Rightarrow> None
                     | Some (Inl e) \<Rightarrow> Some (Inl e)
                     | Some (Inr (cdr, s1)) \<Rightarrow>
                         (case skip_space s1 of
                            [] \<Rightarrow> Some (value_error ''unexpected end of Scheme load projection'')
                          | c # s2 \<Rightarrow>
                              if c \<noteq> CHR '')'' then Some (value_error ''expected Scheme token: )'')
                              else Some (Inr (foldr (\<lambda>item v. PTuple [item, v]) items cdr, s2))))
          else (case parse_datum f (ch # r) of
                  None \<Rightarrow> None
                | Some (Inl e) \<Rightarrow> Some (Inl e)
                | Some (Inr (v, s1)) \<Rightarrow> parse_list f (items @ [v]) s1))"

text \<open>\<open>_SchemeDatumParser.parse\<close>, with the fuel that is always enough.\<close>

definition parse_whole :: "string \<Rightarrow> pyval result option" where
  "parse_whole source =
     (case parse_datum (2 * length source + 1) source of
        None \<Rightarrow> None
      | Some (Inl e) \<Rightarrow> Some (Inl e)
      | Some (Inr (v, s)) \<Rightarrow>
          if skip_space s \<noteq> []
          then Some (value_error ''unexpected trailing data in Scheme load projection'')
          else Some (Inr v))"

definition parse_scheme_datum :: "string \<Rightarrow> pyval result option" where
  "parse_scheme_datum source =
     (case parse_whole source of
        Some (Inr (PTuple vs)) \<Rightarrow> Some (Inr (PTuple vs))
      | Some (Inr _) \<Rightarrow> Some (value_error ''Scheme load projection did not return a row sequence'')
      | Some (Inl e) \<Rightarrow> Some (Inl e)
      | None \<Rightarrow> None)"

section \<open>Fuel\<close>

lemma skip_space_le: "length (skip_space s) \<le> length s"
  by (simp add: skip_space_def length_dropWhile_le)

lemma parse_string_shorter: "parse_string cs s = Inr (v, s') \<Longrightarrow> length s' < length s"
proof (induction cs s rule: parse_string.induct)
  case (2 chars ch s)
  then show ?case by (auto simp: value_error_def split: if_splits list.splits)
qed (simp add: value_error_def)

lemma parse_atom_shorter: "parse_atom s = Inr (v, s') \<Longrightarrow> length s' < length s"
proof -
  have "length s = length (takeWhile atom_char s) + length (dropWhile atom_char s)"
    by (metis length_append takeWhile_dropWhile_id)
  then show "parse_atom s = Inr (v, s') \<Longrightarrow> length s' < length s"
    by (auto simp: parse_atom_def Let_def value_error_def res_bind_Inr_iff split: if_splits)
qed

lemma parse_shorter:
  "parse_datum f s = Some (Inr (v, s')) \<Longrightarrow> length s' < length s"
  "parse_list f items s = Some (Inr (v, s')) \<Longrightarrow> length s' < length s"
proof (induction f s and f items s arbitrary: v s' and v s' rule: parse_datum_parse_list.induct)
  case dat: (2 f s)
  show ?case
  proof (cases "skip_space s")
    case Nil
    with dat show ?thesis by (simp add: value_error_def)
  next
    case (Cons ch r)
    then have l: "Suc (length r) \<le> length s" using skip_space_le [of s] by simp
    consider "ch = CHR ''(''" | "ch = CHR 0x22" | "ch = CHR ''#''" "r \<noteq> []" "hd r = CHR ''(''"
      | "parse_atom (ch # r) = Inr (v, s')"
      using dat(3) Cons by (auto split: if_splits)
    then show ?thesis
    proof cases
      case 1
      with dat(1) [OF Cons 1] dat(3) Cons l show ?thesis by simp
    next
      case 2
      with dat(3) Cons l show ?thesis by (auto dest: parse_string_shorter)
    next
      case 3
      with dat(2) [OF Cons] dat(3) Cons l show ?thesis by (cases r) auto
    next
      case 4
      with l parse_atom_shorter [OF 4] show ?thesis by simp
    qed
  qed
next
  case lst: (4 f items s)
  show ?case
  proof (cases "skip_space s")
    case Nil
    with lst show ?thesis by (simp add: value_error_def)
  next
    case (Cons ch r)
    then have l: "Suc (length r) \<le> length s" using skip_space_le [of s] by simp
    consider "ch = CHR '')''"
      | cdr s1 s2 where "parse_datum f r = Some (Inr (cdr, s1))" "ch \<noteq> CHR '')''" "dot_token (ch # r)" "items \<noteq> []"
          "skip_space s1 = CHR '')'' # s2" "s' = s2"
      | x s1 where "parse_datum f (ch # r) = Some (Inr (x, s1))" "parse_list f (items @ [x]) s1 = Some (Inr (v, s'))"
          "ch \<noteq> CHR '')''" "\<not> dot_token (ch # r)"
      using lst(4) Cons
      by (auto simp: value_error_def split: if_splits option.splits sum.splits prod.splits list.splits)
    then show ?thesis
    proof cases
      case 1
      with lst(4) Cons l show ?thesis by simp
    next
      case 2
      with lst(1) [OF Cons 2(2,3,4) 2(1)] l skip_space_le [of s1] show ?thesis by simp
    next
      case 3
      with lst(2) [OF Cons 3(3,4) 3(1)] lst(3) [OF Cons 3(3,4,1) HOL.refl HOL.refl 3(2)] l show ?thesis by simp
    qed
  qed
qed simp_all

lemma fuel_enough:
  "2 * length s + 1 \<le> f \<Longrightarrow> parse_datum f s \<noteq> None"
  "2 * length s + 2 \<le> f \<Longrightarrow> parse_list f items s \<noteq> None"
proof (induction f s and f items s rule: parse_datum_parse_list.induct)
  case dat: (2 f s)
  show ?case
  proof (cases "skip_space s")
    case (Cons ch r)
    then have l: "2 * length r + 2 \<le> f" using skip_space_le [of s] dat(3) by simp
    then have "2 * length (tl r) + 2 \<le> f" by (cases r) auto
    with Cons l dat(1,2) [OF Cons] show ?thesis by auto
  qed simp
next
  case lst: (4 f items s)
  show ?case
  proof (cases "skip_space s")
    case (Cons ch r)
    then have l: "Suc (length r) \<le> length s" using skip_space_le [of s] by simp
    show ?thesis
    proof (cases "ch = CHR '')'' \<or> dot_token (ch # r)")
      case True
      have "parse_datum f r \<noteq> None" if "ch \<noteq> CHR '')''" "dot_token (ch # r)" "items \<noteq> []"
        using lst(1) [OF Cons that] lst(4) l by simp
      with True Cons show ?thesis
        by (cases "ch = CHR '')''"; cases "items = []") (auto split: option.splits sum.splits prod.splits list.splits)
    next
      case False
      then have d: "parse_datum f (ch # r) \<noteq> None"
        using lst(2) [OF Cons] lst(4) l by simp
      have "parse_list f (items @ [v]) s1 \<noteq> None" if p: "parse_datum f (ch # r) = Some (Inr (v, s1))" for v s1
      proof -
        have "length s1 < length s" using parse_shorter(1) [OF p] l by simp
        with False lst(3) [OF Cons _ _ p HOL.refl HOL.refl] lst(4) show ?thesis by simp
      qed
      with False d Cons show ?thesis by (auto split: option.splits sum.splits prod.splits)
    qed
  qed simp
qed simp_all

lemma fuel_mono:
  "parse_datum f s = Some x \<Longrightarrow> parse_datum (Suc f) s = Some x"
  "parse_list f items s = Some x \<Longrightarrow> parse_list (Suc f) items s = Some x"
proof (induction f s and f items s arbitrary: x and x rule: parse_datum_parse_list.induct)
  case dat: (2 f s)
  show ?case
  proof (cases "skip_space s")
    case (Cons ch r)
    with dat(1,2) [OF Cons] dat(3) show ?thesis
      by (subst parse_datum.simps(2)) (auto simp del: parse_datum.simps(2) parse_list.simps(2) simp: parse_datum.simps(2) [of f] split: if_splits)
  qed (use dat in simp)
next
  case lst: (4 f items s)
  show ?case
  proof (cases "skip_space s")
    case (Cons ch r)
    consider "ch = CHR '')'' \<or> (dot_token (ch # r) \<and> items = [])"
      | y where "ch \<noteq> CHR '')''" "dot_token (ch # r)" "items \<noteq> []" "parse_datum f r = Some y"
      | y where "ch \<noteq> CHR '')''" "\<not> dot_token (ch # r)" "parse_datum f (ch # r) = Some y"
      using lst(4) Cons by (auto split: option.splits if_splits)
    then show ?thesis
    proof cases
      case 1
      with lst(4) Cons show ?thesis by auto
    next
      case 2
      with lst(1) [OF Cons 2(1,2,3,4)] lst(4) Cons show ?thesis
        by (simp del: parse_datum.simps)
    next
      case 3
      show ?thesis
      proof (cases y)
        case (Inl e)
        with 3 lst(2) [OF Cons 3(1,2,3)] lst(4) Cons show ?thesis by (auto simp del: parse_datum.simps)
      next
        case (Inr vs)
        obtain v s1 where vs: "vs = (v, s1)" by (cases vs)
        with 3 Inr lst(2) [OF Cons 3(1,2,3)] lst(3) [OF Cons 3(1,2,3) Inr vs [symmetric], of x] lst(4) Cons
        show ?thesis by (simp del: parse_datum.simps)
      qed
    qed
  qed (use lst in simp)
qed simp_all

declare parse_datum.simps [simp del] parse_list.simps [simp del]

lemma fuel_le: "parse_datum f s = Some x \<Longrightarrow> f \<le> g \<Longrightarrow> parse_datum g s = Some x"
  "parse_list f items s = Some x \<Longrightarrow> f \<le> g \<Longrightarrow> parse_list g items s = Some x"
  by (induction g) (auto simp: le_Suc_eq dest: fuel_mono)

text \<open>Any fuel that gives a result gives the result of the chosen fuel.\<close>

lemma parse_with_fuel:
  assumes "parse_datum f s = Some x"
  shows "parse_datum (2 * length s + 1) s = Some x"
proof -
  obtain y where y: "parse_datum (2 * length s + 1) s = Some y"
    using fuel_enough(1) [of s "2 * length s + 1"] by auto
  let ?m = "max f (2 * length s + 1)"
  have "parse_datum ?m s = Some x" by (rule fuel_le(1) [OF assms]) simp
  moreover have "parse_datum ?m s = Some y" by (rule fuel_le(1) [OF y]) simp
  ultimately show ?thesis using y by simp
qed

section \<open>Round trip\<close>

fun escape_char :: "char \<Rightarrow> string" where
  "escape_char c = (if c = CHR 0x5C then [CHR 0x5C, CHR 0x5C] else if c = CHR 0x22 then [CHR 0x5C, CHR 0x22]
     else if c = CHR 0x0A then [CHR 0x5C, CHR ''n''] else [c])"

lemma str_replace_simps [simp]:
  "str_replace c n [] = []" "str_replace c n (x # s) = (if x = c then n else [x]) @ str_replace c n s"
  "str_replace c n (s @ t) = str_replace c n s @ str_replace c n t"
  by (simp_all add: str_replace_def)

lemma escape_chars: "escape_scheme_string s = concat (map escape_char s)"
  by (induction s) (simp_all add: escape_scheme_string_def)

lemma parse_escaped:
  "parse_string cs (concat (map escape_char s) @ CHR 0x22 # rest) = Inr (PStr (cs @ s), rest)"
  by (induction s arbitrary: cs) simp_all

definition delimiter :: "string \<Rightarrow> bool" where
  "delimiter rest \<longleftrightarrow> rest = [] \<or> hd rest = CHR '' '' \<or> hd rest = CHR '')''"

lemma atom_token:
  assumes "list_all atom_char t" "delimiter rest"
  shows "takeWhile atom_char (t @ rest) = t" "dropWhile atom_char (t @ rest) = rest"
proof -
  have n: "\<not> atom_char (hd rest)" if "rest \<noteq> []"
    using assms(2) that by (auto simp: delimiter_def atom_char_def is_space_def)
  then have "takeWhile atom_char rest = []" "dropWhile atom_char rest = rest" by (cases rest; simp)+
  with assms(1) show "takeWhile atom_char (t @ rest) = t" "dropWhile atom_char (t @ rest) = rest"
    by (simp_all add: takeWhile_append2 dropWhile_append2 list_all_iff)
qed

lemma digit_atom: "is_digit c \<Longrightarrow> atom_char c" "atom_char CHR ''-''" "atom_char CHR ''#''" "atom_char CHR ''t''" "atom_char CHR ''f''"
  by (auto simp: atom_char_def is_space_def is_digit_def)

lemma parse_atom_int:
  assumes "delimiter rest"
  shows "parse_atom (int_str i @ rest) = Inr (PInt i, rest)"
proof -
  have d: "\<forall>c \<in> set (nat_str n). is_digit c" for n by (rule nat_str_digits)
  have h: "is_digit (hd (nat_str n))" for n using d nat_str_nonempty by (metis hd_in_set)
  have a: "list_all atom_char (int_str i)"
    using d digit_atom by (auto simp: int_str_def list_all_iff)
  have nd: "dropWhile (\<lambda>c. c = CHR ''+'' \<or> c = CHR ''-'') (nat_str n) = nat_str n" for n
  proof -
    from h [of n] show ?thesis by (intro dropWhile_id) (auto simp: is_digit_def)
  qed
  then have "dropWhile (\<lambda>c. c = CHR ''+'' \<or> c = CHR ''-'') (int_str i) = nat_str (nat \<bar>i\<bar>)"
    by (simp add: int_str_def)
  moreover have hh: "int_str i \<noteq> []" "hd (int_str i) \<noteq> CHR ''#''"
    using h [of "nat i"] by (auto simp: int_str_def) (simp add: is_digit_def)
  moreover have "list_all is_digit (nat_str (nat \<bar>i\<bar>))" using d by (simp add: list_all_iff)
  moreover from hh have "int_str i \<noteq> ''#t''" "int_str i \<noteq> ''#f''" by auto
  ultimately show ?thesis by (simp add: parse_atom_def atom_token [OF a assms] Let_def)
qed

lemma parse_atom_bool:
  assumes "delimiter rest"
  shows "parse_atom (''#t'' @ rest) = Inr (PBool True, rest)" "parse_atom (''#f'' @ rest) = Inr (PBool False, rest)"
  using atom_token [OF _ assms, of "''#t''"] atom_token [OF _ assms, of "''#f''"]
  by (simp_all add: parse_atom_def digit_atom Let_def)

text \<open>Lists are written like tuples and come back as tuples.\<close>

fun tuples :: "pyval \<Rightarrow> pyval" where
  "tuples (PTuple vs) = PTuple (map tuples vs)"
| "tuples (PList vs) = PTuple (map tuples vs)"
| "tuples v = v"

text \<open>A written datum begins with a character that starts a datum.\<close>

definition datum_start :: "string \<Rightarrow> bool" where
  "datum_start t \<longleftrightarrow> t \<noteq> [] \<and> \<not> is_space (hd t) \<and> hd t \<noteq> CHR '')'' \<and> hd t \<noteq> CHR ''.''"

lemma int_str_start: "datum_start (int_str i)"
proof -
  have "is_digit (hd (nat_str n))" for n using nat_str_digits nat_str_nonempty by (metis hd_in_set)
  from this [of "nat i"] show ?thesis
    by (auto simp: datum_start_def int_str_def is_digit_neq) (auto simp: is_space_def is_digit_def)
qed

lemma write_start: "write_scheme_datum v = Inr t \<Longrightarrow> datum_start t"
  by (cases v)
    (auto simp: int_str_start res_bind_Inr_iff split: if_splits, auto simp: datum_start_def is_space_def)

lemma skip_start: "datum_start t \<Longrightarrow> skip_space (t @ r) = t @ r"
  by (cases t) (simp_all add: datum_start_def skip_space_def)

lemma not_dot: "datum_start t \<Longrightarrow> \<not> dot_token (t @ r)"
  by (cases t) (simp_all add: datum_start_def dot_token_def)

definition reads :: "pyval \<Rightarrow> bool" where
  "reads v \<longleftrightarrow> (\<forall>t rest. write_scheme_datum v = Inr t \<longrightarrow> delimiter rest \<longrightarrow>
     (\<exists>f. parse_datum f (t @ rest) = Some (Inr (tuples v, rest))))"

text \<open>Reading the items of a list, one after the other.\<close>

lemma read_items:
  assumes "\<And>v. v \<in> set vs \<Longrightarrow> reads v" "write_items vs = Inr ts"
  shows "\<exists>f. parse_list f items (str_join '' '' ts @ CHR '')'' # rest) =
    Some (Inr (PTuple (items @ map tuples vs), rest))"
  using assms
proof (induction vs arbitrary: ts items)
  case Nil
  have "parse_list 1 items (CHR '')'' # rest) = Some (Inr (PTuple items, rest))"
    by (simp add: parse_list.simps skip_space_def is_space_def)
  with Nil show ?case by (intro exI [of _ 1]) simp
next
  case (Cons v vs)
  then obtain t ts' where t: "write_scheme_datum v = Inr t" "write_items vs = Inr ts'" "ts = t # ts'"
    by (auto simp: res_bind_Inr_iff)
  let ?more = "(if ts' = [] then [] else '' '' @ str_join '' '' ts') @ CHR '')'' # rest"
  have j: "str_join '' '' ts @ CHR '')'' # rest = t @ ?more" using t(3) by (cases ts') auto
  have "delimiter ?more" by (auto simp: delimiter_def)
  with Cons.prems(1) [of v] t(1) obtain f where f: "parse_datum f (t @ ?more) = Some (Inr (tuples v, ?more))"
    by (auto simp: reads_def)
  from Cons.IH [of ts' "items @ [tuples v]"] Cons.prems(1) t(2) obtain g where
    g: "parse_list g (items @ [tuples v]) (str_join '' '' ts' @ CHR '')'' # rest) =
      Some (Inr (PTuple ((items @ [tuples v]) @ map tuples vs), rest))" by auto
  have g': "parse_list g (items @ [tuples v]) ?more = Some (Inr (PTuple (items @ map tuples (v # vs)), rest))"
  proof (cases ts')
    case Nil
    with g show ?thesis by simp
  next
    case (Cons a list)
    have "skip_space ('' '' @ s) = skip_space s" for s by (simp add: skip_space_def is_space_def)
    then have "parse_list g its ('' '' @ s) = parse_list g its s" for its s
      by (cases g) (simp_all add: parse_list.simps)
    from this [of "items @ [tuples v]" "str_join '' '' ts' @ CHR '')'' # rest"] g Cons show ?thesis by simp
  qed
  note st = write_start [OF t(1)]
  obtain c r where cr: "t @ ?more = c # r" "c \<noteq> CHR '')''" using st by (cases t) (auto simp: datum_start_def)
  have "skip_space (t @ ?more) = c # r" using skip_start [OF st, of ?more] cr(1) by simp
  moreover have "\<not> dot_token (c # r)" using not_dot [OF st, of ?more] cr(1) by simp
  ultimately have "parse_list (Suc (max f g)) items (t @ ?more) =
      Some (Inr (PTuple (items @ map tuples (v # vs)), rest))"
    using cr fuel_le(1) [OF f, of "max f g"] fuel_le(2) [OF g', of "max f g"]
    by (simp add: parse_list.simps)
  with j show ?case by metis
qed

lemma read_tuple:
  assumes "\<And>v. v \<in> set vs \<Longrightarrow> reads v" "write_items vs = Inr ts"
  shows "\<exists>f. parse_datum f (''('' @ str_join '' '' ts @ '')'' @ rest) = Some (Inr (PTuple (map tuples vs), rest))"
proof -
  from read_items [OF assms, of "[]" rest] obtain f where
    "parse_list f [] (str_join '' '' ts @ CHR '')'' # rest) = Some (Inr (PTuple (map tuples vs), rest))" by auto
  then have "parse_datum (Suc f) (''('' @ str_join '' '' ts @ '')'' @ rest) = Some (Inr (PTuple (map tuples vs), rest))"
    by (simp add: parse_datum.simps skip_space_def is_space_def)
  then show ?thesis ..
qed

lemma reads_all: "reads v"
proof (induction v)
  case (PBool b)
  have "parse_datum 1 ((if b then ''#t'' else ''#f'') @ rest) = Some (Inr (PBool b, rest))" if "delimiter rest" for rest
    using parse_atom_bool [OF that] by (cases b) (simp_all add: parse_datum.simps skip_space_def is_space_def)
  then show ?case unfolding reads_def write_scheme_datum.simps tuples.simps by (metis sum.inject(2))
next
  case (PInt i)
  have "parse_datum 1 (int_str i @ rest) = Some (Inr (PInt i, rest))" if "delimiter rest" for rest
  proof -
    obtain c s where c: "int_str i = c # s" "is_digit c \<or> c = CHR ''-''"
      using nat_str_digits [of "nat i"] nat_str_nonempty [of "nat i"]
      by (cases "i < 0"; cases "nat_str (nat i)") (auto simp: int_str_def)
    have "skip_space (int_str i @ rest) = int_str i @ rest" by (rule skip_start [OF int_str_start])
    with c parse_atom_int [OF that, of i] show ?thesis by (auto simp: parse_datum.simps is_digit_def)
  qed
  then show ?case by (auto simp: reads_def)
next
  case (PStr s)
  have "parse_datum 1 (CHR 0x22 # escape_scheme_string s @ CHR 0x22 # rest) = Some (Inr (PStr s, rest))" for rest
    by (simp add: parse_datum.simps skip_space_def is_space_def escape_chars parse_escaped)
  then show ?case by (auto simp: reads_def)
next
  case (PTuple vs)
  with read_tuple [of vs] show ?case by (auto simp: reads_def res_bind_Inr_iff)
next
  case (PList vs)
  with read_tuple [of vs] show ?case by (auto simp: reads_def res_bind_Inr_iff)
qed (simp_all add: reads_def)

text \<open>
  C40. Scheme data survive the boundary: parsing what the writer writes for a tuple or list gives
  the same data back, nested lists as tuples. In particular every string is read back exactly,
  whatever quotes, backslashes and line breaks it holds.
\<close>

theorem scheme_datum_roundtrip:
  assumes "write_scheme_datum v = Inr t" and "tuples v = PTuple vs"
  shows "parse_scheme_datum t = Some (Inr (PTuple vs))"
proof -
  have "delimiter []" by (simp add: delimiter_def)
  with reads_all [of v] assms(1) obtain f where "parse_datum f (t @ []) = Some (Inr (tuples v, []))"
    unfolding reads_def by blast
  then have "parse_datum (2 * length t + 1) t = Some (Inr (PTuple vs, []))"
    using parse_with_fuel [of f t] assms(2) by simp
  then show ?thesis by (simp add: parse_scheme_datum_def parse_whole_def skip_space_def)
qed

text \<open>
  The parser always ends with a value or an error, on every text: the fuel it is given, twice
  the length of the text and one, never runs out.
\<close>

theorem scheme_parser_total: "\<exists>r. parse_scheme_datum source = Some r"
proof -
  have "parse_datum (2 * length source + 1) source \<noteq> None" by (rule fuel_enough(1)) simp
  then have "parse_whole source \<noteq> None" by (auto simp: parse_whole_def split: sum.splits)
  then show ?thesis by (auto simp: parse_scheme_datum_def split: sum.splits pyval.splits)
qed

theorem scheme_datum_roundtrip_witness:
  "\<exists>t. write_scheme_datum (PTuple [PStr [CHR 0x22, CHR 0x5C, CHR 0x0A], PInt (-7), PList [PBool True]]) = Inr t \<and>
     parse_scheme_datum t = Some (Inr (PTuple [PStr [CHR 0x22, CHR 0x5C, CHR 0x0A], PInt (-7), PTuple [PBool True]]))"
proof -
  let ?v = "PTuple [PStr [CHR 0x22, CHR 0x5C, CHR 0x0A], PInt (-7), PList [PBool True]]"
  obtain t where t: "write_scheme_datum ?v = Inr t" by simp
  from scheme_datum_roundtrip [OF t] t show ?thesis by auto
qed

end
