(* ===== verification/FunFlow_Scheme.thy ===== *)
theory FunFlow_Scheme
  imports FunFlow Scheme_Datum
begin

text \<open>
  Loading a Scheme plan into FunFlow (\<open>_funflow_scheme_projection.py\<close>): rows, required fields,
  nodes, edges, actions and sandboxes. \<open>pstr\<close> and \<open>prepr\<close> are Python's \<open>str\<close> and \<open>repr\<close> on
  values that are no texts. The property states what a loaded DAG is: the nodes of the plan in
  order, each needing exactly the sources of the edges that enter it.
\<close>

section \<open>Rows\<close>

definition text_of :: "(pyval \<Rightarrow> string) \<Rightarrow> pyval \<Rightarrow> string" where
  "text_of pstr v = (case v of PStr s \<Rightarrow> s | _ \<Rightarrow> pstr v)"

definition row_error :: "(pyval \<Rightarrow> string) \<Rightarrow> pyval \<Rightarrow> 'a result" where
  "row_error prepr row = Inl (FunFlowRuntimeError (''invalid Scheme row: '' @ prepr row))"

definition row_entry :: "(pyval \<Rightarrow> string) \<Rightarrow> (pyval \<Rightarrow> string) \<Rightarrow> pyval \<Rightarrow> (string \<times> pyval) result" where
  "row_entry pstr prepr row =
     (case row of
        PTuple (k # vs) \<Rightarrow> Inr (text_of pstr k, case vs of [] \<Rightarrow> PTuple [] | [v] \<Rightarrow> v | _ \<Rightarrow> PTuple vs)
      | PList (k # vs) \<Rightarrow> Inr (text_of pstr k, case vs of [] \<Rightarrow> PTuple [] | [v] \<Rightarrow> v | _ \<Rightarrow> PTuple vs)
      | _ \<Rightarrow> row_error prepr row)"

text \<open>A text is iterated by its characters, none of which is a row.\<close>

definition rows :: "(pyval \<Rightarrow> string) \<Rightarrow> (pyval \<Rightarrow> string) \<Rightarrow> pyval \<Rightarrow> pyval pydict result" where
  "rows pstr prepr v =
     (case v of
        PDict d \<Rightarrow> Inr d
      | PTuple xs \<Rightarrow> res_bind (res_map (row_entry pstr prepr) xs) (\<lambda>kvs. Inr (dict_of kvs))
      | PList xs \<Rightarrow> res_bind (res_map (row_entry pstr prepr) xs) (\<lambda>kvs. Inr (dict_of kvs))
      | PStr [] \<Rightarrow> Inr []
      | PStr (c # _) \<Rightarrow> row_error prepr (PStr [c])
      | _ \<Rightarrow> Inl (TypeError ''object is not iterable''))"

definition sequence :: "(pyval \<Rightarrow> string) \<Rightarrow> pyval \<Rightarrow> pyval list result" where
  "sequence prepr v =
     (case v of
        PNone \<Rightarrow> Inr []
      | PTuple xs \<Rightarrow> Inr xs
      | PList xs \<Rightarrow> Inr xs
      | _ \<Rightarrow> Inl (FunFlowRuntimeError (''expected Scheme sequence, got: '' @ prepr v)))"

definition required :: "pyval pydict \<Rightarrow> string \<Rightarrow> pyval result" where
  "required rs key =
     (case dict_get rs key of
        None \<Rightarrow> Inl (FunFlowRuntimeError (''FunFlow Scheme plan missing field: '' @ key))
      | Some v \<Rightarrow> Inr v)"

definition required_text :: "(pyval \<Rightarrow> string) \<Rightarrow> pyval pydict \<Rightarrow> string \<Rightarrow> string result" where
  "required_text pstr rs key = res_bind (required rs key) (\<lambda>v. Inr (text_of pstr v))"

definition required_action ::
  "(string \<times> (state \<Rightarrow> ff_value result)) list \<Rightarrow> string \<Rightarrow> (state \<Rightarrow> ff_value result) result" where
  "required_action actions node =
     (case dict_get actions node of
        None \<Rightarrow> Inl (FunFlowRuntimeError (''FunFlow Scheme plan missing Python action binding: '' @ node))
      | Some a \<Rightarrow> Inr a)"

definition node_name :: "(pyval \<Rightarrow> string) \<Rightarrow> (pyval \<Rightarrow> string) \<Rightarrow> pyval \<Rightarrow> string result" where
  "node_name pstr prepr node = res_bind (rows pstr prepr node) (\<lambda>rs. required_text pstr rs ''name'')"

definition path_text :: "(pyval \<Rightarrow> string) \<Rightarrow> pyval \<Rightarrow> string" where
  "path_text pstr v =
     (case v of
        PTuple xs \<Rightarrow> str_join ''/'' (map (text_of pstr) xs)
      | PList xs \<Rightarrow> str_join ''/'' (map (text_of pstr) xs)
      | _ \<Rightarrow> text_of pstr v)"

fun source_map_rows ::
  "(pyval \<Rightarrow> string) \<Rightarrow> (pyval \<Rightarrow> string) \<Rightarrow> pyval list \<Rightarrow> string pydict \<Rightarrow> string pydict result" where
  "source_map_rows pstr prepr [] m = Inr m"
| "source_map_rows pstr prepr (row # rest) m =
     res_bind (rows pstr prepr row) (\<lambda>rs.
       let stage = dict_get_or rs ''stage'' PNone; path = dict_get_or rs ''path'' PNone in
       source_map_rows pstr prepr rest
         (if stage \<noteq> PNone \<and> path \<noteq> PNone then dict_set (text_of pstr stage) (path_text pstr path) m else m))"

definition source_map :: "(pyval \<Rightarrow> string) \<Rightarrow> (pyval \<Rightarrow> string) \<Rightarrow> pyval \<Rightarrow> string pydict result" where
  "source_map pstr prepr v = res_bind (sequence prepr v) (\<lambda>xs. source_map_rows pstr prepr xs [])"

definition origin_text :: "(pyval \<Rightarrow> string) \<Rightarrow> pyval \<Rightarrow> string" where
  "origin_text pstr v =
     (let origin = text_of pstr v
      in if origin = ''use-module-funflow'' then ''use-module funflow''
         else if origin = ''user-composition-funflow'' then ''user-composition funflow''
         else origin)"

section \<open>Projection\<close>

text \<open>\<open>needs_by_node[target].append(source)\<close> for every edge.\<close>

fun collect_needs ::
  "(pyval \<Rightarrow> string) \<Rightarrow> pyval pydict list \<Rightarrow> (string \<times> string list) list \<Rightarrow> (string \<times> string list) list result" where
  "collect_needs pstr [] needs = Inr needs"
| "collect_needs pstr (edge # edges) needs =
     res_bind (required_text pstr edge ''from'') (\<lambda>source.
     res_bind (required_text pstr edge ''to'') (\<lambda>target.
       if target \<notin> set (dict_keys needs)
       then Inl (FunFlowRuntimeError (''FunFlow Scheme plan edge targets unknown node: '' @ target))
       else collect_needs pstr edges (dd_append target source needs)))"

definition make_step ::
  "(string \<times> (state \<Rightarrow> ff_value result)) list \<Rightarrow> (string \<times> ff_sandbox) list \<Rightarrow> (string \<times> string list) list
   \<Rightarrow> string \<Rightarrow> ff_step result" where
  "make_step actions sandboxes needs node =
     res_bind (required_action actions node) (\<lambda>a.
       Inr \<lparr>fs_name = node, fs_action = a, fs_needs = dd_get needs node,
            fs_sandbox = dict_get_or sandboxes node \<lparr>sb_label = node, sb_timeout_ms = None, sb_allowed_env = []\<rparr>\<rparr>)"

text \<open>The plan rows inside an optional projection wrapper, after the schema checks.\<close>

definition unwrap_plan ::
  "(pyval \<Rightarrow> string) \<Rightarrow> (pyval \<Rightarrow> string) \<Rightarrow> pyval pydict \<Rightarrow> pyval pydict result" where
  "unwrap_plan pstr prepr rs0 =
     res_bind (required_text pstr rs0 ''schema'') (\<lambda>schema0.
     res_bind (if schema0 = ''poo-flow.funflow-plan-projection.v1''
               then res_bind (required rs0 ''plan'') (\<lambda>p.
                    res_bind (rows pstr prepr p) (\<lambda>rs.
                    res_bind (required_text pstr rs ''schema'') (\<lambda>schema. Inr (rs, schema))))
               else Inr (rs0, schema0)) (\<lambda>(rs, schema).
     if schema \<noteq> ''poo-flow.modules.funflow.plan.v1''
     then Inl (FunFlowRuntimeError (''unsupported FunFlow Scheme plan schema: '' @ schema))
     else Inr rs))"

definition funflow_projection_from_scheme_plan ::
  "(pyval \<Rightarrow> string) \<Rightarrow> (pyval \<Rightarrow> string) \<Rightarrow> (string \<times> (state \<Rightarrow> ff_value result)) list
   \<Rightarrow> (string \<times> ff_sandbox) list \<Rightarrow> pyval \<Rightarrow> ff_projection result" where
  "funflow_projection_from_scheme_plan pstr prepr actions sandboxes plan =
     res_bind (rows pstr prepr plan) (\<lambda>rs0.
     res_bind (unwrap_plan pstr prepr rs0) (\<lambda>rs.
     res_bind (required_text pstr rs ''runtime-contract'') (\<lambda>contract.
     if contract \<noteq> ''poo-flow.anyio.v1''
     then Inl (FunFlowRuntimeError
            (''FunFlow Scheme plan requires runtime contract '' @ repr_str ''poo-flow.anyio.v1''))
     else
     res_bind (required_text pstr rs ''name'') (\<lambda>name.
     res_bind (sequence prepr (dict_get_or rs ''node-table'' (PTuple []))) (\<lambda>nodes.
     res_bind (res_map (node_name pstr prepr) nodes) (\<lambda>node_names.
     res_bind (sequence prepr (dict_get_or rs ''edge-table'' (PTuple []))) (\<lambda>edges.
     res_bind (res_map (rows pstr prepr) edges) (\<lambda>edge_rows.
     res_bind (collect_needs pstr edge_rows (dict_of (map (\<lambda>n. (n, [])) node_names))) (\<lambda>needs.
     res_bind (res_map (make_step actions sandboxes needs) node_names) (\<lambda>steps.
     let wrapper_origin = dict_get_or rs0 ''origin'' (PStr ''use-module-funflow'');
         wrapper_map = dict_get_or rs0 ''source-map'' PNone;
         default_map = (if wrapper_map \<in> {PNone, PStr [], PTuple [], PList [], PDict [], PBool False, PInt 0}
                        then PTuple [] else wrapper_map) in
     res_bind (source_map pstr prepr (dict_get_or rs ''source-map'' default_map)) (\<lambda>sm.
     Inr \<lparr>pj_dag = \<lparr>dag_name = name, dag_steps = steps\<rparr>,
          pj_schema = ''poo-flow.funflow-plan-projection.v1'',
          pj_origin = origin_text pstr (dict_get_or rs ''origin'' wrapper_origin),
          pj_runtime_contract = contract, pj_source_map = sm\<rparr>)))))))))))"

section \<open>Properties\<close>

lemma map_of_const: "map_of (map (\<lambda>n. (n, c)) ns) k = (if k \<in> set ns then Some c else None)"
  by (induction ns) auto

lemma dd_get_of_keys: "dd_get (dict_of (map (\<lambda>n. (n, [] :: 'b list)) ns)) k = []"
  using map_of_const [of "[] :: 'b list" "rev ns" k]
  by (simp add: dd_get_def dict_of_def dict_get_update_rev rev_map split: option.splits if_splits)

definition edge_from :: "(pyval \<Rightarrow> string) \<Rightarrow> pyval pydict \<Rightarrow> string" where
  "edge_from pstr e = text_of pstr (the (dict_get e ''from''))"

definition edge_to :: "(pyval \<Rightarrow> string) \<Rightarrow> pyval pydict \<Rightarrow> string" where
  "edge_to pstr e = text_of pstr (the (dict_get e ''to''))"

lemma collect_needs_Inr:
  assumes "collect_needs pstr es needs = Inr needs'"
  shows "dd_get needs' n = dd_get needs n @ map (edge_from pstr) (filter (\<lambda>e. edge_to pstr e = n) es)"
    and "\<forall>e \<in> set es. edge_to pstr e \<in> set (dict_keys needs)"
  using assms
proof (induction es arbitrary: needs)
  case (Cons e es)
  have step: "collect_needs pstr es (dd_append (edge_to pstr e) (edge_from pstr e) needs) = Inr needs'"
    "edge_to pstr e \<in> set (dict_keys needs)" if "collect_needs pstr (e # es) needs = Inr needs'" for needs
    using that
    by (auto simp: res_bind_Inr_iff required_text_def required_def edge_from_def edge_to_def split: option.splits if_splits)
  have k: "set (dict_keys (dd_append t s needs)) = insert t (set (dict_keys needs))" for t s and needs :: "(string \<times> string list) list"
    by (simp only: dd_append_def dict_keys_set)
  {
    case 1
    from Cons.IH(1) [OF step(1) [OF 1]] show ?case by simp
  next
    case 2
    from Cons.IH(2) [OF step(1) [OF 2]] step(2) [OF 2] k show ?case
      by (metis insert_absorb set_ConsD)
  }
qed simp_all

text \<open>
  A loaded Scheme plan is the plan: when loading succeeds, the steps of the DAG are the nodes of
  the node table in order, each bound to the registered action of its name, and a step needs
  exactly the sources of the edges of the edge table that enter it, in order; every edge enters
  a node of the plan.
\<close>

theorem scheme_plan_projection:
  assumes "funflow_projection_from_scheme_plan pstr prepr actions sandboxes plan = Inr pj"
  shows "\<exists>nodes edges rs.
    res_map (node_name pstr prepr) nodes = Inr (map fs_name (dag_steps (pj_dag pj))) \<and>
    res_map (rows pstr prepr) edges = Inr rs \<and>
    (\<forall>s \<in> set (dag_steps (pj_dag pj)).
       dict_get actions (fs_name s) = Some (fs_action s) \<and>
       fs_needs s = map (edge_from pstr) (filter (\<lambda>e. edge_to pstr e = fs_name s) rs)) \<and>
    (\<forall>e \<in> set rs. edge_to pstr e \<in> set (map fs_name (dag_steps (pj_dag pj)))) \<and>
    pj_runtime_contract pj = ''poo-flow.anyio.v1''"
proof -
  from assms obtain nodes ns edges rs needs steps where
    n: "res_map (node_name pstr prepr) nodes = Inr ns" and e: "res_map (rows pstr prepr) edges = Inr rs"
    and c: "collect_needs pstr rs (dict_of (map (\<lambda>n. (n, [])) ns)) = Inr needs"
    and s: "res_map (make_step actions sandboxes needs) ns = Inr steps"
    and p: "dag_steps (pj_dag pj) = steps" "pj_runtime_contract pj = ''poo-flow.anyio.v1''"
    by (auto simp: funflow_projection_from_scheme_plan_def res_bind_Inr_iff Let_def split: if_splits)
  have steps: "list_all2 (\<lambda>n s. fs_name s = n \<and> dict_get actions n = Some (fs_action s) \<and> fs_needs s = dd_get needs n) ns steps"
    using s by (auto simp: res_map_Inr_iff make_step_def res_bind_Inr_iff required_action_def
        elim!: list_all2_mono split: option.splits)
  then have names: "map fs_name steps = ns" by (induction rule: list_all2_induct) auto
  have "dict_get actions (fs_name s) = Some (fs_action s) \<and> fs_needs s = dd_get needs (fs_name s)" if "s \<in> set steps" for s
    using steps that by (auto simp: list_all2_conv_all_nth in_set_conv_nth)
  moreover have "set (dict_keys (dict_of (map (\<lambda>n. (n, [] :: string list)) ns))) = set ns"
    using dict_keys_update [of "[]" "map (\<lambda>n. (n, [] :: string list)) ns"] by (auto simp: dict_of_def image_image)
  ultimately show ?thesis
    using n e p names collect_needs_Inr [OF c] by (intro exI [of _ nodes] exI [of _ edges] exI [of _ rs]) (simp add: dd_get_of_keys)
qed

definition demo_scheme_plan :: pyval where
  "demo_scheme_plan = PTuple
     [PTuple [PStr ''schema'', PStr ''poo-flow.modules.funflow.plan.v1''],
      PTuple [PStr ''runtime-contract'', PStr ''poo-flow.anyio.v1''],
      PTuple [PStr ''name'', PStr ''p''],
      PTuple [PStr ''node-table'', PTuple [PTuple [PTuple [PStr ''name'', PStr ''a'']], PTuple [PTuple [PStr ''name'', PStr ''b'']]]],
      PTuple [PStr ''edge-table'', PTuple [PTuple [PTuple [PStr ''from'', PStr ''a''], PTuple [PStr ''to'', PStr ''b'']]]]]"

theorem scheme_plan_projection_witness:
  "\<exists>pj. funflow_projection_from_scheme_plan (\<lambda>_. []) (\<lambda>_. []) [(''a'', cicd_lint), (''b'', cicd_lint)] [] demo_scheme_plan = Inr pj \<and>
     map fs_needs (dag_steps (pj_dag pj)) = [[], [''a'']] \<and> pj_runtime_contract pj = ''poo-flow.anyio.v1''"
proof -
  let ?r = "funflow_projection_from_scheme_plan (\<lambda>_. []) (\<lambda>_. []) [(''a'', cicd_lint), (''b'', cicd_lint)] [] demo_scheme_plan"
  have "(case ?r of Inl _ \<Rightarrow> False | Inr pj \<Rightarrow> map fs_needs (dag_steps (pj_dag pj)) = [[], [''a'']])" by code_simp
  then obtain pj where pj: "?r = Inr pj" "map fs_needs (dag_steps (pj_dag pj)) = [[], [''a'']]"
    by (auto split: sum.splits)
  have "pj_runtime_contract pj = ''poo-flow.anyio.v1''"
    using scheme_plan_projection [OF pj(1)] by auto
  with pj show ?thesis by auto
qed

end
