(* ===== verification/Hex_Text.thy ===== *)
theory Hex_Text
  imports Py_Text
begin

text \<open>
  Hexadecimal text: \<open>bytes.hex\<close>, \<open>bytes.fromhex\<close>, the fixed-width format \<open>{x:016x}\<close> and
  \<open>int(s, 16)\<close>. A byte string is a HOL string whose characters are the bytes.
\<close>

type_synonym bytes = string

section \<open>Digits\<close>

definition hex_digit :: "nat \<Rightarrow> char" where
  "hex_digit n = (if n < 10 then char_of (48 + n) else char_of (87 + n))"

definition is_hex :: "char \<Rightarrow> bool" where
  "is_hex c = (let n = of_char c :: nat in
     48 \<le> n \<and> n \<le> 57 \<or> 97 \<le> n \<and> n \<le> 102 \<or> 65 \<le> n \<and> n \<le> 70)"

definition hex_val :: "char \<Rightarrow> nat" where
  "hex_val c = (let n = of_char c :: nat in
     if n \<le> 57 then n - 48 else if n \<le> 70 then n - 55 else n - 87)"

lemma hex_digit_simps [simp]:
  "n < 16 \<Longrightarrow> is_hex (hex_digit n)" "n < 16 \<Longrightarrow> hex_val (hex_digit n) = n"
  by (auto simp: hex_digit_def is_hex_def hex_val_def Let_def)

lemma is_hex_neq:
  "is_hex c \<Longrightarrow> \<not> is_space c" "is_hex c \<Longrightarrow> c \<noteq> CHR ''_''" "is_hex c \<Longrightarrow> c \<noteq> CHR ''-''"
  "is_hex c \<Longrightarrow> c \<noteq> CHR ''+''" "is_hex c \<Longrightarrow> c \<noteq> CHR ''x''" "is_hex c \<Longrightarrow> c \<noteq> CHR ''X''"
  by (auto simp: is_hex_def is_space_def Let_def)

section \<open>Bytes\<close>

definition hex_byte :: "char \<Rightarrow> string" where
  "hex_byte c = [hex_digit (of_char c div 16), hex_digit (of_char c mod 16)]"

definition hex :: "bytes \<Rightarrow> string" where
  "hex bs = concat (map hex_byte bs)"

definition fromhex_error :: "'a result" where
  "fromhex_error = Inl (ValueError ''non-hexadecimal number found in fromhex() arg'')"

text \<open>The whitespace that \<open>fromhex\<close> skips between bytes.\<close>

definition byte_space :: "char \<Rightarrow> bool" where
  "byte_space c \<longleftrightarrow> c \<in> {CHR '' '', CHR 0x09, CHR 0x0A, CHR 0x0B, CHR 0x0C, CHR 0x0D}"

fun fromhex :: "string \<Rightarrow> bytes result" where
  "fromhex [] = Inr []"
| "fromhex [c] = (if byte_space c then Inr [] else fromhex_error)"
| "fromhex (c # d # s) =
     (if byte_space c then fromhex (d # s)
      else if is_hex c \<and> is_hex d
      then res_bind (fromhex s) (\<lambda>bs. Inr (char_of (16 * hex_val c + hex_val d) # bs))
      else fromhex_error)"

lemma is_hex_byte_space: "is_hex c \<Longrightarrow> \<not> byte_space c"
  by (auto simp: is_hex_def byte_space_def Let_def)

lemma of_char_div16 [simp]: "of_char c div 16 < (16 :: nat)"
proof -
  have "of_char c mod 256 < (256 :: nat)" by simp
  then show ?thesis by (simp add: of_char_mod_256 less_mult_imp_div_less)
qed

lemma hex_Nil [simp]: "hex [] = []"
  by (simp add: hex_def)

lemma hex_Cons: "hex (c # bs) = hex_byte c @ hex bs"
  by (simp add: hex_def)

lemma fromhex_hex [simp]: "fromhex (hex bs) = Inr bs"
  by (induction bs) (simp_all add: hex_Cons hex_byte_def is_hex_byte_space)

lemma hex_inject [simp]: "hex x = hex y \<longleftrightarrow> x = y"
  by (metis fromhex_hex sum.inject(2))

lemma length_hex [simp]: "length (hex bs) = 2 * length bs"
  by (induction bs) (simp_all add: hex_Cons hex_byte_def)

section \<open>Fixed-width integers\<close>

fun hex_nat :: "nat \<Rightarrow> string" where
  "hex_nat n = (if n < 16 then [hex_digit n] else hex_nat (n div 16) @ [hex_digit (n mod 16)])"

declare hex_nat.simps [simp del]

definition hex16 :: "nat \<Rightarrow> string" where
  "hex16 n = replicate (16 - length (hex_nat n)) CHR ''0'' @ hex_nat n"

definition hex_value :: "string \<Rightarrow> nat" where
  "hex_value s = foldl (\<lambda>a c. 16 * a + hex_val c) 0 s"

fun hex_digits_ok :: "string \<Rightarrow> bool" where
  "hex_digits_ok [] = False"
| "hex_digits_ok [c] = is_hex c"
| "hex_digits_ok (c # d # s) =
     (is_hex c \<and> (if d = CHR ''_'' then hex_digits_ok s else hex_digits_ok (d # s)))"

definition drop_hex_prefix :: "string \<Rightarrow> string" where
  "drop_hex_prefix s =
     (if take 2 s \<in> {''0x'', ''0X''}
      then (if take 1 (drop 2 s) = ''_'' then drop 3 s else drop 2 s) else s)"

definition parse_hex_int :: "string \<Rightarrow> int result" where
  "parse_hex_int s =
     (let t = strip s;
          neg = (t \<noteq> [] \<and> hd t = CHR ''-'');
          body = drop_hex_prefix (if t \<noteq> [] \<and> hd t \<in> {CHR ''-'', CHR ''+''} then tl t else t);
          n = int (hex_value (filter (\<lambda>c. c \<noteq> CHR ''_'') body))
      in if hex_digits_ok body then Inr (if neg then - n else n)
         else Inl (ValueError (''invalid literal for int() with base 16: '' @ s)))"

lemma hex_nat_hex: "\<forall>c \<in> set (hex_nat n). is_hex c"
  by (induction n rule: hex_nat.induct) (subst hex_nat.simps, auto)

lemma hex_nat_nonempty [simp]: "hex_nat n \<noteq> []"
  by (subst hex_nat.simps) simp

lemma hex_value_snoc [simp]: "hex_value (s @ [c]) = 16 * hex_value s + hex_val c"
  by (simp add: hex_value_def)

lemma hex_value_nat [simp]: "hex_value (hex_nat n) = n"
proof (induction n rule: hex_nat.induct)
  case (1 n)
  then show ?case by (subst hex_nat.simps) (auto simp: hex_value_def)
qed

lemma hex_value_zeros: "hex_value (replicate k CHR ''0'' @ s) = hex_value s"
proof -
  have "foldl (\<lambda>a c. 16 * a + hex_val c) 0 (replicate k CHR ''0'') = 0"
    by (induction k) (simp_all add: hex_val_def)
  then show ?thesis by (simp add: hex_value_def)
qed

lemma length_hex_nat: "n < 16 ^ Suc k \<Longrightarrow> length (hex_nat n) \<le> Suc k"
proof (induction k arbitrary: n)
  case 0
  then show ?case by (subst hex_nat.simps) simp
next
  case (Suc k)
  then have "n div 16 < 16 ^ Suc k" by (simp add: less_mult_imp_div_less mult.commute)
  from Suc.IH [OF this] show ?case by (subst hex_nat.simps) simp
qed

lemma length_hex16: "n < 2 ^ 64 \<Longrightarrow> length (hex16 n) = 16"
  using length_hex_nat [of n 15] by (simp add: hex16_def)

lemma hex16_hex: "\<forall>c \<in> set (hex16 n). is_hex c"
  using hex_nat_hex [of n] by (auto simp: hex16_def is_hex_def)

lemma hex16_nonempty [simp]: "hex16 n \<noteq> []"
  by (simp add: hex16_def)

lemma hex_digits_ok_all: "s \<noteq> [] \<Longrightarrow> \<forall>c \<in> set s. is_hex c \<Longrightarrow> hex_digits_ok s"
  by (induction s rule: hex_digits_ok.induct) (auto dest: is_hex_neq(2))

lemma drop_hex_prefix_id:
  assumes "\<forall>c \<in> set s. is_hex c"
  shows "drop_hex_prefix s = s"
proof -
  have "set (take 2 s) \<subseteq> set s" by (rule set_take_subset)
  then have "CHR ''x'' \<notin> set (take 2 s)" "CHR ''X'' \<notin> set (take 2 s)"
    using assms is_hex_neq(5,6) by blast+
  then show ?thesis by (auto simp: drop_hex_prefix_def)
qed

lemma parse_hex_digits:
  assumes "s \<noteq> []" and "\<forall>c \<in> set s. is_hex c"
  shows "parse_hex_int s = Inr (int (hex_value s))"
proof -
  have "is_hex (hd s)" "is_hex (last s)" using assms by simp_all
  then have "trimmed s" "hd s \<noteq> CHR ''-''" "hd s \<noteq> CHR ''+''"
    by (auto simp: trimmed_def dest: is_hex_neq)
  moreover have "filter (\<lambda>c. c \<noteq> CHR ''_'') s = s"
    using assms by (auto simp: filter_id_conv dest: is_hex_neq(2))
  ultimately show ?thesis
    using assms by (simp add: parse_hex_int_def strip_trimmed Let_def drop_hex_prefix_id hex_digits_ok_all)
qed

lemma parse_hex16 [simp]: "parse_hex_int (hex16 n) = Inr (int n)"
  using parse_hex_digits [OF hex16_nonempty hex16_hex] by (simp add: hex16_def hex_value_zeros)

end
