(* ===== verification/Batched_Evidence.thy ===== *)
theory Batched_Evidence
  imports Graph_Types Hex_Text
begin

text \<open>
  Batched Merkle evidence (\<open>batched_evidence.py\<close>): framed fields, leaf and node digests, the
  root of a batch, membership proofs and their verification. A text is the list of its UTF-8
  bytes, so that \<open>len(text.encode())\<close> is its length. SHA-256 is the parameter \<open>sha\<close>, from byte
  strings to digests; \<open>hexdigest\<close> is its hexadecimal text.
\<close>

section \<open>Data\<close>

record batched_leaf =
  bl_leaf_id :: string
  bl_index :: int
  bl_nonce :: string
  bl_first_sequence :: int
  bl_last_sequence :: int
  bl_payload_digest :: string
  bl_semantic_root :: string
  bl_previous_execution_root :: string
  bl_observation_digest :: string
  bl_outcome :: string
  bl_digest :: string

record merkle_step =
  ms_direction :: string
  ms_sibling_digest :: string

record merkle_proof =
  mp_leaf_index :: nat
  mp_leaf_count :: nat
  mp_steps :: "merkle_step list"
  mp_root_digest :: string

section \<open>Digests\<close>

definition LEAF_DOMAIN :: string where
  "LEAF_DOMAIN = ''poo-flow.batched-evidence-leaf.draft.1|''"

definition NODE_DOMAIN :: string where
  "NODE_DOMAIN = ''poo-flow.batched-merkle-node.draft.1|''"

definition framed :: "string \<Rightarrow> string" where
  "framed s = nat_str (length s) @ '':'' @ s"

fun frame :: "pyval \<Rightarrow> string result" where
  "frame (PStr s) = Inr (framed s)"
| "frame (PInt i) =
     (if i < 0 then Inl (ValueError ''Batched Merkle integer fields must be non-negative'')
      else Inr (framed (int_str i)))"
| "frame _ = Inl (TypeError ''non-canonical Batched Merkle field'')"

definition packet :: "string \<Rightarrow> pyval list \<Rightarrow> string result" where
  "packet domain vs = res_bind (res_map frame vs) (\<lambda>fs. Inr (domain @ concat fs))"

definition digest :: "(bytes \<Rightarrow> bytes) \<Rightarrow> string \<Rightarrow> pyval list \<Rightarrow> string result" where
  "digest sha domain vs = res_bind (packet domain vs) (\<lambda>p. Inr (hex (sha p)))"

text \<open>\<open>_node\<close>: both fields are texts, which always frame, so the digest is a plain text.\<close>

definition node_packet :: "string \<Rightarrow> string \<Rightarrow> string" where
  "node_packet l r = NODE_DOMAIN @ framed l @ framed r"

definition node :: "(bytes \<Rightarrow> bytes) \<Rightarrow> string \<Rightarrow> string \<Rightarrow> string" where
  "node sha l r = hex (sha (node_packet l r))"

lemma digest_node: "digest sha NODE_DOMAIN [PStr l, PStr r] = Inr (node sha l r)"
  by (simp add: digest_def packet_def node_def node_packet_def)

text \<open>The ten hashed fields of a leaf, in the order of the source's tuple.\<close>

definition leaf_fields :: "batched_leaf \<Rightarrow> pyval list" where
  "leaf_fields l =
     [PStr (bl_leaf_id l), PInt (bl_index l), PStr (bl_nonce l), PInt (bl_first_sequence l),
      PInt (bl_last_sequence l), PStr (bl_payload_digest l), PStr (bl_semantic_root l),
      PStr (bl_previous_execution_root l), PStr (bl_observation_digest l), PStr (bl_outcome l)]"

definition batched_evidence_leaf ::
  "(bytes \<Rightarrow> bytes) \<Rightarrow> string \<Rightarrow> int \<Rightarrow> string \<Rightarrow> int \<Rightarrow> int \<Rightarrow> string \<Rightarrow> string \<Rightarrow> string \<Rightarrow> string
   \<Rightarrow> string \<Rightarrow> batched_leaf result" where
  "batched_evidence_leaf sha leaf_id index nonce first_sequence last_sequence payload_digest
       semantic_root previous_execution_root observation_digest outcome =
     (let l = \<lparr>bl_leaf_id = leaf_id, bl_index = index, bl_nonce = nonce,
               bl_first_sequence = first_sequence, bl_last_sequence = last_sequence,
               bl_payload_digest = payload_digest, bl_semantic_root = semantic_root,
               bl_previous_execution_root = previous_execution_root,
               bl_observation_digest = observation_digest, bl_outcome = outcome, bl_digest = []\<rparr>
      in res_bind (digest sha LEAF_DOMAIN (leaf_fields l)) (\<lambda>d. Inr (l\<lparr>bl_digest := d\<rparr>)))"

section \<open>Trees and proofs\<close>

text \<open>\<open>_next_level\<close>: the last digest of an odd level is its own sibling.\<close>

fun next_level :: "(bytes \<Rightarrow> bytes) \<Rightarrow> string list \<Rightarrow> string list" where
  "next_level sha [] = []"
| "next_level sha [a] = [node sha a a]"
| "next_level sha (a # b # ds) = node sha a b # next_level sha ds"

lemma length_next_level [simp]: "length (next_level sha ds) = (length ds + 1) div 2"
  by (induction sha ds rule: next_level.induct) simp_all

function merkle_root :: "(bytes \<Rightarrow> bytes) \<Rightarrow> string list \<Rightarrow> string result" where
  "merkle_root sha level =
     (if level = [] then Inl (ValueError ''Batched Merkle tree requires at least one leaf'')
      else if length level > 1 then merkle_root sha (next_level sha level)
      else Inr (level ! 0))"
  by auto
termination by (relation "measure (\<lambda>(_, level). length level)") auto

declare merkle_root.simps [simp del]

definition batched_merkle_root :: "(bytes \<Rightarrow> bytes) \<Rightarrow> batched_leaf list \<Rightarrow> string result" where
  "batched_merkle_root sha leaves = merkle_root sha (map bl_digest leaves)"

definition batched_merkle_root_digests :: "(bytes \<Rightarrow> bytes) \<Rightarrow> bytes list \<Rightarrow> bytes result" where
  "batched_merkle_root_digests sha digests =
     (if \<exists>d \<in> set digests. length d \<noteq> 32
      then Inl (ValueError ''Batched Merkle digest must be exactly 32 bytes'')
      else res_bind (merkle_root sha (map hex digests)) fromhex)"

text \<open>The loop of \<open>batched_merkle_proof\<close>: the steps collected and the last level's digest.\<close>

function proof_loop ::
  "(bytes \<Rightarrow> bytes) \<Rightarrow> string list \<Rightarrow> nat \<Rightarrow> merkle_step list \<times> string" where
  "proof_loop sha level cursor =
     (if length level > 1
      then (let sibling_index = (if cursor mod 2 = 0 then min (cursor + 1) (length level - 1) else cursor - 1);
                direction = (if cursor mod 2 = 0 then ''right'' else ''left'');
                (steps, root) = proof_loop sha (next_level sha level) (cursor div 2)
            in (\<lparr>ms_direction = direction, ms_sibling_digest = level ! sibling_index\<rparr> # steps, root))
      else ([], level ! 0))"
  by auto
termination by (relation "measure (\<lambda>(_, level, _). length level)") auto

declare proof_loop.simps [simp del]

definition batched_merkle_proof ::
  "(bytes \<Rightarrow> bytes) \<Rightarrow> batched_leaf list \<Rightarrow> int \<Rightarrow> merkle_proof result" where
  "batched_merkle_proof sha leaves index =
     (if \<not> (0 \<le> index \<and> index < int (length leaves))
      then Inl (IndexError ''Batched Merkle proof index out of bounds'')
      else (let (steps, root) = proof_loop sha (map bl_digest leaves) (nat index)
            in Inr \<lparr>mp_leaf_index = nat index, mp_leaf_count = length leaves, mp_steps = steps,
                    mp_root_digest = root\<rparr>))"

fun verify_steps :: "(bytes \<Rightarrow> bytes) \<Rightarrow> string \<Rightarrow> merkle_step list \<Rightarrow> string option" where
  "verify_steps sha current [] = Some current"
| "verify_steps sha current (s # steps) =
     (if ms_direction s = ''left'' then verify_steps sha (node sha (ms_sibling_digest s) current) steps
      else if ms_direction s = ''right'' then verify_steps sha (node sha current (ms_sibling_digest s)) steps
      else None)"

definition batched_merkle_proof_verify :: "(bytes \<Rightarrow> bytes) \<Rightarrow> batched_leaf \<Rightarrow> merkle_proof \<Rightarrow> bool" where
  "batched_merkle_proof_verify sha leaf prf =
     (case verify_steps sha (bl_digest leaf) (mp_steps prf) of
        None \<Rightarrow> False | Some current \<Rightarrow> current = mp_root_digest prf)"

section \<open>Completeness of proofs\<close>

lemma next_level_nth:
  "i < length ds \<Longrightarrow> next_level sha ds ! (i div 2) =
     (if i mod 2 = 0 then node sha (ds ! i) (ds ! min (i + 1) (length ds - 1))
      else node sha (ds ! (i - 1)) (ds ! i))"
proof (induction sha ds arbitrary: i rule: next_level.induct)
  case (3 sha a b ds)
  show ?case
  proof (cases "i < 2")
    case True
    then show ?thesis by (cases i) (auto simp: less_Suc_eq)
  next
    case False
    then obtain j where j: "i = Suc (Suc j)" by (metis add_2_eq_Suc le_Suc_ex not_less)
    have "min (Suc j) (length ds - 1) < length ds" and "j < length ds" using 3 j by auto
    moreover from this have "min (Suc (Suc (Suc j))) (Suc (length ds)) = Suc (Suc (min (Suc j) (length ds - 1)))"
      using \<open>j < length ds\<close> by linarith
    moreover have "j mod 2 \<noteq> 0 \<Longrightarrow> Suc j = Suc (Suc (j - 1))" by (cases j) simp_all
    ultimately show ?thesis using 3(1) [of j] j by auto
  qed
qed simp_all

lemma proof_loop_correct:
  assumes "i < length level" and "proof_loop sha level i = (steps, root)"
  shows "verify_steps sha (level ! i) steps = Some root \<and> merkle_root sha level = Inr root"
  using assms
proof (induction "length level" arbitrary: level i steps root rule: less_induct)
  case less
  show ?case
  proof (cases "length level > 1")
    case True
    obtain st where r: "proof_loop sha (next_level sha level) (i div 2) = (st, root)"
      and s: "steps = \<lparr>ms_direction = (if i mod 2 = 0 then ''right'' else ''left''),
          ms_sibling_digest = level ! (if i mod 2 = 0 then min (i + 1) (length level - 1) else i - 1)\<rparr> # st"
      using less.prems(2) True by (subst (asm) proof_loop.simps) (auto simp: Let_def split: prod.splits)
    have "length (next_level sha level) < length level" "i div 2 < length (next_level sha level)"
      using True less.prems(1) by auto
    from less.hyps [OF this r] show ?thesis
      using True s next_level_nth [OF less.prems(1), of sha]
      by (subst merkle_root.simps) auto
  next
    case False
    then obtain d where "level = [d]" "i = 0" using less.prems(1) by (cases level) auto
    then show ?thesis using less.prems(2) by (auto simp: proof_loop.simps merkle_root.simps)
  qed
qed

section \<open>Soundness of proofs\<close>

text \<open>Frames are self-delimiting: a framed text and what follows it determine each other.\<close>

lemma framed_append_inject: "framed s @ x = framed t @ y \<longleftrightarrow> s = t \<and> x = y"
proof
  assume "framed s @ x = framed t @ y"
  then have e: "nat_str (length s) @ CHR '':'' # s @ x = nat_str (length t) @ CHR '':'' # t @ y"
    by (simp add: framed_def)
  have c: "CHR '':'' \<notin> set (nat_str n)" for n
    using nat_str_digits [of n] by (auto simp: is_digit_def)
  from arg_cong [OF e, of "split_once CHR '':''"] have "nat_str (length s) = nat_str (length t)" "s @ x = t @ y"
    by (simp_all add: split_once_append c)
  then have "length s = length t" "s @ x = t @ y" by (metis nat_val_str)+
  then show "s = t \<and> x = y" by simp
qed simp

lemma framed_inject [simp]: "framed s = framed t \<longleftrightarrow> s = t"
  using framed_append_inject [of s "[]" t "[]"] by simp

lemma int_str_inject: "int_str i = int_str j \<longleftrightarrow> i = j"
  by (metis parse_int_str sum.inject(2))

lemma node_packet_inject: "node_packet a b = node_packet c d \<longleftrightarrow> a = c \<and> b = d"
  by (auto simp: node_packet_def framed_append_inject)

definition leaf_packet :: "batched_leaf \<Rightarrow> string" where
  "leaf_packet l = LEAF_DOMAIN @ framed (bl_leaf_id l) @ framed (int_str (bl_index l)) @
     framed (bl_nonce l) @ framed (int_str (bl_first_sequence l)) @ framed (int_str (bl_last_sequence l)) @
     framed (bl_payload_digest l) @ framed (bl_semantic_root l) @ framed (bl_previous_execution_root l) @
     framed (bl_observation_digest l) @ framed (bl_outcome l)"

lemma leaf_packet_inject:
  "leaf_packet l = leaf_packet m \<Longrightarrow> bl_digest l = bl_digest m \<Longrightarrow> l = m"
  by (simp add: leaf_packet_def framed_append_inject int_str_inject)

text \<open>The two domains keep leaf and node packets apart.\<close>

lemma domains_disjoint: "LEAF_DOMAIN @ x \<noteq> NODE_DOMAIN @ y"
  by (simp add: LEAF_DOMAIN_def NODE_DOMAIN_def)

lemma leaf_not_node: "leaf_packet l \<noteq> node_packet a b"
  by (simp add: leaf_packet_def node_packet_def domains_disjoint)

text \<open>A leaf made by \<open>batched_evidence_leaf\<close> carries the digest of its own packet.\<close>

definition made_leaf :: "(bytes \<Rightarrow> bytes) \<Rightarrow> batched_leaf \<Rightarrow> bool" where
  "made_leaf sha l \<longleftrightarrow>
     batched_evidence_leaf sha (bl_leaf_id l) (bl_index l) (bl_nonce l) (bl_first_sequence l)
       (bl_last_sequence l) (bl_payload_digest l) (bl_semantic_root l) (bl_previous_execution_root l)
       (bl_observation_digest l) (bl_outcome l) = Inr l"

lemma made_leaf_digest: "made_leaf sha l \<Longrightarrow> bl_digest l = hex (sha (leaf_packet l))"
  by (cases l) (auto simp: made_leaf_def batched_evidence_leaf_def digest_def packet_def leaf_fields_def
      leaf_packet_def Let_def split: if_splits)

text \<open>The packets hashed while a level is folded to its root, and while a proof is checked.\<close>

fun pairs_of :: "'a list \<Rightarrow> ('a \<times> 'a) list" where
  "pairs_of [] = []"
| "pairs_of [a] = [(a, a)]"
| "pairs_of (a # b # ds) = (a, b) # pairs_of ds"

lemma next_level_pairs: "next_level sha ds = map (\<lambda>(a, b). node sha a b) (pairs_of ds)"
  by (induction sha ds rule: next_level.induct) simp_all

lemma pairs_of_in: "(a, b) \<in> set (pairs_of ds) \<Longrightarrow> a \<in> set ds \<and> b \<in> set ds"
  by (induction ds rule: pairs_of.induct) auto

function level_packets :: "(bytes \<Rightarrow> bytes) \<Rightarrow> string list \<Rightarrow> string list" where
  "level_packets sha level =
     (if length level > 1
      then map (\<lambda>(a, b). node_packet a b) (pairs_of level) @ level_packets sha (next_level sha level)
      else [])"
  by auto
termination by (relation "measure (\<lambda>(_, level). length level)") auto

declare level_packets.simps [simp del]

fun path_packets :: "(bytes \<Rightarrow> bytes) \<Rightarrow> string \<Rightarrow> merkle_step list \<Rightarrow> string list" where
  "path_packets sha current [] = []"
| "path_packets sha current (s # steps) =
     (if ms_direction s = ''left''
      then node_packet (ms_sibling_digest s) current # path_packets sha (node sha (ms_sibling_digest s) current) steps
      else node_packet current (ms_sibling_digest s) # path_packets sha (node sha current (ms_sibling_digest s)) steps)"

definition merkle_packets :: "(bytes \<Rightarrow> bytes) \<Rightarrow> batched_leaf list \<Rightarrow> batched_leaf \<Rightarrow> merkle_proof \<Rightarrow> string list" where
  "merkle_packets sha leaves leaf prf =
     leaf_packet leaf # map leaf_packet leaves @ level_packets sha (map bl_digest leaves) @
     path_packets sha (bl_digest leaf) (mp_steps prf)"

text \<open>A digest of the tree: a leaf digest, or a node over two digests of the tree.\<close>

inductive in_tree :: "(bytes \<Rightarrow> bytes) \<Rightarrow> string set \<Rightarrow> string set \<Rightarrow> string \<Rightarrow> bool"
  for sha L S where
  leaf: "d \<in> L \<Longrightarrow> in_tree sha L S d"
| node: "in_tree sha L S a \<Longrightarrow> in_tree sha L S b \<Longrightarrow> node_packet a b \<in> S \<Longrightarrow> in_tree sha L S (node sha a b)"

lemma level_packets_split:
  "length level > 1 \<Longrightarrow> level_packets sha level =
     map (\<lambda>(a, b). node_packet a b) (pairs_of level) @ level_packets sha (next_level sha level)"
  by (subst level_packets.simps) simp

lemma merkle_root_split:
  "length level > 1 \<Longrightarrow> merkle_root sha level = merkle_root sha (next_level sha level)"
  by (subst merkle_root.simps) auto

lemma merkle_root_single [simp]: "merkle_root sha [d] = Inr d"
  by (simp add: merkle_root.simps)

lemma merkle_root_Nil: "merkle_root sha [] \<noteq> Inr d"
  by (simp add: merkle_root.simps)

lemma merkle_root_in_tree:
  assumes "merkle_root sha level = Inr root" and "\<forall>d \<in> set level. in_tree sha L S d"
    and "set (level_packets sha level) \<subseteq> S"
  shows "in_tree sha L S root"
  using assms
proof (induction sha level rule: merkle_root.induct)
  case (1 sha level)
  show ?case
  proof (cases "length level > 1")
    case True
    have p: "set (level_packets sha (next_level sha level)) \<subseteq> S"
      "\<forall>(a, b) \<in> set (pairs_of level). node_packet a b \<in> S"
      using 1(4) True by (auto simp: level_packets_split)
    have "\<forall>d \<in> set (next_level sha level). in_tree sha L S d"
      using 1(3) p(2) by (auto simp: next_level_pairs intro!: in_tree.node dest: pairs_of_in)
    moreover have "merkle_root sha (next_level sha level) = Inr root"
      using 1(2) merkle_root_split [OF True] by simp
    moreover have "level \<noteq> []" using True by auto
    ultimately show ?thesis using 1(1) True p(1) by simp
  next
    case False
    then consider "level = []" | d where "level = [d]" by (cases level) auto
    then show ?thesis using 1(2,3) by cases (auto simp: merkle_root_Nil)
  qed
qed

lemma in_tree_node_children:
  assumes "in_tree sha L S (node sha a b)" and "inj_on sha S" and "node_packet a b \<in> S"
    and "\<And>d. d \<in> L \<Longrightarrow> \<exists>l. d = hex (sha (leaf_packet l)) \<and> leaf_packet l \<in> S"
  shows "in_tree sha L S a \<and> in_tree sha L S b"
  using assms(1)
proof cases
  case leaf
  with assms(4) obtain l where "node sha a b = hex (sha (leaf_packet l))" "leaf_packet l \<in> S" by blast
  then show ?thesis using assms(2,3) leaf_not_node [of l a b] by (simp add: node_def inj_on_eq_iff)
next
  case (node c d)
  then show ?thesis using assms(2,3) by (auto simp: node_def inj_on_eq_iff node_packet_inject)
qed

lemma verified_in_tree:
  assumes "verify_steps sha current steps = Some root" and "in_tree sha L S root"
    and "inj_on sha S" and "set (path_packets sha current steps) \<subseteq> S"
    and "\<And>d. d \<in> L \<Longrightarrow> \<exists>l. d = hex (sha (leaf_packet l)) \<and> leaf_packet l \<in> S"
  shows "in_tree sha L S current"
  using assms(1,4)
proof (induction steps arbitrary: current)
  case (Cons s steps)
  show ?case
  proof (cases "ms_direction s = ''left''")
    case True
    with Cons have "in_tree sha L S (node sha (ms_sibling_digest s) current)" by simp
    with True Cons.prems(2) in_tree_node_children [OF this assms(3) _ assms(5)] show ?thesis by auto
  next
    case False
    with Cons have "in_tree sha L S (node sha current (ms_sibling_digest s))" by (simp split: if_splits)
    with False Cons.prems(2) in_tree_node_children [OF this assms(3) _ assms(5)] show ?thesis by auto
  qed
qed (use assms(2) in simp)

section \<open>Properties\<close>

text \<open>
  Membership proofs are complete: for every batch and every index in it a proof is made, it
  carries the batch's Merkle root, and the verifier accepts it for the leaf at that index.
\<close>

theorem merkle_proof_complete:
  assumes "i < length leaves"
  shows "\<exists>prf. batched_merkle_proof sha leaves (int i) = Inr prf \<and>
     batched_merkle_root sha leaves = Inr (mp_root_digest prf) \<and>
     mp_leaf_index prf = i \<and> mp_leaf_count prf = length leaves \<and>
     batched_merkle_proof_verify sha (leaves ! i) prf"
proof -
  obtain st rt where "proof_loop sha (map bl_digest leaves) i = (st, rt)" by force
  with proof_loop_correct [OF _ this] assms show ?thesis
    by (simp add: batched_merkle_proof_def batched_merkle_root_def batched_merkle_proof_verify_def)
qed

text \<open>
  C6. Membership proofs are sound: if the verifier accepts any proof at all for a leaf made by
  \<open>batched_evidence_leaf\<close>, and the proof's root is the root of a batch of such leaves, then the
  leaf is one of the batch, unless SHA-256 collides on two of the texts that were hashed. (The
  verifier does not look at the proof's index and count, and does not need to.)
\<close>

theorem merkle_proof_sound:
  assumes "made_leaf sha leaf" and "\<forall>l \<in> set leaves. made_leaf sha l"
    and "batched_merkle_root sha leaves = Inr (mp_root_digest prf)"
    and "batched_merkle_proof_verify sha leaf prf"
    and "inj_on sha (set (merkle_packets sha leaves leaf prf))"
  shows "leaf \<in> set leaves"
proof -
  let ?S = "set (merkle_packets sha leaves leaf prf)" and ?L = "bl_digest ` set leaves"
  have L: "\<exists>l. d = hex (sha (leaf_packet l)) \<and> leaf_packet l \<in> ?S" if "d \<in> ?L" for d
    using that assms(2) made_leaf_digest by (force simp: merkle_packets_def)
  have "in_tree sha ?L ?S (mp_root_digest prf)"
    using assms(3) merkle_root_in_tree [of sha "map bl_digest leaves" "mp_root_digest prf" ?L ?S]
    by (auto simp: batched_merkle_root_def merkle_packets_def intro: in_tree.leaf)
  moreover have "verify_steps sha (bl_digest leaf) (mp_steps prf) = Some (mp_root_digest prf)"
    using assms(4) by (simp add: batched_merkle_proof_verify_def split: option.splits)
  ultimately have "in_tree sha ?L ?S (bl_digest leaf)"
    using verified_in_tree [OF _ _ assms(5) _ L] by (auto simp: merkle_packets_def)
  then have "bl_digest leaf \<in> ?L"
  proof cases
    case (node a b)
    then have "sha (leaf_packet leaf) = sha (node_packet a b)"
      using made_leaf_digest [OF assms(1)] by (simp add: node_def)
    with node assms(5) have "leaf_packet leaf = node_packet a b"
      by (auto simp: merkle_packets_def inj_on_eq_iff)
    then show ?thesis by (simp add: leaf_not_node)
  qed
  then obtain l where l: "l \<in> set leaves" "bl_digest leaf = bl_digest l" by auto
  then have "sha (leaf_packet leaf) = sha (leaf_packet l)"
    using assms(1,2) made_leaf_digest by (metis hex_inject)
  with l(1) assms(5) have "leaf_packet leaf = leaf_packet l" by (auto simp: merkle_packets_def inj_on_eq_iff)
  with l leaf_packet_inject show ?thesis by metis
qed

text \<open>
  The root does not bind the number of leaves: a batch of three and the batch with its last
  leaf repeated have one root.
\<close>

lemma merkle_root_duplicate:
  "batched_merkle_root sha [a, b, c] = batched_merkle_root sha [a, b, c, c]"
  by (simp add: batched_merkle_root_def merkle_root.simps)

definition demo_leaf :: "int \<Rightarrow> batched_leaf" where
  "demo_leaf i = (let l = \<lparr>bl_leaf_id = ''s'', bl_index = i, bl_nonce = ''n'', bl_first_sequence = 1,
      bl_last_sequence = 1, bl_payload_digest = [], bl_semantic_root = [], bl_previous_execution_root = [],
      bl_observation_digest = [], bl_outcome = ''buffered'', bl_digest = []\<rparr>
    in l\<lparr>bl_digest := hex (leaf_packet l)\<rparr>)"

definition demo_proof :: merkle_proof where
  "demo_proof = \<lparr>mp_leaf_index = 1, mp_leaf_count = 2,
     mp_steps = [\<lparr>ms_direction = ''left'', ms_sibling_digest = bl_digest (demo_leaf 0)\<rparr>],
     mp_root_digest = node (\<lambda>x. x) (bl_digest (demo_leaf 0)) (bl_digest (demo_leaf 1))\<rparr>"

lemma made_demo_leaf: "0 \<le> i \<Longrightarrow> made_leaf (\<lambda>x. x) (demo_leaf i)"
  by (simp add: made_leaf_def demo_leaf_def batched_evidence_leaf_def digest_def packet_def leaf_fields_def
      leaf_packet_def int_str_def Let_def)

theorem merkle_proof_complete_witness:
  "\<exists>prf. batched_merkle_proof (\<lambda>x. x) [demo_leaf 0, demo_leaf 1, demo_leaf 2] 2 = Inr prf \<and>
     batched_merkle_proof_verify (\<lambda>x. x) (demo_leaf 2) prf"
  using merkle_proof_complete [of 2 "[demo_leaf 0, demo_leaf 1, demo_leaf 2]" "\<lambda>x. x"] by auto

theorem merkle_proof_sound_witness:
  "batched_merkle_proof_verify (\<lambda>x. x) (demo_leaf 1) demo_proof \<and>
   demo_leaf 1 \<in> set [demo_leaf 0, demo_leaf 1]"
proof
  show v: "batched_merkle_proof_verify (\<lambda>x. x) (demo_leaf 1) demo_proof"
    by (simp add: batched_merkle_proof_verify_def demo_proof_def)
  show "demo_leaf 1 \<in> set [demo_leaf 0, demo_leaf 1]"
    by (rule merkle_proof_sound [OF made_demo_leaf _ _ v])
       (simp_all add: made_demo_leaf batched_merkle_root_def merkle_root_split demo_proof_def)
qed

end
