(* ===== verification/Evidence_Model.thy ===== *)
theory Evidence_Model
  imports Batched_Evidence
begin

text \<open>
  Evidence receipts of authorized effects (\<open>evidence_model.py\<close>): receipts, reservations,
  reconciliations and commit receipts as records, validation, the claim level of a receipt,
  the projection of a native mediation result, and the text form of nonces. The clock is the
  argument \<open>now\<close>.
\<close>

section \<open>Data\<close>

type_synonym nonce = "int \<times> int"

record ev_receipt =
  rc_session_id :: string
  rc_mediation_sequence :: int
  rc_first_sequence :: int
  rc_last_sequence :: int
  rc_nonce :: nonce
  rc_semantic_root :: bytes
  rc_before_execution_root :: bytes
  rc_after_execution_root :: bytes
  rc_outcome :: string
  rc_observation_digest :: bytes
  rc_evidence_reference :: string
  rc_kernel_signature :: bytes
  rc_signature_verified :: bool
  rc_inclusion_proof_verified :: bool
  rc_created_at_ns :: int

record ev_reconciliation =
  rn_semantic_root :: bytes
  rn_execution_root :: bytes
  rn_mediation_sequence :: int
  rn_runtime_sequence :: int
  rn_consumed_nonces :: "nonce list"
  rn_staged_mediation_sequences :: "int list"
  rn_staged_leaf_digests :: "bytes list"

record ev_batch_commit =
  bc_session_id :: string
  bc_first_mediation_sequence :: int
  bc_last_mediation_sequence :: int
  bc_leaf_count :: int
  bc_before_execution_root :: bytes
  bc_batch_root :: bytes
  bc_after_execution_root :: bytes
  bc_evidence_digest :: bytes
  bc_attestation_digest :: bytes
  bc_verification_flags :: int

record ev_reservation =
  rs_session_id :: string
  rs_mediation_sequence :: int
  rs_first_sequence :: int
  rs_last_sequence :: int
  rs_nonce :: nonce
  rs_semantic_root :: bytes
  rs_before_execution_root :: bytes

text \<open>The attributes that the projection of a native mediation reads.\<close>

record native_mediation =
  nm_nonce :: nonce
  nm_semantic_root :: bytes
  nm_before_execution_root :: bytes

record native_result =
  nr_mediation_outcome :: int
  nr_mediation_sequence :: int
  nr_execution_root :: bytes
  nr_observation_digest :: bytes

abbreviation evidence_error :: "string \<Rightarrow> 'a result" where
  "evidence_error msg \<equiv> Inl (AuthorizedEffectEvidenceError msg)"

section \<open>Claim levels\<close>

definition l3_verified :: "ev_receipt \<Rightarrow> bool" where
  "l3_verified r \<longleftrightarrow> rc_outcome r = ''committed'' \<and> rc_evidence_reference r \<noteq> [] \<and>
     rc_kernel_signature r \<noteq> [] \<and> rc_signature_verified r \<and> rc_inclusion_proof_verified r"

definition claim_level :: "ev_receipt \<Rightarrow> string" where
  "claim_level r =
     (if l3_verified r then ''l3-verified''
      else if rc_outcome r \<in> {''buffered'', ''indeterminate''} then ''l1-mediated''
      else ''l2-evidenced'')"

section \<open>Validation and construction\<close>

definition validate_receipt :: "ev_receipt \<Rightarrow> unit result" where
  "validate_receipt r =
     (if rc_session_id r = [] \<or> rc_mediation_sequence r \<le> 0 \<or> rc_first_sequence r \<le> 0 \<or>
         rc_first_sequence r > rc_last_sequence r
      then evidence_error ''invalid evidence session or sequence''
      else if rc_outcome r \<notin> {''committed'', ''buffered'', ''indeterminate''}
      then evidence_error ''unsupported mediation outcome''
      else if \<exists>d \<in> {rc_semantic_root r, rc_before_execution_root r, rc_after_execution_root r,
                     rc_observation_digest r}. length d \<noteq> 32
      then evidence_error ''evidence digest must be 32 bytes''
      else if rc_outcome r \<in> {''buffered'', ''indeterminate''} \<and>
              rc_after_execution_root r \<noteq> rc_before_execution_root r
      then evidence_error ''non-committed evidence cannot advance execution root''
      else Inr ())"

definition authorized_effect_evidence_receipt ::
  "int \<Rightarrow> string \<Rightarrow> int \<Rightarrow> int \<Rightarrow> int \<Rightarrow> nonce \<Rightarrow> bytes \<Rightarrow> bytes \<Rightarrow> bytes \<Rightarrow> string \<Rightarrow> bytes \<Rightarrow> string \<Rightarrow> bytes
   \<Rightarrow> bool \<Rightarrow> bool \<Rightarrow> ev_receipt result" where
  "authorized_effect_evidence_receipt now session_id mediation_sequence first_sequence last_sequence
       nonce semantic_root before_root after_root outcome observation_digest evidence_reference
       kernel_signature signature_verified inclusion_proof_verified =
     (let r = \<lparr>rc_session_id = session_id, rc_mediation_sequence = mediation_sequence,
               rc_first_sequence = first_sequence, rc_last_sequence = last_sequence, rc_nonce = nonce,
               rc_semantic_root = semantic_root, rc_before_execution_root = before_root,
               rc_after_execution_root = after_root, rc_outcome = outcome,
               rc_observation_digest = observation_digest, rc_evidence_reference = evidence_reference,
               rc_kernel_signature = kernel_signature, rc_signature_verified = signature_verified,
               rc_inclusion_proof_verified = inclusion_proof_verified, rc_created_at_ns = now\<rparr>
      in res_bind (validate_receipt r) (\<lambda>_. Inr r))"

definition native_outcomes :: "(int \<times> string) list" where
  "native_outcomes = [(1, ''committed''), (2, ''buffered''), (4, ''indeterminate'')]"

definition authorized_effect_evidence_from_native ::
  "int \<Rightarrow> string \<Rightarrow> native_mediation \<Rightarrow> native_result \<Rightarrow> string \<Rightarrow> bytes \<Rightarrow> bool \<Rightarrow> bool \<Rightarrow> int \<Rightarrow> int
   \<Rightarrow> ev_receipt result" where
  "authorized_effect_evidence_from_native now session_id mediation result evidence_reference
       kernel_signature signature_verified inclusion_proof_verified first_sequence last_sequence =
     (case map_of native_outcomes (nr_mediation_outcome result) of
        None \<Rightarrow> evidence_error ''native mediation returned an unknown outcome''
      | Some outcome \<Rightarrow>
          authorized_effect_evidence_receipt now session_id (nr_mediation_sequence result)
            first_sequence last_sequence (nm_nonce mediation) (nm_semantic_root mediation)
            (nm_before_execution_root mediation) (nr_execution_root result) outcome
            (nr_observation_digest result) evidence_reference kernel_signature signature_verified
            inclusion_proof_verified)"

section \<open>Nonces\<close>

definition evidence_nonce_text :: "nonce \<Rightarrow> string result" where
  "evidence_nonce_text nonce =
     (case nonce of (high, low) \<Rightarrow>
        if 0 \<le> high \<and> high < 2 ^ 64 \<and> 0 \<le> low \<and> low < 2 ^ 64
        then Inr (hex16 (nat high) @ hex16 (nat low))
        else evidence_error ''nonce limbs must be uint64'')"

definition parse_evidence_nonce :: "string \<Rightarrow> nonce result" where
  "parse_evidence_nonce s =
     res_bind (parse_hex_int (take 16 s)) (\<lambda>high.
     res_bind (parse_hex_int (drop 16 s)) (\<lambda>low. Inr (high, low)))"

lemma nonce_text_roundtrip: "evidence_nonce_text n = Inr t \<Longrightarrow> parse_evidence_nonce t = Inr n"
  by (cases n) (auto simp: evidence_nonce_text_def parse_evidence_nonce_def length_hex16 nat_less_iff
      split: if_splits)

lemma nonce_text_inject:
  "evidence_nonce_text n = Inr t \<Longrightarrow> evidence_nonce_text m = Inr t \<Longrightarrow> n = m"
  by (metis nonce_text_roundtrip sum.inject(2))

lemma validate_receipt_ok:
  "validate_receipt r = Inr u \<longleftrightarrow>
     rc_session_id r \<noteq> [] \<and> 0 < rc_mediation_sequence r \<and> 0 < rc_first_sequence r \<and>
     rc_first_sequence r \<le> rc_last_sequence r \<and>
     rc_outcome r \<in> {''committed'', ''buffered'', ''indeterminate''} \<and>
     length (rc_semantic_root r) = 32 \<and> length (rc_before_execution_root r) = 32 \<and>
     length (rc_after_execution_root r) = 32 \<and> length (rc_observation_digest r) = 32 \<and>
     (rc_outcome r \<noteq> ''committed'' \<longrightarrow> rc_after_execution_root r = rc_before_execution_root r)"
  by (auto simp: validate_receipt_def)

text \<open>The execution root moves only with evidence of a committed effect.\<close>

lemma valid_receipt_root_moves:
  "validate_receipt r = Inr u \<Longrightarrow> rc_after_execution_root r \<noteq> rc_before_execution_root r \<Longrightarrow>
   rc_outcome r = ''committed'' \<and> claim_level r \<noteq> ''l1-mediated''"
  by (auto simp: validate_receipt_ok claim_level_def)

end
