(* ===== verification/Evidence_Store.thy ===== *)
theory Evidence_Store
  imports Evidence_Model
begin

text \<open>
  The evidence journal (\<open>evidence.py\<close>, \<open>batched_evidence_store.py\<close>): five SQL tables as lists of
  rows, and the transactions that reserve, append, stage and flush evidence. A transaction is a
  function from the database to a new database and a value, or an exception; \<open>transact\<close> is the
  shared \<open>try\<close> block: it rolls back on an exception and turns a foreign exception into the
  transaction's own error. Integer columns are unbounded.
\<close>

section \<open>Tables\<close>

record ev_row =
  er_session :: string
  er_seq :: int
  er_first :: int
  er_last :: int
  er_nonce :: string
  er_semantic :: bytes
  er_before :: bytes
  er_after :: bytes
  er_outcome :: string
  er_observation :: bytes
  er_reference :: string
  er_signature :: bytes
  er_signature_verified :: int
  er_inclusion_verified :: int
  er_created :: int

record resv_row =
  rv_session :: string
  rv_seq :: int
  rv_first :: int
  rv_last :: int
  rv_nonce :: string
  rv_semantic :: bytes
  rv_before :: bytes
  rv_state :: string

record leaf_row =
  lf_session :: string
  lf_seq :: int
  lf_index :: int
  lf_input :: bytes
  lf_digest :: bytes
  lf_state :: string
  lf_batch :: "int option"

record batch_row =
  br_session :: string
  br_id :: int
  br_first :: int
  br_last :: int
  br_count :: int
  br_before :: bytes
  br_root :: bytes
  br_after :: bytes
  br_evidence :: bytes
  br_attestation :: bytes
  br_flags :: int

record ev_db =
  db_evidence :: "ev_row list"
  db_reservations :: "resv_row list"
  db_heads :: "(string \<times> (int \<times> bytes)) list"
  db_leaves :: "leaf_row list"
  db_batches :: "batch_row list"

definition ZERO_ROOT :: bytes where
  "ZERO_ROOT = replicate 32 CHR 0x00"

definition empty_db :: ev_db where
  "empty_db = \<lparr>db_evidence = [], db_reservations = [], db_heads = [], db_leaves = [], db_batches = []\<rparr>"

definition transact :: "string \<Rightarrow> ev_db \<Rightarrow> (ev_db \<times> 'a) result \<Rightarrow> ev_db \<times> 'a result" where
  "transact msg db r =
     (case r of
        Inr (db', x) \<Rightarrow> (db', Inr x)
      | Inl (AuthorizedEffectEvidenceError m) \<Rightarrow> (db, evidence_error m)
      | Inl _ \<Rightarrow> (db, evidence_error msg))"

section \<open>Queries\<close>

definition resv_of :: "ev_db \<Rightarrow> string \<Rightarrow> resv_row list" where
  "resv_of db s = filter (\<lambda>r. rv_session r = s) (db_reservations db)"

definition evid_of :: "ev_db \<Rightarrow> string \<Rightarrow> ev_row list" where
  "evid_of db s = filter (\<lambda>r. er_session r = s) (db_evidence db)"

definition staged_of :: "ev_db \<Rightarrow> string \<Rightarrow> leaf_row list" where
  "staged_of db s = filter (\<lambda>l. lf_session l = s \<and> lf_state l = ''staged'') (db_leaves db)"

definition batches_of :: "ev_db \<Rightarrow> string \<Rightarrow> batch_row list" where
  "batches_of db s = filter (\<lambda>b. br_session b = s) (db_batches db)"

definition load_head :: "ev_db \<Rightarrow> string \<Rightarrow> (int \<times> bytes) option" where
  "load_head db s = dict_get (db_heads db) s"

definition head_root :: "ev_db \<Rightarrow> string \<Rightarrow> bytes" where
  "head_root db s = (case load_head db s of None \<Rightarrow> ZERO_ROOT | Some h \<Rightarrow> snd h)"

definition reservation :: "ev_db \<Rightarrow> string \<Rightarrow> int \<Rightarrow> resv_row option" where
  "reservation db s n = find (\<lambda>r. rv_seq r = n) (resv_of db s)"

text \<open>\<open>select max(...)\<close>, null on no row.\<close>

fun max_int :: "int list \<Rightarrow> int option" where
  "max_int [] = None"
| "max_int (x # xs) = Some (case max_int xs of None \<Rightarrow> x | Some y \<Rightarrow> max x y)"

definition next_reservation_sequence :: "ev_db \<Rightarrow> string \<Rightarrow> int" where
  "next_reservation_sequence db s =
     (case max_int (map rv_seq (resv_of db s)) of None \<Rightarrow> 1 | Some m \<Rightarrow> m + 1)"

definition staged_count :: "ev_db \<Rightarrow> string \<Rightarrow> int" where
  "staged_count db s = int (length (staged_of db s))"

definition staged_rows :: "ev_db \<Rightarrow> string \<Rightarrow> (int \<times> bytes) list" where
  "staged_rows db s = map (\<lambda>l. (lf_seq l, lf_digest l)) (sort_key lf_index (staged_of db s))"

definition staged_reconciliation :: "ev_db \<Rightarrow> string \<Rightarrow> int list \<times> bytes list" where
  "staged_reconciliation db s = (map fst (staged_rows db s), map snd (staged_rows db s))"

definition next_batch_id :: "ev_db \<Rightarrow> string \<Rightarrow> int" where
  "next_batch_id db s =
     (case max_int (map br_id (batches_of db s)) of None \<Rightarrow> 1 | Some m \<Rightarrow> m + 1)"

section \<open>Reserving\<close>

definition validate_reservation :: "ev_reservation \<Rightarrow> unit result" where
  "validate_reservation v =
     (if rs_session_id v = [] \<or> rs_mediation_sequence v \<le> 0 \<or> rs_first_sequence v \<le> 0 \<or>
         rs_first_sequence v > rs_last_sequence v \<or> length (rs_semantic_root v) \<noteq> 32 \<or>
         length (rs_before_execution_root v) \<noteq> 32
      then evidence_error ''invalid evidence reservation''
      else res_bind (evidence_nonce_text (rs_nonce v)) (\<lambda>_. Inr ()))"

definition reservation_matches :: "ev_reservation \<Rightarrow> resv_row \<Rightarrow> bool result" where
  "reservation_matches v row =
     (if rs_first_sequence v \<noteq> rv_first row \<or> rs_last_sequence v \<noteq> rv_last row then Inr False
      else res_bind (evidence_nonce_text (rs_nonce v)) (\<lambda>t.
        Inr (t = rv_nonce row \<and> rs_semantic_root v = rv_semantic row \<and>
             rs_before_execution_root v = rv_before row)))"

definition unique_error :: "'a result" where
  "unique_error = Inl (DatabaseError ''UNIQUE constraint failed'')"

definition insert_reservation :: "resv_row \<Rightarrow> ev_db \<Rightarrow> ev_db result" where
  "insert_reservation row db =
     (if \<exists>r \<in> set (db_reservations db). rv_session r = rv_session row \<and>
            (rv_seq r = rv_seq row \<or> rv_nonce r = rv_nonce row)
      then unique_error
      else Inr (db\<lparr>db_reservations := db_reservations db @ [row]\<rparr>))"

definition reserve_tx :: "ev_reservation \<Rightarrow> ev_db \<Rightarrow> (ev_db \<times> unit) result" where
  "reserve_tx v db =
     (let s = rs_session_id v in
      case reservation db s (rs_mediation_sequence v) of
        Some existing \<Rightarrow>
          res_bind (reservation_matches v existing) (\<lambda>m.
            if m then Inr (db, ()) else evidence_error ''durable reservation binding mismatch'')
      | None \<Rightarrow>
          if \<exists>r \<in> set (resv_of db s). rv_state r = ''reserved''
          then evidence_error ''unresolved durable reservation blocks new effect''
          else if rs_mediation_sequence v \<noteq> next_reservation_sequence db s
          then evidence_error ''reservation does not extend mediation sequence''
          else if rs_before_execution_root v \<noteq> head_root db s
          then evidence_error ''reservation forks durable execution root''
          else res_bind (evidence_nonce_text (rs_nonce v)) (\<lambda>t.
               res_bind (insert_reservation
                 \<lparr>rv_session = s, rv_seq = rs_mediation_sequence v, rv_first = rs_first_sequence v,
                  rv_last = rs_last_sequence v, rv_nonce = t, rv_semantic = rs_semantic_root v,
                  rv_before = rs_before_execution_root v, rv_state = ''reserved''\<rparr> db) (\<lambda>db'.
               Inr (db', ()))))"

definition reserve :: "ev_reservation \<Rightarrow> ev_db \<Rightarrow> ev_db \<times> unit result" where
  "reserve v db =
     (case validate_reservation v of
        Inl e \<Rightarrow> (db, Inl e)
      | Inr _ \<Rightarrow> transact ''durable evidence reservation failed'' db (reserve_tx v db))"

section \<open>Appending\<close>

definition reservation_of_receipt :: "ev_receipt \<Rightarrow> ev_reservation" where
  "reservation_of_receipt r =
     \<lparr>rs_session_id = rc_session_id r, rs_mediation_sequence = rc_mediation_sequence r,
      rs_first_sequence = rc_first_sequence r, rs_last_sequence = rc_last_sequence r,
      rs_nonce = rc_nonce r, rs_semantic_root = rc_semantic_root r,
      rs_before_execution_root = rc_before_execution_root r\<rparr>"

definition assert_reserved :: "ev_db \<Rightarrow> ev_receipt \<Rightarrow> unit result" where
  "assert_reserved db r =
     (let err = evidence_error ''evidence finalize requires matching durable reservation'' in
      case reservation db (rc_session_id r) (rc_mediation_sequence r) of
        None \<Rightarrow> err
      | Some row \<Rightarrow>
          if rv_state row \<noteq> ''reserved'' then err
          else res_bind (reservation_matches (reservation_of_receipt r) row) (\<lambda>m.
            if m then Inr () else err))"

definition assert_extends :: "ev_receipt \<Rightarrow> (int \<times> bytes) option \<Rightarrow> unit result" where
  "assert_extends r h =
     (let expected_sequence = (case h of None \<Rightarrow> 1 | Some x \<Rightarrow> fst x + 1);
          expected_root = (case h of None \<Rightarrow> ZERO_ROOT | Some x \<Rightarrow> snd x)
      in if rc_mediation_sequence r \<noteq> expected_sequence
         then evidence_error ''mediation sequence does not extend durable evidence head''
         else if rc_before_execution_root r \<noteq> expected_root
         then evidence_error ''before execution root forks durable evidence head''
         else Inr ())"

definition receipt_row :: "ev_receipt \<Rightarrow> string \<Rightarrow> ev_row" where
  "receipt_row r t =
     \<lparr>er_session = rc_session_id r, er_seq = rc_mediation_sequence r, er_first = rc_first_sequence r,
      er_last = rc_last_sequence r, er_nonce = t, er_semantic = rc_semantic_root r,
      er_before = rc_before_execution_root r, er_after = rc_after_execution_root r,
      er_outcome = rc_outcome r, er_observation = rc_observation_digest r,
      er_reference = rc_evidence_reference r, er_signature = rc_kernel_signature r,
      er_signature_verified = of_bool (rc_signature_verified r),
      er_inclusion_verified = of_bool (rc_inclusion_proof_verified r), er_created = rc_created_at_ns r\<rparr>"

definition insert_receipt :: "ev_receipt \<Rightarrow> ev_db \<Rightarrow> ev_db result" where
  "insert_receipt r db =
     res_bind (evidence_nonce_text (rc_nonce r)) (\<lambda>t.
       if \<exists>e \<in> set (db_evidence db). er_session e = rc_session_id r \<and>
            (er_seq e = rc_mediation_sequence r \<or> er_nonce e = t)
       then unique_error
       else Inr (db\<lparr>db_evidence := db_evidence db @ [receipt_row r t]\<rparr>))"

definition set_resv_state :: "(resv_row \<Rightarrow> bool) \<Rightarrow> string \<Rightarrow> ev_db \<Rightarrow> ev_db" where
  "set_resv_state P st db =
     db\<lparr>db_reservations := map (\<lambda>r. if P r then r\<lparr>rv_state := st\<rparr> else r) (db_reservations db)\<rparr>"

definition advance_head :: "ev_receipt \<Rightarrow> ev_db \<Rightarrow> ev_db" where
  "advance_head r db =
     db\<lparr>db_heads := dict_set (rc_session_id r) (rc_mediation_sequence r, rc_after_execution_root r) (db_heads db)\<rparr>"

definition append_tx :: "ev_receipt \<Rightarrow> ev_db \<Rightarrow> (ev_db \<times> unit) result" where
  "append_tx r db =
     res_bind (assert_reserved db r) (\<lambda>_.
     res_bind (assert_extends r (load_head db (rc_session_id r))) (\<lambda>_.
     res_bind (insert_receipt r db) (\<lambda>db1.
     let db2 = set_resv_state (\<lambda>v. rv_session v = rc_session_id r \<and> rv_seq v = rc_mediation_sequence r)
                 ''finalized'' db1
     in Inr (advance_head r db2, ()))))"

definition append_receipt :: "ev_receipt \<Rightarrow> ev_db \<Rightarrow> ev_db \<times> unit result" where
  "append_receipt r db =
     (case validate_receipt r of
        Inl e \<Rightarrow> (db, Inl e)
      | Inr _ \<Rightarrow> transact ''durable evidence append failed'' db (append_tx r db))"

definition evidence_packet :: "ev_receipt \<Rightarrow> string \<Rightarrow> bytes" where
  "evidence_packet r t =
     str_join ''|'' [rc_session_id r, int_str (rc_mediation_sequence r), int_str (rc_first_sequence r),
       int_str (rc_last_sequence r), t, rc_semantic_root r, rc_before_execution_root r,
       rc_after_execution_root r, rc_outcome r, rc_observation_digest r, rc_evidence_reference r]"

definition evidence_digest :: "(bytes \<Rightarrow> bytes) \<Rightarrow> ev_receipt \<Rightarrow> bytes result" where
  "evidence_digest sha r =
     res_bind (evidence_nonce_text (rc_nonce r)) (\<lambda>t. Inr (sha (evidence_packet r t)))"

definition append_and_digest :: "(bytes \<Rightarrow> bytes) \<Rightarrow> ev_receipt \<Rightarrow> ev_db \<Rightarrow> ev_db \<times> bytes result" where
  "append_and_digest sha r db =
     (case append_receipt r db of
        (db', Inl e) \<Rightarrow> (db', Inl e)
      | (db', Inr _) \<Rightarrow> (db', evidence_digest sha r))"

section \<open>Staging and flushing batches\<close>

definition insert_leaf :: "leaf_row \<Rightarrow> ev_db \<Rightarrow> ev_db result" where
  "insert_leaf row db =
     (if \<exists>l \<in> set (db_leaves db). lf_session l = lf_session row \<and> lf_seq l = lf_seq row
      then unique_error else Inr (db\<lparr>db_leaves := db_leaves db @ [row]\<rparr>))"

definition stage_tx ::
  "(bytes \<Rightarrow> bytes) \<Rightarrow> ev_receipt \<Rightarrow> bytes \<Rightarrow> ev_db \<Rightarrow> (ev_db \<times> bytes) result" where
  "stage_tx sha r input_digest db =
     res_bind (assert_reserved db r) (\<lambda>_.
     if rc_before_execution_root r \<noteq> head_root db (rc_session_id r)
     then evidence_error ''Batched leaf forks durable evidence head''
     else let leaf_index = staged_count db (rc_session_id r) in
     res_bind (evidence_nonce_text (rc_nonce r)) (\<lambda>t.
     res_bind (batched_evidence_leaf sha (rc_session_id r @ '':'' @ int_str (rc_mediation_sequence r))
         leaf_index t (rc_first_sequence r) (rc_last_sequence r) (hex input_digest)
         (hex (rc_semantic_root r)) (hex (rc_before_execution_root r)) (hex (rc_observation_digest r))
         (rc_outcome r)) (\<lambda>leaf.
     res_bind (fromhex (bl_digest leaf)) (\<lambda>leaf_digest.
     res_bind (insert_receipt r db) (\<lambda>db1.
     res_bind (insert_leaf \<lparr>lf_session = rc_session_id r, lf_seq = rc_mediation_sequence r,
         lf_index = leaf_index, lf_input = input_digest, lf_digest = leaf_digest, lf_state = ''staged'',
         lf_batch = None\<rparr> db1) (\<lambda>db2.
     Inr (set_resv_state (\<lambda>v. rv_session v = rc_session_id r \<and> rv_seq v = rc_mediation_sequence r)
            ''staged'' db2, leaf_digest)))))))"

definition stage_batched_evidence ::
  "(bytes \<Rightarrow> bytes) \<Rightarrow> ev_receipt \<Rightarrow> bytes \<Rightarrow> ev_db \<Rightarrow> ev_db \<times> bytes result" where
  "stage_batched_evidence sha r input_digest db =
     (case validate_receipt r of
        Inl e \<Rightarrow> (db, Inl e)
      | Inr _ \<Rightarrow>
          if rc_outcome r \<noteq> ''buffered'' \<or> length input_digest \<noteq> 32
          then (db, evidence_error ''invalid Batched evidence leaf'')
          else transact ''durable Batched evidence staging failed'' db (stage_tx sha r input_digest db))"

definition BATCH_ROOT_DOMAIN :: bytes where
  "BATCH_ROOT_DOMAIN = ''poo-flow.batched-execution-root.draft.1|''"

definition batch_execution_root :: "(bytes \<Rightarrow> bytes) \<Rightarrow> bytes \<Rightarrow> bytes \<Rightarrow> bytes" where
  "batch_execution_root sha before_root batch_root =
     sha (BATCH_ROOT_DOMAIN @ framed (hex before_root) @ framed (hex batch_root))"

definition batch_evidence_digest ::
  "(bytes \<Rightarrow> bytes) \<Rightarrow> string \<Rightarrow> int \<Rightarrow> bytes \<Rightarrow> bytes \<Rightarrow> bytes \<Rightarrow> bytes" where
  "batch_evidence_digest sha s batch_id before_root root after_root =
     sha (str_join ''|'' [s, int_str batch_id, before_root, root, after_root])"

definition attestation_of :: "(bytes \<Rightarrow> bytes) \<Rightarrow> bytes \<Rightarrow> bytes" where
  "attestation_of sha kernel_signature = (if kernel_signature \<noteq> [] then sha kernel_signature else ZERO_ROOT)"

text \<open>\<open>_commit_batch\<close>: the four statements of a batch.\<close>

definition commit_batch :: "batch_row \<Rightarrow> ev_db \<Rightarrow> ev_db result" where
  "commit_batch b db =
     (let s = br_session b in
      if \<exists>c \<in> set (db_batches db). br_session c = s \<and> br_id c = br_id b then unique_error
      else
        let db1 = db\<lparr>db_batches := db_batches db @ [b]\<rparr>;
            db2 = db1\<lparr>db_leaves := map (\<lambda>l. if lf_session l = s \<and> lf_state l = ''staged''
                        then l\<lparr>lf_state := ''flushed'', lf_batch := Some (br_id b)\<rparr> else l) (db_leaves db1)\<rparr>;
            db3 = set_resv_state (\<lambda>v. rv_session v = s \<and> rv_state v = ''staged'') ''finalized'' db2
        in Inr (db3\<lparr>db_heads := dict_set s (br_last b, br_after b) (db_heads db3)\<rparr>))"

definition flush_tx ::
  "(bytes \<Rightarrow> bytes) \<Rightarrow> string \<Rightarrow> bytes list \<Rightarrow> bytes \<Rightarrow> int \<Rightarrow> ev_db \<Rightarrow> (ev_db \<times> ev_batch_commit) result" where
  "flush_tx sha s leaf_digests kernel_signature verification_flags db =
     (let rows = staged_rows db s; durable_digests = map snd rows in
      if rows = [] \<or> durable_digests \<noteq> leaf_digests
      then evidence_error ''flush leaf range does not match durable staged leaves''
      else
        let before_root = head_root db s in
        res_bind (batched_merkle_root_digests sha durable_digests) (\<lambda>batch_root.
        let after_root = batch_execution_root sha before_root batch_root;
            first_sequence = fst (hd rows); last_sequence = fst (last rows);
            batch_id = next_batch_id db s;
            evidence = batch_evidence_digest sha s batch_id before_root batch_root after_root;
            attestation = attestation_of sha kernel_signature
        in res_bind (commit_batch \<lparr>br_session = s, br_id = batch_id, br_first = first_sequence,
               br_last = last_sequence, br_count = int (length rows), br_before = before_root,
               br_root = batch_root, br_after = after_root, br_evidence = evidence,
               br_attestation = attestation, br_flags = verification_flags\<rparr> db) (\<lambda>db'.
           Inr (db', \<lparr>bc_session_id = s, bc_first_mediation_sequence = first_sequence,
               bc_last_mediation_sequence = last_sequence, bc_leaf_count = int (length rows),
               bc_before_execution_root = before_root, bc_batch_root = batch_root,
               bc_after_execution_root = after_root, bc_evidence_digest = evidence,
               bc_attestation_digest = attestation, bc_verification_flags = verification_flags\<rparr>))))"

definition flush_batched_evidence ::
  "(bytes \<Rightarrow> bytes) \<Rightarrow> string \<Rightarrow> bytes list \<Rightarrow> bytes \<Rightarrow> int \<Rightarrow> ev_db \<Rightarrow> ev_db \<times> ev_batch_commit result" where
  "flush_batched_evidence sha s leaf_digests kernel_signature verification_flags db =
     transact ''durable Batched evidence flush failed'' db
       (flush_tx sha s leaf_digests kernel_signature verification_flags db)"

section \<open>Reading\<close>

definition receipt_from_row :: "string \<Rightarrow> ev_row \<Rightarrow> ev_receipt result" where
  "receipt_from_row s row =
     res_bind (parse_evidence_nonce (er_nonce row)) (\<lambda>n.
     Inr \<lparr>rc_session_id = s, rc_mediation_sequence = er_seq row, rc_first_sequence = er_first row,
          rc_last_sequence = er_last row, rc_nonce = n, rc_semantic_root = er_semantic row,
          rc_before_execution_root = er_before row, rc_after_execution_root = er_after row,
          rc_outcome = er_outcome row, rc_observation_digest = er_observation row,
          rc_evidence_reference = er_reference row, rc_kernel_signature = er_signature row,
          rc_signature_verified = (er_signature_verified row \<noteq> 0),
          rc_inclusion_proof_verified = (er_inclusion_verified row \<noteq> 0), rc_created_at_ns = er_created row\<rparr>)"

definition ev_history :: "ev_db \<Rightarrow> string \<Rightarrow> ev_receipt list result" where
  "ev_history db s = res_map (receipt_from_row s) (sort_key er_seq (evid_of db s))"

definition ev_head :: "ev_db \<Rightarrow> string \<Rightarrow> ev_receipt option result" where
  "ev_head db s =
     (case sort_key (\<lambda>e. - er_seq e) (evid_of db s) of
        [] \<Rightarrow> Inr None
      | row # _ \<Rightarrow> res_bind (receipt_from_row s row) (\<lambda>r. Inr (Some r)))"

definition reconciliation :: "ev_db \<Rightarrow> string \<Rightarrow> ev_reconciliation option result" where
  "reconciliation db s =
     (let rows = sort_key rv_seq (resv_of db s) in
      if rows = [] then Inr None
      else
        let semantic_root = rv_semantic (hd rows) in
        if \<exists>r \<in> set rows. rv_semantic r \<noteq> semantic_root
        then evidence_error ''durable evidence history changes semantic root''
        else
          let (staged_sequences, staged_digests) = staged_reconciliation db s in
          res_bind (res_map (\<lambda>r. parse_evidence_nonce (rv_nonce r)) rows) (\<lambda>nonces.
          Inr (Some \<lparr>rn_semantic_root = semantic_root, rn_execution_root = head_root db s,
                rn_mediation_sequence = rv_seq (last rows), rn_runtime_sequence = rv_last (last rows),
                rn_consumed_nonces = nonces, rn_staged_mediation_sequences = staged_sequences,
                rn_staged_leaf_digests = staged_digests\<rparr>)))"

end
