(* ===== verification/Evidence_Journal.thy ===== *)
theory Evidence_Journal
  imports Evidence_Store
begin

text \<open>
  The invariant of the evidence journal. A session's reservations are numbered without gaps
  and split into a finalized, a staged and a reserved part; its evidence rows are exactly the
  finalized and staged ones; the execution roots form one chain from the zero root to the
  head. Every transaction keeps the invariant, and a journal is an \<open>evidence_journal\<close> in the
  sense of the locale that its clients build on.
\<close>

section \<open>Chains of execution roots\<close>

text \<open>The root after a row: the root of the batch that the row ends, or the row's own.\<close>

definition root_after :: "batch_row list \<Rightarrow> ev_row \<Rightarrow> bytes" where
  "root_after B e = (case find (\<lambda>b. br_last b = er_seq e) B of None \<Rightarrow> er_after e | Some b \<Rightarrow> br_after b)"

fun chain :: "batch_row list \<Rightarrow> bytes \<Rightarrow> ev_row list \<Rightarrow> bool" where
  "chain B root [] = True"
| "chain B root (e # es) = (er_before e = root \<and> chain B (root_after B e) es)"

fun end_root :: "batch_row list \<Rightarrow> bytes \<Rightarrow> ev_row list \<Rightarrow> bytes" where
  "end_root B root [] = root"
| "end_root B root (e # es) = end_root B (root_after B e) es"

lemma chain_snoc: "chain B root (es @ [e]) \<longleftrightarrow> chain B root es \<and> er_before e = end_root B root es"
  by (induction es arbitrary: root) auto

lemma end_root_snoc: "end_root B root (es @ [e]) = root_after B e"
  by (induction es arbitrary: root) auto

lemma chain_batch_cong:
  assumes "\<forall>e \<in> set es. root_after B' e = root_after B e"
  shows "chain B' root es = chain B root es \<and> end_root B' root es = end_root B root es"
  using assms by (induction es arbitrary: root) auto

lemma root_after_new_batch:
  "er_seq e \<noteq> br_last b \<Longrightarrow> root_after (B @ [b]) e = root_after B e"
  by (simp add: root_after_def find_append split: option.splits)

lemma root_after_no_batch:
  "\<forall>b \<in> set B. br_last b < er_seq e \<Longrightarrow> root_after B e = er_after e"
  using find_None_iff [of "\<lambda>b. br_last b = er_seq e" B] by (auto simp: root_after_def)

lemma root_after_last_batch:
  "\<forall>c \<in> set B. br_last c < br_last b \<Longrightarrow> er_seq e = br_last b \<Longrightarrow> root_after (B @ [b]) e = br_after b"
  using find_None_iff [of "\<lambda>c. br_last c = er_seq e" B] by (auto simp: root_after_def find_append)

section \<open>The invariant of a session\<close>

definition resv_key :: "resv_row \<Rightarrow> int \<times> int \<times> int \<times> string \<times> bytes \<times> bytes" where
  "resv_key r = (rv_seq r, rv_first r, rv_last r, rv_nonce r, rv_semantic r, rv_before r)"

definition row_key :: "ev_row \<Rightarrow> int \<times> int \<times> int \<times> string \<times> bytes \<times> bytes" where
  "row_key e = (er_seq e, er_first e, er_last e, er_nonce e, er_semantic e, er_before e)"

definition in_state :: "string \<Rightarrow> resv_row list \<Rightarrow> bool" where
  "in_state st rs \<longleftrightarrow> (\<forall>r \<in> set rs. rv_state r = st)"

definition numbered :: "resv_row list \<Rightarrow> bool" where
  "numbered R \<longleftrightarrow> map rv_seq R = [1..int (length R)]"

definition head_seq :: "(int \<times> bytes) option \<Rightarrow> int" where
  "head_seq h = (case h of None \<Rightarrow> 0 | Some x \<Rightarrow> fst x)"

definition root_of :: "(int \<times> bytes) option \<Rightarrow> bytes" where
  "root_of h = (case h of None \<Rightarrow> ZERO_ROOT | Some x \<Rightarrow> snd x)"

definition nonce_text_ok :: "string \<Rightarrow> bool" where
  "nonce_text_ok t \<longleftrightarrow> (\<exists>n. evidence_nonce_text n = Inr t)"

definition session_ok ::
  "resv_row list \<Rightarrow> resv_row list \<Rightarrow> resv_row list \<Rightarrow> ev_row list \<Rightarrow> leaf_row list
   \<Rightarrow> (int \<times> bytes) option \<Rightarrow> batch_row list \<Rightarrow> bool" where
  "session_ok F T U E S h B \<longleftrightarrow>
     numbered (F @ T @ U) \<and> distinct (map rv_nonce (F @ T @ U)) \<and>
     (\<forall>r \<in> set (F @ T @ U). nonce_text_ok (rv_nonce r)) \<and>
     in_state ''finalized'' F \<and> in_state ''staged'' T \<and> in_state ''reserved'' U \<and> length U \<le> 1 \<and>
     map row_key E = map resv_key (F @ T) \<and>
     map lf_seq S = map rv_seq T \<and> map lf_index S = map int [0..<length S] \<and>
     head_seq h = int (length F) \<and> (\<forall>b \<in> set B. br_last b \<le> int (length F)) \<and>
     chain B ZERO_ROOT E \<and> end_root B ZERO_ROOT E = root_of h"

definition ev_inv :: "ev_db \<Rightarrow> bool" where
  "ev_inv db \<longleftrightarrow> (\<forall>s. \<exists>F T U. resv_of db s = F @ T @ U \<and>
     session_ok F T U (evid_of db s) (staged_of db s) (load_head db s) (batches_of db s))"

lemma head_root_root_of: "head_root db s = root_of (load_head db s)"
  by (simp add: head_root_def root_of_def)

lemma upto_snoc: "[1..int (Suc n)] = [1..int n] @ [int n + 1]"
  using upto_rec2 [of 1 "int n + 1"] by (simp add: add.commute)

lemma numbered_snoc [simp]: "numbered (R @ [r]) \<longleftrightarrow> numbered R \<and> rv_seq r = int (length R) + 1"
  by (simp add: numbered_def upto_snoc add.commute del: of_nat_Suc)

lemma numbered_seq_inj:
  "numbered R \<Longrightarrow> r \<in> set R \<Longrightarrow> q \<in> set R \<Longrightarrow> rv_seq r = rv_seq q \<Longrightarrow> r = q"
proof -
  assume a: "numbered R" "r \<in> set R" "q \<in> set R" "rv_seq r = rv_seq q"
  then have "distinct (map rv_seq R)" by (simp add: numbered_def)
  with a show ?thesis by (auto simp: distinct_map dest: inj_onD)
qed

lemma numbered_bounds: "numbered R \<Longrightarrow> r \<in> set R \<Longrightarrow> 1 \<le> rv_seq r \<and> rv_seq r \<le> int (length R)"
proof -
  assume a: "numbered R" "r \<in> set R"
  then have "rv_seq r \<in> set (map rv_seq R)" by simp
  then have "rv_seq r \<in> {1..int (length R)}" using a(1) unfolding numbered_def by simp
  then show ?thesis by simp
qed

lemma max_int_upto: "max_int [i..j] = (if i \<le> j then Some j else None)"
proof (induction i j rule: upto.induct)
  case (1 i j)
  then show ?case by (subst upto.simps) (auto simp: max_def)
qed

lemma next_sequence_numbered: "numbered (resv_of db s) \<Longrightarrow> next_reservation_sequence db s = int (length (resv_of db s)) + 1"
  by (cases "resv_of db s = []") (auto simp: next_reservation_sequence_def numbered_def max_int_upto Suc_le_eq)

section \<open>The tables after each statement\<close>

named_theorems view_simps

lemma views_empty [view_simps]:
  "resv_of empty_db s = []" "evid_of empty_db s = []" "staged_of empty_db s = []"
  "load_head empty_db s = None" "batches_of empty_db s = []"
  by (simp_all add: empty_db_def resv_of_def evid_of_def staged_of_def load_head_def batches_of_def)

lemma views_insert_reservation [view_simps]:
  "resv_of (db\<lparr>db_reservations := db_reservations db @ [row]\<rparr>) s =
     resv_of db s @ (if rv_session row = s then [row] else [])"
  "evid_of (db\<lparr>db_reservations := R\<rparr>) s = evid_of db s" "staged_of (db\<lparr>db_reservations := R\<rparr>) s = staged_of db s"
  "load_head (db\<lparr>db_reservations := R\<rparr>) s = load_head db s" "batches_of (db\<lparr>db_reservations := R\<rparr>) s = batches_of db s"
  by (simp_all add: resv_of_def evid_of_def staged_of_def load_head_def batches_of_def)

lemma views_insert_receipt [view_simps]:
  "evid_of (db\<lparr>db_evidence := db_evidence db @ [row]\<rparr>) s = evid_of db s @ (if er_session row = s then [row] else [])"
  "resv_of (db\<lparr>db_evidence := E\<rparr>) s = resv_of db s" "staged_of (db\<lparr>db_evidence := E\<rparr>) s = staged_of db s"
  "load_head (db\<lparr>db_evidence := E\<rparr>) s = load_head db s" "batches_of (db\<lparr>db_evidence := E\<rparr>) s = batches_of db s"
  by (simp_all add: resv_of_def evid_of_def staged_of_def load_head_def batches_of_def)

lemma views_heads [view_simps]:
  "load_head (db\<lparr>db_heads := dict_set t h (db_heads db)\<rparr>) s = (if s = t then Some h else load_head db s)"
  "evid_of (db\<lparr>db_heads := H\<rparr>) s = evid_of db s" "staged_of (db\<lparr>db_heads := H\<rparr>) s = staged_of db s"
  "resv_of (db\<lparr>db_heads := H\<rparr>) s = resv_of db s" "batches_of (db\<lparr>db_heads := H\<rparr>) s = batches_of db s"
  by (simp_all add: resv_of_def evid_of_def staged_of_def load_head_def batches_of_def)

lemma views_leaves [view_simps]:
  "staged_of (db\<lparr>db_leaves := db_leaves db @ [row]\<rparr>) s =
     staged_of db s @ (if lf_session row = s \<and> lf_state row = ''staged'' then [row] else [])"
  "evid_of (db\<lparr>db_leaves := L\<rparr>) s = evid_of db s" "load_head (db\<lparr>db_leaves := L\<rparr>) s = load_head db s"
  "resv_of (db\<lparr>db_leaves := L\<rparr>) s = resv_of db s" "batches_of (db\<lparr>db_leaves := L\<rparr>) s = batches_of db s"
  by (simp_all add: resv_of_def evid_of_def staged_of_def load_head_def batches_of_def)

lemma views_batches [view_simps]:
  "batches_of (db\<lparr>db_batches := db_batches db @ [b]\<rparr>) s = batches_of db s @ (if br_session b = s then [b] else [])"
  "evid_of (db\<lparr>db_batches := C\<rparr>) s = evid_of db s" "load_head (db\<lparr>db_batches := C\<rparr>) s = load_head db s"
  "resv_of (db\<lparr>db_batches := C\<rparr>) s = resv_of db s" "staged_of (db\<lparr>db_batches := C\<rparr>) s = staged_of db s"
  by (simp_all add: resv_of_def evid_of_def staged_of_def load_head_def batches_of_def)

lemma resv_of_set_state:
  "resv_of (set_resv_state P st db) s = map (\<lambda>r. if P r then r\<lparr>rv_state := st\<rparr> else r) (resv_of db s)"
proof -
  have "filter (\<lambda>r. rv_session r = s) (map (\<lambda>r. if P r then r\<lparr>rv_state := st\<rparr> else r) R) =
    map (\<lambda>r. if P r then r\<lparr>rv_state := st\<rparr> else r) (filter (\<lambda>r. rv_session r = s) R)" for R :: "resv_row list"
    by (induction R) auto
  then show ?thesis by (simp add: resv_of_def set_resv_state_def)
qed

lemma views_set_state [view_simps]:
  "evid_of (set_resv_state P st db) s = evid_of db s" "staged_of (set_resv_state P st db) s = staged_of db s"
  "load_head (set_resv_state P st db) s = load_head db s" "batches_of (set_resv_state P st db) s = batches_of db s"
  by (simp_all add: set_resv_state_def view_simps)

lemma resv_of_session: "r \<in> set (resv_of db s) \<Longrightarrow> rv_session r = s"
  by (simp add: resv_of_def)

lemma resv_of_set_state_other [view_simps]:
  "s \<noteq> t \<Longrightarrow> resv_of (set_resv_state (\<lambda>r. rv_session r = t \<and> Q r) st db) s = resv_of db s"
  unfolding resv_of_set_state by (rule map_idI) (auto dest: resv_of_session)

lemma receipt_row_simps [simp]:
  "er_session (receipt_row r t) = rc_session_id r" "er_seq (receipt_row r t) = rc_mediation_sequence r"
  "er_before (receipt_row r t) = rc_before_execution_root r" "er_after (receipt_row r t) = rc_after_execution_root r"
  by (simp_all add: receipt_row_def)

section \<open>Transactions keep the invariant\<close>

lemma transact_cases:
  "transact msg db r = (db', res) \<Longrightarrow> (db' = db \<and> (\<exists>m. res = evidence_error m)) \<or> (\<exists>x. r = Inr (db', x) \<and> res = Inr x)"
  by (auto simp: transact_def split: sum.splits pyerr.splits)

lemma find_in: "find P xs = Some x \<Longrightarrow> x \<in> set xs \<and> P x"
  by (induction xs) (auto split: if_splits)

text \<open>Only the session that a transaction touches has to be looked at.\<close>

lemma ev_inv_session:
  assumes "ev_inv db" and "resv_of db' s = F @ T @ U"
    and "session_ok F T U (evid_of db' s) (staged_of db' s) (load_head db' s) (batches_of db' s)"
    and "\<And>t. t \<noteq> s \<Longrightarrow> resv_of db' t = resv_of db t \<and> evid_of db' t = evid_of db t \<and>
           staged_of db' t = staged_of db t \<and> load_head db' t = load_head db t \<and> batches_of db' t = batches_of db t"
  shows "ev_inv db'"
  unfolding ev_inv_def
proof
  fix t
  show "\<exists>F T U. resv_of db' t = F @ T @ U \<and>
     session_ok F T U (evid_of db' t) (staged_of db' t) (load_head db' t) (batches_of db' t)"
    using assms by (cases "t = s") (auto simp: ev_inv_def)
qed

lemma session_okE:
  assumes "ev_inv db"
  obtains F T U where "resv_of db s = F @ T @ U"
    "session_ok F T U (evid_of db s) (staged_of db s) (load_head db s) (batches_of db s)"
  using assms unfolding ev_inv_def by blast

lemma numbered_prefix: "numbered (xs @ ys) \<Longrightarrow> numbered xs"
  by (induction ys rule: rev_induct) (simp_all flip: append_assoc)

text \<open>A reservation in state \<open>reserved\<close> is the last one of its session.\<close>

lemma reserved_is_last:
  assumes "session_ok F T U E S h B" and "r \<in> set (F @ T @ U)" and "rv_state r = ''reserved''"
  shows "U = [r]"
proof -
  from assms have "r \<in> set U" by (auto simp: session_ok_def in_state_def)
  with assms(1) show ?thesis by (cases U) (auto simp: session_ok_def)
qed

lemma session_reserve:
  assumes "session_ok F T [] E S h B" and "rv_seq row = int (length (F @ T)) + 1"
    and "rv_nonce row \<notin> set (map rv_nonce (F @ T))" and "nonce_text_ok (rv_nonce row)"
    and "rv_state row = ''reserved''"
  shows "session_ok F T [row] E S h B"
  using assms numbered_snoc [of "F @ T" row] by (auto simp: session_ok_def in_state_def)

lemma session_append:
  assumes "session_ok F [] [r] E S h B" and "row_key e = resv_key r" and "er_before e = root_of h"
    and "r' = r\<lparr>rv_state := ''finalized''\<rparr>"
  shows "session_ok (F @ [r']) [] [] (E @ [e]) S (Some (er_seq e, er_after e)) B"
proof -
  have n: "er_seq e = int (length F) + 1"
    using assms(1,2) by (simp add: session_ok_def row_key_def resv_key_def)
  have "root_after B e = er_after e"
    by (rule root_after_no_batch) (use assms(1) n in \<open>auto simp: session_ok_def\<close>)
  moreover have "resv_key r' = resv_key r" by (simp add: assms(4) resv_key_def)
  ultimately show ?thesis
    using assms n by (auto simp: session_ok_def in_state_def chain_snoc end_root_snoc head_seq_def root_of_def)
qed

lemma session_stage:
  assumes "session_ok F T [r] E S h B" and "row_key e = resv_key r" and "er_before e = root_of h"
    and "er_after e = er_before e" and "lf_seq l = rv_seq r" and "lf_index l = int (length S)"
    and "r' = r\<lparr>rv_state := ''staged''\<rparr>"
  shows "session_ok F (T @ [r']) [] (E @ [e]) (S @ [l]) h B"
proof -
  have n: "er_seq e = int (length (F @ T)) + 1"
    using assms(1,2) numbered_snoc [of "F @ T" r] by (simp add: session_ok_def row_key_def resv_key_def)
  have "root_after B e = er_after e"
    by (rule root_after_no_batch) (use assms(1) n in \<open>force simp: session_ok_def\<close>)
  moreover have "resv_key r' = resv_key r" by (simp add: assms(7) resv_key_def)
  moreover have "numbered (F @ T @ [r'])"
    using assms(1,7) numbered_snoc [of "F @ T"] by (simp add: session_ok_def)
  ultimately show ?thesis
    using assms n by (auto simp: session_ok_def in_state_def chain_snoc end_root_snoc)
qed

lemma session_flush:
  assumes "session_ok F T U E S h B" and "S \<noteq> []" and "br_last b = lf_seq (last S)"
  shows "session_ok (F @ map (\<lambda>r. r\<lparr>rv_state := ''finalized''\<rparr>) T) [] U E [] (Some (br_last b, br_after b)) (B @ [b])"
proof -
  let ?T = "map (\<lambda>r. r\<lparr>rv_state := ''finalized''\<rparr>) T"
  have TS: "map lf_seq S = map rv_seq T" and nFT: "numbered (F @ T)" and keys: "map row_key E = map resv_key (F @ T)"
    using assms(1) numbered_prefix [of "F @ T" U] by (simp_all add: session_ok_def)
  from TS assms(2) have T: "T \<noteq> []" by auto
  then obtain T0 t where t: "T = T0 @ [t]" by (metis append_butlast_last_id)
  from TS T assms(2,3) have bl: "br_last b = rv_seq t" by (metis last_map last_snoc t)
  have bn: "br_last b = int (length (F @ T))"
    using nFT bl t numbered_snoc [of "F @ T0" t] by simp
  have "map er_seq E = map rv_seq (F @ T)"
    using arg_cong [OF keys, of "map fst"] by (simp add: row_key_def resv_key_def comp_def)
  then have es: "map er_seq E = [1..int (length (F @ T))]" using nFT by (simp add: numbered_def)
  from keys T have "E \<noteq> []" by auto
  then obtain E0 e where e: "E = E0 @ [e]" by (metis append_butlast_last_id)
  have "length (F @ T) = Suc (length (F @ T0))" by (simp add: t)
  then have e0: "map er_seq E0 = [1..int (length (F @ T0))]" and en: "er_seq e = br_last b"
    using es e bn upto_snoc [of "length (F @ T0)"] by simp_all
  have "\<forall>x \<in> set E0. er_seq x \<noteq> br_last b"
  proof
    fix x assume "x \<in> set E0"
    then have "er_seq x \<in> set (map er_seq E0)" by simp
    then have "er_seq x \<le> int (length (F @ T0))" unfolding e0 by simp
    then show "er_seq x \<noteq> br_last b" using bn t by simp
  qed
  then have c: "chain (B @ [b]) ZERO_ROOT E0 = chain B ZERO_ROOT E0 \<and>
      end_root (B @ [b]) ZERO_ROOT E0 = end_root B ZERO_ROOT E0"
    by (intro chain_batch_cong) (simp add: root_after_new_batch)
  have "\<forall>x \<in> set B. br_last x \<le> int (length F)" using assms(1) by (simp add: session_ok_def)
  then have "\<forall>x \<in> set B. br_last x < br_last b" using bn t by auto
  then have "root_after (B @ [b]) e = br_after b" using en by (rule root_after_last_batch)
  moreover have "map resv_key ?T = map resv_key T" "map rv_seq ?T = map rv_seq T" "map rv_nonce ?T = map rv_nonce T"
    by (simp_all add: resv_key_def comp_def)
  moreover have "numbered (F @ ?T @ U) = numbered (F @ T @ U)" by (simp add: numbered_def comp_def)
  ultimately show ?thesis
    using assms(1) bn e c
    by (auto simp: session_ok_def in_state_def chain_snoc end_root_snoc head_seq_def root_of_def comp_def)
qed

lemma reserve_tx_inv:
  assumes "ev_inv db" and "reserve_tx v db = Inr (db', x)"
  shows "ev_inv db'"
proof (cases "reservation db (rs_session_id v) (rs_mediation_sequence v)")
  case (Some q)
  with assms show ?thesis by (auto simp: reserve_tx_def Let_def res_bind_Inr_iff split: if_splits)
next
  case None
  let ?s = "rs_session_id v"
  obtain F T U where R: "resv_of db ?s = F @ T @ U"
    and ok: "session_ok F T U (evid_of db ?s) (staged_of db ?s) (load_head db ?s) (batches_of db ?s)"
    using session_okE [OF assms(1)] .
  from None assms(2) obtain t row where t: "evidence_nonce_text (rs_nonce v) = Inr t"
    and nr: "\<forall>r \<in> set (resv_of db ?s). rv_state r \<noteq> ''reserved''"
    and seq: "rs_mediation_sequence v = next_reservation_sequence db ?s"
    and ins: "insert_reservation row db = Inr db'"
    and row: "rv_session row = ?s" "rv_seq row = rs_mediation_sequence v" "rv_nonce row = t" "rv_state row = ''reserved''"
    by (auto simp: reserve_tx_def Let_def res_bind_Inr_iff split: if_splits)
  have nt: "nonce_text_ok (rv_nonce row)" unfolding nonce_text_ok_def using t row(3) by blast
  have U: "U = []" using nr R ok by (cases U) (auto simp: session_ok_def in_state_def)
  have n: "rv_seq row = int (length (F @ T)) + 1"
    using seq row(2) R U ok next_sequence_numbered [of db ?s] by (simp add: session_ok_def)
  from ins have db': "db' = db\<lparr>db_reservations := db_reservations db @ [row]\<rparr>"
    and fresh: "rv_nonce row \<notin> set (map rv_nonce (resv_of db ?s))"
    using row(1) by (auto simp: insert_reservation_def unique_error_def resv_of_def split: if_splits)
  have "session_ok F T [row] (evid_of db ?s) (staged_of db ?s) (load_head db ?s) (batches_of db ?s)"
    by (rule session_reserve) (use ok U n fresh R row nt in auto)
  then show ?thesis
    by (intro ev_inv_session [OF assms(1), of db' ?s F T "[row]"]) (simp_all add: db' view_simps row R U)
qed

lemma reserve_inv: "ev_inv db \<Longrightarrow> ev_inv (fst (reserve v db))"
  using transact_cases [of "''durable evidence reservation failed''" db "reserve_tx v db"]
  by (auto simp: reserve_def split: sum.splits dest: reserve_tx_inv)
     (metis prod.exhaust_sel reserve_tx_inv)

text \<open>What a receipt that passes \<open>_assert_reserved\<close> has in the journal.\<close>

lemma assert_reserved_last:
  assumes "ev_inv db" and "assert_reserved db r = Inr u"
  obtains F T v t where "resv_of db (rc_session_id r) = F @ T @ [v]"
    "session_ok F T [v] (evid_of db (rc_session_id r)) (staged_of db (rc_session_id r))
       (load_head db (rc_session_id r)) (batches_of db (rc_session_id r))"
    "evidence_nonce_text (rc_nonce r) = Inr t" "rv_seq v = rc_mediation_sequence r"
    "row_key (receipt_row r t) = resv_key v"
proof -
  let ?s = "rc_session_id r"
  obtain F T U where R: "resv_of db ?s = F @ T @ U"
    and ok: "session_ok F T U (evid_of db ?s) (staged_of db ?s) (load_head db ?s) (batches_of db ?s)"
    using session_okE [OF assms(1)] .
  from assms(2) obtain v where v: "reservation db ?s (rc_mediation_sequence r) = Some v" "rv_state v = ''reserved''"
    and m: "reservation_matches (reservation_of_receipt r) v = Inr True"
    by (auto simp: assert_reserved_def Let_def res_bind_Inr_iff split: option.splits if_splits)
  have "v \<in> set (F @ T @ U)" "rv_seq v = rc_mediation_sequence r"
    using find_in [OF v(1) [unfolded reservation_def]] R by simp_all
  moreover from this v(2) ok have "U = [v]" using reserved_is_last by blast
  moreover from m obtain t where "evidence_nonce_text (rc_nonce r) = Inr t" "t = rv_nonce v"
    "rc_first_sequence r = rv_first v" "rc_last_sequence r = rv_last v" "rc_semantic_root r = rv_semantic v"
    "rc_before_execution_root r = rv_before v"
    by (auto simp: reservation_matches_def reservation_of_receipt_def res_bind_Inr_iff split: if_splits)
  ultimately show ?thesis using that [of F T v t] R ok by (simp add: row_key_def resv_key_def receipt_row_def)
qed

text \<open>Setting the state of the last reservation of a session.\<close>

lemma set_state_last:
  assumes "resv_of db s = R @ [v]" and "numbered (R @ [v])"
  shows "resv_of (set_resv_state (\<lambda>x. rv_session x = s \<and> rv_seq x = rv_seq v) st db) s = R @ [v\<lparr>rv_state := st\<rparr>]"
proof -
  have "rv_session v = s" by (rule resv_of_session [of v db]) (simp add: assms(1))
  moreover have "rv_seq x \<noteq> rv_seq v" if "x \<in> set R" for x
    using assms(2) that numbered_bounds [of R x] by auto
  ultimately show ?thesis unfolding resv_of_set_state assms(1) by (auto intro: map_idI)
qed

lemma append_tx_inv:
  assumes "ev_inv db" and "append_tx r db = Inr (db', x)"
  shows "ev_inv db'"
proof -
  let ?s = "rc_session_id r"
  from assms(2) obtain db1 where a: "assert_reserved db r = Inr ()" and e: "assert_extends r (load_head db ?s) = Inr ()"
    and i: "insert_receipt r db = Inr db1"
    and db': "db' = advance_head r (set_resv_state (\<lambda>v. rv_session v = ?s \<and> rv_seq v = rc_mediation_sequence r) ''finalized'' db1)"
    by (auto simp: append_tx_def res_bind_Inr_iff Let_def)
  obtain F T v t where R: "resv_of db ?s = F @ T @ [v]"
    and ok: "session_ok F T [v] (evid_of db ?s) (staged_of db ?s) (load_head db ?s) (batches_of db ?s)"
    and t: "evidence_nonce_text (rc_nonce r) = Inr t" and q: "rv_seq v = rc_mediation_sequence r"
    and k: "row_key (receipt_row r t) = resv_key v"
    using assert_reserved_last [OF assms(1) a] .
  have db1: "db1 = db\<lparr>db_evidence := db_evidence db @ [receipt_row r t]\<rparr>"
    using i t by (auto simp: insert_receipt_def unique_error_def split: if_splits)
  have n: "numbered (F @ T @ [v])" using ok by (simp add: session_ok_def)
  from e have h: "rc_mediation_sequence r = head_seq (load_head db ?s) + 1" "rc_before_execution_root r = root_of (load_head db ?s)"
    by (auto simp: assert_extends_def head_seq_def root_of_def Let_def split: if_splits option.splits)
  have T: "T = []" using h(1) q n ok numbered_snoc [of "F @ T" v] by (simp add: session_ok_def)
  have "resv_of db' ?s = (F @ [v\<lparr>rv_state := ''finalized''\<rparr>]) @ [] @ []"
    using set_state_last [of db1 ?s "F @ T" v "''finalized''"] n R T q by (simp add: db' advance_head_def view_simps db1)
  moreover have "session_ok (F @ [v\<lparr>rv_state := ''finalized''\<rparr>]) [] [] (evid_of db ?s @ [receipt_row r t])
      (staged_of db ?s) (Some (er_seq (receipt_row r t), er_after (receipt_row r t))) (batches_of db ?s)"
    by (rule session_append) (use ok T k h(2) in simp_all)
  ultimately show ?thesis
    by (intro ev_inv_session [OF assms(1), of db' ?s])
       (simp_all add: db' advance_head_def db1 view_simps)
qed

lemma append_inv: "ev_inv db \<Longrightarrow> ev_inv (fst (append_receipt r db))"
  using transact_cases [of "''durable evidence append failed''" db "append_tx r db"]
  by (auto simp: append_receipt_def split: sum.splits)
     (metis prod.exhaust_sel append_tx_inv)

lemma append_and_digest_fst: "fst (append_and_digest sha r db) = fst (append_receipt r db)"
  by (auto simp: append_and_digest_def split: prod.splits sum.splits)

lemma stage_tx_inv:
  assumes "ev_inv db" and "stage_tx sha r d db = Inr (db', x)" and "rc_after_execution_root r = rc_before_execution_root r"
  shows "ev_inv db'"
proof -
  let ?s = "rc_session_id r"
  let ?l = "\<lambda>dg. \<lparr>lf_session = ?s, lf_seq = rc_mediation_sequence r, lf_index = staged_count db ?s,
      lf_input = d, lf_digest = dg, lf_state = ''staged'', lf_batch = None\<rparr>"
  from assms(2) obtain db1 dg where a: "assert_reserved db r = Inr ()"
    and h: "rc_before_execution_root r = head_root db ?s" and i: "insert_receipt r db = Inr db1"
    and db': "db' = set_resv_state (\<lambda>v. rv_session v = ?s \<and> rv_seq v = rc_mediation_sequence r) ''staged''
                (db1\<lparr>db_leaves := db_leaves db1 @ [?l dg]\<rparr>)"
    by (auto simp: stage_tx_def res_bind_Inr_iff Let_def insert_leaf_def unique_error_def split: if_splits)
  obtain F T v t where R: "resv_of db ?s = F @ T @ [v]"
    and ok: "session_ok F T [v] (evid_of db ?s) (staged_of db ?s) (load_head db ?s) (batches_of db ?s)"
    and t: "evidence_nonce_text (rc_nonce r) = Inr t" and q: "rv_seq v = rc_mediation_sequence r"
    and k: "row_key (receipt_row r t) = resv_key v"
    using assert_reserved_last [OF assms(1) a] .
  have db1: "db1 = db\<lparr>db_evidence := db_evidence db @ [receipt_row r t]\<rparr>"
    using i t by (auto simp: insert_receipt_def unique_error_def split: if_splits)
  have v1: "resv_of db1 u = resv_of db u" "evid_of db1 u = evid_of db u @ (if ?s = u then [receipt_row r t] else [])"
    "staged_of db1 u = staged_of db u" "load_head db1 u = load_head db u" "batches_of db1 u = batches_of db u" for u
    by (simp_all add: db1 view_simps)
  have n: "numbered (F @ T @ [v])" using ok by (simp add: session_ok_def)
  have "resv_of db' ?s = F @ (T @ [v\<lparr>rv_state := ''staged''\<rparr>]) @ []"
    using set_state_last [of "db1\<lparr>db_leaves := db_leaves db1 @ [?l dg]\<rparr>" ?s "F @ T" v "''staged''"] n R q
    by (simp add: db' view_simps v1)
  moreover have "session_ok F (T @ [v\<lparr>rv_state := ''staged''\<rparr>]) [] (evid_of db ?s @ [receipt_row r t])
      (staged_of db ?s @ [?l dg]) (load_head db ?s) (batches_of db ?s)"
    by (rule session_stage [OF ok k]) (use h q assms(3) in \<open>simp_all add: head_root_root_of staged_count_def\<close>)
  ultimately show ?thesis
    by (intro ev_inv_session [OF assms(1), of db' ?s F "T @ [v\<lparr>rv_state := ''staged''\<rparr>]" "[]"])
       (simp_all add: db' view_simps v1)
qed

lemma stage_inv: "ev_inv db \<Longrightarrow> ev_inv (fst (stage_batched_evidence sha r d db))"
proof (cases "validate_receipt r = Inr () \<and> rc_outcome r = ''buffered'' \<and> length d = 32")
  case True
  assume inv: "ev_inv db"
  obtain db' res where t: "transact ''durable Batched evidence staging failed'' db (stage_tx sha r d db) = (db', res)" by force
  have "rc_after_execution_root r = rc_before_execution_root r"
    using True by (auto simp: validate_receipt_ok)
  with transact_cases [OF t] inv stage_tx_inv have "ev_inv db'" by blast
  with t True show ?thesis by (simp add: stage_batched_evidence_def)
qed (auto simp: stage_batched_evidence_def split: sum.splits)

lemma staged_rows_inv:
  assumes "session_ok F T U E (staged_of db s) h B"
  shows "staged_rows db s = map (\<lambda>l. (lf_seq l, lf_digest l)) (staged_of db s)"
proof -
  have "sorted (map lf_index (staged_of db s))" using assms by (simp add: session_ok_def sorted_wrt_iff_nth_less)
  then show ?thesis by (simp add: staged_rows_def sort_key_id_if_sorted)
qed

lemma set_state_staged:
  assumes "resv_of db s = F @ T @ U" and "in_state ''finalized'' F" and "in_state ''staged'' T" and "in_state ''reserved'' U"
  shows "resv_of (set_resv_state (\<lambda>v. rv_session v = s \<and> rv_state v = ''staged'') ''finalized'' db) s =
     F @ map (\<lambda>r. r\<lparr>rv_state := ''finalized''\<rparr>) T @ U"
proof -
  have "rv_session r = s" if "r \<in> set T" for r by (rule resv_of_session [of r db]) (use assms(1) that in simp)
  with assms(2-4) show ?thesis unfolding resv_of_set_state assms(1) by (auto simp: in_state_def intro!: map_idI)
qed

lemma filter_flushed:
  "filter (\<lambda>l. lf_session l = t \<and> lf_state l = ''staged'') (map (\<lambda>l. if lf_session l = s \<and> lf_state l = ''staged''
      then l\<lparr>lf_state := ''flushed'', lf_batch := b\<rparr> else l) L) =
   (if t = s then [] else filter (\<lambda>l. lf_session l = t \<and> lf_state l = ''staged'') L)"
  by (induction L) auto

lemma views_commit:
  assumes "commit_batch b db = Inr db'"
  shows "staged_of db' t = (if t = br_session b then [] else staged_of db t)"
    and "resv_of db' t = resv_of (set_resv_state (\<lambda>v. rv_session v = br_session b \<and> rv_state v = ''staged'') ''finalized'' db) t"
    and "load_head db' t = (if t = br_session b then Some (br_last b, br_after b) else load_head db t)"
    and "batches_of db' t = batches_of db t @ (if br_session b = t then [b] else [])"
    and "evid_of db' t = evid_of db t"
  using assms by (auto simp: commit_batch_def unique_error_def Let_def set_resv_state_def staged_of_def resv_of_def
      load_head_def batches_of_def evid_of_def filter_flushed split: if_splits)

lemma flush_tx_cases:
  assumes "flush_tx sha s ds sg fl db = Inr (db', c)"
  obtains root b where "staged_rows db s \<noteq> []" "map snd (staged_rows db s) = ds"
    "batched_merkle_root_digests sha ds = Inr root" "commit_batch b db = Inr db'"
    "br_session b = s" "br_last b = fst (last (staged_rows db s))" "br_id b = next_batch_id db s"
    "br_before b = head_root db s" "br_root b = root"
    "br_after b = batch_execution_root sha (head_root db s) root" "br_count b = int (length ds)"
    "bc_batch_root c = root" "bc_after_execution_root c = br_after b" "bc_before_execution_root c = head_root db s"
    "bc_leaf_count c = int (length ds)"
  using assms by (auto simp: flush_tx_def Let_def res_bind_Inr_iff split: if_splits)

lemma flush_tx_inv:
  assumes "ev_inv db" and "flush_tx sha s ds sg fl db = Inr (db', c)"
  shows "ev_inv db'"
proof -
  obtain F T U where R: "resv_of db s = F @ T @ U"
    and ok: "session_ok F T U (evid_of db s) (staged_of db s) (load_head db s) (batches_of db s)"
    using session_okE [OF assms(1)] .
  obtain b where S: "staged_of db s \<noteq> []" and b: "commit_batch b db = Inr db'" "br_session b = s"
      "br_last b = lf_seq (last (staged_of db s))"
    by (rule flush_tx_cases [OF assms(2)]) (auto simp: staged_rows_inv [OF ok] last_map)
  have "session_ok (F @ map (\<lambda>r. r\<lparr>rv_state := ''finalized''\<rparr>) T) [] U (evid_of db s) []
      (Some (br_last b, br_after b)) (batches_of db s @ [b])"
    by (rule session_flush [OF ok S b(3)])
  moreover have "in_state ''finalized'' F" "in_state ''staged'' T" "in_state ''reserved'' U"
    using ok by (simp_all add: session_ok_def)
  ultimately show ?thesis
    using b(1,2) R
    by (intro ev_inv_session [OF assms(1), of db' s "F @ map (\<lambda>r. r\<lparr>rv_state := ''finalized''\<rparr>) T" "[]" U])
       (simp_all add: views_commit view_simps set_state_staged)
qed

lemma flush_inv: "ev_inv db \<Longrightarrow> ev_inv (fst (flush_batched_evidence sha s ds sg fl db))"
  using transact_cases [of "''durable Batched evidence flush failed''" db "flush_tx sha s ds sg fl db"]
  by (auto simp: flush_batched_evidence_def) (metis prod.exhaust_sel flush_tx_inv)

lemma empty_inv: "ev_inv empty_db"
  by (simp add: ev_inv_def view_simps session_ok_def numbered_def in_state_def head_seq_def root_of_def)

section \<open>The interface of a journal\<close>

text \<open>
  What a client of a journal relies on: the four operations keep the invariant, and one that
  raises leaves the journal as it was.
\<close>

locale evidence_journal =
  fixes res :: "ev_reservation \<Rightarrow> 'db \<Rightarrow> 'db \<times> unit result"
    and app :: "ev_receipt \<Rightarrow> 'db \<Rightarrow> 'db \<times> bytes result"
    and stg :: "ev_receipt \<Rightarrow> bytes \<Rightarrow> 'db \<Rightarrow> 'db \<times> bytes result"
    and flu :: "string \<Rightarrow> bytes list \<Rightarrow> bytes \<Rightarrow> int \<Rightarrow> 'db \<Rightarrow> 'db \<times> ev_batch_commit result"
    and inv :: "'db \<Rightarrow> bool"
  assumes res_inv: "inv db \<Longrightarrow> inv (fst (res v db))"
    and app_inv: "inv db \<Longrightarrow> inv (fst (app r db))"
    and stg_inv: "inv db \<Longrightarrow> inv (fst (stg r d db))"
    and flu_inv: "inv db \<Longrightarrow> inv (fst (flu s ds sg fl db))"
    and res_rollback: "res v db = (db', Inl e) \<Longrightarrow> db' = db"
    and app_rollback: "app r db = (db', Inl e) \<Longrightarrow> db' = db"
    and stg_rollback: "stg r d db = (db', Inl e) \<Longrightarrow> db' = db"
    and flu_rollback: "flu s ds sg fl db = (db', Inl e) \<Longrightarrow> db' = db"

lemma transact_rollback: "transact msg db r = (db', Inl e) \<Longrightarrow> db' = db"
  by (auto dest: transact_cases)

lemma assert_reserved_nonce:
  "assert_reserved db r = Inr u \<Longrightarrow> \<exists>t. evidence_nonce_text (rc_nonce r) = Inr t"
  by (auto simp: assert_reserved_def reservation_matches_def reservation_of_receipt_def Let_def res_bind_Inr_iff
      split: option.splits if_splits)

lemma append_receipt_ok:
  assumes "append_receipt r db = (db', Inr u)"
  shows "validate_receipt r = Inr ()" and "append_tx r db = Inr (db', ())"
  using assms transact_cases [of "''durable evidence append failed''" db "append_tx r db" db' "Inr ()"]
  by (auto simp: append_receipt_def split: sum.splits)

lemma append_digest_ok:
  assumes "append_receipt r db = (db', Inr u)"
  shows "\<exists>t. evidence_digest sha r = Inr (sha (evidence_packet r t))"
  using append_receipt_ok(2) [OF assms] assert_reserved_nonce [of db r]
  by (auto simp: append_tx_def res_bind_Inr_iff evidence_digest_def)

interpretation journal: evidence_journal reserve "append_and_digest sha" "stage_batched_evidence sha"
  "flush_batched_evidence sha" ev_inv
  for sha
proof
  show "ev_inv db \<Longrightarrow> ev_inv (fst (reserve v db))" for db v by (rule reserve_inv)
  show "ev_inv db \<Longrightarrow> ev_inv (fst (append_and_digest sha r db))" for db r
    by (simp add: append_and_digest_fst append_inv)
  show "ev_inv db \<Longrightarrow> ev_inv (fst (stage_batched_evidence sha r d db))" for db r d by (rule stage_inv)
  show "ev_inv db \<Longrightarrow> ev_inv (fst (flush_batched_evidence sha s ds sg fl db))" for db s ds sg fl
    by (rule flush_inv)
  show "reserve v db = (db', Inl e) \<Longrightarrow> db' = db" for v db db' e
    by (auto simp: reserve_def split: sum.splits dest: transact_rollback)
  show "append_and_digest sha r db = (db', Inl e) \<Longrightarrow> db' = db" for r db db' e
    using append_digest_ok [of r db db' "()" sha]
    by (auto simp: append_and_digest_def append_receipt_def split: sum.splits prod.splits dest: transact_rollback)
  show "stage_batched_evidence sha r d db = (db', Inl e) \<Longrightarrow> db' = db" for r d db db' e
    by (auto simp: stage_batched_evidence_def split: sum.splits if_splits dest: transact_rollback)
  show "flush_batched_evidence sha s ds sg fl db = (db', Inl e) \<Longrightarrow> db' = db" for s ds sg fl db db' e
    by (auto simp: flush_batched_evidence_def dest: transact_rollback)
qed

section \<open>Reachable journals\<close>

datatype ev_op =
    OpReserve ev_reservation
  | OpAppend ev_receipt
  | OpStage ev_receipt bytes
  | OpFlush string "bytes list" bytes int

fun ev_exec :: "(bytes \<Rightarrow> bytes) \<Rightarrow> ev_op \<Rightarrow> ev_db \<Rightarrow> ev_db" where
  "ev_exec sha (OpReserve v) db = fst (reserve v db)"
| "ev_exec sha (OpAppend r) db = fst (append_and_digest sha r db)"
| "ev_exec sha (OpStage r d) db = fst (stage_batched_evidence sha r d db)"
| "ev_exec sha (OpFlush s ds sg fl) db = fst (flush_batched_evidence sha s ds sg fl db)"

inductive ev_reach :: "(bytes \<Rightarrow> bytes) \<Rightarrow> ev_db \<Rightarrow> bool" for sha where
  reach_empty: "ev_reach sha empty_db"
| reach_step: "ev_reach sha db \<Longrightarrow> ev_reach sha (ev_exec sha op db)"

lemma ev_reach_inv: "ev_reach sha db \<Longrightarrow> ev_inv db"
proof (induction rule: ev_reach.induct)
  case reach_empty
  show ?case by (rule empty_inv)
next
  case (reach_step db op)
  then show ?case
    by (cases op) (simp_all add: journal.res_inv journal.app_inv journal.stg_inv journal.flu_inv)
qed

lemma ev_reach_fold: "ev_reach sha (fold (ev_exec sha) ops empty_db)"
  by (induction ops rule: rev_induct) (simp_all add: reach_empty reach_step)

section \<open>Reading a journal\<close>

definition receipt_root_after :: "batch_row list \<Rightarrow> ev_receipt \<Rightarrow> bytes" where
  "receipt_root_after B r =
     (case find (\<lambda>b. br_last b = rc_mediation_sequence r) B of
        None \<Rightarrow> rc_after_execution_root r | Some b \<Rightarrow> br_after b)"

text \<open>The receipts link up: each begins at the root where the one before it, or its batch, ended.\<close>

fun receipts_link :: "batch_row list \<Rightarrow> bytes \<Rightarrow> ev_receipt list \<Rightarrow> bytes \<Rightarrow> bool" where
  "receipts_link B root [] final = (root = final)"
| "receipts_link B root (r # rs) final =
     (rc_before_execution_root r = root \<and> receipts_link B (receipt_root_after B r) rs final)"

lemma receipt_from_row_sel:
  "receipt_from_row s e = Inr r \<Longrightarrow> rc_mediation_sequence r = er_seq e \<and> rc_before_execution_root r = er_before e \<and>
     rc_after_execution_root r = er_after e \<and> parse_evidence_nonce (er_nonce e) = Inr (rc_nonce r)"
  by (auto simp: receipt_from_row_def res_bind_Inr_iff)

lemma receipt_root_after_row: "receipt_from_row s e = Inr r \<Longrightarrow> receipt_root_after B r = root_after B e"
  by (drule receipt_from_row_sel) (simp add: receipt_root_after_def root_after_def split: option.splits)

lemma receipts_link_rows:
  assumes "list_all2 (\<lambda>e r. receipt_from_row s e = Inr r) E rs" and "chain B root E"
  shows "receipts_link B root rs (end_root B root E)"
  using assms
  by (induction arbitrary: root rule: list_all2_induct)
     (auto simp: receipt_root_after_row dest: receipt_from_row_sel)

lemma receipt_from_row_ok: "nonce_text_ok (er_nonce e) \<Longrightarrow> \<exists>r. receipt_from_row s e = Inr r"
  using nonce_text_roundtrip by (fastforce simp: nonce_text_ok_def receipt_from_row_def)

lemma receipt_row_roundtrip:
  "evidence_nonce_text (rc_nonce r) = Inr t \<Longrightarrow> receipt_from_row (rc_session_id r) (receipt_row r t) = Inr r"
  by (simp add: receipt_from_row_def receipt_row_def nonce_text_roundtrip)

lemma upto_sorted: "sorted [i..j :: int]"
  by (simp add: sorted_wrt_iff_nth_less)

lemma session_rows:
  assumes "session_ok F T U E S h B"
  shows "map er_seq E = [1..int (length E)]" and "\<forall>e \<in> set E. nonce_text_ok (er_nonce e)"
    and "distinct (map er_nonce E)" and "sort_key er_seq E = E"
proof -
  have keys: "map row_key E = map resv_key (F @ T)" and n: "numbered (F @ T)"
    using assms numbered_prefix [of "F @ T" U] by (simp_all add: session_ok_def)
  have s: "map er_seq E = map rv_seq (F @ T)" and nn: "map er_nonce E = map rv_nonce (F @ T)"
    using arg_cong [OF keys, of "map fst"] arg_cong [OF keys, of "map (\<lambda>(_, _, _, t, _). t)"]
    by (simp_all add: row_key_def resv_key_def comp_def)
  have "length E = length (F @ T)" using arg_cong [OF keys, of length] by simp
  with s n show seq: "map er_seq E = [1..int (length E)]" by (simp add: numbered_def)
  show "distinct (map er_nonce E)" using nn assms by (auto simp: session_ok_def)
  have "nonce_text_ok (er_nonce e)" if "e \<in> set E" for e
  proof -
    have "er_nonce e \<in> set (map er_nonce E)" using that by simp
    then have "er_nonce e \<in> rv_nonce ` set (F @ T)" unfolding nn by auto
    with assms show ?thesis by (auto simp: session_ok_def)
  qed
  then show "\<forall>e \<in> set E. nonce_text_ok (er_nonce e)" by blast
  show "sort_key er_seq E = E" by (rule sort_key_id_if_sorted) (simp only: seq upto_sorted)
qed

lemma ev_history_rows:
  assumes "ev_inv db"
  obtains rs where "ev_history db s = Inr rs" "list_all2 (\<lambda>e r. receipt_from_row s e = Inr r) (evid_of db s) rs"
proof -
  obtain F T U where ok: "session_ok F T U (evid_of db s) (staged_of db s) (load_head db s) (batches_of db s)"
    using session_okE [OF assms] by metis
  let ?g = "\<lambda>e. SOME r. receipt_from_row s e = Inr r"
  have "res_map (receipt_from_row s) (evid_of db s) = Inr (map ?g (evid_of db s))"
    by (rule res_map_total) (metis (mono_tags, lifting) receipt_from_row_ok session_rows(2) [OF ok] someI_ex)
  then show ?thesis
    using that [of "map ?g (evid_of db s)"] by (simp add: ev_history_def session_rows(4) [OF ok] res_map_Inr_iff)
qed

lemma parse_nonce_inject:
  "nonce_text_ok a \<Longrightarrow> nonce_text_ok b \<Longrightarrow> parse_evidence_nonce a = parse_evidence_nonce b \<Longrightarrow> a = b"
  unfolding nonce_text_ok_def using nonce_text_roundtrip by (metis sum.inject(2))

lemma history_nonces_distinct:
  assumes "list_all2 (\<lambda>e r. receipt_from_row s e = Inr r) E rs" and "distinct (map er_nonce E)"
    and "\<forall>e \<in> set E. nonce_text_ok (er_nonce e)"
  shows "distinct (map rc_nonce rs)"
  using assms
proof (induction rule: list_all2_induct)
  case (Cons e E r rs)
  have "rc_nonce r \<noteq> rc_nonce q" if q: "q \<in> set rs" for q
  proof
    assume eq: "rc_nonce r = rc_nonce q"
    obtain i where i: "i < length rs" "rs ! i = q" using q by (auto simp: in_set_conv_nth)
    with Cons.hyps(2) have "E ! i \<in> set E" "receipt_from_row s (E ! i) = Inr q"
      by (auto simp: list_all2_conv_all_nth)
    then obtain e' where e': "e' \<in> set E" "receipt_from_row s e' = Inr q" by blast
    have "er_nonce e = er_nonce e'"
      using parse_nonce_inject receipt_from_row_sel [OF Cons.hyps(1)] receipt_from_row_sel [OF e'(2)] eq e'(1) Cons.prems(2)
      by simp
    with Cons.prems(1) e'(1) show False by force
  qed
  with Cons show ?case by auto
qed simp

lemma hd_sort_key_min:
  fixes f :: "'a \<Rightarrow> int"
  assumes "x \<in> set xs" and "\<And>y. y \<in> set xs \<Longrightarrow> y \<noteq> x \<Longrightarrow> f x < f y"
  obtains ys where "sort_key f xs = x # ys"
proof -
  obtain z zs where z: "sort_key f xs = z # zs" using assms(1) by (cases "sort_key f xs") (auto, metis set_sort empty_iff empty_set)
  have "set (z # zs) = set xs" using z set_sort [of f xs] by simp
  moreover have "sorted (map f (z # zs))" using z sorted_sort_key [of f xs] by simp
  ultimately have "f z \<le> f x" "z \<in> set xs" using assms(1) by auto
  with assms(2) [of z] have "z = x" by force
  with z that show ?thesis by blast
qed

section \<open>Properties\<close>

text \<open>
  C5. In every journal that any sequence of reservations, appends, stagings and flushes can
  reach, failed ones included, the history of a session reads back without error, is numbered
  from one without gaps, uses every nonce once, and its execution roots form a single chain:
  each receipt starts at the root at which its predecessor, or the batch its predecessor ended,
  left the session, from the zero root to the durable head. The reservations are numbered
  without gaps too, and at most one is unresolved.
\<close>

theorem evidence_history_chained:
  assumes "ev_reach sha db"
  shows "\<exists>rs. ev_history db s = Inr rs \<and> map rc_mediation_sequence rs = [1..int (length rs)] \<and>
     distinct (map rc_nonce rs) \<and> receipts_link (batches_of db s) ZERO_ROOT rs (head_root db s) \<and>
     map rv_seq (resv_of db s) = [1..int (length (resv_of db s))] \<and>
     length (filter (\<lambda>v. rv_state v = ''reserved'') (resv_of db s)) \<le> 1"
proof -
  have inv: "ev_inv db" using assms by (rule ev_reach_inv)
  obtain F T U where R: "resv_of db s = F @ T @ U"
    and ok: "session_ok F T U (evid_of db s) (staged_of db s) (load_head db s) (batches_of db s)"
    using session_okE [OF inv] .
  obtain rs where rs: "ev_history db s = Inr rs"
    and all: "list_all2 (\<lambda>e r. receipt_from_row s e = Inr r) (evid_of db s) rs"
    using ev_history_rows [OF inv] .
  have "map rc_mediation_sequence rs = map er_seq (evid_of db s)"
    using all by (induction rule: list_all2_induct) (auto dest: receipt_from_row_sel)
  moreover have "length rs = length (evid_of db s)" using all by (simp add: list_all2_lengthD)
  moreover have "receipts_link (batches_of db s) ZERO_ROOT rs (head_root db s)"
    using receipts_link_rows [OF all, of "batches_of db s" ZERO_ROOT] ok by (simp add: session_ok_def head_root_root_of)
  moreover have "length (filter (\<lambda>v. rv_state v = ''reserved'') (resv_of db s)) \<le> 1"
    using ok by (simp add: R session_ok_def in_state_def)
  moreover have "map rv_seq (resv_of db s) = [1..int (length (resv_of db s))]"
    using ok R by (simp add: session_ok_def numbered_def)
  ultimately show ?thesis
    using rs session_rows [OF ok] history_nonces_distinct [OF all] by auto
qed

text \<open>
  What is appended is what is read: after an append that succeeds on a reachable journal, the
  session's head is the appended receipt, its execution root is the receipt's, and the history
  has grown by exactly that receipt.
\<close>

theorem evidence_append_reads_back:
  assumes "ev_reach sha db" and "append_and_digest sha r db = (db', Inr d)"
  shows "ev_head db' (rc_session_id r) = Inr (Some r) \<and>
     head_root db' (rc_session_id r) = rc_after_execution_root r \<and>
     (\<exists>rs. ev_history db (rc_session_id r) = Inr rs \<and> ev_history db' (rc_session_id r) = Inr (rs @ [r]))"
proof -
  let ?s = "rc_session_id r"
  have inv: "ev_inv db" and inv': "ev_inv db'"
    using assms ev_reach_inv [OF assms(1)] journal.app_inv [of db sha r] by simp_all
  from assms(2) have "append_receipt r db = (db', Inr ())"
    by (auto simp: append_and_digest_def split: prod.splits sum.splits)
  from append_receipt_ok(2) [OF this] obtain db1 where a: "assert_reserved db r = Inr ()"
    and i: "insert_receipt r db = Inr db1"
    and db': "db' = advance_head r (set_resv_state (\<lambda>v. rv_session v = ?s \<and> rv_seq v = rc_mediation_sequence r) ''finalized'' db1)"
    by (auto simp: append_tx_def res_bind_Inr_iff Let_def)
  obtain t where t: "evidence_nonce_text (rc_nonce r) = Inr t" using assert_reserved_nonce [OF a] ..
  have db1: "db1 = db\<lparr>db_evidence := db_evidence db @ [receipt_row r t]\<rparr>"
    using i t by (auto simp: insert_receipt_def unique_error_def split: if_splits)
  have E: "evid_of db' ?s = evid_of db ?s @ [receipt_row r t]" by (simp add: db' advance_head_def db1 view_simps)
  obtain F T U where ok': "session_ok F T U (evid_of db' ?s) (staged_of db' ?s) (load_head db' ?s) (batches_of db' ?s)"
    using session_okE [OF inv'] by metis
  have row: "receipt_from_row ?s (receipt_row r t) = Inr r" using t by (rule receipt_row_roundtrip)
  obtain rs where rs: "ev_history db ?s = Inr rs"
      "list_all2 (\<lambda>e r. receipt_from_row ?s e = Inr r) (evid_of db ?s) rs"
    using ev_history_rows [OF inv] .
  have "list_all2 (\<lambda>e r. receipt_from_row ?s e = Inr r) (evid_of db' ?s) (rs @ [r])"
    unfolding E using rs(2) row by (simp add: list_all2_appendI)
  then have "ev_history db' ?s = Inr (rs @ [r])"
    by (simp add: ev_history_def session_rows(4) [OF ok'] res_map_Inr_iff)
  moreover have "er_seq e < rc_mediation_sequence r" if "e \<in> set (evid_of db ?s)" for e
  proof -
    have s: "map er_seq (evid_of db ?s) @ [rc_mediation_sequence r] = [1..int (length (evid_of db ?s))] @ [int (length (evid_of db ?s)) + 1]"
      using session_rows(1) [OF ok'] upto_snoc [of "length (evid_of db ?s)"] by (simp add: E)
    then have "er_seq e \<in> set [1..int (length (evid_of db ?s))]" using that by (metis append1_eq_conv image_eqI list.set_map)
    with s show ?thesis by simp
  qed
  then have "er_seq y < rc_mediation_sequence r" if "y \<in> set (evid_of db' ?s)" "y \<noteq> receipt_row r t" for y
    using that by (auto simp: E)
  then obtain ys where "sort_key (\<lambda>e. - er_seq e) (evid_of db' ?s) = receipt_row r t # ys"
    using hd_sort_key_min [of "receipt_row r t" "evid_of db' ?s" "\<lambda>e. - er_seq e"] by (auto simp: E)
  ultimately show ?thesis
    using rs(1) row by (simp add: ev_head_def head_root_root_of root_of_def db' advance_head_def view_simps)
qed

definition demo_root :: "nat \<Rightarrow> bytes" where
  "demo_root n = replicate 32 (char_of n)"

definition demo_receipt :: "string \<Rightarrow> int \<Rightarrow> bytes \<Rightarrow> bytes \<Rightarrow> ev_receipt" where
  "demo_receipt out n before after =
     \<lparr>rc_session_id = ''s'', rc_mediation_sequence = n, rc_first_sequence = n, rc_last_sequence = n,
      rc_nonce = (0, n), rc_semantic_root = demo_root 1, rc_before_execution_root = before,
      rc_after_execution_root = after, rc_outcome = out, rc_observation_digest = demo_root 2,
      rc_evidence_reference = ''ref'', rc_kernel_signature = ''sig'', rc_signature_verified = True,
      rc_inclusion_proof_verified = True, rc_created_at_ns = 7\<rparr>"

definition demo_ops :: "ev_op list" where
  "demo_ops =
     (let r1 = demo_receipt ''committed'' 1 ZERO_ROOT (demo_root 3);
          r2 = demo_receipt ''buffered'' 2 (demo_root 3) (demo_root 3)
      in [OpReserve (reservation_of_receipt r1), OpAppend r1, OpReserve (reservation_of_receipt r2),
          OpStage r2 (demo_root 4), OpFlush ''s'' [demo_root 5] [] 0])"

definition demo_sha :: "bytes \<Rightarrow> bytes" where
  "demo_sha x = demo_root 5"

theorem evidence_history_chained_witness:
  "length (evid_of (fold (ev_exec demo_sha) demo_ops empty_db) ''s'') = 2 \<and>
   (\<exists>rs. receipts_link (batches_of (fold (ev_exec demo_sha) demo_ops empty_db) ''s'') ZERO_ROOT rs
      (head_root (fold (ev_exec demo_sha) demo_ops empty_db) ''s''))"
proof
  show "length (evid_of (fold (ev_exec demo_sha) demo_ops empty_db) ''s'') = 2" by code_simp
  show "\<exists>rs. receipts_link (batches_of (fold (ev_exec demo_sha) demo_ops empty_db) ''s'') ZERO_ROOT rs
      (head_root (fold (ev_exec demo_sha) demo_ops empty_db) ''s'')"
    using evidence_history_chained [OF ev_reach_fold [of demo_sha demo_ops], of "''s''"] by blast
qed

theorem evidence_append_reads_back_witness:
  "\<exists>db'. append_and_digest demo_sha (demo_receipt ''committed'' 1 ZERO_ROOT (demo_root 3))
       (fold (ev_exec demo_sha) (take 1 demo_ops) empty_db) = (db', Inr (demo_root 5)) \<and>
     ev_head db' ''s'' = Inr (Some (demo_receipt ''committed'' 1 ZERO_ROOT (demo_root 3)))"
proof -
  let ?a = "append_and_digest demo_sha (demo_receipt ''committed'' 1 ZERO_ROOT (demo_root 3))
       (fold (ev_exec demo_sha) (take 1 demo_ops) empty_db)"
  have "snd ?a = Inr (demo_root 5)" by code_simp
  then have a: "?a = (fst ?a, Inr (demo_root 5))" by (metis prod.collapse)
  have "rc_session_id (demo_receipt ''committed'' 1 ZERO_ROOT (demo_root 3)) = ''s''" by (simp add: demo_receipt_def)
  with evidence_append_reads_back [OF ev_reach_fold a] a show ?thesis by metis
qed

end
