(* ===== verification/Evidence_Recovery.thy ===== *)
theory Evidence_Recovery
  imports Evidence_Journal
begin

text \<open>
  Flushing and recovery of the evidence journal: what a flush commits, that the staged leaves a
  recovery reads can always be flushed, what a reconciliation reports, and a reachable state
  in which a session is stuck.
\<close>

section \<open>Leaf digests and Merkle roots of bytes\<close>

lemma transact_ok: "transact msg db r = (db', Inr x) \<Longrightarrow> r = Inr (db', x)"
  using transact_cases by fastforce

lemma merkle_root_hex:
  assumes "level \<noteq> []" and "\<forall>d \<in> set level. \<exists>x. d = hex (sha x)"
  shows "\<exists>x. merkle_root sha level = Inr (hex (sha x))"
  using assms
proof (induction sha level rule: merkle_root.induct)
  case (1 sha level)
  show ?case
  proof (cases "length level > 1")
    case True
    then have "next_level sha level \<noteq> []" using length_next_level [of sha level] by (metis One_nat_def add_is_0 div_eq_0_iff
        gr_zeroI length_0_conv less_2_cases_iff not_less_eq plus_1_eq_Suc Suc_1 Suc_less_eq add.commute)
    moreover have "\<forall>d \<in> set (next_level sha level). \<exists>x. d = hex (sha x)"
      by (auto simp: next_level_pairs node_def)
    ultimately show ?thesis using 1(1) [OF 1(2) True] merkle_root_split [OF True] by simp
  next
    case False
    then obtain d where "level = [d]" using 1(2) by (cases level) auto
    with 1(3) show ?thesis by auto
  qed
qed

lemma merkle_root_digests_ok:
  assumes "ds \<noteq> []" and "\<forall>d \<in> set ds. \<exists>x. d = sha x" and "\<And>x. length (sha x) = 32"
  shows "\<exists>x. batched_merkle_root_digests sha ds = Inr (sha x)"
proof -
  have "\<exists>x. merkle_root sha (map hex ds) = Inr (hex (sha x))"
    by (rule merkle_root_hex) (use assms(1,2) in auto)
  moreover have "\<forall>d \<in> set ds. length d = 32" using assms(2,3) by auto
  ultimately show ?thesis by (auto simp: batched_merkle_root_digests_def)
qed

text \<open>Every leaf of a reachable journal carries a SHA-256 digest.\<close>

lemma batched_leaf_digest: "batched_evidence_leaf sha a b c d e f g h i j = Inr l \<Longrightarrow> \<exists>x. bl_digest l = hex (sha x)"
  by (auto simp: batched_evidence_leaf_def digest_def res_bind_Inr_iff Let_def)

lemma db_leaves_reserve: "db_leaves (fst (reserve v db)) = db_leaves db"
proof -
  have "db_leaves db' = db_leaves db" if "reserve_tx v db = Inr (db', u)" for db' u
    using that by (auto simp: reserve_tx_def Let_def res_bind_Inr_iff insert_reservation_def unique_error_def
        split: option.splits if_splits)
  then show ?thesis by (auto simp: reserve_def transact_def split: sum.splits pyerr.splits)
qed

lemma db_leaves_append: "db_leaves (fst (append_and_digest sha r db)) = db_leaves db"
proof -
  have "db_leaves db' = db_leaves db" if "append_tx r db = Inr (db', u)" for db' u
    using that by (auto simp: append_tx_def Let_def res_bind_Inr_iff insert_receipt_def unique_error_def
        advance_head_def set_resv_state_def split: if_splits)
  then show ?thesis
    by (auto simp: append_and_digest_fst append_receipt_def transact_def split: sum.splits pyerr.splits)
qed

lemma db_leaves_stage:
  "l \<in> set (db_leaves (fst (stage_batched_evidence sha r d db))) \<Longrightarrow> l \<in> set (db_leaves db) \<or> (\<exists>x. lf_digest l = sha x)"
proof -
  have "l \<in> set (db_leaves db) \<or> (\<exists>x. lf_digest l = sha x)"
    if "stage_tx sha r d db = Inr (db', u)" "l \<in> set (db_leaves db')" for db' u
    using that by (auto simp: stage_tx_def Let_def res_bind_Inr_iff insert_receipt_def insert_leaf_def unique_error_def
        set_resv_state_def split: if_splits dest!: batched_leaf_digest)
  then show "l \<in> set (db_leaves (fst (stage_batched_evidence sha r d db))) \<Longrightarrow> ?thesis"
    by (auto simp: stage_batched_evidence_def transact_def split: sum.splits pyerr.splits if_splits)
qed

lemma db_leaves_commit:
  "commit_batch b db = Inr db' \<Longrightarrow> l \<in> set (db_leaves db') \<Longrightarrow> lf_digest l \<in> lf_digest ` set (db_leaves db)"
  by (auto simp: commit_batch_def Let_def unique_error_def set_resv_state_def split: if_splits)

lemma db_leaves_flush:
  assumes "l \<in> set (db_leaves (fst (flush_batched_evidence sha s ds sg fl db)))"
  shows "lf_digest l \<in> lf_digest ` set (db_leaves db)"
proof (cases "flush_tx sha s ds sg fl db")
  case (Inl e)
  with assms show ?thesis by (auto simp: flush_batched_evidence_def transact_def split: pyerr.splits)
next
  case (Inr x)
  then obtain b where "commit_batch b db = Inr (fst x)" by (metis flush_tx_cases prod.collapse)
  moreover have "l \<in> set (db_leaves (fst x))"
    using assms Inr by (cases x) (simp add: flush_batched_evidence_def transact_def)
  ultimately show ?thesis by (rule db_leaves_commit)
qed

lemma reach_leaf_digest: "ev_reach sha db \<Longrightarrow> l \<in> set (db_leaves db) \<Longrightarrow> \<exists>x. lf_digest l = sha x"
proof (induction arbitrary: l rule: ev_reach.induct)
  case reach_empty
  then show ?case by (simp add: empty_db_def)
next
  case (reach_step db op)
  then show ?case
    by (cases op) (auto simp: db_leaves_reserve db_leaves_append dest!: db_leaves_stage db_leaves_flush)
qed

section \<open>Properties\<close>

lemma max_int_ge: "x \<in> set xs \<Longrightarrow> \<exists>m. max_int xs = Some m \<and> x \<le> m"
  by (induction xs) (auto split: option.splits simp: max_def)

lemma next_batch_id_fresh: "b \<in> set (db_batches db) \<Longrightarrow> br_session b = s \<Longrightarrow> br_id b < next_batch_id db s"
  using max_int_ge [of "br_id b" "map br_id (batches_of db s)"]
  by (force simp: batches_of_def next_batch_id_def)

lemma hd_upto_int: "i \<le> j \<Longrightarrow> hd [i..j] = i"
  by (subst upto_rec1) simp_all

lemma last_upto_int: "i \<le> j \<Longrightarrow> last [i..j] = j"
  by (subst upto_rec2) simp_all

text \<open>
  C8. Recovery always succeeds: whatever happened before, the staged leaves that a reconciliation
  reports for a session can be flushed, and the flush returns a commit receipt. (A digest of
  SHA-256 is 32 bytes.)
\<close>

theorem evidence_recovery_flushes:
  assumes "ev_reach sha db" and "\<And>x. length (sha x) = 32"
    and "reconciliation db s = Inr (Some n)" and "rn_staged_leaf_digests n \<noteq> []"
  shows "\<exists>c. snd (flush_batched_evidence sha s (rn_staged_leaf_digests n) sg fl db) = Inr c"
proof -
  let ?ds = "map snd (staged_rows db s)"
  have ds: "rn_staged_leaf_digests n = ?ds"
    using assms(3) by (auto simp: reconciliation_def Let_def res_bind_Inr_iff staged_reconciliation_def split: if_splits)
  have "\<forall>d \<in> set ?ds. \<exists>x. d = sha x"
    using reach_leaf_digest [OF assms(1)] by (auto simp: staged_rows_def staged_of_def)
  then obtain x where root: "batched_merkle_root_digests sha ?ds = Inr (sha x)"
    using merkle_root_digests_ok [of ?ds sha] assms(2,4) ds by auto
  have fresh: "\<not> (\<exists>c \<in> set (db_batches db). br_session c = s \<and> br_id c = next_batch_id db s)"
    using next_batch_id_fresh by fastforce
  have "staged_rows db s \<noteq> []" using ds assms(4) by auto
  then have "is_ok (flush_tx sha s ?ds sg fl db)"
    using root by (simp add: flush_tx_def Let_def commit_batch_def fresh)
  then show ?thesis by (auto simp: is_ok_iff ds flush_batched_evidence_def transact_def)
qed

text \<open>
  C7. A flush that succeeds on a reachable journal commits exactly the staged leaves: the digests
  handed in are the staged ones in order of their index, the batch root is their Merkle root,
  the receipt covers a contiguous range of mediation sequences with one leaf each, the head
  moves to the execution root derived from the old root and the batch root, no leaf stays
  staged, and the history of receipts is unchanged.
\<close>

theorem evidence_flush_commits:
  assumes "ev_reach sha db" and "flush_batched_evidence sha s ds sg fl db = (db', Inr c)"
  shows "staged_reconciliation db s =
           ([bc_first_mediation_sequence c .. bc_last_mediation_sequence c], ds) \<and>
     bc_leaf_count c = int (length ds) \<and>
     batched_merkle_root_digests sha ds = Inr (bc_batch_root c) \<and>
     head_root db' s = batch_execution_root sha (head_root db s) (bc_batch_root c) \<and>
     staged_reconciliation db' s = ([], []) \<and> ev_history db' s = ev_history db s"
proof -
  have tx: "flush_tx sha s ds sg fl db = Inr (db', c)"
    using assms(2) by (simp add: flush_batched_evidence_def transact_ok)
  obtain F T U where ok: "session_ok F T U (evid_of db s) (staged_of db s) (load_head db s) (batches_of db s)"
    using session_okE [OF ev_reach_inv [OF assms(1)]] by metis
  have rows: "staged_rows db s = map (\<lambda>l. (lf_seq l, lf_digest l)) (staged_of db s)"
    by (rule staged_rows_inv [OF ok])
  obtain root b where ne: "staged_rows db s \<noteq> []" and ds: "map snd (staged_rows db s) = ds"
    and root: "batched_merkle_root_digests sha ds = Inr root" and cb: "commit_batch b db = Inr db'"
    and b: "br_session b = s" "br_after b = batch_execution_root sha (head_root db s) root"
    and c: "bc_batch_root c = root" "bc_leaf_count c = int (length ds)"
    using flush_tx_cases [OF tx] by metis
  have fl: "bc_first_mediation_sequence c = fst (hd (staged_rows db s))"
    "bc_last_mediation_sequence c = fst (last (staged_rows db s))"
    using tx by (auto simp: flush_tx_def Let_def res_bind_Inr_iff split: if_splits)
  have lenT: "length (staged_rows db s) = length T" "map fst (staged_rows db s) = map rv_seq T"
    using ok arg_cong [of _ _ length] by (auto simp: rows session_ok_def comp_def) (metis length_map)
  have seqs: "map fst (staged_rows db s) = [int (length F) + 1..int (length F) + int (length T)]"
  proof -
    have "numbered (F @ T)" using numbered_prefix [of "F @ T" U] ok by (simp add: session_ok_def)
    moreover have "T \<noteq> []" using ne lenT(1) by auto
    moreover from this have "[1..int (length (F @ T))] = [1..int (length F)] @ [int (length F) + 1..int (length F) + int (length T)]"
      using upto_split1 [of 1 "int (length F) + 1" "int (length F) + int (length T)"] by (cases T) (auto simp: algebra_simps)
    moreover have "numbered F" using calculation(1) by (rule numbered_prefix)
    ultimately show ?thesis by (simp add: numbered_def lenT)
  qed
  have "staged_reconciliation db s = ([bc_first_mediation_sequence c .. bc_last_mediation_sequence c], ds)"
  proof -
    have "fst (hd (staged_rows db s)) = hd (map fst (staged_rows db s))"
      "fst (last (staged_rows db s)) = last (map fst (staged_rows db s))"
      using ne by (simp_all add: hd_map last_map)
    moreover have "T \<noteq> []" using ne lenT(1) by auto
    ultimately have "fst (hd (staged_rows db s)) = int (length F) + 1"
      "fst (last (staged_rows db s)) = int (length F) + int (length T)"
      unfolding seqs by (cases T; simp add: hd_upto_int last_upto_int)+
    then show ?thesis by (simp add: staged_reconciliation_def seqs ds fl)
  qed
  moreover have "head_root db' s = batch_execution_root sha (head_root db s) root"
    using b by (simp add: head_root_root_of root_of_def views_commit [OF cb])
  moreover have "staged_reconciliation db' s = ([], [])"
    using b by (simp add: staged_reconciliation_def staged_rows_def views_commit [OF cb])
  moreover have "ev_history db' s = ev_history db s"
    by (simp add: ev_history_def views_commit [OF cb])
  ultimately show ?thesis using root c by simp
qed

theorem evidence_flush_commits_witness:
  "\<exists>db' c. flush_batched_evidence demo_sha ''s'' [demo_root 5] [] 0
       (fold (ev_exec demo_sha) (take 4 demo_ops) empty_db) = (db', Inr c) \<and>
     staged_reconciliation db' ''s'' = ([], [])"
proof -
  let ?f = "flush_batched_evidence demo_sha ''s'' [demo_root 5] [] 0
       (fold (ev_exec demo_sha) (take 4 demo_ops) empty_db)"
  have "is_ok (snd ?f)" by code_simp
  then obtain c where c: "?f = (fst ?f, Inr c)" by (metis is_ok_iff prod.collapse)
  from evidence_flush_commits [OF ev_reach_fold c] c show ?thesis by metis
qed

theorem evidence_recovery_flushes_witness:
  "\<exists>c. snd (flush_batched_evidence demo_sha ''s'' [demo_root 5] [] 0
       (fold (ev_exec demo_sha) (take 4 demo_ops) empty_db)) = Inr c"
proof -
  let ?db = "fold (ev_exec demo_sha) (take 4 demo_ops) empty_db"
  have len: "length (demo_sha x) = 32" for x by (simp add: demo_sha_def demo_root_def)
  have "case reconciliation ?db ''s'' of Inr (Some n) \<Rightarrow> rn_staged_leaf_digests n = [demo_root 5] | _ \<Rightarrow> False"
    by code_simp
  then obtain n where n: "reconciliation ?db ''s'' = Inr (Some n)" "rn_staged_leaf_digests n = [demo_root 5]"
    by (auto split: sum.splits option.splits)
  have "rn_staged_leaf_digests n \<noteq> []" using n(2) by simp
  from evidence_recovery_flushes [OF ev_reach_fold len n(1) this] n(2) show ?thesis by metis
qed

section \<open>A stuck session\<close>

text \<open>
  A flush moves the execution root although a reservation made before it may still be
  unresolved. That reservation then names a root that is no longer the head: it can be neither
  appended nor staged, and it blocks every later reservation.
\<close>

definition stranded :: "ev_db \<Rightarrow> string \<Rightarrow> bool" where
  "stranded db s \<longleftrightarrow> staged_of db s = [] \<and> resv_of db s \<noteq> [] \<and>
     rv_state (last (resv_of db s)) = ''reserved'' \<and> rv_before (last (resv_of db s)) \<noteq> head_root db s"

lemma reservation_matches_before:
  "reservation_matches v row = Inr True \<Longrightarrow> rs_before_execution_root v = rv_before row"
  by (auto simp: reservation_matches_def res_bind_Inr_iff split: if_splits)

lemma stranded_assert_reserved:
  assumes "ev_inv db" and "stranded db (rc_session_id r)" and "assert_reserved db r = Inr u"
  shows "rc_before_execution_root r \<noteq> head_root db (rc_session_id r)"
proof -
  obtain F T v t where R: "resv_of db (rc_session_id r) = F @ T @ [v]" and k: "row_key (receipt_row r t) = resv_key v"
    using assert_reserved_last [OF assms(1,3)] by metis
  from k have "rc_before_execution_root r = rv_before v" by (simp add: row_key_def resv_key_def receipt_row_def)
  with assms(2) R show ?thesis by (simp add: stranded_def)
qed

lemma stranded_append: "ev_inv db \<Longrightarrow> stranded db (rc_session_id r) \<Longrightarrow> fst (append_and_digest sha r db) = db"
proof -
  assume a: "ev_inv db" "stranded db (rc_session_id r)"
  have "\<not> is_ok (append_tx r db)"
    using stranded_assert_reserved [OF a]
    by (auto simp: is_ok_iff append_tx_def res_bind_Inr_iff assert_extends_def Let_def head_root_def split: if_splits option.splits)
  then show ?thesis
    by (auto simp: append_and_digest_fst append_receipt_def transact_def split: sum.splits pyerr.splits)
qed

lemma stranded_stage: "ev_inv db \<Longrightarrow> stranded db (rc_session_id r) \<Longrightarrow> fst (stage_batched_evidence sha r d db) = db"
proof -
  assume a: "ev_inv db" "stranded db (rc_session_id r)"
  have "\<not> is_ok (stage_tx sha r d db)"
    using stranded_assert_reserved [OF a] by (auto simp: is_ok_iff stage_tx_def res_bind_Inr_iff split: if_splits)
  then show ?thesis by (auto simp: stage_batched_evidence_def transact_def split: sum.splits pyerr.splits)
qed

lemma stranded_reserve: "stranded db (rs_session_id v) \<Longrightarrow> fst (reserve v db) = db"
proof -
  assume "stranded db (rs_session_id v)"
  then have "\<exists>r \<in> set (resv_of db (rs_session_id v)). rv_state r = ''reserved''"
    unfolding stranded_def using last_in_set by blast
  then have "reserve_tx v db = Inr (db', u) \<Longrightarrow> db' = db" for db' u
    by (auto simp: reserve_tx_def res_bind_Inr_iff Let_def split: if_splits option.splits)
  then show ?thesis by (auto simp: reserve_def transact_def split: sum.splits pyerr.splits)
qed

lemma stranded_flush: "stranded db s \<Longrightarrow> fst (flush_batched_evidence sha s ds sg fl db) = db"
  by (simp add: stranded_def flush_batched_evidence_def transact_def flush_tx_def staged_rows_def)

definition same_session :: "ev_db \<Rightarrow> ev_db \<Rightarrow> string \<Rightarrow> bool" where
  "same_session db db' s \<longleftrightarrow> resv_of db' s = resv_of db s \<and> evid_of db' s = evid_of db s \<and>
     staged_of db' s = staged_of db s \<and> load_head db' s = load_head db s"

fun op_session :: "ev_op \<Rightarrow> string" where
  "op_session (OpReserve v) = rs_session_id v"
| "op_session (OpAppend r) = rc_session_id r"
| "op_session (OpStage r d) = rc_session_id r"
| "op_session (OpFlush s ds sg fl) = s"

lemma same_session_refl [simp]: "same_session db db s"
  by (simp add: same_session_def)

lemma transact_same:
  "(\<And>db' x. r = Inr (db', x) \<Longrightarrow> same_session db db' s) \<Longrightarrow> same_session db (fst (transact msg db r)) s"
  by (auto simp: transact_def split: sum.splits pyerr.splits)

lemma same_reserve:
  assumes "reserve_tx v db = Inr (db', u)" and "rs_session_id v \<noteq> s"
  shows "same_session db db' s"
proof (cases "db' = db")
  case False
  with assms(1) obtain row where "insert_reservation row db = Inr db'" "rv_session row = rs_session_id v"
    by (auto simp: reserve_tx_def Let_def res_bind_Inr_iff split: option.splits if_splits)
  with assms(2) show ?thesis
    by (auto simp: insert_reservation_def unique_error_def same_session_def view_simps split: if_splits)
qed simp

lemma insert_receipt_ok:
  "insert_receipt r db = Inr db1 \<Longrightarrow> \<exists>t. db1 = db\<lparr>db_evidence := db_evidence db @ [receipt_row r t]\<rparr>"
  by (auto simp: insert_receipt_def unique_error_def res_bind_Inr_iff split: if_splits)

lemma same_append:
  assumes "append_tx r db = Inr (db', u)" and "rc_session_id r \<noteq> s"
  shows "same_session db db' s"
proof -
  from assms(1) obtain db1 where "insert_receipt r db = Inr db1"
    and db': "db' = advance_head r (set_resv_state (\<lambda>v. rv_session v = rc_session_id r \<and> rv_seq v = rc_mediation_sequence r) ''finalized'' db1)"
    by (auto simp: append_tx_def res_bind_Inr_iff Let_def)
  with insert_receipt_ok obtain t where "db1 = db\<lparr>db_evidence := db_evidence db @ [receipt_row r t]\<rparr>" by blast
  with assms(2) show ?thesis by (simp add: db' same_session_def advance_head_def view_simps)
qed

lemma same_stage:
  assumes "stage_tx sha r d db = Inr (db', u)" and "rc_session_id r \<noteq> s"
  shows "same_session db db' s"
proof -
  let ?l = "\<lambda>dg. \<lparr>lf_session = rc_session_id r, lf_seq = rc_mediation_sequence r,
      lf_index = staged_count db (rc_session_id r), lf_input = d, lf_digest = dg, lf_state = ''staged'', lf_batch = None\<rparr>"
  from assms(1) obtain db1 db2 dg where "insert_receipt r db = Inr db1"
    and il: "insert_leaf (?l dg) db1 = Inr db2"
    and db': "db' = set_resv_state (\<lambda>v. rv_session v = rc_session_id r \<and> rv_seq v = rc_mediation_sequence r) ''staged'' db2"
    by (auto simp: stage_tx_def res_bind_Inr_iff Let_def split: if_splits)
  with insert_receipt_ok obtain t where "db1 = db\<lparr>db_evidence := db_evidence db @ [receipt_row r t]\<rparr>" by blast
  then have "same_session db db1 s" using assms(2) by (simp add: same_session_def view_simps)
  moreover have "db2 = db1\<lparr>db_leaves := db_leaves db1 @ [?l dg]\<rparr>"
    using il by (simp add: insert_leaf_def unique_error_def split: if_splits)
  ultimately show ?thesis using assms(2) by (simp add: db' same_session_def view_simps)
qed

lemma same_flush:
  assumes "flush_tx sha t ds sg fl db = Inr (db', c)" and "t \<noteq> s"
  shows "same_session db db' s"
  by (rule flush_tx_cases [OF assms(1)]) (use assms(2) in \<open>simp add: same_session_def views_commit view_simps\<close>)

lemma other_session: "op_session op \<noteq> s \<Longrightarrow> same_session db (ev_exec sha op db) s"
proof (cases op)
  case (OpReserve v)
  then show "op_session op \<noteq> s \<Longrightarrow> ?thesis"
    by (cases "validate_reservation v") (auto simp: reserve_def intro!: transact_same same_reserve)
next
  case (OpAppend r)
  then show "op_session op \<noteq> s \<Longrightarrow> ?thesis"
    by (cases "validate_receipt r")
       (auto simp: append_and_digest_fst append_receipt_def intro!: transact_same same_append)
next
  case (OpStage r d)
  then show "op_session op \<noteq> s \<Longrightarrow> ?thesis"
    by (cases "validate_receipt r") (auto simp: stage_batched_evidence_def intro!: transact_same same_stage)
next
  case (OpFlush t ds sg fl)
  then show "op_session op \<noteq> s \<Longrightarrow> ?thesis"
    by (auto simp: flush_batched_evidence_def intro!: transact_same same_flush)
qed

text \<open>A stuck session stays stuck, and unchanged, under every sequence of operations.\<close>

lemma stranded_step:
  assumes "ev_inv db" and "stranded db s"
  shows "same_session db (ev_exec sha op db) s"
proof (cases "op_session op = s")
  case True
  with assms show ?thesis
    by (cases op) (simp_all add: stranded_reserve stranded_append stranded_stage stranded_flush)
qed (rule other_session)

lemma stranded_cong: "same_session db db' s \<Longrightarrow> stranded db' s = stranded db s"
  by (simp add: same_session_def stranded_def head_root_def)

lemma stranded_frozen:
  assumes "ev_inv db" and "stranded db s"
  shows "stranded (fold (ev_exec sha) ops db) s \<and> same_session db (fold (ev_exec sha) ops db) s"
proof (induction ops rule: rev_induct)
  case (snoc op ops)
  have "ev_inv (fold (ev_exec sha) ops db)" using assms(1)
  proof (induction ops arbitrary: db)
    case (Cons op ops)
    then show ?case
      by (cases op) (simp_all add: journal.res_inv journal.app_inv journal.stg_inv journal.flu_inv)
  qed simp
  with snoc have "same_session (fold (ev_exec sha) ops db) (fold (ev_exec sha) (ops @ [op]) db) s"
    by (simp add: stranded_step)
  with snoc have "same_session db (fold (ev_exec sha) (ops @ [op]) db) s" by (simp add: same_session_def)
  then show ?case using assms(2) stranded_cong by blast
qed (simp add: assms)

definition stranding_ops :: "ev_op list" where
  "stranding_ops =
     (let r1 = demo_receipt ''buffered'' 1 ZERO_ROOT ZERO_ROOT;
          r2 = demo_receipt ''buffered'' 2 ZERO_ROOT ZERO_ROOT
      in [OpReserve (reservation_of_receipt r1), OpStage r1 (demo_root 4), OpReserve (reservation_of_receipt r2),
          OpFlush ''s'' [demo_root 5] [] 0])"

lemma flush_strands_reservation: "stranded (fold (ev_exec demo_sha) stranding_ops empty_db) ''s''"
  by code_simp

section \<open>The evidence digest\<close>

text \<open>
  The fields of \<open>_evidence_digest\<close> are joined with a separator and not framed, and the first and
  the last are free texts: a session identifier can take up the fields of another receipt.
\<close>

lemma evidence_digest_ambiguous:
  fixes r :: ev_receipt
  assumes "evidence_nonce_text (rc_nonce r) = Inr t"
  defines "q \<equiv> r\<lparr>rc_session_id := rc_session_id r @ ''|'' @ str_join ''|'' [int_str (rc_mediation_sequence r),
      int_str (rc_first_sequence r), int_str (rc_last_sequence r), t, rc_semantic_root r,
      rc_before_execution_root r, rc_after_execution_root r, rc_outcome r, rc_observation_digest r]\<rparr>"
  shows "evidence_digest sha q = evidence_digest sha (r\<lparr>rc_evidence_reference := str_join ''|''
      [int_str (rc_mediation_sequence r), int_str (rc_first_sequence r), int_str (rc_last_sequence r), t,
       rc_semantic_root r, rc_before_execution_root r, rc_after_execution_root r, rc_outcome r,
       rc_observation_digest r, rc_evidence_reference r]\<rparr>)"
  using assms by (simp add: evidence_digest_def evidence_packet_def)

end
