(* ===== verification/Native_Sink.thy ===== *)
theory Native_Sink
  imports Evidence_Recovery
begin

text \<open>
  The native evidence sink (\<open>native_evidence_sink.py\<close>, with the callback types of
  \<open>_native/evidence.py\<close>): the three callbacks through which the native runtime reserves,
  finalizes and flushes evidence. They are parametric in the store's operations, as the source
  is in \<open>store\<close>; their lemmas are proved once for every journal and hold for the Turso store
  by the interpretation of its theory.
\<close>

section \<open>Callback types\<close>

record native_invocation =
  ni_outcome :: int
  ni_adapter_status :: int
  ni_mediation_sequence :: int
  ni_first_sequence :: int
  ni_last_sequence :: int
  ni_nonce :: nonce
  ni_semantic_root :: bytes
  ni_before_execution_root :: bytes
  ni_input_digest :: bytes
  ni_observation_digest :: bytes

record native_reservation =
  nv_mediation_sequence :: int
  nv_first_sequence :: int
  nv_last_sequence :: int
  nv_nonce :: nonce
  nv_semantic_root :: bytes
  nv_before_execution_root :: bytes

record native_commit =
  nc_after_execution_root :: bytes
  nc_evidence_digest :: bytes
  nc_attestation_digest :: bytes
  nc_verification_flags :: int

record native_flush_invocation =
  nf_first_mediation_sequence :: int
  nf_last_mediation_sequence :: int
  nf_leaf_digests :: "bytes list"
  nf_before_execution_root :: bytes

record native_flush_commit =
  fc_after_execution_root :: bytes
  fc_batch_root :: bytes
  fc_evidence_digest :: bytes
  fc_attestation_digest :: bytes
  fc_verification_flags :: int

text \<open>\<open>__post_init__\<close>: the first digest of the wrong size is reported.\<close>

definition check_digests :: "(string \<times> bytes) list \<Rightarrow> unit result" where
  "check_digests ds =
     (case find (\<lambda>(_, d). length d \<noteq> 32) ds of
        None \<Rightarrow> Inr ()
      | Some (name, _) \<Rightarrow> Inl (ValueError (''native evidence '' @ name @ '' must be exactly 32 bytes'')))"

definition make_native_commit :: "bytes \<Rightarrow> bytes \<Rightarrow> bytes \<Rightarrow> int \<Rightarrow> native_commit result" where
  "make_native_commit after_root evidence attestation flags =
     res_bind (check_digests [(''after_execution_root'', after_root), (''evidence_digest'', evidence),
       (''attestation_digest'', attestation)]) (\<lambda>_.
     Inr \<lparr>nc_after_execution_root = after_root, nc_evidence_digest = evidence,
          nc_attestation_digest = attestation, nc_verification_flags = flags\<rparr>)"

definition make_native_flush_commit ::
  "bytes \<Rightarrow> bytes \<Rightarrow> bytes \<Rightarrow> bytes \<Rightarrow> int \<Rightarrow> native_flush_commit result" where
  "make_native_flush_commit after_root batch_root evidence attestation flags =
     res_bind (check_digests [(''after_execution_root'', after_root), (''batch_root'', batch_root),
       (''evidence_digest'', evidence), (''attestation_digest'', attestation)]) (\<lambda>_.
     Inr \<lparr>fc_after_execution_root = after_root, fc_batch_root = batch_root, fc_evidence_digest = evidence,
          fc_attestation_digest = attestation, fc_verification_flags = flags\<rparr>)"

section \<open>The callbacks\<close>

record sink_config =
  sk_session_id :: string
  sk_committed_execution_root :: bytes
  sk_evidence_reference :: string
  sk_kernel_signature :: bytes
  sk_signature_verified :: bool
  sk_inclusion_proof_verified :: bool

definition sink_flags :: "sink_config \<Rightarrow> int" where
  "sink_flags k = of_bool (sk_signature_verified k) + 2 * of_bool (sk_inclusion_proof_verified k)"

definition sink_reserve ::
  "(ev_reservation \<Rightarrow> 'db \<Rightarrow> 'db \<times> unit result) \<Rightarrow> sink_config \<Rightarrow> native_reservation \<Rightarrow> 'db \<Rightarrow> 'db \<times> unit result" where
  "sink_reserve res k v =
     res \<lparr>rs_session_id = sk_session_id k, rs_mediation_sequence = nv_mediation_sequence v,
          rs_first_sequence = nv_first_sequence v, rs_last_sequence = nv_last_sequence v,
          rs_nonce = nv_nonce v, rs_semantic_root = nv_semantic_root v,
          rs_before_execution_root = nv_before_execution_root v\<rparr>"

definition sink_outcome :: "int \<Rightarrow> string" where
  "sink_outcome code = (case map_of native_outcomes code of None \<Rightarrow> ''indeterminate'' | Some x \<Rightarrow> x)"

definition sink_receipt :: "int \<Rightarrow> sink_config \<Rightarrow> native_invocation \<Rightarrow> ev_receipt result" where
  "sink_receipt now k v =
     (let outcome = sink_outcome (ni_outcome v);
          after_root = (if outcome = ''committed'' then sk_committed_execution_root k
                        else ni_before_execution_root v)
      in authorized_effect_evidence_receipt now (sk_session_id k) (ni_mediation_sequence v)
           (ni_first_sequence v) (ni_last_sequence v) (ni_nonce v) (ni_semantic_root v)
           (ni_before_execution_root v) after_root outcome (ni_observation_digest v)
           (sk_evidence_reference k) (sk_kernel_signature k) (sk_signature_verified k)
           (sk_inclusion_proof_verified k))"

definition sink_commit ::
  "(bytes \<Rightarrow> bytes) \<Rightarrow> (ev_receipt \<Rightarrow> 'db \<Rightarrow> 'db \<times> bytes result)
   \<Rightarrow> (ev_receipt \<Rightarrow> bytes \<Rightarrow> 'db \<Rightarrow> 'db \<times> bytes result) \<Rightarrow> int \<Rightarrow> sink_config \<Rightarrow> native_invocation
   \<Rightarrow> 'db \<Rightarrow> 'db \<times> native_commit result" where
  "sink_commit sha app stg now k v db =
     (case sink_receipt now k v of
        Inl e \<Rightarrow> (db, Inl e)
      | Inr r \<Rightarrow>
          (case (if rc_outcome r = ''buffered'' then stg r (ni_input_digest v) db else app r db) of
             (db', Inl e) \<Rightarrow> (db', Inl e)
           | (db', Inr evidence) \<Rightarrow>
               (db', make_native_commit (rc_after_execution_root r) evidence
                       (attestation_of sha (sk_kernel_signature k)) (sink_flags k))))"

definition sink_flush ::
  "(string \<Rightarrow> bytes list \<Rightarrow> bytes \<Rightarrow> int \<Rightarrow> 'db \<Rightarrow> 'db \<times> ev_batch_commit result) \<Rightarrow> sink_config
   \<Rightarrow> native_flush_invocation \<Rightarrow> 'db \<Rightarrow> 'db \<times> native_flush_commit result" where
  "sink_flush flu k v db =
     (case flu (sk_session_id k) (nf_leaf_digests v) (sk_kernel_signature k) (sink_flags k) db of
        (db', Inl e) \<Rightarrow> (db', Inl e)
      | (db', Inr batch) \<Rightarrow>
          (db', if bc_before_execution_root batch \<noteq> nf_before_execution_root v
                then evidence_error ''native flush forks durable execution root''
                else make_native_flush_commit (bc_after_execution_root batch) (bc_batch_root batch)
                       (bc_evidence_digest batch) (bc_attestation_digest batch) (bc_verification_flags batch)))"

section \<open>Sinks over any journal\<close>

lemma check_digests_ok: "\<forall>d \<in> set ds. length (snd d) = 32 \<Longrightarrow> check_digests ds = Inr ()"
  using find_None_iff [of "\<lambda>(_, d). length d \<noteq> 32" ds] by (fastforce simp: check_digests_def split: option.splits)

lemma attestation_length: "(\<And>x. length (sha x) = 32) \<Longrightarrow> length (attestation_of sha sg) = 32"
  by (simp add: attestation_of_def ZERO_ROOT_def)

lemma sink_receipt_valid:
  "sink_receipt now k v = Inr r \<Longrightarrow> validate_receipt r = Inr () \<and> length (rc_after_execution_root r) = 32"
  by (auto simp: sink_receipt_def authorized_effect_evidence_receipt_def Let_def res_bind_Inr_iff validate_receipt_ok)

context evidence_journal begin

lemma sink_reserve_inv: "inv db \<Longrightarrow> inv (fst (sink_reserve res k v db))"
  by (simp add: sink_reserve_def res_inv)

lemma sink_commit_inv: "inv db \<Longrightarrow> inv (fst (sink_commit sha app stg now k v db))"
proof -
  assume i: "inv db"
  have "inv (fst (app r db)) \<and> inv (fst (stg r (ni_input_digest v) db))" for r
    using i by (simp add: app_inv stg_inv)
  then show ?thesis using i
    by (auto simp: sink_commit_def split: sum.splits prod.splits) (metis fst_conv)+
qed

lemma sink_flush_inv: "inv db \<Longrightarrow> inv (fst (sink_flush flu k v db))"
  using flu_inv [of db "sk_session_id k" "nf_leaf_digests v" "sk_kernel_signature k" "sink_flags k"]
  by (auto simp: sink_flush_def split: sum.splits prod.splits)

lemma sink_reserve_rollback: "sink_reserve res k v db = (db', Inl e) \<Longrightarrow> db' = db"
  by (auto simp: sink_reserve_def dest: res_rollback)

text \<open>A finalization that raises leaves the journal alone, when evidence digests have 32 bytes.\<close>

lemma sink_commit_rollback:
  assumes "sink_commit sha app stg now k v db = (db', Inl e)" and "\<And>x. length (sha x) = 32"
    and "\<And>r db1 d. app r db = (db1, Inr d) \<Longrightarrow> length d = 32"
    and "\<And>r i db1 d. stg r i db = (db1, Inr d) \<Longrightarrow> length d = 32"
  shows "db' = db"
proof (cases "sink_receipt now k v")
  case (Inr r)
  obtain db1 x where o: "(if rc_outcome r = ''buffered'' then stg r (ni_input_digest v) db else app r db) = (db1, x)"
    by force
  show ?thesis
  proof (cases x)
    case (Inl e')
    then have "db1 = db" using o app_rollback stg_rollback by (auto split: if_splits)
    then show ?thesis using assms(1) \<open>sink_receipt now k v = Inr r\<close> o Inl by (simp add: sink_commit_def)
  next
    case (Inr d)
    then have "length d = 32" using o assms(3,4) by (auto split: if_splits)
    then have "is_ok (make_native_commit (rc_after_execution_root r) d (attestation_of sha (sk_kernel_signature k)) (sink_flags k))"
      using sink_receipt_valid [OF \<open>sink_receipt now k v = Inr r\<close>] attestation_length [of sha] assms(2)
      by (simp add: make_native_commit_def check_digests_ok)
    then show ?thesis using assms(1) \<open>sink_receipt now k v = Inr r\<close> o Inr by (auto simp: sink_commit_def is_ok_iff)
  qed
qed (use assms(1) in \<open>simp add: sink_commit_def\<close>)

end

section \<open>Properties\<close>

lemma stage_digest_length:
  assumes "\<And>x. length (sha x) = 32" and "stage_batched_evidence sha r i db = (db', Inr d)"
  shows "length d = 32"
proof -
  from assms(2) have "stage_tx sha r i db = Inr (db', d)"
    by (auto simp: stage_batched_evidence_def split: sum.splits if_splits dest: transact_ok)
  then show ?thesis
    using assms(1) by (auto simp: stage_tx_def res_bind_Inr_iff Let_def dest!: batched_leaf_digest split: if_splits)
qed

text \<open>
  C9. A native reservation or finalization is all or nothing: if the callback raises, for whatever
  reason, the evidence database is exactly as it was; if not, or if it does, the journal's
  invariant holds afterwards. (A digest of SHA-256 is 32 bytes.)
\<close>

theorem native_sink_atomic:
  assumes "\<And>x. length (sha x) = 32"
  shows "(sink_reserve reserve k v db = (db', Inl e) \<longrightarrow> db' = db) \<and>
    (sink_commit sha (append_and_digest sha) (stage_batched_evidence sha) now k w db = (db', Inl e) \<longrightarrow> db' = db) \<and>
    (ev_inv db \<longrightarrow> ev_inv (fst (sink_reserve reserve k v db)) \<and>
       ev_inv (fst (sink_commit sha (append_and_digest sha) (stage_batched_evidence sha) now k w db)))"
proof (intro conjI impI)
  show "sink_reserve reserve k v db = (db', Inl e) \<Longrightarrow> db' = db" by (rule journal.sink_reserve_rollback)
  have a: "length d = 32" if "append_and_digest sha r db = (db1, Inr d)" for r db1 d
    using that assms by (auto simp: append_and_digest_def evidence_digest_def res_bind_Inr_iff split: prod.splits sum.splits)
  have b: "length d = 32" if "stage_batched_evidence sha r i db = (db1, Inr d)" for r i db1 d
    using stage_digest_length [OF assms that] .
  show "db' = db" if "sink_commit sha (append_and_digest sha) (stage_batched_evidence sha) now k w db = (db', Inl e)"
    by (rule journal.sink_commit_rollback [OF that]) (use assms a b in auto)
qed (simp_all add: journal.sink_reserve_inv journal.sink_commit_inv)

definition demo_sink :: sink_config where
  "demo_sink = \<lparr>sk_session_id = ''s'', sk_committed_execution_root = demo_root 3, sk_evidence_reference = ''ref'',
     sk_kernel_signature = [], sk_signature_verified = True, sk_inclusion_proof_verified = False\<rparr>"

definition demo_invocation :: native_invocation where
  "demo_invocation = \<lparr>ni_outcome = 1, ni_adapter_status = 0, ni_mediation_sequence = 1, ni_first_sequence = 1,
     ni_last_sequence = 1, ni_nonce = (0, 1), ni_semantic_root = demo_root 1, ni_before_execution_root = ZERO_ROOT,
     ni_input_digest = demo_root 4, ni_observation_digest = demo_root 2\<rparr>"

text \<open>Finalizing without a reservation raises, and leaves the empty journal empty.\<close>

theorem native_sink_atomic_witness:
  "\<exists>db'. sink_commit demo_sha (append_and_digest demo_sha) (stage_batched_evidence demo_sha) 7 demo_sink demo_invocation
     empty_db = (db', evidence_error ''evidence finalize requires matching durable reservation'') \<and> db' = empty_db"
proof -
  let ?c = "sink_commit demo_sha (append_and_digest demo_sha) (stage_batched_evidence demo_sha) 7 demo_sink demo_invocation empty_db"
  let ?e = "AuthorizedEffectEvidenceError ''evidence finalize requires matching durable reservation''"
  have len: "length (demo_sha x) = 32" for x by (simp add: demo_sha_def demo_root_def)
  have "snd ?c = Inl ?e" by code_simp
  then have c: "?c = (fst ?c, Inl ?e)" by (metis prod.collapse)
  have "fst ?c = empty_db"
    using native_sink_atomic [of demo_sha, OF len, of demo_sink undefined empty_db "fst ?c" ?e 7 demo_invocation] c by blast
  with c show ?thesis by metis
qed

text \<open>
  A flush is not: the check that the native runtime and the journal agree on the execution root
  comes after the batch is committed. When they disagree the callback raises, and the batch is
  durable all the same.
\<close>

lemma sink_flush_commits_then_raises:
  assumes "flush_batched_evidence sha (sk_session_id k) (nf_leaf_digests v) (sk_kernel_signature k) (sink_flags k) db = (db', Inr c)"
    and "nf_before_execution_root v \<noteq> bc_before_execution_root c"
  shows "sink_flush (flush_batched_evidence sha) k v db = (db', evidence_error ''native flush forks durable execution root'')"
  using assms by (simp add: sink_flush_def)

end
