(* ===== verification/Json_Text.thy ===== *)
theory Json_Text
  imports Hex_Text "HOL-Library.List_Lexorder" "HOL-Library.Char_ord" "HOL-Library.Product_Lexorder"
begin

text \<open>
  JSON as Python's \<open>json\<close> module reads and writes it, for the theories of the proof package. A text
  is the list of its UTF-8 bytes. \<open>canonical_json\<close> is \<open>json.dumps\<close> with \<open>ensure_ascii=False\<close>, compact
  separators and sorted keys; \<open>json_loads\<close> is \<open>json.loads\<close> with an \<open>object_pairs_hook\<close>. A float is
  kept as its \<open>repr\<close>; the conversion of a literal to it is the parameter \<open>fl\<close>. Python's limits on
  nesting and on the digits of an integer are not modelled.
\<close>

section \<open>Values\<close>

datatype json =
    JNull
  | JBool bool
  | JInt int
  | JFloat string
  | JStr string
  | JList "json list"
  | JObj "(string \<times> json) list"

section \<open>Writing\<close>

definition js_char :: "char \<Rightarrow> string" where
  "js_char c =
     (if c = CHR 0x22 then [CHR 0x5C, CHR 0x22]
      else if c = CHR 0x5C then [CHR 0x5C, CHR 0x5C]
      else if c = CHR 0x0A then [CHR 0x5C, CHR ''n'']
      else if c = CHR 0x0D then [CHR 0x5C, CHR ''r'']
      else if c = CHR 0x09 then [CHR 0x5C, CHR ''t'']
      else if c = CHR 0x0C then [CHR 0x5C, CHR ''f'']
      else if c = CHR 0x08 then [CHR 0x5C, CHR ''b'']
      else if c < CHR 0x20 then [CHR 0x5C, CHR ''u'', CHR ''0'', CHR ''0''] @ hex_byte c
      else [c])"

definition json_string :: "string \<Rightarrow> string" where
  "json_string s = CHR 0x22 # concat (map js_char s) @ [CHR 0x22]"

fun dumps :: "json \<Rightarrow> string" where
  "dumps JNull = ''null''"
| "dumps (JBool b) = (if b then ''true'' else ''false'')"
| "dumps (JInt i) = int_str i"
| "dumps (JFloat t) = t"
| "dumps (JStr s) = json_string s"
| "dumps (JList vs) = CHR ''['' # str_join '','' (map dumps vs) @ '']''"
| "dumps (JObj kvs) = CHR ''{'' # str_join '','' (map (\<lambda>(k, v). json_string k @ CHR '':'' # dumps v) kvs) @ ''}''"

fun sort_keys :: "json \<Rightarrow> json" where
  "sort_keys (JList vs) = JList (map sort_keys vs)"
| "sort_keys (JObj kvs) = JObj (sort_key fst (map (\<lambda>(k, v). (k, sort_keys v)) kvs))"
| "sort_keys v = v"

definition canonical_json :: "json \<Rightarrow> string" where
  "canonical_json v = dumps (sort_keys v)"

section \<open>Reading\<close>

text \<open>The UTF-8 bytes of a code point (a lone surrogate is encoded like any other).\<close>

definition utf8_encode :: "nat \<Rightarrow> string" where
  "utf8_encode n =
     (if n < 0x80 then [char_of n]
      else if n < 0x800 then [char_of (0xC0 + n div 64), char_of (0x80 + n mod 64)]
      else if n < 0x10000 then [char_of (0xE0 + n div 4096), char_of (0x80 + n div 64 mod 64), char_of (0x80 + n mod 64)]
      else [char_of (0xF0 + n div 262144), char_of (0x80 + n div 4096 mod 64), char_of (0x80 + n div 64 mod 64),
            char_of (0x80 + n mod 64)])"

fun hex4 :: "string \<Rightarrow> (nat \<times> string) option" where
  "hex4 (a # b # c # d # r) =
     (if is_hex a \<and> is_hex b \<and> is_hex c \<and> is_hex d
      then Some (((hex_val a * 16 + hex_val b) * 16 + hex_val c) * 16 + hex_val d, r) else None)"
| "hex4 _ = None"

lemma hex4_shorter: "hex4 s = Some (u, r) \<Longrightarrow> length r < length s"
  by (induction s rule: hex4.induct) (auto split: if_splits)

definition js_unescape :: "char \<Rightarrow> char option" where
  "js_unescape c = map_of [(CHR 0x22, CHR 0x22), (CHR 0x5C, CHR 0x5C), (CHR ''/'', CHR ''/''), (CHR ''b'', CHR 0x08),
     (CHR ''f'', CHR 0x0C), (CHR ''n'', CHR 0x0A), (CHR ''r'', CHR 0x0D), (CHR ''t'', CHR 0x09)] c"

text \<open>The code point of an escape \<open>\uXXXX\<close>, joined with the low surrogate that follows a high one.\<close>

definition code_point :: "string \<Rightarrow> (nat \<times> string) option" where
  "code_point s =
     (case hex4 s of
        None \<Rightarrow> None
      | Some (u, r) \<Rightarrow>
          if 0xD800 \<le> u \<and> u \<le> 0xDBFF \<and> take 2 r = [CHR 0x5C, CHR ''u'']
          then (case hex4 (drop 2 r) of
                  None \<Rightarrow> None
                | Some (u2, r2) \<Rightarrow>
                    if 0xDC00 \<le> u2 \<and> u2 \<le> 0xDFFF then Some (0x10000 + (u - 0xD800) * 1024 + (u2 - 0xDC00), r2)
                    else Some (u, r))
          else Some (u, r))"

lemma code_point_shorter: "code_point s = Some (u, r) \<Longrightarrow> length r < length s"
  by (auto simp: code_point_def split: option.splits if_splits dest!: hex4_shorter)

text \<open>Strict UTF-8: what \<open>str.encode\<close> can write and \<open>bytes.decode\<close> accepts.\<close>

definition cont_byte :: "nat \<Rightarrow> nat \<Rightarrow> char \<Rightarrow> bool" where
  "cont_byte lo hi c \<longleftrightarrow> lo \<le> of_char c \<and> of_char c \<le> hi"

fun utf8_valid :: "string \<Rightarrow> bool" where
  "utf8_valid [] = True"
| "utf8_valid (c # r) =
     (let n = of_char c :: nat in
      if n < 0x80 then utf8_valid r
      else if 0xC2 \<le> n \<and> n \<le> 0xDF
      then (case r of d # r1 \<Rightarrow> cont_byte 0x80 0xBF d \<and> utf8_valid r1 | _ \<Rightarrow> False)
      else if 0xE0 \<le> n \<and> n \<le> 0xEF
      then (case r of d # e # r1 \<Rightarrow>
              cont_byte (if n = 0xE0 then 0xA0 else 0x80) (if n = 0xED then 0x9F else 0xBF) d \<and>
              cont_byte 0x80 0xBF e \<and> utf8_valid r1 | _ \<Rightarrow> False)
      else if 0xF0 \<le> n \<and> n \<le> 0xF4
      then (case r of d # e # f # r1 \<Rightarrow>
              cont_byte (if n = 0xF0 then 0x90 else 0x80) (if n = 0xF4 then 0x8F else 0xBF) d \<and>
              cont_byte 0x80 0xBF e \<and> cont_byte 0x80 0xBF f \<and> utf8_valid r1 | _ \<Rightarrow> False)
      else False)"

declare utf8_valid.simps(2) [simp del]

text \<open>The body of a string up to its closing quote, and the rest.\<close>

function scan_string :: "string \<Rightarrow> (string \<times> string) option" where
  "scan_string [] = None"
| "scan_string (c # r) =
     (if c = CHR 0x22 then Some ([], r)
      else if c = CHR 0x5C
      then (case r of
              [] \<Rightarrow> None
            | e # r1 \<Rightarrow>
                if e = CHR ''u''
                then (case code_point r1 of
                        None \<Rightarrow> None
                      | Some (u, r2) \<Rightarrow> map_option (map_prod ((@) (utf8_encode u)) id) (scan_string r2))
                else (case js_unescape e of
                        None \<Rightarrow> None
                      | Some d \<Rightarrow> map_option (map_prod (Cons d) id) (scan_string r1)))
      else if c < CHR 0x20 then None
      else map_option (map_prod (Cons c) id) (scan_string r))"
  by pat_completeness auto
termination
  by (relation "measure length") (auto dest!: code_point_shorter)

lemma scan_string_shorter: "scan_string s = Some (t, r) \<Longrightarrow> length r < length s"
proof (induction s arbitrary: t r rule: scan_string.induct)
  case (2 c s)
  show ?case
  proof (cases "c = CHR 0x5C")
    case True
    with 2(4) obtain e s1 where s: "s = e # s1" by (cases s) auto
    show ?thesis
    proof (cases "e = CHR ''u''")
      case u: True
      with True s 2(4) obtain n s2 t' where c: "code_point s1 = Some (n, s2)" "scan_string s2 = Some (t', r)"
        by (auto split: option.splits)
      from 2(1) [OF _ True s u c(1) HOL.refl c(2)] True code_point_shorter [OF c(1)] s show ?thesis by simp
    next
      case False
      with True s 2(4) obtain d t' where c: "js_unescape e = Some d" "scan_string s1 = Some (t', r)"
        by (auto split: option.splits)
      from 2(2) [OF _ True s False c] True s show ?thesis by simp
    qed
  next
    case False
    show ?thesis
    proof (cases "c = CHR 0x22")
      case True
      with 2(4) show ?thesis by simp
    next
      case q: False
      with False 2(4) obtain t' where "\<not> c < CHR 0x20" "scan_string s = Some (t', r)" by (auto split: if_splits)
      from 2(3) [OF q False this] show ?thesis by simp
    qed
  qed
qed simp

text \<open>The number that a text starts with.\<close>

definition int_part :: "string \<Rightarrow> (string \<times> string) option" where
  "int_part s =
     (case s of
        [] \<Rightarrow> None
      | c # r \<Rightarrow> if c = CHR ''0'' then Some ([c], r)
                else if is_digit c then Some (takeWhile is_digit s, dropWhile is_digit s) else None)"

definition frac_part :: "string \<Rightarrow> string \<times> string" where
  "frac_part s =
     (case s of
        c # d # r \<Rightarrow> if c = CHR ''.'' \<and> is_digit d then (c # takeWhile is_digit (d # r), dropWhile is_digit (d # r)) else ([], s)
      | _ \<Rightarrow> ([], s))"

definition exp_part :: "string \<Rightarrow> string \<times> string" where
  "exp_part s =
     (case s of
        c # r \<Rightarrow>
          if c = CHR ''e'' \<or> c = CHR ''E''
          then (let (sign, d) = (case r of x # y \<Rightarrow> if x = CHR ''-'' \<or> x = CHR ''+'' then ([x], y) else ([], r) | [] \<Rightarrow> ([], r)) in
                if d \<noteq> [] \<and> is_digit (hd d) then (c # sign @ takeWhile is_digit d, dropWhile is_digit d) else ([], s))
          else ([], s)
      | [] \<Rightarrow> ([], s))"

definition parse_number :: "(string \<Rightarrow> string) \<Rightarrow> string \<Rightarrow> (json \<times> string) option" where
  "parse_number fl s =
     (let neg = (s \<noteq> [] \<and> hd s = CHR ''-''); body = (if neg then tl s else s) in
      case int_part body of
        None \<Rightarrow> None
      | Some (i, r) \<Rightarrow>
          let (f, r1) = frac_part r; (e, r2) = exp_part r1; sign = (if neg then ''-'' else []) in
          Some (if f = [] \<and> e = [] then JInt (if neg then - int (nat_val i) else int (nat_val i))
                else JFloat (fl (sign @ i @ f @ e)), r2))"

lemma frac_part_le: "frac_part s = (f, r) \<Longrightarrow> length r \<le> length s"
  by (auto simp: frac_part_def split: list.splits if_splits) (metis le_SucI length_dropWhile_le)+

lemma exp_part_le: "exp_part s = (f, r) \<Longrightarrow> length r \<le> length s"
  using length_dropWhile_le [of is_digit]
  by (auto simp: exp_part_def Let_def le_SucI split: list.splits if_splits prod.splits)

lemma int_part_shorter: "int_part s = Some (i, r) \<Longrightarrow> length r < length s"
  using length_dropWhile_le [of is_digit "tl s"]
  by (auto simp: int_part_def less_Suc_eq_le split: list.splits if_splits)

lemma parse_number_shorter: "parse_number fl s = Some (v, r) \<Longrightarrow> length r < length s"
  by (auto simp: parse_number_def Let_def split: option.splits prod.splits if_splits
      dest!: int_part_shorter frac_part_le exp_part_le)

text \<open>
  Values, array elements and object members. The tests that an element shortened the text always
  hold (\<open>json_shorter\<close>); they make the recursion well-founded.
\<close>

datatype 'e json_error = JsonDecode | HookError 'e

type_synonym 'e hook = "(string \<times> json) list \<Rightarrow> 'e + (string \<times> json) list"

definition json_space :: "char \<Rightarrow> bool" where
  "json_space c \<longleftrightarrow> c = CHR '' '' \<or> c = CHR 0x09 \<or> c = CHR 0x0A \<or> c = CHR 0x0D"

definition skip_json :: "string \<Rightarrow> string" where
  "skip_json s = dropWhile json_space s"

definition run_hook :: "'e hook \<Rightarrow> (string \<times> json) list \<Rightarrow> string \<Rightarrow> 'e json_error + json \<times> string" where
  "run_hook hook kvs r = (case hook kvs of Inl e \<Rightarrow> Inl (HookError e) | Inr d \<Rightarrow> Inr (JObj d, r))"

lemma run_hook_Inr: "run_hook hook kvs r = Inr (v, r') \<longleftrightarrow> r' = r \<and> (\<exists>d. hook kvs = Inr d \<and> v = JObj d)"
  by (auto simp: run_hook_def split: sum.splits)

text \<open>The literals and numbers.\<close>

definition js_starts :: "string \<Rightarrow> string \<Rightarrow> bool" where
  "js_starts t s \<longleftrightarrow> take (length t) s = t"

definition parse_scalar :: "(string \<Rightarrow> string) \<Rightarrow> string \<Rightarrow> 'e json_error + json \<times> string" where
  "parse_scalar fl s =
     (if js_starts ''null'' s then Inr (JNull, drop 4 s)
      else if js_starts ''true'' s then Inr (JBool True, drop 4 s)
      else if js_starts ''false'' s then Inr (JBool False, drop 5 s)
      else case parse_number fl s of
             Some x \<Rightarrow> Inr x
           | None \<Rightarrow>
               if js_starts ''NaN'' s then Inr (JFloat (fl ''NaN''), drop 3 s)
               else if js_starts ''Infinity'' s then Inr (JFloat (fl ''Infinity''), drop 8 s)
               else if js_starts ''-Infinity'' s then Inr (JFloat (fl ''-Infinity''), drop 9 s)
               else Inl JsonDecode)"

definition comma_next :: "string \<Rightarrow> bool" where
  "comma_next s \<longleftrightarrow> s \<noteq> [] \<and> hd s = CHR '',''"

text \<open>A member's key and colon, up to its value.\<close>

definition parse_key :: "string \<Rightarrow> (string \<times> string) option" where
  "parse_key s =
     (if s \<noteq> [] \<and> hd s = CHR 0x22
      then (case scan_string (tl s) of
              None \<Rightarrow> None
            | Some (k, r) \<Rightarrow>
                (let c = skip_json r in
                 if c \<noteq> [] \<and> hd c = CHR '':'' then Some (k, skip_json (tl c)) else None))
      else None)"

lemma skip_json_le: "length (skip_json s) \<le> length s"
  by (simp add: skip_json_def length_dropWhile_le)

lemma parse_key_shorter:
  assumes "parse_key s = Some (k, r)"
  shows "length r < length s"
proof -
  from assms obtain c t where s: "s = c # t" by (cases s) (auto simp: parse_key_def)
  from assms s obtain r0 where r0: "scan_string t = Some (k, r0)" "skip_json r0 \<noteq> []" "r = skip_json (tl (skip_json r0))"
    by (auto simp: parse_key_def Let_def split: option.splits if_splits)
  have "length r \<le> length (tl (skip_json r0))" using r0(3) skip_json_le [of "tl (skip_json r0)"] by simp
  also have "\<dots> \<le> length r0" using skip_json_le [of r0] by simp
  finally show ?thesis using scan_string_shorter [OF r0(1)] s by simp
qed

function parse_value :: "(string \<Rightarrow> string) \<Rightarrow> 'e hook \<Rightarrow> string \<Rightarrow> 'e json_error + json \<times> string"
  and parse_elements :: "(string \<Rightarrow> string) \<Rightarrow> 'e hook \<Rightarrow> string \<Rightarrow> 'e json_error + json list \<times> string"
  and parse_members :: "(string \<Rightarrow> string) \<Rightarrow> 'e hook \<Rightarrow> string \<Rightarrow> 'e json_error + (string \<times> json) list \<times> string"
where
  "parse_value fl hook s =
     (case s of
        [] \<Rightarrow> Inl JsonDecode
      | c # r \<Rightarrow>
          if c = CHR 0x22
          then (case scan_string r of None \<Rightarrow> Inl JsonDecode | Some (t, r') \<Rightarrow> Inr (JStr t, r'))
          else if c = CHR ''{''
          then (let b = skip_json r in
                if b \<noteq> [] \<and> hd b = CHR ''}'' then run_hook hook [] (tl b)
                else res_bind (parse_members fl hook b) (\<lambda>(kvs, r'). run_hook hook kvs r'))
          else if c = CHR ''[''
          then (let b = skip_json r in
                if b \<noteq> [] \<and> hd b = CHR '']'' then Inr (JList [], tl b)
                else res_bind (parse_elements fl hook b) (\<lambda>(vs, r'). Inr (JList vs, r')))
          else parse_scalar fl s)"
| "parse_elements fl hook s =
     res_bind (parse_value fl hook s) (\<lambda>(v, r).
       let b = skip_json r in
       if b \<noteq> [] \<and> hd b = CHR '']'' then Inr ([v], tl b)
       else if comma_next b
       then (let d = skip_json (tl b) in
             if length d < length s then res_bind (parse_elements fl hook d) (\<lambda>(vs, r'). Inr (v # vs, r'))
             else Inl JsonDecode)
       else Inl JsonDecode)"
| "parse_members fl hook s =
     (case parse_key s of
        None \<Rightarrow> Inl JsonDecode
      | Some (k, t) \<Rightarrow>
          res_bind (parse_value fl hook t) (\<lambda>(v, r).
            let b = skip_json r in
            if b \<noteq> [] \<and> hd b = CHR ''}'' then Inr ([(k, v)], tl b)
            else if comma_next b
            then (let d = skip_json (tl b) in
                  if length d < length s then res_bind (parse_members fl hook d) (\<lambda>(kvs, r'). Inr ((k, v) # kvs, r'))
                  else Inl JsonDecode)
            else Inl JsonDecode))"
  by pat_completeness auto
termination
  by (relation "measure (\<lambda>x. case x of
        Inl (_, _, s) \<Rightarrow> 2 * length s
      | Inr (Inl (_, _, s)) \<Rightarrow> 2 * length s + 1
      | Inr (Inr (_, _, s)) \<Rightarrow> 2 * length s + 1)")
    (auto simp: skip_json_le le_imp_less_Suc dest!: parse_key_shorter)

declare parse_value.simps [simp del] parse_elements.simps [simp del] parse_members.simps [simp del]

lemma js_starts_nonempty: "js_starts (c # t) s \<Longrightarrow> s \<noteq> []"
  by (auto simp: js_starts_def)

lemma parse_scalar_shorter: "parse_scalar fl s = Inr (v, r) \<Longrightarrow> length r < length s"
  by (auto simp: parse_scalar_def split: option.splits if_splits dest: parse_number_shorter js_starts_nonempty)

text \<open>Every reader shortens the text, so the tests of the lengths never fail.\<close>

lemma json_shorter:
  "parse_value fl hook s = Inr (v, r) \<Longrightarrow> length r < length s"
  "parse_elements fl hook s = Inr (vs, r) \<Longrightarrow> length r < length s"
  "parse_members fl hook s = Inr (kvs, r) \<Longrightarrow> length r < length s"
proof (induction fl hook s and fl hook s and fl hook s arbitrary: v r and vs r and kvs r
    rule: parse_value_parse_elements_parse_members.induct)
  case (1 fl hook s)
  show ?case
  proof (cases s)
    case Nil
    with 1(3) show ?thesis by (simp add: parse_value.simps)
  next
    case (Cons c t)
    let ?b = "skip_json t"
    note p = 1(3) [unfolded Cons, unfolded parse_value.simps [of fl hook "c # t"] list.case]
    consider "c = CHR 0x22" | "c \<noteq> CHR 0x22" "c = CHR ''{''" | "c \<noteq> CHR 0x22" "c \<noteq> CHR ''{''" "c = CHR ''[''"
      | "c \<noteq> CHR 0x22" "c \<noteq> CHR ''{''" "c \<noteq> CHR ''[''" by blast
    then show ?thesis
    proof cases
      case 1
      with p Cons show ?thesis by (auto split: option.splits dest: scan_string_shorter)
    next
      case 2
      show ?thesis
      proof (cases "?b \<noteq> [] \<and> hd ?b = CHR ''}''")
        case True
        with p 2 have "r = tl ?b" by (auto simp: run_hook_Inr Let_def)
        with Cons skip_json_le [of t] show ?thesis by simp
      next
        case False
        with p 2 obtain kvs r' where "parse_members fl hook ?b = Inr (kvs, r')" "r = r'"
          by (auto simp: run_hook_Inr Let_def res_bind_Inr_iff split: if_splits)
        with 1(1) [OF Cons 2 HOL.refl False] skip_json_le [of t] Cons show ?thesis by fastforce
      qed
    next
      case 3
      show ?thesis
      proof (cases "?b \<noteq> [] \<and> hd ?b = CHR '']''")
        case True
        with p 3 have "r = tl ?b" by (auto simp: Let_def)
        with Cons skip_json_le [of t] show ?thesis by simp
      next
        case False
        with p 3 obtain vs r' where "parse_elements fl hook ?b = Inr (vs, r')" "r = r'"
          by (auto simp: Let_def res_bind_Inr_iff split: if_splits)
        with 1(2) [OF Cons 3 HOL.refl False] skip_json_le [of t] Cons show ?thesis by fastforce
      qed
    next
      case 4
      have "length r < length (c # t)" by (rule parse_scalar_shorter) (use p 4 in simp)
      with Cons show ?thesis by simp
    qed
  qed
next
  case (2 fl hook s)
  from 2(3) obtain v r' where v: "parse_value fl hook s = Inr (v, r')"
    by (auto simp: parse_elements.simps res_bind_Inr_iff)
  note v' = 2(1) [OF v]
  show ?case
  proof (cases "skip_json r' \<noteq> [] \<and> hd (skip_json r') = CHR '']''")
    case True
    with 2(3) v have "r = tl (skip_json r')" by (subst (asm) parse_elements.simps) (auto simp: Let_def)
    with v' skip_json_le [of r'] show ?thesis by simp
  next
    case False
    with 2(3) v obtain vs' where d: "comma_next (skip_json r')" "length (skip_json (tl (skip_json r'))) < length s"
      "parse_elements fl hook (skip_json (tl (skip_json r'))) = Inr (vs', r)"
      by (subst (asm) parse_elements.simps) (auto simp: Let_def res_bind_Inr_iff split: if_splits)
    from 2(2) [OF v HOL.refl HOL.refl False d(1) HOL.refl d(2,3)] d(2) show ?thesis by simp
  qed
next
  case (3 fl hook s)
  from 3(3) obtain k t v r' where k: "parse_key s = Some (k, t)" and v: "parse_value fl hook t = Inr (v, r')"
    by (auto simp: parse_members.simps [of fl hook s] res_bind_Inr_iff split: option.splits)
  note v' = 3(1) [OF k HOL.refl v]
  show ?case
  proof (cases "skip_json r' \<noteq> [] \<and> hd (skip_json r') = CHR ''}''")
    case True
    with 3(3) k v have "r = tl (skip_json r')" by (subst (asm) parse_members.simps) (auto simp: Let_def)
    with v' parse_key_shorter [OF k] skip_json_le [of r'] show ?thesis by simp
  next
    case False
    with 3(3) k v obtain kvs' where d: "comma_next (skip_json r')" "length (skip_json (tl (skip_json r'))) < length s"
      "parse_members fl hook (skip_json (tl (skip_json r'))) = Inr (kvs', r)"
      by (subst (asm) parse_members.simps) (auto simp: Let_def res_bind_Inr_iff split: if_splits)
    from 3(2) [OF k HOL.refl v HOL.refl HOL.refl False d(1) HOL.refl d(2,3)] d(2) show ?thesis by simp
  qed
qed

text \<open>\<open>json.loads\<close>: one value with white space around it.\<close>

definition json_loads :: "(string \<Rightarrow> string) \<Rightarrow> 'e hook \<Rightarrow> string \<Rightarrow> 'e json_error + json" where
  "json_loads fl hook s =
     res_bind (parse_value fl hook (skip_json s)) (\<lambda>(v, r). if skip_json r = [] then Inr v else Inl JsonDecode)"

text \<open>Without a hook, a later member replaces an earlier one of the same name.\<close>

definition plain_hook :: "'e hook" where
  "plain_hook kvs = Inr (dict_of kvs)"

section \<open>Reading what was written\<close>

lemma json_char_escapes:
  "c \<in> {CHR 0x22, CHR 0x5C, CHR 0x0A, CHR 0x0D, CHR 0x09, CHR 0x0C, CHR 0x08} \<Longrightarrow>
   scan_string (js_char c @ r) = map_option (map_prod (Cons c) id) (scan_string r)"
  by (elim insertE emptyE) (simp_all add: js_char_def js_unescape_def)

lemma hex4_zero: "hex4 (CHR ''0'' # CHR ''0'' # hex_byte c @ r) = Some (of_char c, r)"
proof -
  have "hex_val (hex_digit (of_char c div 16)) * 16 + hex_val (hex_digit (of_char c mod 16)) = of_char c" by simp
  moreover have "hex_val CHR ''0'' = 0" "is_hex CHR ''0''" by (simp_all add: hex_val_def is_hex_def)
  ultimately show ?thesis by (simp add: hex_byte_def)
qed

lemma scan_json_char: "scan_string (js_char c @ r) = map_option (map_prod (Cons c) id) (scan_string r)"
proof (cases "c \<in> {CHR 0x22, CHR 0x5C, CHR 0x0A, CHR 0x0D, CHR 0x09, CHR 0x0C, CHR 0x08}")
  case True
  then show ?thesis by (rule json_char_escapes)
next
  case False
  show ?thesis
  proof (cases "c < CHR 0x20")
    case True
    then have n: "of_char c < (32 :: nat)" by (simp add: less_char_def)
    have "code_point (CHR ''0'' # CHR ''0'' # hex_byte c @ r) = Some (of_char c, r)"
      using n by (simp add: code_point_def hex4_zero)
    moreover have "js_char c @ r = CHR 0x5C # CHR ''u'' # CHR ''0'' # CHR ''0'' # hex_byte c @ r"
      using False True by (simp add: js_char_def)
    moreover have "utf8_encode (of_char c) = [c]" using n by (simp add: utf8_encode_def)
    ultimately show ?thesis by (simp add: fun_eq_iff map_prod_def)
  next
    case f: False
    with False have "js_char c = [c]" by (simp add: js_char_def)
    with False f show ?thesis by simp
  qed
qed

lemma scan_json_string: "scan_string (concat (map js_char s) @ CHR 0x22 # r) = Some (s, r)"
proof (induction s)
  case (Cons c s)
  have "scan_string (js_char c @ concat (map js_char s) @ CHR 0x22 # r) = Some (c # s, r)"
    unfolding scan_json_char Cons by simp
  then show ?case by simp
qed simp

definition value_end :: "string \<Rightarrow> bool" where
  "value_end x \<longleftrightarrow> x = [] \<or> hd x = CHR '','' \<or> hd x = CHR '']'' \<or> hd x = CHR ''}''"

lemma delim_hd: "value_end (c # x) \<Longrightarrow> \<not> is_digit c \<and> c \<noteq> CHR ''.'' \<and> c \<noteq> CHR ''e'' \<and> c \<noteq> CHR ''E'' \<and> c \<noteq> CHR ''-'' \<and> c \<noteq> CHR ''+''"
  by (auto simp: value_end_def is_digit_def)

lemma digits_delim: "value_end x \<Longrightarrow> takeWhile is_digit (s @ x) = takeWhile is_digit s \<and> dropWhile is_digit (s @ x) = dropWhile is_digit s @ x"
  by (induction s) (cases x, auto dest: delim_hd)

lemma int_part_delim: "value_end x \<Longrightarrow> int_part (s @ x) = map_option (map_prod id (\<lambda>r. r @ x)) (int_part s)"
proof (cases s)
  case Nil
  assume "value_end x"
  with Nil show ?thesis
    by (cases x) (auto simp: int_part_def is_digit_def dest: delim_hd)
next
  case (Cons c t)
  assume "value_end x"
  from digits_delim [OF this, of s] Cons show ?thesis by (auto simp: int_part_def)
qed

lemma frac_part_delim: "value_end x \<Longrightarrow> frac_part (s @ x) = map_prod id (\<lambda>r. r @ x) (frac_part s)"
proof -
  assume x: "value_end x"
  have nil: "frac_part x = ([], x)" using x by (auto simp: frac_part_def split: list.splits dest: delim_hd)
  show ?thesis
  proof (cases s rule: remdups_adj.cases)
    case 1
    with nil show ?thesis by (simp add: frac_part_def)
  next
    case (2 c)
    with x show ?thesis by (auto simp: frac_part_def split: list.splits dest: delim_hd)
  next
    case (3 c d t)
    with digits_delim [OF x, of "d # t"] show ?thesis by (auto simp: frac_part_def)
  qed
qed

lemma exp_part_delim: "value_end x \<Longrightarrow> exp_part (s @ x) = map_prod id (\<lambda>r. r @ x) (exp_part s)"
proof -
  assume x: "value_end x"
  have nil: "exp_part x = ([], x)" using x by (auto simp: exp_part_def split: list.splits dest: delim_hd)
  show ?thesis
  proof (cases s rule: remdups_adj.cases)
    case 1
    with nil show ?thesis by (simp add: exp_part_def)
  next
    case (2 c)
    with x show ?thesis by (cases x) (auto simp: exp_part_def Let_def dest: delim_hd)
  next
    case (3 c d t)
    show ?thesis
    proof (cases "t = []")
      case True
      with 3 x show ?thesis by (cases x) (auto simp: exp_part_def Let_def dest: delim_hd)
    next
      case False
      with 3 digits_delim [OF x, of "d # t"] digits_delim [OF x, of t] show ?thesis
        by (auto simp: exp_part_def Let_def)
    qed
  qed
qed

lemma parse_number_delim:
  assumes "value_end x"
  shows "parse_number fl (s @ x) = map_option (map_prod id (\<lambda>r. r @ x)) (parse_number fl s)"
proof -
  have n: "s @ x \<noteq> [] \<and> hd (s @ x) = CHR ''-'' \<longleftrightarrow> s \<noteq> [] \<and> hd s = CHR ''-''"
    using assms by (cases s; cases x) (auto dest: delim_hd)
  have b: "(if s \<noteq> [] \<and> hd s = CHR ''-'' then tl (s @ x) else s @ x) = (if s \<noteq> [] \<and> hd s = CHR ''-'' then tl s else s) @ x"
    by (cases s) auto
  show ?thesis
    unfolding parse_number_def n b Let_def int_part_delim [OF assms]
    by (auto simp: frac_part_delim [OF assms] exp_part_delim [OF assms] split: option.splits prod.splits)
qed

lemma nat_str_lead:
  assumes "nat_str n = CHR ''0'' # r"
  shows "r = []"
  using assms
proof (induction n arbitrary: r rule: nat_str.induct)
  case (1 n)
  show ?case
  proof (cases "n < 10")
    case True
    with 1(2) show ?thesis by (simp add: nat_str.simps [of n])
  next
    case False
    with 1(2) have n: "nat_str (n div 10) @ [digit_char (n mod 10)] = CHR ''0'' # r" by (simp add: nat_str.simps [of n])
    then obtain r' where r': "nat_str (n div 10) = CHR ''0'' # r'"
      by (cases "nat_str (n div 10)") auto
    with 1(1) [OF False] have "nat_str (n div 10) = [CHR ''0'']" by simp
    then have "nat_val (nat_str (n div 10)) = nat_val [CHR ''0'']" by simp
    then have "n div 10 = 0" unfolding nat_val_str by (simp add: nat_val_def digit_val_def)
    with False show ?thesis by simp
  qed
qed

lemma int_part_nat: "int_part (nat_str n) = Some (nat_str n, [])"
proof -
  obtain c r where n: "nat_str n = c # r" by (cases "nat_str n") simp_all
  have d: "takeWhile is_digit (nat_str n) = nat_str n" "dropWhile is_digit (nat_str n) = []"
    using nat_str_digits by (auto simp: takeWhile_eq_all_conv dropWhile_eq_Nil_conv)
  have "is_digit c" using nat_str_digits [of n] n by simp
  with n d nat_str_lead [of n] show ?thesis by (auto simp: int_part_def)
qed

lemma parse_number_int: "parse_number fl (int_str i) = Some (JInt i, [])"
proof -
  have h: "hd (nat_str n) \<noteq> CHR ''-''" for n by (rule nat_str_body(3))
  have e: "frac_part [] = ([], [])" "exp_part [] = ([], [])" by (simp_all add: frac_part_def exp_part_def)
  show ?thesis
    by (simp add: parse_number_def int_str_def h int_part_nat e)
qed

text \<open>The texts of floats that read back as themselves.\<close>

definition float_ok :: "(string \<Rightarrow> string) \<Rightarrow> string \<Rightarrow> bool" where
  "float_ok fl t \<longleftrightarrow> parse_number fl t = Some (JFloat t, []) \<or>
     t \<in> {''NaN'', ''Infinity'', ''-Infinity''} \<and> fl t = t"

fun json_ok :: "(string \<Rightarrow> string) \<Rightarrow> json \<Rightarrow> bool" where
  "json_ok fl (JFloat t) = float_ok fl t"
| "json_ok fl (JList vs) = list_all (json_ok fl) vs"
| "json_ok fl (JObj kvs) = (distinct (map fst kvs) \<and> list_all (\<lambda>(k, v). json_ok fl v) kvs)"
| "json_ok fl v = True"

definition hook_ok :: "'e hook \<Rightarrow> bool" where
  "hook_ok hook \<longleftrightarrow> (\<forall>kvs. distinct (map fst kvs) \<longrightarrow> hook kvs = Inr kvs)"

lemma number_start:
  assumes "parse_number fl s = Some (v, r)"
  shows "\<exists>c t. s = c # t \<and> (c = CHR ''-'' \<or> is_digit c)"
proof (cases s)
  case Nil
  with assms show ?thesis by (simp add: parse_number_def int_part_def)
next
  case (Cons c t)
  have "is_digit CHR ''0''" by (simp add: is_digit_def)
  with assms Cons show ?thesis
    by (auto simp: parse_number_def int_part_def Let_def split: option.splits if_splits list.splits)
qed

lemma not_digit: "\<not> is_digit CHR ''n''" "\<not> is_digit CHR ''t''" "\<not> is_digit CHR ''f''" "\<not> is_digit CHR ''N''"
  "\<not> is_digit CHR ''I''" "\<not> is_digit CHR 0x22" "\<not> is_digit CHR ''{''" "\<not> is_digit CHR ''[''" "\<not> is_digit CHR '']''"
  "\<not> is_digit CHR ''}''" "\<not> is_digit CHR '' ''" "\<not> is_digit CHR 0x09" "\<not> is_digit CHR 0x0A" "\<not> is_digit CHR 0x0D"
  by (simp_all add: is_digit_def)

lemma parse_scalar_number:
  assumes "parse_number fl s = Some (v, [])" and "value_end x"
  shows "parse_scalar fl (s @ x) = Inr (v, x)"
proof -
  from number_start [OF assms(1)] obtain c t where c: "s = c # t" "c = CHR ''-'' \<or> is_digit c" by blast
  have "\<not> js_starts ''null'' (s @ x)" "\<not> js_starts ''true'' (s @ x)" "\<not> js_starts ''false'' (s @ x)"
    using c not_digit(1-3) by (auto simp: js_starts_def)
  then show ?thesis using assms by (simp add: parse_scalar_def parse_number_delim)
qed

lemma parse_scalar_literal:
  "parse_scalar fl (''null'' @ x) = Inr (JNull, x)"
  "parse_scalar fl (''true'' @ x) = Inr (JBool True, x)"
  "parse_scalar fl (''false'' @ x) = Inr (JBool False, x)"
  "parse_scalar fl (''NaN'' @ x) = Inr (JFloat (fl ''NaN''), x)"
  "parse_scalar fl (''Infinity'' @ x) = Inr (JFloat (fl ''Infinity''), x)"
  "parse_scalar fl (''-Infinity'' @ x) = Inr (JFloat (fl ''-Infinity''), x)"
  by (simp_all add: parse_scalar_def js_starts_def parse_number_def int_part_def not_digit)

definition reads_value :: "(string \<Rightarrow> string) \<Rightarrow> 'e hook \<Rightarrow> json \<Rightarrow> bool" where
  "reads_value fl hook v \<longleftrightarrow> (\<forall>x. value_end x \<longrightarrow> parse_value fl hook (dumps v @ x) = Inr (v, x))"

text \<open>How a written value can begin.\<close>

definition value_start :: "char \<Rightarrow> bool" where
  "value_start c \<longleftrightarrow> is_digit c \<or> c \<in> set ''-ntfNI\"{[''"

lemma dumps_start: "json_ok fl v \<Longrightarrow> \<exists>c t. dumps v = c # t \<and> value_start c"
proof (induction v)
  case (JInt i)
  from number_start [OF parse_number_int [of fl i]] show ?case by (auto simp: value_start_def)
next
  case (JFloat t)
  then show ?case using number_start [of fl t "JFloat t" "[]"] by (auto simp: float_ok_def value_start_def)
qed (auto simp: value_start_def json_string_def)

lemma value_start_skip: "value_start c \<Longrightarrow> skip_json (c # t) = c # t"
  using not_digit by (auto simp: skip_json_def json_space_def value_start_def)

lemma dumps_skip:
  assumes "json_ok fl v"
  shows "skip_json (dumps v @ x) = dumps v @ x" and "dumps v @ x \<noteq> []"
    and "hd (dumps v @ x) \<noteq> CHR '']''" and "hd (dumps v @ x) \<noteq> CHR ''}''"
proof -
  from dumps_start [OF assms] obtain c t where "dumps v = c # t" "value_start c" by blast
  then show "skip_json (dumps v @ x) = dumps v @ x" "dumps v @ x \<noteq> []"
    "hd (dumps v @ x) \<noteq> CHR '']''" "hd (dumps v @ x) \<noteq> CHR ''}''"
    using not_digit by (auto simp: value_start_skip) (auto simp: value_start_def)
qed

lemma skip_delim: "skip_json (CHR '','' # x) = CHR '','' # x" "skip_json (CHR '']'' # x) = CHR '']'' # x"
  "skip_json (CHR ''}'' # x) = CHR ''}'' # x" "skip_json (CHR '':'' # x) = CHR '':'' # x"
  "skip_json (CHR 0x22 # x) = CHR 0x22 # x"
  by (simp_all add: skip_json_def json_space_def)

lemma read_elements:
  assumes "\<forall>v \<in> set vs. reads_value fl hook v \<and> json_ok fl v" and "vs \<noteq> []"
  shows "parse_elements fl hook (str_join '','' (map dumps vs) @ CHR '']'' # x) = Inr (vs, x)"
  using assms
proof (induction vs rule: induct_list012)
  case (2 v)
  then have "parse_value fl hook (dumps v @ CHR '']'' # x) = Inr (v, CHR '']'' # x)"
    by (simp add: reads_value_def value_end_def)
  then show ?case by (simp add: parse_elements.simps skip_delim)
next
  case (3 v w vs)
  let ?r = "str_join '','' (map dumps (w # vs)) @ CHR '']'' # x"
  have IH: "parse_elements fl hook ?r = Inr (w # vs, x)" using 3 by simp
  have "parse_value fl hook (dumps v @ CHR '','' # ?r) = Inr (v, CHR '','' # ?r)"
    using 3(3) by (simp add: reads_value_def value_end_def)
  moreover have "skip_json ?r = ?r"
    using dumps_skip(1) [of fl w] 3(3) by (cases vs) simp_all
  ultimately have "parse_elements fl hook (dumps v @ CHR '','' # ?r) = Inr (v # w # vs, x)"
    using IH by (subst parse_elements.simps) (simp add: skip_delim comma_next_def Let_def)
  then show ?case by simp
qed simp

abbreviation member_text :: "string \<times> json \<Rightarrow> string" where
  "member_text \<equiv> \<lambda>(k, v). json_string k @ CHR '':'' # dumps v"

lemma parse_key_member:
  "json_ok fl v \<Longrightarrow> parse_key (member_text (k, v) @ x) = Some (k, dumps v @ x)"
  by (simp add: parse_key_def json_string_def scan_json_string skip_delim dumps_skip(1))

lemma read_members:
  assumes "\<forall>(k, v) \<in> set kvs. reads_value fl hook v \<and> json_ok fl v" and "kvs \<noteq> []"
  shows "parse_members fl hook (str_join '','' (map member_text kvs) @ CHR ''}'' # x) = Inr (kvs, x)"
  using assms
proof (induction kvs rule: induct_list012)
  case (2 kv)
  obtain k v where kv: "kv = (k, v)" by force
  with 2 have "parse_value fl hook (dumps v @ CHR ''}'' # x) = Inr (v, CHR ''}'' # x)"
    by (simp add: reads_value_def value_end_def)
  moreover have "json_ok fl v" using 2 kv by simp
  ultimately have "parse_members fl hook (member_text (k, v) @ CHR ''}'' # x) = Inr ([(k, v)], x)"
    unfolding parse_members.simps [of fl hook "member_text (k, v) @ CHR ''}'' # x"] parse_key_member [OF \<open>json_ok fl v\<close>]
    by (simp add: skip_delim)
  with kv show ?case by simp
next
  case (3 kv kw kvs)
  obtain k v where kv: "kv = (k, v)" by force
  let ?r = "str_join '','' (map member_text (kw # kvs)) @ CHR ''}'' # x"
  have IH: "parse_members fl hook ?r = Inr (kw # kvs, x)" using 3 by simp
  have j: "json_ok fl v" using 3(3) kv by simp
  have "parse_value fl hook (dumps v @ CHR '','' # ?r) = Inr (v, CHR '','' # ?r)"
    using 3(3) kv by (simp add: reads_value_def value_end_def)
  moreover have "skip_json ?r = ?r"
    by (cases kw; cases kvs) (simp_all add: json_string_def skip_delim)
  moreover have "length ?r < length (member_text (k, v) @ CHR '','' # ?r)" by simp
  ultimately have "parse_members fl hook (member_text (k, v) @ CHR '','' # ?r) = Inr ((k, v) # kw # kvs, x)"
    unfolding parse_members.simps [of fl hook "member_text (k, v) @ CHR '','' # ?r"] parse_key_member [OF j]
    using IH by (simp add: skip_delim comma_next_def Let_def)
  with kv show ?case by simp
qed simp

lemma parse_value_scalar:
  "value_start c \<Longrightarrow> c \<noteq> CHR 0x22 \<Longrightarrow> c \<noteq> CHR ''{'' \<Longrightarrow> c \<noteq> CHR ''['' \<Longrightarrow>
   parse_value fl hook (c # t) = parse_scalar fl (c # t)"
  by (simp add: parse_value.simps)

lemma reads_all_values:
  assumes "hook_ok hook"
  shows "json_ok fl v \<Longrightarrow> reads_value fl hook v"
proof (induction v)
  case JNull
  show ?case by (simp add: reads_value_def parse_value.simps parse_scalar_literal(1) [simplified])
next
  case (JBool b)
  show ?case by (simp add: reads_value_def parse_value.simps parse_scalar_literal(2,3) [simplified])
next
  case (JInt i)
  obtain c t where c: "int_str i = c # t" "c = CHR ''-'' \<or> is_digit c"
    using number_start [OF parse_number_int [of fl i]] by blast
  then have "c \<noteq> CHR 0x22" "c \<noteq> CHR ''{''" "c \<noteq> CHR ''[''" using not_digit by auto
  then show ?case
    using c(1) by (simp add: reads_value_def parse_value.simps parse_scalar_number [OF parse_number_int [of fl i], unfolded c(1), simplified])
next
  case (JFloat f)
  show ?case
  proof (cases "parse_number fl f = Some (JFloat f, [])")
    case True
    from number_start [OF this] obtain c t where c: "f = c # t" "c = CHR ''-'' \<or> is_digit c" by blast
    then have "c \<noteq> CHR 0x22" "c \<noteq> CHR ''{''" "c \<noteq> CHR ''[''" using not_digit by auto
    then show ?thesis
      using c(1) by (simp add: reads_value_def parse_value.simps parse_scalar_number [OF True, unfolded c(1), simplified])
  next
    case False
    with JFloat have "f \<in> {''NaN'', ''Infinity'', ''-Infinity''}" "fl f = f" by (auto simp: float_ok_def)
    then show ?thesis
      by (elim insertE emptyE) (simp_all add: reads_value_def parse_value.simps parse_scalar_literal(4-6) [simplified])
  qed
next
  case (JStr s)
  show ?case by (simp add: reads_value_def parse_value.simps json_string_def scan_json_string)
next
  case (JList vs)
  show ?case
  proof (cases "vs = []")
    case True
    then show ?thesis by (simp add: reads_value_def parse_value.simps skip_delim)
  next
    case False
    have ok: "\<forall>v \<in> set vs. reads_value fl hook v \<and> json_ok fl v" using JList by (simp add: list_all_iff)
    from False obtain v vs' where v: "vs = v # vs'" by (cases vs) auto
    have s: "str_join '','' (map dumps vs) = dumps v @ (if vs' = [] then [] else CHR '','' # str_join '','' (map dumps vs'))"
      using v by (cases vs') simp_all
    have j: "json_ok fl v" using ok v by simp
    show ?thesis unfolding reads_value_def
    proof (intro allI impI)
      fix x
      let ?b = "str_join '','' (map dumps vs) @ CHR '']'' # x"
      have "skip_json ?b = ?b" "?b \<noteq> []" "hd ?b \<noteq> CHR '']''"
        unfolding s append_assoc using dumps_skip(1-3) [OF j] by blast+
      with read_elements [OF ok False, of x]
      show "parse_value fl hook (dumps (JList vs) @ x) = Inr (JList vs, x)"
        by (simp add: parse_value.simps)
    qed
  qed
next
  case (JObj kvs)
  have d: "hook kvs = Inr kvs" using assms JObj(2) by (simp add: hook_ok_def)
  show ?case
  proof (cases "kvs = []")
    case True
    with d show ?thesis by (simp add: reads_value_def parse_value.simps skip_delim run_hook_def)
  next
    case False
    have ok: "\<forall>(k, v) \<in> set kvs. reads_value fl hook v \<and> json_ok fl v"
      using JObj by (fastforce simp: list_all_iff)
    from False obtain k v kvs' where v: "kvs = (k, v) # kvs'" by (cases kvs) auto
    show ?thesis unfolding reads_value_def
    proof (intro allI impI)
      fix x
      let ?b = "str_join '','' (map member_text kvs) @ CHR ''}'' # x"
      have "skip_json ?b = ?b \<and> ?b \<noteq> [] \<and> hd ?b \<noteq> CHR ''}''"
        using v by (cases kvs') (simp_all add: json_string_def skip_delim)
      with read_members [OF ok False, of x] d
      show "parse_value fl hook (dumps (JObj kvs) @ x) = Inr (JObj kvs, x)"
        by (simp add: parse_value.simps run_hook_def)
    qed
  qed
qed

lemma loads_dumps:
  assumes "hook_ok hook" and "json_ok fl v"
  shows "json_loads fl hook (dumps v) = Inr v"
proof -
  have "parse_value fl hook (dumps v) = Inr (v, [])"
    using reads_all_values [OF assms] unfolding reads_value_def by (metis append_Nil2 value_end_def)
  moreover have "skip_json (dumps v) = dumps v" using dumps_skip(1) [OF assms(2), of "[]"] by simp
  ultimately show ?thesis by (simp add: json_loads_def skip_json_def)
qed

lemma dumps_inject:
  assumes "json_ok fl v" and "json_ok fl w" and "dumps v = dumps w"
  shows "v = w"
proof -
  have h: "hook_ok (\<lambda>kvs. Inr kvs :: unit + (string \<times> json) list)" by (simp add: hook_ok_def)
  have "Inr v = (Inr w :: unit json_error + json)"
    using loads_dumps [OF h assms(1)] loads_dumps [OF h assms(2)] assms(3) by metis
  then show ?thesis by simp
qed

lemma sort_keys_ok: "json_ok fl v \<Longrightarrow> json_ok fl (sort_keys v)"
proof (induction v)
  case (JObj kvs)
  have "distinct (map fst (sort_key fst (map (\<lambda>(k, v). (k, sort_keys v)) kvs)))"
  proof -
    have "distinct (map fst (map (\<lambda>(k, v). (k, sort_keys v)) kvs))"
      using JObj(2) by (simp add: comp_def case_prod_unfold)
    then show ?thesis unfolding distinct_map [of fst] by simp
  qed
  moreover have "list_all (\<lambda>(k, v). json_ok fl v) (sort_key fst (map (\<lambda>(k, v). (k, sort_keys v)) kvs))"
    using JObj by (fastforce simp: list_all_iff)
  ultimately show ?case by simp
qed (auto simp: list_all_iff)

lemma loads_canonical:
  "hook_ok hook \<Longrightarrow> json_ok fl v \<Longrightarrow> json_loads fl hook (canonical_json v) = Inr (sort_keys v)"
  unfolding canonical_json_def by (rule loads_dumps [OF _ sort_keys_ok])

lemma plain_hook_ok: "hook_ok plain_hook"
  by (simp add: hook_ok_def plain_hook_def)

section \<open>What is read can be written\<close>

text \<open>\<open>repr\<close> of a float is a literal that is read as that float again.\<close>

definition float_law :: "(string \<Rightarrow> string) \<Rightarrow> bool" where
  "float_law fl \<longleftrightarrow> (\<forall>t. float_ok fl (fl t))"

definition hook_sound :: "'e hook \<Rightarrow> bool" where
  "hook_sound hook \<longleftrightarrow> (\<forall>kvs d. hook kvs = Inr d \<longrightarrow> distinct (map fst d) \<and> set d \<subseteq> set kvs)"

lemma parse_scalar_ok:
  assumes "float_law fl" and "parse_scalar fl s = Inr (v, r)"
  shows "json_ok fl v"
proof -
  have f: "float_ok fl (fl t)" for t using assms(1) by (simp add: float_law_def)
  have "json_ok fl w" if "parse_number fl s = Some (w, r')" for w r'
    using that f by (auto simp: parse_number_def Let_def split: option.splits prod.splits if_splits)
  with assms(2) f show ?thesis by (auto simp: parse_scalar_def split: option.splits if_splits)
qed

lemma run_hook_ok:
  "hook_sound hook \<Longrightarrow> list_all (\<lambda>(k, v). json_ok fl v) kvs \<Longrightarrow> run_hook hook kvs r = Inr (v, r') \<Longrightarrow> json_ok fl v"
  by (fastforce simp: run_hook_Inr hook_sound_def list_all_iff)

lemma parse_ok:
  assumes "float_law fl" and "hook_sound hook"
  shows "parse_value fl hook s = Inr (v, r) \<Longrightarrow> json_ok fl v"
    and "parse_elements fl hook s = Inr (vs, r) \<Longrightarrow> list_all (json_ok fl) vs"
    and "parse_members fl hook s = Inr (kvs, r) \<Longrightarrow> list_all (\<lambda>(k, v). json_ok fl v) kvs"
  using assms
proof (induction fl hook s and fl hook s and fl hook s arbitrary: v r and vs r and kvs r
    rule: parse_value_parse_elements_parse_members.induct)
  case (1 fl hook s)
  show ?case
  proof (cases s)
    case Nil
    with 1(3) show ?thesis by (simp add: parse_value.simps)
  next
    case (Cons c t)
    let ?b = "skip_json t"
    note p = 1(3) [unfolded Cons, unfolded parse_value.simps [of fl hook "c # t"] list.case]
    consider "c = CHR 0x22" | "c \<noteq> CHR 0x22" "c = CHR ''{''" | "c \<noteq> CHR 0x22" "c \<noteq> CHR ''{''" "c = CHR ''[''"
      | "c \<noteq> CHR 0x22" "c \<noteq> CHR ''{''" "c \<noteq> CHR ''[''" by blast
    then show ?thesis
    proof cases
      case 1
      with p show ?thesis by (auto split: option.splits)
    next
      case 2
      show ?thesis
      proof (cases "?b \<noteq> [] \<and> hd ?b = CHR ''}''")
        case True
        with p 2 have "run_hook hook [] (tl ?b) = Inr (v, r)" by (simp add: Let_def)
        from run_hook_ok [OF 1(5) _ this, of fl] show ?thesis by simp
      next
        case False
        with p 2 obtain kvs r' where m: "parse_members fl hook ?b = Inr (kvs, r')" "run_hook hook kvs r' = Inr (v, r)"
          by (auto simp: Let_def res_bind_Inr_iff split: if_splits)
        from run_hook_ok [OF 1(5) 1(1) [OF Cons 2 HOL.refl False m(1) 1(4,5)] m(2)] show ?thesis .
      qed
    next
      case 3
      show ?thesis
      proof (cases "?b \<noteq> [] \<and> hd ?b = CHR '']''")
        case True
        with p 3 show ?thesis by (auto simp: Let_def)
      next
        case False
        with p 3 obtain vs r' where "parse_elements fl hook ?b = Inr (vs, r')" "v = JList vs"
          by (auto simp: Let_def res_bind_Inr_iff split: if_splits)
        with 1(2) [OF Cons 3 HOL.refl False _ 1(4,5)] show ?thesis by simp
      qed
    next
      case 4
      show ?thesis by (rule parse_scalar_ok [OF 1(4)]) (use p 4 in simp)
    qed
  qed
next
  case (2 fl hook s)
  from 2(3) obtain v r' where v: "parse_value fl hook s = Inr (v, r')"
    by (auto simp: parse_elements.simps res_bind_Inr_iff)
  note v' = 2(1) [OF v 2(4,5)]
  show ?case
  proof (cases "skip_json r' \<noteq> [] \<and> hd (skip_json r') = CHR '']''")
    case True
    with 2(3) v have "vs = [v]" by (subst (asm) parse_elements.simps) (auto simp: Let_def)
    with v' show ?thesis by simp
  next
    case False
    with 2(3) v obtain vs' where d: "comma_next (skip_json r')" "length (skip_json (tl (skip_json r'))) < length s"
      "parse_elements fl hook (skip_json (tl (skip_json r'))) = Inr (vs', r)" "vs = v # vs'"
      by (subst (asm) parse_elements.simps) (auto simp: Let_def res_bind_Inr_iff split: if_splits)
    from 2(2) [OF v HOL.refl HOL.refl False d(1) HOL.refl d(2,3) 2(4,5)] d(4) v' show ?thesis by simp
  qed
next
  case (3 fl hook s)
  from 3(3) obtain k t v r' where k: "parse_key s = Some (k, t)" and v: "parse_value fl hook t = Inr (v, r')"
    by (auto simp: parse_members.simps [of fl hook s] res_bind_Inr_iff split: option.splits)
  note v' = 3(1) [OF k HOL.refl v 3(4,5)]
  show ?case
  proof (cases "skip_json r' \<noteq> [] \<and> hd (skip_json r') = CHR ''}''")
    case True
    with 3(3) k v have "kvs = [(k, v)]" by (subst (asm) parse_members.simps) (auto simp: Let_def)
    with v' show ?thesis by simp
  next
    case False
    with 3(3) k v obtain kvs' where d: "comma_next (skip_json r')" "length (skip_json (tl (skip_json r'))) < length s"
      "parse_members fl hook (skip_json (tl (skip_json r'))) = Inr (kvs', r)" "kvs = (k, v) # kvs'"
      by (subst (asm) parse_members.simps) (auto simp: Let_def res_bind_Inr_iff split: if_splits)
    from 3(2) [OF k HOL.refl v HOL.refl HOL.refl False d(1) HOL.refl d(2,3) 3(4,5)] d(4) v' show ?thesis by simp
  qed
qed

lemma json_loads_ok:
  "float_law fl \<Longrightarrow> hook_sound hook \<Longrightarrow> json_loads fl hook s = Inr v \<Longrightarrow> json_ok fl v"
  by (auto simp: json_loads_def res_bind_Inr_iff split: if_splits intro: parse_ok(1))

lemma sort_keys_idem: "sort_keys (sort_keys v) = sort_keys v"
proof (induction v)
  case (JList vs)
  then show ?case by simp
next
  case (JObj kvs)
  let ?m = "map (\<lambda>(k, v). (k, sort_keys v))"
  let ?s = "sort_key fst (?m kvs)"
  have "\<forall>x \<in> set ?s. (\<lambda>(k, v). (k, sort_keys v)) x = x" using JObj by fastforce
  then have "?m ?s = ?s" by (intro map_idI) blast
  then show ?case by (simp add: sort_key_id_if_sorted)
qed simp_all

lemma canonical_sorted: "canonical_json (sort_keys v) = canonical_json v"
  by (simp add: canonical_json_def sort_keys_idem)

section \<open>Members of an object\<close>

text \<open>\<open>value.get(key)\<close>: a missing member reads as \<open>None\<close>, like \<open>null\<close>.\<close>

definition item :: "(string \<times> json) list \<Rightarrow> string \<Rightarrow> json" where
  "item kvs k = dict_get_or kvs k JNull"

definition sort_members :: "(string \<times> json) list \<Rightarrow> (string \<times> json) list" where
  "sort_members kvs = sort_key fst (map (\<lambda>(k, v). (k, sort_keys v)) kvs)"

lemma sort_keys_JObj: "sort_keys (JObj kvs) = JObj (sort_members kvs)"
  by (simp add: sort_members_def)

lemma map_of_sort_key: "distinct (map fst kvs) \<Longrightarrow> map_of (sort_key fst kvs) = map_of kvs"
  by (rule map_of_inject_set [THEN iffD2]) (simp_all add: distinct_map)

lemma item_sorted:
  assumes "distinct (map fst kvs)"
  shows "item (sort_members kvs) k = sort_keys (item kvs k)"
proof -
  have d: "distinct (map fst (map (\<lambda>(k, v). (k, sort_keys v)) kvs))"
    using assms by (simp add: comp_def case_prod_unfold)
  have "map_of (map (\<lambda>(k, v). (k, sort_keys v)) kvs) k = map_option sort_keys (map_of kvs k)" by (simp add: map_of_map)
  then show ?thesis
    unfolding item_def sort_members_def dict_get_or_def map_of_sort_key [OF d] by (cases "map_of kvs k") simp_all
qed

lemma sort_members_keys: "set (dict_keys (sort_members kvs)) = set (dict_keys kvs)"
  unfolding sort_members_def by force

section \<open>ASCII texts\<close>

definition all_ascii :: "string \<Rightarrow> bool" where
  "all_ascii s \<longleftrightarrow> list_all (\<lambda>c. \<not> digit7 c) s"

lemma ascii_code: "\<not> digit7 c \<Longrightarrow> of_char c < (128 :: nat)"
proof -
  assume "\<not> digit7 c"
  then obtain b0 b1 b2 b3 b4 b5 b6 where c: "c = Char b0 b1 b2 b3 b4 b5 b6 False" by (cases c) auto
  show ?thesis unfolding c by (simp add: of_char_Char)
qed

lemma ascii_utf8: "all_ascii s \<Longrightarrow> utf8_valid s"
  by (induction s) (auto simp: all_ascii_def utf8_valid.simps Let_def dest!: ascii_code)

fun json_ascii :: "json \<Rightarrow> bool" where
  "json_ascii (JFloat t) = all_ascii t"
| "json_ascii (JStr s) = all_ascii s"
| "json_ascii (JList vs) = list_all json_ascii vs"
| "json_ascii (JObj kvs) = list_all (\<lambda>(k, v). all_ascii k \<and> json_ascii v) kvs"
| "json_ascii v = True"

lemma ascii_append [simp]: "all_ascii (s @ t) \<longleftrightarrow> all_ascii s \<and> all_ascii t"
  by (simp add: all_ascii_def)

lemma ascii_Cons [simp]: "all_ascii (c # t) \<longleftrightarrow> \<not> digit7 c \<and> all_ascii t" "all_ascii []"
  by (simp_all add: all_ascii_def)

lemma code_ascii: "of_char c < (128 :: nat) \<Longrightarrow> \<not> digit7 c"
proof
  assume l: "of_char c < (128 :: nat)" and "digit7 c"
  then obtain b0 b1 b2 b3 b4 b5 b6 where c: "c = Char b0 b1 b2 b3 b4 b5 b6 True" by (cases c) auto
  from l show False unfolding c by (simp add: of_char_Char)
qed

lemma hex_byte_ascii: "all_ascii (hex_byte c)"
proof -
  have "\<not> digit7 (hex_digit n)" if "n < 16" for n
    by (rule code_ascii) (use that in \<open>simp add: hex_digit_def\<close>)
  then show ?thesis by (simp add: hex_byte_def)
qed

lemma js_char_ascii: "\<not> digit7 c \<Longrightarrow> all_ascii (js_char c)"
  by (simp add: js_char_def hex_byte_ascii)

lemma json_string_ascii: "all_ascii s \<Longrightarrow> all_ascii (json_string s)"
proof -
  assume "all_ascii s"
  then have "all_ascii (concat (map js_char s))" by (induction s) (simp_all add: js_char_ascii)
  then show ?thesis by (simp add: json_string_def)
qed

lemma int_str_ascii: "all_ascii (int_str i)"
proof -
  have "all_ascii (nat_str n)" for n
    using nat_str_digits [of n] by (auto simp: all_ascii_def list_all_iff is_digit_def intro!: code_ascii)
  then show ?thesis by (simp add: int_str_def)
qed

lemma str_join_ascii: "list_all all_ascii ss \<Longrightarrow> all_ascii (str_join '','' ss)"
  by (induction "'',''" ss rule: str_join.induct) simp_all

lemma dumps_ascii: "json_ascii v \<Longrightarrow> all_ascii (dumps v)"
proof (induction v)
  case (JList vs)
  then have "all_ascii (str_join '','' (map dumps vs))" by (intro str_join_ascii) (simp add: list_all_iff)
  then show ?case by simp
next
  case (JObj kvs)
  have "all_ascii (str_join '','' (map (\<lambda>(k, v). json_string k @ CHR '':'' # dumps v) kvs))"
    using JObj by (intro str_join_ascii) (fastforce simp: list_all_iff json_string_ascii)
  then show ?case by simp
qed (simp_all add: json_string_ascii int_str_ascii)

lemma canonical_ascii: "json_ascii (sort_keys v) \<Longrightarrow> utf8_valid (canonical_json v)"
  unfolding canonical_json_def by (intro ascii_utf8 dumps_ascii)

end
