(* ===== verification/Lean_Closure.thy ===== *)
theory Lean_Closure
  imports Json_Text
begin

text \<open>
  Lean declaration closures (\<open>poo_flow_proof/lean_declaration_closure.py\<close>): the records that
  \<open>from_mapping\<close> builds from the JSON of the exporter, the checks of \<open>__post_init__\<close>, the canonical
  manifest and its digest, and the order of the owner modules. A \<open>bool\<close> is an \<open>int\<close> in Python, so
  a source position may be one. SHA-256 and the message of a \<open>JSONDecodeError\<close> are parameters.
\<close>

section \<open>Data\<close>

datatype closure_error =
    LeanClosureError string string
  | ClosureEncodeError
  | ClosureKeyError string

type_synonym 'a cresult = "closure_error + 'a"

abbreviation closure_err :: "string \<Rightarrow> string \<Rightarrow> 'a cresult" where
  "closure_err code detail \<equiv> Inl (LeanClosureError code detail)"

datatype py_int = PyInt int | PyBool bool

fun int_of :: "py_int \<Rightarrow> int" where
  "int_of (PyInt i) = i"
| "int_of (PyBool b) = (if b then 1 else 0)"

fun json_of_int :: "py_int \<Rightarrow> json" where
  "json_of_int (PyInt i) = JInt i"
| "json_of_int (PyBool b) = JBool b"

record source_range =
  sr_start_line :: py_int
  sr_start_column :: py_int
  sr_start_char :: py_int
  sr_end_line :: py_int
  sr_end_column :: py_int
  sr_end_char :: py_int

record lean_declaration =
  ld_name :: string
  ld_kind :: string
  ld_owner :: string
  ld_dependencies :: "string list"
  ld_range :: "source_range option"

record interface_declaration =
  li_name :: string
  li_role :: string
  li_levels :: "string list"
  li_type :: string
  li_value :: "string option"

record lean_closure =
  lc_lean_version :: string
  lc_root_module :: string
  lc_root_declarations :: "string list"
  lc_base_imports :: "string list"
  lc_proof_base_imports :: "string list"
  lc_interface :: "interface_declaration list"
  lc_owner_modules :: "string list"
  lc_declarations :: "lean_declaration list"
  lc_schema_id :: string

definition CLOSURE_SCHEMA :: string where
  "CLOSURE_SCHEMA = ''poo-flow.lean-declaration-closure.v1''"

section \<open>Reading\<close>

definition require_string :: "json \<Rightarrow> string \<Rightarrow> string cresult" where
  "require_string v f =
     (case v of JStr s \<Rightarrow> if s = [] then closure_err ''invalid-field'' f else Inr s
      | _ \<Rightarrow> closure_err ''invalid-field'' f)"

fun nonempty_string :: "json \<Rightarrow> string option" where
  "nonempty_string (JStr s) = (if s = [] then None else Some s)"
| "nonempty_string _ = None"

definition require_string_tuple :: "json \<Rightarrow> string \<Rightarrow> string list cresult" where
  "require_string_tuple v f =
     (case v of
        JList vs \<Rightarrow> (case those (map nonempty_string vs) of Some ss \<Rightarrow> Inr ss | None \<Rightarrow> closure_err ''invalid-field'' f)
      | _ \<Rightarrow> closure_err ''invalid-field'' f)"

definition require_mapping_list :: "json \<Rightarrow> string \<Rightarrow> json list cresult" where
  "require_mapping_list v f = (case v of JList vs \<Rightarrow> Inr vs | _ \<Rightarrow> closure_err ''invalid-field'' f)"

definition position :: "(string \<times> json) list \<Rightarrow> string \<Rightarrow> py_int cresult" where
  "position kvs f =
     (case item kvs f of
        JInt i \<Rightarrow> if i < 0 then closure_err ''invalid-source-range'' f else Inr (PyInt i)
      | JBool b \<Rightarrow> Inr (PyBool b)
      | _ \<Rightarrow> closure_err ''invalid-source-range'' f)"

definition source_range_from_mapping :: "json \<Rightarrow> source_range cresult" where
  "source_range_from_mapping v =
     (case v of
        JObj kvs \<Rightarrow>
          res_bind (position kvs ''start_line'') (\<lambda>sl.
          res_bind (position kvs ''start_column'') (\<lambda>sc.
          res_bind (position kvs ''start_char_utf16'') (\<lambda>su.
          res_bind (position kvs ''end_line'') (\<lambda>el.
          res_bind (position kvs ''end_column'') (\<lambda>ec.
          res_bind (position kvs ''end_char_utf16'') (\<lambda>eu.
          if int_of sl = 0 \<or> int_of el = 0 then closure_err ''invalid-source-range'' ''line numbers are 1-based''
          else if int_of el < int_of sl \<or> int_of el = int_of sl \<and> int_of eu < int_of su
          then closure_err ''invalid-source-range'' ''end precedes start''
          else Inr \<lparr>sr_start_line = sl, sr_start_column = sc, sr_start_char = su,
                    sr_end_line = el, sr_end_column = ec, sr_end_char = eu\<rparr>))))))
      | _ \<Rightarrow> closure_err ''invalid-source-range'' ''expected object'')"

definition declaration_from_mapping :: "json \<Rightarrow> lean_declaration cresult" where
  "declaration_from_mapping v =
     (case v of
        JObj kvs \<Rightarrow>
          res_bind (require_string (item kvs ''name'') ''declaration.name'') (\<lambda>name.
          res_bind (require_string (item kvs ''kind'') ''declaration.kind'') (\<lambda>kind.
          res_bind (require_string (item kvs ''owner_module'') ''declaration.owner_module'') (\<lambda>owner.
          res_bind (require_string_tuple (item kvs ''local_dependencies'') ''declaration.local_dependencies'') (\<lambda>deps.
          res_bind (if item kvs ''source_range'' = JNull then Inr None
                    else res_bind (source_range_from_mapping (item kvs ''source_range'')) (\<lambda>r. Inr (Some r))) (\<lambda>range.
          Inr \<lparr>ld_name = name, ld_kind = kind, ld_owner = owner, ld_dependencies = deps, ld_range = range\<rparr>)))))
      | _ \<Rightarrow> closure_err ''invalid-declaration'' ''expected object'')"

definition INTERFACE_ROLES :: "string list" where
  "INTERFACE_ROLES = [''abbrev'', ''axiom'', ''definition'', ''instance'']"

definition interface_from_mapping :: "json \<Rightarrow> interface_declaration cresult" where
  "interface_from_mapping v =
     (case v of
        JObj kvs \<Rightarrow>
          res_bind (if item kvs ''value_source'' = JNull then Inr None
                    else case nonempty_string (item kvs ''value_source'') of
                           Some s \<Rightarrow> Inr (Some s)
                         | None \<Rightarrow> closure_err ''invalid-field'' ''proof_base_interface.value_source'') (\<lambda>val.
          res_bind (require_string (item kvs ''declaration_role'') ''proof_base_interface.declaration_role'') (\<lambda>role.
          if role \<notin> set INTERFACE_ROLES then closure_err ''invalid-field'' ''proof_base_interface.declaration_role''
          else
          res_bind (require_string (item kvs ''name'') ''proof_base_interface.name'') (\<lambda>name.
          res_bind (require_string_tuple (item kvs ''level_params'') ''proof_base_interface.level_params'') (\<lambda>levels.
          res_bind (require_string (item kvs ''type_source'') ''proof_base_interface.type_source'') (\<lambda>type.
          Inr \<lparr>li_name = name, li_role = role, li_levels = levels, li_type = type, li_value = val\<rparr>)))))
      | _ \<Rightarrow> closure_err ''invalid-proof-base-interface-declaration'' ''expected object'')"

section \<open>The checks of a closure\<close>

text \<open>The names emitted so far, in reverse, and the declarations that follow.\<close>

fun check_declarations :: "string list \<Rightarrow> lean_declaration list \<Rightarrow> string list cresult" where
  "check_declarations emitted [] = Inr emitted"
| "check_declarations emitted (d # ds) =
     (if ld_name d \<in> set emitted then closure_err ''duplicate-declaration'' (ld_name d)
      else let missing = filter (\<lambda>x. x \<notin> set emitted) (ld_dependencies d) in
        if missing \<noteq> []
        then closure_err ''non-topological-declaration'' (ld_name d @ '': '' @ str_join '','' missing)
        else check_declarations (ld_name d # emitted) ds)"

definition check_closure :: "lean_closure \<Rightarrow> lean_closure cresult" where
  "check_closure c =
     (if lc_schema_id c \<noteq> CLOSURE_SCHEMA then closure_err ''unsupported-schema'' (lc_schema_id c)
      else if lc_lean_version c = [] then closure_err ''invalid-field'' ''lean_version''
      else if lc_root_module c = [] then closure_err ''invalid-field'' ''root_module''
      else if lc_root_declarations c = [] then closure_err ''missing-root-declaration'' (lc_root_module c)
      else if \<not> distinct (lc_root_declarations c) then closure_err ''duplicate-root-declaration'' (lc_root_module c)
      else if lc_base_imports c = [] then closure_err ''missing-base-import'' (lc_root_module c)
      else if \<not> distinct (lc_proof_base_imports c) then closure_err ''duplicate-proof-base-import'' (lc_root_module c)
      else if \<not> distinct (map li_name (lc_interface c))
      then closure_err ''duplicate-proof-base-interface-declaration'' (lc_root_module c)
      else if sort (remdups (lc_owner_modules c)) \<noteq> lc_owner_modules c
      then closure_err ''non-canonical-owner-modules'' (lc_root_module c)
      else res_bind (check_declarations [] (lc_declarations c)) (\<lambda>emitted.
        let missing = filter (\<lambda>x. x \<notin> set emitted) (lc_root_declarations c) in
        if missing \<noteq> [] then closure_err ''root-outside-closure'' (str_join '','' missing)
        else if set (map ld_owner (lc_declarations c)) \<noteq> set (lc_owner_modules c)
        then closure_err ''owner-module-mismatch'' (lc_root_module c)
        else Inr c))"

definition closure_from_mapping :: "json \<Rightarrow> lean_closure cresult" where
  "closure_from_mapping v =
     (case v of
        JObj kvs \<Rightarrow>
          res_bind (require_mapping_list (item kvs ''declarations'') ''declarations'') (\<lambda>decls.
          res_bind (require_string (item kvs ''schema_id'') ''schema_id'') (\<lambda>schema.
          res_bind (require_string (item kvs ''lean_version'') ''lean_version'') (\<lambda>version.
          res_bind (require_string (item kvs ''root_module'') ''root_module'') (\<lambda>root.
          res_bind (require_string_tuple (item kvs ''root_declarations'') ''root_declarations'') (\<lambda>roots.
          res_bind (require_string_tuple (item kvs ''base_imports'') ''base_imports'') (\<lambda>base.
          res_bind (require_string_tuple (item kvs ''proof_base_imports'') ''proof_base_imports'') (\<lambda>pbase.
          res_bind (require_mapping_list (item kvs ''proof_base_interface'') ''proof_base_interface'') (\<lambda>is.
          res_bind (res_map interface_from_mapping is) (\<lambda>interface.
          res_bind (require_string_tuple (item kvs ''owner_modules'') ''owner_modules'') (\<lambda>owners.
          res_bind (res_map declaration_from_mapping decls) (\<lambda>declarations.
          check_closure \<lparr>lc_lean_version = version, lc_root_module = root, lc_root_declarations = roots,
            lc_base_imports = base, lc_proof_base_imports = pbase, lc_interface = interface,
            lc_owner_modules = owners, lc_declarations = declarations, lc_schema_id = schema\<rparr>)))))))))))
      | _ \<Rightarrow> closure_err ''invalid-receipt'' ''expected object'')"

definition closure_from_json ::
  "(string \<Rightarrow> string) \<Rightarrow> (string \<Rightarrow> string) \<Rightarrow> string \<Rightarrow> lean_closure cresult" where
  "closure_from_json fl decode_message source =
     (case json_loads fl (plain_hook :: unit hook) source of
        Inl _ \<Rightarrow> closure_err ''invalid-json'' (decode_message source)
      | Inr v \<Rightarrow> closure_from_mapping v)"

section \<open>The canonical manifest\<close>

abbreviation json_strings :: "string list \<Rightarrow> json" where
  "json_strings ss \<equiv> JList (map JStr ss)"

definition range_record :: "source_range \<Rightarrow> json" where
  "range_record r = JObj
     [(''start_line'', json_of_int (sr_start_line r)), (''start_column'', json_of_int (sr_start_column r)),
      (''start_char_utf16'', json_of_int (sr_start_char r)), (''end_line'', json_of_int (sr_end_line r)),
      (''end_column'', json_of_int (sr_end_column r)), (''end_char_utf16'', json_of_int (sr_end_char r))]"

definition declaration_record :: "lean_declaration \<Rightarrow> json" where
  "declaration_record d = JObj
     ([(''kind'', JStr (ld_kind d)), (''local_dependencies'', json_strings (ld_dependencies d)),
       (''name'', JStr (ld_name d)), (''owner_module'', JStr (ld_owner d))] @
      (case ld_range d of None \<Rightarrow> [] | Some r \<Rightarrow> [(''source_range'', range_record r)]))"

definition interface_record :: "interface_declaration \<Rightarrow> json" where
  "interface_record i = JObj
     [(''declaration_role'', JStr (li_role i)), (''level_params'', json_strings (li_levels i)),
      (''name'', JStr (li_name i)), (''type_source'', JStr (li_type i)),
      (''value_source'', case li_value i of None \<Rightarrow> JNull | Some s \<Rightarrow> JStr s)]"

definition canonical_manifest :: "lean_closure \<Rightarrow> json" where
  "canonical_manifest c = JObj
     [(''base_imports'', json_strings (lc_base_imports c)),
      (''declarations'', JList (map declaration_record (lc_declarations c))),
      (''lean_version'', JStr (lc_lean_version c)),
      (''owner_modules'', json_strings (lc_owner_modules c)),
      (''proof_base_imports'', json_strings (lc_proof_base_imports c)),
      (''proof_base_interface'', JList (map interface_record (lc_interface c))),
      (''root_declarations'', json_strings (lc_root_declarations c)),
      (''root_module'', JStr (lc_root_module c)),
      (''schema_id'', JStr (lc_schema_id c))]"

definition closure_digest :: "(bytes \<Rightarrow> bytes) \<Rightarrow> lean_closure \<Rightarrow> string cresult" where
  "closure_digest sha c =
     (let t = canonical_json (canonical_manifest c) in
      if utf8_valid t then Inr (''sha256:'' @ hex (sha t)) else Inl ClosureEncodeError)"

section \<open>The order of the owner modules\<close>

text \<open>The modules that a declaration's dependencies make its own module depend on, in order.\<close>

fun owner_dependencies ::
  "string pydict \<Rightarrow> string \<Rightarrow> string list \<Rightarrow> string list pydict \<Rightarrow> string list pydict cresult" where
  "owner_dependencies owners m [] deps = Inr deps"
| "owner_dependencies owners m (x # xs) deps =
     (case dict_get owners x of
        None \<Rightarrow> Inl (ClosureKeyError x)
      | Some o1 \<Rightarrow>
          if o1 = m then owner_dependencies owners m xs deps
          else (case dict_get deps m of
                  None \<Rightarrow> Inl (ClosureKeyError m)
                | Some os \<Rightarrow> owner_dependencies owners m xs (dict_set m (List.insert o1 os) deps)))"

fun all_owner_dependencies ::
  "string pydict \<Rightarrow> lean_declaration list \<Rightarrow> string list pydict \<Rightarrow> string list pydict cresult" where
  "all_owner_dependencies owners [] deps = Inr deps"
| "all_owner_dependencies owners (d # ds) deps =
     res_bind (owner_dependencies owners (ld_owner d) (ld_dependencies d) deps) (all_owner_dependencies owners ds)"

definition ready_owners :: "string list pydict \<Rightarrow> string list \<Rightarrow> string list" where
  "ready_owners deps emitted =
     sort (map fst (filter (\<lambda>(o1, os). o1 \<notin> set emitted \<and> set os \<subseteq> set emitted) deps))"

function owner_loop :: "string list pydict \<Rightarrow> string list \<Rightarrow> string list cresult" where
  "owner_loop deps result =
     (if length result < length deps
      then let ready = ready_owners deps result in
        if ready = []
        then closure_err ''owner-module-cycle'' (str_join '','' (sort (filter (\<lambda>x. x \<notin> set result) (dict_keys deps))))
        else owner_loop deps (result @ ready)
      else Inr result)"
  by pat_completeness auto
termination
  by (relation "measure (\<lambda>(deps, result). length deps - length result)") (auto simp: length_greater_0_conv [symmetric] simp del: length_greater_0_conv)

declare owner_loop.simps [simp del]

definition owner_modules_in_dependency_order :: "lean_closure \<Rightarrow> string list cresult" where
  "owner_modules_in_dependency_order c =
     res_bind (all_owner_dependencies (dict_of (map (\<lambda>d. (ld_name d, ld_owner d)) (lc_declarations c)))
                 (lc_declarations c) (dict_of (map (\<lambda>m. (m, [])) (lc_owner_modules c)))) (\<lambda>deps.
     owner_loop deps [])"

end
