(* ===== verification/Lean_Closure_Props.thy ===== *)
theory Lean_Closure_Props
  imports Lean_Closure
begin

text \<open>
  Properties of declaration closures: what a closure that was read satisfies, that its canonical
  text reads back as itself, and what the order of its owner modules means.
\<close>

section \<open>Well-typed closures\<close>

definition range_ok :: "source_range \<Rightarrow> bool" where
  "range_ok r \<longleftrightarrow> 0 < int_of (sr_start_line r) \<and> 0 \<le> int_of (sr_start_column r) \<and> 0 \<le> int_of (sr_start_char r) \<and>
     0 < int_of (sr_end_line r) \<and> 0 \<le> int_of (sr_end_column r) \<and> 0 \<le> int_of (sr_end_char r) \<and>
     (int_of (sr_start_line r), int_of (sr_start_char r)) \<le> (int_of (sr_end_line r), int_of (sr_end_char r))"

definition declaration_ok :: "lean_declaration \<Rightarrow> bool" where
  "declaration_ok d \<longleftrightarrow> ld_name d \<noteq> [] \<and> ld_kind d \<noteq> [] \<and> ld_owner d \<noteq> [] \<and> [] \<notin> set (ld_dependencies d) \<and>
     (case ld_range d of None \<Rightarrow> True | Some r \<Rightarrow> range_ok r)"

definition interface_ok :: "interface_declaration \<Rightarrow> bool" where
  "interface_ok i \<longleftrightarrow> li_name i \<noteq> [] \<and> li_role i \<in> set INTERFACE_ROLES \<and> [] \<notin> set (li_levels i) \<and>
     li_type i \<noteq> [] \<and> li_value i \<noteq> Some []"

definition fields_ok :: "lean_closure \<Rightarrow> bool" where
  "fields_ok c \<longleftrightarrow> list_all declaration_ok (lc_declarations c) \<and> list_all interface_ok (lc_interface c) \<and>
     [] \<notin> set (lc_root_declarations c) \<and> [] \<notin> set (lc_base_imports c) \<and> [] \<notin> set (lc_proof_base_imports c) \<and>
     [] \<notin> set (lc_owner_modules c)"

definition closure_ok :: "lean_closure \<Rightarrow> bool" where
  "closure_ok c \<longleftrightarrow> lc_schema_id c = CLOSURE_SCHEMA \<and> lc_lean_version c \<noteq> [] \<and> lc_root_module c \<noteq> [] \<and>
     lc_root_declarations c \<noteq> [] \<and> distinct (lc_root_declarations c) \<and> lc_base_imports c \<noteq> [] \<and>
     distinct (lc_proof_base_imports c) \<and> distinct (map li_name (lc_interface c)) \<and>
     sorted (lc_owner_modules c) \<and> distinct (lc_owner_modules c) \<and>
     distinct (map ld_name (lc_declarations c)) \<and>
     (\<forall>xs d ys. lc_declarations c = xs @ d # ys \<longrightarrow> set (ld_dependencies d) \<subseteq> ld_name ` set xs) \<and>
     set (lc_root_declarations c) \<subseteq> ld_name ` set (lc_declarations c) \<and>
     set (lc_owner_modules c) = ld_owner ` set (lc_declarations c)"

lemma require_string_Inr: "require_string v f = Inr s \<longleftrightarrow> v = JStr s \<and> s \<noteq> []"
  by (auto simp: require_string_def split: json.splits)

lemma nonempty_string_Some: "nonempty_string v = Some s \<longleftrightarrow> v = JStr s \<and> s \<noteq> []"
  by (cases v) auto

lemma those_strings: "those (map nonempty_string vs) = Some ss \<longleftrightarrow> vs = map JStr ss \<and> [] \<notin> set ss"
proof (induction vs arbitrary: ss)
  case (Cons v vs)
  show ?case
    by (cases "nonempty_string v"; cases ss) (auto simp: nonempty_string_Some Cons, metis nonempty_string_Some option.distinct(1))
qed auto

lemma require_string_tuple_Inr: "require_string_tuple v f = Inr ss \<longleftrightarrow> v = json_strings ss \<and> [] \<notin> set ss"
proof (cases v)
  case (JList vs)
  have "require_string_tuple v f = Inr ss \<longleftrightarrow> those (map nonempty_string vs) = Some ss"
    using JList by (cases "those (map nonempty_string vs)") (simp_all add: require_string_tuple_def)
  with JList show ?thesis by (simp add: those_strings)
qed (simp_all add: require_string_tuple_def)

lemma require_mapping_list_Inr: "require_mapping_list v f = Inr vs \<longleftrightarrow> v = JList vs"
  by (auto simp: require_mapping_list_def split: json.splits)

lemma position_Inr: "position kvs f = Inr p \<longleftrightarrow> item kvs f = json_of_int p \<and> 0 \<le> int_of p"
  by (cases p) (auto simp: position_def split: json.splits)

lemmas require_Inr = require_string_Inr require_string_tuple_Inr require_mapping_list_Inr position_Inr

lemma check_declarations_iff:
  "check_declarations emitted ds = Inr e \<longleftrightarrow>
     e = rev (map ld_name ds) @ emitted \<and> distinct (map ld_name ds) \<and> set emitted \<inter> ld_name ` set ds = {} \<and>
     (\<forall>xs d ys. ds = xs @ d # ys \<longrightarrow> set (ld_dependencies d) \<subseteq> set emitted \<union> ld_name ` set xs)"
proof (induction emitted ds arbitrary: e rule: check_declarations.induct)
  case (2 emitted d ds)
  have split: "(\<forall>xs a ys. d # ds = xs @ a # ys \<longrightarrow> P a xs) \<longleftrightarrow>
      P d [] \<and> (\<forall>xs a ys. ds = xs @ a # ys \<longrightarrow> P a (d # xs))" for P :: "lean_declaration \<Rightarrow> lean_declaration list \<Rightarrow> bool"
    by (auto simp: Cons_eq_append_conv)
  show ?case
  proof (cases "ld_name d \<in> set emitted \<or> \<not> set (ld_dependencies d) \<subseteq> set emitted")
    case True
    then show ?thesis unfolding split by (auto simp: Let_def filter_empty_conv)
  next
    case False
    then have f: "filter (\<lambda>x. x \<notin> set emitted) (ld_dependencies d) = []" by (auto simp: filter_empty_conv)
    have "check_declarations emitted (d # ds) = check_declarations (ld_name d # emitted) ds"
      using False f by simp
    also have "\<dots> = Inr e \<longleftrightarrow> e = rev (map ld_name ds) @ ld_name d # emitted \<and> distinct (map ld_name ds) \<and>
        set (ld_name d # emitted) \<inter> ld_name ` set ds = {} \<and>
        (\<forall>xs a ys. ds = xs @ a # ys \<longrightarrow> set (ld_dependencies a) \<subseteq> set (ld_name d # emitted) \<union> ld_name ` set xs)"
      by (rule 2) (use False f in auto)
    finally show ?thesis unfolding split using False by auto
  qed
qed auto

lemma check_closure_iff: "check_closure c = Inr c' \<longleftrightarrow> c' = c \<and> closure_ok c"
proof -
  have s: "sort (remdups xs) = xs \<longleftrightarrow> sorted xs \<and> distinct xs" for xs :: "string list"
    by (metis distinct_remdups distinct_remdups_id distinct_sort sorted_sort sorted_sort_id)
  show ?thesis
    unfolding check_closure_def closure_ok_def
    by (auto simp: res_bind_Inr_iff check_declarations_iff s Let_def filter_empty_conv split: if_splits)
qed

lemma source_range_Inr:
  "source_range_from_mapping v = Inr r \<Longrightarrow> range_ok r"
  by (auto simp: source_range_from_mapping_def range_ok_def res_bind_Inr_iff require_Inr less_eq_prod_def split: json.splits if_splits)

lemma declaration_Inr: "declaration_from_mapping v = Inr d \<Longrightarrow> declaration_ok d"
  by (auto simp: declaration_from_mapping_def declaration_ok_def res_bind_Inr_iff require_Inr
      split: json.splits if_splits dest: source_range_Inr)

lemma interface_Inr: "interface_from_mapping v = Inr i \<Longrightarrow> interface_ok i"
  by (auto simp: interface_from_mapping_def interface_ok_def res_bind_Inr_iff require_Inr nonempty_string_Some
      split: json.splits if_splits option.splits)

text \<open>
  C17. What \<open>from_mapping\<close> returns has the type that its annotations and \<open>__post_init__\<close> promise: names
  are non-empty, roles and positions are in range, declarations follow what they depend on, the
  roots are declared, and the owner modules are sorted and exactly the owners.
\<close>

theorem closure_from_mapping_typed:
  assumes "closure_from_mapping v = Inr c"
  shows "fields_ok c \<and> closure_ok c"
proof -
  from assms obtain kvs where "v = JObj kvs" by (cases v) (auto simp: closure_from_mapping_def)
  with assms have "closure_ok c" and "\<exists>decls is. res_map declaration_from_mapping decls = Inr (lc_declarations c) \<and>
      res_map interface_from_mapping is = Inr (lc_interface c)"
    and "[] \<notin> set (lc_root_declarations c)" "[] \<notin> set (lc_base_imports c)" "[] \<notin> set (lc_proof_base_imports c)"
    "[] \<notin> set (lc_owner_modules c)"
    by (auto simp: closure_from_mapping_def res_bind_Inr_iff require_Inr check_closure_iff)
  then show ?thesis
    using res_map_Inr_in [of declaration_from_mapping] res_map_Inr_in [of interface_from_mapping] declaration_Inr interface_Inr
    unfolding fields_ok_def list_all_iff by metis
qed

section \<open>The canonical text\<close>

lemma sort_json_strings [simp]: "sort_keys (JList (map JStr ss)) = JList (map JStr ss)"
  by simp

lemma sort_json_of_int [simp]: "sort_keys (json_of_int i) = json_of_int i"
  by (cases i) simp_all

lemma sort_keys_JNull: "sort_keys v = JNull \<longleftrightarrow> v = JNull"
  by (cases v) simp_all

lemma read_string: "s \<noteq> [] \<Longrightarrow> require_string (JStr s) f = Inr s"
  by (simp add: require_Inr)

lemma read_strings: "[] \<notin> set ss \<Longrightarrow> require_string_tuple (json_strings ss) f = Inr ss"
  by (simp add: require_Inr)

lemma read_position:
  "item kvs f = json_of_int p \<Longrightarrow> 0 \<le> int_of p \<Longrightarrow> position kvs f = Inr p"
  by (simp add: require_Inr)

lemmas read_simps = read_string read_strings require_mapping_list_def item_sorted item_def dict_get_or_def

lemma range_read:
  assumes "range_ok r"
  shows "source_range_from_mapping (sort_keys (range_record r)) = Inr r"
proof -
  let ?kvs = "[(''start_line'', json_of_int (sr_start_line r)), (''start_column'', json_of_int (sr_start_column r)),
      (''start_char_utf16'', json_of_int (sr_start_char r)), (''end_line'', json_of_int (sr_end_line r)),
      (''end_column'', json_of_int (sr_end_column r)), (''end_char_utf16'', json_of_int (sr_end_char r))]"
  let ?s = "sort_members ?kvs"
  have m: "item ?s k = sort_keys (item ?kvs k)" for k by (rule item_sorted) simp
  have g: "item ?s ''start_line'' = json_of_int (sr_start_line r)" "item ?s ''start_column'' = json_of_int (sr_start_column r)"
    "item ?s ''start_char_utf16'' = json_of_int (sr_start_char r)" "item ?s ''end_line'' = json_of_int (sr_end_line r)"
    "item ?s ''end_column'' = json_of_int (sr_end_column r)" "item ?s ''end_char_utf16'' = json_of_int (sr_end_char r)"
    unfolding m by (simp_all add: item_def dict_get_or_def)
  have n: "0 \<le> int_of (sr_start_line r)" "0 \<le> int_of (sr_start_column r)" "0 \<le> int_of (sr_start_char r)"
    "0 \<le> int_of (sr_end_line r)" "0 \<le> int_of (sr_end_column r)" "0 \<le> int_of (sr_end_char r)"
    using assms by (simp_all add: range_ok_def)
  note p = read_position [OF g(1) n(1)] read_position [OF g(2) n(2)] read_position [OF g(3) n(3)]
    read_position [OF g(4) n(4)] read_position [OF g(5) n(5)] read_position [OF g(6) n(6)]
  have "source_range_from_mapping (JObj ?s) = Inr r"
    unfolding source_range_from_mapping_def json.case p res_bind_simps
    using assms by (auto simp: range_ok_def less_eq_prod_def)
  then show ?thesis unfolding range_record_def sort_keys_JObj .
qed

lemma declaration_read:
  assumes "declaration_ok d"
  shows "declaration_from_mapping (sort_keys (declaration_record d)) = Inr d"
proof -
  let ?kvs = "[(''kind'', JStr (ld_kind d)), (''local_dependencies'', json_strings (ld_dependencies d)),
       (''name'', JStr (ld_name d)), (''owner_module'', JStr (ld_owner d))] @
      (case ld_range d of None \<Rightarrow> [] | Some r \<Rightarrow> [(''source_range'', range_record r)])"
  let ?s = "sort_members ?kvs"
  have m: "item ?s k = sort_keys (item ?kvs k)" for k by (rule item_sorted) (simp split: option.split)
  have f: "item ?s ''name'' = JStr (ld_name d)" "item ?s ''kind'' = JStr (ld_kind d)"
    "item ?s ''owner_module'' = JStr (ld_owner d)" "item ?s ''local_dependencies'' = json_strings (ld_dependencies d)"
    unfolding m by (simp_all add: item_def dict_get_or_def)
  have r: "item ?s ''source_range'' = (case ld_range d of None \<Rightarrow> JNull | Some r \<Rightarrow> sort_keys (range_record r))"
    unfolding m by (simp add: item_def dict_get_or_def split: option.split)
  have n: "sort_keys (range_record r) \<noteq> JNull" for r by (simp add: range_record_def)
  have "declaration_from_mapping (JObj ?s) = Inr d"
    unfolding declaration_from_mapping_def json.case f r
    using assms n range_read by (auto simp: read_string read_strings declaration_ok_def split: option.splits)
  then show ?thesis unfolding declaration_record_def sort_keys_JObj .
qed

lemma interface_read:
  assumes "interface_ok i"
  shows "interface_from_mapping (sort_keys (interface_record i)) = Inr i"
proof -
  let ?kvs = "[(''declaration_role'', JStr (li_role i)), (''level_params'', json_strings (li_levels i)),
      (''name'', JStr (li_name i)), (''type_source'', JStr (li_type i)),
      (''value_source'', case li_value i of None \<Rightarrow> JNull | Some s \<Rightarrow> JStr s)]"
  let ?s = "sort_members ?kvs"
  have m: "item ?s k = sort_keys (item ?kvs k)" for k by (rule item_sorted) simp
  have f: "item ?s ''declaration_role'' = JStr (li_role i)" "item ?s ''level_params'' = json_strings (li_levels i)"
    "item ?s ''name'' = JStr (li_name i)" "item ?s ''type_source'' = JStr (li_type i)"
    "item ?s ''value_source'' = (case li_value i of None \<Rightarrow> JNull | Some s \<Rightarrow> JStr s)"
    unfolding m by (simp_all add: item_def dict_get_or_def split: option.split)
  have "li_role i \<noteq> []" using assms by (auto simp: interface_ok_def INTERFACE_ROLES_def)
  then have "interface_from_mapping (JObj ?s) = Inr i"
    unfolding interface_from_mapping_def json.case f
    using assms by (auto simp: read_string read_strings interface_ok_def split: option.splits)
  then show ?thesis unfolding interface_record_def sort_keys_JObj .
qed

lemma closure_read:
  assumes "fields_ok c" and "closure_ok c"
  shows "closure_from_mapping (sort_keys (canonical_manifest c)) = Inr c"
proof -
  let ?kvs = "[(''base_imports'', json_strings (lc_base_imports c)),
      (''declarations'', JList (map declaration_record (lc_declarations c))),
      (''lean_version'', JStr (lc_lean_version c)),
      (''owner_modules'', json_strings (lc_owner_modules c)),
      (''proof_base_imports'', json_strings (lc_proof_base_imports c)),
      (''proof_base_interface'', JList (map interface_record (lc_interface c))),
      (''root_declarations'', json_strings (lc_root_declarations c)),
      (''root_module'', JStr (lc_root_module c)),
      (''schema_id'', JStr (lc_schema_id c))]"
  let ?s = "sort_members ?kvs"
  have m: "item ?s k = sort_keys (item ?kvs k)" for k by (rule item_sorted) simp
  have f: "item ?s ''base_imports'' = json_strings (lc_base_imports c)"
    "item ?s ''declarations'' = JList (map (\<lambda>d. sort_keys (declaration_record d)) (lc_declarations c))"
    "item ?s ''lean_version'' = JStr (lc_lean_version c)" "item ?s ''owner_modules'' = json_strings (lc_owner_modules c)"
    "item ?s ''proof_base_imports'' = json_strings (lc_proof_base_imports c)"
    "item ?s ''proof_base_interface'' = JList (map (\<lambda>i. sort_keys (interface_record i)) (lc_interface c))"
    "item ?s ''root_declarations'' = json_strings (lc_root_declarations c)"
    "item ?s ''root_module'' = JStr (lc_root_module c)" "item ?s ''schema_id'' = JStr (lc_schema_id c)"
    unfolding m by (simp_all add: item_def dict_get_or_def comp_def)
  have d: "res_map declaration_from_mapping (map (\<lambda>d. sort_keys (declaration_record d)) ds) = Inr ds"
    if "list_all declaration_ok ds" for ds using that by (induction ds) (simp_all add: declaration_read)
  have i: "res_map interface_from_mapping (map (\<lambda>i. sort_keys (interface_record i)) is) = Inr is"
    if "list_all interface_ok is" for "is" using that by (induction "is") (simp_all add: interface_read)
  have n: "lc_schema_id c \<noteq> []" using assms(2) by (simp add: closure_ok_def CLOSURE_SCHEMA_def)
  have v: "lc_lean_version c \<noteq> []" "lc_root_module c \<noteq> []" using assms(2) by (simp_all add: closure_ok_def)
  have e: "[] \<notin> set (lc_root_declarations c)" "[] \<notin> set (lc_base_imports c)" "[] \<notin> set (lc_proof_base_imports c)"
    "[] \<notin> set (lc_owner_modules c)" and l: "list_all declaration_ok (lc_declarations c)" "list_all interface_ok (lc_interface c)"
    using assms(1) by (simp_all add: fields_ok_def)
  have "c = \<lparr>lc_lean_version = lc_lean_version c, lc_root_module = lc_root_module c,
      lc_root_declarations = lc_root_declarations c, lc_base_imports = lc_base_imports c,
      lc_proof_base_imports = lc_proof_base_imports c, lc_interface = lc_interface c,
      lc_owner_modules = lc_owner_modules c, lc_declarations = lc_declarations c, lc_schema_id = lc_schema_id c\<rparr>"
    by (cases c) simp
  with assms(2) have k: "check_closure \<lparr>lc_lean_version = lc_lean_version c, lc_root_module = lc_root_module c,
      lc_root_declarations = lc_root_declarations c, lc_base_imports = lc_base_imports c,
      lc_proof_base_imports = lc_proof_base_imports c, lc_interface = lc_interface c,
      lc_owner_modules = lc_owner_modules c, lc_declarations = lc_declarations c, lc_schema_id = lc_schema_id c\<rparr> = Inr c"
    unfolding check_closure_iff by metis
  have "closure_from_mapping (JObj ?s) = Inr c"
    unfolding closure_from_mapping_def json.case f
    by (simp add: read_string [OF n] read_string [OF v(1)] read_string [OF v(2)] read_strings [OF e(1)] read_strings [OF e(2)]
        read_strings [OF e(3)] read_strings [OF e(4)] require_mapping_list_def d [OF l(1)] i [OF l(2)] k)
  then show ?thesis unfolding canonical_manifest_def sort_keys_JObj .
qed

lemma strings_json_ok: "json_ok fl (JList (map JStr ss))"
  by (simp add: list_all_iff)

lemma manifest_json_ok: "json_ok fl (canonical_manifest c)"
proof -
  have i: "json_ok fl (json_of_int p)" for p by (cases p) simp_all
  have "json_ok fl (declaration_record d)" for d
    by (simp add: declaration_record_def range_record_def i list_all_iff split: option.split)
  moreover have "json_ok fl (interface_record i)" for i
    by (simp add: interface_record_def list_all_iff split: option.split)
  ultimately show ?thesis by (simp add: canonical_manifest_def list_all_iff)
qed

text \<open>
  C18. The canonical text of a well-typed closure reads back as that closure: the nested records,
  missing source ranges, escapes and the sorted members all survive the trip through JSON.
\<close>

theorem closure_json_roundtrip:
  assumes "fields_ok c" and "closure_ok c"
  shows "closure_from_json fl msg (canonical_json (canonical_manifest c)) = Inr c"
  unfolding closure_from_json_def loads_canonical [OF plain_hook_ok manifest_json_ok]
  using closure_read [OF assms] by simp

text \<open>
  The digest of a closure identifies it: two well-typed closures with one digest are equal,
  unless SHA-256 collides on their two canonical texts.
\<close>

theorem closure_digest_identifies:
  assumes "fields_ok c" "closure_ok c" and "fields_ok d" "closure_ok d"
    and "closure_digest sha c = Inr t" and "closure_digest sha d = Inr t"
    and "inj_on sha {canonical_json (canonical_manifest c), canonical_json (canonical_manifest d)}"
  shows "c = d"
proof -
  have t: "t = ''sha256:'' @ hex (sha (canonical_json (canonical_manifest c)))" if "closure_digest sha c = Inr t" for c
    using that unfolding closure_digest_def Let_def by (simp split: if_splits)
  have "sha (canonical_json (canonical_manifest c)) = sha (canonical_json (canonical_manifest d))"
    using t [OF assms(5)] unfolding t [OF assms(6)] by (metis append_same_eq hex_inject same_append_eq)
  then have "canonical_json (canonical_manifest c) = canonical_json (canonical_manifest d)"
    by (rule inj_onD [OF assms(7)]) blast+
  from dumps_inject [OF sort_keys_ok [OF manifest_json_ok] sort_keys_ok [OF manifest_json_ok] this [unfolded canonical_json_def]]
  have e: "sort_keys (canonical_manifest c) = sort_keys (canonical_manifest d)" .
  have "Inr c = (Inr d :: lean_closure cresult)"
    unfolding closure_read [OF assms(1,2), symmetric] closure_read [OF assms(3,4), symmetric] e ..
  then show ?thesis by simp
qed

end
