(* ===== verification/Dependency_Order.thy ===== *)
theory Dependency_Order
  imports Prelude
begin

text \<open>
  Orders that respect a dependency relation, and cycles: \<open>(m, n) \<in> R\<close> says that \<open>n\<close> needs \<open>m\<close>. Shared by
  the sorts of owner modules and of source declarations.
\<close>

fun ordered_from :: "('a \<times> 'a) set \<Rightarrow> 'a set \<Rightarrow> 'a list \<Rightarrow> bool" where
  "ordered_from R D [] = True"
| "ordered_from R D (n # ns) = (n \<notin> D \<and> {m. (m, n) \<in> R} \<subseteq> D \<and> ordered_from R (insert n D) ns)"

lemma ordered_from_append:
  "ordered_from R D (ns @ ms) \<longleftrightarrow> ordered_from R D ns \<and> ordered_from R (D \<union> set ns) ms"
  by (induction ns arbitrary: D) (auto simp: insert_commute)

lemma ordered_from_wave:
  "distinct ms \<Longrightarrow> \<forall>m \<in> set ms. m \<notin> D \<and> {k. (k, m) \<in> R} \<subseteq> D \<Longrightarrow> ordered_from R D ms"
proof (induction ms arbitrary: D)
  case (Cons m ms)
  have "ordered_from R (insert m D) ms" by (rule Cons.IH) (use Cons.prems in auto)
  with Cons.prems show ?case by simp
qed simp

lemma ordered_from_distinct: "ordered_from R D ns \<Longrightarrow> distinct ns \<and> set ns \<inter> D = {}"
  by (induction ns arbitrary: D) auto

lemma ordered_from_before: "ordered_from R D (xs @ n # ys) \<Longrightarrow> {m. (m, n) \<in> R} \<subseteq> D \<union> set xs"
  by (simp add: ordered_from_append)

lemma ordered_from_acc: "ordered_from R D ns \<Longrightarrow> D \<subseteq> Wellfounded.acc R \<Longrightarrow> set ns \<subseteq> Wellfounded.acc R"
proof (induction ns arbitrary: D)
  case (Cons n ns)
  have sub: "{m. (m, n) \<in> R} \<subseteq> Wellfounded.acc R" using Cons.prems by fastforce
  have n: "n \<in> Wellfounded.acc R" by (rule accI) (use sub in blast)
  with Cons.prems have "ordered_from R (insert n D) ns" "insert n D \<subseteq> Wellfounded.acc R" by simp_all
  from Cons.IH [OF this] n show ?case by simp
qed simp

lemma ordered_acyclic:
  assumes "ordered_from R {} ns" and "R \<subseteq> UNIV \<times> set ns"
  shows "acyclic R"
proof -
  have "x \<in> Wellfounded.acc R" for x
  proof (cases "x \<in> set ns")
    case True
    with ordered_from_acc [OF assms(1)] show ?thesis by blast
  next
    case False
    with assms(2) have no: "(y, x) \<notin> R" for y by blast
    show ?thesis by (rule accI) (use no in blast)
  qed
  then have "wf R" by (simp add: acc_wfI)
  then show ?thesis by (rule wf_acyclic)
qed

lemma stuck_cyclic:
  assumes "finite R" and "S \<noteq> {}" and "\<forall>n \<in> S. \<exists>m \<in> S. (m, n) \<in> R"
  shows "\<not> acyclic R"
proof
  assume "acyclic R"
  then have "wf R" using assms(1) finite_acyclic_wf by blast
  with assms(2) obtain z where "z \<in> S" "\<forall>y. (y, z) \<in> R \<longrightarrow> y \<notin> S" unfolding wf_eq_minimal by blast
  with assms(3) show False by blast
qed

end
