(* ===== verification/Owner_Order.thy ===== *)
theory Owner_Order
  imports Lean_Closure_Props Dependency_Order
begin

text \<open>
  The order of the owner modules of a declaration closure: the waves of
  \<open>owner_modules_in_dependency_order\<close> give a topological order, or an error exactly when the
  modules depend on each other in a cycle.
\<close>

section \<open>The dependencies between modules\<close>

definition module_dependencies :: "lean_closure \<Rightarrow> (string \<times> string) set" where
  "module_dependencies c = {(ld_owner e, ld_owner d) | d e. d \<in> set (lc_declarations c) \<and> e \<in> set (lc_declarations c) \<and>
     ld_name e \<in> set (ld_dependencies d) \<and> ld_owner e \<noteq> ld_owner d}"

abbreviation needed :: "string list pydict \<Rightarrow> string \<Rightarrow> string set" where
  "needed deps m \<equiv> set (dict_get_or deps m [])"

lemma owner_dependencies_spec:
  "\<forall>x \<in> set xs. dict_get owners x \<noteq> None \<Longrightarrow> m \<in> set (dict_keys deps) \<Longrightarrow>
   \<exists>deps'. owner_dependencies owners m xs deps = Inr deps' \<and> dict_keys deps' = dict_keys deps \<and>
     (\<forall>k. needed deps' k = needed deps k \<union> (if k = m then {o1. \<exists>x \<in> set xs. dict_get owners x = Some o1 \<and> o1 \<noteq> m} else {}))"
proof (induction owners m xs deps rule: owner_dependencies.induct)
  case (2 owners m x xs deps)
  from 2(3) obtain o1 where o1: "dict_get owners x = Some o1" by auto
  obtain os where os: "dict_get deps m = Some os" using 2(4) by (metis map_of_eq_None_iff not_None_eq list.set_map)
  show ?case
  proof (cases "o1 = m")
    case True
    with 2(1) [OF o1 True] 2(3,4) o1 show ?thesis by fastforce
  next
    case False
    let ?d = "dict_set m (List.insert o1 os) deps"
    have keys: "dict_keys ?d = dict_keys deps" using 2(4) by (induction deps) auto
    have "\<exists>deps'. owner_dependencies owners m xs ?d = Inr deps' \<and> dict_keys deps' = dict_keys ?d \<and>
      (\<forall>k. needed deps' k = needed ?d k \<union> (if k = m then {o1. \<exists>x \<in> set xs. dict_get owners x = Some o1 \<and> o1 \<noteq> m} else {}))"
      by (rule 2(2) [OF o1 False os]) (use 2(3,4) keys in simp_all)
    moreover have "needed ?d k = needed deps k \<union> (if k = m then {o1} else {})" for k
      using os by (auto simp: dict_get_or_def)
    moreover have "owner_dependencies owners m (x # xs) deps = owner_dependencies owners m xs ?d"
      using o1 os False by simp
    ultimately show ?thesis using keys o1 False by auto
  qed
qed auto

lemma all_owner_dependencies_spec:
  "\<forall>d \<in> set ds. ld_owner d \<in> set (dict_keys deps) \<and> (\<forall>x \<in> set (ld_dependencies d). dict_get owners x \<noteq> None) \<Longrightarrow>
   \<exists>deps'. all_owner_dependencies owners ds deps = Inr deps' \<and> dict_keys deps' = dict_keys deps \<and>
     (\<forall>k. needed deps' k = needed deps k \<union>
        {o1. \<exists>d \<in> set ds. ld_owner d = k \<and> (\<exists>x \<in> set (ld_dependencies d). dict_get owners x = Some o1 \<and> o1 \<noteq> k)})"
proof (induction ds arbitrary: deps)
  case (Cons d ds)
  from Cons.prems have "\<forall>x \<in> set (ld_dependencies d). dict_get owners x \<noteq> None" "ld_owner d \<in> set (dict_keys deps)" by simp_all
  from owner_dependencies_spec [OF this] obtain d1 where d1: "owner_dependencies owners (ld_owner d) (ld_dependencies d) deps = Inr d1"
    "dict_keys d1 = dict_keys deps"
    "\<And>k. needed d1 k = needed deps k \<union>
       (if k = ld_owner d then {o1. \<exists>x \<in> set (ld_dependencies d). dict_get owners x = Some o1 \<and> o1 \<noteq> ld_owner d} else {})" by blast
  from Cons.IH [of d1] Cons.prems d1(2) obtain d2 where d2: "all_owner_dependencies owners ds d1 = Inr d2"
    "dict_keys d2 = dict_keys deps"
    "\<And>k. needed d2 k = needed d1 k \<union>
       {o1. \<exists>d \<in> set ds. ld_owner d = k \<and> (\<exists>x \<in> set (ld_dependencies d). dict_get owners x = Some o1 \<and> o1 \<noteq> k)}" by auto
  have "all_owner_dependencies owners (d # ds) deps = Inr d2" using d1(1) d2(1) by simp
  moreover have "needed d2 k = needed deps k \<union>
        {o1. \<exists>d \<in> set (d # ds). ld_owner d = k \<and> (\<exists>x \<in> set (ld_dependencies d). dict_get owners x = Some o1 \<and> o1 \<noteq> k)}" for k
    unfolding d2(3) d1(3) by auto
  ultimately show ?case using d2(2) by blast
qed simp

lemma dict_of_wf: "dict_wf xs \<Longrightarrow> dict_of xs = xs"
  by simp

lemma empty_needed: "needed (map (\<lambda>m. (m, [])) ms) k = {}"
  by (induction ms) (auto simp: dict_get_or_def)

lemma closure_dependencies:
  assumes "closure_ok c"
  obtains deps where "owner_modules_in_dependency_order c = owner_loop deps []" and "dict_keys deps = lc_owner_modules c"
    and "\<And>m. needed deps m = {k. (k, m) \<in> module_dependencies c}"
proof -
  let ?ds = "lc_declarations c" and ?owners = "map (\<lambda>d. (ld_name d, ld_owner d)) (lc_declarations c)"
  let ?deps = "map (\<lambda>m. (m, [] :: string list)) (lc_owner_modules c)"
  have wf: "dict_wf ?owners" "dict_wf ?deps" using assms by (simp_all add: closure_ok_def comp_def)
  have keys: "dict_keys ?deps = lc_owner_modules c" by (simp add: comp_def)
  have get: "dict_get ?owners x = Some o1 \<longleftrightarrow> (\<exists>e \<in> set ?ds. ld_name e = x \<and> ld_owner e = o1)" for x o1
    using wf(1) by auto
  have "x \<in> ld_name ` set ?ds" if d: "d \<in> set ?ds" "x \<in> set (ld_dependencies d)" for d x
  proof -
    from d(1) obtain xs ys where "?ds = xs @ d # ys" by (meson split_list)
    moreover from this have "set (ld_dependencies d) \<subseteq> ld_name ` set xs" using assms unfolding closure_ok_def by blast
    ultimately show ?thesis using d(2) by auto
  qed
  then have some: "dict_get ?owners x \<noteq> None" if "d \<in> set ?ds" "x \<in> set (ld_dependencies d)" for d x
    using that get by fastforce
  have "ld_owner d \<in> set (dict_keys ?deps)" if "d \<in> set ?ds" for d
    using assms that unfolding keys by (simp add: closure_ok_def)
  with some have "\<forall>d \<in> set ?ds. ld_owner d \<in> set (dict_keys ?deps) \<and> (\<forall>x \<in> set (ld_dependencies d). dict_get ?owners x \<noteq> None)" by blast
  from all_owner_dependencies_spec [OF this] obtain deps where d: "all_owner_dependencies ?owners ?ds ?deps = Inr deps"
    "dict_keys deps = lc_owner_modules c"
    "\<And>k. needed deps k = needed ?deps k \<union>
       {o1. \<exists>d \<in> set ?ds. ld_owner d = k \<and> (\<exists>x \<in> set (ld_dependencies d). dict_get ?owners x = Some o1 \<and> o1 \<noteq> k)}"
    unfolding keys by blast
  have "needed deps m = {k. (k, m) \<in> module_dependencies c}" for m
    unfolding d(3) get empty_needed by (auto simp: module_dependencies_def)
  moreover have "owner_modules_in_dependency_order c = owner_loop deps []"
    unfolding owner_modules_in_dependency_order_def dict_of_wf [OF wf(1)] dict_of_wf [OF wf(2)] d(1) by simp
  ultimately show ?thesis using that d(2) by blast
qed

section \<open>The waves\<close>

lemma ready_owners_spec:
  assumes "distinct (dict_keys deps)"
  shows "set (ready_owners deps r) = {m \<in> set (dict_keys deps). m \<notin> set r \<and> needed deps m \<subseteq> set r}"
    and "distinct (ready_owners deps r)"
proof -
  have "(m, os) \<in> set deps \<longleftrightarrow> dict_get deps m = Some os" for m os using assms by simp
  moreover have "m \<in> set (dict_keys deps) \<longleftrightarrow> (\<exists>os. dict_get deps m = Some os)" for m
    by (metis map_of_eq_None_iff not_None_eq list.set_map)
  ultimately show "set (ready_owners deps r) = {m \<in> set (dict_keys deps). m \<notin> set r \<and> needed deps m \<subseteq> set r}"
    by (auto simp: ready_owners_def dict_get_or_def image_iff split: option.splits)
  show "distinct (ready_owners deps r)" using assms by (simp add: ready_owners_def distinct_map_filter)
qed

lemma owner_loop_spec:
  assumes "distinct (dict_keys deps)" and "\<And>m. needed deps m = {k. (k, m) \<in> R}"
    and "ordered_from R {} r" and "set r \<subseteq> set (dict_keys deps)"
  shows "(\<exists>r'. owner_loop deps r = Inr r' \<and> ordered_from R {} r' \<and> set r' = set (dict_keys deps)) \<or>
     (\<exists>d S. owner_loop deps r = closure_err ''owner-module-cycle'' d \<and> S \<noteq> {} \<and> S \<subseteq> set (dict_keys deps) \<and>
        (\<forall>n \<in> S. \<not> {k. (k, n) \<in> R} \<subseteq> set (dict_keys deps) - S))"
  using assms
proof (induction deps r rule: owner_loop.induct)
  case (1 deps r)
  let ?ready = "ready_owners deps r"
  note ready = ready_owners_spec [OF 1(2), of r]
  have d: "distinct r" using ordered_from_distinct [OF 1(4)] by blast
  have len: "length deps = card (set (dict_keys deps))" using distinct_card [OF 1(2)] by simp
  show ?case
  proof (cases "length r < length deps")
    case False
    then have "set r = set (dict_keys deps)"
      using 1(5) len distinct_card [OF d] by (metis card_seteq finite_set not_less)
    moreover have "owner_loop deps r = Inr r" using False by (simp add: owner_loop.simps)
    ultimately show ?thesis using 1(4) by blast
  next
    case True
    show ?thesis
    proof (cases "?ready = []")
      case e: True
      let ?S = "set (dict_keys deps) - set r"
      have "set r \<noteq> set (dict_keys deps)" using True len distinct_card [OF d] by auto
      then have ne: "?S \<noteq> {}" using 1(5) by blast
      have stuck: "\<forall>n \<in> ?S. \<not> {k. (k, n) \<in> R} \<subseteq> set (dict_keys deps) - ?S"
      proof (intro ballI notI)
        fix n assume "n \<in> ?S" "{k. (k, n) \<in> R} \<subseteq> set (dict_keys deps) - ?S"
        then have "n \<in> set ?ready" unfolding ready(1) 1(3) by blast
        with e show False by simp
      qed
      have "owner_loop deps r = closure_err ''owner-module-cycle'' (str_join '','' (sort (filter (\<lambda>x. x \<notin> set r) (dict_keys deps))))"
        using True e by (subst owner_loop.simps) simp
      with ne stuck show ?thesis by (intro disjI2 exI [of _ ?S] exI conjI) (assumption | rule Diff_subset)+
    next
      case False
      have "ordered_from R (set r) ?ready"
        by (rule ordered_from_wave [OF ready(2)]) (simp add: ready(1) 1(3))
      then have o: "ordered_from R {} (r @ ?ready)" using 1(4) by (simp add: ordered_from_append)
      have "owner_loop deps r = owner_loop deps (r @ ?ready)"
        using True False by (subst owner_loop.simps) (simp add: Let_def)
      moreover have "set (r @ ?ready) \<subseteq> set (dict_keys deps)" using 1(5) ready(1) by auto
      ultimately show ?thesis using 1(1) [OF True HOL.refl False 1(2,3) o] by presburger
    qed
  qed
qed

text \<open>
  C19. The order of the owner modules: when the modules do not depend on each other in a cycle, every
  owner module is listed once, after all the modules it needs; otherwise, and only then, the
  code raises \<open>owner-module-cycle\<close>. It never raises a \<open>KeyError\<close>.
\<close>

theorem owner_order_correct:
  assumes "closure_ok c"
  shows "if acyclic (module_dependencies c)
    then \<exists>ms. owner_modules_in_dependency_order c = Inr ms \<and> distinct ms \<and> set ms = set (lc_owner_modules c) \<and>
      (\<forall>xs m ys. ms = xs @ m # ys \<longrightarrow> {k. (k, m) \<in> module_dependencies c} \<subseteq> set xs)
    else \<exists>detail. owner_modules_in_dependency_order c = closure_err ''owner-module-cycle'' detail"
proof -
  let ?R = "module_dependencies c"
  obtain deps where o: "owner_modules_in_dependency_order c = owner_loop deps []" and keys: "dict_keys deps = lc_owner_modules c"
    and need: "\<And>m. needed deps m = {k. (k, m) \<in> ?R}" using closure_dependencies [OF assms] by blast
  have owners: "set (lc_owner_modules c) = ld_owner ` set (lc_declarations c)" and dist: "distinct (dict_keys deps)"
    using assms keys by (simp_all add: closure_ok_def)
  have R: "?R \<subseteq> set (lc_owner_modules c) \<times> set (lc_owner_modules c)"
    unfolding owners by (auto simp: module_dependencies_def)
  then have fin: "finite ?R" by (rule finite_subset) simp
  from owner_loop_spec [OF dist need, of "[]"] consider
      ms where "owner_loop deps [] = Inr ms" "ordered_from ?R {} ms" "set ms = set (dict_keys deps)"
    | d S where "owner_loop deps [] = closure_err ''owner-module-cycle'' d" "S \<noteq> {}" "S \<subseteq> set (dict_keys deps)"
      "\<forall>n \<in> S. \<not> {k. (k, n) \<in> ?R} \<subseteq> set (dict_keys deps) - S"
    using empty_set ordered_from.simps(1) by (metis empty_subsetI)
  then show ?thesis
  proof cases
    case 1
    have "acyclic ?R" using ordered_acyclic [OF 1(2)] R 1(3) keys by auto
    moreover have "\<forall>xs m ys. ms = xs @ m # ys \<longrightarrow> {k. (k, m) \<in> ?R} \<subseteq> set xs"
      using ordered_from_before 1(2) by fastforce
    ultimately show ?thesis using 1 ordered_from_distinct [OF 1(2)] o keys by auto
  next
    case 2
    have "\<not> acyclic ?R"
    proof (rule stuck_cyclic [OF fin 2(2)])
      show "\<forall>n \<in> S. \<exists>m \<in> S. (m, n) \<in> ?R" using 2(4) R unfolding keys by blast
    qed
    with 2(1) o show ?thesis by simp
  qed
qed

section \<open>Witnesses\<close>

definition ex_declaration :: "string \<Rightarrow> string \<Rightarrow> string list \<Rightarrow> source_range option \<Rightarrow> lean_declaration" where
  "ex_declaration n m ds r =
     \<lparr>ld_name = n, ld_kind = ''theorem'', ld_owner = m, ld_dependencies = ds, ld_range = r\<rparr>"

definition ex_range :: source_range where
  "ex_range = \<lparr>sr_start_line = PyInt 3, sr_start_column = PyInt 0, sr_start_char = PyInt 0,
     sr_end_line = PyInt 4, sr_end_column = PyInt 7, sr_end_char = PyInt 7\<rparr>"

definition ex_closure :: lean_closure where
  "ex_closure = \<lparr>lc_lean_version = ''4.9'', lc_root_module = ''P.Top'', lc_root_declarations = [''P.Top.main''],
     lc_base_imports = [''Init''], lc_proof_base_imports = [''Std''],
     lc_interface = [\<lparr>li_name = ''ax'', li_role = ''axiom'', li_levels = [''u''], li_type = ''Prop'', li_value = None\<rparr>],
     lc_owner_modules = [''P.Base'', ''P.Top''],
     lc_declarations = [ex_declaration ''P.Base.aux'' ''P.Base'' [] (Some ex_range),
       ex_declaration ''P.Top.main'' ''P.Top'' [''P.Base.aux''] None],
     lc_schema_id = CLOSURE_SCHEMA\<rparr>"

lemma ex_closure_read: "closure_from_mapping (canonical_manifest ex_closure) = Inr ex_closure"
  by code_simp

lemma ex_closure_checked: "check_closure ex_closure = Inr ex_closure"
  by code_simp

lemma ex_closure_ok: "closure_ok ex_closure"
  using ex_closure_checked by (simp add: check_closure_iff)

lemma ex_fields_ok: "fields_ok ex_closure"
  by code_simp

text \<open>A JSON boolean passes for a position, because \<open>bool\<close> is a subclass of \<open>int\<close>.\<close>

lemma boolean_position_accepted:
  "source_range_from_mapping (JObj [(''start_line'', JBool True), (''start_column'', JBool False),
     (''start_char_utf16'', JInt 0), (''end_line'', JInt 2), (''end_column'', JInt 0), (''end_char_utf16'', JInt 0)]) =
   Inr \<lparr>sr_start_line = PyBool True, sr_start_column = PyBool False, sr_start_char = PyInt 0,
     sr_end_line = PyInt 2, sr_end_column = PyInt 0, sr_end_char = PyInt 0\<rparr>"
  by code_simp

theorem closure_from_mapping_typed_witness:
  "closure_from_mapping (canonical_manifest ex_closure) = Inr ex_closure \<and> fields_ok ex_closure \<and> closure_ok ex_closure"
  using closure_from_mapping_typed [OF ex_closure_read] ex_closure_read by blast

theorem closure_json_roundtrip_witness:
  "closure_from_json (\<lambda>t. t) (\<lambda>s. s) (canonical_json (canonical_manifest ex_closure)) = Inr ex_closure"
  by (rule closure_json_roundtrip [OF ex_fields_ok ex_closure_ok])

lemma ex_closure_utf8: "utf8_valid (canonical_json (canonical_manifest ex_closure))"
  by code_simp

theorem closure_digest_identifies_witness:
  "\<exists>t d. closure_digest (\<lambda>b. b) ex_closure = Inr t \<and> closure_digest (\<lambda>b. b) d = Inr t \<and> ex_closure = d"
proof -
  let ?t = "''sha256:'' @ hex (canonical_json (canonical_manifest ex_closure))"
  have t: "closure_digest (\<lambda>b. b) ex_closure = Inr ?t"
    unfolding closure_digest_def Let_def using ex_closure_utf8 by simp
  have "ex_closure = ex_closure"
    by (rule closure_digest_identifies [OF ex_fields_ok ex_closure_ok ex_fields_ok ex_closure_ok t t]) simp
  with t show ?thesis by blast
qed

theorem owner_order_correct_witness:
  "acyclic (module_dependencies ex_closure) \<and> owner_modules_in_dependency_order ex_closure = Inr [''P.Base'', ''P.Top'']"
proof -
  have o: "owner_modules_in_dependency_order ex_closure = Inr [''P.Base'', ''P.Top'']" by code_simp
  with owner_order_correct [OF ex_closure_ok] show ?thesis by (cases "acyclic (module_dependencies ex_closure)") simp_all
qed

end
