(* ===== verification/Receipt_Graph.thy ===== *)
theory Receipt_Graph
  imports Hex_Text "HOL-Library.List_Lexorder" "HOL-Library.Char_ord" "HOL-Library.Product_Lexorder"
begin

text \<open>
  Receipt graphs of the proof package (\<open>poo_flow_proof/proof_base_receipt_graph.py\<close>): accepted
  receipts as nodes, the interfaces they provide and assume, the edges that supply an
  assumption, and the verification of a graph. A text is the list of its UTF-8 bytes, whose order is
  the order of its code points. SHA-256 is the parameter \<open>sha\<close>. Dictionaries are insertion-ordered
  association lists, a Python set is the list of its elements, and a heap is the sorted list of
  its items (\<open>heappop\<close> takes the least).
\<close>

section \<open>Data\<close>

datatype graph_error = ReceiptGraphError string string | OverflowError

type_synonym 'a gresult = "graph_error + 'a"

abbreviation graph_err :: "string \<Rightarrow> string \<Rightarrow> 'a gresult" where
  "graph_err code detail \<equiv> Inl (ReceiptGraphError code detail)"

text \<open>\<open>CanonicalInterfaceV1\<close> and \<open>CanonicalSourceIdentityV1\<close> have one shape.\<close>

record canonical_payload =
  cp_bytes :: bytes
  cp_digest :: string

record interface_assumption =
  as_id :: string
  as_interface :: canonical_payload

record accepted_evidence =
  ae_engine_identity :: string
  ae_receipt_bytes :: bytes
  ae_receipt_digest :: string
  ae_bound_source :: string
  ae_bound_bundle :: string
  ae_bound_interface :: string
  ae_decision :: string

record receipt_node =
  nd_node_id :: string
  nd_source_identity :: canonical_payload
  nd_bundle_digest :: string
  nd_root_declarations :: "string list"
  nd_provided_interface :: canonical_payload
  nd_assumed_interfaces :: "interface_assumption list"
  nd_acceptance :: accepted_evidence

record receipt_edge =
  ed_supplier :: string
  ed_consumer :: string
  ed_assumption :: string

record receipt_graph =
  gr_schema_id :: string
  gr_nodes :: "receipt_node list"
  gr_edges :: "receipt_edge list"
  gr_terminal :: string

record composition_receipt =
  cr_schema_id :: string
  cr_graph_digest :: string
  cr_terminal :: string
  cr_topological_order :: "string list"
  cr_node_count :: nat
  cr_edge_count :: nat
  cr_root_declaration_count :: nat

definition GRAPH_SCHEMA :: string where
  "GRAPH_SCHEMA = ''poo-flow.proof-base-receipt-graph.v1''"

definition COMPOSITION_SCHEMA :: string where
  "COMPOSITION_SCHEMA = ''poo-flow.verified-composition-receipt.v1''"

section \<open>Construction\<close>

definition sha256_digest :: "(bytes \<Rightarrow> bytes) \<Rightarrow> bytes \<Rightarrow> string" where
  "sha256_digest sha payload = ''sha256:'' @ hex (sha payload)"

definition dashed :: "string \<Rightarrow> string" where
  "dashed s = map (\<lambda>c. if c = CHR ''_'' then CHR ''-'' else c) s"

definition require_nonempty :: "string \<Rightarrow> string \<Rightarrow> unit gresult" where
  "require_nonempty label value =
     (if value = [] then graph_err (''empty-'' @ dashed label) (label @ '' must be non-empty'') else Inr ())"

text \<open>\<open>sha256:[0-9a-f]{64}\<close>\<close>

definition is_sha256 :: "string \<Rightarrow> bool" where
  "is_sha256 s \<longleftrightarrow> take 7 s = ''sha256:'' \<and> length s = 71 \<and>
     list_all (\<lambda>c. CHR ''0'' \<le> c \<and> c \<le> CHR ''9'' \<or> CHR ''a'' \<le> c \<and> c \<le> CHR ''f'') (drop 7 s)"

definition require_digest :: "string \<Rightarrow> string \<Rightarrow> unit gresult" where
  "require_digest label value =
     (if \<not> is_sha256 value then graph_err ''invalid-digest'' (label @ '' must be a canonical sha256 digest'')
      else Inr ())"

definition require_canonical_payload :: "(bytes \<Rightarrow> bytes) \<Rightarrow> string \<Rightarrow> bytes \<Rightarrow> string \<Rightarrow> unit gresult" where
  "require_canonical_payload sha label payload dg =
     res_bind (require_digest (label @ ''_digest'') dg) (\<lambda>_.
     let computed = sha256_digest sha payload in
     if computed \<noteq> dg
     then graph_err ''canonical-payload-digest-mismatch'' (label @ '' computed '' @ computed @ '', declared '' @ dg)
     else Inr ())"

definition canonical_interface :: "(bytes \<Rightarrow> bytes) \<Rightarrow> bytes \<Rightarrow> string \<Rightarrow> canonical_payload gresult" where
  "canonical_interface sha payload dg =
     res_bind (require_canonical_payload sha ''canonical_interface'' payload dg) (\<lambda>_.
     Inr \<lparr>cp_bytes = payload, cp_digest = dg\<rparr>)"

definition canonical_source_identity :: "(bytes \<Rightarrow> bytes) \<Rightarrow> bytes \<Rightarrow> string \<Rightarrow> canonical_payload gresult" where
  "canonical_source_identity sha payload dg =
     res_bind (require_canonical_payload sha ''canonical_source_identity'' payload dg) (\<lambda>_.
     Inr \<lparr>cp_bytes = payload, cp_digest = dg\<rparr>)"

definition named_interface_assumption :: "string \<Rightarrow> canonical_payload \<Rightarrow> interface_assumption gresult" where
  "named_interface_assumption aid i =
     res_bind (require_nonempty ''assumption_id'' aid) (\<lambda>_. Inr \<lparr>as_id = aid, as_interface = i\<rparr>)"

definition check_evidence :: "(bytes \<Rightarrow> bytes) \<Rightarrow> accepted_evidence \<Rightarrow> accepted_evidence gresult" where
  "check_evidence sha ev =
     res_bind (require_nonempty ''engine_identity'' (ae_engine_identity ev)) (\<lambda>_.
     res_bind (require_canonical_payload sha ''acceptance_receipt'' (ae_receipt_bytes ev) (ae_receipt_digest ev)) (\<lambda>_.
     res_bind (require_digest ''bound_source_identity_digest'' (ae_bound_source ev)) (\<lambda>_.
     res_bind (require_digest ''bound_independent_bundle_digest'' (ae_bound_bundle ev)) (\<lambda>_.
     res_bind (require_digest ''bound_provided_interface_digest'' (ae_bound_interface ev)) (\<lambda>_.
     if ae_decision ev \<noteq> ''accepted''
     then graph_err ''receipt-not-accepted'' ''receipt decision must be exactly accepted''
     else Inr ev)))))"

definition make_receipt_node :: "receipt_node \<Rightarrow> receipt_node gresult" where
  "make_receipt_node n0 =
     (let n = n0\<lparr>nd_root_declarations := sort (nd_root_declarations n0),
                 nd_assumed_interfaces := sort_key as_id (nd_assumed_interfaces n0)\<rparr> in
      res_bind (require_nonempty ''node_id'' (nd_node_id n)) (\<lambda>_.
      res_bind (require_digest ''independent_bundle_digest'' (nd_bundle_digest n)) (\<lambda>_.
      if nd_root_declarations n = []
      then graph_err ''empty-root-declarations'' ''an accepted proof-base receipt must own at least one root declaration''
      else if \<exists>d \<in> set (nd_root_declarations n). d = []
      then graph_err ''empty-root-declaration'' ''root declarations must be non-empty''
      else if \<not> distinct (nd_root_declarations n)
      then graph_err ''duplicate-root-declaration'' (''node '' @ nd_node_id n @ '' repeats a root declaration'')
      else if \<not> distinct (map as_id (nd_assumed_interfaces n))
      then graph_err ''duplicate-assumption-id'' (''node '' @ nd_node_id n @ '' repeats an assumption id'')
      else if (ae_bound_source (nd_acceptance n), ae_bound_bundle (nd_acceptance n), ae_bound_interface (nd_acceptance n)) \<noteq>
              (cp_digest (nd_source_identity n), nd_bundle_digest n, cp_digest (nd_provided_interface n))
      then graph_err ''acceptance-binding-mismatch''
        (''accepted receipt for '' @ nd_node_id n @ '' must bind its source, independent bundle, and provided interface'')
      else Inr n)))"

definition make_receipt_edge :: "string \<Rightarrow> string \<Rightarrow> string \<Rightarrow> receipt_edge gresult" where
  "make_receipt_edge supplier consumer assumption =
     res_bind (require_nonempty ''supplier_node_id'' supplier) (\<lambda>_.
     res_bind (require_nonempty ''consumer_node_id'' consumer) (\<lambda>_.
     res_bind (require_nonempty ''consumer_assumption_id'' assumption) (\<lambda>_.
     if supplier = consumer then graph_err ''self-edge'' (''node '' @ supplier @ '' cannot supply itself'')
     else Inr \<lparr>ed_supplier = supplier, ed_consumer = consumer, ed_assumption = assumption\<rparr>)))"

definition edge_key :: "receipt_edge \<Rightarrow> string \<times> string \<times> string" where
  "edge_key e = (ed_supplier e, ed_consumer e, ed_assumption e)"

definition make_receipt_graph ::
  "string \<Rightarrow> receipt_node list \<Rightarrow> receipt_edge list \<Rightarrow> string \<Rightarrow> receipt_graph" where
  "make_receipt_graph schema ns es terminal =
     \<lparr>gr_schema_id = schema, gr_nodes = sort_key nd_node_id ns, gr_edges = sort_key edge_key es, gr_terminal = terminal\<rparr>"

section \<open>The digest of a graph\<close>

fun be_bytes :: "nat \<Rightarrow> nat \<Rightarrow> bytes" where
  "be_bytes 0 n = []"
| "be_bytes (Suc k) n = be_bytes k (n div 256) @ [char_of (n mod 256)]"

text \<open>\<open>n.to_bytes(k, "big")\<close>\<close>

definition to_bytes :: "nat \<Rightarrow> nat \<Rightarrow> bytes gresult" where
  "to_bytes k n = (if n < 256 ^ k then Inr (be_bytes k n) else Inl OverflowError)"

definition frame_bytes :: "string \<Rightarrow> bytes \<Rightarrow> bytes gresult" where
  "frame_bytes label payload =
     res_bind (to_bytes 4 (length label)) (\<lambda>a.
     res_bind (to_bytes 8 (length payload)) (\<lambda>b. Inr (a @ label @ b @ payload)))"

definition frames :: "(string \<times> bytes) list \<Rightarrow> bytes gresult" where
  "frames xs = res_bind (res_map (\<lambda>(l, p). frame_bytes l p) xs) (\<lambda>fs. Inr (concat fs))"

definition assumption_payload :: "interface_assumption \<Rightarrow> bytes gresult" where
  "assumption_payload a = frames
     [(''assumption_id'', as_id a), (''interface'', cp_bytes (as_interface a)),
      (''interface_digest'', cp_digest (as_interface a))]"

definition node_fields :: "receipt_node \<Rightarrow> (string \<times> bytes) list" where
  "node_fields n =
     [(''node_id'', nd_node_id n),
      (''source_identity'', cp_bytes (nd_source_identity n)),
      (''source_identity_digest'', cp_digest (nd_source_identity n)),
      (''independent_bundle_digest'', nd_bundle_digest n),
      (''provided_interface'', cp_bytes (nd_provided_interface n)),
      (''provided_interface_digest'', cp_digest (nd_provided_interface n)),
      (''acceptance_engine'', ae_engine_identity (nd_acceptance n)),
      (''acceptance_receipt'', ae_receipt_bytes (nd_acceptance n)),
      (''acceptance_receipt_digest'', ae_receipt_digest (nd_acceptance n)),
      (''acceptance_bound_source_identity_digest'', ae_bound_source (nd_acceptance n)),
      (''acceptance_bound_independent_bundle_digest'', ae_bound_bundle (nd_acceptance n)),
      (''acceptance_bound_provided_interface_digest'', ae_bound_interface (nd_acceptance n))]"

definition node_payload :: "receipt_node \<Rightarrow> bytes gresult" where
  "node_payload n =
     res_bind (res_map assumption_payload (sort_key as_id (nd_assumed_interfaces n))) (\<lambda>ps.
     frames (node_fields n @ map (\<lambda>d. (''root_declaration'', d)) (sort (nd_root_declarations n)) @
             map (\<lambda>p. (''assumption'', p)) ps))"

definition edge_payload :: "receipt_edge \<Rightarrow> bytes gresult" where
  "edge_payload e = frames
     [(''supplier_node_id'', ed_supplier e), (''consumer_node_id'', ed_consumer e),
      (''consumer_assumption_id'', ed_assumption e)]"

definition graph_payload :: "receipt_graph \<Rightarrow> bytes gresult" where
  "graph_payload g =
     res_bind (res_map node_payload (sort_key nd_node_id (gr_nodes g))) (\<lambda>ns.
     res_bind (res_map edge_payload (sort_key edge_key (gr_edges g))) (\<lambda>es.
     frames ([(''schema_id'', gr_schema_id g), (''terminal_node_id'', gr_terminal g)] @
             map (\<lambda>p. (''node'', p)) ns @ map (\<lambda>p. (''edge'', p)) es)))"

definition graph_digest :: "(bytes \<Rightarrow> bytes) \<Rightarrow> receipt_graph \<Rightarrow> string gresult" where
  "graph_digest sha g = res_bind (graph_payload g) (\<lambda>p. Inr (sha256_digest sha p))"

section \<open>Verification\<close>

fun claim_declarations :: "string \<Rightarrow> string list \<Rightarrow> string pydict \<Rightarrow> string pydict gresult" where
  "claim_declarations nid [] owners = Inr owners"
| "claim_declarations nid (d # ds) owners =
     (case dict_get owners d of
        Some previous \<Rightarrow>
          graph_err ''root-declaration-owner-overlap'' (d @ '' is owned by both '' @ previous @ '' and '' @ nid)
      | None \<Rightarrow> claim_declarations nid ds (dict_set d nid owners))"

fun declaration_owners :: "receipt_node list \<Rightarrow> string pydict \<Rightarrow> string pydict gresult" where
  "declaration_owners [] owners = Inr owners"
| "declaration_owners (n # ns) owners =
     res_bind (claim_declarations (nd_node_id n) (nd_root_declarations n) owners) (declaration_owners ns)"

definition assumption_table :: "receipt_node list \<Rightarrow> ((string \<times> string) \<times> interface_assumption) list" where
  "assumption_table ns =
     dict_of (concat (map (\<lambda>n. map (\<lambda>a. ((nd_node_id n, as_id a), a)) (nd_assumed_interfaces n)) ns))"

record edge_state =
  es_supplied :: "(string \<times> string) list"
  es_adjacency :: "string list pydict"
  es_indegree :: "int pydict"

definition adjacent :: "string list pydict \<Rightarrow> string \<Rightarrow> string list" where
  "adjacent adj n = dict_get_or adj n []"

definition link_nodes :: "string \<Rightarrow> string \<Rightarrow> edge_state \<Rightarrow> edge_state" where
  "link_nodes s c st =
     (if c \<in> set (adjacent (es_adjacency st) s) then st
      else st\<lparr>es_adjacency := dict_set s (adjacent (es_adjacency st) s @ [c]) (es_adjacency st),
              es_indegree := dict_set c (dict_get_or (es_indegree st) c 0 + 1) (es_indegree st)\<rparr>)"

fun scan_edges ::
  "receipt_node pydict \<Rightarrow> ((string \<times> string) \<times> interface_assumption) list \<Rightarrow> receipt_edge list
   \<Rightarrow> edge_state \<Rightarrow> edge_state gresult" where
  "scan_edges nodes assumptions [] st = Inr st"
| "scan_edges nodes assumptions (e # es) st =
     (case (dict_get nodes (ed_supplier e), dict_get nodes (ed_consumer e)) of
        (Some supplier, Some consumer) \<Rightarrow>
          (let key = (ed_consumer e, ed_assumption e) in
           case dict_get assumptions key of
             None \<Rightarrow> graph_err ''unresolved-interface-assumption''
                 (ed_consumer e @ '' has no assumption '' @ ed_assumption e)
           | Some assumption \<Rightarrow>
               if key \<in> set (es_supplied st)
               then graph_err ''multiply-supplied-interface-assumption''
                 (ed_consumer e @ ''/'' @ ed_assumption e @ '' has multiple suppliers'')
               else if nd_provided_interface supplier \<noteq> as_interface assumption
               then graph_err ''canonical-interface-mismatch''
                 (ed_supplier e @ '' does not provide the exact canonical bytes assumed by '' @
                  ed_consumer e @ ''/'' @ ed_assumption e)
               else scan_edges nodes assumptions es
                 (link_nodes (ed_supplier e) (ed_consumer e) (st\<lparr>es_supplied := es_supplied st @ [key]\<rparr>)))
      | _ \<Rightarrow> graph_err ''unresolved-edge-node''
               (''edge '' @ ed_supplier e @ '' -> '' @ ed_consumer e @ '' does not resolve''))"

text \<open>The inner loop of the topological sort: the consumers of a popped node.\<close>

fun relax :: "string list \<Rightarrow> int pydict \<Rightarrow> string list \<Rightarrow> int pydict \<times> string list" where
  "relax [] indeg ready = (indeg, ready)"
| "relax (c # cs) indeg ready =
     (let d = dict_get_or indeg c 0 - 1;
          indeg' = dict_set c d indeg
      in relax cs indeg' (if d = 0 then insort c ready else ready))"

definition open_count :: "int pydict \<Rightarrow> nat" where
  "open_count indeg = length (filter (\<lambda>(_, d). 0 < d) indeg)"

lemma open_count_set_pos:
  "map_of indeg c = Some d0 \<Longrightarrow> 0 < d0 \<Longrightarrow> d \<le> 0 \<Longrightarrow> Suc (open_count (dict_set c d indeg)) \<le> open_count indeg"
  by (induction indeg) (auto simp: open_count_def split: if_splits)

lemma open_count_set_le:
  "d \<le> dict_get_or indeg c 0 \<Longrightarrow> open_count (dict_set c d indeg) \<le> open_count indeg"
  by (induction indeg) (auto simp: open_count_def dict_get_or_def split: if_splits)

lemma relax_measure:
  "relax cs indeg ready = (indeg', ready') \<Longrightarrow>
   length ready' + open_count indeg' \<le> length ready + open_count indeg"
proof (induction cs indeg ready rule: relax.induct)
  case (2 c cs indeg ready)
  let ?d = "dict_get_or indeg c 0 - 1"
  have "length (if ?d = 0 then insort c ready else ready) + open_count (dict_set c ?d indeg)
      \<le> length ready + open_count indeg"
  proof (cases "?d = 0")
    case True
    then have "map_of indeg c = Some 1" by (auto simp: dict_get_or_def split: option.splits)
    then show ?thesis using open_count_set_pos [of indeg c 1 0] True by simp
  next
    case False
    then show ?thesis using open_count_set_le [of ?d indeg c] by simp
  qed
  with 2 show ?case by (force simp: Let_def)
qed simp

function topological_loop :: "string list pydict \<Rightarrow> int pydict \<Rightarrow> string list \<Rightarrow> string list" where
  "topological_loop adj indeg [] = []"
| "topological_loop adj indeg (n # ready) =
     (let (indeg', ready') = relax (sort (adjacent adj n)) indeg ready
      in n # topological_loop adj indeg' ready')"
  by pat_completeness auto
termination
proof (relation "measure (\<lambda>(adj, indeg, ready). length ready + open_count indeg)", goal_cases)
  case (2 adj indeg n ready x indeg' ready')
  then have "relax (sort (adjacent adj n)) indeg ready = (indeg', ready')" by simp
  with relax_measure [OF this] 2(1) show ?case by auto
qed simp

definition reverse_adjacency :: "string list \<Rightarrow> string list pydict \<Rightarrow> string list pydict" where
  "reverse_adjacency ids adj =
     map (\<lambda>n. (n, map fst (filter (\<lambda>(s, cs). n \<in> set cs) adj))) ids"

lemma filter_shorter:
  assumes "x \<in> set xs" and "P x" and "\<not> Q x" and "\<And>y. Q y \<Longrightarrow> P y"
  shows "length (filter Q xs) < length (filter P xs)"
proof -
  have "filter Q xs = filter Q (filter P xs)" using assms(4) by (simp add: filter_filter) (metis)
  moreover have "x \<in> set (filter P xs)" using assms(1,2) by simp
  ultimately show ?thesis using length_filter_less [of x "filter P xs" Q] assms(3) by simp
qed

text \<open>The search from the terminal node; \<open>frontier.pop()\<close> takes the last entry.\<close>

function reach_loop :: "string list pydict \<Rightarrow> string list \<Rightarrow> string list \<Rightarrow> string list" where
  "reach_loop rev_adj reached frontier =
     (if frontier = [] then reached
      else let new = remdups (filter (\<lambda>s. s \<notin> set reached) (adjacent rev_adj (last frontier)))
           in reach_loop rev_adj (reached @ new) (butlast frontier @ new))"
  by pat_completeness auto
termination
proof (relation "measures [\<lambda>(r, reached, frontier). length (filter (\<lambda>s. s \<notin> set reached) (concat (map snd r))),
                           \<lambda>(r, reached, frontier). length frontier]", goal_cases)
  case (2 r reached frontier new)
  show ?case
  proof (cases "new = []")
    case False
    then obtain x where x: "x \<in> set new" by (cases new) auto
    then have "x \<in> set (adjacent r (last frontier))" "x \<notin> set reached" using 2(2) by auto
    then have "x \<in> set (concat (map snd r))"
      by (cases "dict_get r (last frontier)") (auto simp: adjacent_def dest!: map_of_SomeD intro: bexI [of _ "(last frontier, _)"])
    then have "length (filter (\<lambda>s. s \<notin> set (reached @ new)) (concat (map snd r)))
        < length (filter (\<lambda>s. s \<notin> set reached) (concat (map snd r)))"
      using x \<open>x \<notin> set reached\<close> by (intro filter_shorter [of x]) auto
    then show ?thesis by simp
  qed (use 2 in simp)
qed simp

declare reach_loop.simps [simp del]

definition initial_edge_state :: "string list \<Rightarrow> edge_state" where
  "initial_edge_state ids =
     \<lparr>es_supplied = [], es_adjacency = map (\<lambda>n. (n, [])) ids, es_indegree = map (\<lambda>n. (n, 0)) ids\<rparr>"

definition topological_order :: "edge_state \<Rightarrow> string list" where
  "topological_order st =
     topological_loop (es_adjacency st) (es_indegree st)
       (sort (map fst (filter (\<lambda>(_, d). d = 0) (es_indegree st))))"

text \<open>The checks of \<open>verify\<close> up to the scan of the edges, which later checks start from.\<close>

definition scan_graph :: "receipt_graph \<Rightarrow> (string pydict \<times> edge_state) gresult" where
  "scan_graph g =
     (let nodes = dict_of (map (\<lambda>n. (nd_node_id n, n)) (gr_nodes g)); ids = dict_keys nodes in
      if gr_schema_id g \<noteq> GRAPH_SCHEMA then graph_err ''invalid-schema'' (''expected '' @ GRAPH_SCHEMA)
      else if gr_nodes g = []
      then graph_err ''empty-receipt-graph'' ''the receipt graph must contain at least one accepted node''
      else if length nodes \<noteq> length (gr_nodes g)
      then graph_err ''duplicate-node-id'' ''receipt node identities must be unique''
      else if gr_terminal g \<notin> set ids
      then graph_err ''unresolved-terminal-node'' (''terminal node '' @ gr_terminal g @ '' does not exist'')
      else res_bind (declaration_owners (gr_nodes g) []) (\<lambda>owners.
           res_bind (scan_edges nodes (assumption_table (gr_nodes g)) (gr_edges g) (initial_edge_state ids)) (\<lambda>st.
           Inr (owners, st))))"

definition verify_graph :: "(bytes \<Rightarrow> bytes) \<Rightarrow> receipt_graph \<Rightarrow> composition_receipt gresult" where
  "verify_graph sha g =
     res_bind (scan_graph g) (\<lambda>(owners, st).
     let ids = dict_keys (dict_of (map (\<lambda>n. (nd_node_id n, n)) (gr_nodes g)));
         unresolved = sort (filter (\<lambda>k. k \<notin> set (es_supplied st)) (dict_keys (assumption_table (gr_nodes g)))) in
     if unresolved \<noteq> []
     then graph_err ''unresolved-interface-assumption''
       (fst (hd unresolved) @ ''/'' @ snd (hd unresolved) @ '' has no supplier edge'')
     else if adjacent (es_adjacency st) (gr_terminal g) \<noteq> []
     then graph_err ''terminal-node-has-consumer'' (''terminal node '' @ gr_terminal g @ '' must be a sink'')
     else
       let order = topological_order st in
       if length order \<noteq> length (gr_nodes g)
       then graph_err ''cyclic-receipt-graph'' ''receipt dependencies must form a DAG''
       else
         let reached = reach_loop (reverse_adjacency ids (es_adjacency st)) [gr_terminal g] [gr_terminal g];
             disconnected = sort (filter (\<lambda>n. n \<notin> set reached) ids) in
         if disconnected \<noteq> []
         then graph_err ''node-outside-terminal-closure''
           (''node '' @ hd disconnected @ '' does not contribute to terminal '' @ gr_terminal g)
         else res_bind (graph_digest sha g) (\<lambda>d.
           Inr \<lparr>cr_schema_id = COMPOSITION_SCHEMA, cr_graph_digest = d, cr_terminal = gr_terminal g,
                cr_topological_order = order, cr_node_count = length (gr_nodes g),
                cr_edge_count = length (gr_edges g), cr_root_declaration_count = length owners\<rparr>))"

end
