(* ===== verification/Receipt_Graph_Props.thy ===== *)
theory Receipt_Graph_Props
  imports Receipt_Graph
begin

text \<open>
  The properties of receipt graphs: the digest identifies a graph, and a graph that is verified
  is a sound composition, without circular reasoning.
\<close>

section \<open>Framing is injective\<close>

lemma be_bytes_inject: "n < 256 ^ k \<Longrightarrow> m < 256 ^ k \<Longrightarrow> be_bytes k n = be_bytes k m \<Longrightarrow> n = m"
proof (induction k arbitrary: n m)
  case (Suc k)
  then have "n div 256 < 256 ^ k" "m div 256 < 256 ^ k" by (simp_all add: less_mult_imp_div_less mult.commute)
  with Suc have "n div 256 = m div 256" by simp
  moreover have "n mod 256 = m mod 256"
    using arg_cong [of "char_of (n mod 256)" "char_of (m mod 256)" "of_char :: char \<Rightarrow> nat"] Suc.prems(3) by simp
  ultimately show ?case by (metis div_mult_mod_eq)
qed simp

lemma length_be_bytes [simp]: "length (be_bytes k n) = k"
  by (induction k arbitrary: n) simp_all

lemma to_bytes_Inr: "to_bytes k n = Inr b \<longleftrightarrow> n < 256 ^ k \<and> b = be_bytes k n"
  by (auto simp: to_bytes_def)

lemma append_len_inject: "a @ x = b @ y \<Longrightarrow> length a = length b \<Longrightarrow> a = b \<and> x = y"
  by simp

lemma frame_bytes_inject:
  assumes "frame_bytes l p = Inr a" and "frame_bytes m q = Inr b" and "a @ x = b @ y"
  shows "l = m \<and> p = q \<and> x = y"
proof -
  from assms(1) have a: "length l < 256 ^ 4" "length p < 256 ^ 8"
    "a = be_bytes 4 (length l) @ l @ be_bytes 8 (length p) @ p"
    by (auto simp: frame_bytes_def res_bind_Inr_iff to_bytes_Inr simp del: power_numeral)
  from assms(2) have b: "length m < 256 ^ 4" "length q < 256 ^ 8"
    "b = be_bytes 4 (length m) @ m @ be_bytes 8 (length q) @ q"
    by (auto simp: frame_bytes_def res_bind_Inr_iff to_bytes_Inr simp del: power_numeral)
  from assms(3) a(3) b(3) have e: "be_bytes 4 (length l) @ l @ be_bytes 8 (length p) @ p @ x =
      be_bytes 4 (length m) @ m @ be_bytes 8 (length q) @ q @ y" by simp
  then have "be_bytes 4 (length l) = be_bytes 4 (length m)"
    and e1: "l @ be_bytes 8 (length p) @ p @ x = m @ be_bytes 8 (length q) @ q @ y"
    using append_len_inject [OF e] by simp_all
  then have "length l = length m" using be_bytes_inject a(1) b(1) by blast
  with append_len_inject [OF e1] have lm: "l = m"
    and e3: "be_bytes 8 (length p) @ p @ x = be_bytes 8 (length q) @ q @ y" by simp_all
  have "be_bytes 8 (length p) = be_bytes 8 (length q)" and e2: "p @ x = q @ y"
    using append_len_inject [OF e3] by simp_all
  then have "length p = length q" using be_bytes_inject a(2) b(2) by blast
  with lm e2 show ?thesis by simp
qed

lemma frame_bytes_nonempty: "frame_bytes l p = Inr a \<Longrightarrow> a \<noteq> []"
  by (auto simp: frame_bytes_def res_bind_Inr_iff to_bytes_Inr) (metis length_be_bytes list.size(3) zero_neq_numeral)

lemma frames_simps:
  "frames [] = Inr []"
  "frames ((l, p) # xs) = Inr b \<longleftrightarrow> (\<exists>f r. frame_bytes l p = Inr f \<and> frames xs = Inr r \<and> b = f @ r)"
  by (auto simp: frames_def res_bind_Inr_iff)

lemma frames_inject: "frames xs = Inr b \<Longrightarrow> frames ys = Inr b \<Longrightarrow> xs = ys"
proof (induction xs arbitrary: ys b)
  case Nil
  then show ?case by (cases ys) (auto simp: frames_simps dest: frame_bytes_nonempty)
next
  case (Cons x xs)
  show ?case
  proof (cases ys)
    case Nil
    with Cons.prems show ?thesis by (cases x) (auto simp: frames_simps dest: frame_bytes_nonempty)
  next
    case (Cons y ys')
    with Cons.prems Cons.IH show ?thesis
      by (cases x; cases y) (auto simp: frames_simps dest: frame_bytes_inject)
  qed
qed

section \<open>The digest identifies the graph\<close>

lemma assumption_payload_inject: "assumption_payload a = Inr p \<Longrightarrow> assumption_payload b = Inr p \<Longrightarrow> a = b"
  unfolding assumption_payload_def by (drule (1) frames_inject) simp

lemma edge_payload_inject: "edge_payload a = Inr p \<Longrightarrow> edge_payload b = Inr p \<Longrightarrow> a = b"
  unfolding edge_payload_def by (drule (1) frames_inject) simp

lemma res_map_inject:
  assumes "res_map f xs = Inr zs" and "res_map f ys = Inr zs"
    and "\<And>x y z. x \<in> set xs \<Longrightarrow> y \<in> set ys \<Longrightarrow> f x = Inr z \<Longrightarrow> f y = Inr z \<Longrightarrow> x = y"
  shows "xs = ys"
  using assms
proof (induction xs arbitrary: ys zs)
  case Nil
  then show ?case by (cases ys) (auto simp: res_bind_Inr_iff)
next
  case (Cons x xs)
  then obtain y ys' where "ys = y # ys'" by (cases ys) (auto simp: res_bind_Inr_iff)
  with Cons show ?case by (auto simp: res_bind_Inr_iff)
qed

lemma map_labelled_split:
  assumes "map (Pair a) xs @ map (Pair b) ys = map (Pair a) xs' @ map (Pair b) ys'" and "a \<noteq> b"
  shows "xs = xs' \<and> ys = ys'"
proof -
  have f: "map snd (filter (\<lambda>x. fst x = a) (map (Pair a) us @ map (Pair b) vs)) = us"
    "map snd (filter (\<lambda>x. fst x = b) (map (Pair a) us @ map (Pair b) vs)) = vs" for us vs :: "'b list"
    using assms(2) by (induction us; induction vs; simp)+
  from f [of xs ys] f [of xs' ys'] assms(1) show ?thesis by metis
qed

text \<open>A node as \<open>make_receipt_node\<close> leaves it, with evidence that \<open>check_evidence\<close> let through.\<close>

definition made_node :: "(bytes \<Rightarrow> bytes) \<Rightarrow> receipt_node \<Rightarrow> bool" where
  "made_node sha n \<longleftrightarrow> make_receipt_node n = Inr n \<and> check_evidence sha (nd_acceptance n) = Inr (nd_acceptance n)"

definition made_graph :: "(bytes \<Rightarrow> bytes) \<Rightarrow> receipt_graph \<Rightarrow> bool" where
  "made_graph sha g \<longleftrightarrow> g = make_receipt_graph (gr_schema_id g) (gr_nodes g) (gr_edges g) (gr_terminal g) \<and>
     (\<forall>n \<in> set (gr_nodes g). made_node sha n)"

lemma made_node_sorted:
  assumes "made_node sha n"
  shows "sort (nd_root_declarations n) = nd_root_declarations n"
    and "sort_key as_id (nd_assumed_interfaces n) = nd_assumed_interfaces n"
    and "ae_decision (nd_acceptance n) = ''accepted''"
proof -
  from assms have n: "n = n\<lparr>nd_root_declarations := sort (nd_root_declarations n),
      nd_assumed_interfaces := sort_key as_id (nd_assumed_interfaces n)\<rparr>"
    by (auto simp: made_node_def make_receipt_node_def Let_def res_bind_Inr_iff split: if_splits)
  from arg_cong [OF n, of nd_root_declarations] show "sort (nd_root_declarations n) = nd_root_declarations n" by simp
  from arg_cong [OF n, of nd_assumed_interfaces] show "sort_key as_id (nd_assumed_interfaces n) = nd_assumed_interfaces n" by simp
  from assms show "ae_decision (nd_acceptance n) = ''accepted''"
    by (auto simp: made_node_def check_evidence_def res_bind_Inr_iff split: if_splits)
qed

lemma node_payload_inject:
  assumes "made_node sha n" and "made_node sha m" and "node_payload n = Inr p" and "node_payload m = Inr p"
  shows "n = m"
proof -
  from assms(3) obtain ps where ps: "res_map assumption_payload (nd_assumed_interfaces n) = Inr ps"
    and fn: "frames (node_fields n @ map (Pair ''root_declaration'') (nd_root_declarations n) @ map (Pair ''assumption'') ps) = Inr p"
    by (auto simp: node_payload_def res_bind_Inr_iff made_node_sorted [OF assms(1)])
  from assms(4) obtain qs where qs: "res_map assumption_payload (nd_assumed_interfaces m) = Inr qs"
    and fm: "frames (node_fields m @ map (Pair ''root_declaration'') (nd_root_declarations m) @ map (Pair ''assumption'') qs) = Inr p"
    by (auto simp: node_payload_def res_bind_Inr_iff made_node_sorted [OF assms(2)])
  have e: "node_fields n @ map (Pair ''root_declaration'') (nd_root_declarations n) @ map (Pair ''assumption'') ps =
      node_fields m @ map (Pair ''root_declaration'') (nd_root_declarations m) @ map (Pair ''assumption'') qs"
    using fn fm by (rule frames_inject)
  have "length (node_fields n) = length (node_fields m)" by (simp add: node_fields_def)
  with append_len_inject [OF e] have f: "node_fields n = node_fields m"
    and r: "map (Pair ''root_declaration'') (nd_root_declarations n) @ map (Pair ''assumption'') ps =
      map (Pair ''root_declaration'') (nd_root_declarations m) @ map (Pair ''assumption'') qs"
    by simp_all
  from map_labelled_split [OF r] have d: "nd_root_declarations n = nd_root_declarations m" "ps = qs" by simp_all
  with ps qs have "nd_assumed_interfaces n = nd_assumed_interfaces m"
    using res_map_inject assumption_payload_inject by blast
  with f d made_node_sorted(3) [OF assms(1)] made_node_sorted(3) [OF assms(2)] show ?thesis
    by (cases "nd_acceptance n"; cases "nd_acceptance m") (simp add: node_fields_def)
qed

lemma graph_payload_inject:
  assumes "made_graph sha g" and "made_graph sha h" and "graph_payload g = Inr p" and "graph_payload h = Inr p"
  shows "g = h"
proof -
  have sg: "sort_key nd_node_id (gr_nodes g) = gr_nodes g" "sort_key edge_key (gr_edges g) = gr_edges g"
    if "made_graph sha g" for g
    using that arg_cong [of g "make_receipt_graph (gr_schema_id g) (gr_nodes g) (gr_edges g) (gr_terminal g)"]
    unfolding made_graph_def make_receipt_graph_def by (metis receipt_graph.select_convs(2,3))+
  from assms(3) sg [OF assms(1)] obtain ns es where g: "res_map node_payload (gr_nodes g) = Inr ns"
    "res_map edge_payload (gr_edges g) = Inr es"
    "frames ([(''schema_id'', gr_schema_id g), (''terminal_node_id'', gr_terminal g)] @ map (Pair ''node'') ns @ map (Pair ''edge'') es) = Inr p"
    by (auto simp: graph_payload_def res_bind_Inr_iff simp del: append.simps)
  from assms(4) sg [OF assms(2)] obtain ns' es' where h: "res_map node_payload (gr_nodes h) = Inr ns'"
    "res_map edge_payload (gr_edges h) = Inr es'"
    "frames ([(''schema_id'', gr_schema_id h), (''terminal_node_id'', gr_terminal h)] @ map (Pair ''node'') ns' @ map (Pair ''edge'') es') = Inr p"
    by (auto simp: graph_payload_def res_bind_Inr_iff simp del: append.simps)
  from frames_inject [OF g(3) h(3)] have t: "gr_schema_id g = gr_schema_id h" "gr_terminal g = gr_terminal h"
    and r: "map (Pair ''node'') ns @ map (Pair ''edge'') es = map (Pair ''node'') ns' @ map (Pair ''edge'') es'"
    by simp_all
  from map_labelled_split [OF r] have "ns = ns'" "es = es'" by simp_all
  with g h have "gr_edges g = gr_edges h" using res_map_inject edge_payload_inject by blast
  moreover have "gr_nodes g = gr_nodes h"
    using res_map_inject [OF g(1) h(1) [folded \<open>ns = ns'\<close>]] node_payload_inject assms(1,2)
    unfolding made_graph_def by blast
  ultimately show ?thesis using t by simp
qed

text \<open>
  C12. The digest of a receipt graph identifies it: two constructed graphs with one digest are the
  same graph, with the same nodes, interfaces, receipts, assumptions and edges, unless SHA-256
  collides on the two framed texts.
\<close>

theorem graph_digest_identifies:
  assumes "made_graph sha g" and "made_graph sha h" and "graph_digest sha g = Inr d" and "graph_digest sha h = Inr d"
    and "inj_on sha {p. graph_payload g = Inr p \<or> graph_payload h = Inr p}"
  shows "g = h"
proof -
  from assms(3,4) obtain p q where p: "graph_payload g = Inr p" and q: "graph_payload h = Inr q" and "sha p = sha q"
    by (auto simp: graph_digest_def res_bind_Inr_iff sha256_digest_def)
  with assms(5) have "p = q" by (auto simp: inj_on_def)
  with p q graph_payload_inject [OF assms(1,2)] show ?thesis by simp
qed

section \<open>The topological loop\<close>

definition preds :: "string list pydict \<Rightarrow> string \<Rightarrow> string set" where
  "preds adj c = {s. c \<in> set (adjacent adj s)}"

lemma relax_all:
  "relax cs indeg ready = (indeg', ready') \<Longrightarrow> distinct cs \<Longrightarrow>
     (\<forall>x. dict_get_or indeg' x 0 = dict_get_or indeg x 0 - (if x \<in> set cs then 1 else 0)) \<and>
     set ready' = set ready \<union> {c \<in> set cs. dict_get_or indeg c 0 = 1} \<and>
     (distinct ready \<and> {c \<in> set cs. dict_get_or indeg c 0 = 1} \<inter> set ready = {} \<longrightarrow> distinct ready')"
proof (induction cs indeg ready rule: relax.induct)
  case (2 c cs indeg ready)
  let ?d = "dict_get_or indeg c 0 - 1"
  let ?i = "dict_set c ?d indeg" and ?r = "if ?d = 0 then insort c ready else ready"
  have get: "dict_get_or ?i y 0 = (if y = c then ?d else dict_get_or indeg y 0)" for y
    by (simp add: dict_get_or_def)
  have rest: "relax cs ?i ?r = (indeg', ready')" and c: "c \<notin> set cs" "distinct cs"
    using 2(2,3) by (simp_all add: Let_def)
  have e: "{y \<in> set cs. dict_get_or ?i y 0 = 1} = {y \<in> set cs. dict_get_or indeg y 0 = 1}"
    using get c(1) by auto
  note IH = 2(1) [OF HOL.refl HOL.refl rest c(2)]
  have g: "dict_get_or indeg' x 0 = dict_get_or indeg x 0 - (if x \<in> set (c # cs) then 1 else 0)" for x
    using IH get [of x] c(1) by (cases "x = c") simp_all
  have sr: "set ready' = set ready \<union> {y \<in> set (c # cs). dict_get_or indeg y 0 = 1}"
    using IH unfolding e by (auto simp: set_insort_key)
  have "distinct ready'" if "distinct ready" "{y \<in> set (c # cs). dict_get_or indeg y 0 = 1} \<inter> set ready = {}"
  proof -
    have "distinct ?r" using that by (auto simp: distinct_insort)
    moreover have "{y \<in> set cs. dict_get_or ?i y 0 = 1} \<inter> set ?r = {}"
      using that(2) c(1) unfolding e by (auto simp: set_insort_key)
    ultimately show ?thesis using IH by blast
  qed
  with g sr show ?case by blast
qed simp

lemma relax_spec:
  assumes "relax cs indeg ready = (indeg', ready')" and "distinct cs"
  shows "dict_get_or indeg' x 0 = dict_get_or indeg x 0 - (if x \<in> set cs then 1 else 0)"
    and "set ready' = set ready \<union> {c \<in> set cs. dict_get_or indeg c 0 = 1}"
    and "distinct ready \<Longrightarrow> {c \<in> set cs. dict_get_or indeg c 0 = 1} \<inter> set ready = {} \<Longrightarrow> distinct ready'"
  using relax_all [OF assms] by blast+

text \<open>What holds when the nodes of \<open>D\<close> are done.\<close>

definition kahn_inv :: "string list pydict \<Rightarrow> string set \<Rightarrow> string set \<Rightarrow> int pydict \<Rightarrow> string list \<Rightarrow> bool" where
  "kahn_inv adj ids D indeg ready \<longleftrightarrow>
     (\<forall>c. dict_get_or indeg c 0 = int (card (preds adj c - D))) \<and> distinct ready \<and>
     set ready = {c \<in> ids. c \<notin> D \<and> preds adj c \<subseteq> D} \<and> (\<forall>c \<in> D. preds adj c \<subseteq> D)"

definition adj_ok :: "string list pydict \<Rightarrow> string set \<Rightarrow> bool" where
  "adj_ok adj ids \<longleftrightarrow> finite ids \<and>
     (\<forall>s c. c \<in> set (adjacent adj s) \<longrightarrow> s \<in> ids \<and> c \<in> ids) \<and> (\<forall>s. distinct (adjacent adj s))"

lemma finite_preds: "adj_ok adj ids \<Longrightarrow> finite (preds adj c)"
  by (rule finite_subset [of _ ids]) (auto simp: adj_ok_def preds_def)

lemma kahn_step:
  assumes ok: "adj_ok adj ids" and inv: "kahn_inv adj ids D indeg (n # ready)"
    and r: "relax (sort (adjacent adj n)) indeg ready = (indeg', ready')"
  shows "kahn_inv adj ids (insert n D) indeg' ready'"
proof -
  have n: "n \<in> ids" "n \<notin> D" "preds adj n \<subseteq> D"
    and deg: "dict_get_or indeg c 0 = int (card (preds adj c - D))" for c
    using inv by (auto simp: kahn_inv_def)
  have d: "distinct (sort (adjacent adj n))" using ok by (simp add: adj_ok_def)
  note spec = relax_spec [OF r d]
  have fin: "finite (preds adj c - D)" for c using finite_preds [OF ok] by simp
  have mem: "c \<in> set (adjacent adj n) \<longleftrightarrow> n \<in> preds adj c" for c by (simp add: preds_def)
  have deg': "dict_get_or indeg' c 0 = int (card (preds adj c - insert n D))" for c
  proof (cases "n \<in> preds adj c")
    case True
    then have "preds adj c - D = insert n (preds adj c - insert n D)" using n(2) by auto
    then have "card (preds adj c - D) = Suc (card (preds adj c - insert n D))"
      using fin [of c] by (metis Diff_iff card_insert_disjoint finite_insert insertI1)
    with True spec(1) [of c] deg [of c] mem show ?thesis by simp
  next
    case False
    then have "preds adj c - insert n D = preds adj c - D" by auto
    with False spec(1) [of c] deg [of c] mem show ?thesis by simp
  qed
  have one: "dict_get_or indeg c 0 = 1 \<longleftrightarrow> preds adj c - D = {n}" if "n \<in> preds adj c" for c
  proof
    assume "dict_get_or indeg c 0 = 1"
    then have "card (preds adj c - D) = 1" using deg [of c] by simp
    then obtain x where "preds adj c - D = {x}" by (rule card_1_singletonE)
    moreover have "n \<in> preds adj c - D" using that n(2) by simp
    ultimately show "preds adj c - D = {n}" by simp
  next
    assume "preds adj c - D = {n}"
    then show "dict_get_or indeg c 0 = 1" using deg [of c] by simp
  qed
  have new: "{c \<in> set (sort (adjacent adj n)). dict_get_or indeg c 0 = 1} = {c. n \<in> preds adj c \<and> preds adj c - D = {n}}"
    using one mem by auto
  have rd: "set ready = {c \<in> ids. c \<notin> D \<and> preds adj c \<subseteq> D} - {n}" and dr: "distinct ready"
    using inv by (auto simp: kahn_inv_def)
  have closed: "\<forall>c \<in> insert n D. preds adj c \<subseteq> insert n D" using inv n(3) by (auto simp: kahn_inv_def)
  have ids: "n \<in> preds adj c \<Longrightarrow> c \<in> ids" for c using ok by (auto simp: adj_ok_def preds_def)
  have "set ready' = set ready \<union> {c. n \<in> preds adj c \<and> preds adj c - D = {n}}" using spec(2) new by simp
  also have "\<dots> = {c \<in> ids. c \<notin> insert n D \<and> preds adj c \<subseteq> insert n D}"
  proof (intro set_eqI iffI)
    fix c assume "c \<in> set ready \<union> {c. n \<in> preds adj c \<and> preds adj c - D = {n}}"
    then show "c \<in> {c \<in> ids. c \<notin> insert n D \<and> preds adj c \<subseteq> insert n D}"
    proof
      assume "c \<in> set ready"
      then show ?thesis using rd by auto
    next
      assume c: "c \<in> {c. n \<in> preds adj c \<and> preds adj c - D = {n}}"
      then have "c \<notin> D" using closed inv n(2) by (auto simp: kahn_inv_def)
      moreover have "c \<noteq> n" using c n by auto
      ultimately show ?thesis using c ids by auto
    qed
  next
    fix c assume "c \<in> {c \<in> ids. c \<notin> insert n D \<and> preds adj c \<subseteq> insert n D}"
    then show "c \<in> set ready \<union> {c. n \<in> preds adj c \<and> preds adj c - D = {n}}" using rd n(2) by auto
  qed
  finally have "set ready' = {c \<in> ids. c \<notin> insert n D \<and> preds adj c \<subseteq> insert n D}" .
  moreover have "distinct ready'" by (rule spec(3) [OF dr]) (use new rd in auto)
  ultimately show ?thesis using deg' closed by (simp add: kahn_inv_def)
qed

fun ordered :: "string list pydict \<Rightarrow> string set \<Rightarrow> string list \<Rightarrow> bool" where
  "ordered adj D [] = True"
| "ordered adj D (n # ns) = (n \<notin> D \<and> preds adj n \<subseteq> D \<and> ordered adj (insert n D) ns)"

lemma topological_loop_correct:
  assumes "adj_ok adj ids" and "kahn_inv adj ids D indeg ready" and "D \<subseteq> ids"
  shows "ordered adj D (topological_loop adj indeg ready) \<and> set (topological_loop adj indeg ready) \<subseteq> ids \<and>
    (\<forall>c \<in> ids - (D \<union> set (topological_loop adj indeg ready)).
       \<exists>s \<in> ids - (D \<union> set (topological_loop adj indeg ready)). s \<in> preds adj c)"
  using assms
proof (induction adj indeg ready arbitrary: D rule: topological_loop.induct)
  case (1 adj indeg)
  have "\<exists>s \<in> ids - D. s \<in> preds adj c" if "c \<in> ids - D" for c
  proof -
    have "\<not> preds adj c \<subseteq> D" using 1(2) that by (auto simp: kahn_inv_def)
    then obtain s where "s \<in> preds adj c" "s \<notin> D" by blast
    moreover from this have "s \<in> ids" using 1(1) by (auto simp: adj_ok_def preds_def)
    ultimately show ?thesis by blast
  qed
  then show ?case by simp
next
  case (2 adj indeg n ready)
  obtain i' r' where r: "relax (sort (adjacent adj n)) indeg ready = (i', r')" by force
  have n: "n \<in> ids" "n \<notin> D" "preds adj n \<subseteq> D" using 2(3) by (auto simp: kahn_inv_def)
  have "ordered adj (insert n D) (topological_loop adj i' r') \<and> set (topological_loop adj i' r') \<subseteq> ids \<and>
    (\<forall>c \<in> ids - (insert n D \<union> set (topological_loop adj i' r')).
       \<exists>s \<in> ids - (insert n D \<union> set (topological_loop adj i' r')). s \<in> preds adj c)"
    by (rule 2(1) [OF r [symmetric] HOL.refl 2(2) kahn_step [OF 2(2,3) r]]) (use 2(4) n(1) in simp)
  with n r show ?case by simp
qed

lemma ordered_distinct: "ordered adj D ns \<Longrightarrow> distinct ns \<and> set ns \<inter> D = {}"
  by (induction adj D ns rule: ordered.induct) auto

lemma ordered_before:
  "ordered adj D (xs @ n # ys) \<Longrightarrow> preds adj n \<subseteq> D \<union> set xs"
  by (induction xs arbitrary: D) auto


section \<open>The scan of the edges\<close>

definition edge_supply :: "receipt_edge \<Rightarrow> string \<times> string" where
  "edge_supply e = (ed_consumer e, ed_assumption e)"

definition edge_good ::
  "receipt_node pydict \<Rightarrow> ((string \<times> string) \<times> interface_assumption) list \<Rightarrow> receipt_edge \<Rightarrow> bool" where
  "edge_good nodes tab e \<longleftrightarrow> (\<exists>s c a. dict_get nodes (ed_supplier e) = Some s \<and> dict_get nodes (ed_consumer e) = Some c \<and>
     dict_get tab (edge_supply e) = Some a \<and> nd_provided_interface s = as_interface a)"

definition state_ok :: "string list \<Rightarrow> edge_state \<Rightarrow> bool" where
  "state_ok ids st \<longleftrightarrow> adj_ok (es_adjacency st) (set ids) \<and> dict_keys (es_indegree st) = ids \<and>
     dict_keys (es_adjacency st) = ids \<and>
     (\<forall>c. dict_get_or (es_indegree st) c 0 = int (card (preds (es_adjacency st) c)))"

lemma adjacent_set: "adjacent (dict_set s xs adj) t = (if t = s then xs else adjacent adj t)"
  by (simp add: adjacent_def dict_get_or_def)

lemma dict_keys_set_present: "k \<in> set (dict_keys d) \<Longrightarrow> dict_keys (dict_set k v d) = dict_keys d"
  by (induction d) auto

lemma dict_get_zero: "dict_get d n = Some 0 \<longleftrightarrow> n \<in> set (dict_keys d) \<and> dict_get_or d n 0 = (0 :: int)"
proof (cases "dict_get d n")
  case None
  then have "n \<notin> set (dict_keys d)" by (simp add: map_of_eq_None_iff)
  with None show ?thesis by simp
next
  case (Some x)
  then have "n \<in> set (dict_keys d)" by (auto dest!: map_of_SomeD intro: rev_image_eqI)
  with Some show ?thesis by simp
qed

lemma link_nodes_ok:
  assumes "state_ok ids st" and "s \<in> set ids" and "c \<in> set ids"
  shows "state_ok ids (link_nodes s c st)"
    and "preds (es_adjacency (link_nodes s c st)) d = (if d = c then insert s (preds (es_adjacency st) c) else preds (es_adjacency st) d)"
proof -
  show p: "preds (es_adjacency (link_nodes s c st)) d =
      (if d = c then insert s (preds (es_adjacency st) c) else preds (es_adjacency st) d)" for d
    by (auto simp: link_nodes_def preds_def adjacent_set)
  show "state_ok ids (link_nodes s c st)"
  proof (cases "c \<in> set (adjacent (es_adjacency st) s)")
    case True
    with assms(1) show ?thesis by (simp add: link_nodes_def)
  next
    case False
    let ?st = "link_nodes s c st"
    have "adj_ok (es_adjacency ?st) (set ids)"
      using assms False by (auto simp: state_ok_def adj_ok_def link_nodes_def adjacent_set)
    moreover have "dict_keys (es_adjacency ?st) = ids"
      using assms(1,2) False by (simp add: state_ok_def link_nodes_def dict_keys_set_present)
    moreover have "dict_keys (es_indegree ?st) = ids"
      using assms(1,3) False by (simp add: state_ok_def link_nodes_def dict_keys_set_present)
    moreover have "dict_get_or (es_indegree ?st) d 0 = int (card (preds (es_adjacency ?st) d))" for d
    proof -
      have "s \<notin> preds (es_adjacency st) c" using False by (simp add: preds_def)
      moreover have "finite (preds (es_adjacency st) c)"
        using assms(1) finite_preds [of "es_adjacency st" "set ids"] by (simp add: state_ok_def)
      ultimately show ?thesis using assms(1) False unfolding p
        by (simp add: state_ok_def link_nodes_def dict_get_or_def split: option.splits)
    qed
    ultimately show ?thesis by (simp add: state_ok_def)
  qed
qed

lemma scan_edges_spec:
  assumes "scan_edges nodes tab es st = Inr st'" and "state_ok (dict_keys nodes) st"
  shows "(\<forall>e \<in> set es. edge_good nodes tab e) \<and> state_ok (dict_keys nodes) st' \<and>
    es_supplied st' = es_supplied st @ map edge_supply es \<and>
    (distinct (es_supplied st) \<longrightarrow> distinct (es_supplied st')) \<and>
    (\<forall>s c. s \<in> preds (es_adjacency st') c \<longleftrightarrow> s \<in> preds (es_adjacency st) c \<or>
        (\<exists>e \<in> set es. ed_supplier e = s \<and> ed_consumer e = c))"
  using assms
proof (induction nodes tab es st rule: scan_edges.induct)
  case (2 nodes tab e es st)
  let ?st = "st\<lparr>es_supplied := es_supplied st @ [(ed_consumer e, ed_assumption e)]\<rparr>"
  let ?st1 = "link_nodes (ed_supplier e) (ed_consumer e) ?st"
  from 2(2) obtain s c a where g: "dict_get nodes (ed_supplier e) = Some s" "dict_get nodes (ed_consumer e) = Some c"
    "dict_get tab (ed_consumer e, ed_assumption e) = Some a" "(ed_consumer e, ed_assumption e) \<notin> set (es_supplied st)"
    "nd_provided_interface s = as_interface a" and rest: "scan_edges nodes tab es ?st1 = Inr st'"
    by (auto simp: Let_def split: option.splits if_splits)
  have in_ids: "ed_supplier e \<in> set (dict_keys nodes)" "ed_consumer e \<in> set (dict_keys nodes)"
    using g(1,2) by (auto dest!: map_of_SomeD intro: rev_image_eqI)
  have ok: "state_ok (dict_keys nodes) ?st" using 2(3) by (simp add: state_ok_def)
  note ok1 = link_nodes_ok [OF ok in_ids]
  have sup: "es_supplied ?st1 = es_supplied st @ [edge_supply e]" by (simp add: link_nodes_def edge_supply_def)
  have IH: "(\<forall>e \<in> set es. edge_good nodes tab e) \<and> state_ok (dict_keys nodes) st' \<and>
    es_supplied st' = es_supplied ?st1 @ map edge_supply es \<and>
    (distinct (es_supplied ?st1) \<longrightarrow> distinct (es_supplied st')) \<and>
    (\<forall>s c. s \<in> preds (es_adjacency st') c \<longleftrightarrow> s \<in> preds (es_adjacency ?st1) c \<or>
        (\<exists>e \<in> set es. ed_supplier e = s \<and> ed_consumer e = c))"
    by (rule 2(1) [OF HOL.refl _ _ HOL.refl _ _ _ rest ok1(1)]) (use g in auto)
  have good: "edge_good nodes tab e" using g by (auto simp: edge_good_def edge_supply_def)
  have d1: "distinct (es_supplied st) \<Longrightarrow> distinct (es_supplied ?st1)" using g(4) by (simp add: sup edge_supply_def)
  have dist: "distinct (es_supplied st) \<longrightarrow> distinct (es_supplied st')"
    using IH d1 by blast
  have pr: "s \<in> preds (es_adjacency ?st1) c \<longleftrightarrow> s \<in> preds (es_adjacency st) c \<or> (ed_supplier e = s \<and> ed_consumer e = c)" for s c
    using ok1(2) [of c] by auto
  show ?case
  proof (intro conjI)
    show "\<forall>e \<in> set (e # es). edge_good nodes tab e" using IH good by simp
    show "state_ok (dict_keys nodes) st'" using IH by blast
    show "es_supplied st' = es_supplied st @ map edge_supply (e # es)" using IH by (simp add: sup)
    show "\<forall>s c. s \<in> preds (es_adjacency st') c \<longleftrightarrow> s \<in> preds (es_adjacency st) c \<or>
        (\<exists>e \<in> set (e # es). ed_supplier e = s \<and> ed_consumer e = c)"
      using IH pr by auto
  qed (rule dist)
qed simp

lemma initial_state_ok: "state_ok ids (initial_edge_state ids)"
proof -
  have a: "adjacent (map (\<lambda>n. (n, [])) ids) s = []" for s
    by (induction ids) (auto simp: adjacent_def dict_get_or_def)
  have "dict_get_or (map (\<lambda>n. (n, 0)) ids) c 0 = (0 :: int)" for c
    by (induction ids) (auto simp: dict_get_or_def)
  with a show ?thesis
    by (simp add: state_ok_def initial_edge_state_def adj_ok_def preds_def comp_def)
qed

lemma initial_preds: "preds (es_adjacency (initial_edge_state ids)) c = {}"
proof -
  have "adjacent (map (\<lambda>n. (n, [])) ids) s = []" for s
    by (induction ids) (auto simp: adjacent_def dict_get_or_def)
  then show ?thesis by (simp add: initial_edge_state_def preds_def)
qed

text \<open>The order computed from a scanned state.\<close>

lemma topological_order_spec:
  assumes "state_ok ids st" and "distinct ids"
  defines "R \<equiv> set ids - set (topological_order st)"
  shows "ordered (es_adjacency st) {} (topological_order st)" and "set (topological_order st) \<subseteq> set ids"
    and "\<forall>c \<in> R. \<exists>s \<in> R. s \<in> preds (es_adjacency st) c"
proof -
  let ?ready = "sort (map fst (filter (\<lambda>(_, d). d = 0) (es_indegree st)))"
  have keys: "dict_keys (es_indegree st) = ids" using assms(1) by (simp add: state_ok_def)
  then have wf: "dict_wf (es_indegree st)" using assms(2) by simp
  have zero: "n \<in> set ?ready \<longleftrightarrow> n \<in> set ids \<and> preds (es_adjacency st) n = {}" for n
  proof -
    have "n \<in> set ?ready \<longleftrightarrow> (n, 0) \<in> set (es_indegree st)" by force
    also have "\<dots> \<longleftrightarrow> dict_get (es_indegree st) n = Some 0" using wf by simp
    also have "\<dots> \<longleftrightarrow> n \<in> set ids \<and> dict_get_or (es_indegree st) n 0 = 0"
      unfolding dict_get_zero keys ..
    also have "\<dots> \<longleftrightarrow> n \<in> set ids \<and> preds (es_adjacency st) n = {}"
      using assms(1) finite_preds by (auto simp: state_ok_def)
    finally show ?thesis .
  qed
  have dist: "distinct ?ready" using wf by (simp add: distinct_map_filter)
  have "kahn_inv (es_adjacency st) (set ids) {} (es_indegree st) ?ready"
    using assms(1) zero dist by (auto simp: kahn_inv_def state_ok_def)
  moreover have "adj_ok (es_adjacency st) (set ids)" using assms(1) by (simp add: state_ok_def)
  ultimately show "ordered (es_adjacency st) {} (topological_order st)" "set (topological_order st) \<subseteq> set ids"
    "\<forall>c \<in> R. \<exists>s \<in> R. s \<in> preds (es_adjacency st) c"
    using topological_loop_correct [of "es_adjacency st" "set ids" "{}" "es_indegree st" ?ready]
    unfolding R_def topological_order_def by simp_all
qed

lemma ordered_no_cycle:
  assumes "ordered adj D ns" and "C \<inter> D = {}" and "\<forall>c \<in> C. \<exists>s \<in> C. s \<in> preds adj c"
  shows "C \<inter> set ns = {}"
  using assms
proof (induction adj D ns rule: ordered.induct)
  case (2 adj D n ns)
  then have "n \<notin> C" by fastforce
  with 2 show ?case by simp
qed simp

lemma reach_loop_sound:
  assumes "\<And>x s. P x \<Longrightarrow> s \<in> set (adjacent rev_adj x) \<Longrightarrow> P s"
  shows "\<forall>x \<in> set reached \<union> set frontier. P x \<Longrightarrow> \<forall>x \<in> set (reach_loop rev_adj reached frontier). P x"
  using assms
proof (induction rev_adj reached frontier rule: reach_loop.induct)
  case (1 r reached frontier)
  show ?case
  proof (cases "frontier = []")
    case True
    with 1(2) show ?thesis by (subst reach_loop.simps) simp
  next
    case False
    let ?new = "remdups (filter (\<lambda>s. s \<notin> set reached) (adjacent r (last frontier)))"
    have "P (last frontier)" using 1(2) False by simp
    then have "\<forall>x \<in> set ?new. P x" using 1(3) by auto
    moreover have "\<forall>x \<in> set (butlast frontier). P x" using 1(2) by (auto dest: in_set_butlastD)
    ultimately have "\<forall>x \<in> set (reach_loop r (reached @ ?new) (butlast frontier @ ?new)). P x"
      using 1(2) by (intro 1(1) [OF False HOL.refl _ 1(3)]) auto
    with False show ?thesis by (subst reach_loop.simps) (simp add: Let_def)
  qed
qed

section \<open>What the scan of a graph establishes\<close>

lemma claim_declarations_spec:
  "claim_declarations n ds owners = Inr owners' \<Longrightarrow>
   distinct ds \<and> set ds \<inter> set (dict_keys owners) = {} \<and> set (dict_keys owners') = set (dict_keys owners) \<union> set ds"
proof (induction n ds owners rule: claim_declarations.induct)
  case (2 n d ds owners)
  then have d: "d \<notin> set (dict_keys owners)" and c: "claim_declarations n ds (dict_set d n owners) = Inr owners'"
    by (auto split: option.splits simp: map_of_eq_None_iff)
  have "dict_get owners d = None" using d by (simp add: map_of_eq_None_iff)
  from 2(1) [OF this c] d show ?case unfolding dict_keys_set by auto
qed simp

lemma declaration_owners_spec:
  "declaration_owners ns owners = Inr owners' \<Longrightarrow>
   distinct (concat (map nd_root_declarations ns)) \<and>
   set (concat (map nd_root_declarations ns)) \<inter> set (dict_keys owners) = {}"
proof (induction ns owners rule: declaration_owners.induct)
  case (2 n ns owners)
  then obtain o1 where "claim_declarations (nd_node_id n) (nd_root_declarations n) owners = Inr o1"
    "declaration_owners ns o1 = Inr owners'" by (auto simp: res_bind_Inr_iff)
  with 2(1) claim_declarations_spec [OF this(1)] show ?case by auto
qed simp

lemma dict_of_length: "length (dict_of xs) = length xs \<Longrightarrow> dict_wf xs"
proof -
  assume l: "length (dict_of xs) = length xs"
  have "set (dict_keys (dict_of xs)) = set (dict_keys xs)"
    unfolding dict_of_def by (simp only: dict_keys_update list.map(1) list.set(1) Un_empty_left)
  then have "card (set (dict_keys xs)) = card (set (dict_keys (dict_of xs)))" by simp
  also have "\<dots> = length (dict_keys (dict_of xs))" by (rule distinct_card) simp
  finally have "card (set (dict_keys xs)) = length (dict_keys xs)" using l by simp
  then show ?thesis by (rule card_distinct)
qed

abbreviation node_ids :: "receipt_graph \<Rightarrow> string list" where
  "node_ids g \<equiv> map nd_node_id (gr_nodes g)"

lemma scan_graph_facts:
  assumes "scan_graph g = Inr (owners, st)"
  defines "nodes \<equiv> map (\<lambda>n. (nd_node_id n, n)) (gr_nodes g)"
  shows "distinct (node_ids g)" and "dict_of nodes = nodes"
    and "distinct (concat (map nd_root_declarations (gr_nodes g)))"
    and "\<forall>e \<in> set (gr_edges g). edge_good nodes (assumption_table (gr_nodes g)) e"
    and "state_ok (node_ids g) st"
    and "es_supplied st = map edge_supply (gr_edges g)" and "distinct (map edge_supply (gr_edges g))"
    and "s \<in> preds (es_adjacency st) c \<longleftrightarrow> (\<exists>e \<in> set (gr_edges g). ed_supplier e = s \<and> ed_consumer e = c)"
    and "gr_terminal g \<in> set (node_ids g)"
proof -
  from assms(1) have len: "length (dict_of nodes) = length nodes" and own: "declaration_owners (gr_nodes g) [] = Inr owners"
    and tm: "gr_terminal g \<in> set (dict_keys (dict_of nodes))"
    and scan: "scan_edges (dict_of nodes) (assumption_table (gr_nodes g)) (gr_edges g)
         (initial_edge_state (dict_keys (dict_of nodes))) = Inr st"
    by (auto simp: scan_graph_def nodes_def Let_def res_bind_Inr_iff split: if_splits)
  from dict_of_length [OF len] have wf: "dict_wf nodes" .
  then show d: "dict_of nodes = nodes" by simp
  have keys: "dict_keys nodes = node_ids g" by (simp add: nodes_def comp_def)
  show "distinct (node_ids g)" using wf unfolding keys .
  show "gr_terminal g \<in> set (node_ids g)" using tm unfolding d keys .
  show "distinct (concat (map nd_root_declarations (gr_nodes g)))" using declaration_owners_spec [OF own] by blast
  note spec = scan_edges_spec [OF scan initial_state_ok, unfolded d keys]
  have sup: "es_supplied (initial_edge_state (node_ids g)) = []" by (simp add: initial_edge_state_def)
  show "\<forall>e \<in> set (gr_edges g). edge_good nodes (assumption_table (gr_nodes g)) e" using spec by blast
  show "state_ok (node_ids g) st" using spec by blast
  show s: "es_supplied st = map edge_supply (gr_edges g)" using spec sup by simp
  show "distinct (map edge_supply (gr_edges g))" using spec sup s by simp
  show "s \<in> preds (es_adjacency st) c \<longleftrightarrow> (\<exists>e \<in> set (gr_edges g). ed_supplier e = s \<and> ed_consumer e = c)"
    using spec initial_preds by simp
qed

lemma verify_graph_facts:
  assumes "verify_graph sha g = Inr r"
  obtains owners st where "scan_graph g = Inr (owners, st)"
    and "\<forall>k \<in> set (dict_keys (assumption_table (gr_nodes g))). k \<in> set (es_supplied st)"
    and "cr_topological_order r = topological_order st" and "length (topological_order st) = length (gr_nodes g)"
    and "\<forall>n \<in> set (node_ids g). n \<in> set (reach_loop (reverse_adjacency (node_ids g) (es_adjacency st)) [gr_terminal g] [gr_terminal g])"
proof -
  from assms obtain owners st where s: "scan_graph g = Inr (owners, st)"
    by (cases "scan_graph g") (auto simp: verify_graph_def)
  have d: "dict_keys (dict_of (map (\<lambda>n. (nd_node_id n, n)) (gr_nodes g))) = node_ids g"
    unfolding scan_graph_facts(2) [OF s] by (simp add: comp_def)
  let ?un = "filter (\<lambda>k. k \<notin> set (es_supplied st)) (dict_keys (assumption_table (gr_nodes g)))"
  let ?dis = "filter (\<lambda>n. n \<notin> set (reach_loop (reverse_adjacency (node_ids g) (es_adjacency st)) [gr_terminal g] [gr_terminal g])) (node_ids g)"
  from assms have "sort ?un = []" "sort ?dis = []" "cr_topological_order r = topological_order st"
    "length (topological_order st) = length (gr_nodes g)"
    unfolding verify_graph_def s res_bind_simps prod.case Let_def d
    by (auto simp: res_bind_Inr_iff simp del: sort_Nil_iff split: if_splits)
  then show ?thesis using that [OF s] by (simp add: filter_empty_conv)
qed

section \<open>Properties of verified graphs\<close>

text \<open>
  A node is grounded when each of its assumptions is an interface that a grounded node
  provides: there is a finite, well-founded justification for it.
\<close>

inductive grounded :: "receipt_graph \<Rightarrow> string \<Rightarrow> bool" for g where
  "n \<in> set (gr_nodes g) \<Longrightarrow>
   (\<And>a. a \<in> set (nd_assumed_interfaces n) \<Longrightarrow>
      \<exists>m \<in> set (gr_nodes g). nd_provided_interface m = as_interface a \<and> grounded g (nd_node_id m)) \<Longrightarrow>
   grounded g (nd_node_id n)"

definition depends :: "receipt_graph \<Rightarrow> (string \<times> string) set" where
  "depends g = {(ed_supplier e, ed_consumer e) | e. e \<in> set (gr_edges g)}"

lemma assumption_table_get:
  assumes "dict_get (assumption_table ns) (i, k) = Some a"
  shows "\<exists>n \<in> set ns. nd_node_id n = i \<and> a \<in> set (nd_assumed_interfaces n) \<and> as_id a = k"
proof -
  let ?xs = "concat (map (\<lambda>n. map (\<lambda>a. ((nd_node_id n, as_id a), a)) (nd_assumed_interfaces n)) ns)"
  have "map_of (rev ?xs) (i, k) = Some a"
    using assms unfolding assumption_table_def dict_of_def dict_get_update_rev by (simp split: option.splits)
  then have "((i, k), a) \<in> set ?xs" using map_of_SomeD by fastforce
  then show ?thesis by auto
qed

lemma in_concat_map: "x \<in> set (f n) \<Longrightarrow> n \<in> set ns \<Longrightarrow> x \<in> set (concat (map f ns))"
  by auto

lemma in_dict_keys: "(k, v) \<in> set xs \<Longrightarrow> k \<in> set (dict_keys xs)"
  by force

lemma assumption_table_key:
  assumes "n \<in> set ns" and "a \<in> set (nd_assumed_interfaces n)"
  shows "(nd_node_id n, as_id a) \<in> set (dict_keys (assumption_table ns))"
proof -
  have "((nd_node_id n, as_id a), a) \<in> set (map (\<lambda>a. ((nd_node_id n, as_id a), a)) (nd_assumed_interfaces n))"
    using assms(2) by simp
  from in_dict_keys [OF in_concat_map [where f = "\<lambda>n. map (\<lambda>a. ((nd_node_id n, as_id a), a)) (nd_assumed_interfaces n)", OF this assms(1)]]
  show ?thesis unfolding assumption_table_def dict_of_def dict_keys_update by (rule UnI2)
qed

lemma made_node_ids:
  assumes "made_node sha n"
  shows "distinct (map as_id (nd_assumed_interfaces n))"
proof -
  from assms have "make_receipt_node n = Inr n" by (simp add: made_node_def)
  then have "distinct (map as_id (sort_key as_id (nd_assumed_interfaces n)))"
    unfolding make_receipt_node_def Let_def by (simp add: res_bind_Inr_iff del: distinct_map split: if_splits)
  then show ?thesis unfolding made_node_sorted(2) [OF assms] .
qed

lemma distinct_map_inj: "distinct (map f xs) \<Longrightarrow> x \<in> set xs \<Longrightarrow> y \<in> set xs \<Longrightarrow> f x = f y \<Longrightarrow> x = y"
  by (auto simp: distinct_map dest: inj_onD)

text \<open>The edge that supplies an assumption.\<close>

lemma assumption_supplied:
  assumes "made_graph sha g" and "verify_graph sha g = Inr r" and "n \<in> set (gr_nodes g)" and "a \<in> set (nd_assumed_interfaces n)"
  shows "\<exists>e \<in> set (gr_edges g). edge_supply e = (nd_node_id n, as_id a) \<and>
    (\<exists>m \<in> set (gr_nodes g). nd_node_id m = ed_supplier e \<and> nd_provided_interface m = as_interface a)"
proof -
  obtain owners st where s: "scan_graph g = Inr (owners, st)"
    and un: "\<forall>k \<in> set (dict_keys (assumption_table (gr_nodes g))). k \<in> set (es_supplied st)"
    using verify_graph_facts [OF assms(2)] by metis
  note f = scan_graph_facts [OF s]
  have "(nd_node_id n, as_id a) \<in> set (es_supplied st)" using un assumption_table_key [OF assms(3,4)] by blast
  then obtain e where e: "e \<in> set (gr_edges g)" "edge_supply e = (nd_node_id n, as_id a)" unfolding f(6) by auto
  from f(4) e obtain m b where m: "dict_get (map (\<lambda>n. (nd_node_id n, n)) (gr_nodes g)) (ed_supplier e) = Some m"
    and b: "dict_get (assumption_table (gr_nodes g)) (nd_node_id n, as_id a) = Some b"
    and p: "nd_provided_interface m = as_interface b"
    by (fastforce simp: edge_good_def)
  from assumption_table_get [OF b] obtain n' where n': "n' \<in> set (gr_nodes g)" "nd_node_id n' = nd_node_id n"
    "b \<in> set (nd_assumed_interfaces n')" "as_id b = as_id a" by blast
  have "n' = n" using distinct_map_inj [OF f(1) n'(1) assms(3) n'(2)] .
  moreover have "made_node sha n" using assms(1,3) by (simp add: made_graph_def)
  ultimately have "b = a" using distinct_map_inj [OF made_node_ids] n'(3,4) assms(4) by blast
  moreover from m have "m \<in> set (gr_nodes g)" "nd_node_id m = ed_supplier e" by (auto dest!: map_of_SomeD)
  ultimately show ?thesis using e p by blast
qed

section \<open>Which graphs are accepted\<close>

text \<open>What verification demands of a graph, stated without its tables, loops and order of checks.\<close>

definition graph_valid :: "receipt_graph \<Rightarrow> bool" where
  "graph_valid g \<longleftrightarrow> gr_schema_id g = GRAPH_SCHEMA \<and> gr_nodes g \<noteq> [] \<and> distinct (node_ids g) \<and>
     gr_terminal g \<in> set (node_ids g) \<and> distinct (concat (map nd_root_declarations (gr_nodes g))) \<and>
     distinct (map edge_supply (gr_edges g)) \<and>
     (\<forall>e \<in> set (gr_edges g). \<exists>s \<in> set (gr_nodes g). \<exists>c \<in> set (gr_nodes g). \<exists>a \<in> set (nd_assumed_interfaces c).
        nd_node_id s = ed_supplier e \<and> nd_node_id c = ed_consumer e \<and> as_id a = ed_assumption e \<and>
        nd_provided_interface s = as_interface a) \<and>
     (\<forall>n \<in> set (gr_nodes g). \<forall>a \<in> set (nd_assumed_interfaces n). (nd_node_id n, as_id a) \<in> edge_supply ` set (gr_edges g)) \<and>
     (\<forall>e \<in> set (gr_edges g). ed_supplier e \<noteq> gr_terminal g) \<and> acyclic (depends g) \<and>
     (\<forall>n \<in> set (node_ids g). (n, gr_terminal g) \<in> (depends g)\<^sup>*)"

lemma claim_declarations_total:
  "distinct ds \<Longrightarrow> set ds \<inter> set (dict_keys owners) = {} \<Longrightarrow> \<exists>owners'. claim_declarations n ds owners = Inr owners'"
proof (induction n ds owners rule: claim_declarations.induct)
  case (2 n d ds owners)
  then have d: "dict_get owners d = None" by (auto simp: map_of_eq_None_iff)
  have "set ds \<inter> set (dict_keys (dict_set d n owners)) = {}" using 2(2,3) unfolding dict_keys_set by auto
  with 2(1) [OF d] 2(2) d show ?case by simp
qed simp

lemma declaration_owners_total:
  "distinct (concat (map nd_root_declarations ns)) \<Longrightarrow>
   set (concat (map nd_root_declarations ns)) \<inter> set (dict_keys owners) = {} \<Longrightarrow> \<exists>owners'. declaration_owners ns owners = Inr owners'"
proof (induction ns owners rule: declaration_owners.induct)
  case (2 n ns owners)
  have dd: "distinct (nd_root_declarations n)" "set (nd_root_declarations n) \<inter> set (dict_keys owners) = {}"
    using 2(2,3) by auto
  from claim_declarations_total [OF this] obtain o1
    where c: "claim_declarations (nd_node_id n) (nd_root_declarations n) owners = Inr o1" by blast
  have "set (dict_keys o1) = set (dict_keys owners) \<union> set (nd_root_declarations n)"
    using claim_declarations_spec [OF c] by blast
  then have "set (concat (map nd_root_declarations ns)) \<inter> set (dict_keys o1) = {}" using 2(2,3) by auto
  with 2(1) [of o1] 2(2) c show ?case by simp
qed simp

lemma scan_edges_total:
  "\<forall>e \<in> set es. edge_good nodes tab e \<Longrightarrow> distinct (es_supplied st @ map edge_supply es) \<Longrightarrow>
   \<exists>st'. scan_edges nodes tab es st = Inr st'"
proof (induction es arbitrary: st)
  case (Cons e es)
  from Cons.prems(1) obtain s c a where g: "dict_get nodes (ed_supplier e) = Some s" "dict_get nodes (ed_consumer e) = Some c"
    "dict_get tab (ed_consumer e, ed_assumption e) = Some a" "nd_provided_interface s = as_interface a"
    by (auto simp: edge_good_def edge_supply_def)
  have f: "(ed_consumer e, ed_assumption e) \<notin> set (es_supplied st)" using Cons.prems(2) by (auto simp: edge_supply_def)
  let ?st = "link_nodes (ed_supplier e) (ed_consumer e) (st\<lparr>es_supplied := es_supplied st @ [(ed_consumer e, ed_assumption e)]\<rparr>)"
  have "es_supplied ?st = es_supplied st @ [edge_supply e]" by (simp add: link_nodes_def edge_supply_def)
  with Cons.prems have "distinct (es_supplied ?st @ map edge_supply es)" by auto
  with Cons.IH [of ?st] Cons.prems(1) g f show ?case by (simp add: Let_def)
qed simp

lemma reach_loop_complete:
  assumes "set frontier \<subseteq> set reached" and "\<forall>x \<in> set reached. x \<in> set frontier \<or> set (adjacent r x) \<subseteq> set reached"
  shows "set reached \<subseteq> set (reach_loop r reached frontier) \<and>
    (\<forall>x \<in> set (reach_loop r reached frontier). set (adjacent r x) \<subseteq> set (reach_loop r reached frontier))"
  using assms
proof (induction r reached frontier rule: reach_loop.induct)
  case (1 r reached frontier)
  show ?case
  proof (cases "frontier = []")
    case True
    with 1(3) show ?thesis by (subst (1 2 3) reach_loop.simps) simp
  next
    case False
    let ?new = "remdups (filter (\<lambda>s. s \<notin> set reached) (adjacent r (last frontier)))"
    have fr: "set frontier = insert (last frontier) (set (butlast frontier))"
      using False by (metis append_butlast_last_id list.set(1) list.simps(15) rotate1.simps(2) set_rotate1)
    have "set (butlast frontier @ ?new) \<subseteq> set (reached @ ?new)" using 1(2) fr by auto
    moreover have "\<forall>x \<in> set (reached @ ?new). x \<in> set (butlast frontier @ ?new) \<or> set (adjacent r x) \<subseteq> set (reached @ ?new)"
      using 1(3) fr by auto
    ultimately have "set (reached @ ?new) \<subseteq> set (reach_loop r (reached @ ?new) (butlast frontier @ ?new)) \<and>
      (\<forall>x \<in> set (reach_loop r (reached @ ?new) (butlast frontier @ ?new)).
         set (adjacent r x) \<subseteq> set (reach_loop r (reached @ ?new) (butlast frontier @ ?new)))"
      by (rule 1(1) [OF False HOL.refl])
    moreover have "reach_loop r reached frontier = reach_loop r (reached @ ?new) (butlast frontier @ ?new)"
      using False by (subst reach_loop.simps) (simp add: Let_def)
    ultimately show ?thesis by simp
  qed
qed

lemma depends_preds:
  assumes "scan_graph g = Inr (owners, st)"
  shows "preds (es_adjacency st) n = {s. (s, n) \<in> depends g}"
  by (auto simp: scan_graph_facts(8) [OF assms] depends_def)

lemma reverse_adjacent:
  assumes "scan_graph g = Inr (owners, st)" and "x \<in> set (node_ids g)"
  shows "set (adjacent (reverse_adjacency (node_ids g) (es_adjacency st)) x) = {s. (s, x) \<in> depends g}"
proof -
  note f = scan_graph_facts [OF assms(1)]
  have "adjacent (reverse_adjacency ids adj) x = (if x \<in> set ids then map fst (filter (\<lambda>(s, cs). x \<in> set cs) adj) else [])"
    for ids adj by (induction ids) (auto simp: adjacent_def dict_get_or_def reverse_adjacency_def)
  with assms(2) have "set (adjacent (reverse_adjacency (node_ids g) (es_adjacency st)) x) =
      {s. \<exists>cs. (s, cs) \<in> set (es_adjacency st) \<and> x \<in> set cs}" by force
  also have "\<dots> = preds (es_adjacency st) x"
  proof -
    have "dict_wf (es_adjacency st)" using f(1,5) by (simp add: state_ok_def)
    then have "(s, cs) \<in> set (es_adjacency st) \<longleftrightarrow> dict_get (es_adjacency st) s = Some cs" for s cs by simp
    then show ?thesis by (auto simp: preds_def adjacent_def dict_get_or_def split: option.splits) metis
  qed
  finally show ?thesis unfolding depends_preds [OF assms(1)] .
qed

lemma not_reverse_adjacent:
  "x \<notin> set ids \<Longrightarrow> adjacent (reverse_adjacency ids adj) x = []"
  by (induction ids) (auto simp: adjacent_def dict_get_or_def reverse_adjacency_def)

lemma reached_iff:
  assumes "scan_graph g = Inr (owners, st)"
  shows "n \<in> set (reach_loop (reverse_adjacency (node_ids g) (es_adjacency st)) [gr_terminal g] [gr_terminal g]) \<longleftrightarrow>
    (n, gr_terminal g) \<in> (depends g)\<^sup>*"
proof
  let ?r = "reverse_adjacency (node_ids g) (es_adjacency st)"
  let ?R = "set (reach_loop ?r [gr_terminal g] [gr_terminal g])"
  have adj: "s \<in> set (adjacent ?r x) \<Longrightarrow> (s, x) \<in> depends g" for s x
    using reverse_adjacent [OF assms, of x] not_reverse_adjacent by (cases "x \<in> set (node_ids g)") fastforce+
  have "\<forall>x \<in> ?R. (x, gr_terminal g) \<in> (depends g)\<^sup>*"
    by (rule reach_loop_sound [where P = "\<lambda>x. (x, gr_terminal g) \<in> (depends g)\<^sup>*"])
      (auto dest: adj intro: converse_rtrancl_into_rtrancl)
  then show "n \<in> ?R \<Longrightarrow> (n, gr_terminal g) \<in> (depends g)\<^sup>*" by blast
  have c: "gr_terminal g \<in> ?R \<and> (\<forall>x \<in> ?R. set (adjacent ?r x) \<subseteq> ?R)"
    using reach_loop_complete [of "[gr_terminal g]" "[gr_terminal g]" ?r] by simp
  have ids: "x \<in> set (node_ids g)" if "(s, x) \<in> depends g" for s x
  proof -
    from that have "s \<in> preds (es_adjacency st) x" by (simp add: depends_preds [OF assms])
    then show ?thesis using scan_graph_facts(5) [OF assms] by (auto simp: state_ok_def adj_ok_def preds_def)
  qed
  assume "(n, gr_terminal g) \<in> (depends g)\<^sup>*"
  then show "n \<in> ?R"
  proof (induction rule: converse_rtrancl_induct)
    case base
    show ?case using c by blast
  next
    case (step y z)
    then have "y \<in> set (adjacent ?r z)" using reverse_adjacent [OF assms ids] by blast
    with c step(3) show ?case by blast
  qed
qed

lemma finite_depends: "finite (depends g)"
  by (simp add: depends_def Setcompr_eq_image)

lemma full_order_iff_acyclic:
  assumes "scan_graph g = Inr (owners, st)"
  shows "length (topological_order st) = length (gr_nodes g) \<longleftrightarrow> acyclic (depends g)"
proof -
  note f = scan_graph_facts [OF assms]
  note o = topological_order_spec [OF f(5) f(1)]
  have d: "distinct (topological_order st)" using ordered_distinct [OF o(1)] by blast
  have in_ids: "(s, x) \<in> depends g \<Longrightarrow> s \<in> set (node_ids g) \<and> x \<in> set (node_ids g)" for s x
    using f(5) depends_preds [OF assms, of x] by (fastforce simp: state_ok_def adj_ok_def preds_def)
  have len: "length (topological_order st) = length (gr_nodes g) \<longleftrightarrow> set (topological_order st) = set (node_ids g)"
    using d o(2) f(1) by (metis card_subset_eq distinct_card finite_set length_map)
  show ?thesis
  proof
    assume "length (topological_order st) = length (gr_nodes g)"
    with len have all: "set (topological_order st) = set (node_ids g)" by simp
    have "\<exists>z \<in> Q. \<forall>y. (y, z) \<in> depends g \<longrightarrow> y \<notin> Q" if "x \<in> Q" for x Q
    proof (rule ccontr)
      assume no: "\<not> ?thesis"
      then have "\<forall>c \<in> Q. \<exists>s \<in> Q. s \<in> preds (es_adjacency st) c" by (auto simp: depends_preds [OF assms])
      with ordered_no_cycle [OF o(1)] have "Q \<inter> set (node_ids g) = {}" unfolding all by blast
      moreover from no that obtain y where "(y, x) \<in> depends g" by blast
      ultimately show False using in_ids that by blast
    qed
    then have "wf (depends g)" unfolding wf_eq_minimal by blast
    then show "acyclic (depends g)" by (rule wf_acyclic)
  next
    assume "acyclic (depends g)"
    then have wf: "wf (depends g)" using finite_acyclic_wf finite_depends by blast
    have "set (node_ids g) - set (topological_order st) = {}" (is "?R = {}")
    proof (rule ccontr)
      assume "?R \<noteq> {}"
      with wf obtain z where "z \<in> ?R" "\<forall>y. (y, z) \<in> depends g \<longrightarrow> y \<notin> ?R" unfolding wf_eq_minimal by blast
      with o(3) show False by (auto simp: depends_preds [OF assms])
    qed
    with o(2) len show "length (topological_order st) = length (gr_nodes g)" by blast
  qed
qed

text \<open>The table of assumptions finds each assumption of the nodes, and nothing else.\<close>

lemma assumption_table_iff:
  assumes "made_graph sha g" and "distinct (node_ids g)"
  shows "dict_get (assumption_table (gr_nodes g)) k = Some a \<longleftrightarrow>
    (\<exists>n \<in> set (gr_nodes g). a \<in> set (nd_assumed_interfaces n) \<and> k = (nd_node_id n, as_id a))"
proof
  assume "dict_get (assumption_table (gr_nodes g)) k = Some a"
  with assumption_table_get [of "gr_nodes g" "fst k" "snd k"]
  show "\<exists>n \<in> set (gr_nodes g). a \<in> set (nd_assumed_interfaces n) \<and> k = (nd_node_id n, as_id a)" by auto
next
  assume "\<exists>n \<in> set (gr_nodes g). a \<in> set (nd_assumed_interfaces n) \<and> k = (nd_node_id n, as_id a)"
  then obtain n where n: "n \<in> set (gr_nodes g)" "a \<in> set (nd_assumed_interfaces n)" "k = (nd_node_id n, as_id a)" by blast
  then obtain b where b: "dict_get (assumption_table (gr_nodes g)) k = Some b"
    using assumption_table_key [OF n(1,2)] by (metis map_of_eq_None_iff not_None_eq list.set_map)
  from assumption_table_get [OF b [unfolded n(3)]] obtain m where m: "m \<in> set (gr_nodes g)"
    "nd_node_id m = nd_node_id n" "b \<in> set (nd_assumed_interfaces m)" "as_id b = as_id a" by blast
  have "m = n" using distinct_map_inj [OF assms(2) m(1) n(1) m(2)] .
  moreover have "made_node sha n" using assms(1) n(1) by (simp add: made_graph_def)
  ultimately have "b = a" using distinct_map_inj [OF made_node_ids] m(3,4) n(2) by blast
  with b show "dict_get (assumption_table (gr_nodes g)) k = Some a" by simp
qed

lemma node_table_iff:
  assumes "distinct (node_ids g)"
  shows "dict_get (map (\<lambda>n. (nd_node_id n, n)) (gr_nodes g)) i = Some n \<longleftrightarrow> n \<in> set (gr_nodes g) \<and> nd_node_id n = i"
proof -
  have "dict_wf (map (\<lambda>n. (nd_node_id n, n)) (gr_nodes g))" using assms by (simp add: comp_def)
  then show ?thesis by auto
qed

lemma edge_good_iff:
  assumes "made_graph sha g" and "distinct (node_ids g)"
  shows "edge_good (map (\<lambda>n. (nd_node_id n, n)) (gr_nodes g)) (assumption_table (gr_nodes g)) e \<longleftrightarrow>
    (\<exists>s \<in> set (gr_nodes g). \<exists>c \<in> set (gr_nodes g). \<exists>a \<in> set (nd_assumed_interfaces c).
        nd_node_id s = ed_supplier e \<and> nd_node_id c = ed_consumer e \<and> as_id a = ed_assumption e \<and>
        nd_provided_interface s = as_interface a)" (is "?good \<longleftrightarrow> ?supplies")
proof
  assume ?good
  then obtain s c a where s: "s \<in> set (gr_nodes g)" "nd_node_id s = ed_supplier e" "nd_provided_interface s = as_interface a"
    and k: "\<exists>n \<in> set (gr_nodes g). a \<in> set (nd_assumed_interfaces n) \<and> (ed_consumer e, ed_assumption e) = (nd_node_id n, as_id a)"
    unfolding edge_good_def node_table_iff [OF assms(2)] assumption_table_iff [OF assms] edge_supply_def by blast
  from k obtain n where "n \<in> set (gr_nodes g)" "a \<in> set (nd_assumed_interfaces n)" "nd_node_id n = ed_consumer e"
    "as_id a = ed_assumption e" by auto
  with s show ?supplies by blast
next
  assume ?supplies
  then obtain s c a where s: "s \<in> set (gr_nodes g)" "nd_node_id s = ed_supplier e" "nd_provided_interface s = as_interface a"
    and c: "c \<in> set (gr_nodes g)" "a \<in> set (nd_assumed_interfaces c)" "nd_node_id c = ed_consumer e" "as_id a = ed_assumption e" by blast
  from c have "\<exists>n \<in> set (gr_nodes g). a \<in> set (nd_assumed_interfaces n) \<and> (ed_consumer e, ed_assumption e) = (nd_node_id n, as_id a)"
    by (intro bexI [of _ c]) simp_all
  with s c(1,3) show ?good
    unfolding edge_good_def node_table_iff [OF assms(2)] assumption_table_iff [OF assms] edge_supply_def by blast
qed

lemma unsupplied_iff:
  assumes "made_graph sha g" and "distinct (node_ids g)"
  shows "(\<forall>k \<in> set (dict_keys (assumption_table (gr_nodes g))). k \<in> S) \<longleftrightarrow>
    (\<forall>n \<in> set (gr_nodes g). \<forall>a \<in> set (nd_assumed_interfaces n). (nd_node_id n, as_id a) \<in> S)"
proof -
  have "k \<in> set (dict_keys (assumption_table (gr_nodes g))) \<longleftrightarrow>
      (\<exists>n \<in> set (gr_nodes g). \<exists>a \<in> set (nd_assumed_interfaces n). k = (nd_node_id n, as_id a))" for k
    using assumption_table_iff [OF assms, of k]
    by (metis map_of_eq_None_iff not_None_eq list.set_map)
  then have "set (dict_keys (assumption_table (gr_nodes g))) =
      (\<Union>n \<in> set (gr_nodes g). (\<lambda>a. (nd_node_id n, as_id a)) ` set (nd_assumed_interfaces n))" by (intro set_eqI) (simp only: UN_iff image_iff)
  then show ?thesis by (simp only: ball_UN ball_simps)
qed

text \<open>The scan succeeds exactly when the first half of the demands holds.\<close>

lemma scan_graph_iff:
  assumes "made_graph sha g"
  shows "(\<exists>owners st. scan_graph g = Inr (owners, st)) \<longleftrightarrow>
    gr_schema_id g = GRAPH_SCHEMA \<and> gr_nodes g \<noteq> [] \<and> distinct (node_ids g) \<and>
     gr_terminal g \<in> set (node_ids g) \<and> distinct (concat (map nd_root_declarations (gr_nodes g))) \<and>
     distinct (map edge_supply (gr_edges g)) \<and>
     (\<forall>e \<in> set (gr_edges g). edge_good (map (\<lambda>n. (nd_node_id n, n)) (gr_nodes g)) (assumption_table (gr_nodes g)) e)"
    (is "?ok \<longleftrightarrow> ?valid")
proof
  assume ?ok
  then obtain owners st where s: "scan_graph g = Inr (owners, st)" by blast
  then have "gr_schema_id g = GRAPH_SCHEMA" "gr_nodes g \<noteq> []"
    by (auto simp: scan_graph_def Let_def split: if_splits)
  with scan_graph_facts [OF s] show ?valid by blast
next
  assume v: ?valid
  let ?nodes = "map (\<lambda>n. (nd_node_id n, n)) (gr_nodes g)"
  have keys: "dict_keys ?nodes = node_ids g" by (simp add: comp_def)
  have "dict_wf ?nodes" using v by (simp add: comp_def)
  then have d: "dict_of ?nodes = ?nodes" by simp
  obtain owners where o: "declaration_owners (gr_nodes g) [] = Inr owners"
    using declaration_owners_total [of "gr_nodes g" "[]"] v by auto
  have "es_supplied (initial_edge_state (node_ids g)) = []" by (simp add: initial_edge_state_def)
  then obtain st where "scan_edges ?nodes (assumption_table (gr_nodes g)) (gr_edges g) (initial_edge_state (node_ids g)) = Inr st"
    using scan_edges_total [of "gr_edges g" ?nodes "assumption_table (gr_nodes g)" "initial_edge_state (node_ids g)"] v by auto
  then have "scan_graph g = Inr (owners, st)"
    unfolding scan_graph_def Let_def d keys using v o by simp
  then show ?ok by blast
qed

lemma verify_graph_scanned:
  assumes "scan_graph g = Inr (owners, st)"
  shows "(\<exists>r. verify_graph sha g = Inr r) \<longleftrightarrow>
    (\<forall>k \<in> set (dict_keys (assumption_table (gr_nodes g))). k \<in> edge_supply ` set (gr_edges g)) \<and>
    adjacent (es_adjacency st) (gr_terminal g) = [] \<and> acyclic (depends g) \<and>
    (\<forall>n \<in> set (node_ids g). (n, gr_terminal g) \<in> (depends g)\<^sup>*) \<and> (\<exists>p. graph_payload g = Inr p)"
proof -
  have d: "dict_keys (dict_of (map (\<lambda>n. (nd_node_id n, n)) (gr_nodes g))) = node_ids g"
    unfolding scan_graph_facts(2) [OF assms] by (simp add: comp_def)
  have s: "set (es_supplied st) = edge_supply ` set (gr_edges g)" using scan_graph_facts(6) [OF assms] by simp
  have e: "sort xs = [] \<longleftrightarrow> xs = []" for xs :: "'b :: linorder list" by (metis length_0_conv length_sort)
  have p: "(\<exists>r. res_bind (graph_digest sha g) (\<lambda>d. Inr (f d)) = Inr r) \<longleftrightarrow> (\<exists>p. graph_payload g = Inr p)"
    for f :: "string \<Rightarrow> composition_receipt" by (auto simp: graph_digest_def res_bind_Inr_iff)
  show ?thesis
    unfolding verify_graph_def assms res_bind_simps prod.case Let_def d e
      full_order_iff_acyclic [OF assms, symmetric] reached_iff [OF assms] s
    by (auto simp: p filter_empty_conv)
qed

text \<open>
  C10. Verification accepts exactly the valid graphs (those that can be framed at all): the tables,
  the degree counts, the sort and the search decide the declarative demands, neither more nor
  less.
\<close>

theorem verify_graph_accepts:
  assumes "made_graph sha g"
  shows "(\<exists>r. verify_graph sha g = Inr r) \<longleftrightarrow> graph_valid g \<and> (\<exists>p. graph_payload g = Inr p)"
proof (cases "\<exists>owners st. scan_graph g = Inr (owners, st)")
  case False
  then have "\<not> (\<exists>r. verify_graph sha g = Inr r)"
    by (cases "scan_graph g") (auto simp: verify_graph_def)
  moreover have "\<not> graph_valid g"
    using False edge_good_iff [OF assms] unfolding scan_graph_iff [OF assms] graph_valid_def by blast
  ultimately show ?thesis by blast
next
  case True
  then obtain owners st where s: "scan_graph g = Inr (owners, st)" by blast
  note v = True [unfolded scan_graph_iff [OF assms]]
  then have d: "distinct (node_ids g)" by blast
  have t: "adjacent (es_adjacency st) (gr_terminal g) = [] \<longleftrightarrow> (\<forall>e \<in> set (gr_edges g). ed_supplier e \<noteq> gr_terminal g)"
    using scan_graph_facts(8) [OF s, of "gr_terminal g"] by (fastforce simp: preds_def)
  show ?thesis
    unfolding verify_graph_scanned [OF s] graph_valid_def unsupplied_iff [OF assms d] t
    using v unfolding edge_good_iff [OF assms d] by blast
qed

lemma verified_grounded:
  assumes "made_graph sha g" and "verify_graph sha g = Inr r" and "n \<in> set (gr_nodes g)"
  shows "grounded g (nd_node_id n)"
proof -
  obtain owners st where s: "scan_graph g = Inr (owners, st)" and len: "length (topological_order st) = length (gr_nodes g)"
    using verify_graph_facts [OF assms(2)] by metis
  note f = scan_graph_facts [OF s]
  note o = topological_order_spec [OF f(5) f(1)]
  have "distinct (topological_order st)" using ordered_distinct [OF o(1)] by blast
  with o(2) len f(1) have all: "set (topological_order st) = set (node_ids g)"
    by (metis card_subset_eq distinct_card finite_set length_map)
  have "ordered (es_adjacency st) D ns \<Longrightarrow> \<forall>d \<in> D. grounded g d \<Longrightarrow> set ns \<subseteq> set (node_ids g) \<Longrightarrow> \<forall>d \<in> set ns. grounded g d" for D ns
  proof (induction "es_adjacency st" D ns rule: ordered.induct)
    case (2 D d ns)
    from 2(4) obtain m where m: "m \<in> set (gr_nodes g)" "nd_node_id m = d" by auto
    have "grounded g (nd_node_id m)"
    proof (rule grounded.intros [OF m(1)])
      fix a assume "a \<in> set (nd_assumed_interfaces m)"
      from assumption_supplied [OF assms(1,2) m(1) this] obtain e q where e: "e \<in> set (gr_edges g)"
        "edge_supply e = (nd_node_id m, as_id a)" and q: "q \<in> set (gr_nodes g)" "nd_node_id q = ed_supplier e"
        "nd_provided_interface q = as_interface a" by blast
      have "ed_supplier e \<in> preds (es_adjacency st) d" using e m(2) by (auto simp: f(8) edge_supply_def)
      then have "grounded g (nd_node_id q)" using 2(2,3) q(2) by auto
      with q show "\<exists>m \<in> set (gr_nodes g). nd_provided_interface m = as_interface a \<and> grounded g (nd_node_id m)" by blast
    qed
    with m(2) 2 show ?case by simp
  qed simp
  from this [OF o(1)] all assms(3) show ?thesis by simp
qed

text \<open>
  C11. A verified receipt graph reasons in no circle: every node of it is grounded, that is, each
  interface it assumes is provided, byte for byte, by a node that is itself grounded.
\<close>

theorem verified_graph_grounded:
  assumes "made_graph sha g" and "verify_graph sha g = Inr r" and "n \<in> set (gr_nodes g)"
  shows "grounded g (nd_node_id n)"
  by (rule verified_grounded [OF assms])


lemma verified_order:
  assumes "verify_graph sha g = Inr r"
  shows "distinct (cr_topological_order r) \<and> set (cr_topological_order r) = set (node_ids g) \<and>
    (\<forall>xs n ys. cr_topological_order r = xs @ n # ys \<longrightarrow> {s. (s, n) \<in> depends g} \<subseteq> set xs) \<and>
    (\<forall>n \<in> set (node_ids g). (n, gr_terminal g) \<in> (depends g)\<^sup>*) \<and>
    distinct (concat (map nd_root_declarations (gr_nodes g))) \<and>
    distinct (map edge_supply (gr_edges g))"
proof -
  obtain owners st where s: "scan_graph g = Inr (owners, st)" and r: "cr_topological_order r = topological_order st"
    and len: "length (topological_order st) = length (gr_nodes g)"
    and reach: "\<forall>n \<in> set (node_ids g). n \<in> set (reach_loop (reverse_adjacency (node_ids g) (es_adjacency st)) [gr_terminal g] [gr_terminal g])"
    using verify_graph_facts [OF assms] by metis
  note f = scan_graph_facts [OF s]
  note o = topological_order_spec [OF f(5) f(1)]
  have d: "distinct (topological_order st)" using ordered_distinct [OF o(1)] by blast
  with o(2) len f(1) have all: "set (topological_order st) = set (node_ids g)"
    by (metis card_subset_eq distinct_card finite_set length_map)
  have before: "{s. (s, n) \<in> depends g} \<subseteq> set xs" if "topological_order st = xs @ n # ys" for xs n ys
    using ordered_before [OF o(1) [unfolded that]] by (simp add: depends_preds [OF s])
  with d all f(3,7) reach show ?thesis unfolding r reached_iff [OF s] by blast
qed

text \<open>
  Verification returns a topological order: it lists every node once, each supplier before its
  consumers; every node contributes to the terminal node; no root declaration has two owners;
  and every edge supplies its own assumption of an existing node.
\<close>

theorem verified_graph_ordered:
  assumes "verify_graph sha g = Inr r"
  shows "distinct (cr_topological_order r) \<and> set (cr_topological_order r) = set (node_ids g) \<and>
    (\<forall>xs n ys. cr_topological_order r = xs @ n # ys \<longrightarrow> {s. (s, n) \<in> depends g} \<subseteq> set xs) \<and>
    (\<forall>n \<in> set (node_ids g). (n, gr_terminal g) \<in> (depends g)\<^sup>*) \<and>
    distinct (concat (map nd_root_declarations (gr_nodes g))) \<and>
    distinct (map edge_supply (gr_edges g))"
  by (rule verified_order [OF assms])

section \<open>Witnesses\<close>

definition zero_digest :: string where
  "zero_digest = ''sha256:'' @ replicate 64 CHR ''0''"

definition ex_payload :: "string \<Rightarrow> canonical_payload" where
  "ex_payload s = \<lparr>cp_bytes = s, cp_digest = zero_digest\<rparr>"

definition ex_node :: "string \<Rightarrow> string \<Rightarrow> interface_assumption list \<Rightarrow> receipt_node" where
  "ex_node i provided as =
     \<lparr>nd_node_id = i, nd_source_identity = ex_payload ''src'', nd_bundle_digest = zero_digest,
      nd_root_declarations = [i @ ''.root''], nd_provided_interface = ex_payload provided,
      nd_assumed_interfaces = as,
      nd_acceptance = \<lparr>ae_engine_identity = ''lean'', ae_receipt_bytes = ''ok'', ae_receipt_digest = zero_digest,
        ae_bound_source = zero_digest, ae_bound_bundle = zero_digest, ae_bound_interface = zero_digest,
        ae_decision = ''accepted''\<rparr>\<rparr>"

definition ex_sha :: "bytes \<Rightarrow> bytes" where
  "ex_sha b = replicate 32 (CHR 0x00)"

definition ex_graph :: receipt_graph where
  "ex_graph = \<lparr>gr_schema_id = GRAPH_SCHEMA,
     gr_nodes = [ex_node ''base'' ''iface'' [], ex_node ''top'' ''goal'' [\<lparr>as_id = ''uses'', as_interface = ex_payload ''iface''\<rparr>]],
     gr_edges = [\<lparr>ed_supplier = ''base'', ed_consumer = ''top'', ed_assumption = ''uses''\<rparr>], gr_terminal = ''top''\<rparr>"


text \<open>Short fields can be framed.\<close>

lemma frame_bytes_ok:
  "length l < 100 \<Longrightarrow> length p < 1000000 \<Longrightarrow> \<exists>b. frame_bytes l p = Inr b \<and> length b = 12 + length l + length p"
  by (simp add: frame_bytes_def to_bytes_def)

lemma frames_ok:
  "list_all (\<lambda>(l, p). length l < 100 \<and> length p < n) xs \<Longrightarrow> n \<le> 1000000 \<Longrightarrow>
   \<exists>b. frames xs = Inr b \<and> length b \<le> length xs * (n + 112)"
proof (induction xs)
  case (Cons x xs)
  obtain l p where x: "x = (l, p)" by force
  with Cons.prems have l: "length l < 100" "length p < n" "length p < 1000000" by simp_all
  from frame_bytes_ok [OF l(1,3)] obtain f where f: "frame_bytes l p = Inr f" "length f = 12 + length l + length p" by blast
  from Cons obtain r where r: "frames xs = Inr r" "length r \<le> length xs * (n + 112)" by auto
  from f(1) r(1) have "frames ((l, p) # xs) = Inr (f @ r)" unfolding frames_simps by blast
  moreover have "length (f @ r) \<le> length (x # xs) * (n + 112)" using f(2) r(2) l by simp
  ultimately show ?case using x by blast
qed (simp add: frames_simps)

lemma ex_assumption_payload: "\<exists>p. assumption_payload \<lparr>as_id = ''uses'', as_interface = ex_payload ''iface''\<rparr> = Inr p \<and> length p < 1000"
  unfolding assumption_payload_def
  by (rule exE [OF frames_ok [of 100 "[(''assumption_id'', ''uses''), (''interface'', ''iface''), (''interface_digest'', zero_digest)]"]])
    (auto simp: ex_payload_def zero_digest_def)

lemma ex_node_payload:
  assumes "length i < 100" and "length q < 100" and "res_map assumption_payload as = Inr ps" and "sort_key as_id as = as"
    and "length ps \<le> 1" and "list_all (\<lambda>p. length p < 1000) ps"
  shows "\<exists>p. node_payload (ex_node i q as) = Inr p \<and> length p < 20000"
proof -
  let ?xs = "node_fields (ex_node i q as) @ map (\<lambda>d. (''root_declaration'', d)) [i @ ''.root''] @ map (\<lambda>p. (''assumption'', p)) ps"
  have "length ?xs \<le> 14" using assms(5) by (simp add: node_fields_def)
  moreover have "list_all (\<lambda>(l, p). length l < 100 \<and> length p < 1000) ?xs" using assms
    by (simp add: node_fields_def ex_node_def ex_payload_def zero_digest_def list.pred_map comp_def)
  ultimately obtain b where "frames ?xs = Inr b" "length b \<le> 14 * 1112"
    using frames_ok [of 1000 ?xs] by fastforce
  with assms(3,4) show ?thesis by (simp add: node_payload_def ex_node_def)
qed

lemma ex_edge_payload: "\<exists>p. edge_payload \<lparr>ed_supplier = ''base'', ed_consumer = ''top'', ed_assumption = ''uses''\<rparr> = Inr p \<and> length p < 1000"
  unfolding edge_payload_def
  by (rule exE [OF frames_ok [of 100 "[(''supplier_node_id'', ''base''), (''consumer_node_id'', ''top''), (''consumer_assumption_id'', ''uses'')]"]])
    auto

lemma ex_framed: "\<exists>p. graph_payload ex_graph = Inr p"
proof -
  obtain a where a: "assumption_payload \<lparr>as_id = ''uses'', as_interface = ex_payload ''iface''\<rparr> = Inr a" "length a < 1000"
    using ex_assumption_payload by blast
  obtain m where m: "node_payload (ex_node ''base'' ''iface'' []) = Inr m" "length m < 20000"
    using ex_node_payload [of "''base''" "''iface''" "[]" "[]"] by auto
  obtain n where n: "node_payload (ex_node ''top'' ''goal'' [\<lparr>as_id = ''uses'', as_interface = ex_payload ''iface''\<rparr>]) = Inr n"
    "length n < 20000"
    using ex_node_payload [of "''top''" "''goal''" "[\<lparr>as_id = ''uses'', as_interface = ex_payload ''iface''\<rparr>]" "[a]"] a by auto
  obtain e where e: "edge_payload \<lparr>ed_supplier = ''base'', ed_consumer = ''top'', ed_assumption = ''uses''\<rparr> = Inr e" "length e < 1000"
    using ex_edge_payload by blast
  have s: "sort_key nd_node_id (gr_nodes ex_graph) = gr_nodes ex_graph" "sort_key edge_key (gr_edges ex_graph) = gr_edges ex_graph"
    by code_simp+
  let ?xs = "[(''schema_id'', GRAPH_SCHEMA), (''terminal_node_id'', ''top''), (''node'', m), (''node'', n), (''edge'', e)]"
  have "list_all (\<lambda>(l, p). length l < 100 \<and> length p < 20000) ?xs" using m(2) n(2) e(2) by (simp add: GRAPH_SCHEMA_def)
  then obtain b where "frames ?xs = Inr b" using frames_ok [of 20000 ?xs] by auto
  then show ?thesis using m(1) n(1) e(1) unfolding graph_payload_def s by (simp add: ex_graph_def)
qed


definition ex_edge_state :: edge_state where
  "ex_edge_state = \<lparr>es_supplied = [(''top'', ''uses'')], es_adjacency = [(''base'', [''top'']), (''top'', [])],
     es_indegree = [(''base'', 0), (''top'', 1)]\<rparr>"

lemma ex_scan: "scan_graph ex_graph = Inr ([(''base.root'', ''base''), (''top.root'', ''top'')], ex_edge_state)"
  by code_simp

lemma ex_checks:
  "sort (filter (\<lambda>k. k \<notin> set (es_supplied ex_edge_state)) (dict_keys (assumption_table (gr_nodes ex_graph)))) = []"
  "adjacent (es_adjacency ex_edge_state) (gr_terminal ex_graph) = []"
  "topological_order ex_edge_state = [''base'', ''top'']"
  "length (gr_nodes ex_graph) = 2"
  "dict_keys (dict_of (map (\<lambda>n. (nd_node_id n, n)) (gr_nodes ex_graph))) = [''base'', ''top'']"
  "sort (filter (\<lambda>n. n \<notin> set (reach_loop (reverse_adjacency [''base'', ''top''] (es_adjacency ex_edge_state))
     [gr_terminal ex_graph] [gr_terminal ex_graph])) [''base'', ''top'']) = []"
  by code_simp+

lemma ex_verified: "\<exists>r. verify_graph ex_sha ex_graph = Inr r \<and> cr_topological_order r = [''base'', ''top'']"
proof -
  obtain p where "graph_payload ex_graph = Inr p" using ex_framed by blast
  then show ?thesis
    unfolding verify_graph_def ex_scan res_bind_simps prod.case Let_def ex_checks by (simp add: graph_digest_def)
qed

lemma ex_made: "made_graph ex_sha ex_graph"
  by code_simp

theorem graph_digest_identifies_witness:
  "made_graph ex_sha ex_graph \<and> (\<exists>d h. graph_digest ex_sha ex_graph = Inr d \<and> graph_digest ex_sha h = Inr d \<and> ex_graph = h)"
proof -
  obtain p where p: "graph_payload ex_graph = Inr p" using ex_framed by blast
  then have d: "graph_digest ex_sha ex_graph = Inr (sha256_digest ex_sha p)" by (simp add: graph_digest_def)
  have "inj_on ex_sha {q. graph_payload ex_graph = Inr q \<or> graph_payload ex_graph = Inr q}" using p by (simp add: inj_on_def)
  from graph_digest_identifies [OF ex_made ex_made d d this] d ex_made show ?thesis by blast
qed

theorem verify_graph_accepts_witness: "made_graph ex_sha ex_graph \<and> graph_valid ex_graph"
  using verify_graph_accepts [OF ex_made] ex_verified ex_made by blast

theorem verified_graph_grounded_witness: "grounded ex_graph ''top''"
proof -
  have n: "ex_node ''top'' ''goal'' [\<lparr>as_id = ''uses'', as_interface = ex_payload ''iface''\<rparr>] \<in> set (gr_nodes ex_graph)"
    by (simp add: ex_graph_def)
  obtain r where "verify_graph ex_sha ex_graph = Inr r" using ex_verified by blast
  from verified_graph_grounded [OF ex_made this n] show ?thesis by (simp add: ex_node_def)
qed

theorem verified_graph_ordered_witness:
  "\<exists>r. verify_graph ex_sha ex_graph = Inr r \<and> set (cr_topological_order r) = {''base'', ''top''}"
proof -
  obtain r where r: "verify_graph ex_sha ex_graph = Inr r" using ex_verified by blast
  from verified_graph_ordered [OF r] have "set (cr_topological_order r) = set (node_ids ex_graph)" by blast
  with r show ?thesis by (simp add: ex_graph_def ex_node_def insert_commute)
qed

end
