(* ===== verification/Json_Objects.thy ===== *)
theory Json_Objects
  imports Json_Text Py_Repr
begin

text \<open>
  What the readers of the proof package share: the keys that an object lacks or has beyond a
  required set, hooks that refuse repeated keys, \<open>str\<close> of a JSON value, and tests of blank texts.
\<close>

section \<open>Objects of an exact shape\<close>

text \<open>The names that \<open>keys - actual\<close> and \<open>actual - keys\<close> hold, as sorted lists.\<close>

definition missing_keys :: "string list \<Rightarrow> (string \<times> json) list \<Rightarrow> string list" where
  "missing_keys keys kvs = sort (filter (\<lambda>k. k \<notin> set (dict_keys kvs)) keys)"

definition unknown_keys :: "string list \<Rightarrow> (string \<times> json) list \<Rightarrow> string list" where
  "unknown_keys keys kvs = sort (filter (\<lambda>k. k \<notin> set keys) (dict_keys kvs))"

text \<open>\<open>repr\<close> of a list of texts.\<close>

definition repr_list :: "string list \<Rightarrow> string" where
  "repr_list ss = CHR ''['' # str_join '', '' (map repr_str ss) @ '']''"

definition shape_detail :: "string \<Rightarrow> string list \<Rightarrow> (string \<times> json) list \<Rightarrow> string" where
  "shape_detail label keys kvs =
     label @ '' missing='' @ repr_list (missing_keys keys kvs) @ '' unknown='' @ repr_list (unknown_keys keys kvs)"

text \<open>A hook that builds a dictionary and raises on a repeated key.\<close>

fun unique_pairs :: "(string \<Rightarrow> 'e) \<Rightarrow> (string \<times> json) list \<Rightarrow> (string \<times> json) list \<Rightarrow> 'e + (string \<times> json) list" where
  "unique_pairs err d [] = Inr d"
| "unique_pairs err d ((k, v) # kvs) =
     (if k \<in> set (dict_keys d) then Inl (err k) else unique_pairs err (dict_set k v d) kvs)"

lemma unique_pairs_distinct:
  "distinct (map fst kvs) \<Longrightarrow> set (dict_keys d) \<inter> set (map fst kvs) = {} \<Longrightarrow> unique_pairs err d kvs = Inr (d @ kvs)"
proof (induction err d kvs rule: unique_pairs.induct)
  case (2 err d k v kvs)
  have k: "k \<notin> set (dict_keys d)" using 2(3) by auto
  have "unique_pairs err (d @ [(k, v)]) kvs = Inr ((d @ [(k, v)]) @ kvs)"
    by (rule 2(1) [unfolded dict_set_fresh [OF k], OF k]) (use 2(2,3) in auto)
  with k show ?case by (simp add: dict_set_fresh)
qed simp

lemma unique_pairs_ok: "hook_ok (unique_pairs err [])"
  by (simp add: hook_ok_def unique_pairs_distinct)

section \<open>\<open>str\<close> and \<open>repr\<close> of values\<close>

text \<open>\<open>repr\<close> of a float is its JSON text, but for the three values that are not numbers.\<close>

definition float_str :: "string \<Rightarrow> string" where
  "float_str t = (if t = ''NaN'' then ''nan'' else if t = ''Infinity'' then ''inf''
     else if t = ''-Infinity'' then ''-inf'' else t)"

fun json_repr :: "json \<Rightarrow> string" where
  "json_repr JNull = ''None''"
| "json_repr (JBool b) = (if b then ''True'' else ''False'')"
| "json_repr (JInt i) = int_str i"
| "json_repr (JFloat t) = float_str t"
| "json_repr (JStr s) = repr_str s"
| "json_repr (JList vs) = CHR ''['' # str_join '', '' (map json_repr vs) @ '']''"
| "json_repr (JObj kvs) = CHR ''{'' # str_join '', '' (map (\<lambda>(k, v). repr_str k @ '': '' @ json_repr v) kvs) @ ''}''"

definition value_str :: "json \<Rightarrow> string" where
  "value_str v = (case v of JStr s \<Rightarrow> s | _ \<Rightarrow> json_repr v)"

lemma value_str_JStr [simp]: "value_str (JStr s) = s"
  by (simp add: value_str_def)

section \<open>Blank texts\<close>

text \<open>
  \<open>not s.strip()\<close> on a text of UTF-8 bytes: the characters for which \<open>isspace\<close> holds are those of
  ASCII, U+0085, U+00A0, U+1680, U+2000 to U+200A, U+2028, U+2029, U+202F, U+205F and U+3000.
\<close>

definition wide_space :: "char \<Rightarrow> char \<Rightarrow> char \<Rightarrow> bool" where
  "wide_space a b c \<longleftrightarrow>
     a = CHR 0xE1 \<and> b = CHR 0x9A \<and> c = CHR 0x80 \<or>
     a = CHR 0xE2 \<and> b = CHR 0x80 \<and> (CHR 0x80 \<le> c \<and> c \<le> CHR 0x8A \<or> c \<in> {CHR 0xA8, CHR 0xA9, CHR 0xAF}) \<or>
     a = CHR 0xE2 \<and> b = CHR 0x81 \<and> c = CHR 0x9F \<or>
     a = CHR 0xE3 \<and> b = CHR 0x80 \<and> c = CHR 0x80"

fun blank :: "string \<Rightarrow> bool" where
  "blank [] = True"
| "blank (a # s) =
     (if is_space a then blank s
      else case s of
        b # t \<Rightarrow>
          if a = CHR 0xC2 \<and> b \<in> {CHR 0x85, CHR 0xA0} then blank t
          else (case t of c # u \<Rightarrow> wide_space a b c \<and> blank u | [] \<Rightarrow> False)
      | [] \<Rightarrow> False)"

section \<open>Iterating over a value\<close>

text \<open>The characters of a text: a leading byte with the continuation bytes that follow it.\<close>

definition continuation :: "char \<Rightarrow> bool" where
  "continuation c \<longleftrightarrow> CHR 0x80 \<le> c \<and> c \<le> CHR 0xBF"

function characters :: "string \<Rightarrow> string list" where
  "characters [] = []"
| "characters (c # s) = (c # takeWhile continuation s) # characters (dropWhile continuation s)"
  by pat_completeness auto
termination
  by (relation "measure length") (simp_all add: le_imp_less_Suc length_dropWhile_le)

text \<open>\<open>tuple(str(item) for item in value)\<close>; \<open>None\<close> when the value cannot be iterated over.\<close>

definition iterated_strs :: "json \<Rightarrow> string list option" where
  "iterated_strs v =
     (case v of
        JList vs \<Rightarrow> Some (map value_str vs)
      | JStr s \<Rightarrow> Some (characters s)
      | JObj kvs \<Rightarrow> Some (dict_keys kvs)
      | _ \<Rightarrow> None)"

lemma map_value_str [simp]: "map (value_str \<circ> JStr) ss = ss"
  by (simp add: comp_def)

lemma iterated_strs_list [simp]: "iterated_strs (JList (map JStr ss)) = Some ss"
  by (simp add: iterated_strs_def comp_def)

section \<open>ASCII output\<close>

text \<open>
  \<open>json.dumps\<close> with \<open>ensure_ascii\<close>, its default: every character outside of the printable ASCII ones is
  written as an escape, those beyond U+FFFF as a surrogate pair. A text that is no UTF-8 does not
  stand for a Python text; its bytes are taken as they are.
\<close>

definition byte_val :: "char \<Rightarrow> nat" where
  "byte_val c = of_char c"

fun utf8_points :: "string \<Rightarrow> nat list" where
  "utf8_points [] = []"
| "utf8_points (a # s) =
     (if byte_val a < 192 then byte_val a # utf8_points s
      else case s of
        [] \<Rightarrow> [byte_val a]
      | b # s2 \<Rightarrow>
          if byte_val a < 224 then ((byte_val a - 192) * 64 + (byte_val b - 128)) # utf8_points s2
          else case s2 of
            [] \<Rightarrow> [byte_val a, byte_val b]
          | c # s3 \<Rightarrow>
              if byte_val a < 240
              then (((byte_val a - 224) * 64 + (byte_val b - 128)) * 64 + (byte_val c - 128)) # utf8_points s3
              else case s3 of
                [] \<Rightarrow> [byte_val a, byte_val b, byte_val c]
              | d # s4 \<Rightarrow>
                  ((((byte_val a - 240) * 64 + (byte_val b - 128)) * 64 + (byte_val c - 128)) * 64 + (byte_val d - 128))
                  # utf8_points s4)"

definition unicode_escape :: "nat \<Rightarrow> string" where
  "unicode_escape n = [CHR 0x5C, CHR ''u'', hex_digit (n div 4096 mod 16), hex_digit (n div 256 mod 16),
     hex_digit (n div 16 mod 16), hex_digit (n mod 16)]"

definition ascii_point :: "nat \<Rightarrow> string" where
  "ascii_point n =
     (if n = 0x22 then [CHR 0x5C, CHR 0x22]
      else if n = 0x5C then [CHR 0x5C, CHR 0x5C]
      else if n = 0x0A then [CHR 0x5C, CHR ''n'']
      else if n = 0x0D then [CHR 0x5C, CHR ''r'']
      else if n = 0x09 then [CHR 0x5C, CHR ''t'']
      else if n = 0x0C then [CHR 0x5C, CHR ''f'']
      else if n = 0x08 then [CHR 0x5C, CHR ''b'']
      else if 0x20 \<le> n \<and> n \<le> 0x7E then [char_of n]
      else if n < 0x10000 then unicode_escape n
      else unicode_escape (0xD800 + (n - 0x10000) div 1024) @ unicode_escape (0xDC00 + (n - 0x10000) mod 1024))"

definition ascii_string :: "string \<Rightarrow> string" where
  "ascii_string s = CHR 0x22 # concat (map ascii_point (utf8_points s)) @ [CHR 0x22]"

fun ascii_dumps :: "json \<Rightarrow> string" where
  "ascii_dumps JNull = ''null''"
| "ascii_dumps (JBool b) = (if b then ''true'' else ''false'')"
| "ascii_dumps (JInt i) = int_str i"
| "ascii_dumps (JFloat t) = t"
| "ascii_dumps (JStr s) = ascii_string s"
| "ascii_dumps (JList vs) = CHR ''['' # str_join '','' (map ascii_dumps vs) @ '']''"
| "ascii_dumps (JObj kvs) = CHR ''{'' # str_join '','' (map (\<lambda>(k, v). ascii_string k @ CHR '':'' # ascii_dumps v) kvs) @ ''}''"

definition canonical_ascii_json :: "json \<Rightarrow> bytes" where
  "canonical_ascii_json v = ascii_dumps (sort_keys v)"

section \<open>Optional texts and members\<close>

definition json_option :: "string option \<Rightarrow> json" where
  "json_option x = (case x of None \<Rightarrow> JNull | Some s \<Rightarrow> JStr s)"

lemma sort_keys_option [simp]: "sort_keys (json_option x) = json_option x"
  by (cases x) (simp_all add: json_option_def)

lemma sort_keys_strs [simp]: "sort_keys (JList (map JStr ss)) = JList (map JStr ss)"
  by (simp add: comp_def)

lemma option_json_ok: "json_ok fl (json_option x)"
  by (cases x) (simp_all add: json_option_def)

lemma json_option_inject: "json_option x = json_option y \<longleftrightarrow> x = y"
  by (cases x; cases y) (simp_all add: json_option_def)

lemma canonical_items:
  assumes "json_ok fl (JObj kvs)" and "json_ok fl (JObj kvs')" and "canonical_json (JObj kvs) = canonical_json (JObj kvs')"
  shows "sort_keys (item kvs k) = sort_keys (item kvs' k)"
proof -
  have "sort_keys (JObj kvs) = sort_keys (JObj kvs')"
    by (rule dumps_inject [OF sort_keys_ok [OF assms(1)] sort_keys_ok [OF assms(2)]]) (use assms(3) in \<open>simp only: canonical_json_def\<close>)
  then have "sort_members kvs = sort_members kvs'" unfolding sort_keys_JObj by simp
  then show ?thesis using item_sorted [of kvs k] item_sorted [of kvs' k] assms(1,2) by simp
qed

section \<open>Writing ASCII texts\<close>

lemma sort_keys_ascii: "json_ascii v \<Longrightarrow> json_ascii (sort_keys v)"
proof (induction v)
  case (JObj kvs)
  then show ?case by (fastforce simp: list_all_iff)
qed (simp_all add: list_all_iff)

lemma hex_text_ascii: "all_ascii (hex b)"
  by (induction b) (simp_all add: hex_Cons hex_byte_ascii)

section \<open>Writing in order\<close>

lemma sort_keys_sorted:
  "sorted (map fst kvs) \<Longrightarrow> sort_keys (JObj kvs) = JObj (map (\<lambda>(k, v). (k, sort_keys v)) kvs)"
  by (simp add: sort_key_id_if_sorted comp_def case_prod_unfold)

end
