(* ===== verification/Receipt_Authority.thy ===== *)
theory Receipt_Authority
  imports Receipt_Graph_Props Json_Objects
begin

text \<open>
  Receipt acceptance authorities (\<open>poo_flow_proof/receipt_acceptance_authority.py\<close>): the evidence
  that is declared, the evidence that an authority returns for it, and the checks of both. An
  authority is a function from the one to the other; \<open>receipt_authority\<close> is its contract.
\<close>

section \<open>Errors\<close>

text \<open>
  What an authority can raise: its own error, an error of a receipt constructor, or a failure to
  encode a text.
\<close>

datatype authority_error =
    AuthorityError string string
  | AuthorityGraphError graph_error
  | AuthorityEncodeError

type_synonym 'a aresult = "authority_error + 'a"

abbreviation authority_err :: "string \<Rightarrow> string \<Rightarrow> 'a aresult" where
  "authority_err code detail \<equiv> Inl (AuthorityError code detail)"

definition lift_graph :: "'a gresult \<Rightarrow> 'a aresult" where
  "lift_graph r = (case r of Inl e \<Rightarrow> Inl (AuthorityGraphError e) | Inr x \<Rightarrow> Inr x)"

lemma lift_graph_Inr [simp]: "lift_graph r = Inr x \<longleftrightarrow> r = Inr x" "lift_graph (Inr x) = Inr x"
  by (cases r) (simp_all add: lift_graph_def)

section \<open>Evidence\<close>

record declared_evidence =
  de_engine :: string
  de_bytes :: bytes
  de_digest :: string

definition declare_evidence :: "(bytes \<Rightarrow> bytes) \<Rightarrow> string \<Rightarrow> bytes \<Rightarrow> string \<Rightarrow> declared_evidence aresult" where
  "declare_evidence sha engine payload dg =
     (if engine = [] then authority_err ''invalid-declared-engine-identity'' ''engine identity must be a non-empty string''
      else let computed = sha256_digest sha payload in
        if dg \<noteq> computed
        then authority_err ''declared-receipt-digest-mismatch'' (''computed '' @ computed @ '', declared '' @ dg)
        else Inr \<lparr>de_engine = engine, de_bytes = payload, de_digest = dg\<rparr>)"

record verified_evidence =
  ve_acceptance :: accepted_evidence
  ve_source :: canonical_payload
  ve_bundle :: string
  ve_interface :: canonical_payload
  ve_roots :: "string list"

definition verify_evidence :: "verified_evidence \<Rightarrow> verified_evidence aresult" where
  "verify_evidence v =
     (if (ae_bound_source (ve_acceptance v), ae_bound_bundle (ve_acceptance v), ae_bound_interface (ve_acceptance v)) \<noteq>
         (cp_digest (ve_source v), ve_bundle v, cp_digest (ve_interface v))
      then authority_err ''authority-acceptance-binding-mismatch'' ''authority acceptance must bind its derived identities''
      else if ve_roots v = []
      then authority_err ''empty-authority-root-declarations'' ''authority evidence must bind at least one root declaration''
      else if \<exists>d \<in> set (ve_roots v). d = []
      then authority_err ''invalid-authority-root-declaration'' ''authority root declarations must be non-empty strings''
      else Inr (v\<lparr>ve_roots := sort (ve_roots v)\<rparr>))"

section \<open>The contract of an authority\<close>

text \<open>An authority returns evidence that passed the checks of its constructors.\<close>

definition evidence_ok :: "(bytes \<Rightarrow> bytes) \<Rightarrow> verified_evidence \<Rightarrow> bool" where
  "evidence_ok sha v \<longleftrightarrow> verify_evidence v = Inr v \<and> check_evidence sha (ve_acceptance v) = Inr (ve_acceptance v)"

locale receipt_authority =
  fixes sha :: "bytes \<Rightarrow> bytes"
    and validate :: "declared_evidence \<Rightarrow> verified_evidence aresult"
  assumes evidence: "validate d = Inr v \<Longrightarrow> evidence_ok sha v"
    and claimed: "validate d = Inr v \<Longrightarrow>
      ae_engine_identity (ve_acceptance v) = de_engine d \<and> ae_receipt_bytes (ve_acceptance v) = de_bytes d"

end
