(* ===== verification/Axle_Authority.thy ===== *)
theory Axle_Authority
  imports Receipt_Authority
begin

text \<open>
  The AXLE receipt authority (\<open>poo_flow_proof/axle_receipt_authority.py\<close>): the parser of closure
  artifacts with its shape, schema and binding checks, and the authority that accepts a declared
  receipt only when a fresh verification gives the same identity. The verification that is run
  again is the parameter \<open>reverify\<close>; SHA-256, the float conversion and the text of a decoding error
  are parameters too.
\<close>

section \<open>Constants\<close>

definition AXLE_ENGINE :: string where
  "AXLE_ENGINE = ''poo-flow-axle-verify''"

definition AXLE_INTERFACE_SCHEMA :: string where
  "AXLE_INTERFACE_SCHEMA = ''poo-flow.axle-provided-interface.v1''"

definition AXLE_SOURCE_SCHEMA :: string where
  "AXLE_SOURCE_SCHEMA = ''poo-flow.axle-source-identity.v1''"

definition TOP_LEVEL_KEYS :: "string list" where
  "TOP_LEVEL_KEYS = [''closure'', ''exact_bundle'', ''exact_bundle_digest'', ''independent_declaration_bundle'',
     ''independent_declaration_bundle_digest'', ''preflight'']"

definition CLOSURE_KEYS :: "string list" where
  "CLOSURE_KEYS = [''base_imports'', ''declarations'', ''lean_version'', ''owner_modules'', ''proof_base_imports'',
     ''proof_base_interface'', ''root_declarations'', ''root_module'', ''schema_id'']"

definition PREFLIGHT_KEYS :: "string list" where
  "PREFLIGHT_KEYS = [''axle_base_timeout_seconds'', ''axle_environment'', ''axle_operation_timeout_seconds'',
     ''closure_digest'', ''declaration_count'', ''lean_export_timeout_seconds'', ''owner_sources'',
     ''proof_base_imports'', ''proof_base_interface_count'', ''root_declarations'', ''root_module'', ''schema_id'']"

definition EXACT_BUNDLE_KEYS :: "string list" where
  "EXACT_BUNDLE_KEYS = [''bundle_digest'', ''canonical_source'', ''canonical_source_digest'', ''declarations'',
     ''environment'', ''lean_closure_digest'', ''root_declarations'', ''schema_id'', ''source_declarations'',
     ''theorem2sorry'', ''verification'']"

definition INDEPENDENT_BUNDLE_KEYS :: "string list" where
  "INDEPENDENT_BUNDLE_KEYS = [''axle_environment'', ''canonical_source_digest'', ''declarations'', ''lean_toolchain'',
     ''proof_base_declarations'', ''proof_base_imports'', ''proof_base_interface_digest'', ''resolved_sources'',
     ''root_declarations'', ''root_module'', ''schema_id'']"

definition VERIFICATION_KEYS :: "string list" where
  "VERIFICATION_KEYS = [''failed_declarations'', ''lean_messages'', ''okay'', ''request'', ''roundtrip'', ''schema_id'',
     ''status'', ''theorem_proof'', ''timings'', ''tool_messages'']"

definition THEOREM2SORRY_KEYS :: "string list" where
  "THEOREM2SORRY_KEYS = [''messages'', ''request'', ''root_declaration_kinds'', ''root_declarations'', ''schema_id'', ''status'']"

section \<open>Typed access\<close>

definition axle_canonical_json :: "json \<Rightarrow> bytes aresult" where
  "axle_canonical_json v =
     (let t = canonical_json v in if utf8_valid t then Inr t else Inl AuthorityEncodeError)"

definition axle_hook :: "authority_error hook" where
  "axle_hook = unique_pairs (\<lambda>k. AuthorityError ''duplicate-axle-receipt-key'' (''duplicate object key '' @ k)) []"

definition axle_exact_object :: "json \<Rightarrow> string \<Rightarrow> string list \<Rightarrow> (string \<times> json) list aresult" where
  "axle_exact_object v label keys =
     (case v of
        JObj kvs \<Rightarrow>
          if set (dict_keys kvs) \<noteq> set keys
          then authority_err ''axle-receipt-shape-mismatch'' (shape_detail label keys kvs)
          else Inr kvs
      | _ \<Rightarrow> authority_err ''axle-receipt-type-mismatch'' (label @ '' must be an object''))"

definition axle_string :: "string \<Rightarrow> json \<Rightarrow> string aresult" where
  "axle_string label v =
     (case v of
        JStr s \<Rightarrow> if s = [] then authority_err ''axle-receipt-type-mismatch'' (label @ '' must be a non-empty string'') else Inr s
      | _ \<Rightarrow> authority_err ''axle-receipt-type-mismatch'' (label @ '' must be a non-empty string''))"

definition axle_string_tuple :: "string \<Rightarrow> json \<Rightarrow> string list aresult" where
  "axle_string_tuple label v =
     (case v of
        JList vs \<Rightarrow>
          res_bind (res_map (axle_string label) vs) (\<lambda>ss.
          if \<not> distinct ss then authority_err ''duplicate-axle-receipt-value'' (label @ '' must not repeat values'')
          else Inr ss)
      | _ \<Rightarrow> authority_err ''axle-receipt-type-mismatch'' (label @ '' must be an array''))"

definition axle_digest :: "string \<Rightarrow> json \<Rightarrow> string aresult" where
  "axle_digest label v =
     res_bind (axle_string label v) (\<lambda>d.
     if \<not> is_sha256 d then authority_err ''invalid-axle-receipt-digest'' (label @ '' must be a canonical sha256 digest'')
     else Inr d)"

section \<open>The artifact\<close>

record axle_request =
  ar_environment :: string
  ar_root_module :: string
  ar_root_declarations :: "string list"
  ar_base_imports :: "string list"
  ar_proof_base_imports :: "string list"

record parsed_artifact =
  pa_manifest :: "(string \<times> json) list"
  pa_canonical_bytes :: bytes
  pa_request :: axle_request
  pa_exact_digest :: string
  pa_independent_digest :: string
  pa_source_digest :: string
  pa_source :: canonical_payload
  pa_interface :: canonical_payload

text \<open>The objects of an artifact, of the shapes that \<open>_exact_object\<close> demands.\<close>

record axle_objects =
  ao_artifact :: "(string \<times> json) list"
  ao_closure :: "(string \<times> json) list"
  ao_preflight :: "(string \<times> json) list"
  ao_exact :: "(string \<times> json) list"
  ao_independent :: "(string \<times> json) list"
  ao_verification :: "(string \<times> json) list"

definition axle_shapes :: "json \<Rightarrow> axle_objects aresult" where
  "axle_shapes manifest =
     res_bind (axle_exact_object manifest ''artifact'' TOP_LEVEL_KEYS) (\<lambda>a.
     res_bind (axle_exact_object (item a ''closure'') ''closure'' CLOSURE_KEYS) (\<lambda>c.
     res_bind (axle_exact_object (item a ''preflight'') ''preflight'' PREFLIGHT_KEYS) (\<lambda>p.
     res_bind (axle_exact_object (item a ''exact_bundle'') ''exact_bundle'' EXACT_BUNDLE_KEYS) (\<lambda>e.
     res_bind (axle_exact_object (item a ''independent_declaration_bundle'') ''independent_declaration_bundle''
       INDEPENDENT_BUNDLE_KEYS) (\<lambda>i.
     res_bind (axle_exact_object (item e ''verification'') ''exact_bundle.verification'' VERIFICATION_KEYS) (\<lambda>v.
     res_bind (axle_exact_object (item e ''theorem2sorry'') ''exact_bundle.theorem2sorry'' THEOREM2SORRY_KEYS) (\<lambda>_.
     Inr \<lparr>ao_artifact = a, ao_closure = c, ao_preflight = p, ao_exact = e, ao_independent = i,
          ao_verification = v\<rparr>)))))))"

fun axle_schemas :: "((string \<times> json) list \<times> string \<times> string) list \<Rightarrow> unit aresult" where
  "axle_schemas [] = Inr ()"
| "axle_schemas ((kvs, expected, label) # xs) =
     (if item kvs ''schema_id'' \<noteq> JStr expected
      then authority_err ''invalid-axle-receipt-schema'' (label @ '' expected '' @ expected)
      else axle_schemas xs)"

definition axle_accepted :: "axle_objects \<Rightarrow> unit aresult" where
  "axle_accepted ob =
     res_bind (axle_schemas
       [(ao_closure ob, ''poo-flow.lean-declaration-closure.v1'', ''closure''),
        (ao_preflight ob, ''poo-flow.axle-closure-preflight.v1'', ''preflight''),
        (ao_exact ob, ''poo-flow.axle-exact-declaration-closure.v1'', ''exact_bundle''),
        (ao_independent ob, ''poo-flow.independent-declaration-bundle.v1'', ''independent_declaration_bundle''),
        (ao_verification ob, ''poo-flow.axle-root-declaration-validation.v1'', ''exact_bundle.verification'')]) (\<lambda>_.
     if item (ao_verification ob) ''status'' \<noteq> JStr ''accepted''
     then authority_err ''axle-receipt-not-accepted'' ''AXLE verification status must be accepted''
     else if item (ao_verification ob) ''okay'' \<noteq> JBool True
     then authority_err ''axle-receipt-not-okay'' ''AXLE verification okay must be true''
     else if item (ao_verification ob) ''failed_declarations'' \<noteq> JList []
     then authority_err ''axle-receipt-has-failures'' ''AXLE verification must have zero failed declarations''
     else Inr ())"

text \<open>What the owner artifacts must agree on.\<close>

record axle_bindings =
  ab_roots :: "string list"
  ab_root_module :: string
  ab_proof_base_imports :: "string list"
  ab_source_digest :: string
  ab_exact_digest :: string
  ab_independent_digest :: string

definition axle_agreement :: "axle_objects \<Rightarrow> axle_bindings aresult" where
  "axle_agreement ob =
     res_bind (axle_string_tuple ''closure.root_declarations'' (item (ao_closure ob) ''root_declarations'')) (\<lambda>roots.
     res_bind (axle_string_tuple ''preflight.root_declarations'' (item (ao_preflight ob) ''root_declarations'')) (\<lambda>r1.
     res_bind (axle_string_tuple ''exact_bundle.root_declarations'' (item (ao_exact ob) ''root_declarations'')) (\<lambda>r2.
     res_bind (axle_string_tuple ''independent.root_declarations'' (item (ao_independent ob) ''root_declarations'')) (\<lambda>r3.
     if sort r1 \<noteq> sort roots \<or> sort r2 \<noteq> sort roots \<or> sort r3 \<noteq> sort roots
     then authority_err ''axle-root-declaration-mismatch'' ''all AXLE owner artifacts must bind the same roots''
     else
     res_bind (axle_string ''closure.root_module'' (item (ao_closure ob) ''root_module'')) (\<lambda>m.
     if item (ao_preflight ob) ''root_module'' \<noteq> JStr m \<or> item (ao_independent ob) ''root_module'' \<noteq> JStr m
     then authority_err ''axle-root-module-mismatch'' ''closure, preflight, and independent bundle roots must agree''
     else
     res_bind (axle_string_tuple ''closure.proof_base_imports'' (item (ao_closure ob) ''proof_base_imports'')) (\<lambda>is.
     res_bind (axle_string_tuple ''preflight.proof_base_imports'' (item (ao_preflight ob) ''proof_base_imports'')) (\<lambda>i1.
     res_bind (if i1 \<noteq> is then Inr i1
               else axle_string_tuple ''independent.proof_base_imports'' (item (ao_independent ob) ''proof_base_imports'')) (\<lambda>i2.
     if i2 \<noteq> is
     then authority_err ''axle-proof-base-import-mismatch'' ''all AXLE owner artifacts must bind the same proof-base imports''
     else
     res_bind (axle_digest ''exact_bundle.canonical_source_digest'' (item (ao_exact ob) ''canonical_source_digest'')) (\<lambda>sd.
     if item (ao_independent ob) ''canonical_source_digest'' \<noteq> JStr sd
     then authority_err ''axle-canonical-source-digest-mismatch'' ''exact and independent bundles must bind the same source''
     else
     res_bind (axle_digest ''exact_bundle_digest'' (item (ao_artifact ob) ''exact_bundle_digest'')) (\<lambda>ed.
     if item (ao_exact ob) ''bundle_digest'' \<noteq> JStr ed
     then authority_err ''axle-exact-bundle-digest-mismatch'' ''top-level and exact bundle digests must agree''
     else
     res_bind (axle_digest ''independent_declaration_bundle_digest''
       (item (ao_artifact ob) ''independent_declaration_bundle_digest'')) (\<lambda>id.
     Inr \<lparr>ab_roots = roots, ab_root_module = m, ab_proof_base_imports = is, ab_source_digest = sd,
          ab_exact_digest = ed, ab_independent_digest = id\<rparr>)))))))))))"

definition source_identity_json :: "axle_objects \<Rightarrow> axle_bindings \<Rightarrow> json" where
  "source_identity_json ob b = JObj
     [(''canonical_source'', item (ao_exact ob) ''canonical_source''),
      (''canonical_source_digest'', JStr (ab_source_digest b)),
      (''resolved_sources'', item (ao_independent ob) ''resolved_sources''),
      (''root_module'', JStr (ab_root_module b)),
      (''schema_id'', JStr AXLE_SOURCE_SCHEMA)]"

definition provided_interface_json :: "axle_objects \<Rightarrow> axle_bindings \<Rightarrow> json" where
  "provided_interface_json ob b = JObj
     [(''canonical_source'', item (ao_exact ob) ''canonical_source''),
      (''canonical_source_digest'', JStr (ab_source_digest b)),
      (''declarations'', item (ao_exact ob) ''declarations''),
      (''exact_bundle_digest'', JStr (ab_exact_digest b)),
      (''root_declarations'', JList (map JStr (sort (ab_roots b)))),
      (''schema_id'', JStr AXLE_INTERFACE_SCHEMA),
      (''source_declarations'', item (ao_exact ob) ''source_declarations'')]"

text \<open>The part of the parser that starts from the decoded manifest.\<close>

definition axle_from_manifest ::
  "(bytes \<Rightarrow> bytes) \<Rightarrow> bytes option \<Rightarrow> json \<Rightarrow> parsed_artifact aresult" where
  "axle_from_manifest sha required manifest =
     res_bind (axle_shapes manifest) (\<lambda>ob.
     res_bind (axle_accepted ob) (\<lambda>_.
     res_bind (axle_agreement ob) (\<lambda>b.
     res_bind (axle_canonical_json (JObj (ao_artifact ob))) (\<lambda>canonical.
     if required \<noteq> None \<and> required \<noteq> Some canonical
     then authority_err ''noncanonical-axle-receipt-bytes'' ''AXLE authority receipt must use the unique v1 JSON encoding''
     else
     res_bind (axle_canonical_json (source_identity_json ob b)) (\<lambda>sb.
     res_bind (axle_canonical_json (provided_interface_json ob b)) (\<lambda>ib.
     res_bind (axle_string ''exact_bundle.environment'' (item (ao_exact ob) ''environment'')) (\<lambda>env.
     res_bind (axle_string_tuple ''closure.base_imports'' (item (ao_closure ob) ''base_imports'')) (\<lambda>base.
     res_bind (lift_graph (canonical_source_identity sha sb (sha256_digest sha sb))) (\<lambda>source.
     res_bind (lift_graph (canonical_interface sha ib (sha256_digest sha ib))) (\<lambda>interface.
     Inr \<lparr>pa_manifest = ao_artifact ob, pa_canonical_bytes = canonical,
          pa_request = \<lparr>ar_environment = env, ar_root_module = ab_root_module b, ar_root_declarations = ab_roots b,
                        ar_base_imports = base, ar_proof_base_imports = ab_proof_base_imports b\<rparr>,
          pa_exact_digest = ab_exact_digest b, pa_independent_digest = ab_independent_digest b,
          pa_source_digest = ab_source_digest b, pa_source = source, pa_interface = interface\<rparr>))))))))))"

definition parse_axle_artifact ::
  "(bytes \<Rightarrow> bytes) \<Rightarrow> (string \<Rightarrow> string) \<Rightarrow> (bytes \<Rightarrow> string) \<Rightarrow> bool \<Rightarrow> bytes \<Rightarrow> parsed_artifact aresult" where
  "parse_axle_artifact sha fl msg require_canonical payload =
     (if \<not> utf8_valid payload then authority_err ''invalid-axle-receipt-json'' (msg payload)
      else case json_loads fl axle_hook payload of
        Inl (HookError e) \<Rightarrow> Inl e
      | Inl JsonDecode \<Rightarrow> authority_err ''invalid-axle-receipt-json'' (msg payload)
      | Inr manifest \<Rightarrow> axle_from_manifest sha (if require_canonical then Some payload else None) manifest)"

definition declare_axle_receipt ::
  "(bytes \<Rightarrow> bytes) \<Rightarrow> (string \<Rightarrow> string) \<Rightarrow> (bytes \<Rightarrow> string) \<Rightarrow> bytes \<Rightarrow> declared_evidence aresult" where
  "declare_axle_receipt sha fl msg payload =
     res_bind (parse_axle_artifact sha fl msg False payload) (\<lambda>p.
     declare_evidence sha AXLE_ENGINE (pa_canonical_bytes p) (sha256_digest sha (pa_canonical_bytes p)))"

section \<open>The authority\<close>

definition mismatched_components :: "parsed_artifact \<Rightarrow> parsed_artifact \<Rightarrow> string list" where
  "mismatched_components claimed fresh = map fst (filter (\<lambda>(_, same). \<not> same)
     [(''canonical_source_digest'', pa_source_digest claimed = pa_source_digest fresh),
      (''exact_bundle_digest'', pa_exact_digest claimed = pa_exact_digest fresh),
      (''independent_bundle_digest'', pa_independent_digest claimed = pa_independent_digest fresh),
      (''provided_interface'', pa_interface claimed = pa_interface fresh),
      (''request'', pa_request claimed = pa_request fresh),
      (''source_identity'', pa_source claimed = pa_source fresh)])"

definition axle_validate ::
  "(bytes \<Rightarrow> bytes) \<Rightarrow> (string \<Rightarrow> string) \<Rightarrow> (bytes \<Rightarrow> string) \<Rightarrow> (axle_request \<Rightarrow> bytes aresult)
   \<Rightarrow> declared_evidence \<Rightarrow> verified_evidence aresult" where
  "axle_validate sha fl msg reverify d =
     (if de_engine d \<noteq> AXLE_ENGINE then authority_err ''wrong-receipt-authority'' (''expected '' @ AXLE_ENGINE)
      else
      res_bind (parse_axle_artifact sha fl msg True (de_bytes d)) (\<lambda>claimed.
      res_bind (reverify (pa_request claimed)) (\<lambda>fresh_bytes.
      res_bind (parse_axle_artifact sha fl msg False fresh_bytes) (\<lambda>fresh.
      if mismatched_components claimed fresh \<noteq> []
      then authority_err ''axle-owner-reverification-mismatch''
        (''fresh AXLE owner result differs in '' @ repr_list (mismatched_components claimed fresh))
      else
      res_bind (lift_graph (check_evidence sha
        \<lparr>ae_engine_identity = AXLE_ENGINE, ae_receipt_bytes = de_bytes d, ae_receipt_digest = de_digest d,
         ae_bound_source = cp_digest (pa_source fresh), ae_bound_bundle = pa_independent_digest fresh,
         ae_bound_interface = cp_digest (pa_interface fresh), ae_decision = ''accepted''\<rparr>)) (\<lambda>acceptance.
      verify_evidence \<lparr>ve_acceptance = acceptance, ve_source = pa_source fresh,
        ve_bundle = pa_independent_digest fresh, ve_interface = pa_interface fresh,
        ve_roots = ar_root_declarations (pa_request fresh)\<rparr>)))))"

end
