(* ===== verification/Receipt_Audit.thy ===== *)
theory Receipt_Audit
  imports Receipt_Authority
begin

text \<open>
  Audits of receipt graphs (\<open>poo_flow_proof/proof_base_receipt_graph_audit.py\<close>): the canonical JSON
  artifact of a verified graph, and the decoder that rebuilds the graph, asks an authority about
  every receipt, verifies the graph again, and demands the one canonical encoding. The authority
  is the parameter \<open>validate\<close>.
\<close>

section \<open>Errors and typed access\<close>

datatype audit_error =
    AuditError string string
  | AuditGraphError graph_error
  | AuditAuthorityError authority_error
  | AuditEncodeError

type_synonym 'a auresult = "audit_error + 'a"

abbreviation audit_err :: "string \<Rightarrow> string \<Rightarrow> 'a auresult" where
  "audit_err code detail \<equiv> Inl (AuditError code detail)"

definition audit_graph :: "'a gresult \<Rightarrow> 'a auresult" where
  "audit_graph r = (case r of Inl e \<Rightarrow> Inl (AuditGraphError e) | Inr x \<Rightarrow> Inr x)"

lemma audit_graph_Inr [simp]: "audit_graph r = Inr x \<longleftrightarrow> r = Inr x" "audit_graph (Inr x) = Inr x"
  by (cases r) (simp_all add: audit_graph_def)

definition AUDIT_SCHEMA :: string where
  "AUDIT_SCHEMA = ''poo-flow.proof-base-receipt-graph-audit.v1''"

definition exact_object :: "json \<Rightarrow> string \<Rightarrow> string list \<Rightarrow> (string \<times> json) list auresult" where
  "exact_object v label keys =
     (case v of
        JObj kvs \<Rightarrow>
          if set (dict_keys kvs) \<noteq> set keys then audit_err ''audit-shape-mismatch'' (shape_detail label keys kvs)
          else Inr kvs
      | _ \<Rightarrow> audit_err ''audit-type-mismatch'' (label @ '' must be an object''))"

definition exact_array :: "json \<Rightarrow> string \<Rightarrow> json list auresult" where
  "exact_array v label = (case v of JList vs \<Rightarrow> Inr vs | _ \<Rightarrow> audit_err ''audit-type-mismatch'' (label @ '' must be an array''))"

definition exact_string :: "string \<Rightarrow> json \<Rightarrow> string auresult" where
  "exact_string label v = (case v of JStr s \<Rightarrow> Inr s | _ \<Rightarrow> audit_err ''audit-type-mismatch'' (label @ '' must be a string''))"

definition exact_integer :: "string \<Rightarrow> json \<Rightarrow> int auresult" where
  "exact_integer label v = (case v of JInt i \<Rightarrow> Inr i | _ \<Rightarrow> audit_err ''audit-type-mismatch'' (label @ '' must be an integer''))"

text \<open>\<open>(?:[0-9a-f]{2})*\<close>\<close>

definition lower_hex :: "string \<Rightarrow> bool" where
  "lower_hex s \<longleftrightarrow> even (length s) \<and>
     list_all (\<lambda>c. CHR ''0'' \<le> c \<and> c \<le> CHR ''9'' \<or> CHR ''a'' \<le> c \<and> c \<le> CHR ''f'') s"

text \<open>\<open>fromhex\<close> accepts every text that matches.\<close>

definition decode_hex :: "string \<Rightarrow> json \<Rightarrow> bytes auresult" where
  "decode_hex label v =
     res_bind (exact_string label v) (\<lambda>s.
     if \<not> lower_hex s
     then audit_err ''noncanonical-audit-hex'' (label @ '' must use even-length lowercase hexadecimal'')
     else case fromhex s of Inl _ \<Rightarrow> audit_err ''noncanonical-audit-hex'' [] | Inr b \<Rightarrow> Inr b)"

definition audit_hook :: "audit_error hook" where
  "audit_hook = unique_pairs (\<lambda>k. AuditError ''duplicate-audit-key'' (''duplicate object key '' @ k)) []"

section \<open>Writing\<close>

definition interface_object :: "canonical_payload \<Rightarrow> json" where
  "interface_object p = JObj [(''canonical_bytes_hex'', JStr (hex (cp_bytes p))), (''digest'', JStr (cp_digest p))]"

definition source_identity_object :: "canonical_payload \<Rightarrow> json" where
  "source_identity_object p = JObj [(''canonical_bytes_hex'', JStr (hex (cp_bytes p))), (''digest'', JStr (cp_digest p))]"

definition acceptance_object :: "accepted_evidence \<Rightarrow> json" where
  "acceptance_object a = JObj
     [(''canonical_receipt_bytes_hex'', JStr (hex (ae_receipt_bytes a))), (''engine_identity'', JStr (ae_engine_identity a)),
      (''receipt_digest'', JStr (ae_receipt_digest a))]"

definition assumption_object :: "interface_assumption \<Rightarrow> json" where
  "assumption_object a = JObj [(''assumption_id'', JStr (as_id a)), (''interface'', interface_object (as_interface a))]"

definition node_object :: "receipt_node \<Rightarrow> json" where
  "node_object n = JObj
     [(''acceptance'', acceptance_object (nd_acceptance n)),
      (''assumed_interfaces'', JList (map assumption_object (sort_key as_id (nd_assumed_interfaces n)))),
      (''independent_bundle_digest'', JStr (nd_bundle_digest n)),
      (''node_id'', JStr (nd_node_id n)),
      (''provided_interface'', interface_object (nd_provided_interface n)),
      (''root_declarations'', JList (map JStr (sort (nd_root_declarations n)))),
      (''source_identity'', source_identity_object (nd_source_identity n))]"

definition edge_object :: "receipt_edge \<Rightarrow> json" where
  "edge_object e = JObj
     [(''consumer_assumption_id'', JStr (ed_assumption e)), (''consumer_node_id'', JStr (ed_consumer e)),
      (''supplier_node_id'', JStr (ed_supplier e))]"

definition verified_receipt_object :: "composition_receipt \<Rightarrow> json" where
  "verified_receipt_object r = JObj
     [(''edge_count'', JInt (int (cr_edge_count r))), (''graph_digest'', JStr (cr_graph_digest r)),
      (''node_count'', JInt (int (cr_node_count r))),
      (''root_declaration_count'', JInt (int (cr_root_declaration_count r))),
      (''schema_id'', JStr (cr_schema_id r)), (''terminal_node_id'', JStr (cr_terminal r)),
      (''topological_order'', JList (map JStr (cr_topological_order r)))]"

definition graph_object :: "receipt_graph \<Rightarrow> json" where
  "graph_object g = JObj
     [(''edges'', JList (map edge_object (sort_key edge_key (gr_edges g)))),
      (''nodes'', JList (map node_object (sort_key nd_node_id (gr_nodes g)))),
      (''schema_id'', JStr (gr_schema_id g)), (''terminal_node_id'', JStr (gr_terminal g))]"

definition audit_object :: "receipt_graph \<Rightarrow> composition_receipt \<Rightarrow> json" where
  "audit_object g r = JObj
     [(''graph'', graph_object g), (''schema_id'', JStr AUDIT_SCHEMA),
      (''verified_composition_receipt'', verified_receipt_object r)]"

definition encode_audit :: "(bytes \<Rightarrow> bytes) \<Rightarrow> receipt_graph \<Rightarrow> bytes auresult" where
  "encode_audit sha g =
     res_bind (audit_graph (verify_graph sha g)) (\<lambda>r.
     let t = canonical_json (audit_object g r) in if utf8_valid t then Inr t else Inl AuditEncodeError)"

section \<open>Reading\<close>

definition parse_interface :: "(bytes \<Rightarrow> bytes) \<Rightarrow> string \<Rightarrow> json \<Rightarrow> canonical_payload auresult" where
  "parse_interface sha label v =
     res_bind (exact_object v label [''canonical_bytes_hex'', ''digest'']) (\<lambda>kvs.
     res_bind (decode_hex (label @ ''.canonical_bytes_hex'') (item kvs ''canonical_bytes_hex'')) (\<lambda>b.
     res_bind (exact_string (label @ ''.digest'') (item kvs ''digest'')) (\<lambda>d.
     audit_graph (canonical_interface sha b d))))"

definition parse_source_identity :: "(bytes \<Rightarrow> bytes) \<Rightarrow> json \<Rightarrow> canonical_payload auresult" where
  "parse_source_identity sha v =
     res_bind (exact_object v ''node.source_identity'' [''canonical_bytes_hex'', ''digest'']) (\<lambda>kvs.
     res_bind (decode_hex ''node.source_identity.canonical_bytes_hex'' (item kvs ''canonical_bytes_hex'')) (\<lambda>b.
     res_bind (exact_string ''node.source_identity.digest'' (item kvs ''digest'')) (\<lambda>d.
     audit_graph (canonical_source_identity sha b d))))"

text \<open>The errors of an authority, of which one class is translated.\<close>

definition audit_authority :: "'a aresult \<Rightarrow> 'a auresult" where
  "audit_authority r =
     (case r of
        Inr x \<Rightarrow> Inr x
      | Inl (AuthorityError code detail) \<Rightarrow> audit_err ''authority-receipt-rejected'' (code @ '': '' @ detail)
      | Inl e \<Rightarrow> Inl (AuditAuthorityError e))"

lemma audit_authority_Inr [simp]: "audit_authority r = Inr x \<longleftrightarrow> r = Inr x" "audit_authority (Inr x) = Inr x"
  by (auto simp: audit_authority_def split: sum.splits authority_error.splits)

definition parse_acceptance ::
  "(bytes \<Rightarrow> bytes) \<Rightarrow> (declared_evidence \<Rightarrow> verified_evidence aresult) \<Rightarrow> json \<Rightarrow> verified_evidence auresult" where
  "parse_acceptance sha validate v =
     res_bind (exact_object v ''node.acceptance'' [''canonical_receipt_bytes_hex'', ''engine_identity'', ''receipt_digest'']) (\<lambda>kvs.
     res_bind (exact_string ''node.acceptance.engine_identity'' (item kvs ''engine_identity'')) (\<lambda>engine.
     res_bind (decode_hex ''node.acceptance.canonical_receipt_bytes_hex'' (item kvs ''canonical_receipt_bytes_hex'')) (\<lambda>b.
     res_bind (exact_string ''node.acceptance.receipt_digest'' (item kvs ''receipt_digest'')) (\<lambda>d.
     audit_authority (res_bind (declare_evidence sha engine b d) validate)))))"

definition parse_assumption :: "(bytes \<Rightarrow> bytes) \<Rightarrow> json \<Rightarrow> interface_assumption auresult" where
  "parse_assumption sha v =
     res_bind (exact_object v ''node.assumed_interface'' [''assumption_id'', ''interface'']) (\<lambda>kvs.
     res_bind (exact_string ''node.assumed_interface.assumption_id'' (item kvs ''assumption_id'')) (\<lambda>aid.
     res_bind (parse_interface sha ''node.assumed_interface.interface'' (item kvs ''interface'')) (\<lambda>i.
     audit_graph (named_interface_assumption aid i))))"

definition parse_node ::
  "(bytes \<Rightarrow> bytes) \<Rightarrow> (declared_evidence \<Rightarrow> verified_evidence aresult) \<Rightarrow> json \<Rightarrow> receipt_node auresult" where
  "parse_node sha validate v =
     res_bind (exact_object v ''graph.node'' [''acceptance'', ''assumed_interfaces'', ''independent_bundle_digest'',
       ''node_id'', ''provided_interface'', ''root_declarations'', ''source_identity'']) (\<lambda>kvs.
     res_bind (exact_array (item kvs ''assumed_interfaces'') ''node.assumed_interfaces'') (\<lambda>avs.
     res_bind (res_map (parse_assumption sha) avs) (\<lambda>assumptions.
     res_bind (exact_array (item kvs ''root_declarations'') ''node.root_declarations'') (\<lambda>rvs.
     res_bind (res_map (exact_string ''node.root_declaration'') rvs) (\<lambda>roots.
     res_bind (parse_acceptance sha validate (item kvs ''acceptance'')) (\<lambda>evidence.
     res_bind (parse_source_identity sha (item kvs ''source_identity'')) (\<lambda>source.
     res_bind (exact_string ''node.independent_bundle_digest'' (item kvs ''independent_bundle_digest'')) (\<lambda>bundle.
     res_bind (parse_interface sha ''node.provided_interface'' (item kvs ''provided_interface'')) (\<lambda>provided.
     if ve_roots evidence \<noteq> sort roots
     then audit_err ''authority-root-declaration-mismatch'' ''authority roots must equal the graph node roots''
     else if ve_source evidence \<noteq> source \<or> ve_bundle evidence \<noteq> bundle \<or> ve_interface evidence \<noteq> provided
     then audit_err ''authority-node-binding-mismatch'' ''authority-derived identities must equal the graph node identities''
     else
     res_bind (exact_string ''node.node_id'' (item kvs ''node_id'')) (\<lambda>nid.
     audit_graph (make_receipt_node
       \<lparr>nd_node_id = nid, nd_source_identity = source, nd_bundle_digest = bundle, nd_root_declarations = roots,
        nd_provided_interface = provided, nd_assumed_interfaces = assumptions,
        nd_acceptance = ve_acceptance evidence\<rparr>)))))))))))"

definition parse_edge :: "json \<Rightarrow> receipt_edge auresult" where
  "parse_edge v =
     res_bind (exact_object v ''graph.edge'' [''consumer_assumption_id'', ''consumer_node_id'', ''supplier_node_id'']) (\<lambda>kvs.
     res_bind (exact_string ''edge.supplier_node_id'' (item kvs ''supplier_node_id'')) (\<lambda>s.
     res_bind (exact_string ''edge.consumer_node_id'' (item kvs ''consumer_node_id'')) (\<lambda>c.
     res_bind (exact_string ''edge.consumer_assumption_id'' (item kvs ''consumer_assumption_id'')) (\<lambda>a.
     audit_graph (make_receipt_edge s c a)))))"

definition parse_declared_receipt :: "json \<Rightarrow> json auresult" where
  "parse_declared_receipt v =
     (let l = ''verified_composition_receipt'' in
      res_bind (exact_object v l [''edge_count'', ''graph_digest'', ''node_count'', ''root_declaration_count'',
        ''schema_id'', ''terminal_node_id'', ''topological_order'']) (\<lambda>kvs.
      res_bind (exact_integer (l @ ''.edge_count'') (item kvs ''edge_count'')) (\<lambda>ec.
      res_bind (exact_string (l @ ''.graph_digest'') (item kvs ''graph_digest'')) (\<lambda>gd.
      res_bind (exact_integer (l @ ''.node_count'') (item kvs ''node_count'')) (\<lambda>nc.
      res_bind (exact_integer (l @ ''.root_declaration_count'') (item kvs ''root_declaration_count'')) (\<lambda>rc.
      res_bind (exact_string (l @ ''.schema_id'') (item kvs ''schema_id'')) (\<lambda>sc.
      res_bind (exact_string (l @ ''.terminal_node_id'') (item kvs ''terminal_node_id'')) (\<lambda>tn.
      res_bind (exact_array (item kvs ''topological_order'') (l @ ''.topological_order'')) (\<lambda>tvs.
      res_bind (res_map (exact_string (l @ ''.topological_order'')) tvs) (\<lambda>order.
      Inr (JObj [(''edge_count'', JInt ec), (''graph_digest'', JStr gd), (''node_count'', JInt nc),
        (''root_declaration_count'', JInt rc), (''schema_id'', JStr sc), (''terminal_node_id'', JStr tn),
        (''topological_order'', JList (map JStr order))])))))))))))"

record decoded_audit =
  da_graph :: receipt_graph
  da_receipt :: composition_receipt
  da_bytes :: bytes

text \<open>The graph of an artifact, before it is verified.\<close>

definition parse_graph ::
  "(bytes \<Rightarrow> bytes) \<Rightarrow> (declared_evidence \<Rightarrow> verified_evidence aresult) \<Rightarrow> json \<Rightarrow> receipt_graph auresult" where
  "parse_graph sha validate v =
     res_bind (exact_object v ''graph'' [''edges'', ''nodes'', ''schema_id'', ''terminal_node_id'']) (\<lambda>kvs.
     res_bind (exact_string ''graph.schema_id'' (item kvs ''schema_id'')) (\<lambda>schema.
     res_bind (exact_array (item kvs ''nodes'') ''graph.nodes'') (\<lambda>nvs.
     res_bind (res_map (parse_node sha validate) nvs) (\<lambda>nodes.
     res_bind (exact_array (item kvs ''edges'') ''graph.edges'') (\<lambda>evs.
     res_bind (res_map parse_edge evs) (\<lambda>edges.
     res_bind (exact_string ''graph.terminal_node_id'' (item kvs ''terminal_node_id'')) (\<lambda>terminal.
     Inr (make_receipt_graph schema nodes edges terminal))))))))"

definition decode_manifest ::
  "(bytes \<Rightarrow> bytes) \<Rightarrow> (declared_evidence \<Rightarrow> verified_evidence aresult) \<Rightarrow> bytes \<Rightarrow> json \<Rightarrow> decoded_audit auresult" where
  "decode_manifest sha validate payload decoded =
     res_bind (exact_object decoded ''audit'' [''graph'', ''schema_id'', ''verified_composition_receipt'']) (\<lambda>kvs.
     res_bind (exact_string ''audit.schema_id'' (item kvs ''schema_id'')) (\<lambda>schema.
     if schema \<noteq> AUDIT_SCHEMA then audit_err ''invalid-audit-schema'' (''expected '' @ AUDIT_SCHEMA)
     else
     res_bind (parse_graph sha validate (item kvs ''graph'')) (\<lambda>g.
     res_bind (case verify_graph sha g of
                 Inr r \<Rightarrow> Inr r
               | Inl (ReceiptGraphError code detail) \<Rightarrow> audit_err ''invalid-audit-graph'' (code @ '': '' @ detail)
               | Inl OverflowError \<Rightarrow> Inl (AuditGraphError OverflowError)) (\<lambda>r.
     res_bind (parse_declared_receipt (item kvs ''verified_composition_receipt'')) (\<lambda>declared.
     if declared \<noteq> verified_receipt_object r
     then audit_err ''verified-receipt-mismatch'' ''declared verified composition receipt does not match the graph''
     else
     res_bind (encode_audit sha g) (\<lambda>canonical.
     if payload \<noteq> canonical
     then audit_err ''noncanonical-audit-bytes'' ''accepted audit bytes must equal the unique v1 encoding''
     else Inr \<lparr>da_graph = g, da_receipt = r, da_bytes = canonical\<rparr>))))))"

definition decode_audit ::
  "(bytes \<Rightarrow> bytes) \<Rightarrow> (string \<Rightarrow> string) \<Rightarrow> (bytes \<Rightarrow> string) \<Rightarrow> (declared_evidence \<Rightarrow> verified_evidence aresult)
   \<Rightarrow> bytes \<Rightarrow> decoded_audit auresult" where
  "decode_audit sha fl msg validate payload =
     (if \<not> utf8_valid payload then audit_err ''invalid-audit-json'' (msg payload)
      else case json_loads fl audit_hook payload of
        Inl (HookError e) \<Rightarrow> Inl e
      | Inl JsonDecode \<Rightarrow> audit_err ''invalid-audit-json'' (msg payload)
      | Inr decoded \<Rightarrow> decode_manifest sha validate payload decoded)"

end
