(* ===== verification/Receipt_Audit_Props.thy ===== *)
theory Receipt_Audit_Props
  imports Receipt_Audit
begin

text \<open>
  Properties of graph audits: what a decoded audit establishes, and that the audit of a graph
  decodes to that graph.
\<close>

section \<open>Constructed graphs\<close>

definition payload_ok :: "(bytes \<Rightarrow> bytes) \<Rightarrow> canonical_payload \<Rightarrow> bool" where
  "payload_ok sha p \<longleftrightarrow> is_sha256 (cp_digest p) \<and> cp_digest p = sha256_digest sha (cp_bytes p)"

definition node_built :: "(bytes \<Rightarrow> bytes) \<Rightarrow> receipt_node \<Rightarrow> bool" where
  "node_built sha n \<longleftrightarrow> made_node sha n \<and> payload_ok sha (nd_source_identity n) \<and> payload_ok sha (nd_provided_interface n) \<and>
     (\<forall>a \<in> set (nd_assumed_interfaces n). as_id a \<noteq> [] \<and> payload_ok sha (as_interface a))"

definition graph_built :: "(bytes \<Rightarrow> bytes) \<Rightarrow> receipt_graph \<Rightarrow> bool" where
  "graph_built sha g \<longleftrightarrow> made_graph sha g \<and> (\<forall>n \<in> set (gr_nodes g). node_built sha n) \<and>
     (\<forall>e \<in> set (gr_edges g). make_receipt_edge (ed_supplier e) (ed_consumer e) (ed_assumption e) = Inr e)"

definition declared_of :: "accepted_evidence \<Rightarrow> declared_evidence" where
  "declared_of a = \<lparr>de_engine = ae_engine_identity a, de_bytes = ae_receipt_bytes a, de_digest = ae_receipt_digest a\<rparr>"

text \<open>The evidence of an authority that a node must carry.\<close>

definition vouches :: "verified_evidence \<Rightarrow> receipt_node \<Rightarrow> bool" where
  "vouches v n \<longleftrightarrow> ve_acceptance v = nd_acceptance n \<and> ve_source v = nd_source_identity n \<and>
     ve_bundle v = nd_bundle_digest n \<and> ve_interface v = nd_provided_interface n \<and> ve_roots v = nd_root_declarations n"

lemma require_canonical_payload_Inr:
  "require_canonical_payload sha l b d = Inr u \<longleftrightarrow> is_sha256 d \<and> d = sha256_digest sha b"
  by (auto simp: require_canonical_payload_def require_digest_def res_bind_Inr_iff Let_def)

lemma canonical_payload_Inr:
  "canonical_interface sha b d = Inr p \<longleftrightarrow> p = \<lparr>cp_bytes = b, cp_digest = d\<rparr> \<and> payload_ok sha p"
  "canonical_source_identity sha b d = Inr p \<longleftrightarrow> p = \<lparr>cp_bytes = b, cp_digest = d\<rparr> \<and> payload_ok sha p"
  by (auto simp: canonical_interface_def canonical_source_identity_def require_canonical_payload_Inr res_bind_Inr_iff payload_ok_def)

lemma declare_evidence_Inr:
  "declare_evidence sha e b d = Inr x \<longleftrightarrow>
     e \<noteq> [] \<and> d = sha256_digest sha b \<and> x = \<lparr>de_engine = e, de_bytes = b, de_digest = d\<rparr>"
  by (auto simp: declare_evidence_def Let_def)

lemma check_evidence_Inr:
  assumes "check_evidence sha a = Inr a'"
  shows "a' = a" and "ae_engine_identity a \<noteq> []" and "ae_receipt_digest a = sha256_digest sha (ae_receipt_bytes a)"
  using assms by (auto simp: check_evidence_def require_canonical_payload_Inr require_nonempty_def res_bind_Inr_iff split: if_splits)

lemma make_receipt_node_again:
  assumes "make_receipt_node n0 = Inr n"
  shows "make_receipt_node n = Inr n" and "n = n0\<lparr>nd_root_declarations := sort (nd_root_declarations n0),
    nd_assumed_interfaces := sort_key as_id (nd_assumed_interfaces n0)\<rparr>"
proof -
  let ?n = "n0\<lparr>nd_root_declarations := sort (nd_root_declarations n0),
    nd_assumed_interfaces := sort_key as_id (nd_assumed_interfaces n0)\<rparr>"
  show n: "n = ?n"
    using assms unfolding make_receipt_node_def Let_def by (auto simp: res_bind_Inr_iff simp del: distinct_map split: if_splits)
  have s: "sort_key as_id (sort_key as_id xs) = sort_key as_id xs" for xs :: "interface_assumption list"
    by (simp add: sort_key_id_if_sorted)
  have s2: "sort (sort xs) = sort xs" for xs :: "string list"
    by (simp add: sort_key_id_if_sorted)
  have "make_receipt_node ?n = make_receipt_node n0"
    unfolding make_receipt_node_def Let_def by (simp add: s s2)
  with n assms show "make_receipt_node n = Inr n" by simp
qed

section \<open>What the readers establish\<close>

lemma exact_object_Inr: "exact_object v l ks = Inr kvs \<longleftrightarrow> v = JObj kvs \<and> set (dict_keys kvs) = set ks"
  by (cases v) (auto simp: exact_object_def)

lemma exact_string_Inr: "exact_string l v = Inr s \<longleftrightarrow> v = JStr s"
  by (cases v) (auto simp: exact_string_def)

lemma parse_interface_Inr: "parse_interface sha l v = Inr p \<Longrightarrow> payload_ok sha p"
  by (auto simp: parse_interface_def res_bind_Inr_iff canonical_payload_Inr)

lemma parse_source_identity_Inr: "parse_source_identity sha v = Inr p \<Longrightarrow> payload_ok sha p"
  by (auto simp: parse_source_identity_def res_bind_Inr_iff canonical_payload_Inr)

lemma parse_assumption_Inr: "parse_assumption sha v = Inr a \<Longrightarrow> as_id a \<noteq> [] \<and> payload_ok sha (as_interface a)"
  by (auto simp: parse_assumption_def res_bind_Inr_iff named_interface_assumption_def require_nonempty_def
      split: if_splits dest: parse_interface_Inr)

lemma parse_edge_Inr: "parse_edge v = Inr e \<Longrightarrow> make_receipt_edge (ed_supplier e) (ed_consumer e) (ed_assumption e) = Inr e"
  by (auto simp: parse_edge_def res_bind_Inr_iff make_receipt_edge_def split: if_splits)

context receipt_authority
begin

lemma parse_acceptance_sound:
  assumes "parse_acceptance sha validate v = Inr e"
  shows "validate (declared_of (ve_acceptance e)) = Inr e" and "evidence_ok sha e"
proof -
  from assms obtain en b d where c: "declare_evidence sha en b d = Inr \<lparr>de_engine = en, de_bytes = b, de_digest = d\<rparr>"
    "validate \<lparr>de_engine = en, de_bytes = b, de_digest = d\<rparr> = Inr e"
    by (auto simp: parse_acceptance_def res_bind_Inr_iff declare_evidence_Inr)
  show ok: "evidence_ok sha e" by (rule evidence [OF c(2)])
  then have "check_evidence sha (ve_acceptance e) = Inr (ve_acceptance e)" by (simp add: evidence_ok_def)
  with claimed [OF c(2)] c show "validate (declared_of (ve_acceptance e)) = Inr e"
    using check_evidence_Inr(3) by (simp add: declared_of_def declare_evidence_Inr)
qed

lemma parse_node_sound:
  assumes "parse_node sha validate v = Inr n"
  shows "node_built sha n" and "\<exists>e. validate (declared_of (nd_acceptance n)) = Inr e \<and> vouches e n"
proof -
  from assms obtain avs ams e roots source bdl provided nid kvs where
      a: "res_map (parse_assumption sha) avs = Inr ams" and e: "parse_acceptance sha validate (item kvs ''acceptance'') = Inr e"
    and s: "parse_source_identity sha (item kvs ''source_identity'') = Inr source"
    and p: "parse_interface sha ''node.provided_interface'' (item kvs ''provided_interface'') = Inr provided"
    and m: "ve_roots e = sort roots" "ve_source e = source" "ve_bundle e = bdl" "ve_interface e = provided"
    and n: "make_receipt_node \<lparr>nd_node_id = nid, nd_source_identity = source, nd_bundle_digest = bdl,
        nd_root_declarations = roots, nd_provided_interface = provided, nd_assumed_interfaces = ams,
        nd_acceptance = ve_acceptance e\<rparr> = Inr n"
    unfolding parse_node_def by (auto simp: res_bind_Inr_iff split: if_splits)
  note again = make_receipt_node_again [OF n]
  have "check_evidence sha (nd_acceptance n) = Inr (nd_acceptance n)"
    using parse_acceptance_sound(2) [OF e] again(2) by (simp add: evidence_ok_def)
  with again(1) have "made_node sha n" by (simp add: made_node_def)
  moreover have "payload_ok sha source" by (rule parse_source_identity_Inr [OF s])
  moreover have "payload_ok sha provided" by (rule parse_interface_Inr [OF p])
  moreover have "\<forall>a \<in> set ams. as_id a \<noteq> [] \<and> payload_ok sha (as_interface a)"
    using res_map_Inr_in [OF a] parse_assumption_Inr by blast
  ultimately show "node_built sha n" using again(2) by (simp add: node_built_def)
  show "\<exists>e. validate (declared_of (nd_acceptance n)) = Inr e \<and> vouches e n"
    using parse_acceptance_sound(1) [OF e] again(2) m by (intro exI [of _ e]) (simp add: vouches_def)
qed

lemma parse_graph_sound:
  assumes "parse_graph sha validate v = Inr g"
  shows "graph_built sha g" and "\<forall>n \<in> set (gr_nodes g). \<exists>e. validate (declared_of (nd_acceptance n)) = Inr e \<and> vouches e n"
proof -
  from assms obtain nvs ns evs es schema t where n: "res_map (parse_node sha validate) nvs = Inr ns"
    and e: "res_map parse_edge evs = Inr es" and g: "g = make_receipt_graph schema ns es t"
    unfolding parse_graph_def res_bind_Inr_iff by auto
  have ns: "node_built sha n \<and> (\<exists>e. validate (declared_of (nd_acceptance n)) = Inr e \<and> vouches e n)" if "n \<in> set ns" for n
    using res_map_Inr_in [OF n that] parse_node_sound by blast
  have es: "make_receipt_edge (ed_supplier x) (ed_consumer x) (ed_assumption x) = Inr x" if "x \<in> set es" for x
    using res_map_Inr_in [OF e that] parse_edge_Inr by blast
  have mem: "set (gr_nodes g) = set ns" "set (gr_edges g) = set es" by (simp_all add: g make_receipt_graph_def)
  have "g = make_receipt_graph (gr_schema_id g) (gr_nodes g) (gr_edges g) (gr_terminal g)"
    by (simp add: g make_receipt_graph_def sort_key_id_if_sorted)
  then have "made_graph sha g" using ns unfolding made_graph_def mem node_built_def by blast
  with ns es show "graph_built sha g" unfolding graph_built_def mem by blast
  show "\<forall>n \<in> set (gr_nodes g). \<exists>e. validate (declared_of (nd_acceptance n)) = Inr e \<and> vouches e n"
    using ns unfolding mem by blast
qed

text \<open>What a decoded audit is worth.\<close>

lemma decode_audit_sound:
  assumes "decode_audit sha fl msg validate payload = Inr d"
  shows "graph_built sha (da_graph d) \<and> verify_graph sha (da_graph d) = Inr (da_receipt d) \<and>
    encode_audit sha (da_graph d) = Inr payload \<and> da_bytes d = payload \<and>
    (\<forall>n \<in> set (gr_nodes (da_graph d)). \<exists>e. validate (declared_of (nd_acceptance n)) = Inr e \<and> vouches e n)"
proof -
  from assms obtain j where "decode_manifest sha validate payload j = Inr d"
    by (auto simp: decode_audit_def split: if_splits sum.splits json_error.splits)
  then obtain kvs g r where "parse_graph sha validate (item kvs ''graph'') = Inr g" and "verify_graph sha g = Inr r"
    and "encode_audit sha g = Inr payload" and "d = \<lparr>da_graph = g, da_receipt = r, da_bytes = payload\<rparr>"
    unfolding decode_manifest_def by (auto simp: res_bind_Inr_iff split: if_splits sum.splits graph_error.splits)
  with parse_graph_sound [of "item kvs ''graph''" g] show ?thesis by simp
qed

end

section \<open>The audit of a graph decodes to it\<close>

lemma sorted_keys:
  "sorted [''canonical_bytes_hex'', ''digest'']"
  "sorted [''canonical_receipt_bytes_hex'', ''engine_identity'', ''receipt_digest'']"
  "sorted [''assumption_id'', ''interface'']"
  "sorted [''acceptance'', ''assumed_interfaces'', ''independent_bundle_digest'', ''node_id'', ''provided_interface'',
     ''root_declarations'', ''source_identity'']"
  "sorted [''consumer_assumption_id'', ''consumer_node_id'', ''supplier_node_id'']"
  "sorted [''edge_count'', ''graph_digest'', ''node_count'', ''root_declaration_count'', ''schema_id'',
     ''terminal_node_id'', ''topological_order'']"
  "sorted [''edges'', ''nodes'', ''schema_id'', ''terminal_node_id'']"
  "sorted [''graph'', ''schema_id'', ''verified_composition_receipt'']"
  by code_simp+

lemma sort_objects:
  "sort_keys (interface_object p) = interface_object p"
  "sort_keys (source_identity_object p) = source_identity_object p"
  "sort_keys (acceptance_object a) = acceptance_object a"
  "sort_keys (verified_receipt_object r) = verified_receipt_object r"
  "sort_keys (edge_object e) = edge_object e"
proof -
  show i: "sort_keys (interface_object p) = interface_object p"
    unfolding interface_object_def by (subst sort_keys_sorted) (simp_all only: sorted_keys list.map fst_conv prod.case sort_keys.simps)
  show "sort_keys (source_identity_object p) = source_identity_object p"
    unfolding source_identity_object_def by (subst sort_keys_sorted) (simp_all only: sorted_keys list.map fst_conv prod.case sort_keys.simps)
  show "sort_keys (acceptance_object a) = acceptance_object a"
    unfolding acceptance_object_def by (subst sort_keys_sorted) (simp_all only: sorted_keys list.map fst_conv prod.case sort_keys.simps)
  show "sort_keys (verified_receipt_object r) = verified_receipt_object r"
    unfolding verified_receipt_object_def
    by (subst sort_keys_sorted) (simp_all only: sorted_keys list.map fst_conv prod.case sort_keys.simps list.map_comp comp_def)
  show "sort_keys (edge_object e) = edge_object e"
    unfolding edge_object_def by (subst sort_keys_sorted) (simp_all only: sorted_keys list.map fst_conv prod.case sort_keys.simps)
qed

lemma sort_assumption: "sort_keys (assumption_object a) = assumption_object a"
  unfolding assumption_object_def
  by (subst sort_keys_sorted) (simp_all only: sorted_keys list.map fst_conv prod.case sort_keys.simps sort_objects)

lemma sort_JStrs: "map (\<lambda>x. sort_keys (JStr (f x))) xs = map (\<lambda>x. JStr (f x)) xs"
  by simp

lemma sort_node: "sort_keys (node_object n) = node_object n"
  unfolding node_object_def
  by (subst sort_keys_sorted)
    (simp_all only: sorted_keys list.map fst_conv prod.case sort_keys.simps sort_objects list.map_comp comp_def sort_assumption)

lemma sort_graph: "sort_keys (graph_object g) = graph_object g"
  unfolding graph_object_def
  by (subst sort_keys_sorted)
    (simp_all only: sorted_keys list.map fst_conv prod.case sort_keys.simps sort_objects list.map_comp comp_def sort_node)

lemma sort_audit: "sort_keys (audit_object g r) = audit_object g r"
  unfolding audit_object_def
  by (subst sort_keys_sorted)
    (simp_all only: sorted_keys list.map fst_conv prod.case sort_keys.simps sort_objects sort_graph)

lemma audit_json_ok: "json_ok fl (audit_object g r)"
proof -
  have i: "json_ok fl (interface_object p)" "json_ok fl (source_identity_object p)" "json_ok fl (acceptance_object a)" for p a
    by (simp_all add: interface_object_def source_identity_object_def acceptance_object_def)
  then have "json_ok fl (assumption_object a)" for a by (simp add: assumption_object_def)
  with i have "json_ok fl (node_object n)" for n by (simp add: node_object_def list_all_iff)
  moreover have "json_ok fl (edge_object e)" for e by (simp add: edge_object_def)
  ultimately have "json_ok fl (graph_object g)" by (simp add: graph_object_def list_all_iff)
  moreover have "json_ok fl (verified_receipt_object r)" by (simp add: verified_receipt_object_def list_all_iff)
  ultimately show ?thesis by (simp add: audit_object_def)
qed

lemma hex_digit_lower:
  "n < 16 \<Longrightarrow> CHR ''0'' \<le> hex_digit n \<and> hex_digit n \<le> CHR ''9'' \<or> CHR ''a'' \<le> hex_digit n \<and> hex_digit n \<le> CHR ''f''"
  by (simp add: hex_digit_def less_eq_char_def)

lemma lower_hex_hex: "lower_hex (hex b)"
  by (induction b) (simp_all add: lower_hex_def hex_Cons hex_byte_def hex_digit_lower)

lemma decode_hex_hex: "decode_hex l (JStr (hex b)) = Inr b"
  by (simp add: decode_hex_def exact_string_def lower_hex_hex)

lemmas object_reads = exact_object_def exact_array_def exact_string_def exact_integer_def item_def dict_get_or_def

lemma read_interface:
  assumes "payload_ok sha p"
  shows "parse_interface sha l (interface_object p) = Inr p" and "parse_source_identity sha (source_identity_object p) = Inr p"
proof -
  have c: "canonical_interface sha (cp_bytes p) (cp_digest p) = Inr p"
    "canonical_source_identity sha (cp_bytes p) (cp_digest p) = Inr p"
    using assms by (simp_all add: canonical_payload_Inr)
  show "parse_interface sha l (interface_object p) = Inr p"
    by (simp add: parse_interface_def interface_object_def exact_object_def item_def dict_get_or_def exact_string_def decode_hex_hex c)
  show "parse_source_identity sha (source_identity_object p) = Inr p"
    by (simp add: parse_source_identity_def source_identity_object_def exact_object_def item_def dict_get_or_def exact_string_def decode_hex_hex c)
qed

lemma read_assumption:
  "as_id a \<noteq> [] \<Longrightarrow> payload_ok sha (as_interface a) \<Longrightarrow> parse_assumption sha (assumption_object a) = Inr a"
  by (simp add: parse_assumption_def assumption_object_def object_reads read_interface named_interface_assumption_def require_nonempty_def)

lemma read_texts: "res_map (exact_string l) (map JStr ss) = Inr ss"
  by (induction ss) (simp_all add: exact_string_def)

lemma read_acceptance:
  assumes "check_evidence sha a = Inr a" and "validate (declared_of a) = Inr e"
  shows "parse_acceptance sha validate (acceptance_object a) = Inr e"
proof -
  have "declare_evidence sha (ae_engine_identity a) (ae_receipt_bytes a) (ae_receipt_digest a) = Inr (declared_of a)"
    using check_evidence_Inr(2,3) [OF assms(1)] by (simp add: declare_evidence_Inr declared_of_def)
  with assms(2) show ?thesis
    by (simp add: parse_acceptance_def acceptance_object_def object_reads decode_hex_hex)
qed

lemma read_node:
  assumes "node_built sha n" and "validate (declared_of (nd_acceptance n)) = Inr e" and "vouches e n"
  shows "parse_node sha validate (node_object n) = Inr n"
proof -
  have m: "made_node sha n" using assms(1) by (simp add: node_built_def)
  note s = made_node_sorted [OF m]
  have a: "res_map (parse_assumption sha) (map assumption_object xs) = Inr xs"
    if "\<forall>a \<in> set xs. as_id a \<noteq> [] \<and> payload_ok sha (as_interface a)" for xs
    using that by (induction xs) (simp_all add: read_assumption)
  have as: "res_map (parse_assumption sha) (map assumption_object (nd_assumed_interfaces n)) = Inr (nd_assumed_interfaces n)"
    using assms(1) by (intro a) (simp add: node_built_def)
  have acc: "parse_acceptance sha validate (acceptance_object (nd_acceptance n)) = Inr e"
    using read_acceptance [of sha "nd_acceptance n" validate e] assms(2) m by (simp add: made_node_def)
  have "n = \<lparr>nd_node_id = nd_node_id n, nd_source_identity = nd_source_identity n, nd_bundle_digest = nd_bundle_digest n,
      nd_root_declarations = nd_root_declarations n, nd_provided_interface = nd_provided_interface n,
      nd_assumed_interfaces = nd_assumed_interfaces n, nd_acceptance = nd_acceptance n\<rparr>" by (cases n) simp
  then have mk: "make_receipt_node \<lparr>nd_node_id = nd_node_id n, nd_source_identity = nd_source_identity n,
      nd_bundle_digest = nd_bundle_digest n, nd_root_declarations = nd_root_declarations n,
      nd_provided_interface = nd_provided_interface n, nd_assumed_interfaces = nd_assumed_interfaces n,
      nd_acceptance = nd_acceptance n\<rparr> = Inr n" using m unfolding made_node_def by metis
  have v: "ve_roots e = nd_root_declarations n" "ve_source e = nd_source_identity n" "ve_bundle e = nd_bundle_digest n"
    "ve_interface e = nd_provided_interface n" "ve_acceptance e = nd_acceptance n" using assms(3) by (simp_all add: vouches_def)
  have p: "payload_ok sha (nd_source_identity n)" "payload_ok sha (nd_provided_interface n)"
    using assms(1) by (simp_all add: node_built_def)
  show ?thesis
    unfolding parse_node_def node_object_def s
    by (simp add: object_reads as read_texts acc read_interface [OF p(1)] read_interface [OF p(2)] v s(1) mk)
qed

lemma read_edge:
  assumes "make_receipt_edge (ed_supplier e) (ed_consumer e) (ed_assumption e) = Inr e"
  shows "parse_edge (edge_object e) = Inr e"
  using assms by (simp add: parse_edge_def edge_object_def object_reads)

lemma read_graph:
  assumes "graph_built sha g"
    and "\<forall>n \<in> set (gr_nodes g). \<exists>e. validate (declared_of (nd_acceptance n)) = Inr e \<and> vouches e n"
  shows "parse_graph sha validate (graph_object g) = Inr g"
proof -
  have g: "g = make_receipt_graph (gr_schema_id g) (gr_nodes g) (gr_edges g) (gr_terminal g)"
    using assms(1) by (simp add: graph_built_def made_graph_def)
  have sn: "sort_key nd_node_id (gr_nodes g) = gr_nodes g"
    using arg_cong [OF g, of gr_nodes] by (simp add: make_receipt_graph_def)
  have se: "sort_key edge_key (gr_edges g) = gr_edges g"
    using arg_cong [OF g, of gr_edges] by (simp add: make_receipt_graph_def)
  have "res_map (parse_node sha validate) (map node_object ns) = Inr ns"
    if "\<forall>n \<in> set ns. node_built sha n \<and> (\<exists>e. validate (declared_of (nd_acceptance n)) = Inr e \<and> vouches e n)" for ns
    using that by (induction ns) (auto simp: read_node)
  then have n: "res_map (parse_node sha validate) (map node_object (gr_nodes g)) = Inr (gr_nodes g)"
    using assms by (simp add: graph_built_def)
  have "res_map parse_edge (map edge_object es) = Inr es"
    if "\<forall>e \<in> set es. make_receipt_edge (ed_supplier e) (ed_consumer e) (ed_assumption e) = Inr e" for es
    using that by (induction es) (simp_all add: read_edge)
  then have e: "res_map parse_edge (map edge_object (gr_edges g)) = Inr (gr_edges g)"
    using assms(1) by (simp add: graph_built_def)
  show ?thesis
    unfolding parse_graph_def graph_object_def sn se
    by (simp add: object_reads n e g [symmetric])
qed

lemma read_receipt: "parse_declared_receipt (verified_receipt_object r) = Inr (verified_receipt_object r)"
  by (simp add: parse_declared_receipt_def verified_receipt_object_def object_reads read_texts)

lemma audit_hook_ok: "hook_ok audit_hook"
  unfolding audit_hook_def by (rule unique_pairs_ok)

lemma audit_reads_back:
  assumes "graph_built sha g"
    and "\<forall>n \<in> set (gr_nodes g). \<exists>e. validate (declared_of (nd_acceptance n)) = Inr e \<and> vouches e n"
    and "encode_audit sha g = Inr b"
  shows "\<exists>r. verify_graph sha g = Inr r \<and>
    decode_audit sha fl msg validate b = Inr \<lparr>da_graph = g, da_receipt = r, da_bytes = b\<rparr>"
proof -
  from assms(3) obtain r where r: "verify_graph sha g = Inr r" and b: "b = canonical_json (audit_object g r)" "utf8_valid b"
    by (auto simp: encode_audit_def res_bind_Inr_iff Let_def split: if_splits)
  have l: "json_loads fl audit_hook b = Inr (audit_object g r)"
    unfolding b(1) loads_canonical [OF audit_hook_ok audit_json_ok] sort_audit ..
  have "decode_manifest sha validate b (audit_object g r) = Inr \<lparr>da_graph = g, da_receipt = r, da_bytes = b\<rparr>"
    unfolding decode_manifest_def audit_object_def
    by (simp add: object_reads read_graph [OF assms(1,2)] r read_receipt assms(3))
  with l b(2) r show ?thesis by (simp add: decode_audit_def)
qed

text \<open>
  C16. The audit of a constructed graph decodes to the graph, its verified receipt and the same bytes,
  when the authority vouches for every node: nothing of the graph is lost in the artifact.
\<close>

theorem audit_roundtrip:
  assumes "graph_built sha g"
    and "\<forall>n \<in> set (gr_nodes g). \<exists>e. validate (declared_of (nd_acceptance n)) = Inr e \<and> vouches e n"
    and "encode_audit sha g = Inr b"
  shows "\<exists>r. verify_graph sha g = Inr r \<and>
    decode_audit sha fl msg validate b = Inr \<lparr>da_graph = g, da_receipt = r, da_bytes = b\<rparr>"
  using audit_reads_back [of sha g validate b] assms by blast

end
