(* ===== verification/Axle_Authority_Props.thy ===== *)
theory Axle_Authority_Props
  imports Axle_Authority Receipt_Audit_Props
begin

text \<open>
  Properties of the AXLE authority: it meets the contract of an authority, what its acceptance of a
  receipt means, and what follows for an audit that it vouches for.
\<close>

section \<open>The contract\<close>

lemma verify_evidence_Inr:
  assumes "verify_evidence v = Inr v'"
  shows "verify_evidence v' = Inr v'" and "v' = v\<lparr>ve_roots := sort (ve_roots v)\<rparr>"
proof -
  show v: "v' = v\<lparr>ve_roots := sort (ve_roots v)\<rparr>" using assms by (auto simp: verify_evidence_def split: if_splits)
  have s: "sort (sort xs) = sort xs" for xs :: "string list" by (simp add: sort_key_id_if_sorted)
  have "verify_evidence (v\<lparr>ve_roots := sort (ve_roots v)\<rparr>) = verify_evidence v"
    by (simp add: verify_evidence_def s)
  with assms v show "verify_evidence v' = Inr v'" by simp
qed

text \<open>What the authority found when it accepted a receipt.\<close>

definition reverified ::
  "(bytes \<Rightarrow> bytes) \<Rightarrow> (string \<Rightarrow> string) \<Rightarrow> (bytes \<Rightarrow> string) \<Rightarrow> (axle_request \<Rightarrow> bytes aresult)
   \<Rightarrow> bytes \<Rightarrow> parsed_artifact \<Rightarrow> bool" where
  "reverified sha fl msg reverify receipt fresh \<longleftrightarrow>
     (\<exists>claimed fb. parse_axle_artifact sha fl msg True receipt = Inr claimed \<and> reverify (pa_request claimed) = Inr fb \<and>
        parse_axle_artifact sha fl msg False fb = Inr fresh \<and>
        pa_request claimed = pa_request fresh \<and> pa_exact_digest claimed = pa_exact_digest fresh \<and>
        pa_independent_digest claimed = pa_independent_digest fresh \<and> pa_source_digest claimed = pa_source_digest fresh \<and>
        pa_source claimed = pa_source fresh \<and> pa_interface claimed = pa_interface fresh)"

lemma mismatched_Nil: "mismatched_components c f = [] \<longleftrightarrow>
    pa_request c = pa_request f \<and> pa_exact_digest c = pa_exact_digest f \<and>
    pa_independent_digest c = pa_independent_digest f \<and> pa_source_digest c = pa_source_digest f \<and>
    pa_source c = pa_source f \<and> pa_interface c = pa_interface f"
  by (auto simp: mismatched_components_def)

lemma axle_validate_Inr:
  assumes "axle_validate sha fl msg reverify d = Inr v"
  obtains fresh where "de_engine d = AXLE_ENGINE" and "reverified sha fl msg reverify (de_bytes d) fresh"
    and "check_evidence sha (ve_acceptance v) = Inr (ve_acceptance v)"
    and "ae_engine_identity (ve_acceptance v) = AXLE_ENGINE" and "ae_receipt_bytes (ve_acceptance v) = de_bytes d"
    and "verify_evidence v = Inr v" and "ve_source v = pa_source fresh" and "ve_interface v = pa_interface fresh"
    and "ve_bundle v = pa_independent_digest fresh" and "ve_roots v = sort (ar_root_declarations (pa_request fresh))"
proof -
  from assms have en: "de_engine d = AXLE_ENGINE" by (auto simp: axle_validate_def split: if_splits)
  from assms en obtain claimed fb fresh acc where p: "parse_axle_artifact sha fl msg True (de_bytes d) = Inr claimed"
    "reverify (pa_request claimed) = Inr fb" "parse_axle_artifact sha fl msg False fb = Inr fresh"
    "mismatched_components claimed fresh = []"
    and a: "check_evidence sha \<lparr>ae_engine_identity = AXLE_ENGINE, ae_receipt_bytes = de_bytes d, ae_receipt_digest = de_digest d,
         ae_bound_source = cp_digest (pa_source fresh), ae_bound_bundle = pa_independent_digest fresh,
         ae_bound_interface = cp_digest (pa_interface fresh), ae_decision = ''accepted''\<rparr> = Inr acc"
    and v: "verify_evidence \<lparr>ve_acceptance = acc, ve_source = pa_source fresh, ve_bundle = pa_independent_digest fresh,
        ve_interface = pa_interface fresh, ve_roots = ar_root_declarations (pa_request fresh)\<rparr> = Inr v"
    unfolding axle_validate_def by (auto simp: res_bind_Inr_iff split: if_splits)
  have r: "reverified sha fl msg reverify (de_bytes d) fresh"
    using p unfolding reverified_def mismatched_Nil by blast
  note acc = check_evidence_Inr(1) [OF a]
  note v2 = verify_evidence_Inr [OF v]
  show ?thesis using that [OF en r] a v2 unfolding acc by simp
qed

interpretation axle: receipt_authority sha "axle_validate sha fl msg reverify"
  for sha fl msg reverify
proof unfold_locales
  fix d v assume v: "axle_validate sha fl msg reverify d = Inr v"
  show "evidence_ok sha v" using axle_validate_Inr [OF v] by (metis evidence_ok_def)
  show "ae_engine_identity (ve_acceptance v) = de_engine d \<and> ae_receipt_bytes (ve_acceptance v) = de_bytes d"
    using axle_validate_Inr [OF v] by metis
qed

section \<open>What a parsed artifact satisfies\<close>

text \<open>The members of a nested object.\<close>

fun members :: "json \<Rightarrow> (string \<times> json) list" where
  "members (JObj kvs) = kvs"
| "members _ = []"

definition nested :: "(string \<times> json) list \<Rightarrow> string list \<Rightarrow> json" where
  "nested kvs path = foldl (\<lambda>v k. item (members v) k) (JObj kvs) path"

text \<open>The claims that an artifact must make about its verification, and the agreement of its parts.\<close>

definition artifact_accepted :: "(string \<times> json) list \<Rightarrow> bool" where
  "artifact_accepted m \<longleftrightarrow>
     nested m [''exact_bundle'', ''verification'', ''status''] = JStr ''accepted'' \<and>
     nested m [''exact_bundle'', ''verification'', ''okay''] = JBool True \<and>
     nested m [''exact_bundle'', ''verification'', ''failed_declarations''] = JList []"

definition artifact_binds :: "parsed_artifact \<Rightarrow> bool" where
  "artifact_binds p \<longleftrightarrow> (let m = pa_manifest p; rm = ar_root_module (pa_request p) in
     nested m [''closure'', ''root_module''] = JStr rm \<and> nested m [''preflight'', ''root_module''] = JStr rm \<and>
     nested m [''independent_declaration_bundle'', ''root_module''] = JStr rm \<and>
     nested m [''exact_bundle_digest''] = JStr (pa_exact_digest p) \<and>
     nested m [''exact_bundle'', ''bundle_digest''] = JStr (pa_exact_digest p) \<and>
     nested m [''independent_declaration_bundle_digest''] = JStr (pa_independent_digest p) \<and>
     nested m [''exact_bundle'', ''canonical_source_digest''] = JStr (pa_source_digest p) \<and>
     nested m [''independent_declaration_bundle'', ''canonical_source_digest''] = JStr (pa_source_digest p))"

lemma axle_exact_object_Inr:
  "axle_exact_object v l ks = Inr kvs \<longleftrightarrow> v = JObj kvs \<and> set (dict_keys kvs) = set ks"
  by (cases v) (auto simp: axle_exact_object_def)

lemma axle_string_Inr: "axle_string l v = Inr s \<longleftrightarrow> v = JStr s \<and> s \<noteq> []"
  by (cases v) (auto simp: axle_string_def)

lemma axle_digest_Inr: "axle_digest l v = Inr s \<longleftrightarrow> v = JStr s \<and> s \<noteq> [] \<and> is_sha256 s"
  by (auto simp: axle_digest_def res_bind_Inr_iff axle_string_Inr)

lemma axle_canonical_json_Inr: "axle_canonical_json v = Inr b \<longleftrightarrow> b = canonical_json v \<and> utf8_valid b"
  by (auto simp: axle_canonical_json_def Let_def)

lemma axle_from_manifest_sound:
  assumes "axle_from_manifest sha required m = Inr p"
  shows "m = JObj (pa_manifest p)" and "pa_canonical_bytes p = canonical_json m" and "utf8_valid (canonical_json m)"
    and "required = None \<or> required = Some (pa_canonical_bytes p)"
    and "artifact_accepted (pa_manifest p)" and "artifact_binds p"
proof -
  from assms obtain ob b where o: "axle_shapes m = Inr ob" and a: "axle_accepted ob = Inr ()" and g: "axle_agreement ob = Inr b"
    and c: "pa_canonical_bytes p = canonical_json (JObj (ao_artifact ob))" "utf8_valid (canonical_json (JObj (ao_artifact ob)))"
    "required = None \<or> required = Some (pa_canonical_bytes p)"
    and f: "pa_manifest p = ao_artifact ob" "pa_exact_digest p = ab_exact_digest b" "pa_independent_digest p = ab_independent_digest b"
    "pa_source_digest p = ab_source_digest b" "ar_root_module (pa_request p) = ab_root_module b"
    unfolding axle_from_manifest_def by (auto simp: res_bind_Inr_iff axle_canonical_json_Inr split: if_splits)
  from o have s: "m = JObj (ao_artifact ob)" "item (ao_artifact ob) ''closure'' = JObj (ao_closure ob)"
    "item (ao_artifact ob) ''preflight'' = JObj (ao_preflight ob)" "item (ao_artifact ob) ''exact_bundle'' = JObj (ao_exact ob)"
    "item (ao_artifact ob) ''independent_declaration_bundle'' = JObj (ao_independent ob)"
    "item (ao_exact ob) ''verification'' = JObj (ao_verification ob)"
    by (auto simp: axle_shapes_def res_bind_Inr_iff axle_exact_object_Inr)
  show "m = JObj (pa_manifest p)" "pa_canonical_bytes p = canonical_json m" "utf8_valid (canonical_json m)"
    "required = None \<or> required = Some (pa_canonical_bytes p)"
    using s(1) f(1) c by simp_all
  show "artifact_accepted (pa_manifest p)"
    using a s f(1) by (auto simp: artifact_accepted_def nested_def axle_accepted_def res_bind_Inr_iff split: if_splits)
  from g have "item (ao_closure ob) ''root_module'' = JStr (ab_root_module b)"
    "item (ao_preflight ob) ''root_module'' = JStr (ab_root_module b)"
    "item (ao_independent ob) ''root_module'' = JStr (ab_root_module b)"
    "item (ao_exact ob) ''canonical_source_digest'' = JStr (ab_source_digest b)"
    "item (ao_independent ob) ''canonical_source_digest'' = JStr (ab_source_digest b)"
    "item (ao_artifact ob) ''exact_bundle_digest'' = JStr (ab_exact_digest b)"
    "item (ao_exact ob) ''bundle_digest'' = JStr (ab_exact_digest b)"
    "item (ao_artifact ob) ''independent_declaration_bundle_digest'' = JStr (ab_independent_digest b)"
    unfolding axle_agreement_def by (auto simp: res_bind_Inr_iff axle_digest_Inr axle_string_Inr split: if_splits)
  then show "artifact_binds p" using s f by (simp add: artifact_binds_def nested_def Let_def)
qed

lemma parse_axle_sound:
  assumes "parse_axle_artifact sha fl msg required payload = Inr p"
  shows "artifact_accepted (pa_manifest p)" and "artifact_binds p"
    and "pa_canonical_bytes p = canonical_json (JObj (pa_manifest p))"
    and "required \<Longrightarrow> payload = pa_canonical_bytes p"
proof -
  from assms obtain m where m: "axle_from_manifest sha (if required then Some payload else None) m = Inr p"
    by (auto simp: parse_axle_artifact_def split: if_splits sum.splits json_error.splits)
  note s = axle_from_manifest_sound [OF m]
  show "artifact_accepted (pa_manifest p)" "artifact_binds p" by (rule s(5), rule s(6))
  show "pa_canonical_bytes p = canonical_json (JObj (pa_manifest p))" using s(1,2) by simp
  show "required \<Longrightarrow> payload = pa_canonical_bytes p" using s(4) by simp
qed


text \<open>
  C13. An audit that decodes under the AXLE authority is sound end to end: its bytes are the one
  encoding of its graph, the graph is verified without circular reasoning, and every receipt in it
  was verified again with the identity that its node carries.
\<close>

theorem axle_audit_sound:
  assumes "decode_audit sha fl msg (axle_validate sha fl msg reverify) payload = Inr d"
  shows "encode_audit sha (da_graph d) = Inr payload \<and> verify_graph sha (da_graph d) = Inr (da_receipt d) \<and>
    (\<forall>n \<in> set (gr_nodes (da_graph d)). grounded (da_graph d) (nd_node_id n) \<and>
       (\<exists>fresh. reverified sha fl msg reverify (ae_receipt_bytes (nd_acceptance n)) fresh \<and>
          nd_source_identity n = pa_source fresh \<and> nd_provided_interface n = pa_interface fresh \<and>
          nd_bundle_digest n = pa_independent_digest fresh \<and>
          nd_root_declarations n = sort (ar_root_declarations (pa_request fresh))))"
proof -
  note s = axle.decode_audit_sound [OF assms]
  have "grounded (da_graph d) (nd_node_id n)" if "n \<in> set (gr_nodes (da_graph d))" for n
    by (rule verified_grounded [of sha _ "da_receipt d", OF _ _ that]) (use s in \<open>simp_all add: graph_built_def\<close>)
  moreover have "\<exists>fresh. reverified sha fl msg reverify (ae_receipt_bytes (nd_acceptance n)) fresh \<and>
          nd_source_identity n = pa_source fresh \<and> nd_provided_interface n = pa_interface fresh \<and>
          nd_bundle_digest n = pa_independent_digest fresh \<and>
          nd_root_declarations n = sort (ar_root_declarations (pa_request fresh))" if n: "n \<in> set (gr_nodes (da_graph d))" for n
  proof -
    from s n obtain e where "axle_validate sha fl msg reverify (declared_of (nd_acceptance n)) = Inr e" "vouches e n" by blast
    with axle_validate_Inr [OF this(1)] show ?thesis
      unfolding vouches_def declared_of_def declared_evidence.select_convs by metis
  qed
  ultimately show ?thesis using s by blast
qed

end
