(* ===== verification/Axle_Honest.thy ===== *)
theory Axle_Honest
  imports Axle_Authority_Props
begin

text \<open>
  The AXLE authority accepts what an honest engine declares: the canonical text of an artifact
  parses to the same identity as the artifact, so verifying again gives no mismatch.
\<close>

section \<open>Sorted objects read the same\<close>

definition sort_objects_of :: "axle_objects \<Rightarrow> axle_objects" where
  "sort_objects_of ob =
     \<lparr>ao_artifact = sort_members (ao_artifact ob), ao_closure = sort_members (ao_closure ob),
      ao_preflight = sort_members (ao_preflight ob), ao_exact = sort_members (ao_exact ob),
      ao_independent = sort_members (ao_independent ob), ao_verification = sort_members (ao_verification ob)\<rparr>"

definition distinct_objects :: "axle_objects \<Rightarrow> bool" where
  "distinct_objects ob \<longleftrightarrow> dict_wf (ao_artifact ob) \<and> dict_wf (ao_closure ob) \<and> dict_wf (ao_preflight ob) \<and>
     dict_wf (ao_exact ob) \<and> dict_wf (ao_independent ob) \<and> dict_wf (ao_verification ob)"

lemma sort_keys_scalars:
  "sort_keys v = JStr s \<longleftrightarrow> v = JStr s" "sort_keys v = JBool b \<longleftrightarrow> v = JBool b" "sort_keys v = JList [] \<longleftrightarrow> v = JList []"
  by (cases v; simp)+

lemma axle_string_sorted: "axle_string l (sort_keys v) = axle_string l v"
  by (cases v) (simp_all add: axle_string_def)

lemma axle_string_tuple_sorted: "axle_string_tuple l (sort_keys v) = axle_string_tuple l v"
proof -
  have "res_map (axle_string l) (map sort_keys vs) = res_map (axle_string l) vs" for vs
    by (induction vs) (simp_all add: axle_string_sorted)
  then show ?thesis by (cases v) (simp_all add: axle_string_tuple_def)
qed

lemma axle_digest_sorted: "axle_digest l (sort_keys v) = axle_digest l v"
  by (simp add: axle_digest_def axle_string_sorted)

lemma exact_sorted:
  "axle_exact_object v l ks = Inr kvs \<Longrightarrow> axle_exact_object (sort_keys v) l ks = Inr (sort_members kvs)"
  unfolding axle_exact_object_Inr sort_members_keys by (elim conjE, intro conjI) (simp_all only: sort_keys_JObj)

lemma exact_ok: "axle_exact_object v l ks = Inr kvs \<Longrightarrow> json_ok fl v \<Longrightarrow> dict_wf kvs \<and> (\<forall>k. json_ok fl (item kvs k))"
  by (auto simp: axle_exact_object_Inr item_def dict_get_or_def list_all_iff split: option.split dest!: map_of_SomeD)

lemma axle_shapes_sorted:
  assumes "axle_shapes m = Inr ob" and "json_ok fl m"
  shows "axle_shapes (sort_keys m) = Inr (sort_objects_of ob)" and "distinct_objects ob"
proof -
  from assms(1) obtain t where a: "axle_exact_object m ''artifact'' TOP_LEVEL_KEYS = Inr (ao_artifact ob)"
    and c: "axle_exact_object (item (ao_artifact ob) ''closure'') ''closure'' CLOSURE_KEYS = Inr (ao_closure ob)"
    and p: "axle_exact_object (item (ao_artifact ob) ''preflight'') ''preflight'' PREFLIGHT_KEYS = Inr (ao_preflight ob)"
    and e: "axle_exact_object (item (ao_artifact ob) ''exact_bundle'') ''exact_bundle'' EXACT_BUNDLE_KEYS = Inr (ao_exact ob)"
    and i: "axle_exact_object (item (ao_artifact ob) ''independent_declaration_bundle'') ''independent_declaration_bundle''
       INDEPENDENT_BUNDLE_KEYS = Inr (ao_independent ob)"
    and v: "axle_exact_object (item (ao_exact ob) ''verification'') ''exact_bundle.verification'' VERIFICATION_KEYS = Inr (ao_verification ob)"
    and t: "axle_exact_object (item (ao_exact ob) ''theorem2sorry'') ''exact_bundle.theorem2sorry'' THEOREM2SORRY_KEYS = Inr t"
    by (auto simp: axle_shapes_def res_bind_Inr_iff)
  have wa: "dict_wf (ao_artifact ob)" "\<And>k. json_ok fl (item (ao_artifact ob) k)" using exact_ok [OF a assms(2)] by blast+
  have we: "dict_wf (ao_exact ob)" "\<And>k. json_ok fl (item (ao_exact ob) k)" using exact_ok [OF e wa(2)] by blast+
  show "distinct_objects ob"
    using wa(1) we(1) exact_ok [OF c wa(2)] exact_ok [OF p wa(2)] exact_ok [OF i wa(2)] exact_ok [OF v we(2)]
    by (simp add: distinct_objects_def)
  show "axle_shapes (sort_keys m) = Inr (sort_objects_of ob)"
    unfolding axle_shapes_def
    by (simp add: exact_sorted [OF a] item_sorted [OF wa(1)] exact_sorted [OF c] exact_sorted [OF p] exact_sorted [OF e]
        exact_sorted [OF i] item_sorted [OF we(1)] exact_sorted [OF v] exact_sorted [OF t] sort_objects_of_def)
qed

lemma sorted_items:
  assumes "distinct_objects ob"
  shows "item (ao_artifact (sort_objects_of ob)) k = sort_keys (item (ao_artifact ob) k)"
    and "item (ao_closure (sort_objects_of ob)) k = sort_keys (item (ao_closure ob) k)"
    and "item (ao_preflight (sort_objects_of ob)) k = sort_keys (item (ao_preflight ob) k)"
    and "item (ao_exact (sort_objects_of ob)) k = sort_keys (item (ao_exact ob) k)"
    and "item (ao_independent (sort_objects_of ob)) k = sort_keys (item (ao_independent ob) k)"
    and "item (ao_verification (sort_objects_of ob)) k = sort_keys (item (ao_verification ob) k)"
  using assms by (simp_all add: sort_objects_of_def distinct_objects_def item_sorted)

lemma axle_accepted_sorted: "distinct_objects ob \<Longrightarrow> axle_accepted (sort_objects_of ob) = axle_accepted ob"
  unfolding axle_accepted_def axle_schemas.simps by (simp only: sorted_items sort_keys_scalars)

lemma axle_agreement_sorted:
  assumes "distinct_objects ob"
  shows "axle_agreement (sort_objects_of ob) = axle_agreement ob"
  unfolding axle_agreement_def sorted_items [OF assms] axle_string_sorted axle_string_tuple_sorted axle_digest_sorted
    sort_keys_scalars ..

lemma identity_sorted:
  assumes "distinct_objects ob"
  shows "canonical_json (source_identity_json (sort_objects_of ob) b) = canonical_json (source_identity_json ob b)"
    and "canonical_json (provided_interface_json (sort_objects_of ob) b) = canonical_json (provided_interface_json ob b)"
  using assms
  by (simp_all add: canonical_json_def source_identity_json_def provided_interface_json_def sort_objects_of_def
      distinct_objects_def item_sorted sort_keys_idem)

lemma axle_from_manifest_sorted:
  assumes "axle_from_manifest sha None m = Inr p" and "json_ok fl m"
  shows "axle_from_manifest sha (Some (pa_canonical_bytes p)) (sort_keys m) = Inr (p\<lparr>pa_manifest := sort_members (pa_manifest p)\<rparr>)"
proof -
  from assms(1) obtain ob b sb ib env base src int where o: "axle_shapes m = Inr ob" and a: "axle_accepted ob = Inr ()"
    and g: "axle_agreement ob = Inr b"
    and c: "axle_canonical_json (JObj (ao_artifact ob)) = Inr (pa_canonical_bytes p)"
    and s: "axle_canonical_json (source_identity_json ob b) = Inr sb"
    and i: "axle_canonical_json (provided_interface_json ob b) = Inr ib"
    and e: "axle_string ''exact_bundle.environment'' (item (ao_exact ob) ''environment'') = Inr env"
    and b: "axle_string_tuple ''closure.base_imports'' (item (ao_closure ob) ''base_imports'') = Inr base"
    and k: "canonical_source_identity sha sb (sha256_digest sha sb) = Inr src" "canonical_interface sha ib (sha256_digest sha ib) = Inr int"
    and p: "p = \<lparr>pa_manifest = ao_artifact ob, pa_canonical_bytes = pa_canonical_bytes p,
          pa_request = \<lparr>ar_environment = env, ar_root_module = ab_root_module b, ar_root_declarations = ab_roots b,
                        ar_base_imports = base, ar_proof_base_imports = ab_proof_base_imports b\<rparr>,
          pa_exact_digest = ab_exact_digest b, pa_independent_digest = ab_independent_digest b,
          pa_source_digest = ab_source_digest b, pa_source = src, pa_interface = int\<rparr>"
    unfolding axle_from_manifest_def by (auto simp: res_bind_Inr_iff)
  note sh = axle_shapes_sorted [OF o assms(2)]
  let ?ob = "sort_objects_of ob"
  have c': "axle_canonical_json (JObj (ao_artifact ?ob)) = Inr (pa_canonical_bytes p)"
    using c by (simp add: axle_canonical_json_def sort_objects_of_def canonical_sorted flip: sort_keys_JObj del: sort_keys.simps)
  have s': "axle_canonical_json (source_identity_json ?ob b) = Inr sb"
    using s by (simp add: axle_canonical_json_def identity_sorted [OF sh(2)])
  have i': "axle_canonical_json (provided_interface_json ?ob b) = Inr ib"
    using i by (simp add: axle_canonical_json_def identity_sorted [OF sh(2)])
  have e': "axle_string ''exact_bundle.environment'' (item (ao_exact ?ob) ''environment'') = Inr env"
    and b': "axle_string_tuple ''closure.base_imports'' (item (ao_closure ?ob) ''base_imports'') = Inr base"
    using e b sh(2) by (simp_all add: sort_objects_of_def distinct_objects_def item_sorted axle_string_sorted axle_string_tuple_sorted)
  have k': "lift_graph (canonical_source_identity sha sb (sha256_digest sha sb)) = Inr src"
    "lift_graph (canonical_interface sha ib (sha256_digest sha ib)) = Inr int" using k by simp_all
  have "axle_from_manifest sha (Some (pa_canonical_bytes p)) (sort_keys m) =
      Inr \<lparr>pa_manifest = ao_artifact ?ob, pa_canonical_bytes = pa_canonical_bytes p,
          pa_request = \<lparr>ar_environment = env, ar_root_module = ab_root_module b, ar_root_declarations = ab_roots b,
                        ar_base_imports = base, ar_proof_base_imports = ab_proof_base_imports b\<rparr>,
          pa_exact_digest = ab_exact_digest b, pa_independent_digest = ab_independent_digest b,
          pa_source_digest = ab_source_digest b, pa_source = src, pa_interface = int\<rparr>"
    unfolding axle_from_manifest_def
    by (simp add: sh(1) axle_accepted_sorted [OF sh(2)] a axle_agreement_sorted [OF sh(2)] g c' s' i' e' b' k')
  also have "\<dots> = Inr (p\<lparr>pa_manifest := sort_members (pa_manifest p)\<rparr>)"
    by (subst (2 3) p) (simp add: sort_objects_of_def)
  finally show ?thesis .
qed

section \<open>An honest declaration is accepted\<close>

lemma unique_pairs_Inr:
  "unique_pairs err d kvs = Inr d' \<Longrightarrow> dict_wf d \<Longrightarrow> dict_wf d' \<and> set d' \<subseteq> set d \<union> set kvs"
proof (induction err d kvs rule: unique_pairs.induct)
  case (2 err d k v kvs)
  from 2(2) have k: "k \<notin> set (dict_keys d)" and u: "unique_pairs err (d @ [(k, v)]) kvs = Inr d'"
    by (auto simp: dict_set_fresh split: if_splits)
  have "dict_wf d' \<and> set d' \<subseteq> set (d @ [(k, v)]) \<union> set kvs"
    by (rule 2(1) [unfolded dict_set_fresh [OF k], OF k u]) (use 2(3) k in simp)
  then show ?case by auto
qed simp

lemma axle_hook_ok: "hook_ok axle_hook" "hook_sound axle_hook"
proof -
  show "hook_ok axle_hook" unfolding axle_hook_def by (rule unique_pairs_ok)
  show "hook_sound axle_hook" unfolding axle_hook_def hook_sound_def using unique_pairs_Inr by fastforce
qed

lemma sha256_digest_ok: "length (sha b) = 32 \<Longrightarrow> is_sha256 (sha256_digest sha b)"
  using lower_hex_hex [of "sha b"] by (simp add: is_sha256_def sha256_digest_def length_hex lower_hex_def)

lemma string_tuple_nonempty: "axle_string_tuple l v = Inr ss \<Longrightarrow> [] \<notin> set ss"
proof -
  assume "axle_string_tuple l v = Inr ss"
  then obtain vs where "res_map (axle_string l) vs = Inr ss"
    by (cases v) (auto simp: axle_string_tuple_def res_bind_Inr_iff split: if_splits)
  then show ?thesis using res_map_Inr_in [of "axle_string l" vs ss] axle_string_Inr by fastforce
qed

lemma axle_from_manifest_fields:
  assumes "axle_from_manifest sha required m = Inr p"
  shows "[] \<notin> set (ar_root_declarations (pa_request p))" and "is_sha256 (pa_independent_digest p)"
    and "is_sha256 (cp_digest (pa_source p))" and "is_sha256 (cp_digest (pa_interface p))"
proof -
  from assms obtain ob b sb ib where g: "axle_agreement ob = Inr b"
    and k: "canonical_source_identity sha sb (sha256_digest sha sb) = Inr (pa_source p)"
      "canonical_interface sha ib (sha256_digest sha ib) = Inr (pa_interface p)"
    and f: "pa_independent_digest p = ab_independent_digest b" "ar_root_declarations (pa_request p) = ab_roots b"
    unfolding axle_from_manifest_def by (auto simp: res_bind_Inr_iff split: if_splits)
  from g have "axle_string_tuple ''closure.root_declarations'' (item (ao_closure ob) ''root_declarations'') = Inr (ab_roots b)"
    and "is_sha256 (ab_independent_digest b)"
    unfolding axle_agreement_def by (auto simp: res_bind_Inr_iff axle_digest_Inr split: if_splits)
  with f k string_tuple_nonempty show "[] \<notin> set (ar_root_declarations (pa_request p))" "is_sha256 (pa_independent_digest p)"
    "is_sha256 (cp_digest (pa_source p))" "is_sha256 (cp_digest (pa_interface p))"
    by (auto simp: canonical_payload_Inr payload_ok_def)
qed

lemma honest_accepted:
  assumes "float_law fl" and "\<forall>b. length (sha b) = 32"
    and "declare_axle_receipt sha fl msg artifact = Inr d" and "parse_axle_artifact sha fl msg False artifact = Inr p"
    and "ar_root_declarations (pa_request p) \<noteq> []" and "reverify (pa_request p) = Inr artifact"
  shows "\<exists>v. axle_validate sha fl msg reverify d = Inr v \<and> ve_source v = pa_source p \<and>
    ve_interface v = pa_interface p \<and> ve_bundle v = pa_independent_digest p \<and>
    ve_roots v = sort (ar_root_declarations (pa_request p))"
proof -
  let ?c = "pa_canonical_bytes p" and ?p = "p\<lparr>pa_manifest := sort_members (pa_manifest p)\<rparr>"
  from assms(4) obtain m where l: "json_loads fl axle_hook artifact = Inr m" and m: "axle_from_manifest sha None m = Inr p"
    by (auto simp: parse_axle_artifact_def split: if_splits sum.splits json_error.splits)
  have ok: "json_ok fl m" by (rule json_loads_ok [OF assms(1) axle_hook_ok(2) l])
  note s = axle_from_manifest_sound [OF m]
  from assms(3,4) have d: "de_engine d = AXLE_ENGINE" "de_bytes d = ?c" "de_digest d = sha256_digest sha ?c"
    by (auto simp: declare_axle_receipt_def declare_evidence_Inr)
  have "json_loads fl axle_hook ?c = Inr (sort_keys m)"
    unfolding s(2) by (rule loads_canonical [OF axle_hook_ok(1) ok])
  then have c: "parse_axle_artifact sha fl msg True ?c = Inr ?p"
    using s(2,3) axle_from_manifest_sorted [OF m ok] by (simp add: parse_axle_artifact_def)
  have mm: "mismatched_components ?p p = []" by (simp add: mismatched_Nil)
  note f = axle_from_manifest_fields [OF m]
  let ?acc = "\<lparr>ae_engine_identity = AXLE_ENGINE, ae_receipt_bytes = ?c, ae_receipt_digest = sha256_digest sha ?c,
     ae_bound_source = cp_digest (pa_source p), ae_bound_bundle = pa_independent_digest p,
     ae_bound_interface = cp_digest (pa_interface p), ae_decision = ''accepted''\<rparr>"
  have "check_evidence sha ?acc = Inr ?acc"
    using f(2-4) sha256_digest_ok assms(2)
    by (simp add: check_evidence_def require_nonempty_def require_digest_def require_canonical_payload_def AXLE_ENGINE_def)
  moreover have "verify_evidence \<lparr>ve_acceptance = ?acc, ve_source = pa_source p, ve_bundle = pa_independent_digest p,
      ve_interface = pa_interface p, ve_roots = ar_root_declarations (pa_request p)\<rparr> =
    Inr \<lparr>ve_acceptance = ?acc, ve_source = pa_source p, ve_bundle = pa_independent_digest p,
      ve_interface = pa_interface p, ve_roots = sort (ar_root_declarations (pa_request p))\<rparr>"
    using f(1) assms(5) by (auto simp: verify_evidence_def)
  ultimately show ?thesis
    using c assms(4,6) mm d by (simp add: axle_validate_def)
qed

text \<open>
  C15. What an honest engine declares is accepted: when verifying again gives the artifact that was
  declared, the authority accepts the declaration and returns its identity, whatever the order of
  members, white space or number formats of the artifact.
\<close>

theorem axle_honest_accepted:
  assumes "float_law fl" and "\<forall>b. length (sha b) = 32"
    and "declare_axle_receipt sha fl msg artifact = Inr d" and "parse_axle_artifact sha fl msg False artifact = Inr p"
    and "ar_root_declarations (pa_request p) \<noteq> []" and "reverify (pa_request p) = Inr artifact"
  shows "\<exists>v. axle_validate sha fl msg reverify d = Inr v \<and> ve_source v = pa_source p \<and>
    ve_interface v = pa_interface p \<and> ve_bundle v = pa_independent_digest p \<and>
    ve_roots v = sort (ar_root_declarations (pa_request p))"
  using honest_accepted [of fl sha msg artifact d p reverify] assms by blast

end
