(* ===== verification/Axle_Witness.thy ===== *)
theory Axle_Witness
  imports Axle_Honest
begin

text \<open>
  A concrete artifact, declared and accepted, and the audit of a graph of one node that carries it.
\<close>

abbreviation ex_roots :: json where
  "ex_roots \<equiv> JList [JStr ''P.main'']"

definition ex_verification :: json where
  "ex_verification = JObj
     [(''failed_declarations'', JList []), (''lean_messages'', JNull), (''okay'', JBool True), (''request'', JNull),
      (''roundtrip'', JStr ''accepted''), (''schema_id'', JStr ''poo-flow.axle-root-declaration-validation.v1''),
      (''status'', JStr ''accepted''), (''theorem_proof'', JStr ''accepted''),
      (''timings'', JObj [(''total'', JFloat ''0.5'')]), (''tool_messages'', JNull)]"

definition ex_theorem2sorry :: json where
  "ex_theorem2sorry = JObj
     [(''messages'', JNull), (''request'', JNull), (''root_declaration_kinds'', JNull), (''root_declarations'', JNull),
      (''schema_id'', JNull), (''status'', JStr ''generated'')]"

definition ex_artifact :: json where
  "ex_artifact = JObj
     [(''closure'', JObj
        [(''base_imports'', JList [JStr ''Init'']), (''declarations'', JList []), (''lean_version'', JStr ''4''),
         (''owner_modules'', JList []), (''proof_base_imports'', JList []), (''proof_base_interface'', JList []),
         (''root_declarations'', ex_roots), (''root_module'', JStr ''P''),
         (''schema_id'', JStr ''poo-flow.lean-declaration-closure.v1'')]),
      (''exact_bundle'', JObj
        [(''bundle_digest'', JStr zero_digest), (''canonical_source'', JStr ''theorem main''),
         (''canonical_source_digest'', JStr zero_digest), (''declarations'', JList []), (''environment'', JStr ''lean-4''),
         (''lean_closure_digest'', JStr zero_digest), (''root_declarations'', ex_roots),
         (''schema_id'', JStr ''poo-flow.axle-exact-declaration-closure.v1''), (''source_declarations'', JList []),
         (''theorem2sorry'', ex_theorem2sorry), (''verification'', ex_verification)]),
      (''exact_bundle_digest'', JStr zero_digest),
      (''independent_declaration_bundle'', JObj
        [(''axle_environment'', JNull), (''canonical_source_digest'', JStr zero_digest), (''declarations'', JList []),
         (''lean_toolchain'', JNull), (''proof_base_declarations'', JNull), (''proof_base_imports'', JList []),
         (''proof_base_interface_digest'', JNull), (''resolved_sources'', JList []), (''root_declarations'', ex_roots),
         (''root_module'', JStr ''P''), (''schema_id'', JStr ''poo-flow.independent-declaration-bundle.v1'')]),
      (''independent_declaration_bundle_digest'', JStr zero_digest),
      (''preflight'', JObj
        [(''axle_base_timeout_seconds'', JInt 2), (''axle_environment'', JNull), (''axle_operation_timeout_seconds'', JInt 10),
         (''closure_digest'', JNull), (''declaration_count'', JInt 0), (''lean_export_timeout_seconds'', JInt 30),
         (''owner_sources'', JNull), (''proof_base_imports'', JList []), (''proof_base_interface_count'', JInt 0),
         (''root_declarations'', ex_roots), (''root_module'', JStr ''P''),
         (''schema_id'', JStr ''poo-flow.axle-closure-preflight.v1'')])]"

definition ex_float :: "string \<Rightarrow> string" where
  "ex_float t = ''0.5''"

lemma ex_float_law: "float_law ex_float"
proof -
  have "float_ok ex_float ''0.5''" by code_simp
  then show ?thesis by (simp add: float_law_def ex_float_def)
qed

lemma ex_artifact_sorted: "sort_keys ex_artifact = ex_artifact"
  by code_simp

lemma ex_artifact_ok: "json_ok ex_float ex_artifact"
  by code_simp

lemma ex_artifact_utf8: "utf8_valid (canonical_json ex_artifact)"
proof (rule canonical_ascii)
  show "json_ascii (sort_keys ex_artifact)" unfolding ex_artifact_sorted by code_simp
qed

definition ex_objects :: axle_objects where
  "ex_objects = (case axle_shapes ex_artifact of Inr ob \<Rightarrow> ob
     | Inl _ \<Rightarrow> \<lparr>ao_artifact = [], ao_closure = [], ao_preflight = [], ao_exact = [], ao_independent = [], ao_verification = []\<rparr>)"

definition ex_bindings :: axle_bindings where
  "ex_bindings = \<lparr>ab_roots = [''P.main''], ab_root_module = ''P'', ab_proof_base_imports = [],
     ab_source_digest = zero_digest, ab_exact_digest = zero_digest, ab_independent_digest = zero_digest\<rparr>"

lemma ex_shapes_ok: "is_ok (axle_shapes ex_artifact)"
  by code_simp

lemma ex_shapes: "axle_shapes ex_artifact = Inr ex_objects"
  using ex_shapes_ok by (auto simp: is_ok_iff ex_objects_def)

lemma ex_accepted: "axle_accepted ex_objects = Inr ()"
  by code_simp

lemma ex_agreement: "axle_agreement ex_objects = Inr ex_bindings"
  by code_simp

lemma ex_artifact_members: "JObj (ao_artifact ex_objects) = ex_artifact"
  by code_simp

lemma ex_identity_ascii:
  "json_ascii (sort_keys (source_identity_json ex_objects ex_bindings))"
  "json_ascii (sort_keys (provided_interface_json ex_objects ex_bindings))"
  by code_simp+

lemma ex_environment: "axle_string ''exact_bundle.environment'' (item (ao_exact ex_objects) ''environment'') = Inr ''lean-4''"
  by code_simp

lemma ex_base: "axle_string_tuple ''closure.base_imports'' (item (ao_closure ex_objects) ''base_imports'') = Inr [''Init'']"
  by code_simp

abbreviation ex_source_bytes :: bytes where
  "ex_source_bytes \<equiv> canonical_json (source_identity_json ex_objects ex_bindings)"

abbreviation ex_interface_bytes :: bytes where
  "ex_interface_bytes \<equiv> canonical_json (provided_interface_json ex_objects ex_bindings)"

definition ex_parsed :: parsed_artifact where
  "ex_parsed = \<lparr>pa_manifest = ao_artifact ex_objects, pa_canonical_bytes = canonical_json ex_artifact,
     pa_request = \<lparr>ar_environment = ''lean-4'', ar_root_module = ''P'', ar_root_declarations = [''P.main''],
       ar_base_imports = [''Init''], ar_proof_base_imports = []\<rparr>,
     pa_exact_digest = zero_digest, pa_independent_digest = zero_digest, pa_source_digest = zero_digest,
     pa_source = \<lparr>cp_bytes = ex_source_bytes, cp_digest = sha256_digest ex_sha ex_source_bytes\<rparr>,
     pa_interface = \<lparr>cp_bytes = ex_interface_bytes, cp_digest = sha256_digest ex_sha ex_interface_bytes\<rparr>\<rparr>"

lemma ex_sha_length: "length (ex_sha b) = 32"
  by (simp add: ex_sha_def)

lemma ex_parsed_manifest: "axle_from_manifest ex_sha None ex_artifact = Inr ex_parsed"
proof -
  have b: "ab_root_module ex_bindings = ''P''" "ab_roots ex_bindings = [''P.main'']" "ab_proof_base_imports ex_bindings = []"
    "ab_exact_digest ex_bindings = zero_digest" "ab_independent_digest ex_bindings = zero_digest"
    "ab_source_digest ex_bindings = zero_digest" by (simp_all add: ex_bindings_def)
  have c: "canonical_source_identity ex_sha x (sha256_digest ex_sha x) = Inr \<lparr>cp_bytes = x, cp_digest = sha256_digest ex_sha x\<rparr>"
    "canonical_interface ex_sha x (sha256_digest ex_sha x) = Inr \<lparr>cp_bytes = x, cp_digest = sha256_digest ex_sha x\<rparr>" for x
    using sha256_digest_ok [of ex_sha x] ex_sha_length by (simp_all add: canonical_payload_Inr payload_ok_def)
  have j: "axle_canonical_json ex_artifact = Inr (canonical_json ex_artifact)"
    "axle_canonical_json (source_identity_json ex_objects ex_bindings) = Inr ex_source_bytes"
    "axle_canonical_json (provided_interface_json ex_objects ex_bindings) = Inr ex_interface_bytes"
    using ex_artifact_utf8 canonical_ascii ex_identity_ascii by (simp_all add: axle_canonical_json_Inr)
  show ?thesis
    unfolding axle_from_manifest_def ex_shapes ex_accepted ex_agreement res_bind_simps ex_artifact_members j ex_environment ex_base
    by (simp add: c b ex_parsed_def)
qed

abbreviation ex_bytes :: bytes where
  "ex_bytes \<equiv> canonical_json ex_artifact"

definition ex_reverify :: "axle_request \<Rightarrow> bytes aresult" where
  "ex_reverify r = Inr (canonical_json ex_artifact)"

lemma ex_parse:
  "parse_axle_artifact ex_sha ex_float id False ex_bytes = Inr ex_parsed"
proof -
  have "json_loads ex_float axle_hook ex_bytes = Inr ex_artifact"
    using loads_canonical [OF axle_hook_ok(1) ex_artifact_ok] unfolding ex_artifact_sorted .
  then show ?thesis using ex_artifact_utf8 ex_parsed_manifest by (simp add: parse_axle_artifact_def)
qed

definition ex_declared :: declared_evidence where
  "ex_declared = \<lparr>de_engine = AXLE_ENGINE, de_bytes = canonical_json ex_artifact,
     de_digest = sha256_digest ex_sha (canonical_json ex_artifact)\<rparr>"

lemma ex_declare: "declare_axle_receipt ex_sha ex_float id ex_bytes = Inr ex_declared"
  by (simp add: declare_axle_receipt_def ex_parse declare_evidence_def AXLE_ENGINE_def ex_parsed_def ex_declared_def)

lemma ex_request: "ar_root_declarations (pa_request ex_parsed) = [''P.main'']"
  by (simp add: ex_parsed_def)

theorem axle_honest_accepted_witness:
  "\<exists>v. axle_validate ex_sha ex_float id ex_reverify ex_declared = Inr v \<and> ve_roots v = [''P.main'']"
proof -
  have "\<exists>v. axle_validate ex_sha ex_float id ex_reverify ex_declared = Inr v \<and> ve_source v = pa_source ex_parsed \<and>
    ve_interface v = pa_interface ex_parsed \<and> ve_bundle v = pa_independent_digest ex_parsed \<and>
    ve_roots v = sort (ar_root_declarations (pa_request ex_parsed))"
    by (rule axle_honest_accepted [OF ex_float_law _ ex_declare ex_parse])
      (simp_all add: ex_sha_length ex_request ex_reverify_def)
  then show ?thesis by (auto simp: ex_request)
qed

lemma ex_validated:
  "\<exists>v. axle_validate ex_sha ex_float id ex_reverify ex_declared = Inr v \<and> ve_source v = pa_source ex_parsed \<and>
    ve_interface v = pa_interface ex_parsed \<and> ve_bundle v = zero_digest \<and> ve_roots v = [''P.main'']"
proof -
  have "\<exists>v. axle_validate ex_sha ex_float id ex_reverify ex_declared = Inr v \<and> ve_source v = pa_source ex_parsed \<and>
    ve_interface v = pa_interface ex_parsed \<and> ve_bundle v = pa_independent_digest ex_parsed \<and>
    ve_roots v = sort (ar_root_declarations (pa_request ex_parsed))"
    by (rule honest_accepted [OF ex_float_law _ ex_declare ex_parse])
      (simp_all add: ex_sha_length ex_request ex_reverify_def)
  then show ?thesis by (auto simp: ex_request) (simp add: ex_parsed_def)
qed


text \<open>
  The builder of the AXLE bundle (\<open>axle_exact_closure.py\<close>) writes a \<open>theorem2sorry\<close> object without
  \<open>messages\<close> and \<open>request\<close> when no root is a theorem. Such an artifact is never accepted here.
\<close>

lemma not_applicable_refused:
  assumes "item a ''exact_bundle'' = JObj e" and "item e ''theorem2sorry'' = JObj t" and "''messages'' \<notin> set (dict_keys t)"
  shows "axle_from_manifest sha required (JObj a) \<noteq> Inr p"
proof
  assume "axle_from_manifest sha required (JObj a) = Inr p"
  then obtain ob where "axle_shapes (JObj a) = Inr ob" by (auto simp: axle_from_manifest_def res_bind_Inr_iff)
  with assms(1,2) have "set (dict_keys t) = set THEOREM2SORRY_KEYS"
    by (auto simp: axle_shapes_def res_bind_Inr_iff axle_exact_object_def split: if_splits)
  with assms(3) show False by (simp add: THEOREM2SORRY_KEYS_def)
qed

section \<open>Audits of one node\<close>

definition solo_graph :: "receipt_node \<Rightarrow> receipt_graph" where
  "solo_graph n = \<lparr>gr_schema_id = GRAPH_SCHEMA, gr_nodes = [n], gr_edges = [], gr_terminal = nd_node_id n\<rparr>"

definition node_small :: "receipt_node \<Rightarrow> bool" where
  "node_small n \<longleftrightarrow> nd_assumed_interfaces n = [] \<and> length (nd_root_declarations n) = 1 \<and>
     list_all (\<lambda>(l, p). length p < 50000) (node_fields n) \<and> list_all (\<lambda>d. length d < 50000) (nd_root_declarations n)"

lemma solo_framed:
  assumes "node_small n"
  shows "\<exists>p. graph_payload (solo_graph n) = Inr p"
proof -
  obtain d where d: "nd_root_declarations n = [d]" "length d < 50000"
    using assms by (auto simp: node_small_def length_Suc_conv)
  let ?xs = "node_fields n @ [(''root_declaration'', d)]"
  have labels: "list_all (\<lambda>(l, p). length l < 100) (node_fields n)" by (simp add: node_fields_def)
  have "list_all (\<lambda>(l, p). length l < 100 \<and> length p < 50000) ?xs"
    using assms labels d(2) by (auto simp: node_small_def list_all_iff)
  from frames_ok [OF this] obtain b where b: "frames ?xs = Inr b" "length b \<le> length ?xs * 50112" by auto
  have "length ?xs = 13" by (simp add: node_fields_def)
  with b(2) have len: "length b < 1000000" by simp
  have p: "node_payload n = Inr b" using assms b(1) d(1) by (simp add: node_payload_def node_small_def)
  have id: "length (nd_node_id n) < 50000" using assms by (simp add: node_small_def node_fields_def)
  have "list_all (\<lambda>(l, p). length l < 100 \<and> length p < 1000000)
      [(''schema_id'', GRAPH_SCHEMA), (''terminal_node_id'', nd_node_id n), (''node'', b)]"
    using len id by (simp add: GRAPH_SCHEMA_def)
  from frames_ok [OF this] p show ?thesis by (auto simp: graph_payload_def solo_graph_def)
qed

lemma solo_verified:
  assumes "made_node sha n" and "node_small n"
  shows "\<exists>r. verify_graph sha (solo_graph n) = Inr r"
proof -
  have m: "made_graph sha (solo_graph n)"
    using assms(1) by (simp add: made_graph_def make_receipt_graph_def solo_graph_def)
  have e: "gr_edges (solo_graph n) = []" "gr_nodes (solo_graph n) = [n]" "gr_terminal (solo_graph n) = nd_node_id n"
    "gr_schema_id (solo_graph n) = GRAPH_SCHEMA" by (simp_all add: solo_graph_def)
  obtain d where d: "nd_root_declarations n = [d]" using assms(2) by (auto simp: node_small_def length_Suc_conv)
  have "\<exists>owners st. scan_graph (solo_graph n) = Inr (owners, st)"
    unfolding scan_graph_iff [OF m] e by (simp add: d)
  then obtain owners st where s: "scan_graph (solo_graph n) = Inr (owners, st)" by blast
  have "adjacent (es_adjacency st) (nd_node_id n) = []"
    using scan_graph_facts(8) [OF s, of "nd_node_id n"] unfolding e by (fastforce simp: preds_def)
  moreover have "depends (solo_graph n) = {}" by (simp add: depends_def e)
  moreover have "assumption_table [n] = []" using assms(2) by (simp add: assumption_table_def node_small_def dict_of_def)
  moreover note solo_framed [OF assms(2)]
  ultimately show ?thesis unfolding verify_graph_scanned [OF s] e by (simp add: acyclic_def)
qed

lemma hex_ascii: "all_ascii (hex b)"
  by (induction b) (simp_all add: hex_Cons hex_byte_ascii)

text \<open>A node whose texts are ASCII; its payloads need not be, as they are written in hexadecimal.\<close>

definition node_ascii :: "receipt_node \<Rightarrow> bool" where
  "node_ascii n \<longleftrightarrow> all_ascii (nd_node_id n) \<and> all_ascii (nd_bundle_digest n) \<and> list_all all_ascii (nd_root_declarations n) \<and>
     all_ascii (cp_digest (nd_source_identity n)) \<and> all_ascii (cp_digest (nd_provided_interface n)) \<and>
     all_ascii (ae_engine_identity (nd_acceptance n)) \<and> all_ascii (ae_receipt_digest (nd_acceptance n))"


lemma digest_ascii: "all_ascii (sha256_digest sha b)"
  by (simp add: sha256_digest_def hex_ascii)

lemma solo_receipt:
  assumes "made_node sha n" and "node_small n"
  obtains r where "verify_graph sha (solo_graph n) = Inr r" and "set (cr_topological_order r) = {nd_node_id n}"
    and "cr_terminal r = nd_node_id n" and "cr_schema_id r = COMPOSITION_SCHEMA" and "all_ascii (cr_graph_digest r)"
proof -
  obtain r where r: "verify_graph sha (solo_graph n) = Inr r" using solo_verified [OF assms] by blast
  moreover from r have "cr_terminal r = nd_node_id n" "cr_schema_id r = COMPOSITION_SCHEMA" "all_ascii (cr_graph_digest r)"
    by (auto simp: verify_graph_def Let_def res_bind_Inr_iff graph_digest_def digest_ascii solo_graph_def split: if_splits)
  moreover from verified_order [OF r] have "set (cr_topological_order r) = {nd_node_id n}" by (simp add: solo_graph_def)
  ultimately show ?thesis using that by metis
qed

lemma solo_audit:
  assumes "made_node sha n" and "node_small n" and "node_ascii n"
  shows "\<exists>b. encode_audit sha (solo_graph n) = Inr b"
proof -
  obtain r where r: "verify_graph sha (solo_graph n) = Inr r" "set (cr_topological_order r) = {nd_node_id n}"
    "cr_terminal r = nd_node_id n" "cr_schema_id r = COMPOSITION_SCHEMA" "all_ascii (cr_graph_digest r)"
    using solo_receipt [OF assms(1,2)] by metis
  note a = assms(3) [unfolded node_ascii_def]
  have "list_all all_ascii (cr_topological_order r)" using r(2) a by (simp add: list_all_iff)
  then have receipt: "json_ascii (verified_receipt_object r)"
    using r(3-5) a by (simp add: verified_receipt_object_def list_all_iff COMPOSITION_SCHEMA_def)
  have "list_all all_ascii (sort (nd_root_declarations n))" using a by (simp add: list_all_iff)
  then have node: "json_ascii (node_object n)"
    using a assms(2) by (simp add: node_object_def acceptance_object_def interface_object_def source_identity_object_def
      hex_ascii node_small_def list_all_iff)
  have "json_ascii (audit_object (solo_graph n) r)"
    using node receipt a by (simp add: audit_object_def graph_object_def solo_graph_def AUDIT_SCHEMA_def GRAPH_SCHEMA_def)
  then have "utf8_valid (canonical_json (audit_object (solo_graph n) r))"
    by (intro canonical_ascii) (simp add: sort_audit)
  with r(1) show ?thesis by (simp add: encode_audit_def)
qed

lemma solo_built: "node_built sha n \<Longrightarrow> graph_built sha (solo_graph n)"
  by (simp add: graph_built_def made_graph_def make_receipt_graph_def solo_graph_def node_built_def)

section \<open>Auditing a node of plain texts\<close>

abbreviation ex_solo :: receipt_node where
  "ex_solo \<equiv> ex_node ''top'' ''goal'' []"

lemma ex_solo_built: "node_built ex_sha ex_solo" "node_small ex_solo" "node_ascii ex_solo"
proof -
  have n: "make_receipt_node ex_solo = Inr ex_solo" by code_simp
  have e: "check_evidence ex_sha (nd_acceptance ex_solo) = Inr (nd_acceptance ex_solo)" by code_simp
  have "is_sha256 zero_digest" by code_simp
  moreover have "sha256_digest ex_sha b = zero_digest" for b
    by (simp add: sha256_digest_def ex_sha_def zero_digest_def numeral_eq_Suc hex_Cons) code_simp
  ultimately have "payload_ok ex_sha (ex_payload s)" for s by (simp add: payload_ok_def ex_payload_def)
  with n e show "node_built ex_sha ex_solo" by (simp add: node_built_def made_node_def ex_node_def)
  show "node_small ex_solo"
    by (simp add: node_small_def node_fields_def ex_node_def ex_payload_def zero_digest_def)
  show "node_ascii ex_solo" by code_simp
qed

definition ex_vouch :: "declared_evidence \<Rightarrow> verified_evidence aresult" where
  "ex_vouch d = Inr \<lparr>ve_acceptance = nd_acceptance ex_solo, ve_source = nd_source_identity ex_solo,
     ve_bundle = nd_bundle_digest ex_solo, ve_interface = nd_provided_interface ex_solo,
     ve_roots = nd_root_declarations ex_solo\<rparr>"

theorem audit_roundtrip_witness:
  "\<exists>b r. encode_audit ex_sha (solo_graph ex_solo) = Inr b \<and>
     decode_audit ex_sha ex_float id ex_vouch b = Inr \<lparr>da_graph = solo_graph ex_solo, da_receipt = r, da_bytes = b\<rparr>"
proof -
  obtain b where b: "encode_audit ex_sha (solo_graph ex_solo) = Inr b"
    using solo_audit [of ex_sha ex_solo] ex_solo_built by (auto simp: node_built_def)
  have "\<forall>n \<in> set (gr_nodes (solo_graph ex_solo)). \<exists>e. ex_vouch (declared_of (nd_acceptance n)) = Inr e \<and> vouches e n"
    by (simp add: solo_graph_def ex_vouch_def vouches_def)
  from audit_roundtrip [OF solo_built [OF ex_solo_built(1)] this b] b show ?thesis by blast
qed


section \<open>Auditing a node that carries the artifact\<close>

text \<open>A bound of the length of a text of JSON.\<close>

fun json_room :: "json \<Rightarrow> int" where
  "json_room JNull = 4"
| "json_room (JBool b) = 5"
| "json_room (JInt i) = int (length (int_str i))"
| "json_room (JFloat t) = int (length t)"
| "json_room (JStr s) = 6 * int (length s) + 2"
| "json_room (JList vs) = 2 + sum_list (map (\<lambda>v. json_room v + 1) vs)"
| "json_room (JObj kvs) = 2 + sum_list (map (\<lambda>(k, v). 6 * int (length k) + 4 + json_room v) kvs)"

lemma json_string_room: "int (length (json_string s)) \<le> 6 * int (length s) + 2"
proof -
  have "length (js_char c) \<le> 6" for c by (simp add: js_char_def hex_byte_def)
  then have "length (concat (map js_char s)) \<le> 6 * length s"
    by (induction s) (simp_all, meson add_mono)
  then show ?thesis by (simp add: json_string_def)
qed

lemma str_join_room: "int (length (str_join '','' ss)) \<le> sum_list (map (\<lambda>s. int (length s) + 1) ss)"
  by (induction "'',''" ss rule: str_join.induct) auto

lemma dumps_room: "int (length (dumps v)) \<le> json_room v"
proof (induction v)
  case (JStr s)
  show ?case using json_string_room by simp
next
  case (JList vs)
  have "sum_list (map (\<lambda>v. int (length (dumps v)) + 1) vs) \<le> sum_list (map (\<lambda>v. json_room v + 1) vs)"
    using JList by (intro sum_list_mono) simp
  with str_join_room [of "map dumps vs"] show ?case by (simp add: comp_def)
next
  case (JObj kvs)
  have "sum_list (map (\<lambda>(k, v). int (length (json_string k)) + int (length (dumps v)) + 2) kvs)
      \<le> sum_list (map (\<lambda>(k, v). 6 * int (length k) + 4 + json_room v) kvs)"
  proof (rule sum_list_mono)
    fix x assume x: "x \<in> set kvs"
    obtain k v where kv: "x = (k, v)" by force
    with JObj x have "int (length (dumps v)) \<le> json_room v" by auto
    with json_string_room [of k] show "(case x of (k, v) \<Rightarrow> int (length (json_string k)) + int (length (dumps v)) + 2)
        \<le> (case x of (k, v) \<Rightarrow> 6 * int (length k) + 4 + json_room v)" unfolding kv by simp
  qed
  also have "map (\<lambda>(k, v). int (length (json_string k)) + int (length (dumps v)) + 2) kvs =
      map (\<lambda>s. int (length s) + 1) (map member_text kvs)" by auto
  finally show ?case using str_join_room [of "map member_text kvs"] by simp
qed simp_all

lemma canonical_room: "json_room (sort_keys v) < 50000 \<Longrightarrow> length (canonical_json v) < 50000"
  using dumps_room [of "sort_keys v"] by (simp add: canonical_json_def)

lemma ex_room:
  "length ex_bytes < 50000" "length ex_source_bytes < 50000" "length ex_interface_bytes < 50000"
  by (rule canonical_room, code_simp)+

definition ex_accepted_node :: receipt_node where
  "ex_accepted_node = \<lparr>nd_node_id = ''main'', nd_source_identity = pa_source ex_parsed, nd_bundle_digest = zero_digest,
     nd_root_declarations = [''P.main''], nd_provided_interface = pa_interface ex_parsed, nd_assumed_interfaces = [],
     nd_acceptance = \<lparr>ae_engine_identity = AXLE_ENGINE, ae_receipt_bytes = canonical_json ex_artifact,
       ae_receipt_digest = sha256_digest ex_sha (canonical_json ex_artifact),
       ae_bound_source = cp_digest (pa_source ex_parsed), ae_bound_bundle = zero_digest,
       ae_bound_interface = cp_digest (pa_interface ex_parsed), ae_decision = ''accepted''\<rparr>\<rparr>"


lemma ex_accepted_evidence:
  assumes "axle_validate ex_sha ex_float id ex_reverify ex_declared = Inr v"
    and "ve_source v = pa_source ex_parsed" and "ve_interface v = pa_interface ex_parsed" and "ve_bundle v = zero_digest"
  shows "ve_acceptance v = nd_acceptance ex_accepted_node"
proof -
  from axle_validate_Inr [OF assms(1)] have c: "check_evidence ex_sha (ve_acceptance v) = Inr (ve_acceptance v)"
    "ae_engine_identity (ve_acceptance v) = AXLE_ENGINE" "ae_receipt_bytes (ve_acceptance v) = ex_bytes" "verify_evidence v = Inr v"
    by (metis declared_evidence.select_convs(2) ex_declared_def)+
  from c(1,3) have "ae_receipt_digest (ve_acceptance v) = sha256_digest ex_sha ex_bytes" "ae_decision (ve_acceptance v) = ''accepted''"
    by (auto simp: check_evidence_def res_bind_Inr_iff require_canonical_payload_Inr split: if_splits)
  moreover from c(4) have "(ae_bound_source (ve_acceptance v), ae_bound_bundle (ve_acceptance v), ae_bound_interface (ve_acceptance v)) =
      (cp_digest (pa_source ex_parsed), zero_digest, cp_digest (pa_interface ex_parsed))"
    unfolding assms(2-4) [symmetric] by (simp add: verify_evidence_def split: if_splits)
  ultimately show ?thesis using c(2,3) by (simp add: ex_accepted_node_def)
qed

lemma ex_accepted_built: "node_built ex_sha ex_accepted_node"
proof -
  obtain v where v: "axle_validate ex_sha ex_float id ex_reverify ex_declared = Inr v" "ve_source v = pa_source ex_parsed"
    "ve_interface v = pa_interface ex_parsed" "ve_bundle v = zero_digest" using ex_validated by blast
  from axle_validate_Inr [OF v(1)] have "check_evidence ex_sha (ve_acceptance v) = Inr (ve_acceptance v)" by metis
  then have c: "check_evidence ex_sha (nd_acceptance ex_accepted_node) = Inr (nd_acceptance ex_accepted_node)"
    unfolding ex_accepted_evidence [OF v] .
  have p: "payload_ok ex_sha (pa_source ex_parsed)" "payload_ok ex_sha (pa_interface ex_parsed)"
    by (simp_all add: ex_parsed_def payload_ok_def sha256_digest_ok ex_sha_length)
  have z: "is_sha256 zero_digest" by code_simp
  have "make_receipt_node ex_accepted_node = Inr ex_accepted_node"
    by (simp add: make_receipt_node_def ex_accepted_node_def Let_def require_nonempty_def require_digest_def z)
  with c p show ?thesis by (simp add: node_built_def made_node_def) (simp add: ex_accepted_node_def)
qed


lemma ex_accepted_small: "node_small ex_accepted_node"
proof -
  have "length (sha256_digest ex_sha b) = 71" for b using sha256_digest_ok [of ex_sha b] ex_sha_length by (simp add: is_sha256_def)
  then show ?thesis
    using ex_room by (simp add: node_small_def node_fields_def ex_accepted_node_def ex_parsed_def zero_digest_def AXLE_ENGINE_def)
qed

lemma ex_accepted_ascii: "node_ascii ex_accepted_node"
proof -
  have "all_ascii zero_digest" "all_ascii AXLE_ENGINE" "all_ascii ''main''" "all_ascii ''P.main''" by code_simp+
  then show ?thesis by (simp only: node_ascii_def ex_accepted_node_def ex_parsed_def receipt_node.select_convs
    accepted_evidence.select_convs parsed_artifact.select_convs canonical_payload.select_convs digest_ascii list.pred_inject simp_thms)
qed

theorem axle_audit_sound_witness:
  "\<exists>b. encode_audit ex_sha (solo_graph ex_accepted_node) = Inr b \<and> (\<exists>fresh.
     reverified ex_sha ex_float id ex_reverify (canonical_json ex_artifact) fresh \<and>
     nd_source_identity ex_accepted_node = pa_source fresh)"
proof -
  obtain b where b: "encode_audit ex_sha (solo_graph ex_accepted_node) = Inr b"
    using solo_audit [OF _ ex_accepted_small ex_accepted_ascii] ex_accepted_built by (auto simp: node_built_def)
  obtain v where v: "axle_validate ex_sha ex_float id ex_reverify ex_declared = Inr v" "ve_source v = pa_source ex_parsed"
    "ve_interface v = pa_interface ex_parsed" "ve_bundle v = zero_digest" "ve_roots v = [''P.main'']" using ex_validated by blast
  have "declared_of (nd_acceptance ex_accepted_node) = ex_declared"
    by (simp add: declared_of_def ex_accepted_node_def ex_declared_def)
  moreover have "vouches v ex_accepted_node"
    using ex_accepted_evidence [OF v(1-4)] v(2-5) by (simp add: vouches_def) (simp add: ex_accepted_node_def)
  ultimately have "\<forall>n \<in> set (gr_nodes (solo_graph ex_accepted_node)).
      \<exists>e. axle_validate ex_sha ex_float id ex_reverify (declared_of (nd_acceptance n)) = Inr e \<and> vouches e n"
    using v(1) by (auto simp: solo_graph_def)
  from audit_reads_back [OF solo_built [OF ex_accepted_built] this b] obtain r where
    d: "decode_audit ex_sha ex_float id (axle_validate ex_sha ex_float id ex_reverify) b =
      Inr \<lparr>da_graph = solo_graph ex_accepted_node, da_receipt = r, da_bytes = b\<rparr>" by blast
  have n: "ex_accepted_node \<in> set (gr_nodes (solo_graph ex_accepted_node))" by (simp add: solo_graph_def)
  have bytes: "ae_receipt_bytes (nd_acceptance ex_accepted_node) = canonical_json ex_artifact" by (simp add: ex_accepted_node_def)
  show ?thesis
    using axle_audit_sound [OF d, unfolded decoded_audit.select_convs, THEN conjunct2, THEN conjunct2, THEN bspec, OF n] b
    unfolding bytes by blast
qed

end
