(* ===== verification/Security_Transition.thy ===== *)
theory Security_Transition
  imports Json_Objects
begin

text \<open>
  The reference transition of agent actions
  (\<open>poo_flow_proof/ai_security_executable_refinement.py\<close>): envelopes and policies with their checks,
  the projection that Scheme hands over, the execution of the transition with its receipt, and its
  replay. SHA-256 is a parameter.
\<close>

section \<open>Errors and checks of texts\<close>

text \<open>\<open>RefinementTypeError\<close> is the \<open>TypeError\<close> of iterating over a value that is no sequence.\<close>

datatype refinement_error =
    RefinementError string
  | RefinementTypeError
  | RefinementEncodeError

type_synonym 'a rresult = "refinement_error + 'a"

abbreviation refine_err :: "string \<Rightarrow> 'a rresult" where
  "refine_err msg \<equiv> Inl (RefinementError msg)"

definition ENVELOPE_SCHEMA :: string where
  "ENVELOPE_SCHEMA = ''poo-flow.ai-security.action-evidence-envelope.v1''"

definition TRANSITION_SCHEMA :: string where
  "TRANSITION_SCHEMA = ''poo-flow.ai-security.executable-transition-receipt.v1''"

definition SCHEMA_VERSION :: string where
  "SCHEMA_VERSION = ''1''"

definition sec_canonical_json :: "json \<Rightarrow> bytes rresult" where
  "sec_canonical_json v = (let t = canonical_json v in if utf8_valid t then Inr t else Inl RefinementEncodeError)"

definition sha256_bytes :: "(bytes \<Rightarrow> bytes) \<Rightarrow> bytes \<Rightarrow> string" where
  "sha256_bytes sha b = ''sha256:'' @ hex (sha b)"

definition need_text :: "string \<Rightarrow> string \<Rightarrow> unit rresult" where
  "need_text label value =
     (if blank value then refine_err (label @ '' must be a non-empty string'') else Inr ())"

definition need_digest :: "string \<Rightarrow> string \<Rightarrow> unit rresult" where
  "need_digest label value =
     res_bind (need_text label value) (\<lambda>_.
     let (prefix, digest) = split_once CHR '':'' value in
     if CHR '':'' \<notin> set value \<or> prefix \<noteq> ''sha256'' \<or> length digest \<noteq> 64
     then refine_err (label @ '' must be a sha256 digest'')
     else (case fromhex digest of
             Inl _ \<Rightarrow> refine_err (label @ '' must be a sha256 digest'')
           | Inr _ \<Rightarrow> Inr ()))"

definition canonical_strings :: "string \<Rightarrow> string list \<Rightarrow> string list rresult" where
  "canonical_strings label vs =
     res_bind (res_map (need_text label) vs) (\<lambda>_.
     if sort (remdups vs) \<noteq> vs then refine_err (label @ '' must be unique and canonically sorted'')
     else Inr vs)"

section \<open>Envelopes\<close>

record action_envelope =
  en_action_id :: string
  en_observation_event_id :: string
  en_recovery_decision_id :: string
  en_actor_identity :: string
  en_tool_identity :: string
  en_capability_id :: string
  en_effect_domain :: string
  en_evidence_root :: string
  en_requested_effects :: "string list"
  en_allowed_effects :: "string list"
  en_parent_action_id :: "string option"
  en_trace_parent_root :: "string option"
  en_schema_id :: string
  en_schema_version :: string

definition named_texts :: "action_envelope \<Rightarrow> (string \<times> string) list" where
  "named_texts e =
     [(''action_id'', en_action_id e), (''observation_event_id'', en_observation_event_id e),
      (''recovery_decision_id'', en_recovery_decision_id e), (''actor_identity'', en_actor_identity e),
      (''tool_identity'', en_tool_identity e), (''capability_id'', en_capability_id e),
      (''effect_domain'', en_effect_domain e)]"

text \<open>The check of a parent action and its trace root, shared by envelopes and policies.\<close>

definition need_parent ::
  "string \<Rightarrow> string \<Rightarrow> string \<Rightarrow> string option \<Rightarrow> string option \<Rightarrow> unit rresult" where
  "need_parent msg action_label root_label action root =
     (if (action = None) \<noteq> (root = None) then refine_err msg
      else case (action, root) of
        (Some a, Some r) \<Rightarrow> res_bind (need_text action_label a) (\<lambda>_. need_digest root_label r)
      | _ \<Rightarrow> Inr ())"

definition validate_envelope_sec :: "action_envelope \<Rightarrow> unit rresult" where
  "validate_envelope_sec e =
     (if en_schema_id e \<noteq> ENVELOPE_SCHEMA then refine_err ''unsupported action envelope schema''
      else if en_schema_version e \<noteq> SCHEMA_VERSION then refine_err ''unsupported action envelope version''
      else
      res_bind (res_map (\<lambda>(label, v). need_text label v) (named_texts e)) (\<lambda>_.
      res_bind (need_digest ''evidence_root'' (en_evidence_root e)) (\<lambda>_.
      res_bind (canonical_strings ''requested_effects'' (en_requested_effects e)) (\<lambda>_.
      res_bind (canonical_strings ''allowed_effects'' (en_allowed_effects e)) (\<lambda>_.
      need_parent ''parent_action_id and trace_parent_root must be present together''
        ''parent_action_id'' ''trace_parent_root'' (en_parent_action_id e) (en_trace_parent_root e))))))"

definition envelope_members :: "action_envelope \<Rightarrow> (string \<times> json) list" where
  "envelope_members e =
     [(''schemaId'', JStr (en_schema_id e)), (''schemaVersion'', JStr (en_schema_version e)),
      (''actionId'', JStr (en_action_id e)), (''parentActionId'', json_option (en_parent_action_id e)),
      (''observationEventId'', JStr (en_observation_event_id e)),
      (''recoveryDecisionId'', JStr (en_recovery_decision_id e)), (''actorIdentity'', JStr (en_actor_identity e)),
      (''toolIdentity'', JStr (en_tool_identity e)), (''capabilityId'', JStr (en_capability_id e)),
      (''effectDomain'', JStr (en_effect_domain e)), (''evidenceRoot'', JStr (en_evidence_root e)),
      (''traceParentRoot'', json_option (en_trace_parent_root e)),
      (''requestedEffects'', JList (map JStr (en_requested_effects e))),
      (''allowedEffects'', JList (map JStr (en_allowed_effects e)))]"

definition envelope_record :: "action_envelope \<Rightarrow> (string \<times> json) list rresult" where
  "envelope_record e = res_bind (validate_envelope_sec e) (\<lambda>_. Inr (envelope_members e))"

definition envelope_digest_sec :: "(bytes \<Rightarrow> bytes) \<Rightarrow> action_envelope \<Rightarrow> string rresult" where
  "envelope_digest_sec sha e =
     res_bind (envelope_record e) (\<lambda>kvs.
     res_bind (sec_canonical_json (JObj kvs)) (\<lambda>b. Inr (sha256_bytes sha b)))"

section \<open>The projection that Scheme hands over\<close>

definition PROJECTION_KEYS :: "string list" where
  "PROJECTION_KEYS =
     [''schemaId'', ''schemaVersion'', ''actionId'', ''parentActionId'', ''observationEventId'', ''recoveryDecisionId'',
      ''actorIdentity'', ''toolIdentity'', ''capabilityId'', ''effectDomain'', ''evidenceRoot'', ''traceParentRoot'',
      ''requestedEffects'', ''allowedEffects'']"

definition optional_str :: "json \<Rightarrow> string option" where
  "optional_str v = (if v = JNull then None else Some (value_str v))"

definition iterated :: "json \<Rightarrow> string list rresult" where
  "iterated v = (case iterated_strs v of None \<Rightarrow> Inl RefinementTypeError | Some ss \<Rightarrow> Inr ss)"

definition envelope_from_projection :: "(string \<times> json) list \<Rightarrow> action_envelope rresult" where
  "envelope_from_projection p =
     (if set (dict_keys p) \<noteq> set PROJECTION_KEYS
      then refine_err (''Scheme envelope projection mismatch: missing='' @ repr_list (missing_keys PROJECTION_KEYS p) @
        '', unexpected='' @ repr_list (unknown_keys PROJECTION_KEYS p))
      else
      res_bind (iterated (item p ''requestedEffects'')) (\<lambda>requested.
      res_bind (iterated (item p ''allowedEffects'')) (\<lambda>allowed.
      let e = \<lparr>en_action_id = value_str (item p ''actionId''),
               en_observation_event_id = value_str (item p ''observationEventId''),
               en_recovery_decision_id = value_str (item p ''recoveryDecisionId''),
               en_actor_identity = value_str (item p ''actorIdentity''),
               en_tool_identity = value_str (item p ''toolIdentity''),
               en_capability_id = value_str (item p ''capabilityId''),
               en_effect_domain = value_str (item p ''effectDomain''),
               en_evidence_root = value_str (item p ''evidenceRoot''),
               en_requested_effects = requested, en_allowed_effects = allowed,
               en_parent_action_id = optional_str (item p ''parentActionId''),
               en_trace_parent_root = optional_str (item p ''traceParentRoot''),
               en_schema_id = value_str (item p ''schemaId''),
               en_schema_version = value_str (item p ''schemaVersion'')\<rparr> in
      res_bind (validate_envelope_sec e) (\<lambda>_. Inr e))))"

section \<open>Policies\<close>

record transition_policy =
  tp_granted_capabilities :: "string list"
  tp_expected_tool_identity :: string
  tp_allowed_effect_domains :: "string list"
  tp_expected_parent_action_id :: "string option"
  tp_expected_trace_parent_root :: "string option"

definition validate_policy_sec :: "transition_policy \<Rightarrow> unit rresult" where
  "validate_policy_sec p =
     res_bind (canonical_strings ''granted_capabilities'' (tp_granted_capabilities p)) (\<lambda>_.
     res_bind (need_text ''expected_tool_identity'' (tp_expected_tool_identity p)) (\<lambda>_.
     res_bind (canonical_strings ''allowed_effect_domains'' (tp_allowed_effect_domains p)) (\<lambda>_.
     need_parent ''policy parent action and trace root must be present together''
       ''expected_parent_action_id'' ''expected_trace_parent_root''
       (tp_expected_parent_action_id p) (tp_expected_trace_parent_root p))))"

section \<open>The transition\<close>

record invariant_evidence =
  ie_invariant :: string
  ie_satisfied :: bool
  ie_reason :: string

definition evidence_record :: "invariant_evidence \<Rightarrow> json" where
  "evidence_record i = JObj
     [(''invariant'', JStr (ie_invariant i)), (''satisfied'', JBool (ie_satisfied i)), (''reason'', JStr (ie_reason i))]"

definition make_evidence :: "string \<Rightarrow> bool \<Rightarrow> string \<Rightarrow> string \<Rightarrow> invariant_evidence" where
  "make_evidence name ok yes no = \<lparr>ie_invariant = name, ie_satisfied = ok, ie_reason = (if ok then yes else no)\<rparr>"

record transition_receipt =
  tr_envelope_digest :: string
  tr_decision :: string
  tr_invariants :: "invariant_evidence list"
  tr_escalation_reasons :: "string list"
  tr_output_digest :: string
  tr_trace_root :: string
  tr_schema_id :: string
  tr_schema_version :: string

definition receipt_record :: "transition_receipt \<Rightarrow> json" where
  "receipt_record r = JObj
     [(''schemaId'', JStr (tr_schema_id r)), (''schemaVersion'', JStr (tr_schema_version r)),
      (''envelopeDigest'', JStr (tr_envelope_digest r)), (''decision'', JStr (tr_decision r)),
      (''invariants'', JList (map evidence_record (tr_invariants r))),
      (''escalationReasons'', JList (map JStr (tr_escalation_reasons r))),
      (''outputDigest'', JStr (tr_output_digest r)), (''traceRoot'', JStr (tr_trace_root r))]"

definition transition_checks :: "action_envelope \<Rightarrow> transition_policy \<Rightarrow> invariant_evidence list" where
  "transition_checks e p =
     [make_evidence ''capability-confinement'' (en_capability_id e \<in> set (tp_granted_capabilities p))
        ''capability is explicitly granted'' ''capability is outside the granted set'',
      make_evidence ''tool-identity'' (en_tool_identity e = tp_expected_tool_identity p)
        ''tool identity matches policy'' ''tool identity does not match policy'',
      make_evidence ''effect-containment''
        (en_effect_domain e \<in> set (tp_allowed_effect_domains p) \<and> set (en_requested_effects e) \<subseteq> set (en_allowed_effects e))
        ''effect domain and requested effects are contained'' ''effect domain or requested effects escape containment'',
      make_evidence ''causal-continuity''
        (en_parent_action_id e = tp_expected_parent_action_id p \<and> en_trace_parent_root e = tp_expected_trace_parent_root p)
        ''parent action and trace root are continuous'' ''parent action or trace root breaks causal continuity'']"

definition output_projection :: "string \<Rightarrow> invariant_evidence list \<Rightarrow> string list \<Rightarrow> json" where
  "output_projection decision checks failures = JObj
     [(''decision'', JStr decision), (''invariants'', JList (map evidence_record checks)),
      (''escalationReasons'', JList (map JStr failures))]"

definition trace_projection :: "string \<Rightarrow> string \<Rightarrow> action_envelope \<Rightarrow> json" where
  "trace_projection envelope_digest output_digest e = JObj
     [(''envelopeDigest'', JStr envelope_digest), (''outputDigest'', JStr output_digest),
      (''evidenceRoot'', JStr (en_evidence_root e)), (''traceParentRoot'', json_option (en_trace_parent_root e))]"

definition execute_transition ::
  "(bytes \<Rightarrow> bytes) \<Rightarrow> action_envelope \<Rightarrow> transition_policy \<Rightarrow> transition_receipt rresult" where
  "execute_transition sha e p =
     res_bind (validate_envelope_sec e) (\<lambda>_.
     res_bind (validate_policy_sec p) (\<lambda>_.
     let checks = transition_checks e p;
         failures = map ie_invariant (filter (\<lambda>i. \<not> ie_satisfied i) checks);
         decision = (if failures = [] then ''accepted'' else ''fail-closed'') in
     res_bind (envelope_digest_sec sha e) (\<lambda>ed.
     res_bind (sec_canonical_json (output_projection decision checks failures)) (\<lambda>ob.
     let od = sha256_bytes sha ob in
     res_bind (sec_canonical_json (trace_projection ed od e)) (\<lambda>tb.
     Inr \<lparr>tr_envelope_digest = ed, tr_decision = decision, tr_invariants = checks, tr_escalation_reasons = failures,
          tr_output_digest = od, tr_trace_root = sha256_bytes sha tb, tr_schema_id = TRANSITION_SCHEMA,
          tr_schema_version = SCHEMA_VERSION\<rparr>)))))"

definition replay_transition ::
  "(bytes \<Rightarrow> bytes) \<Rightarrow> action_envelope \<Rightarrow> transition_policy \<Rightarrow> transition_receipt \<Rightarrow> transition_receipt rresult" where
  "replay_transition sha e p receipt =
     res_bind (execute_transition sha e p) (\<lambda>replayed.
     if replayed \<noteq> receipt then refine_err ''transition receipt does not match independent replay''
     else Inr replayed)"

end
