(* ===== verification/Security_Props.thy ===== *)
theory Security_Props
  imports Security_Transition
begin

text \<open>
  What the reference transition guarantees: it decides by the four obligations of the policy and
  names those that fail, an envelope is the same on both sides of the projection, and a trace root
  identifies the history of actions that leads to it.
\<close>

section \<open>The decision\<close>

text \<open>The obligations of a policy, and the actions that meet them all.\<close>

definition obligation :: "action_envelope \<Rightarrow> transition_policy \<Rightarrow> string \<Rightarrow> bool" where
  "obligation e p name \<longleftrightarrow>
     (name = ''capability-confinement'' \<longrightarrow> en_capability_id e \<in> set (tp_granted_capabilities p)) \<and>
     (name = ''tool-identity'' \<longrightarrow> en_tool_identity e = tp_expected_tool_identity p) \<and>
     (name = ''effect-containment'' \<longrightarrow> en_effect_domain e \<in> set (tp_allowed_effect_domains p) \<and>
        set (en_requested_effects e) \<subseteq> set (en_allowed_effects e)) \<and>
     (name = ''causal-continuity'' \<longrightarrow> en_parent_action_id e = tp_expected_parent_action_id p \<and>
        en_trace_parent_root e = tp_expected_trace_parent_root p)"

abbreviation obligations :: "string list" where
  "obligations \<equiv> [''capability-confinement'', ''tool-identity'', ''effect-containment'', ''causal-continuity'']"

definition admitted :: "action_envelope \<Rightarrow> transition_policy \<Rightarrow> bool" where
  "admitted e p \<longleftrightarrow> (\<forall>name \<in> set obligations. obligation e p name)"

lemma make_evidence_sel [simp]:
  "ie_invariant (make_evidence n b y x) = n" "ie_satisfied (make_evidence n b y x) = b"
  by (simp_all add: make_evidence_def)

definition violated :: "action_envelope \<Rightarrow> transition_policy \<Rightarrow> string list" where
  "violated e p = filter (\<lambda>n. \<not> obligation e p n) obligations"

lemma failed_names: "map ie_invariant (filter (\<lambda>i. \<not> ie_satisfied i) (transition_checks e p)) = violated e p"
  by (simp add: transition_checks_def obligation_def violated_def)

lemma no_violation: "violated e p = [] \<longleftrightarrow> admitted e p"
  unfolding admitted_def violated_def by (simp only: filter_empty_conv not_not)

lemma set_violated: "set (violated e p) = {name \<in> set obligations. \<not> obligation e p name}"
  unfolding violated_def by (simp only: set_filter)

lemma sec_canonical_json_Inr: "sec_canonical_json v = Inr b \<longleftrightarrow> b = canonical_json v \<and> utf8_valid b"
  by (auto simp: sec_canonical_json_def Let_def)

lemma execute_Inr:
  assumes "execute_transition sha e p = Inr r"
  shows "validate_envelope_sec e = Inr ()" and "validate_policy_sec p = Inr ()"
    and "envelope_digest_sec sha e = Inr (tr_envelope_digest r)"
    and "tr_invariants r = transition_checks e p" and "tr_escalation_reasons r = violated e p"
    and "tr_decision r = (if violated e p = [] then ''accepted'' else ''fail-closed'')"
    and "tr_output_digest r =
      sha256_bytes sha (canonical_json (output_projection (tr_decision r) (tr_invariants r) (tr_escalation_reasons r)))"
    and "tr_trace_root r = sha256_bytes sha (canonical_json (trace_projection (tr_envelope_digest r) (tr_output_digest r) e))"
    and "tr_schema_id r = TRANSITION_SCHEMA" and "tr_schema_version r = SCHEMA_VERSION"
proof -
  note i = assms [unfolded execute_transition_def Let_def failed_names res_bind_Inr_iff sec_canonical_json_Inr]
  then show "validate_envelope_sec e = Inr ()" and "validate_policy_sec p = Inr ()" by (elim exE conjE, simp)+
  from i show "envelope_digest_sec sha e = Inr (tr_envelope_digest r)"
    and "tr_invariants r = transition_checks e p" and "tr_escalation_reasons r = violated e p"
    and "tr_decision r = (if violated e p = [] then ''accepted'' else ''fail-closed'')"
    and "tr_output_digest r =
      sha256_bytes sha (canonical_json (output_projection (tr_decision r) (tr_invariants r) (tr_escalation_reasons r)))"
    and "tr_trace_root r = sha256_bytes sha (canonical_json (trace_projection (tr_envelope_digest r) (tr_output_digest r) e))"
    and "tr_schema_id r = TRANSITION_SCHEMA" and "tr_schema_version r = SCHEMA_VERSION"
    by fastforce+
qed

text \<open>
  C21. The transition fails closed: a receipt says \<open>accepted\<close> exactly when the action meets every
  obligation of the policy, and otherwise \<open>fail-closed\<close> with exactly the violated obligations named;
  an envelope or policy that does not pass its checks has no receipt at all.
\<close>

theorem transition_fails_closed:
  "case execute_transition sha e p of
     Inr r \<Rightarrow> validate_envelope_sec e = Inr () \<and> validate_policy_sec p = Inr () \<and>
       (if admitted e p then tr_decision r = ''accepted'' \<and> tr_escalation_reasons r = []
        else tr_decision r = ''fail-closed'' \<and> tr_escalation_reasons r \<noteq> [] \<and>
          set (tr_escalation_reasons r) = {name \<in> set obligations. \<not> obligation e p name})
   | Inl err \<Rightarrow> \<not> (validate_envelope_sec e = Inr () \<and> validate_policy_sec p = Inr ()) \<or> err = RefinementEncodeError"
proof (cases "execute_transition sha e p")
  case (Inr r)
  note x = execute_Inr [OF Inr]
  have "tr_escalation_reasons r = [] \<longleftrightarrow> admitted e p" unfolding x(5) by (rule no_violation)
  with x(1,2,5,6) show ?thesis unfolding Inr sum.case set_violated [symmetric] by simp
next
  case (Inl err)
  have "err = RefinementEncodeError" if "validate_envelope_sec e = Inr ()" "validate_policy_sec p = Inr ()"
    using Inl that
    by (auto simp: execute_transition_def Let_def envelope_digest_sec_def envelope_record_def sec_canonical_json_def
        failed_names split: if_splits)
  with Inl show ?thesis by auto
qed

section \<open>The projection\<close>

lemma json_option_str [simp]: "optional_str (json_option x) = x"
  by (cases x) (simp_all add: optional_str_def json_option_def)

lemma envelope_items [simp]:
  "item (envelope_members e) ''schemaId'' = JStr (en_schema_id e)"
  "item (envelope_members e) ''schemaVersion'' = JStr (en_schema_version e)"
  "item (envelope_members e) ''actionId'' = JStr (en_action_id e)"
  "item (envelope_members e) ''parentActionId'' = json_option (en_parent_action_id e)"
  "item (envelope_members e) ''observationEventId'' = JStr (en_observation_event_id e)"
  "item (envelope_members e) ''recoveryDecisionId'' = JStr (en_recovery_decision_id e)"
  "item (envelope_members e) ''actorIdentity'' = JStr (en_actor_identity e)"
  "item (envelope_members e) ''toolIdentity'' = JStr (en_tool_identity e)"
  "item (envelope_members e) ''capabilityId'' = JStr (en_capability_id e)"
  "item (envelope_members e) ''effectDomain'' = JStr (en_effect_domain e)"
  "item (envelope_members e) ''evidenceRoot'' = JStr (en_evidence_root e)"
  "item (envelope_members e) ''traceParentRoot'' = json_option (en_trace_parent_root e)"
  "item (envelope_members e) ''requestedEffects'' = JList (map JStr (en_requested_effects e))"
  "item (envelope_members e) ''allowedEffects'' = JList (map JStr (en_allowed_effects e))"
  by (simp_all add: envelope_members_def item_def dict_get_or_def)

lemma envelope_keys: "map fst (envelope_members e) = PROJECTION_KEYS"
  by (simp add: envelope_members_def PROJECTION_KEYS_def)

lemma projection_keys_distinct: "distinct PROJECTION_KEYS"
  by (simp add: PROJECTION_KEYS_def)

lemma envelope_sorted_item:
  "item (sort_members (envelope_members e)) k = item (envelope_members e) k"
proof -
  have "sort_keys (item (envelope_members e) k) = item (envelope_members e) k"
    by (simp add: envelope_members_def item_def dict_get_or_def)
  then show ?thesis
    using item_sorted [of "envelope_members e" k] projection_keys_distinct by (simp only: envelope_keys)
qed

lemma project_items:
  assumes "set (dict_keys p) = set PROJECTION_KEYS" and "\<And>k. item p k = item (envelope_members e) k"
    and "validate_envelope_sec e = Inr ()"
  shows "envelope_from_projection p = Inr e"
  using assms(1,3) unfolding envelope_from_projection_def assms(2)
  by (cases e) (simp add: iterated_def Let_def)

lemma envelope_json_ok: "json_ok fl (JObj (envelope_members e))"
  by (simp add: envelope_members_def list_all_iff option_json_ok)

text \<open>
  The text of an envelope, whose digest names it, reads back as the projection of that envelope:
  both sides of the boundary hold the same identity.
\<close>

theorem envelope_text_roundtrip:
  assumes "validate_envelope_sec e = Inr ()"
  shows "\<exists>p. json_loads fl plain_hook (canonical_json (JObj (envelope_members e))) = Inr (JObj p) \<and>
    envelope_from_projection p = Inr e"
proof (intro exI conjI)
  show "json_loads fl plain_hook (canonical_json (JObj (envelope_members e))) = Inr (JObj (sort_members (envelope_members e)))"
    unfolding loads_canonical [OF plain_hook_ok envelope_json_ok] sort_keys_JObj ..
  show "envelope_from_projection (sort_members (envelope_members e)) = Inr e"
    by (rule project_items [OF _ envelope_sorted_item assms]) (simp only: sort_members_keys envelope_keys)
qed


section \<open>Histories\<close>

text \<open>
  A history is the list of the transitions that were accepted, the latest first; each but the first
  is bound to the trace root of the one before it.
\<close>

inductive trace_history ::
  "(bytes \<Rightarrow> bytes) \<Rightarrow> (action_envelope \<times> transition_receipt) list \<Rightarrow> string \<Rightarrow> bool" for sha where
  start: "execute_transition sha e p = Inr r \<Longrightarrow> tr_decision r = ''accepted'' \<Longrightarrow>
    en_trace_parent_root e = None \<Longrightarrow> trace_history sha [(e, r)] (tr_trace_root r)"
| extend: "trace_history sha hs root \<Longrightarrow> execute_transition sha e p = Inr r \<Longrightarrow> tr_decision r = ''accepted'' \<Longrightarrow>
    en_trace_parent_root e = Some root \<Longrightarrow> trace_history sha ((e, r) # hs) (tr_trace_root r)"

inductive_cases trace_history_elim: "trace_history sha hs root"

text \<open>The texts that a transition hashes.\<close>

definition transition_texts :: "action_envelope \<times> transition_receipt \<Rightarrow> bytes set" where
  "transition_texts h = (case h of (e, r) \<Rightarrow>
     {canonical_json (JObj (envelope_members e)),
      canonical_json (output_projection (tr_decision r) (tr_invariants r) (tr_escalation_reasons r)),
      canonical_json (trace_projection (tr_envelope_digest r) (tr_output_digest r) e)})"

definition history_texts :: "(action_envelope \<times> transition_receipt) list \<Rightarrow> bytes set" where
  "history_texts hs = \<Union> (transition_texts ` set hs)"

lemma sha256_bytes_inject:
  assumes "inj_on sha A" and "b \<in> A" and "c \<in> A" and "sha256_bytes sha b = sha256_bytes sha c"
  shows "b = c"
proof -
  from assms(4) have "sha b = sha c" by (simp add: sha256_bytes_def)
  then show ?thesis using assms(1-3) by (simp add: inj_onD)
qed

lemma trace_projection_inject:
  assumes "canonical_json (trace_projection ed od e) = canonical_json (trace_projection ed' od' e')"
  shows "ed = ed'" "od = od'" "en_trace_parent_root e = en_trace_parent_root e'"
proof -
  have ok: "json_ok id (trace_projection ed od e)" for ed od e by (simp add: trace_projection_def option_json_ok)
  note i = canonical_items [OF ok [unfolded trace_projection_def] ok [unfolded trace_projection_def]
    assms [unfolded trace_projection_def]]
  from i [of "''envelopeDigest''"] show "ed = ed'" by (simp add: item_def dict_get_or_def)
  from i [of "''outputDigest''"] show "od = od'" by (simp add: item_def dict_get_or_def)
  from i [of "''traceParentRoot''"] show "en_trace_parent_root e = en_trace_parent_root e'"
    by (simp add: item_def dict_get_or_def json_option_inject)
qed

lemma evidence_record_inject: "sort_keys (evidence_record i) = sort_keys (evidence_record j) \<Longrightarrow> i = j"
proof -
  assume e: "sort_keys (evidence_record i) = sort_keys (evidence_record j)"
  have ok: "json_ok id (evidence_record i)" for i by (simp add: evidence_record_def)
  note n = canonical_items [OF ok [unfolded evidence_record_def] ok [unfolded evidence_record_def],
    of i j, folded evidence_record_def, unfolded canonical_json_def e, OF refl]
  from n [of "''invariant''"] n [of "''satisfied''"] n [of "''reason''"]
  show "i = j" by (simp add: item_def dict_get_or_def)
qed

lemma output_projection_inject:
  assumes "canonical_json (output_projection d cs fs) = canonical_json (output_projection d' cs' fs')"
  shows "d = d'" "cs = cs'" "fs = fs'"
proof -
  have ok: "json_ok id (output_projection d cs fs)" for d cs fs
    by (simp add: output_projection_def list_all_iff evidence_record_def)
  note i = canonical_items [OF ok [unfolded output_projection_def] ok [unfolded output_projection_def]
    assms [unfolded output_projection_def]]
  from i [of "''decision''"] show "d = d'" by (simp add: item_def dict_get_or_def)
  from i [of "''escalationReasons''"] show "fs = fs'"
    by (simp add: item_def dict_get_or_def comp_def inj_map_eq_map inj_def)
  from i [of "''invariants''"] have "map (\<lambda>i. sort_keys (evidence_record i)) cs = map (\<lambda>i. sort_keys (evidence_record i)) cs'"
    by (simp add: item_def dict_get_or_def comp_def)
  then show "cs = cs'" by (rule map_injective) (use evidence_record_inject in \<open>simp add: inj_def\<close>)
qed

lemma envelope_text_inject:
  assumes "validate_envelope_sec e = Inr ()" and "validate_envelope_sec e' = Inr ()"
    and "canonical_json (JObj (envelope_members e)) = canonical_json (JObj (envelope_members e'))"
  shows "e = e'"
proof -
  have s: "sort_keys (item (envelope_members e) k) = item (envelope_members e) k" for e k
    by (simp add: envelope_members_def item_def dict_get_or_def)
  have "item (envelope_members e') k = item (envelope_members e) k" for k
    using canonical_items [OF envelope_json_ok envelope_json_ok assms(3), of k] unfolding s by simp
  from project_items [OF _ this assms(1)] envelope_keys [of e']
  have "envelope_from_projection (envelope_members e') = Inr e" by simp
  moreover have "envelope_from_projection (envelope_members e') = Inr e'"
    by (rule project_items [OF _ refl assms(2)]) (simp add: envelope_keys)
  ultimately show ?thesis by simp
qed


text \<open>Two transitions with one trace root are the same transition.\<close>

lemma same_transition:
  assumes "execute_transition sha e p = Inr r" and "execute_transition sha e' p' = Inr r'"
    and "tr_trace_root r = tr_trace_root r'" and "inj_on sha A"
    and "transition_texts (e, r) \<subseteq> A" and "transition_texts (e', r') \<subseteq> A"
  shows "e = e' \<and> r = r'"
proof -
  note x = execute_Inr [OF assms(1)] and y = execute_Inr [OF assms(2)]
  have t: "canonical_json (JObj (envelope_members e)) \<in> A" "canonical_json (JObj (envelope_members e')) \<in> A"
    "canonical_json (output_projection (tr_decision r) (tr_invariants r) (tr_escalation_reasons r)) \<in> A"
    "canonical_json (output_projection (tr_decision r') (tr_invariants r') (tr_escalation_reasons r')) \<in> A"
    "canonical_json (trace_projection (tr_envelope_digest r) (tr_output_digest r) e) \<in> A"
    "canonical_json (trace_projection (tr_envelope_digest r') (tr_output_digest r') e') \<in> A"
    using assms(5,6) by (simp_all add: transition_texts_def)
  have "canonical_json (trace_projection (tr_envelope_digest r) (tr_output_digest r) e) =
      canonical_json (trace_projection (tr_envelope_digest r') (tr_output_digest r') e')"
    by (rule sha256_bytes_inject [OF assms(4) t(5,6)]) (use assms(3) x(8) y(8) in simp)
  note tp = trace_projection_inject [OF this]
  have "canonical_json (output_projection (tr_decision r) (tr_invariants r) (tr_escalation_reasons r)) =
      canonical_json (output_projection (tr_decision r') (tr_invariants r') (tr_escalation_reasons r'))"
    by (rule sha256_bytes_inject [OF assms(4) t(3,4)]) (use tp(2) x(7) y(7) in simp)
  note op = output_projection_inject [OF this]
  have d: "tr_envelope_digest r = sha256_bytes sha (canonical_json (JObj (envelope_members e)))"
    if "envelope_digest_sec sha e = Inr (tr_envelope_digest r)" for e and r :: transition_receipt
    using that by (auto simp: envelope_digest_sec_def envelope_record_def res_bind_Inr_iff sec_canonical_json_Inr)
  have "canonical_json (JObj (envelope_members e)) = canonical_json (JObj (envelope_members e'))"
    by (rule sha256_bytes_inject [OF assms(4) t(1,2)]) (use tp(1) d [OF x(3)] d [OF y(3)] in simp)
  from envelope_text_inject [OF x(1) y(1) this] have "e = e'" .
  moreover have "r = r'"
    by (rule transition_receipt.equality) (use tp op x(9,10) y(9,10) assms(3) in simp_all)
  ultimately show ?thesis ..
qed

lemma trace_history_last:
  assumes "trace_history sha hs root"
  obtains e p r hs1 where "hs = (e, r) # hs1" and "execute_transition sha e p = Inr r" and "root = tr_trace_root r"
    and "case en_trace_parent_root e of None \<Rightarrow> hs1 = [] | Some root1 \<Rightarrow> trace_history sha hs1 root1"
  using assms by (rule trace_history_elim) auto

lemma history_identified:
  assumes "trace_history sha hs root" and "trace_history sha hs' root"
    and "inj_on sha A" and "history_texts hs \<subseteq> A" and "history_texts hs' \<subseteq> A"
  shows "hs = hs'"
  using assms
proof (induction hs root arbitrary: hs' rule: trace_history.induct)
  case (start e p r)
  from start(4) obtain e' p' r' hs1 where h: "hs' = (e', r') # hs1" "execute_transition sha e' p' = Inr r'"
    "tr_trace_root r = tr_trace_root r'"
    "case en_trace_parent_root e' of None \<Rightarrow> hs1 = [] | Some root1 \<Rightarrow> trace_history sha hs1 root1"
    by (rule trace_history_last)
  have "e = e' \<and> r = r'"
    by (rule same_transition [OF start(1) h(2,3) start(5)]) (use start(6,7) h(1) in \<open>simp_all add: history_texts_def\<close>)
  with h(1,4) start(3) show ?case by simp
next
  case (extend hs root e p r)
  from extend(6) obtain e' p' r' hs1 where h: "hs' = (e', r') # hs1" "execute_transition sha e' p' = Inr r'"
    "tr_trace_root r = tr_trace_root r'"
    "case en_trace_parent_root e' of None \<Rightarrow> hs1 = [] | Some root1 \<Rightarrow> trace_history sha hs1 root1"
    by (rule trace_history_last)
  have s: "e = e' \<and> r = r'"
    by (rule same_transition [OF extend(2) h(2,3) extend(7)]) (use extend(8,9) h(1) in \<open>simp_all add: history_texts_def\<close>)
  with h(4) extend(4) have "trace_history sha hs1 root" by simp
  then have "hs = hs1"
    by (rule extend(5)) (use extend(7-9) h(1) in \<open>simp_all add: history_texts_def\<close>)
  with s h(1) show ?case by simp
qed

text \<open>
  C20. A trace root identifies the whole history that leads to it: two histories of accepted actions
  that end in one trace root are equal in all their envelopes and receipts, however long they are,
  unless SHA-256 collides on the texts that were hashed along them.
\<close>

theorem trace_root_identifies_history:
  assumes "trace_history sha hs root" and "trace_history sha hs' root"
    and "inj_on sha (history_texts hs \<union> history_texts hs')"
  shows "hs = hs'"
  by (rule history_identified [OF assms]) simp_all

text \<open>
  Replay accepts a receipt for at most one envelope, and only the receipt that the execution
  gives: a receipt cannot be moved to another action, and none of its fields can be changed.
\<close>

theorem replayed_receipt_unique:
  assumes "replay_transition sha e p r = Inr s" and "replay_transition sha e' p' r = Inr s'"
    and "inj_on sha (transition_texts (e, r) \<union> transition_texts (e', r))"
  shows "e = e' \<and> s = r \<and> s' = r \<and> execute_transition sha e p = Inr r \<and> execute_transition sha e p' = Inr r"
proof -
  have x: "execute_transition sha e p = Inr r" "s = r" "execute_transition sha e' p' = Inr r" "s' = r"
    using assms(1,2) by (auto simp: replay_transition_def res_bind_Inr_iff split: if_splits)
  moreover have "e = e'" using same_transition [OF x(1,3) refl assms(3)] by blast
  ultimately show ?thesis by simp
qed

end
