(* ===== verification/Evidence_Content.thy ===== *)
theory Evidence_Content
  imports Security_Props
begin

text \<open>
  The verification of evidence content (\<open>EvidenceContentVerifier\<close> of
  \<open>poo_flow_proof/ai_security_executable_refinement.py\<close>): four stages, each with its own authority,
  whose states stay visible in the receipt. The authorities are functions of the verifier that may
  raise, which is \<open>None\<close>.
\<close>

section \<open>Requests and receipts\<close>

definition CONTENT_SCHEMA :: string where
  "CONTENT_SCHEMA = ''poo-flow.ai-security.evidence-content-verification.v1''"

record issuer_assertion =
  ia_issuer_identity :: string
  ia_key_identity :: string
  ia_signature :: string

record transparency_proof =
  tx_log_identity :: string
  tx_leaf_digest :: string
  tx_inclusion_path :: "string list"

record verification_request =
  vr_artifact :: bytes
  vr_expected_digest :: string
  vr_expected_schema_id :: string
  vr_decoded_payload :: "(string \<times> json) list"
  vr_issuer_assertion :: "issuer_assertion option"
  vr_transparency_proof :: "transparency_proof option"

record stage_receipt =
  st_stage :: string
  st_state :: string
  st_reason :: string

record content_receipt =
  ct_artifact_digest :: string
  ct_expected_schema_id :: string
  ct_digest_integrity :: stage_receipt
  ct_schema_semantic_replay :: stage_receipt
  ct_issuer_authentication :: stage_receipt
  ct_transparency_inclusion :: stage_receipt
  ct_decision :: string
  ct_receipt_digest :: string
  ct_schema_id :: string
  ct_schema_version :: string

definition stage_record :: "stage_receipt \<Rightarrow> json" where
  "stage_record s = JObj [(''stage'', JStr (st_stage s)), (''state'', JStr (st_state s)), (''reason'', JStr (st_reason s))]"

definition stage_records :: "content_receipt \<Rightarrow> stage_receipt list" where
  "stage_records r =
     [ct_digest_integrity r, ct_schema_semantic_replay r, ct_issuer_authentication r, ct_transparency_inclusion r]"

definition content_record :: "content_receipt \<Rightarrow> json" where
  "content_record r = JObj
     [(''schemaId'', JStr (ct_schema_id r)), (''schemaVersion'', JStr (ct_schema_version r)),
      (''artifactDigest'', JStr (ct_artifact_digest r)), (''expectedSchemaId'', JStr (ct_expected_schema_id r)),
      (''digestIntegrity'', stage_record (ct_digest_integrity r)),
      (''schemaSemanticReplay'', stage_record (ct_schema_semantic_replay r)),
      (''issuerAuthentication'', stage_record (ct_issuer_authentication r)),
      (''transparencyInclusion'', stage_record (ct_transparency_inclusion r)),
      (''decision'', JStr (ct_decision r)), (''receiptDigest'', JStr (ct_receipt_digest r))]"

section \<open>The verifier\<close>

record content_verifier =
  cv_semantic_replayers :: "(string \<times> ((string \<times> json) list \<Rightarrow> bool option)) list"
  cv_issuer_authenticator :: "bytes \<Rightarrow> issuer_assertion \<Rightarrow> bool option"
  cv_transparency_verifier :: "string \<Rightarrow> transparency_proof \<Rightarrow> bool option"

definition make_stage :: "string \<Rightarrow> bool \<Rightarrow> string \<Rightarrow> string \<Rightarrow> stage_receipt" where
  "make_stage name ok yes no =
     \<lparr>st_stage = name, st_state = (if ok then ''verified'' else ''failed''), st_reason = (if ok then yes else no)\<rparr>"

definition digest_stage :: "string \<Rightarrow> verification_request \<Rightarrow> stage_receipt" where
  "digest_stage artifact_digest q =
     make_stage ''digest-integrity'' (artifact_digest = vr_expected_digest q)
       ''artifact digest matches expected digest'' ''artifact digest mismatch''"

text \<open>A replayer that raises counts as one that refuses.\<close>

definition replay_ok :: "content_verifier \<Rightarrow> verification_request \<Rightarrow> bool" where
  "replay_ok v q =
     (if item (vr_decoded_payload q) ''schemaId'' \<noteq> JStr (vr_expected_schema_id q) then False
      else case dict_get (cv_semantic_replayers v) (vr_expected_schema_id q) of
        None \<Rightarrow> False
      | Some replayer \<Rightarrow> replayer (vr_decoded_payload q) = Some True)"

definition schema_stage :: "content_verifier \<Rightarrow> verification_request \<Rightarrow> stage_receipt" where
  "schema_stage v q =
     make_stage ''schema-semantic-replay'' (replay_ok v q)
       ''schema-specific semantic replay succeeded'' ''schema identity or semantic replay failed''"

definition issuer_stage :: "content_verifier \<Rightarrow> verification_request \<Rightarrow> stage_receipt" where
  "issuer_stage v q =
     (case vr_issuer_assertion q of
        None \<Rightarrow> \<lparr>st_stage = ''issuer-authentication'', st_state = ''not-provided'', st_reason = ''issuer assertion is absent''\<rparr>
      | Some a \<Rightarrow> make_stage ''issuer-authentication'' (cv_issuer_authenticator v (vr_artifact q) a = Some True)
          ''issuer authentication succeeded'' ''issuer authentication failed'')"

definition transparency_stage :: "content_verifier \<Rightarrow> string \<Rightarrow> verification_request \<Rightarrow> stage_receipt" where
  "transparency_stage v artifact_digest q =
     (case vr_transparency_proof q of
        None \<Rightarrow> \<lparr>st_stage = ''transparency-inclusion'', st_state = ''not-provided'',
                 st_reason = ''transparency proof is absent''\<rparr>
      | Some t \<Rightarrow> make_stage ''transparency-inclusion'' (cv_transparency_verifier v artifact_digest t = Some True)
          ''transparency inclusion succeeded'' ''transparency inclusion failed'')"

definition content_projection :: "string \<Rightarrow> string \<Rightarrow> stage_receipt list \<Rightarrow> string \<Rightarrow> json" where
  "content_projection artifact_digest schema stages decision = JObj
     [(''schemaId'', JStr CONTENT_SCHEMA), (''schemaVersion'', JStr SCHEMA_VERSION),
      (''artifactDigest'', JStr artifact_digest), (''expectedSchemaId'', JStr schema),
      (''stages'', JList (map stage_record stages)), (''decision'', JStr decision)]"

definition content_decision :: "stage_receipt list \<Rightarrow> string" where
  "content_decision stages = (if list_all (\<lambda>s. st_state s = ''verified'') stages then ''verified'' else ''fail-closed'')"

definition verify_content :: "(bytes \<Rightarrow> bytes) \<Rightarrow> content_verifier \<Rightarrow> verification_request \<Rightarrow> content_receipt rresult" where
  "verify_content sha v q =
     res_bind (need_digest ''expected_digest'' (vr_expected_digest q)) (\<lambda>_.
     res_bind (need_text ''expected_schema_id'' (vr_expected_schema_id q)) (\<lambda>_.
     let ad = sha256_bytes sha (vr_artifact q);
         d = digest_stage ad q; s = schema_stage v q; i = issuer_stage v q; t = transparency_stage v ad q;
         decision = content_decision [d, s, i, t] in
     res_bind (sec_canonical_json (content_projection ad (vr_expected_schema_id q) [d, s, i, t] decision)) (\<lambda>b.
     Inr \<lparr>ct_artifact_digest = ad, ct_expected_schema_id = vr_expected_schema_id q, ct_digest_integrity = d,
          ct_schema_semantic_replay = s, ct_issuer_authentication = i, ct_transparency_inclusion = t,
          ct_decision = decision, ct_receipt_digest = sha256_bytes sha b, ct_schema_id = CONTENT_SCHEMA,
          ct_schema_version = SCHEMA_VERSION\<rparr>)))"

definition replay_content ::
  "(bytes \<Rightarrow> bytes) \<Rightarrow> content_verifier \<Rightarrow> verification_request \<Rightarrow> content_receipt \<Rightarrow> content_receipt rresult" where
  "replay_content sha v q receipt =
     res_bind (verify_content sha v q) (\<lambda>replayed.
     if replayed \<noteq> receipt then refine_err ''evidence-content receipt does not match exact artifact replay''
     else Inr replayed)"

section \<open>What a verdict means\<close>

text \<open>What the four authorities must confirm.\<close>

definition evidence_confirmed :: "(bytes \<Rightarrow> bytes) \<Rightarrow> content_verifier \<Rightarrow> verification_request \<Rightarrow> bool" where
  "evidence_confirmed sha v q \<longleftrightarrow>
     vr_expected_digest q = sha256_bytes sha (vr_artifact q) \<and>
     item (vr_decoded_payload q) ''schemaId'' = JStr (vr_expected_schema_id q) \<and>
     (\<exists>f. dict_get (cv_semantic_replayers v) (vr_expected_schema_id q) = Some f \<and> f (vr_decoded_payload q) = Some True) \<and>
     (\<exists>a. vr_issuer_assertion q = Some a \<and> cv_issuer_authenticator v (vr_artifact q) a = Some True) \<and>
     (\<exists>t. vr_transparency_proof q = Some t \<and>
        cv_transparency_verifier v (sha256_bytes sha (vr_artifact q)) t = Some True)"

lemma stage_verified:
  "st_state (digest_stage ad q) = ''verified'' \<longleftrightarrow> ad = vr_expected_digest q"
  "st_state (schema_stage v q) = ''verified'' \<longleftrightarrow> replay_ok v q"
  "st_state (issuer_stage v q) = ''verified'' \<longleftrightarrow>
     (\<exists>a. vr_issuer_assertion q = Some a \<and> cv_issuer_authenticator v (vr_artifact q) a = Some True)"
  "st_state (transparency_stage v ad q) = ''verified'' \<longleftrightarrow>
     (\<exists>t. vr_transparency_proof q = Some t \<and> cv_transparency_verifier v ad t = Some True)"
  by (auto simp: digest_stage_def schema_stage_def issuer_stage_def transparency_stage_def make_stage_def split: option.splits)

lemma replay_ok_iff:
  "replay_ok v q \<longleftrightarrow> item (vr_decoded_payload q) ''schemaId'' = JStr (vr_expected_schema_id q) \<and>
     (\<exists>f. dict_get (cv_semantic_replayers v) (vr_expected_schema_id q) = Some f \<and> f (vr_decoded_payload q) = Some True)"
  by (simp add: replay_ok_def split: option.splits)

lemma verify_content_Inr:
  assumes "verify_content sha v q = Inr r"
  shows "ct_artifact_digest r = sha256_bytes sha (vr_artifact q)" and "ct_expected_schema_id r = vr_expected_schema_id q"
    and "stage_records r = [digest_stage (ct_artifact_digest r) q, schema_stage v q, issuer_stage v q,
      transparency_stage v (ct_artifact_digest r) q]"
    and "ct_decision r = content_decision (stage_records r)"
    and "ct_receipt_digest r = sha256_bytes sha
      (canonical_json (content_projection (ct_artifact_digest r) (ct_expected_schema_id r) (stage_records r) (ct_decision r)))"
    and "ct_schema_id r = CONTENT_SCHEMA" and "ct_schema_version r = SCHEMA_VERSION"
    and "need_digest ''expected_digest'' (vr_expected_digest q) = Inr ()"
proof -
  let ?ad = "sha256_bytes sha (vr_artifact q)"
  let ?ss = "[digest_stage ?ad q, schema_stage v q, issuer_stage v q, transparency_stage v ?ad q]"
  obtain b u where need: "need_digest ''expected_digest'' (vr_expected_digest q) = Inr u"
    and b: "sec_canonical_json (content_projection ?ad (vr_expected_schema_id q) ?ss (content_decision ?ss)) = Inr b"
    and r: "\<lparr>ct_artifact_digest = ?ad, ct_expected_schema_id = vr_expected_schema_id q,
      ct_digest_integrity = digest_stage ?ad q, ct_schema_semantic_replay = schema_stage v q,
      ct_issuer_authentication = issuer_stage v q, ct_transparency_inclusion = transparency_stage v ?ad q,
      ct_decision = content_decision ?ss, ct_receipt_digest = sha256_bytes sha b, ct_schema_id = CONTENT_SCHEMA,
      ct_schema_version = SCHEMA_VERSION\<rparr> = r"
    using assms unfolding verify_content_def Let_def res_bind_Inr_iff sum.inject by blast
  from b have b: "b = canonical_json (content_projection ?ad (vr_expected_schema_id q) ?ss (content_decision ?ss))"
    unfolding sec_canonical_json_Inr ..
  show "ct_artifact_digest r = ?ad" "ct_expected_schema_id r = vr_expected_schema_id q"
    "stage_records r = [digest_stage (ct_artifact_digest r) q, schema_stage v q, issuer_stage v q,
      transparency_stage v (ct_artifact_digest r) q]"
    "ct_decision r = content_decision (stage_records r)"
    "ct_receipt_digest r = sha256_bytes sha
      (canonical_json (content_projection (ct_artifact_digest r) (ct_expected_schema_id r) (stage_records r) (ct_decision r)))"
    "ct_schema_id r = CONTENT_SCHEMA" "ct_schema_version r = SCHEMA_VERSION"
    unfolding r [symmetric] stage_records_def content_receipt.select_convs b by (rule HOL.refl)+
  show "need_digest ''expected_digest'' (vr_expected_digest q) = Inr ()" using need by simp
qed

lemma confirmed_stages:
  assumes "verify_content sha v q = Inr r"
  shows "list_all (\<lambda>x. st_state x = ''verified'') (stage_records r) \<longleftrightarrow> evidence_confirmed sha v q"
  unfolding verify_content_Inr(3) [OF assms] list.pred_inject stage_verified replay_ok_iff evidence_confirmed_def
    verify_content_Inr(1) [OF assms] by auto

text \<open>
  C22. Verification fails closed: its verdict is \<open>verified\<close> exactly when the artifact has the expected
  digest, the schema's own replayer accepts a payload of that schema, the issuer is authenticated and
  the artifact is included in the log; an authority that is missing, refuses or raises gives
  \<open>fail-closed\<close>, and the state of its own stage, and only that, shows it.
\<close>

theorem content_verified_iff:
  assumes "verify_content sha v q = Inr r"
  shows "(ct_decision r = ''verified'' \<longleftrightarrow> evidence_confirmed sha v q) \<and>
    (ct_decision r = ''fail-closed'' \<longleftrightarrow> \<not> evidence_confirmed sha v q) \<and>
    (st_state (ct_digest_integrity r) = ''verified'' \<longleftrightarrow> vr_expected_digest q = sha256_bytes sha (vr_artifact q)) \<and>
    (st_state (ct_schema_semantic_replay r) = ''verified'' \<longleftrightarrow> replay_ok v q) \<and>
    (st_state (ct_issuer_authentication r) = ''not-provided'' \<longleftrightarrow> vr_issuer_assertion q = None) \<and>
    (st_state (ct_transparency_inclusion r) = ''not-provided'' \<longleftrightarrow> vr_transparency_proof q = None)"
proof -
  note x = verify_content_Inr [OF assms]
  have s: "ct_digest_integrity r = digest_stage (ct_artifact_digest r) q" "ct_schema_semantic_replay r = schema_stage v q"
    "ct_issuer_authentication r = issuer_stage v q" "ct_transparency_inclusion r = transparency_stage v (ct_artifact_digest r) q"
    using x(3) by (simp_all add: stage_records_def)
  have n: "st_state (issuer_stage v q) = ''not-provided'' \<longleftrightarrow> vr_issuer_assertion q = None"
    "st_state (transparency_stage v ad q) = ''not-provided'' \<longleftrightarrow> vr_transparency_proof q = None" for ad
    by (auto simp: issuer_stage_def transparency_stage_def make_stage_def split: option.splits)
  show ?thesis
    unfolding s n stage_verified x(1,4) content_decision_def confirmed_stages [OF assms] by auto
qed

text \<open>
  A receipt does not depend on the payload but for the verdict of the replay. Nothing ties the
  payload to the artifact: a payload that replays may accompany any artifact.
\<close>

lemma payload_detached:
  assumes "replay_ok v q" and "replay_ok v (q\<lparr>vr_decoded_payload := other\<rparr>)"
  shows "verify_content sha v (q\<lparr>vr_decoded_payload := other\<rparr>) = verify_content sha v q"
proof -
  let ?q = "q\<lparr>vr_decoded_payload := other\<rparr>"
  have "schema_stage v ?q = schema_stage v q" "issuer_stage v ?q = issuer_stage v q" "digest_stage ad ?q = digest_stage ad q"
    "transparency_stage v ad ?q = transparency_stage v ad q" for ad
    using assms by (simp_all add: schema_stage_def issuer_stage_def transparency_stage_def digest_stage_def split: option.split)
  then show ?thesis unfolding verify_content_def by simp
qed

section \<open>What a receipt identifies\<close>

lemma stage_record_inject: "sort_keys (stage_record s) = sort_keys (stage_record s') \<Longrightarrow> s = s'"
proof -
  assume e: "sort_keys (stage_record s) = sort_keys (stage_record s')"
  have ok: "json_ok id (stage_record i)" for i by (simp add: stage_record_def)
  note n = canonical_items [OF ok [unfolded stage_record_def] ok [unfolded stage_record_def],
    of s s', folded stage_record_def, unfolded canonical_json_def e, OF refl]
  from n [of "''stage''"] n [of "''state''"] n [of "''reason''"] show "s = s'" by (simp add: item_def dict_get_or_def)
qed

lemma content_projection_inject:
  assumes "canonical_json (content_projection a s ss d) = canonical_json (content_projection a' s' ss' d')"
  shows "a = a'" "s = s'" "ss = ss'" "d = d'"
proof -
  have ok: "json_ok id (content_projection a s ss d)" for a s ss d
    by (simp add: content_projection_def list_all_iff stage_record_def)
  note i = canonical_items [OF ok [unfolded content_projection_def] ok [unfolded content_projection_def]
    assms [unfolded content_projection_def]]
  from i [of "''artifactDigest''"] show "a = a'" by (simp add: item_def dict_get_or_def)
  from i [of "''expectedSchemaId''"] show "s = s'" by (simp add: item_def dict_get_or_def)
  from i [of "''decision''"] show "d = d'" by (simp add: item_def dict_get_or_def)
  from i [of "''stages''"] have "map (\<lambda>i. sort_keys (stage_record i)) ss = map (\<lambda>i. sort_keys (stage_record i)) ss'"
    by (simp add: item_def dict_get_or_def comp_def)
  then show "ss = ss'" by (rule map_injective) (use stage_record_inject in \<open>simp add: inj_def\<close>)
qed

text \<open>
  The digest of an evidence receipt identifies the receipt and the artifact: two verifications
  with one receipt digest are of the same artifact bytes and schema, and agree on every stage and
  the decision, unless SHA-256 collides on the texts hashed.
\<close>

theorem content_receipt_identifies:
  assumes "verify_content sha v q = Inr r" and "verify_content sha v' q' = Inr r'"
    and "ct_receipt_digest r = ct_receipt_digest r'"
    and "inj_on sha {vr_artifact q, vr_artifact q',
      canonical_json (content_projection (ct_artifact_digest r) (ct_expected_schema_id r) (stage_records r) (ct_decision r)),
      canonical_json (content_projection (ct_artifact_digest r') (ct_expected_schema_id r') (stage_records r') (ct_decision r'))}"
  shows "r = r' \<and> vr_artifact q = vr_artifact q' \<and> vr_expected_schema_id q = vr_expected_schema_id q'"
proof -
  note x = verify_content_Inr [OF assms(1)] and y = verify_content_Inr [OF assms(2)]
  have "canonical_json (content_projection (ct_artifact_digest r) (ct_expected_schema_id r) (stage_records r) (ct_decision r)) =
      canonical_json (content_projection (ct_artifact_digest r') (ct_expected_schema_id r') (stage_records r') (ct_decision r'))"
    by (rule sha256_bytes_inject [OF assms(4)]) (use assms(3) x(5) y(5) in simp_all)
  note e = content_projection_inject [OF this]
  have "r = r'"
    by (rule content_receipt.equality) (use e x(6,7) y(6,7) assms(3) in \<open>simp_all add: stage_records_def\<close>)
  moreover have "vr_artifact q = vr_artifact q'"
    by (rule sha256_bytes_inject [OF assms(4)]) (use e(1) x(1) y(1) in simp_all)
  moreover have "vr_expected_schema_id q = vr_expected_schema_id q'" using e(2) x(2) y(2) by simp
  ultimately show ?thesis by blast
qed

end
