(* ===== verification/Security_Witness.thy ===== *)
theory Security_Witness
  imports Evidence_Content
begin

text \<open>
  Two actions of which the second continues the first, an evidence request, and inputs that the
  checks let through although they should not.
\<close>

section \<open>Runs whose texts are ASCII\<close>

lemma ascii_canonical: "json_ascii v \<Longrightarrow> sec_canonical_json v = Inr (canonical_json v)"
  by (simp add: sec_canonical_json_Inr canonical_ascii sort_keys_ascii)

lemma sha256_bytes_ascii: "all_ascii (sha256_bytes sha b)"
  by (simp add: sha256_bytes_def hex_text_ascii)

lemma option_ascii: "pred_option all_ascii x \<Longrightarrow> json_ascii (json_option x)"
  by (cases x) (simp_all add: json_option_def)

lemma output_ascii: "json_ascii (output_projection ''accepted'' (transition_checks e p) [])"
  by (simp add: output_projection_def transition_checks_def evidence_record_def make_evidence_def)

text \<open>The receipt of an admitted action.\<close>

definition accepted_receipt :: "(bytes \<Rightarrow> bytes) \<Rightarrow> action_envelope \<Rightarrow> transition_policy \<Rightarrow> transition_receipt" where
  "accepted_receipt sha e p =
     (let ed = sha256_bytes sha (canonical_json (JObj (envelope_members e)));
          od = sha256_bytes sha (canonical_json (output_projection ''accepted'' (transition_checks e p) [])) in
      \<lparr>tr_envelope_digest = ed, tr_decision = ''accepted'', tr_invariants = transition_checks e p, tr_escalation_reasons = [],
       tr_output_digest = od, tr_trace_root = sha256_bytes sha (canonical_json (trace_projection ed od e)),
       tr_schema_id = TRANSITION_SCHEMA, tr_schema_version = SCHEMA_VERSION\<rparr>)"

lemma execute_accepts:
  assumes "validate_envelope_sec e = Inr ()" and "validate_policy_sec p = Inr ()" and "violated e p = []"
    and "json_ascii (JObj (envelope_members e))"
  shows "execute_transition sha e p = Inr (accepted_receipt sha e p)"
proof -
  have d: "envelope_digest_sec sha e = Inr (sha256_bytes sha (canonical_json (JObj (envelope_members e))))"
    unfolding envelope_digest_sec_def envelope_record_def assms(1) res_bind_simps ascii_canonical [OF assms(4)] ..
  have "json_ascii (json_option (en_trace_parent_root e))" "all_ascii (en_evidence_root e)"
    using assms(4) by (simp_all add: envelope_members_def)
  then have "json_ascii (trace_projection (sha256_bytes sha b) (sha256_bytes sha c) e)" for b c
    by (simp add: trace_projection_def sha256_bytes_ascii)
  note t = ascii_canonical [OF this]
  show ?thesis
    unfolding execute_transition_def assms(1,2) res_bind_simps Let_def failed_names assms(3) d
      if_P [OF HOL.refl] ascii_canonical [OF output_ascii] t accepted_receipt_def ..
qed

section \<open>A history of two actions\<close>

definition ex_root :: string where
  "ex_root = ''sha256:'' @ replicate 64 CHR ''0''"

definition ex_action :: "string \<Rightarrow> string option \<Rightarrow> string option \<Rightarrow> action_envelope" where
  "ex_action name parent root =
     \<lparr>en_action_id = name, en_observation_event_id = ''seen'', en_recovery_decision_id = ''go'', en_actor_identity = ''agent'',
      en_tool_identity = ''shell'', en_capability_id = ''read'', en_effect_domain = ''files'', en_evidence_root = ex_root,
      en_requested_effects = [''list''], en_allowed_effects = [''list'', ''stat''], en_parent_action_id = parent,
      en_trace_parent_root = root, en_schema_id = ENVELOPE_SCHEMA, en_schema_version = SCHEMA_VERSION\<rparr>"

definition ex_policy :: "string option \<Rightarrow> string option \<Rightarrow> transition_policy" where
  "ex_policy parent root =
     \<lparr>tp_granted_capabilities = [''read''], tp_expected_tool_identity = ''shell'', tp_allowed_effect_domains = [''files''],
      tp_expected_parent_action_id = parent, tp_expected_trace_parent_root = root\<rparr>"

text \<open>
  A hash for the five texts of the two actions: each has 32 equal bytes of its own. The texts are
  written with the digests that these bytes give.
\<close>

definition ex_hash :: "nat \<Rightarrow> bytes" where
  "ex_hash n = replicate 32 (char_of n)"

definition ex_digest :: "nat \<Rightarrow> string" where
  "ex_digest n = ''sha256:'' @ hex (ex_hash n)"

definition ex_first :: action_envelope where
  "ex_first = ex_action ''a1'' None None"

definition ex_first_policy :: transition_policy where
  "ex_first_policy = ex_policy None None"

definition ex_second :: action_envelope where
  "ex_second = ex_action ''a2'' (Some ''a1'') (Some (ex_digest 4))"

definition ex_second_policy :: transition_policy where
  "ex_second_policy = ex_policy (Some ''a1'') (Some (ex_digest 4))"

definition ex_output :: json where
  "ex_output = output_projection ''accepted'' (transition_checks ex_first ex_first_policy) []"

definition ex_sec_sha :: "bytes \<Rightarrow> bytes" where
  "ex_sec_sha b =
     (if b = canonical_json (JObj (envelope_members ex_first)) then ex_hash 2
      else if b = canonical_json ex_output then ex_hash 3
      else if b = canonical_json (trace_projection (ex_digest 2) (ex_digest 3) ex_first) then ex_hash 4
      else if b = canonical_json (JObj (envelope_members ex_second)) then ex_hash 5
      else if b = canonical_json (trace_projection (ex_digest 5) (ex_digest 3) ex_second) then ex_hash 6
      else ex_hash 1)"

lemma different_item:
  assumes "json_ok id (JObj kvs)" and "json_ok id (JObj kvs')" and "sort_keys (item kvs k) \<noteq> sort_keys (item kvs' k)"
  shows "canonical_json (JObj kvs) \<noteq> canonical_json (JObj kvs')"
  using canonical_items [OF assms(1,2)] assms(3) by blast

lemma hash_neq: "i < 256 \<Longrightarrow> j < 256 \<Longrightarrow> i \<noteq> j \<Longrightarrow> ex_hash i \<noteq> ex_hash j"
  by (simp add: ex_hash_def)

lemma ex_checks_same: "transition_checks ex_second ex_second_policy = transition_checks ex_first ex_first_policy"
  by (simp add: transition_checks_def ex_action_def ex_policy_def ex_first_def ex_second_def ex_first_policy_def ex_second_policy_def)

lemma output_json_ok: "json_ok id (output_projection d cs fs)"
  by (simp add: output_projection_def list_all_iff evidence_record_def)

lemma trace_json_ok: "json_ok id (trace_projection a b e)"
  by (simp add: trace_projection_def option_json_ok)

lemma digest_text: "sha256_bytes sha b = ex_digest n \<longleftrightarrow> sha b = ex_hash n"
  by (simp add: sha256_bytes_def ex_digest_def)

lemma texts_differ:
  "canonical_json (JObj (envelope_members e)) \<noteq> canonical_json (output_projection d cs fs)"
  "canonical_json (JObj (envelope_members e)) \<noteq> canonical_json (trace_projection a b e')"
  "canonical_json (output_projection d cs fs) \<noteq> canonical_json (trace_projection a b e')"
proof -
  show "canonical_json (JObj (envelope_members e)) \<noteq> canonical_json (output_projection d cs fs)"
    unfolding output_projection_def
    by (rule different_item [OF envelope_json_ok output_json_ok [unfolded output_projection_def], where k = "''decision''"])
      (simp add: envelope_members_def item_def dict_get_or_def)
  show "canonical_json (JObj (envelope_members e)) \<noteq> canonical_json (trace_projection a b e')"
    unfolding trace_projection_def
    by (rule different_item [OF envelope_json_ok trace_json_ok [unfolded trace_projection_def], where k = "''outputDigest''"])
      (simp add: envelope_members_def item_def dict_get_or_def)
  show "canonical_json (output_projection d cs fs) \<noteq> canonical_json (trace_projection a b e')"
    unfolding trace_projection_def output_projection_def
    by (rule different_item [OF output_json_ok [unfolded output_projection_def] trace_json_ok [unfolded trace_projection_def], where k = "''outputDigest''"])
      (simp add: item_def dict_get_or_def)
qed


lemma first_second: "canonical_json (JObj (envelope_members ex_first)) \<noteq> canonical_json (JObj (envelope_members ex_second))"
  by (rule different_item [OF envelope_json_ok envelope_json_ok, where k = "''actionId''"])
    (simp add: ex_first_def ex_second_def ex_action_def)

lemma traces_differ:
  "canonical_json (trace_projection (ex_digest 2) (ex_digest 3) ex_first) \<noteq>
   canonical_json (trace_projection (ex_digest 5) (ex_digest 3) ex_second)"
  using trace_projection_inject(3) by (fastforce simp: ex_action_def ex_first_def ex_second_def)

lemma ex_sha_values:
  "ex_sec_sha (canonical_json (JObj (envelope_members ex_first))) = ex_hash 2"
  "ex_sec_sha (canonical_json ex_output) = ex_hash 3"
  "ex_sec_sha (canonical_json (trace_projection (ex_digest 2) (ex_digest 3) ex_first)) = ex_hash 4"
  "ex_sec_sha (canonical_json (JObj (envelope_members ex_second))) = ex_hash 5"
  "ex_sec_sha (canonical_json (trace_projection (ex_digest 5) (ex_digest 3) ex_second)) = ex_hash 6"
  by (simp_all only: ex_sec_sha_def ex_output_def texts_differ texts_differ [symmetric] first_second first_second [symmetric]
      traces_differ traces_differ [symmetric] if_True if_False simp_thms)

lemmas ex_digests = ex_sha_values [folded digest_text]

definition ex_first_receipt :: transition_receipt where
  "ex_first_receipt = accepted_receipt ex_sec_sha ex_first ex_first_policy"

definition ex_second_receipt :: transition_receipt where
  "ex_second_receipt = accepted_receipt ex_sec_sha ex_second ex_second_policy"

lemma ex_first_valid: "validate_envelope_sec ex_first = Inr ()" "validate_policy_sec ex_first_policy = Inr ()"
  by code_simp+

lemma ex_second_valid: "validate_envelope_sec ex_second = Inr ()" "validate_policy_sec ex_second_policy = Inr ()"
  by code_simp+

lemma ex_ascii: "json_ascii (JObj (envelope_members ex_first))" "json_ascii (JObj (envelope_members ex_second))"
  by code_simp+

lemma ex_admitted: "violated ex_first ex_first_policy = []" "violated ex_second ex_second_policy = []"
  by (simp_all add: no_violation admitted_def obligation_def ex_action_def ex_policy_def
      ex_first_def ex_second_def ex_first_policy_def ex_second_policy_def)

lemma ex_executed:
  "execute_transition ex_sec_sha ex_first ex_first_policy = Inr ex_first_receipt"
  "execute_transition ex_sec_sha ex_second ex_second_policy = Inr ex_second_receipt"
  unfolding ex_first_receipt_def ex_second_receipt_def
  by (rule execute_accepts [OF ex_first_valid ex_admitted(1) ex_ascii(1)] execute_accepts [OF ex_second_valid ex_admitted(2) ex_ascii(2)])+

lemma ex_receipts:
  "tr_trace_root ex_first_receipt = ex_digest 4" "tr_decision ex_first_receipt = ''accepted''"
  "tr_decision ex_second_receipt = ''accepted''"
  "tr_envelope_digest ex_first_receipt = ex_digest 2" "tr_output_digest ex_first_receipt = ex_digest 3"
  "tr_envelope_digest ex_second_receipt = ex_digest 5" "tr_output_digest ex_second_receipt = ex_digest 3"
  by (simp_all add: ex_first_receipt_def ex_second_receipt_def accepted_receipt_def Let_def
      ex_output_def [symmetric] ex_digests ex_checks_same)

abbreviation ex_history :: "(action_envelope \<times> transition_receipt) list" where
  "ex_history \<equiv> [(ex_second, ex_second_receipt), (ex_first, ex_first_receipt)]"

lemma ex_history_traced: "trace_history ex_sec_sha ex_history (tr_trace_root ex_second_receipt)"
proof (rule trace_history.extend)
  show "trace_history ex_sec_sha [(ex_first, ex_first_receipt)] (tr_trace_root ex_first_receipt)"
    by (rule trace_history.start [OF ex_executed(1) ex_receipts(2)]) (simp add: ex_first_def ex_action_def)
  show "en_trace_parent_root ex_second = Some (tr_trace_root ex_first_receipt)" by (simp add: ex_receipts ex_second_def ex_action_def)
qed (rule ex_executed ex_receipts)+

lemma ex_history_texts: "history_texts ex_history =
  {canonical_json (JObj (envelope_members ex_first)), canonical_json ex_output,
   canonical_json (trace_projection (ex_digest 2) (ex_digest 3) ex_first),
   canonical_json (JObj (envelope_members ex_second)), canonical_json (trace_projection (ex_digest 5) (ex_digest 3) ex_second)}"
proof -
  have "tr_invariants ex_first_receipt = transition_checks ex_first ex_first_policy" "tr_escalation_reasons ex_first_receipt = []"
    "tr_invariants ex_second_receipt = transition_checks ex_first ex_first_policy" "tr_escalation_reasons ex_second_receipt = []"
    by (simp_all add: ex_first_receipt_def ex_second_receipt_def accepted_receipt_def Let_def ex_checks_same)
  then show ?thesis by (simp add: history_texts_def transition_texts_def ex_receipts ex_output_def insert_commute)
qed

lemma ex_no_collision: "inj_on ex_sec_sha (history_texts ex_history)"
  unfolding ex_history_texts inj_on_def by (simp add: ex_sha_values hash_neq)

theorem transition_fails_closed_witness:
  "\<exists>r. execute_transition ex_sec_sha ex_first ex_first_policy = Inr r \<and> tr_decision r = ''accepted''"
  using transition_fails_closed [where sha = ex_sec_sha and e = ex_first and p = ex_first_policy] ex_executed(1)
    no_violation [of ex_first ex_first_policy] ex_admitted(1) by simp

theorem trace_root_identifies_history_witness:
  "{hs. trace_history ex_sec_sha hs (tr_trace_root ex_second_receipt) \<and> history_texts hs = history_texts ex_history} =
   {ex_history}"
proof -
  have "hs = ex_history"
    if h: "trace_history ex_sec_sha hs (tr_trace_root ex_second_receipt)" "history_texts hs = history_texts ex_history" for hs
    by (rule trace_root_identifies_history [OF h(1) ex_history_traced]) (use h ex_no_collision in simp)
  with ex_history_traced show ?thesis by blast
qed

theorem replayed_receipt_unique_witness:
  "replay_transition ex_sec_sha ex_first ex_first_policy ex_first_receipt = Inr ex_first_receipt \<and>
   execute_transition ex_sec_sha ex_first ex_first_policy = Inr ex_first_receipt"
proof -
  have r: "replay_transition ex_sec_sha ex_first ex_first_policy ex_first_receipt = Inr ex_first_receipt"
    by (simp add: replay_transition_def ex_executed)
  have "transition_texts (ex_first, ex_first_receipt) \<subseteq> history_texts ex_history" by (auto simp: history_texts_def)
  with ex_no_collision have "inj_on ex_sec_sha (transition_texts (ex_first, ex_first_receipt) \<union>
      transition_texts (ex_first, ex_first_receipt))" by (auto intro: inj_on_subset)
  from replayed_receipt_unique [OF r r this] r show ?thesis by blast
qed

theorem envelope_text_roundtrip_witness:
  "\<exists>p. json_loads id plain_hook (canonical_json (JObj (envelope_members ex_first))) = Inr (JObj p) \<and>
     envelope_from_projection p = Inr ex_first"
  by (rule envelope_text_roundtrip [OF ex_first_valid(1)])


section \<open>An evidence request\<close>

lemma content_runs:
  assumes "need_digest ''expected_digest'' (vr_expected_digest q) = Inr ()"
    and "need_text ''expected_schema_id'' (vr_expected_schema_id q) = Inr ()" and "all_ascii (vr_expected_schema_id q)"
  shows "\<exists>r. verify_content sha v q = Inr r"
proof -
  have s: "json_ascii (stage_record (digest_stage a q))" "json_ascii (stage_record (schema_stage v q))"
    "json_ascii (stage_record (issuer_stage v q))" "json_ascii (stage_record (transparency_stage v a q))" for a
    by (simp_all add: stage_record_def digest_stage_def schema_stage_def issuer_stage_def transparency_stage_def
        make_stage_def split: option.split)
  have d: "all_ascii (content_decision ss)" for ss by (simp add: content_decision_def)
  have "json_ascii (content_projection (sha256_bytes sha b) (vr_expected_schema_id q)
      [digest_stage a q, schema_stage v q, issuer_stage v q, transparency_stage v a q] (content_decision ss))" for a b ss
    using s d assms(3) by (simp add: content_projection_def CONTENT_SCHEMA_def SCHEMA_VERSION_def sha256_bytes_ascii)
  note t = ascii_canonical [OF this]
  show ?thesis unfolding verify_content_def assms(1,2) res_bind_simps Let_def t by blast
qed

definition ex_verifier :: content_verifier where
  "ex_verifier =
     \<lparr>cv_semantic_replayers = [(''demo.v1'', \<lambda>p. Some (item p ''answer'' = JInt 42))],
      cv_issuer_authenticator = (\<lambda>b a. Some (ia_signature a = b)),
      cv_transparency_verifier = (\<lambda>d t. Some (tx_leaf_digest t = d))\<rparr>"

definition ex_content :: bytes where
  "ex_content = replicate 32 CHR ''x''"

definition ex_content_request :: verification_request where
  "ex_content_request =
     \<lparr>vr_artifact = ex_content, vr_expected_digest = sha256_bytes id ex_content, vr_expected_schema_id = ''demo.v1'',
      vr_decoded_payload = [(''schemaId'', JStr ''demo.v1''), (''answer'', JInt 42)],
      vr_issuer_assertion = Some \<lparr>ia_issuer_identity = ''ci'', ia_key_identity = ''k1'', ia_signature = ex_content\<rparr>,
      vr_transparency_proof = Some \<lparr>tx_log_identity = ''log'', tx_leaf_digest = sha256_bytes id ex_content,
        tx_inclusion_path = []\<rparr>\<rparr>"

lemma ex_verifies: "\<exists>r. verify_content id ex_verifier ex_content_request = Inr r"
proof (rule content_runs)
  show "need_digest ''expected_digest'' (vr_expected_digest ex_content_request) = Inr ()" by code_simp
  show "need_text ''expected_schema_id'' (vr_expected_schema_id ex_content_request) = Inr ()" by code_simp
  show "all_ascii (vr_expected_schema_id ex_content_request)" by code_simp
qed

theorem content_verified_iff_witness:
  "\<exists>r. verify_content id ex_verifier ex_content_request = Inr r \<and> ct_decision r = ''verified''"
proof -
  obtain r where r: "verify_content id ex_verifier ex_content_request = Inr r" using ex_verifies by blast
  have "evidence_confirmed id ex_verifier ex_content_request"
    by (simp add: evidence_confirmed_def ex_content_request_def ex_verifier_def item_def dict_get_or_def)
  with content_verified_iff [OF r] r show ?thesis by blast
qed

theorem content_receipt_identifies_witness:
  "\<exists>r. verify_content id ex_verifier ex_content_request = Inr r \<and>
     {q. \<exists>s. verify_content id ex_verifier q = Inr s \<and> ct_receipt_digest s = ct_receipt_digest r \<and>
        vr_artifact q = ex_content} =
     {q. \<exists>s. verify_content id ex_verifier q = Inr s \<and> ct_receipt_digest s = ct_receipt_digest r}"
proof -
  obtain r where r: "verify_content id ex_verifier ex_content_request = Inr r" using ex_verifies by blast
  have a: "vr_artifact ex_content_request = ex_content" by (simp add: ex_content_request_def)
  have "vr_artifact q = ex_content"
    if s: "verify_content id ex_verifier q = Inr s" "ct_receipt_digest s = ct_receipt_digest r" for q s
    using content_receipt_identifies [OF s(1) r s(2)] a by simp
  with r show ?thesis by blast
qed

section \<open>What the checks let through\<close>

text \<open>\<open>bytes.fromhex\<close> skips whitespace: 64 blanks pass as a digest.\<close>

lemma blank_digest_accepted: "need_digest label (''sha256:'' @ replicate 64 CHR '' '') = Inr ()"
proof -
  have "\<not> blank (''sha256:'' @ replicate 64 CHR '' '')" by code_simp
  moreover have "split_once CHR '':'' (''sha256:'' @ replicate 64 CHR '' '') = (''sha256'', replicate 64 CHR '' '')" by code_simp
  moreover have "fromhex (replicate 64 CHR '' '') = Inr []" by code_simp
  ultimately show ?thesis by (simp add: need_digest_def need_text_def)
qed

text \<open>The projection converts values with \<open>str\<close>: a null identifier becomes the text \<open>None\<close>.\<close>

lemma null_action_accepted:
  "envelope_from_projection (dict_set ''actionId'' JNull (envelope_members ex_first)) =
     Inr (ex_first\<lparr>en_action_id := ''None''\<rparr>)"
  by code_simp

end
