(* ===== verification/Admission_Guards.thy ===== *)
theory Admission_Guards
  imports Json_Objects
begin

text \<open>
  The admission decisions of the embodied-AI profile: providers that analyse but never authorize
  (\<open>embodied_ai_provider_non_authority.py\<close>), declarations that bear authority
  (\<open>embodied_ai_authority_declaration.py\<close>) and effects that are constrained
  (\<open>embodied_ai_constrained_effect.py\<close>), all under \<open>poo_flow_proof/\<close>. Each decision is a cascade of
  early returns; the theorems give the condition that the cascade decides and what it excludes.
\<close>

section \<open>AI providers\<close>

datatype issuer_kind = IssuerAiProvider | IssuerHumanAuthority | IssuerOrganizationalAuthority

datatype authority_role = EffectAuthorization | VerificationDischarge | ResidualRiskAcceptance

record provider_identity =
  pv_provider_id :: string
  pv_model_id :: string
  pv_input_context_id :: string
  pv_generation_version :: string

definition validation_errors :: "provider_identity \<Rightarrow> string list" where
  "validation_errors p = map fst (filter (\<lambda>(name, value). blank value)
     [(''provider_id'', pv_provider_id p), (''model_id'', pv_model_id p),
      (''input_context_id'', pv_input_context_id p), (''generation_version'', pv_generation_version p)])"

record analysis_candidate =
  ac_candidate_id :: string
  ac_provider :: provider_identity

text \<open>\<open>grants\<close> is a \<open>frozenset\<close>; of it only membership is used.\<close>

record authority_envelope =
  av_issuer_kind :: issuer_kind
  av_issuer_id :: string
  av_grants :: "authority_role list"

record provider_decision =
  pd_admitted :: bool
  pd_reason_kind :: string
  pd_role :: authority_role
  pd_candidate_id :: string
  pd_provider_id :: string
  pd_authority_id :: string

record provider_trace =
  pt_schema_id :: string
  pt_candidate :: analysis_candidate
  pt_authority :: authority_envelope
  pt_role :: authority_role
  pt_role_only_would_admit :: bool
  pt_decision :: provider_decision

definition role_only_admission :: "authority_envelope \<Rightarrow> authority_role \<Rightarrow> bool" where
  "role_only_admission a role \<longleftrightarrow> role \<in> set (av_grants a)"

definition evaluate_provider_admission ::
  "analysis_candidate \<Rightarrow> authority_envelope \<Rightarrow> authority_role \<Rightarrow> provider_trace" where
  "evaluate_provider_admission c a role =
     (let (admitted, reason) =
        (if blank (ac_candidate_id c) \<or> validation_errors (ac_provider c) \<noteq> [] then (False, ''provider-provenance-invalid'')
         else if av_issuer_kind a = IssuerAiProvider then (False, ''ai-provider-non-authority'')
         else if blank (av_issuer_id a) then (False, ''authority-id-missing'')
         else if role \<notin> set (av_grants a) then (False, ''authority-role-not-granted'')
         else (True, ''independent-authority-admitted''))
      in \<lparr>pt_schema_id = ''poo-flow.ai-security.provider-admission-trace.v1'', pt_candidate = c, pt_authority = a,
          pt_role = role, pt_role_only_would_admit = role_only_admission a role,
          pt_decision = \<lparr>pd_admitted = admitted, pd_reason_kind = reason, pd_role = role,
            pd_candidate_id = ac_candidate_id c, pd_provider_id = pv_provider_id (ac_provider c),
            pd_authority_id = av_issuer_id a\<rparr>\<rparr>)"

section \<open>Declarations that bear authority\<close>

datatype authority_act =
    DeclarationAuthority | ExecutionAuthority | EvidenceAuthority | VerificationAuthority
  | ResidualRiskAuthority | RecoveryAuthority

datatype authority_issuer_kind = HumanAuthority | CedarEngine | LeanEngine | AiProvider

record authorization_subject =
  sj_architecture_id :: string
  sj_bundle_digest :: string
  sj_policy_id :: string
  sj_resource_id :: string
  sj_action_id :: string
  sj_context_epoch :: int

record authority_receipt =
  au_receipt_id :: string
  au_issuer_id :: string
  au_issuer_kind :: authority_issuer_kind
  au_authority_act :: authority_act
  au_subject :: authorization_subject
  au_valid_from_epoch :: int
  au_valid_until_epoch :: int
  au_revoked_at_epoch :: "int option"
  au_receipt_valid :: bool
  au_delegation_root :: string
  au_responsibility_digest :: string

record authority_actors =
  at_proposer_id :: string
  at_approver_id :: string
  at_executor_id :: string

record declaration_request =
  dr_request_id :: string
  dr_candidate_id :: string
  dr_provider_id :: string
  dr_requested_act :: authority_act
  dr_current_subject :: authorization_subject
  dr_current_epoch :: int
  dr_declared_role :: string
  dr_receipt :: authority_receipt
  dr_actors :: authority_actors

record admission_decision =
  ad_admitted :: bool
  ad_reason_kind :: string
  ad_request_id :: string
  ad_requested_act :: authority_act
  ad_authority_id :: string

definition roles_populated_countermodel :: "declaration_request \<Rightarrow> bool" where
  "roles_populated_countermodel q \<longleftrightarrow> dr_declared_role q \<noteq> [] \<and> at_proposer_id (dr_actors q) \<noteq> [] \<and>
     at_approver_id (dr_actors q) \<noteq> [] \<and> at_executor_id (dr_actors q) \<noteq> []"

definition provider_fields_match_countermodel :: "declaration_request \<Rightarrow> bool" where
  "provider_fields_match_countermodel q \<longleftrightarrow> dr_candidate_id q = dr_provider_id q"

text \<open>The reason of the first check that fails, or the reason of an admission.\<close>

definition declaration_reason :: "declaration_request \<Rightarrow> bool \<times> string" where
  "declaration_reason q =
     (let r = dr_receipt q; a = dr_actors q; ids = [at_proposer_id a, at_approver_id a, at_executor_id a] in
      if dr_request_id q = [] \<or> dr_declared_role q = [] then (False, ''authority-declaration-incomplete'')
      else if au_issuer_kind r = AiProvider then (False, ''ai-provider-non-authority'')
      else if au_issuer_kind r \<noteq> HumanAuthority then (False, ''analysis-engine-non-authority'')
      else if \<not> au_receipt_valid r then (False, ''authority-receipt-invalid'')
      else if au_receipt_id r = [] \<or> au_issuer_id r = [] then (False, ''authority-receipt-identity-missing'')
      else if au_issuer_id r \<in> {dr_candidate_id q, dr_provider_id q} then (False, ''authority-not-independent'')
      else if au_authority_act r \<noteq> dr_requested_act q then (False, ''authority-act-mismatch'')
      else if au_subject r \<noteq> dr_current_subject q then (False, ''authority-subject-mismatch'')
      else if \<not> (au_valid_from_epoch r \<le> dr_current_epoch q \<and> dr_current_epoch q \<le> au_valid_until_epoch r)
      then (False, ''authority-context-stale'')
      else if (case au_revoked_at_epoch r of None \<Rightarrow> False | Some t \<Rightarrow> t \<le> dr_current_epoch q)
      then (False, ''authority-revoked'')
      else if au_delegation_root r = [] then (False, ''delegation-root-missing'')
      else if au_responsibility_digest r = [] then (False, ''responsibility-acceptance-missing'')
      else if [] \<in> set ids \<or> card (set ids) \<noteq> 3 then (False, ''separation-of-duties-violated'')
      else if at_approver_id a \<noteq> au_issuer_id r then (False, ''approver-authority-mismatch'')
      else if dr_candidate_id q \<in> set ids then (False, ''candidate-participates-in-authority-chain'')
      else (True, ''authority-bearing-declaration-admitted''))"

definition evaluate_declaration :: "declaration_request \<Rightarrow> admission_decision" where
  "evaluate_declaration q =
     (let (admitted, reason) = declaration_reason q in
      \<lparr>ad_admitted = admitted, ad_reason_kind = reason, ad_request_id = dr_request_id q,
       ad_requested_act = dr_requested_act q, ad_authority_id = au_issuer_id (dr_receipt q)\<rparr>)"

section \<open>Constrained effects\<close>

datatype effect_outcome = Applied | Duplicate | RolledBack | Recovered

datatype effect_reversibility = Reversible | Compensable | Irreversible

datatype recovery_phase = PhaseCommitted | PhaseRolledBack | PhaseCompensated | PhaseApplying

definition TERMINAL_PHASES :: "recovery_phase list" where
  "TERMINAL_PHASES = [PhaseCommitted, PhaseRolledBack, PhaseCompensated]"

record effect_authorization =
  ea_authority_id :: string
  ea_subject_id :: string
  ea_effect_id :: string
  ea_receipt_valid :: bool

record effect_obligation =
  ob_effect_id :: string
  ob_reversibility :: effect_reversibility

text \<open>\<open>PriorCommitReceipt\<close> and \<open>CompensationReceipt\<close> have the same fields.\<close>

record transaction_receipt =
  ts_transaction_id :: string
  ts_effect_id :: string
  ts_receipt_valid :: bool

record recovery_receipt =
  rv_transaction_id :: string
  rv_claimant_id :: string
  rv_fence_owner_id :: string
  rv_phase :: recovery_phase
  rv_receipt_valid :: bool

record effect_request =
  er_request_id :: string
  er_transaction_id :: string
  er_subject_id :: string
  er_effect_id :: string
  er_outcome :: effect_outcome
  er_authorization :: effect_authorization
  er_declared_obligations :: "effect_obligation list"
  er_observed_effect_ids :: "string list"
  er_prior_commits :: "transaction_receipt list"
  er_compensation_receipts :: "transaction_receipt list"
  er_recovery :: recovery_receipt

record effect_decision =
  ed_admitted :: bool
  ed_reason_kind :: string
  ed_request_id :: string
  ed_transaction_id :: string
  ed_effect_id :: string

definition has_valid_prior_commit :: "effect_request \<Rightarrow> bool" where
  "has_valid_prior_commit q \<longleftrightarrow> list_ex (\<lambda>r. ts_receipt_valid r \<and> ts_transaction_id r = er_transaction_id q \<and>
     ts_effect_id r = er_effect_id q) (er_prior_commits q)"

definition has_valid_compensation :: "effect_request \<Rightarrow> effect_obligation \<Rightarrow> bool" where
  "has_valid_compensation q ob \<longleftrightarrow> list_ex (\<lambda>r. ts_receipt_valid r \<and> ts_transaction_id r = er_transaction_id q \<and>
     ts_effect_id r = ob_effect_id ob) (er_compensation_receipts q)"

text \<open>The loop that collects the declared obligations; \<open>None\<close> is the early return.\<close>

fun obligation_table :: "effect_obligation pydict \<Rightarrow> effect_obligation list \<Rightarrow> effect_obligation pydict option" where
  "obligation_table table [] = Some table"
| "obligation_table table (ob # obs) =
     (if ob_effect_id ob = [] \<or> ob_effect_id ob \<in> set (dict_keys table) then None
      else obligation_table (dict_set (ob_effect_id ob) ob table) obs)"

definition recovery_reason :: "effect_request \<Rightarrow> bool \<times> string" where
  "recovery_reason q =
     (let r = er_recovery q in
      if \<not> rv_receipt_valid r then (False, ''recovery-receipt-invalid'')
      else if rv_transaction_id r \<noteq> er_transaction_id q then (False, ''recovery-transaction-mismatch'')
      else if rv_claimant_id r = [] \<or> rv_claimant_id r \<noteq> rv_fence_owner_id r then (False, ''recovery-fence-not-exclusive'')
      else if rv_phase r \<notin> set TERMINAL_PHASES then (False, ''recovery-not-terminal'')
      else (True, ''constrained-system-effect-admitted''))"

definition domain_reason :: "effect_request \<Rightarrow> effect_obligation pydict \<Rightarrow> bool \<times> string" where
  "domain_reason q table =
     (if \<not> distinct (er_observed_effect_ids q) then (False, ''effect-domain-invalid'')
      else if set (dict_keys table) \<noteq> set (er_observed_effect_ids q) then (False, ''effect-domain-coverage-incomplete'')
      else if dict_get table (er_effect_id q) = None then (False, ''requested-effect-outside-domain'')
      else if er_outcome q = Duplicate \<and> \<not> has_valid_prior_commit q then (False, ''duplicate-without-prior-commit'')
      else if er_outcome q \<in> {RolledBack, Recovered} \<and>
        list_ex (\<lambda>(_, ob). ob_reversibility ob = Irreversible) table then (False, ''irreversible-effect-not-recoverable'')
      else if er_outcome q \<in> {RolledBack, Recovered} \<and>
        list_ex (\<lambda>(_, ob). ob_reversibility ob = Compensable \<and> \<not> has_valid_compensation q ob) table
      then (False, ''compensation-evidence-missing'')
      else recovery_reason q)"

definition effect_reason :: "effect_request \<Rightarrow> bool \<times> string" where
  "effect_reason q =
     (let a = er_authorization q in
      if er_request_id q = [] \<or> er_transaction_id q = [] \<or> er_effect_id q = [] then (False, ''missing-effect-identity'')
      else if \<not> ea_receipt_valid a then (False, ''authorization-receipt-invalid'')
      else if ea_subject_id a \<noteq> er_subject_id q then (False, ''authorization-subject-mismatch'')
      else if ea_effect_id a \<noteq> er_effect_id q then (False, ''authorization-effect-mismatch'')
      else if ea_authority_id a = [] then (False, ''authorization-authority-missing'')
      else case obligation_table [] (er_declared_obligations q) of
        None \<Rightarrow> (False, ''effect-domain-invalid'')
      | Some table \<Rightarrow> domain_reason q table)"

definition evaluate_effect :: "effect_request \<Rightarrow> effect_decision" where
  "evaluate_effect q =
     (let (admitted, reason) = effect_reason q in
      \<lparr>ed_admitted = admitted, ed_reason_kind = reason, ed_request_id = er_request_id q,
       ed_transaction_id = er_transaction_id q, ed_effect_id = er_effect_id q\<rparr>)"

definition authorization_only_countermodel :: "effect_request \<Rightarrow> bool" where
  "authorization_only_countermodel q = ea_receipt_valid (er_authorization q)"

section \<open>What is admitted\<close>

text \<open>
  No AI provider holds authority: a provider's candidate is admitted exactly when its provenance
  is complete and an identified authority that is no AI provider grants the role. Whatever roles are
  granted, an AI issuer is refused, also where the policy that looks at the role alone admits it.
\<close>

theorem provider_never_authority:
  "pd_admitted (pt_decision (evaluate_provider_admission c a role)) \<longleftrightarrow>
     \<not> blank (ac_candidate_id c) \<and> \<not> blank (pv_provider_id (ac_provider c)) \<and> \<not> blank (pv_model_id (ac_provider c)) \<and>
     \<not> blank (pv_input_context_id (ac_provider c)) \<and> \<not> blank (pv_generation_version (ac_provider c)) \<and>
     av_issuer_kind a \<in> {IssuerHumanAuthority, IssuerOrganizationalAuthority} \<and> \<not> blank (av_issuer_id a) \<and>
     pt_role_only_would_admit (evaluate_provider_admission c a role)"
  by (cases "av_issuer_kind a")
    (simp_all add: evaluate_provider_admission_def validation_errors_def role_only_admission_def)

lemma three_actors:
  "[] \<notin> set [p, a, e] \<and> card (set [p, a, e]) = 3 \<longleftrightarrow> p \<noteq> [] \<and> a \<noteq> [] \<and> e \<noteq> [] \<and> p \<noteq> a \<and> p \<noteq> e \<and> a \<noteq> (e :: string)"
  by (auto simp: card_insert_if)

text \<open>
  A declaration is admitted exactly when a valid human receipt for the requested act and the
  current subject, in force and not revoked, with its delegation and responsibility, is approved by
  its issuer among three different actors, and neither the candidate nor the provider has any part
  in the authority. The decision names the authority that approved.
\<close>

theorem declaration_admitted_iff:
  "ad_admitted (evaluate_declaration q) \<longleftrightarrow>
     (let r = dr_receipt q; a = dr_actors q in
      dr_request_id q \<noteq> [] \<and> dr_declared_role q \<noteq> [] \<and>
      au_issuer_kind r = HumanAuthority \<and> au_receipt_valid r \<and> au_receipt_id r \<noteq> [] \<and>
      au_authority_act r = dr_requested_act q \<and> au_subject r = dr_current_subject q \<and>
      dr_current_epoch q \<in> {au_valid_from_epoch r .. au_valid_until_epoch r} \<and>
      (case au_revoked_at_epoch r of None \<Rightarrow> True | Some t \<Rightarrow> dr_current_epoch q < t) \<and>
      au_delegation_root r \<noteq> [] \<and> au_responsibility_digest r \<noteq> [] \<and>
      at_approver_id a = au_issuer_id r \<and> distinct [at_proposer_id a, at_approver_id a, at_executor_id a] \<and>
      [] \<notin> {at_proposer_id a, at_approver_id a, at_executor_id a} \<and>
      dr_candidate_id q \<notin> {at_proposer_id a, at_approver_id a, at_executor_id a} \<and> dr_provider_id q \<noteq> au_issuer_id r)"
proof -
  have "(let (admitted, reason) = x in \<lparr>ad_admitted = admitted, ad_reason_kind = reason, ad_request_id = i,
      ad_requested_act = t, ad_authority_id = u\<rparr>) = \<lparr>ad_admitted = fst x, ad_reason_kind = snd x, ad_request_id = i,
      ad_requested_act = t, ad_authority_id = u\<rparr>" for x i t u by (cases x) simp
  then show ?thesis
    using three_actors [of "at_proposer_id (dr_actors q)" "at_approver_id (dr_actors q)" "at_executor_id (dr_actors q)"]
    unfolding evaluate_declaration_def declaration_reason_def Let_def
    by (cases "au_issuer_kind (dr_receipt q)"; cases "au_revoked_at_epoch (dr_receipt q)") (auto split: if_splits)
qed


text \<open>The obligations are collected when their effects are named and distinct.\<close>

lemma obligation_table_eq:
  "obligation_table table obs =
     (if [] \<notin> ob_effect_id ` set obs \<and> distinct (map ob_effect_id obs) \<and> set (dict_keys table) \<inter> ob_effect_id ` set obs = {}
      then Some (table @ map (\<lambda>ob. (ob_effect_id ob, ob)) obs) else None)"
proof (induction table obs rule: obligation_table.induct)
  case (2 table ob obs)
  show ?case
  proof (cases "ob_effect_id ob = [] \<or> ob_effect_id ob \<in> set (dict_keys table)")
    case True
    then show ?thesis by auto
  next
    case False
    then have f: "dict_set (ob_effect_id ob) ob table = table @ [(ob_effect_id ob, ob)]" by (simp add: dict_set_fresh)
    show ?thesis using False 2 [OF False] by (auto simp: f)
  qed
qed simp

text \<open>What a constrained effect demands, without the order of the checks.\<close>

definition effect_constrained :: "effect_request \<Rightarrow> bool" where
  "effect_constrained q \<longleftrightarrow>
     (let a = er_authorization q; obs = er_declared_obligations q; r = er_recovery q in
      er_request_id q \<noteq> [] \<and> er_transaction_id q \<noteq> [] \<and> er_effect_id q \<noteq> [] \<and>
      ea_receipt_valid a \<and> ea_subject_id a = er_subject_id q \<and> ea_effect_id a = er_effect_id q \<and> ea_authority_id a \<noteq> [] \<and>
      [] \<notin> ob_effect_id ` set obs \<and> distinct (map ob_effect_id obs) \<and> distinct (er_observed_effect_ids q) \<and>
      set (er_observed_effect_ids q) = ob_effect_id ` set obs \<and> er_effect_id q \<in> ob_effect_id ` set obs \<and>
      (er_outcome q = Duplicate \<longrightarrow> has_valid_prior_commit q) \<and>
      (er_outcome q \<in> {RolledBack, Recovered} \<longrightarrow> (\<forall>ob \<in> set obs. ob_reversibility ob = Reversible \<or>
         ob_reversibility ob = Compensable \<and> has_valid_compensation q ob)) \<and>
      rv_receipt_valid r \<and> rv_transaction_id r = er_transaction_id q \<and> rv_claimant_id r \<noteq> [] \<and>
      rv_claimant_id r = rv_fence_owner_id r \<and> rv_phase r \<noteq> PhaseApplying)"

lemma not_terminal: "ph \<in> set TERMINAL_PHASES \<longleftrightarrow> ph \<noteq> PhaseApplying"
  by (cases ph) (simp_all add: TERMINAL_PHASES_def)

lemma recovery_iff:
  "fst (recovery_reason q) \<longleftrightarrow> (let r = er_recovery q in rv_receipt_valid r \<and> rv_transaction_id r = er_transaction_id q \<and>
     rv_claimant_id r \<noteq> [] \<and> rv_claimant_id r = rv_fence_owner_id r \<and> rv_phase r \<noteq> PhaseApplying)"
  unfolding recovery_reason_def Let_def not_terminal by auto

lemma recoverable_iff:
  "\<not> (\<exists>ob \<in> A. ob_reversibility ob = Irreversible) \<and> \<not> (\<exists>ob \<in> A. ob_reversibility ob = Compensable \<and> \<not> C ob) \<longleftrightarrow>
   (\<forall>ob \<in> A. ob_reversibility ob = Reversible \<or> ob_reversibility ob = Compensable \<and> C ob)"
  by (metis effect_reversibility.exhaust effect_reversibility.distinct)

lemma domain_iff:
  "fst (domain_reason q (map (\<lambda>ob. (ob_effect_id ob, ob)) obs)) \<longleftrightarrow>
     distinct (er_observed_effect_ids q) \<and> set (er_observed_effect_ids q) = ob_effect_id ` set obs \<and>
     er_effect_id q \<in> ob_effect_id ` set obs \<and> (er_outcome q = Duplicate \<longrightarrow> has_valid_prior_commit q) \<and>
     (er_outcome q \<in> {RolledBack, Recovered} \<longrightarrow> (\<forall>ob \<in> set obs. ob_reversibility ob = Reversible \<or>
         ob_reversibility ob = Compensable \<and> has_valid_compensation q ob)) \<and> fst (recovery_reason q)"
proof -
  let ?t = "map (\<lambda>ob. (ob_effect_id ob, ob)) obs"
  have k: "set (dict_keys ?t) = ob_effect_id ` set obs" by (simp add: comp_def)
  have n: "dict_get ?t (er_effect_id q) = None \<longleftrightarrow> er_effect_id q \<notin> ob_effect_id ` set obs"
    by (simp add: map_of_eq_None_iff comp_def image_image)
  have e: "list_ex (\<lambda>(_, ob). P ob) ?t \<longleftrightarrow> (\<exists>ob \<in> set obs. P ob)" for P by (simp add: list_ex_iff)
  show ?thesis
    unfolding domain_reason_def k n e recoverable_iff [symmetric] by auto
qed

text \<open>
  An effect is admitted exactly when it is constrained: authorized for its subject, its declared
  effects are the observed ones, a duplicate has a prior commit, whatever is undone can be undone
  or is compensated, and the recovery is exclusively fenced and over. A valid authorization, which is
  all that the counter-model looks at, is one condition of many.
\<close>

theorem effect_admitted_iff: "ed_admitted (evaluate_effect q) \<longleftrightarrow> effect_constrained q"
proof -
  have "(let (admitted, reason) = x in \<lparr>ed_admitted = admitted, ed_reason_kind = reason, ed_request_id = i,
      ed_transaction_id = t, ed_effect_id = u\<rparr>) = \<lparr>ed_admitted = fst x, ed_reason_kind = snd x, ed_request_id = i,
      ed_transaction_id = t, ed_effect_id = u\<rparr>" for x i t u by (cases x) simp
  then have "ed_admitted (evaluate_effect q) \<longleftrightarrow> fst (effect_reason q)" by (simp add: evaluate_effect_def)
  also have "\<dots> \<longleftrightarrow> effect_constrained q"
  proof (cases "[] \<notin> ob_effect_id ` set (er_declared_obligations q) \<and> distinct (map ob_effect_id (er_declared_obligations q))")
    case True
    then have t: "obligation_table [] (er_declared_obligations q) = Some (map (\<lambda>ob. (ob_effect_id ob, ob)) (er_declared_obligations q))"
      by (simp add: obligation_table_eq)
    show ?thesis
      unfolding effect_reason_def Let_def t option.case effect_constrained_def
      using True domain_iff [of q "er_declared_obligations q"] recovery_iff [of q] by (simp add: Let_def)
  next
    case False
    then have t: "obligation_table [] (er_declared_obligations q) = None" by (subst obligation_table_eq) auto
    from False show ?thesis unfolding effect_reason_def Let_def t option.case effect_constrained_def by auto
  qed
  finally show ?thesis .
qed

end
