(* ===== verification/Relation_Graph.thy ===== *)
theory Relation_Graph
  imports Json_Objects
begin

text \<open>
  Typed security relations and the impact of a change
  (\<open>poo_flow_proof/embodied_ai_security_relation_graph.py\<close>): the validation of a graph, its digest, and
  the projection of a set of changed nodes to what must be verified again. SHA-256 is a parameter.
\<close>

section \<open>Graphs\<close>

datatype node_kind =
    SystemComponent | Asset | Threat | Risk | SecurityRequirement | Control | VerificationEvidence
  | ResidualRisk | AuthorityAcceptance | RunFeedback

fun node_kind_value :: "node_kind \<Rightarrow> string" where
  "node_kind_value SystemComponent = ''system-component''"
| "node_kind_value Asset = ''asset''"
| "node_kind_value Threat = ''threat''"
| "node_kind_value Risk = ''risk''"
| "node_kind_value SecurityRequirement = ''security-requirement''"
| "node_kind_value Control = ''control''"
| "node_kind_value VerificationEvidence = ''verification-evidence''"
| "node_kind_value ResidualRisk = ''residual-risk''"
| "node_kind_value AuthorityAcceptance = ''authority-acceptance''"
| "node_kind_value RunFeedback = ''run-feedback''"

datatype relation_kind =
    Owns | ExposedTo | Realizes | Derives | ImplementedBy | VerifiedBy | Leaves | AcceptedBy | ObservedBy

fun relation_kind_value :: "relation_kind \<Rightarrow> string" where
  "relation_kind_value Owns = ''owns''"
| "relation_kind_value ExposedTo = ''exposed-to''"
| "relation_kind_value Realizes = ''realizes''"
| "relation_kind_value Derives = ''derives''"
| "relation_kind_value ImplementedBy = ''implemented-by''"
| "relation_kind_value VerifiedBy = ''verified-by''"
| "relation_kind_value Leaves = ''leaves''"
| "relation_kind_value AcceptedBy = ''accepted-by''"
| "relation_kind_value ObservedBy = ''observed-by''"

fun allowed_kinds :: "relation_kind \<Rightarrow> node_kind \<times> node_kind" where
  "allowed_kinds Owns = (SystemComponent, Asset)"
| "allowed_kinds ExposedTo = (Asset, Threat)"
| "allowed_kinds Realizes = (Threat, Risk)"
| "allowed_kinds Derives = (Risk, SecurityRequirement)"
| "allowed_kinds ImplementedBy = (SecurityRequirement, Control)"
| "allowed_kinds VerifiedBy = (Control, VerificationEvidence)"
| "allowed_kinds Leaves = (Risk, ResidualRisk)"
| "allowed_kinds AcceptedBy = (ResidualRisk, AuthorityAcceptance)"
| "allowed_kinds ObservedBy = (SystemComponent, RunFeedback)"

record architecture_node =
  an_node_id :: string
  an_kind :: node_kind

record architecture_relation =
  rl_relation_id :: string
  rl_kind :: relation_kind
  rl_source_id :: string
  rl_target_id :: string
  rl_forward :: bool
  rl_evidence_requirements :: "string list"

record relation_graph =
  rg_graph_id :: string
  rg_nodes :: "architecture_node list"
  rg_relations :: "architecture_relation list"

record graph_validation =
  gv_admitted :: bool
  gv_issues :: "string list"

record change_receipt =
  cg_schema_id :: string
  cg_graph_id :: string
  cg_graph_digest :: string
  cg_changed :: "string list"
  cg_affected :: "string list"
  cg_invalidated_evidence :: "string list"
  cg_invalidated_acceptance :: "string list"
  cg_reopened :: "string list"
  cg_trace_root :: string

abbreviation json_texts :: "string list \<Rightarrow> json" where
  "json_texts ss \<equiv> JList (map JStr ss)"

definition change_dict :: "change_receipt \<Rightarrow> json" where
  "change_dict r = JObj
     [(''affectedNodeIds'', json_texts (cg_affected r)), (''changedNodeIds'', json_texts (cg_changed r)),
      (''graphDigest'', JStr (cg_graph_digest r)), (''graphId'', JStr (cg_graph_id r)),
      (''invalidatedAcceptanceIds'', json_texts (cg_invalidated_acceptance r)),
      (''invalidatedEvidenceIds'', json_texts (cg_invalidated_evidence r)),
      (''reopenedVerificationObligations'', json_texts (cg_reopened r)),
      (''schemaId'', JStr (cg_schema_id r)), (''traceRoot'', JStr (cg_trace_root r))]"

definition rg_digest_of :: "(bytes \<Rightarrow> bytes) \<Rightarrow> json \<Rightarrow> string" where
  "rg_digest_of sha v = ''sha256:'' @ hex (sha (canonical_ascii_json v))"

definition relation_graph_json :: "relation_graph \<Rightarrow> json" where
  "relation_graph_json g = JObj
     [(''graphId'', JStr (rg_graph_id g)),
      (''nodes'', JList (map (\<lambda>n. JObj [(''kind'', JStr (node_kind_value (an_kind n))), (''nodeId'', JStr (an_node_id n))])
         (sort_key an_node_id (rg_nodes g)))),
      (''relations'', JList (map (\<lambda>r. JObj
          [(''evidenceRequirements'', json_texts (sort (rl_evidence_requirements r))), (''forward'', JBool (rl_forward r)),
           (''kind'', JStr (relation_kind_value (rl_kind r))), (''relationId'', JStr (rl_relation_id r)),
           (''sourceId'', JStr (rl_source_id r)), (''targetId'', JStr (rl_target_id r))])
         (sort_key rl_relation_id (rg_relations g))))]"

definition relation_graph_digest :: "(bytes \<Rightarrow> bytes) \<Rightarrow> relation_graph \<Rightarrow> string" where
  "relation_graph_digest sha g = rg_digest_of sha (relation_graph_json g)"

section \<open>Validation\<close>

text \<open>The loop over the nodes: the table of nodes and the issues so far.\<close>

fun scan_nodes ::
  "architecture_node list \<Rightarrow> architecture_node pydict \<Rightarrow> string list \<Rightarrow> architecture_node pydict \<times> string list" where
  "scan_nodes [] table issues = (table, issues)"
| "scan_nodes (n # ns) table issues =
     (if an_node_id n = [] then scan_nodes ns table (issues @ [''empty-node-id''])
      else if an_node_id n \<in> set (dict_keys table)
      then scan_nodes ns table (issues @ [''duplicate-node:'' @ an_node_id n])
      else scan_nodes ns (dict_set (an_node_id n) n table) issues)"

definition relation_issues :: "architecture_node pydict \<Rightarrow> string list \<Rightarrow> architecture_relation \<Rightarrow> string list" where
  "relation_issues table seen r =
     (let source = dict_get table (rl_source_id r); target = dict_get table (rl_target_id r) in
      (if rl_relation_id r = [] then [''empty-relation-id'']
       else if rl_relation_id r \<in> set seen then [''duplicate-relation:'' @ rl_relation_id r] else []) @
      (if source = None then [''missing-source:'' @ rl_relation_id r] else []) @
      (if target = None then [''missing-target:'' @ rl_relation_id r] else []) @
      (if \<not> rl_forward r then [''non-forward-relation:'' @ rl_relation_id r] else []) @
      (if rl_evidence_requirements r = [] then [''missing-evidence-requirement:'' @ rl_relation_id r] else []) @
      (case (source, target) of
         (Some s, Some t) \<Rightarrow> if (an_kind s, an_kind t) \<noteq> allowed_kinds (rl_kind r)
                           then [''relation-kind-mismatch:'' @ rl_relation_id r] else []
       | _ \<Rightarrow> []))"

fun scan_relations ::
  "architecture_node pydict \<Rightarrow> architecture_relation list \<Rightarrow> string list \<Rightarrow> string list \<Rightarrow> string list" where
  "scan_relations table [] seen issues = issues"
| "scan_relations table (r # rs) seen issues =
     scan_relations table rs (rl_relation_id r # seen) (issues @ relation_issues table seen r)"

definition validate_relation_graph :: "relation_graph \<Rightarrow> graph_validation" where
  "validate_relation_graph g =
     (let start = (if rg_graph_id g = [] then [''empty-graph-id''] else []);
          (table, issues1) = scan_nodes (rg_nodes g) [] start;
          issues = scan_relations table (rg_relations g) [] issues1
      in \<lparr>gv_admitted = (issues = []), gv_issues = sort (remdups issues)\<rparr>)"

section \<open>The impact of a change\<close>

definition outgoing_table :: "relation_graph \<Rightarrow> string list pydict" where
  "outgoing_table g = fold (\<lambda>r d. dd_append (rl_source_id r) (rl_target_id r) d) (rg_relations g) []"

text \<open>The inner loop: the targets that are new, added to the affected nodes and to the frontier.\<close>

fun visit_targets :: "string list \<Rightarrow> string list \<Rightarrow> string list \<Rightarrow> string list \<times> string list" where
  "visit_targets [] affected frontier = (affected, frontier)"
| "visit_targets (t # ts) affected frontier =
     (if t \<in> set affected then visit_targets ts affected frontier
      else visit_targets ts (affected @ [t]) (frontier @ [t]))"

definition open_targets :: "string list pydict \<Rightarrow> string list \<Rightarrow> string set" where
  "open_targets outgoing affected = set (concat (map snd outgoing)) - set affected"

lemma visit_measure:
  "set ts \<subseteq> set (concat (map snd outgoing)) \<Longrightarrow> visit_targets ts affected frontier = (a, f) \<Longrightarrow>
   2 * card (open_targets outgoing a) + length f \<le> 2 * card (open_targets outgoing affected) + length frontier"
proof (induction ts affected frontier rule: visit_targets.induct)
  case (2 t ts affected frontier)
  show ?case
  proof (cases "t \<in> set affected")
    case True
    with 2 show ?thesis by simp
  next
    case False
    have e: "open_targets outgoing (affected @ [t]) = open_targets outgoing affected - {t}" by (auto simp: open_targets_def)
    have "t \<in> open_targets outgoing affected" using 2(3) False by (auto simp: open_targets_def)
    moreover have "finite (open_targets outgoing affected)" by (simp add: open_targets_def)
    ultimately have "card (open_targets outgoing affected) = Suc (card (open_targets outgoing (affected @ [t])))"
      unfolding e by (rule card.remove [rotated])
    with 2(2) [OF False] 2(3,4) False show ?thesis by simp
  qed
qed simp

lemma dd_get_subset: "set (dd_get d k) \<subseteq> set (concat (map snd d))"
  by (force simp: dd_get_def split: option.splits dest!: map_of_SomeD [OF sym] map_of_SomeD)

function impact_loop :: "string list pydict \<Rightarrow> string list \<Rightarrow> string list \<Rightarrow> string list" where
  "impact_loop outgoing affected frontier =
     (if frontier = [] then affected
      else let (a, f) = visit_targets (sort (dd_get outgoing (last frontier))) affected (butlast frontier)
           in impact_loop outgoing a f)"
  by pat_completeness auto
termination
proof (relation "measure (\<lambda>(outgoing, affected, frontier). 2 * card (open_targets outgoing affected) + length frontier)")
  fix outgoing affected and frontier a f :: "string list" and x
  assume n: "frontier \<noteq> []" and x: "x = visit_targets (sort (dd_get outgoing (last frontier))) affected (butlast frontier)"
    and "(a, f) = x"
  then have "visit_targets (sort (dd_get outgoing (last frontier))) affected (butlast frontier) = (a, f)" by simp
  from visit_measure [OF _ this, of outgoing] dd_get_subset [of outgoing]
  have "2 * card (open_targets outgoing a) + length f \<le>
      2 * card (open_targets outgoing affected) + length (butlast frontier)" by simp
  moreover have "length (butlast frontier) < length frontier" using n by simp
  ultimately show "((outgoing, a, f), (outgoing, affected, frontier))
      \<in> measure (\<lambda>(outgoing, affected, frontier). 2 * card (open_targets outgoing affected) + length frontier)"
    by simp
qed simp

declare impact_loop.simps [simp del]

definition affected_of_kind :: "architecture_node pydict \<Rightarrow> node_kind \<Rightarrow> string list \<Rightarrow> string list" where
  "affected_of_kind table kind ids =
     filter (\<lambda>i. case dict_get table i of None \<Rightarrow> False | Some n \<Rightarrow> an_kind n = kind) ids"

definition CHANGE_SCHEMA :: string where
  "CHANGE_SCHEMA = ''poo-flow.ai-security.change-impact-receipt.v1''"

definition project_change :: "(bytes \<Rightarrow> bytes) \<Rightarrow> relation_graph \<Rightarrow> string list \<Rightarrow> string + change_receipt" where
  "project_change sha g changed_ids =
     (let v = validate_relation_graph g in
      if \<not> gv_admitted v then Inl (''invalid-typed-relation-graph:'' @ str_join '','' (gv_issues v))
      else
      let table = dict_of (map (\<lambda>n. (an_node_id n, n)) (rg_nodes g));
          changed = sort (remdups changed_ids);
          missing = filter (\<lambda>i. i \<notin> set (dict_keys table)) changed in
      if changed = [] then Inl ''empty-change-set''
      else if missing \<noteq> [] then Inl (''unknown-changed-node:'' @ str_join '','' missing)
      else
      let affected = sort (impact_loop (outgoing_table g) changed changed);
          evidence = affected_of_kind table VerificationEvidence affected;
          acceptance = affected_of_kind table AuthorityAcceptance affected;
          reopened = map (\<lambda>i. ''verify:'' @ i) (affected_of_kind table Control affected);
          payload = JObj
            [(''affectedNodeIds'', json_texts affected), (''changedNodeIds'', json_texts changed),
             (''graphDigest'', JStr (relation_graph_digest sha g)), (''graphId'', JStr (rg_graph_id g)),
             (''invalidatedAcceptanceIds'', json_texts acceptance), (''invalidatedEvidenceIds'', json_texts evidence),
             (''reopenedVerificationObligations'', json_texts reopened), (''schemaId'', JStr CHANGE_SCHEMA)]
      in Inr \<lparr>cg_schema_id = CHANGE_SCHEMA, cg_graph_id = rg_graph_id g, cg_graph_digest = relation_graph_digest sha g,
              cg_changed = changed, cg_affected = affected, cg_invalidated_evidence = evidence,
              cg_invalidated_acceptance = acceptance, cg_reopened = reopened, cg_trace_root = rg_digest_of sha payload\<rparr>)"

end
