(* ===== verification/Relation_Graph_Props.thy ===== *)
theory Relation_Graph_Props
  imports Relation_Graph
begin

text \<open>
  A graph is admitted exactly when it is typed, and the impact of a change is exactly what can be
  reached from it.
\<close>

section \<open>Which graphs are admitted\<close>

definition relation_typed :: "architecture_node list \<Rightarrow> architecture_relation \<Rightarrow> bool" where
  "relation_typed ns r \<longleftrightarrow> rl_relation_id r \<noteq> [] \<and> rl_forward r \<and> rl_evidence_requirements r \<noteq> [] \<and>
     (\<exists>s \<in> set ns. \<exists>t \<in> set ns. an_node_id s = rl_source_id r \<and> an_node_id t = rl_target_id r \<and>
        (an_kind s, an_kind t) = allowed_kinds (rl_kind r))"

definition graph_typed :: "relation_graph \<Rightarrow> bool" where
  "graph_typed g \<longleftrightarrow> rg_graph_id g \<noteq> [] \<and> [] \<notin> an_node_id ` set (rg_nodes g) \<and>
     distinct (map an_node_id (rg_nodes g)) \<and> distinct (map rl_relation_id (rg_relations g)) \<and>
     (\<forall>r \<in> set (rg_relations g). relation_typed (rg_nodes g) r)"

abbreviation node_pairs :: "architecture_node list \<Rightarrow> architecture_node pydict" where
  "node_pairs ns \<equiv> map (\<lambda>n. (an_node_id n, n)) ns"

lemma scan_nodes_issues: "\<exists>more. snd (scan_nodes ns table issues) = issues @ more"
  by (induction ns table issues rule: scan_nodes.induct) auto

lemma scan_nodes_ok:
  "snd (scan_nodes ns table issues) = [] \<longleftrightarrow>
     issues = [] \<and> [] \<notin> an_node_id ` set ns \<and> distinct (map an_node_id ns) \<and> set (dict_keys table) \<inter> an_node_id ` set ns = {}"
proof (induction ns table issues rule: scan_nodes.induct)
  case (2 n ns table issues)
  show ?case
  proof (cases "an_node_id n = [] \<or> an_node_id n \<in> set (dict_keys table)")
    case True
    then show ?thesis
      using scan_nodes_issues [of ns table "issues @ [''empty-node-id'']"]
        scan_nodes_issues [of ns table "issues @ [''duplicate-node:'' @ an_node_id n]"] by auto
  next
    case False
    then have f: "dict_set (an_node_id n) n table = table @ [(an_node_id n, n)]" by (simp add: dict_set_fresh)
    have "scan_nodes (n # ns) table issues = scan_nodes ns (table @ [(an_node_id n, n)]) issues" using False f by simp
    then show ?thesis using 2(3) False unfolding f by auto
  qed
qed auto

lemma scan_nodes_table:
  "snd (scan_nodes ns table issues) = [] \<Longrightarrow> fst (scan_nodes ns table issues) = table @ node_pairs ns"
proof (induction ns table issues rule: scan_nodes.induct)
  case (2 n ns table issues)
  then have ok: "\<not> (an_node_id n = [] \<or> an_node_id n \<in> set (dict_keys table))" unfolding scan_nodes_ok by auto
  then have f: "dict_set (an_node_id n) n table = table @ [(an_node_id n, n)]" by (simp add: dict_set_fresh)
  have "scan_nodes (n # ns) table issues = scan_nodes ns (table @ [(an_node_id n, n)]) issues" using ok f by simp
  then show ?case using 2(3) ok 2(4) unfolding f by simp
qed simp

lemma relation_issues_ok:
  assumes "distinct (map an_node_id ns)"
  shows "relation_issues (node_pairs ns) seen r = [] \<longleftrightarrow> rl_relation_id r \<notin> set seen \<and> relation_typed ns r"
proof -
  have g: "dict_get (node_pairs ns) i = Some n \<longleftrightarrow> n \<in> set ns \<and> an_node_id n = i" for i n
    using assms by (subst map_of_eq_Some_iff) (auto simp: comp_def)
  have "relation_typed ns r \<longleftrightarrow> rl_relation_id r \<noteq> [] \<and> rl_forward r \<and> rl_evidence_requirements r \<noteq> [] \<and>
      (\<exists>s t. dict_get (node_pairs ns) (rl_source_id r) = Some s \<and> dict_get (node_pairs ns) (rl_target_id r) = Some t \<and>
        (an_kind s, an_kind t) = allowed_kinds (rl_kind r))"
    unfolding relation_typed_def g by blast
  then show ?thesis
    by (cases "dict_get (node_pairs ns) (rl_source_id r)"; cases "dict_get (node_pairs ns) (rl_target_id r)")
      (auto simp: relation_issues_def Let_def)
qed

lemma scan_relations_ok:
  assumes "distinct (map an_node_id ns)"
  shows "scan_relations (node_pairs ns) rs seen issues = [] \<longleftrightarrow>
     issues = [] \<and> distinct (map rl_relation_id rs) \<and> set seen \<inter> rl_relation_id ` set rs = {} \<and> (\<forall>r \<in> set rs. relation_typed ns r)"
  by (induction rs arbitrary: seen issues) (auto simp: relation_issues_ok [OF assms])

lemma admitted_typed: "gv_admitted (validate_relation_graph g) \<longleftrightarrow> graph_typed g"
proof -
  let ?s = "if rg_graph_id g = [] then [''empty-graph-id''] else []"
  obtain table issues where s: "scan_nodes (rg_nodes g) [] ?s = (table, issues)" by force
  have o: "\<exists>more. scan_relations t rs seen is = is @ more" for t rs seen "is"
    by (induction rs arbitrary: seen "is") (simp_all, metis append_assoc)
  note ok = scan_nodes_ok [of "rg_nodes g" "[]" ?s, unfolded s]
  have a: "gv_admitted (validate_relation_graph g) \<longleftrightarrow> scan_relations table (rg_relations g) [] issues = []"
    unfolding validate_relation_graph_def Let_def s by simp
  show ?thesis
  proof (cases "issues = []")
    case True
    with ok have d: "distinct (map an_node_id (rg_nodes g))" "[] \<notin> an_node_id ` set (rg_nodes g)" "rg_graph_id g \<noteq> []"
      by (auto split: if_splits)
    have "table = node_pairs (rg_nodes g)" using scan_nodes_table [of "rg_nodes g" "[]" ?s] s True by simp
    with a scan_relations_ok [OF d(1), of "rg_relations g" "[]" issues] d True show ?thesis by (simp add: graph_typed_def)
  next
    case False
    with o [of table "rg_relations g" "[]" issues] have "\<not> gv_admitted (validate_relation_graph g)" unfolding a by auto
    moreover have "\<not> graph_typed g" using ok False by (auto simp: graph_typed_def split: if_splits)
    ultimately show ?thesis by simp
  qed
qed

text \<open>
  Validation admits exactly the typed graphs: named, with distinct identifiers, whose relations
  are forward, carry evidence requirements and join two nodes of the kinds that their own kind allows.
\<close>

theorem relation_graph_admitted_iff: "gv_admitted (validate_relation_graph g) \<longleftrightarrow> graph_typed g"
  by (rule admitted_typed)

section \<open>The impact of a change\<close>

definition links :: "relation_graph \<Rightarrow> (string \<times> string) set" where
  "links g = (\<lambda>r. (rl_source_id r, rl_target_id r)) ` set (rg_relations g)"

lemma outgoing_fold:
  "set (dd_get (fold (\<lambda>r d. dd_append (rl_source_id r) (rl_target_id r) d) rs d) k) =
     set (dd_get d k) \<union> rl_target_id ` {r \<in> set rs. rl_source_id r = k}"
  by (induction rs arbitrary: d) auto

lemma outgoing_links: "set (dd_get (outgoing_table g) k) = links g `` {k}"
  by (auto simp: outgoing_table_def outgoing_fold links_def)

lemma visit_targets_sets:
  "visit_targets ts affected frontier = (a, f) \<Longrightarrow> set a = set affected \<union> set ts \<and>
   set f = set frontier \<union> (set ts - set affected) \<and> (distinct affected \<longrightarrow> distinct a)"
proof (induction ts affected frontier rule: visit_targets.induct)
  case (2 t ts affected frontier)
  then show ?case by (cases "t \<in> set affected") auto
qed simp

lemma rtrancl_image_closed: "R `` A \<subseteq> A \<Longrightarrow> R\<^sup>* `` A = A"
  by (rule Image_closed_trancl)

lemma impact_loop_reach:
  assumes "\<And>k. set (dd_get outgoing k) = R `` {k}"
    and "set frontier \<subseteq> set affected" and "\<And>x. x \<in> set affected - set frontier \<Longrightarrow> R `` {x} \<subseteq> set affected"
  shows "set (impact_loop outgoing affected frontier) = R\<^sup>* `` set affected"
  using assms(2,3)
proof (induction "(affected, frontier)" arbitrary: affected frontier rule: measure_induct_rule
    [where f = "\<lambda>(affected, frontier). 2 * card (open_targets outgoing affected) + length frontier"])
  case (less affected frontier)
  show ?case
  proof (cases "frontier = []")
    case True
    with less(3) have "R `` set affected \<subseteq> set affected" by auto
    from rtrancl_image_closed [OF this] show ?thesis using True impact_loop.simps [of outgoing affected "[]"] by simp
  next
    case False
    let ?x = "last frontier"
    obtain a f where v: "visit_targets (sort (dd_get outgoing ?x)) affected (butlast frontier) = (a, f)" by force
    note s = visit_targets_sets [OF v, unfolded set_sort assms(1)]
    have x: "?x \<in> set affected" "set frontier = insert ?x (set (butlast frontier))"
      using False less(2) by (cases frontier rule: rev_cases; simp)+
    have "set (sort (dd_get outgoing ?x)) \<subseteq> set (concat (map snd outgoing))" using dd_get_subset by (simp only: set_sort)
    from visit_measure [OF this v] False
    have less': "2 * card (open_targets outgoing a) + length f < 2 * card (open_targets outgoing affected) + length frontier"
      by (cases frontier rule: rev_cases) simp_all
    have sub: "set f \<subseteq> set a" using s x less(2) by auto
    have closed: "R `` {y} \<subseteq> set a" if y: "y \<in> set a - set f" for y
    proof (cases "y = ?x")
      case True
      then show ?thesis using s by blast
    next
      case False
      with y s x(2) have "y \<in> set affected - set frontier" by blast
      from less(3) [OF this] s show ?thesis by blast
    qed
    have "set (impact_loop outgoing a f) = R\<^sup>* `` set a" by (rule less(1)) (use less' sub closed in simp_all)
    also have "\<dots> = R\<^sup>* `` set affected"
    proof
      have "R `` {?x} \<subseteq> R\<^sup>* `` set affected" using x(1) by blast
      with s have "set a \<subseteq> R\<^sup>* `` set affected" by blast
      then show "R\<^sup>* `` set a \<subseteq> R\<^sup>* `` set affected" by (auto dest: subsetD elim!: ImageE intro: rtrancl_trans)
      show "R\<^sup>* `` set affected \<subseteq> R\<^sup>* `` set a" using s by blast
    qed
    finally show ?thesis unfolding impact_loop.simps [of _ _ frontier] using False v by simp
  qed
qed


lemma impact_loop_distinct: "distinct affected \<Longrightarrow> distinct (impact_loop outgoing affected frontier)"
proof (induction outgoing affected frontier rule: impact_loop.induct)
  case (1 outgoing affected frontier)
  show ?case
  proof (cases "frontier = []")
    case True
    with 1(2) show ?thesis by (subst impact_loop.simps) simp
  next
    case False
    obtain a f where v: "visit_targets (sort (dd_get outgoing (last frontier))) affected (butlast frontier) = (a, f)" by force
    with visit_targets_sets [OF v] 1(2) have "distinct a" by simp
    from 1(1) [OF False HOL.refl _ this] v have "distinct (impact_loop outgoing a f)" by simp
    with False v show ?thesis by (subst impact_loop.simps) simp
  qed
qed

text \<open>The nodes of a kind among the affected ones.\<close>

lemma affected_of_kind_set:
  assumes "distinct (map an_node_id ns)"
  shows "set (affected_of_kind (dict_of (node_pairs ns)) kind ids) =
    {i \<in> set ids. \<exists>n \<in> set ns. an_node_id n = i \<and> an_kind n = kind}"
proof -
  have e: "dict_of (node_pairs ns) = node_pairs ns" using assms by (intro dict_of_distinct) (simp add: comp_def)
  have g: "dict_get (node_pairs ns) i = Some n \<longleftrightarrow> n \<in> set ns \<and> an_node_id n = i" for i n
    using assms by (subst map_of_eq_Some_iff) (auto simp: comp_def)
  have c: "(case x of None \<Rightarrow> False | Some n \<Rightarrow> an_kind n = kind) \<longleftrightarrow> (\<exists>n. x = Some n \<and> an_kind n = kind)" for x
    by (cases x) simp_all
  show ?thesis unfolding affected_of_kind_def e c g set_filter by blast
qed

text \<open>What a change of nodes reaches.\<close>

definition impact :: "relation_graph \<Rightarrow> string set \<Rightarrow> string set" where
  "impact g changed = (links g)\<^sup>* `` changed"

definition nodes_of_kind :: "relation_graph \<Rightarrow> node_kind \<Rightarrow> string set" where
  "nodes_of_kind g kind = an_node_id ` {n \<in> set (rg_nodes g). an_kind n = kind}"

text \<open>
  C23. A projection gives the exact impact of a change: the affected nodes are those that can be
  reached from the changed ones, all evidence and acceptances among them are invalidated, all
  controls among them are to be verified again, and nothing else is. It fails exactly when the graph
  is not typed, or the change is empty or names an unknown node.
\<close>

theorem change_impact_exact:
  "case project_change sha g changed of
     Inr r \<Rightarrow> graph_typed g \<and> changed \<noteq> [] \<and> set changed \<subseteq> an_node_id ` set (rg_nodes g) \<and>
       set (cg_affected r) = impact g (set changed) \<and> sorted (cg_affected r) \<and> distinct (cg_affected r) \<and>
       set (cg_invalidated_evidence r) = impact g (set changed) \<inter> nodes_of_kind g VerificationEvidence \<and>
       set (cg_invalidated_acceptance r) = impact g (set changed) \<inter> nodes_of_kind g AuthorityAcceptance \<and>
       set (cg_reopened r) = (@) ''verify:'' ` (impact g (set changed) \<inter> nodes_of_kind g Control)
   | Inl e \<Rightarrow> \<not> (graph_typed g \<and> changed \<noteq> [] \<and> set changed \<subseteq> an_node_id ` set (rg_nodes g))"
proof (cases "graph_typed g")
  case False
  then show ?thesis by (simp add: project_change_def Let_def admitted_typed)
next
  case True
  let ?t = "dict_of (node_pairs (rg_nodes g))" and ?c = "sort (remdups changed)"
  have d: "distinct (map an_node_id (rg_nodes g))" using True by (simp add: graph_typed_def)
  then have k: "set (dict_keys ?t) = an_node_id ` set (rg_nodes g)" by (subst dict_of_distinct) (auto simp: comp_def)
  have m: "filter (\<lambda>i. i \<notin> set (dict_keys ?t)) ?c = [] \<longleftrightarrow> set changed \<subseteq> an_node_id ` set (rg_nodes g)"
    unfolding k filter_empty_conv by auto
  have n: "?c = [] \<longleftrightarrow> changed = []" by (metis length_0_conv length_sort remdups_eq_nil_iff)
  show ?thesis
  proof (cases "changed \<noteq> [] \<and> set changed \<subseteq> an_node_id ` set (rg_nodes g)")
    case False
    with True show ?thesis
      unfolding project_change_def Let_def admitted_typed m n by (cases "changed = []") (simp_all add: m)
  next
    case ok: True
    have a: "set (impact_loop (outgoing_table g) ?c ?c) = impact g (set changed)"
      using impact_loop_reach [of "outgoing_table g" "links g" ?c ?c, OF outgoing_links] by (simp add: impact_def)
    have "distinct (impact_loop (outgoing_table g) ?c ?c)" by (rule impact_loop_distinct) simp
    moreover have "set (affected_of_kind ?t kind (sort (impact_loop (outgoing_table g) ?c ?c))) =
        impact g (set changed) \<inter> nodes_of_kind g kind" for kind
      unfolding affected_of_kind_set [OF d] set_sort a nodes_of_kind_def by auto
    ultimately show ?thesis
      using True ok a unfolding project_change_def Let_def admitted_typed n m [THEN iffD2, OF conjunct2 [OF ok]]
      by simp
  qed
qed

end
