(* ===== verification/Source_Closure.thy ===== *)
theory Source_Closure
  imports Lean_Closure Json_Objects
begin

text \<open>
  Source declarations of a Lean closure (\<open>poo_flow_proof/axle_exact_closure.py\<close>): which source
  declaration owns a Lean constant, the closure of the owners under their dependencies, its order,
  and the source ranges of the anchors. The documents come from the AXLE service; of them the
  attributes that the code reads are kept. Python iterates over a set in an order that depends on
  hashes: the parameter \<open>pick\<close> lists a set in the order of its iteration.
\<close>

section \<open>Texts\<close>

definition begins_with :: "string \<Rightarrow> string \<Rightarrow> bool" where
  "begins_with p s \<longleftrightarrow> take (length p) s = p"

definition remove_prefix :: "string \<Rightarrow> string \<Rightarrow> string" where
  "remove_prefix p s = (if begins_with p s then drop (length p) s else s)"

text \<open>\<open>s.rpartition('.')\<close> without the separator, and \<open>s.split('.', maxsplit=1)[0]\<close>.\<close>

definition rpartition_dot :: "string \<Rightarrow> string \<times> string" where
  "rpartition_dot s =
     (rev (tl (dropWhile (\<lambda>c. c \<noteq> CHR ''.'') (rev s))), rev (takeWhile (\<lambda>c. c \<noteq> CHR ''.'') (rev s)))"

definition first_part :: "string \<Rightarrow> string" where
  "first_part s = takeWhile (\<lambda>c. c \<noteq> CHR ''.'') s"

text \<open>The text before the first occurrence of a separator.\<close>

fun cut_before :: "string \<Rightarrow> string \<Rightarrow> string option" where
  "cut_before sep [] = None"
| "cut_before sep (c # s) = (if begins_with sep (c # s) then Some [] else map_option ((#) c) (cut_before sep s))"

lemma cut_before_shorter: "cut_before sep s = Some t \<Longrightarrow> length t < length s"
  by (induction sep s arbitrary: t rule: cut_before.induct) (auto split: if_splits)

text \<open>\<open>max(texts, key=len, default=None)\<close>: the first of the longest.\<close>

fun longest :: "string list \<Rightarrow> string option" where
  "longest [] = None"
| "longest (x # xs) = Some (foldl (\<lambda>m y. if length m < length y then y else m) x xs)"

text \<open>\<open>dict.fromkeys\<close> keeps first occurrences.\<close>

definition fromkeys :: "'a list \<Rightarrow> 'a list" where
  "fromkeys xs = rev (remdups (rev xs))"

section \<open>Owners\<close>

datatype axle_error =
    AxleExactClosureError string string
  | AxleKeyError string

type_synonym 'a xresult = "axle_error + 'a"

abbreviation axle_err :: "string \<Rightarrow> string \<Rightarrow> 'a xresult" where
  "axle_err code detail \<equiv> Inl (AxleExactClosureError code detail)"

record axle_document =
  dc_name :: string
  dc_kind :: string
  dc_declaration :: string
  dc_type_dependencies :: "string list"
  dc_value_dependencies :: "string list"
  dc_syntactic_dependencies :: "string list"

definition document_dependencies :: "axle_document \<Rightarrow> string list" where
  "document_dependencies d =
     fromkeys (dc_type_dependencies d @ dc_value_dependencies d @ dc_syntactic_dependencies d)"

definition covers :: "string \<Rightarrow> string \<Rightarrow> bool" where
  "covers owner name \<longleftrightarrow> name = owner \<or> begins_with (owner @ ''.'') name"

definition covering_document :: "string \<Rightarrow> string list \<Rightarrow> string option" where
  "covering_document name names = longest (filter (\<lambda>d. covers d name) names)"

text \<open>A generated instance belongs to the anchor at the end of its first component.\<close>

definition instance_of :: "string \<Rightarrow> string \<Rightarrow> bool" where
  "instance_of name anchor \<longleftrightarrow>
     (let (namespace, base) = rpartition_dot anchor in
      begins_with (namespace @ ''.inst'') name \<and> ends_with (first_part (remove_prefix (namespace @ ''.'') name)) base)"

definition source_name :: "(string list \<Rightarrow> string list) \<Rightarrow> string pydict \<Rightarrow> string \<Rightarrow> string" where
  "source_name pick aliases name =
     (case longest (filter (\<lambda>d. covers d name) (dict_keys aliases)) of
        Some owner \<Rightarrow> dict_get_or aliases owner []
      | None \<Rightarrow>
          (case longest (filter (instance_of name) (pick (remdups (map snd aliases)))) of
             Some anchor \<Rightarrow> anchor
           | None \<Rightarrow> name))"

text \<open>
  The normalization that the round trip uses, which also reads the owner out of an internal name: one
  that starts with an underscore and the owner between guillemets.
\<close>

definition internal_owner :: "string \<Rightarrow> string option" where
  "internal_owner name =
     (if begins_with [CHR 0xC2, CHR 0xAB, CHR ''_''] name then cut_before [CHR 0xC2, CHR 0xBB] (drop 3 name) else None)"

lemma internal_owner_shorter: "internal_owner name = Some t \<Longrightarrow> length t < length name"
  by (auto simp: internal_owner_def dest!: cut_before_shorter split: if_splits)

function normalized_name :: "(string list \<Rightarrow> string list) \<Rightarrow> string pydict \<Rightarrow> string \<Rightarrow> string" where
  "normalized_name pick aliases name =
     (case longest (filter (\<lambda>d. covers d name) (dict_keys aliases)) of
        Some owner \<Rightarrow> dict_get_or aliases owner []
      | None \<Rightarrow>
          let internal = (case internal_owner name of
                None \<Rightarrow> None
              | Some t \<Rightarrow> let n = normalized_name pick aliases t in
                  if n \<noteq> t \<or> t \<in> set (map snd aliases) then Some n else None)
          in case internal of
               Some n \<Rightarrow> n
             | None \<Rightarrow>
                 (case longest (filter (\<lambda>a. fst (rpartition_dot a) \<noteq> [] \<and> instance_of name a)
                          (pick (remdups (map snd aliases)))) of
                    Some anchor \<Rightarrow> anchor
                  | None \<Rightarrow> name))"
  by pat_completeness auto
termination by (relation "measure (\<lambda>(pick, aliases, name). length name)") (auto dest: internal_owner_shorter)

declare normalized_name.simps [simp del]

section \<open>The closure of the owners\<close>

definition owner_of :: "(string list \<Rightarrow> string list) \<Rightarrow> string pydict \<Rightarrow> axle_document pydict \<Rightarrow> string \<Rightarrow> string option" where
  "owner_of pick aliases docs name = covering_document (source_name pick aliases name) (dict_keys docs)"

text \<open>The loops over the Lean constants and the roots.\<close>

fun select_owners :: "(string \<Rightarrow> string option) \<Rightarrow> string \<Rightarrow> string list \<Rightarrow> string list \<Rightarrow> string list xresult" where
  "select_owners own code [] selected = Inr selected"
| "select_owners own code (x # xs) selected =
     (case own x of
        None \<Rightarrow> axle_err code x
      | Some owner \<Rightarrow> select_owners own code xs (if owner \<in> set selected then selected else selected @ [owner]))"

text \<open>The inner loop over the dependencies of a declaration: new owners are selected and pending.\<close>

fun visit_owners ::
  "(string \<Rightarrow> string option) \<Rightarrow> string \<Rightarrow> string list \<Rightarrow> string list \<Rightarrow> string list \<Rightarrow> (string list \<times> string list) xresult" where
  "visit_owners own name [] selected pending = Inr (selected, pending)"
| "visit_owners own name (d # ds) selected pending =
     (case own d of
        None \<Rightarrow> axle_err ''local-dependency-without-source-declaration'' (name @ '' -> '' @ d)
      | Some owner \<Rightarrow>
          if owner \<in> set selected then visit_owners own name ds selected pending
          else visit_owners own name ds (selected @ [owner]) (pending @ [owner]))"

lemma foldl_longest: "foldl (\<lambda>m y. if length m < length y then y else m) x xs \<in> insert x (set xs)"
  by (induction xs arbitrary: x) (auto simp: insert_commute)

lemma longest_in: "longest xs = Some x \<Longrightarrow> x \<in> set xs"
  using foldl_longest by (cases xs) auto

lemma longest_None [simp]: "longest xs = None \<longleftrightarrow> xs = []"
  by (cases xs) simp_all

lemma covering_in: "covering_document name names = Some d \<Longrightarrow> d \<in> set names \<and> covers d name"
  by (auto simp: covering_document_def dest: longest_in)

lemma owner_of_in: "owner_of pick aliases docs name = Some d \<Longrightarrow> d \<in> set (dict_keys docs)"
  by (auto simp: owner_of_def dest: covering_in)

text \<open>Each turn visits one pending declaration; what is selected is among the finitely many documents.\<close>

lemma visit_owners_measure:
  "visit_owners own name ds selected pending = Inr (s, p) \<Longrightarrow> (\<And>d owner. own d = Some owner \<Longrightarrow> owner \<in> A) \<Longrightarrow> finite A \<Longrightarrow>
   2 * card (A - set s) + length p \<le> 2 * card (A - set selected) + length pending"
proof (induction own name ds selected pending rule: visit_owners.induct)
  case (2 own name d ds selected pending)
  show ?case
  proof (cases "own d")
    case (Some owner)
    show ?thesis
    proof (cases "owner \<in> set selected")
      case True
      with 2 Some show ?thesis by simp
    next
      case False
      have "owner \<in> A - set selected" using 2(4) Some False by simp
      moreover have "A - set (selected @ [owner]) = A - set selected - {owner}" by auto
      ultimately have "card (A - set selected) = Suc (card (A - set (selected @ [owner])))"
        using card.remove [of "A - set selected" owner] 2(5) by simp
      moreover have "2 * card (A - set s) + length p \<le> 2 * card (A - set (selected @ [owner])) + length (pending @ [owner])"
        by (rule 2(2) [OF Some False]) (use 2(3-5) Some False in simp_all)
      ultimately show ?thesis by simp
    qed
  qed (use 2(3) in simp)
qed simp

function close_owners ::
  "(string list \<Rightarrow> string list) \<Rightarrow> string pydict \<Rightarrow> axle_document pydict \<Rightarrow> string list \<Rightarrow> string list \<Rightarrow> string list xresult" where
  "close_owners pick aliases docs selected pending =
     (if pending = [] then Inr selected
      else case dict_get docs (last pending) of
        None \<Rightarrow> Inl (AxleKeyError (last pending))
      | Some doc \<Rightarrow>
          (case visit_owners (owner_of pick aliases docs) (last pending) (document_dependencies doc) selected (butlast pending) of
             Inl e \<Rightarrow> Inl e
           | Inr (s, p) \<Rightarrow> close_owners pick aliases docs s p))"
  by pat_completeness auto
termination
proof (relation "measure (\<lambda>(pick, aliases, docs, selected, pending).
    2 * card (set (dict_keys docs) - set selected) + length pending)")
  fix pick aliases docs selected pending doc x s p
  assume n: "pending \<noteq> []" and "dict_get docs (last pending) = Some doc"
    and "visit_owners (owner_of pick aliases docs) (last pending) (document_dependencies doc) selected (butlast pending) = Inr x"
    and "(s, p) = x"
  then have v: "visit_owners (owner_of pick aliases docs) (last pending) (document_dependencies doc) selected (butlast pending)
      = Inr (s, p)" by simp
  have "2 * card (set (dict_keys docs) - set s) + length p
      \<le> 2 * card (set (dict_keys docs) - set selected) + length (butlast pending)"
    by (rule visit_owners_measure [OF v]) (auto dest: owner_of_in)
  moreover have "length (butlast pending) < length pending" using n by simp
  ultimately show "((pick, aliases, docs, s, p), (pick, aliases, docs, selected, pending)) \<in>
      measure (\<lambda>(pick, aliases, docs, selected, pending). 2 * card (set (dict_keys docs) - set selected) + length pending)"
    by simp
qed simp

declare close_owners.simps [simp del]

section \<open>The order of the owners\<close>

text \<open>
  The depth-first search: \<open>visiting\<close> is the stack of the calls, \<open>ordered\<close> holds the visited names,
  which are those that were emitted. The names are visited in turn.
\<close>

definition cycle_text :: "string list \<Rightarrow> string \<Rightarrow> string" where
  "cycle_text visiting n = str_join '' -> '' (dropWhile (\<lambda>m. m \<noteq> n) visiting @ [n])"

function (sequential) visit_all ::
  "string list pydict \<Rightarrow> string list \<Rightarrow> string list \<Rightarrow> string list \<Rightarrow> string list xresult" where
  "visit_all deps visiting [] ordered = Inr ordered"
| "visit_all deps visiting (n # ns) ordered =
     (if n \<in> set ordered then visit_all deps visiting ns ordered
      else if n \<in> set visiting then axle_err ''source-declaration-cycle'' (cycle_text visiting n)
      else case dict_get deps n of
        None \<Rightarrow> Inl (AxleKeyError n)
      | Some ds \<Rightarrow>
          (case visit_all deps (visiting @ [n]) (sort ds) ordered of
             Inl e \<Rightarrow> Inl e
           | Inr o' \<Rightarrow> visit_all deps visiting ns (o' @ [n])))"
  by pat_completeness auto
termination
proof (relation "measures [\<lambda>(deps, visiting, ns, ordered). card (set (dict_keys deps) - set visiting),
    \<lambda>(deps, visiting, ns, ordered). length ns]")
  fix deps :: "string list pydict" and visiting n ns ordered ds
  assume v: "n \<notin> set visiting" and "dict_get deps n = Some ds"
  then have "n \<in> set (dict_keys deps)" by (force dest: map_of_SomeD)
  with v have "set (dict_keys deps) - set (visiting @ [n]) \<subset> set (dict_keys deps) - set visiting" by auto
  then have "card (set (dict_keys deps) - set (visiting @ [n])) < card (set (dict_keys deps) - set visiting)"
    by (intro psubset_card_mono) simp_all
  then show "((deps, visiting @ [n], sort ds, ordered), (deps, visiting, n # ns, ordered)) \<in>
      measures [\<lambda>(deps, visiting, ns, ordered). card (set (dict_keys deps) - set visiting),
        \<lambda>(deps, visiting, ns, ordered). length ns]" by simp
qed simp_all

definition source_order :: "string list pydict \<Rightarrow> string list xresult" where
  "source_order deps = visit_all deps [] (sort (dict_keys deps)) []"

definition owner_table ::
  "(string list \<Rightarrow> string list) \<Rightarrow> string pydict \<Rightarrow> axle_document pydict \<Rightarrow> string list \<Rightarrow> string list pydict" where
  "owner_table pick aliases docs selected =
     map (\<lambda>name. (name, remdups (filter (\<lambda>o'. o' \<in> set selected \<and> o' \<noteq> name)
       (List.map_filter (owner_of pick aliases docs)
         (case dict_get docs name of None \<Rightarrow> [] | Some doc \<Rightarrow> document_dependencies doc))))) selected"

definition source_declaration_closure ::
  "(string list \<Rightarrow> string list) \<Rightarrow> string list \<Rightarrow> string list \<Rightarrow> axle_document list \<Rightarrow> string pydict \<Rightarrow> string list xresult" where
  "source_declaration_closure pick lean_declarations roots documents aliases =
     (let docs = dict_of (map (\<lambda>d. (dc_name d, d)) documents); own = owner_of pick aliases docs in
      res_bind (select_owners own ''lean-constant-without-source-declaration'' lean_declarations []) (\<lambda>s1.
      res_bind (select_owners own ''root-without-source-declaration'' roots s1) (\<lambda>s2.
      res_bind (close_owners pick aliases docs s2 (pick s2)) (\<lambda>selected.
      source_order (owner_table pick aliases docs selected)))))"

end
