(* ===== verification/Source_Closure_Props.thy ===== *)
theory Source_Closure_Props
  imports Source_Closure Dependency_Order
begin

text \<open>
  What the closure of the source declarations holds and in which order, and that neither depends on
  the order in which Python iterates over a set.
\<close>

section \<open>The depth-first search\<close>

definition dep_links :: "string list pydict \<Rightarrow> (string \<times> string) set" where
  "dep_links deps = {(m, n). \<exists>ds. dict_get deps n = Some ds \<and> m \<in> set ds}"

lemma visit_all_Inr:
  "visit_all deps visiting ns ordered = Inr o' \<Longrightarrow> set visiting \<inter> set ordered = {} \<Longrightarrow>
   ordered_from (dep_links deps) {} ordered \<Longrightarrow>
   \<exists>new. o' = ordered @ new \<and> set ns \<subseteq> set o' \<and> set new \<inter> set visiting = {} \<and>
     ordered_from (dep_links deps) {} o' \<and> set new \<subseteq> set (dict_keys deps)"
proof (induction deps visiting ns ordered arbitrary: o' rule: visit_all.induct)
  case (2 deps visiting n ns ordered)
  show ?case
  proof (cases "n \<in> set ordered")
    case True
    with 2(1) [OF True] 2(4-6) show ?thesis by auto
  next
    case no: False
    with 2(4) obtain ds o1 where v: "n \<notin> set visiting" and ds: "dict_get deps n = Some ds"
      and o1: "visit_all deps (visiting @ [n]) (sort ds) ordered = Inr o1"
      and r: "visit_all deps visiting ns (o1 @ [n]) = Inr o'"
      by (auto split: if_splits option.splits sum.splits)
    have "set (visiting @ [n]) \<inter> set ordered = {}" using no 2(5) by simp
    from 2(2) [OF no v ds o1 this 2(6)] obtain new1 where n1: "o1 = ordered @ new1" "set ds \<subseteq> set o1"
      "set new1 \<inter> set (visiting @ [n]) = {}" "ordered_from (dep_links deps) {} o1" "set new1 \<subseteq> set (dict_keys deps)"
      by auto
    have "n \<notin> set o1" using n1(1,3) no by auto
    moreover have "{m. (m, n) \<in> dep_links deps} \<subseteq> set o1" using ds n1(2) by (auto simp: dep_links_def)
    ultimately have "ordered_from (dep_links deps) {} (o1 @ [n])" using n1(4) by (simp add: ordered_from_append)
    moreover have "set visiting \<inter> set (o1 @ [n]) = {}" using n1(1,3) v 2(5) by auto
    ultimately obtain new2 where n2: "o' = (o1 @ [n]) @ new2" "set ns \<subseteq> set o'" "set new2 \<inter> set visiting = {}"
      "ordered_from (dep_links deps) {} o'" "set new2 \<subseteq> set (dict_keys deps)"
      using 2(3) [OF no v ds o1 r] by blast
    have "n \<in> set (dict_keys deps)" using ds by (force dest: map_of_SomeD)
    with n1 n2 v show ?thesis by (intro exI [of _ "new1 @ n # new2"]) auto
  qed
qed simp

lemma path_last: "successively (\<lambda>a b. (b, a) \<in> R) (n # ys) \<Longrightarrow> (last (n # ys), n) \<in> R\<^sup>*"
proof (induction ys arbitrary: n)
  case (Cons y ys)
  then have "(last (y # ys), y) \<in> R\<^sup>*" "(y, n) \<in> R" by simp_all
  then show ?case by (simp add: rtrancl_into_rtrancl)
qed simp

lemma path_cycle:
  assumes "successively (\<lambda>a b. (b, a) \<in> R) visiting" and "n \<in> set visiting" and "(n, last visiting) \<in> R"
  shows "\<not> acyclic R"
proof -
  from assms(2) obtain xs ys where v: "visiting = xs @ n # ys" by (auto dest: split_list)
  have "(last (n # ys), n) \<in> R\<^sup>*" by (rule path_last) (use assms(1) v in \<open>simp add: successively_append_iff\<close>)
  moreover have "(n, last (n # ys)) \<in> R" using assms(3) v by simp
  ultimately have "(n, n) \<in> R\<^sup>+" by (rule rtrancl_into_trancl2 [rotated])
  then show ?thesis by (auto simp: acyclic_def)
qed

definition is_cycle_error :: "axle_error \<Rightarrow> bool" where
  "is_cycle_error e \<longleftrightarrow> (\<exists>detail. e = AxleExactClosureError ''source-declaration-cycle'' detail)"

lemma visit_all_Inl:
  "visit_all deps visiting ns ordered = Inl e \<Longrightarrow> (\<And>n ds. dict_get deps n = Some ds \<Longrightarrow> set ds \<subseteq> set (dict_keys deps)) \<Longrightarrow>
   set ns \<subseteq> set (dict_keys deps) \<Longrightarrow> successively (\<lambda>a b. (b, a) \<in> dep_links deps) visiting \<Longrightarrow>
   (visiting \<noteq> [] \<Longrightarrow> \<forall>n \<in> set ns. (n, last visiting) \<in> dep_links deps) \<Longrightarrow>
   is_cycle_error e \<and> \<not> acyclic (dep_links deps)"
proof (induction deps visiting ns ordered rule: visit_all.induct)
  case (2 deps visiting n ns ordered)
  note closed = 2(5)
  show ?case
  proof (cases "n \<in> set ordered")
    case True
    show ?thesis by (rule 2(1) [OF True _ closed]) (use 2(4,6-8) True in auto)
  next
    case no: False
    show ?thesis
    proof (cases "n \<in> set visiting")
      case True
      then have "(n, last visiting) \<in> dep_links deps" using 2(8) by (cases visiting) simp_all
      from path_cycle [OF 2(7) True this] show ?thesis using 2(4) no True by (auto simp: is_cycle_error_def)
    next
      case v: False
      obtain ds where ds: "dict_get deps n = Some ds" using 2(6) by (cases "dict_get deps n") (auto simp: map_of_eq_None_iff)
      have links: "(m, n) \<in> dep_links deps" if "m \<in> set ds" for m using ds that by (auto simp: dep_links_def)
      show ?thesis
      proof (cases "visit_all deps (visiting @ [n]) (sort ds) ordered")
        case (Inl e')
        have e: "visit_all deps (visiting @ [n]) (sort ds) ordered = Inl e" using 2(4) no v ds Inl by simp
        have "successively (\<lambda>a b. (b, a) \<in> dep_links deps) (visiting @ [n])"
          using 2(7,8) by (cases visiting rule: rev_cases) (simp_all add: successively_append_iff)
        moreover have "set (sort ds) \<subseteq> set (dict_keys deps)" using closed [OF ds] by simp
        ultimately show ?thesis
          using 2(2) [OF no v ds e closed] links by simp
      next
        case (Inr o1)
        show ?thesis by (rule 2(3) [OF no v ds Inr _ closed]) (use 2(4,6-8) no v ds Inr in auto)
      qed
    qed
  qed
qed simp

lemma source_order_correct:
  assumes "\<And>n ds. dict_get deps n = Some ds \<Longrightarrow> set ds \<subseteq> set (dict_keys deps)"
  shows "case source_order deps of
      Inr r \<Rightarrow> ordered_from (dep_links deps) {} r \<and> set r = set (dict_keys deps) \<and> acyclic (dep_links deps)
    | Inl e \<Rightarrow> is_cycle_error e \<and> \<not> acyclic (dep_links deps)"
proof (cases "source_order deps")
  case (Inr r)
  from visit_all_Inr [OF Inr [unfolded source_order_def]]
  have r: "ordered_from (dep_links deps) {} r" "set r = set (dict_keys deps)" by auto
  have "dep_links deps \<subseteq> UNIV \<times> set r" unfolding r(2) dep_links_def by (force dest: map_of_SomeD)
  from ordered_acyclic [OF r(1) this] r Inr show ?thesis by simp
next
  case (Inl e)
  from visit_all_Inl [OF Inl [unfolded source_order_def] assms] Inl show ?thesis by simp
qed

section \<open>The owners that are selected\<close>

text \<open>\<open>(m, n)\<close> says that the source declaration \<open>n\<close> depends on something that \<open>m\<close> owns.\<close>

definition owner_links :: "(string \<Rightarrow> string option) \<Rightarrow> axle_document pydict \<Rightarrow> (string \<times> string) set" where
  "owner_links own docs = {(m, n). \<exists>doc. dict_get docs n = Some doc \<and> Some m \<in> own ` set (document_dependencies doc)}"

definition uncovered_in :: "(string \<Rightarrow> string option) \<Rightarrow> axle_document pydict \<Rightarrow> string \<Rightarrow> bool" where
  "uncovered_in own docs n \<longleftrightarrow> (\<exists>doc. dict_get docs n = Some doc \<and> None \<in> own ` set (document_dependencies doc))"

lemma select_owners_Inr:
  "select_owners own code xs selected = Inr s \<Longrightarrow>
   None \<notin> own ` set xs \<and> set s = set selected \<union> {m. Some m \<in> own ` set xs}"
proof (induction own code xs selected rule: select_owners.induct)
  case (2 own code x xs selected)
  then show ?case by (cases "own x") (auto split: if_splits)
qed simp

lemma select_owners_Inl:
  "select_owners own code xs selected = Inl e \<Longrightarrow> None \<in> own ` set xs \<and> (\<exists>x. e = AxleExactClosureError code x)"
proof (induction own code xs selected rule: select_owners.induct)
  case (2 own code x xs selected)
  then show ?case by (cases "own x") (force split: if_splits)+
qed simp

lemma visit_owners_Inr:
  "visit_owners own name ds selected pending = Inr (s, p) \<Longrightarrow>
   \<exists>new. s = selected @ new \<and> p = pending @ new \<and> None \<notin> own ` set ds \<and> set s = set selected \<union> {m. Some m \<in> own ` set ds}"
proof (induction own name ds selected pending rule: visit_owners.induct)
  case (2 own name d ds selected pending)
  then obtain owner where o': "own d = Some owner" by (cases "own d") simp_all
  show ?case
  proof (cases "owner \<in> set selected")
    case True
    with 2 o' show ?thesis by (auto simp: image_iff)
  next
    case False
    with 2(3) o' have "visit_owners own name ds (selected @ [owner]) (pending @ [owner]) = Inr (s, p)" by simp
    from 2(2) [OF o' False this] obtain new where "s = (selected @ [owner]) @ new" "p = (pending @ [owner]) @ new"
      "None \<notin> own ` set ds" "set s = set (selected @ [owner]) \<union> {m. Some m \<in> own ` set ds}" by blast
    with o' show ?thesis by (intro exI [of _ "owner # new"]) (auto simp: image_iff)
  qed
qed simp

lemma visit_owners_Inl:
  "visit_owners own name ds selected pending = Inl e \<Longrightarrow>
   None \<in> own ` set ds \<and> (\<exists>x. e = AxleExactClosureError ''local-dependency-without-source-declaration'' x)"
proof (induction own name ds selected pending rule: visit_owners.induct)
  case (2 own name d ds selected pending)
  then show ?case by (cases "own d") (force split: if_splits)+
qed simp

lemma owner_links_keys: "(m, n) \<in> owner_links (owner_of pick aliases docs) docs \<Longrightarrow> m \<in> set (dict_keys docs)"
  unfolding owner_links_def by (auto simp del: set_map dest!: owner_of_in [OF sym])

text \<open>What is selected and not pending is closed under the links.\<close>

definition settled :: "(string \<Rightarrow> string option) \<Rightarrow> axle_document pydict \<Rightarrow> string set \<Rightarrow> string set \<Rightarrow> bool" where
  "settled own docs done selected \<longleftrightarrow> (\<forall>n \<in> done. \<not> uncovered_in own docs n \<and> {m. (m, n) \<in> owner_links own docs} \<subseteq> selected)"

lemma settled_step:
  assumes "settled own docs (set selected - set pending) (set selected)" and "pending \<noteq> []"
    and "dict_get docs (last pending) = Some doc"
    and "visit_owners own (last pending) (document_dependencies doc) selected (butlast pending) = Inr (s, p)"
  shows "settled own docs (set s - set p) (set s)" and "set p \<subseteq> set pending \<union> set s" and "set selected \<subseteq> set s"
    and "set s \<subseteq> set selected \<union> {m. (m, last pending) \<in> owner_links own docs}"
proof -
  from visit_owners_Inr [OF assms(4)] obtain new where n: "s = selected @ new" "p = butlast pending @ new"
    "None \<notin> own ` set (document_dependencies doc)" "set s = set selected \<union> {m. Some m \<in> own ` set (document_dependencies doc)}"
    by blast
  have l: "{m. (m, last pending) \<in> owner_links own docs} = {m. Some m \<in> own ` set (document_dependencies doc)}"
    "\<not> uncovered_in own docs (last pending)"
    using assms(3) n(3) by (auto simp: owner_links_def uncovered_in_def)
  have "set pending = insert (last pending) (set (butlast pending))"
    using assms(2) append_butlast_last_id [OF assms(2)] by (metis list.simps(15) rotate1.simps(2) set_rotate1)
  then have "set s - set p \<subseteq> insert (last pending) (set selected - set pending)" unfolding n(1,2) by auto
  then show "settled own docs (set s - set p) (set s)"
    using assms(1) l n(4) unfolding settled_def by blast
  show "set p \<subseteq> set pending \<union> set s" using n(1,2) by (auto dest: in_set_butlastD)
  show "set selected \<subseteq> set s" "set s \<subseteq> set selected \<union> {m. (m, last pending) \<in> owner_links own docs}"
    using n(4) unfolding l by auto
qed

lemma close_owners_Inr:
  "close_owners pick aliases docs selected pending = Inr s \<Longrightarrow> set pending \<subseteq> set selected \<Longrightarrow>
   settled (owner_of pick aliases docs) docs (set selected - set pending) (set selected) \<Longrightarrow>
   set selected \<subseteq> set s \<and> settled (owner_of pick aliases docs) docs (set s) (set s) \<and>
   set s \<subseteq> {m. \<exists>k \<in> set selected. (m, k) \<in> (owner_links (owner_of pick aliases docs) docs)\<^sup>*}"
proof (induction pick aliases docs selected pending rule: close_owners.induct)
  case (1 pick aliases docs selected pending)
  let ?own = "owner_of pick aliases docs" let ?L = "owner_links ?own docs"
  show ?case
  proof (cases "pending = []")
    case True
    with 1(2,4) show ?thesis by (auto simp: close_owners.simps [of _ _ _ _ "[]"])
  next
    case ne: False
    with 1(2) obtain doc x p where d: "dict_get docs (last pending) = Some doc"
      and v: "visit_owners ?own (last pending) (document_dependencies doc) selected (butlast pending) = Inr (x, p)"
      and c: "close_owners pick aliases docs x p = Inr s"
      by (subst (asm) close_owners.simps) (auto split: option.splits sum.splits)
    note st = settled_step [OF 1(4) ne d v]
    have "set p \<subseteq> set x" using st(2,3) 1(3) by blast
    from 1(1) [OF ne d v HOL.refl c this st(1)]
    have i: "set x \<subseteq> set s" "settled ?own docs (set s) (set s)" "set s \<subseteq> {m. \<exists>k \<in> set x. (m, k) \<in> ?L\<^sup>*}" by auto
    have "last pending \<in> set selected" using ne 1(3) by auto
    then have "set x \<subseteq> {m. \<exists>k \<in> set selected. (m, k) \<in> ?L\<^sup>*}" using st(4) by blast
    with i(3) have "set s \<subseteq> {m. \<exists>k \<in> set selected. (m, k) \<in> ?L\<^sup>*}" by (blast intro: rtrancl_trans)
    with i(1,2) st(3) show ?thesis by blast
  qed
qed

lemma close_owners_Inl:
  "close_owners pick aliases docs selected pending = Inl e \<Longrightarrow> set pending \<subseteq> set selected \<Longrightarrow>
   set selected \<subseteq> set (dict_keys docs) \<Longrightarrow>
   settled (owner_of pick aliases docs) docs (set selected - set pending) (set selected) \<Longrightarrow>
   (\<exists>detail. e = AxleExactClosureError ''local-dependency-without-source-declaration'' detail) \<and>
   (\<exists>k \<in> set selected. \<exists>m. (m, k) \<in> (owner_links (owner_of pick aliases docs) docs)\<^sup>* \<and> uncovered_in (owner_of pick aliases docs) docs m)"
proof (induction pick aliases docs selected pending rule: close_owners.induct)
  case (1 pick aliases docs selected pending)
  let ?own = "owner_of pick aliases docs" let ?L = "owner_links ?own docs"
  have ne: "pending \<noteq> []" using 1(2) by (auto simp: close_owners.simps [of _ _ _ _ "[]"])
  then have l: "last pending \<in> set selected" using 1(3) by auto
  then have "last pending \<in> set (dict_keys docs)" using 1(4) by blast
  then obtain doc where d: "dict_get docs (last pending) = Some doc"
    by (cases "dict_get docs (last pending)") (auto simp: map_of_eq_None_iff)
  show ?case
  proof (cases "visit_owners ?own (last pending) (document_dependencies doc) selected (butlast pending)")
    case (Inl x)
    with 1(2) ne d have "x = e" by (subst (asm) close_owners.simps) simp
    moreover have "uncovered_in ?own docs (last pending)"
      using visit_owners_Inl [OF Inl] d by (auto simp: uncovered_in_def)
    ultimately show ?thesis using visit_owners_Inl [OF Inl] l by blast
  next
    case (Inr y)
    obtain x p where y: "y = (x, p)" by (cases y)
    note v = Inr [unfolded y]
    have c: "close_owners pick aliases docs x p = Inl e" using 1(2) ne d v by (subst (asm) close_owners.simps) simp
    note st = settled_step [OF 1(5) ne d v]
    have "{m. (m, last pending) \<in> ?L} \<subseteq> set (dict_keys docs)" using owner_links_keys by blast
    then have "set p \<subseteq> set x" "set x \<subseteq> set (dict_keys docs)" using st(2,3,4) 1(3,4) by blast+
    from 1(1) [OF ne d v HOL.refl c this st(1)] obtain k m where
      i: "\<exists>detail. e = AxleExactClosureError ''local-dependency-without-source-declaration'' detail" "k \<in> set x" "(m, k) \<in> ?L\<^sup>*"
      "uncovered_in ?own docs m" by blast
    have "\<exists>k' \<in> set selected. (m, k') \<in> ?L\<^sup>*" using i(2,3) st(4) l by (blast intro: rtrancl_into_rtrancl)
    with i(1,4) show ?thesis by blast
  qed
qed

section \<open>The closure\<close>

lemma map_filter_set: "set (List.map_filter f xs) = {y. Some y \<in> f ` set xs}"
  by (induction xs) (auto simp: List.map_filter_simps image_iff split: option.splits)

lemma owner_table_links:
  assumes "own = owner_of pick aliases docs" and "set selected \<subseteq> set (dict_keys docs)"
  shows "dep_links (owner_table pick aliases docs selected) =
    {(m, n) \<in> owner_links own docs. n \<in> set selected \<and> m \<in> set selected \<and> m \<noteq> n}"
    and "\<And>n ds. dict_get (owner_table pick aliases docs selected) n = Some ds \<Longrightarrow>
      set ds \<subseteq> set (dict_keys (owner_table pick aliases docs selected))"
    and "set (dict_keys (owner_table pick aliases docs selected)) = set selected"
proof -
  have g: "dict_get (owner_table pick aliases docs selected) n = Some ds \<longleftrightarrow> n \<in> set selected \<and>
      ds = remdups (filter (\<lambda>o'. o' \<in> set selected \<and> o' \<noteq> n) (List.map_filter own
        (case dict_get docs n of None \<Rightarrow> [] | Some doc \<Rightarrow> document_dependencies doc)))" for n ds
    unfolding owner_table_def assms(1) map_of_map_restrict by (auto simp: restrict_map_def)
  show "dep_links (owner_table pick aliases docs selected) =
      {(m, n) \<in> owner_links own docs. n \<in> set selected \<and> m \<in> set selected \<and> m \<noteq> n}"
    unfolding dep_links_def g owner_links_def by (auto simp: map_filter_set split: option.splits) (metis image_eqI)
  show k: "set (dict_keys (owner_table pick aliases docs selected)) = set selected"
    unfolding owner_table_def by (simp add: comp_def)
  show "set ds \<subseteq> set (dict_keys (owner_table pick aliases docs selected))"
    if "dict_get (owner_table pick aliases docs selected) n = Some ds" for n ds
    using that unfolding g k by auto
qed

text \<open>
  C26. The closure of the source declarations is exact: it lists once each the owners of the Lean
  constants and roots and all that these depend on, dependencies first, and nothing else. It fails
  with the cycle exactly when all is owned and the dependencies are cyclic, and with the name that
  lacks a source declaration exactly when there is one. The order in which sets are iterated over
  does not matter.
\<close>

theorem source_closure_exact:
  assumes "\<And>xs. set (pick xs) = set xs"
  shows "let docs = dict_of (map (\<lambda>d. (dc_name d, d)) documents); own = owner_of pick aliases docs;
      starts = {m. Some m \<in> own ` set (lean_declarations @ roots)};
      needed = {m. \<exists>k \<in> starts. (m, k) \<in> (owner_links own docs)\<^sup>*};
      links = {(m, n) \<in> owner_links own docs. n \<in> needed \<and> m \<noteq> n};
      covered = (None \<notin> own ` set (lean_declarations @ roots) \<and> (\<forall>n \<in> needed. \<not> uncovered_in own docs n))
    in case source_declaration_closure pick lean_declarations roots documents aliases of
         Inr r \<Rightarrow> covered \<and> set r = needed \<and> ordered_from links {} r \<and> acyclic links
       | Inl e \<Rightarrow> if is_cycle_error e then covered \<and> \<not> acyclic links else \<not> covered"
proof -
  define docs where "docs = dict_of (map (\<lambda>d. (dc_name d, d)) documents)"
  define own where "own = owner_of pick aliases docs"
  define starts where "starts = {m. Some m \<in> own ` set (lean_declarations @ roots)}"
  define L where "L = owner_links own docs"
  define needed where "needed = {m. \<exists>k \<in> starts. (m, k) \<in> L\<^sup>*}"
  let ?links = "{(m, n) \<in> L. n \<in> needed \<and> m \<noteq> n}"
  let ?covered = "None \<notin> own ` set (lean_declarations @ roots) \<and> (\<forall>n \<in> needed. \<not> uncovered_in own docs n)"
  let ?s1 = "select_owners own ''lean-constant-without-source-declaration'' lean_declarations []"
  have c: "source_declaration_closure pick lean_declarations roots documents aliases =
      res_bind ?s1 (\<lambda>s1. res_bind (select_owners own ''root-without-source-declaration'' roots s1) (\<lambda>s2.
      res_bind (close_owners pick aliases docs s2 (pick s2)) (\<lambda>selected.
      source_order (owner_table pick aliases docs selected))))"
    unfolding source_declaration_closure_def Let_def own_def docs_def ..
  have "case source_declaration_closure pick lean_declarations roots documents aliases of
         Inr r \<Rightarrow> ?covered \<and> set r = needed \<and> ordered_from ?links {} r \<and> acyclic ?links
       | Inl e \<Rightarrow> if is_cycle_error e then ?covered \<and> \<not> acyclic ?links else \<not> ?covered"
  proof (cases ?s1)
    case (Inl e)
    with select_owners_Inl [OF Inl] show ?thesis unfolding c by (auto simp: is_cycle_error_def image_Un)
  next
    case s1: (Inr s1)
    show ?thesis
    proof (cases "select_owners own ''root-without-source-declaration'' roots s1")
      case (Inl e)
      with s1 select_owners_Inl [OF Inl] show ?thesis unfolding c by (auto simp: is_cycle_error_def image_Un)
    next
      case s2: (Inr s2)
      have st: "None \<notin> own ` set (lean_declarations @ roots)" "set s2 = starts"
        using select_owners_Inr [OF s1] select_owners_Inr [OF s2] by (auto simp: starts_def)
      have k: "starts \<subseteq> set (dict_keys docs)"
        unfolding starts_def own_def by (auto simp del: set_map dest!: owner_of_in [OF sym])
      have p: "set (pick s2) \<subseteq> set s2" "settled own docs (set s2 - set (pick s2)) (set s2)"
        using assms by (simp_all add: settled_def)
      show ?thesis
      proof (cases "close_owners pick aliases docs s2 (pick s2)")
        case (Inl e)
        from close_owners_Inl [OF Inl p(1) _ p(2) [unfolded own_def]] st(2) k s1 s2 Inl show ?thesis
          unfolding c own_def [symmetric] L_def [symmetric] by (force simp: is_cycle_error_def needed_def)
      next
        case (Inr sel)
        have i: "starts \<subseteq> set sel" "settled own docs (set sel) (set sel)" "set sel \<subseteq> needed"
          using close_owners_Inr [OF Inr p(1) p(2) [unfolded own_def]]
          unfolding own_def [symmetric] L_def [symmetric] st(2) needed_def by blast+
        have "m \<in> set sel" if "(m, k) \<in> L\<^sup>*" "k \<in> set sel" for m k
          using that by (induction rule: converse_rtrancl_induct) (use i(2) in \<open>auto simp: settled_def L_def\<close>)
        with i(1,3) have n: "set sel = needed" unfolding needed_def by blast
        have "needed \<subseteq> set (dict_keys docs)"
        proof
          fix m assume "m \<in> needed"
          then obtain k' where k': "k' \<in> starts" and mk: "(m, k') \<in> L\<^sup>*" unfolding needed_def by blast
          from mk show "m \<in> set (dict_keys docs)"
            by (cases rule: converse_rtranclE)
              (use k k' owner_links_keys [of m _ pick aliases docs] in \<open>auto simp: L_def own_def\<close>)
        qed
        note t = owner_table_links [OF own_def this [folded n]]
        have l: "dep_links (owner_table pick aliases docs sel) = ?links"
          unfolding t(1) n L_def [symmetric] using i(2) unfolding settled_def L_def n by blast
        have cov: ?covered using st(1) i(2) unfolding settled_def n by blast
        have o': "source_declaration_closure pick lean_declarations roots documents aliases =
            source_order (owner_table pick aliases docs sel)" unfolding c s1 s2 Inr res_bind_simps ..
        show ?thesis
          using source_order_correct [of "owner_table pick aliases docs sel", OF t(2)] cov
          unfolding o' l t(3) n by (auto split: sum.splits)
      qed
    qed
  qed
  then show ?thesis unfolding Let_def docs_def own_def starts_def L_def needed_def by simp
qed

definition ex_document :: "string \<Rightarrow> string list \<Rightarrow> axle_document" where
  "ex_document name deps = \<lparr>dc_name = name, dc_kind = ''theorem'', dc_declaration = ''theorem x'', dc_type_dependencies = deps,
     dc_value_dependencies = [], dc_syntactic_dependencies = []\<rparr>"

text \<open>The Lean constant \<open>P.b.match_1\<close> belongs to \<open>P.b\<close>, which depends on a constant of \<open>P.a\<close>.\<close>

definition ex_documents :: "axle_document list" where
  "ex_documents = [ex_document ''P.b'' [''P.a.aux''], ex_document ''P.c'' [''P.b''], ex_document ''P.a'' []]"

theorem source_closure_exact_witness:
  "let docs = dict_of (map (\<lambda>d. (dc_name d, d)) ex_documents); own = owner_of rev [] docs in
   source_declaration_closure rev [''P.b.match_1''] [''P.b''] ex_documents [] = Inr [''P.a'', ''P.b''] \<and>
   set [''P.a'', ''P.b''] = {m. \<exists>k \<in> {m. Some m \<in> own ` {''P.b.match_1'', ''P.b''}}. (m, k) \<in> (owner_links own docs)\<^sup>*}"
proof -
  have r: "source_declaration_closure rev [''P.b.match_1''] [''P.b''] ex_documents [] = Inr [''P.a'', ''P.b'']"
    by code_simp
  have "set (rev xs) = set xs" for xs :: "string list" by simp
  from source_closure_exact [of rev ex_documents "[]" "[''P.b.match_1'']" "[''P.b'']", OF this] r show ?thesis
    by (simp add: Let_def)
qed

end
