(* ===== verification/Independent_Bundle.thy ===== *)
theory Independent_Bundle
  imports Receipt_Graph Json_Objects Dependency_Order
begin

text \<open>
  Independent declaration bundles (\<open>poo_flow_proof/independent_bundle.py\<close>): the identities that a
  bundle is made of with the checks of their \<open>__post_init__\<close>, the checks of the bundle, its
  canonical manifest and its digest. A bundle that passes the checks is closed and ordered by
  dependencies; its digest identifies it. SHA-256 is a parameter.
\<close>

section \<open>Errors and checks\<close>

text \<open>\<open>BundleEncodeError\<close> is the \<open>UnicodeEncodeError\<close> of a text that has no UTF-8 encoding.\<close>

datatype bundle_error =
    BundleValidationError string string
  | BundleEncodeError

type_synonym 'a bresult = "bundle_error + 'a"

definition BUNDLE_SCHEMA :: string where
  "BUNDLE_SCHEMA = ''poo-flow.independent-declaration-bundle.v1''"

text \<open>A check that raises on a condition, and checks that are made in turn.\<close>

definition refuse_if :: "bool \<Rightarrow> string \<Rightarrow> string \<Rightarrow> unit bresult" where
  "refuse_if b code detail = (if b then Inl (BundleValidationError code detail) else Inr ())"

fun in_turn :: "unit bresult list \<Rightarrow> unit bresult" where
  "in_turn [] = Inr ()"
| "in_turn (r # rs) = res_bind r (\<lambda>_. in_turn rs)"

lemma refuse_if_ok [simp]: "refuse_if b code detail = Inr () \<longleftrightarrow> \<not> b"
  by (simp add: refuse_if_def)

lemma in_turn_ok: "in_turn rs = Inr () \<longleftrightarrow> (\<forall>r \<in> set rs. r = Inr ())"
  by (induction rs) (auto simp: res_bind_Inr_iff)

declare in_turn.simps [simp del]

definition bundle_text :: "string \<Rightarrow> string \<Rightarrow> unit bresult" where
  "bundle_text value field = refuse_if (blank value) ''missing-field'' field"

definition bundle_sha256 :: "string \<Rightarrow> string \<Rightarrow> unit bresult" where
  "bundle_sha256 value field = refuse_if (\<not> is_sha256 value) ''invalid-digest'' field"

text \<open>The parts of a path are what the slashes separate; a path that starts with one is absolute.\<close>

definition escaping_path :: "string \<Rightarrow> bool" where
  "escaping_path s \<longleftrightarrow> take 1 s = ''/'' \<or> ''..'' \<in> set (split_on CHR ''/'' s)"

definition bundle_owner_path :: "string \<Rightarrow> string \<Rightarrow> unit bresult" where
  "bundle_owner_path value field =
     in_turn [bundle_text value field, refuse_if (escaping_path value) ''invalid-owner-path'' field]"

lemma bundle_checks_ok [simp]:
  "bundle_text value field = Inr () \<longleftrightarrow> \<not> blank value"
  "bundle_sha256 value field = Inr () \<longleftrightarrow> is_sha256 value"
  "bundle_owner_path value field = Inr () \<longleftrightarrow> \<not> blank value \<and> \<not> escaping_path value"
  by (simp_all add: bundle_text_def bundle_sha256_def bundle_owner_path_def in_turn_ok)

section \<open>The identities\<close>

record bundle_environment =
  be_name :: string
  be_toolchain :: string
  be_imports :: "string list"
  be_repo_url :: "string option"
  be_revision :: "string option"
  be_subdir :: "string option"

record resolved_source =
  bs_package_id :: string
  bs_revision :: string
  bs_tree_digest :: string
  bs_manifest_digest :: string

record declaration_identity =
  bd_name :: string
  bd_kind :: string
  bd_owner_path :: string
  bd_owner_digest :: string
  bd_dependencies :: "string list"

record base_identity =
  bi_name :: string
  bi_kind :: string
  bi_levels :: "string list"
  bi_type :: string
  bi_value :: "string option"
  bi_dependencies :: "string list"

text \<open>The field name of a declaration's check, \<open>prefix[name]suffix\<close>.\<close>

definition field_of :: "string \<Rightarrow> string \<Rightarrow> string \<Rightarrow> string" where
  "field_of kind name suffix = kind @ ''['' @ name @ '']'' @ suffix"

definition check_environment :: "bundle_environment \<Rightarrow> unit bresult" where
  "check_environment e = in_turn
     ([bundle_text (be_name e) ''environment.name'', bundle_text (be_toolchain e) ''environment.lean_toolchain'',
       refuse_if (be_imports e = []) ''missing-environment-imports'' ''environment.imports''] @
      map (\<lambda>(i, line). bundle_text line (''environment.imports['' @ nat_str i @ '']'')) (enumerate 0 (be_imports e)) @
      [refuse_if (be_repo_url e = None \<and> (be_revision e \<noteq> None \<or> be_subdir e \<noteq> None)) ''incomplete-environment-source''
         ''repo_url is required when revision or subdir is present''] @
      (case be_repo_url e of
         None \<Rightarrow> []
       | Some url \<Rightarrow>
           [bundle_text url ''environment.repo_url'',
            case be_revision e of
              None \<Rightarrow> refuse_if True ''incomplete-environment-source'' ''revision is required for a project-aware environment''
            | Some revision \<Rightarrow> bundle_text revision ''environment.revision'']))"

definition check_resolved_source :: "resolved_source \<Rightarrow> unit bresult" where
  "check_resolved_source s = in_turn
     [bundle_text (bs_package_id s) ''resolved_source.package_id'', bundle_text (bs_revision s) ''resolved_source.revision'',
      bundle_sha256 (bs_tree_digest s) ''resolved_source.source_tree_digest'',
      bundle_sha256 (bs_manifest_digest s) ''resolved_source.lake_manifest_digest'']"

definition check_declaration :: "declaration_identity \<Rightarrow> unit bresult" where
  "check_declaration d = in_turn
     ([bundle_text (bd_name d) ''declaration.name'',
       bundle_text (bd_kind d) (field_of ''declaration'' (bd_name d) ''.kind''),
       bundle_owner_path (bd_owner_path d) (field_of ''declaration'' (bd_name d) ''.owner_path''),
       bundle_sha256 (bd_owner_digest d) (field_of ''declaration'' (bd_name d) ''.owner_source_digest''),
       refuse_if (bd_name d \<in> set (bd_dependencies d)) ''self-dependency'' (bd_name d),
       refuse_if (\<not> distinct (bd_dependencies d)) ''duplicate-dependency'' (bd_name d)] @
      map (\<lambda>dep. bundle_text dep (field_of ''declaration'' (bd_name d) ''.local_dependencies'')) (bd_dependencies d))"

definition check_base_identity :: "base_identity \<Rightarrow> unit bresult" where
  "check_base_identity d = in_turn
     ([bundle_text (bi_name d) ''proof_base_declaration.name'',
       bundle_text (bi_kind d) (field_of ''proof_base_declaration'' (bi_name d) ''.kind''),
       bundle_text (bi_type d) (field_of ''proof_base_declaration'' (bi_name d) ''.type_source'')] @
      (case bi_value d of None \<Rightarrow> []
       | Some v \<Rightarrow> [bundle_text v (field_of ''proof_base_declaration'' (bi_name d) ''.value_source'')]) @
      [refuse_if (\<not> distinct (bi_levels d)) ''proof-base-duplicate-level-parameter'' (bi_name d)] @
      map (\<lambda>l. bundle_text l (field_of ''proof_base_declaration'' (bi_name d) ''.level_params'')) (bi_levels d) @
      [refuse_if (bi_name d \<in> set (bi_dependencies d)) ''proof-base-self-dependency'' (bi_name d),
       refuse_if (\<not> distinct (bi_dependencies d)) ''proof-base-duplicate-dependency'' (bi_name d)] @
      map (\<lambda>dep. bundle_text dep (field_of ''proof_base_declaration'' (bi_name d) ''.local_dependencies''))
        (bi_dependencies d))"

section \<open>Their records\<close>

abbreviation json_names :: "string list \<Rightarrow> json" where
  "json_names ss \<equiv> JList (map JStr ss)"

definition environment_record :: "bundle_environment \<Rightarrow> json" where
  "environment_record e = JObj
     [(''imports'', json_names (be_imports e)), (''lean_toolchain'', JStr (be_toolchain e)), (''name'', JStr (be_name e)),
      (''repo_url'', json_option (be_repo_url e)), (''revision'', json_option (be_revision e)),
      (''subdir'', json_option (be_subdir e))]"

definition resolved_record :: "resolved_source \<Rightarrow> json" where
  "resolved_record s = JObj
     [(''lake_manifest_digest'', JStr (bs_manifest_digest s)), (''package_id'', JStr (bs_package_id s)),
      (''revision'', JStr (bs_revision s)), (''source_tree_digest'', JStr (bs_tree_digest s))]"

definition identity_record :: "declaration_identity \<Rightarrow> json" where
  "identity_record d = JObj
     [(''kind'', JStr (bd_kind d)), (''local_dependencies'', json_names (sort (bd_dependencies d))),
      (''name'', JStr (bd_name d)), (''owner_path'', JStr (bd_owner_path d)),
      (''owner_source_digest'', JStr (bd_owner_digest d))]"

definition base_record :: "base_identity \<Rightarrow> json" where
  "base_record d = JObj
     [(''kind'', JStr (bi_kind d)), (''level_params'', json_names (bi_levels d)),
      (''local_dependencies'', json_names (sort (bi_dependencies d))), (''name'', JStr (bi_name d)),
      (''type_source'', JStr (bi_type d)), (''value_source'', json_option (bi_value d))]"

definition base_interface_record :: "base_identity \<Rightarrow> json" where
  "base_interface_record d = JObj
     [(''level_params'', json_names (bi_levels d)), (''name'', JStr (bi_name d)),
      (''type_source'', JStr (bi_type d)), (''value_source'', json_option (bi_value d))]"

definition interface_digest :: "(bytes \<Rightarrow> bytes) \<Rightarrow> string list \<Rightarrow> base_identity list \<Rightarrow> string" where
  "interface_digest sha imports ds = sha256_digest sha (canonical_ascii_json (JObj
     [(''declarations'', JList (map base_interface_record ds)), (''imports'', json_names imports)]))"

section \<open>Bundles\<close>

record independent_bundle =
  ib_root_module :: string
  ib_root_declarations :: "string list"
  ib_toolchain :: string
  ib_environment :: bundle_environment
  ib_resolved_sources :: "resolved_source list"
  ib_base_imports :: "string list"
  ib_interface_digest :: string
  ib_base_declarations :: "base_identity list"
  ib_declarations :: "declaration_identity list"
  ib_source :: string
  ib_schema_id :: string

text \<open>The loops that check the order: a dependency is declared, and declared before.\<close>

fun check_dependencies :: "string list \<Rightarrow> string list \<Rightarrow> string \<Rightarrow> string list \<Rightarrow> unit bresult" where
  "check_dependencies names emitted n [] = Inr ()"
| "check_dependencies names emitted n (d # ds) =
     (if d \<notin> set names then Inl (BundleValidationError ''missing-local-dependency'' (n @ '' -> '' @ d))
      else if d \<notin> set emitted then Inl (BundleValidationError ''non-topological-order'' (n @ '' -> '' @ d))
      else check_dependencies names emitted n ds)"

fun check_order :: "string list \<Rightarrow> string list \<Rightarrow> (string \<times> string list) list \<Rightarrow> unit bresult" where
  "check_order names emitted [] = Inr ()"
| "check_order names emitted ((n, deps) # ds) =
     res_bind (check_dependencies names emitted n deps) (\<lambda>_. check_order names (n # emitted) ds)"

definition ordered_declarations :: "independent_bundle \<Rightarrow> (string \<times> string list) list" where
  "ordered_declarations b =
     map (\<lambda>d. (bi_name d, bi_dependencies d)) (ib_base_declarations b) @
     map (\<lambda>d. (bd_name d, bd_dependencies d)) (ib_declarations b)"

definition check_bundle :: "(bytes \<Rightarrow> bytes) \<Rightarrow> independent_bundle \<Rightarrow> unit bresult" where
  "check_bundle sha b =
     (let root = ib_root_module b; base = map bi_name (ib_base_declarations b); own = map bd_name (ib_declarations b) in
      in_turn
       ([refuse_if (ib_schema_id b \<noteq> BUNDLE_SCHEMA) ''unsupported-schema'' (ib_schema_id b),
         bundle_text root ''root_module'', bundle_text (ib_toolchain b) ''lean_toolchain'',
         refuse_if (ib_toolchain b \<noteq> be_toolchain (ib_environment b)) ''toolchain-mismatch''
           ''local and AXLE Lean toolchains differ'',
         refuse_if (ib_root_declarations b = []) ''missing-root-declaration'' root,
         refuse_if (\<not> distinct (ib_root_declarations b)) ''duplicate-root-declaration'' root,
         refuse_if (ib_resolved_sources b = []) ''missing-resolved-source'' root,
         refuse_if (\<not> distinct (map bs_package_id (ib_resolved_sources b))) ''ambiguous-resolved-source'' root,
         refuse_if (\<not> distinct (ib_base_imports b)) ''duplicate-proof-base-import'' root] @
        map (\<lambda>i. bundle_text i ''proof_base_imports'') (ib_base_imports b) @
        [bundle_sha256 (ib_interface_digest b) ''proof_base_interface_digest'',
         refuse_if ((ib_base_imports b = []) \<noteq> (ib_base_declarations b = [])) ''proof-base-interface-mismatch'' root,
         refuse_if (ib_interface_digest b \<noteq> interface_digest sha (ib_base_imports b) (ib_base_declarations b))
           ''proof-base-interface-digest-mismatch'' root,
         refuse_if (ib_declarations b = []) ''missing-declaration-closure'' root,
         refuse_if (\<not> distinct base) ''duplicate-proof-base-declaration'' root,
         refuse_if (\<not> distinct own) ''duplicate-declaration'' root,
         refuse_if (set base \<inter> set own \<noteq> {}) ''proof-base-source-declaration-overlap'' root] @
        map (\<lambda>r. refuse_if (r \<notin> set own) ''root-outside-closure'' r) (ib_root_declarations b) @
        [check_order (base @ own) [] (ordered_declarations b),
         bundle_text (ib_source b) ''canonical_source'']))"

section \<open>The manifest and the digest\<close>

definition bundle_encode :: "string \<Rightarrow> bytes bresult" where
  "bundle_encode s = (if utf8_valid s then Inr s else Inl BundleEncodeError)"

definition canonical_source_digest :: "(bytes \<Rightarrow> bytes) \<Rightarrow> independent_bundle \<Rightarrow> string bresult" where
  "canonical_source_digest sha b = res_bind (bundle_encode (ib_source b)) (\<lambda>s. Inr (sha256_digest sha s))"

definition manifest_members :: "independent_bundle \<Rightarrow> string \<Rightarrow> (string \<times> json) list" where
  "manifest_members b source_digest =
     [(''axle_environment'', environment_record (ib_environment b)), (''canonical_source_digest'', JStr source_digest),
      (''declarations'', JList (map identity_record (ib_declarations b))), (''lean_toolchain'', JStr (ib_toolchain b)),
      (''proof_base_declarations'', JList (map base_record (ib_base_declarations b))),
      (''proof_base_imports'', json_names (sort (ib_base_imports b))),
      (''proof_base_interface_digest'', JStr (ib_interface_digest b)),
      (''resolved_sources'', JList (map resolved_record (sort_key bs_package_id (ib_resolved_sources b)))),
      (''root_declarations'', json_names (sort (ib_root_declarations b))), (''root_module'', JStr (ib_root_module b)),
      (''schema_id'', JStr (ib_schema_id b))]"

definition bundle_manifest :: "(bytes \<Rightarrow> bytes) \<Rightarrow> independent_bundle \<Rightarrow> json bresult" where
  "bundle_manifest sha b = res_bind (canonical_source_digest sha b) (\<lambda>d. Inr (JObj (manifest_members b d)))"

definition bundle_digest :: "(bytes \<Rightarrow> bytes) \<Rightarrow> independent_bundle \<Rightarrow> string bresult" where
  "bundle_digest sha b =
     res_bind (bundle_manifest sha b) (\<lambda>m.
     res_bind (bundle_encode (canonical_json m)) (\<lambda>manifest.
     res_bind (bundle_encode (ib_source b)) (\<lambda>source.
     Inr (sha256_digest sha (manifest @ CHR 0x00 # source)))))"

end
