(* ===== verification/Independent_Bundle_Props.thy ===== *)
theory Independent_Bundle_Props
  imports Independent_Bundle
begin

text \<open>
  What the checks of an independent bundle decide, and what its digest identifies.
\<close>

section \<open>Checks\<close>

text \<open>Who needs whom in a bundle, its own declarations and those of the proof base alike.\<close>

definition bundle_needs :: "independent_bundle \<Rightarrow> (string \<times> string) set" where
  "bundle_needs b = {(m, n). \<exists>deps. (n, deps) \<in> set (ordered_declarations b) \<and> m \<in> set deps}"

definition bundle_names :: "independent_bundle \<Rightarrow> string list" where
  "bundle_names b = map bi_name (ib_base_declarations b) @ map bd_name (ib_declarations b)"

text \<open>What a bundle must be: a closed, ordered set of declarations with the identity of its interface.\<close>

definition bundle_well_formed :: "(bytes \<Rightarrow> bytes) \<Rightarrow> independent_bundle \<Rightarrow> bool" where
  "bundle_well_formed sha b \<longleftrightarrow>
     ib_schema_id b = BUNDLE_SCHEMA \<and> ib_toolchain b = be_toolchain (ib_environment b) \<and>
     \<not> blank (ib_root_module b) \<and> \<not> blank (ib_toolchain b) \<and> \<not> blank (ib_source b) \<and>
     ib_resolved_sources b \<noteq> [] \<and> distinct (map bs_package_id (ib_resolved_sources b)) \<and>
     distinct (ib_base_imports b) \<and> (\<forall>i \<in> set (ib_base_imports b). \<not> blank i) \<and>
     (ib_base_imports b = [] \<longleftrightarrow> ib_base_declarations b = []) \<and>
     is_sha256 (ib_interface_digest b) \<and>
     ib_interface_digest b = interface_digest sha (ib_base_imports b) (ib_base_declarations b) \<and>
     ib_root_declarations b \<noteq> [] \<and> distinct (ib_root_declarations b) \<and>
     set (ib_root_declarations b) \<subseteq> bd_name ` set (ib_declarations b) \<and>
     distinct (bundle_names b) \<and> ordered_from (bundle_needs b) {} (bundle_names b)"

lemma check_dependencies_ok:
  "check_dependencies names emitted n ds = Inr () \<longleftrightarrow> set ds \<subseteq> set names \<inter> set emitted"
  by (induction names emitted n ds rule: check_dependencies.induct) auto

lemma check_order_ok:
  "distinct (map fst ds) \<Longrightarrow> set emitted \<subseteq> set names \<Longrightarrow> set (map fst ds) \<subseteq> set names \<Longrightarrow>
   set emitted \<inter> set (map fst ds) = {} \<Longrightarrow> (\<forall>(n, deps) \<in> set ds. {m. (m, n) \<in> R} = set deps) \<Longrightarrow>
   check_order names emitted ds = Inr () \<longleftrightarrow> ordered_from R (set emitted) (map fst ds)"
proof (induction names emitted ds rule: check_order.induct)
  case (2 names emitted n deps ds)
  have m: "{m. (m, n) \<in> R} = set deps" using 2(6) by simp
  have c: "check_dependencies names emitted n deps = Inr () \<longleftrightarrow> set deps \<subseteq> set emitted"
    using 2(3) unfolding check_dependencies_ok by blast
  show ?case
  proof (cases "set deps \<subseteq> set emitted")
    case True
    then have d: "check_dependencies names emitted n deps = Inr ()" using c by simp
    have "check_order names (n # emitted) ds = Inr () \<longleftrightarrow> ordered_from R (set (n # emitted)) (map fst ds)"
      by (rule 2(1) [OF d]) (use 2(2-6) in auto)
    then show ?thesis using True m d 2(5) by simp
  next
    case False
    then show ?thesis using c m by (auto simp: res_bind_Inr_iff)
  qed
qed simp

lemma bundle_names_keys: "map fst (ordered_declarations b) = bundle_names b"
  by (simp add: ordered_declarations_def bundle_names_def comp_def)

lemma bundle_needs_of:
  assumes "distinct (bundle_names b)" and "(n, deps) \<in> set (ordered_declarations b)"
  shows "{m. (m, n) \<in> bundle_needs b} = set deps"
proof -
  have "deps' = deps" if "(n, deps') \<in> set (ordered_declarations b)" for deps'
    by (rule eq_key_imp_eq_value [OF _ that assms(2)]) (use assms(1) in \<open>simp only: bundle_names_keys\<close>)
  with assms(2) show ?thesis unfolding bundle_needs_def by blast
qed

lemma bundle_order_ok:
  assumes "distinct (bundle_names b)"
  shows "check_order (bundle_names b) [] (ordered_declarations b) = Inr () \<longleftrightarrow>
    ordered_from (bundle_needs b) {} (bundle_names b)"
  using check_order_ok [of "ordered_declarations b" "[]" "bundle_names b" "bundle_needs b",
      unfolded bundle_names_keys, OF assms] bundle_needs_of [OF assms] by (simp add: case_prod_unfold)

lemma bundle_accepted: "check_bundle sha b = Inr () \<longleftrightarrow> bundle_well_formed sha b"
proof (cases "distinct (bundle_names b)")
  case True
  then have d: "distinct (map bi_name (ib_base_declarations b))" "distinct (map bd_name (ib_declarations b))"
    "set (map bi_name (ib_base_declarations b)) \<inter> set (map bd_name (ib_declarations b)) = {}"
    by (simp_all add: bundle_names_def)
  have ne: "set rs \<subseteq> bd_name ` set (ib_declarations b) \<Longrightarrow> rs \<noteq> [] \<Longrightarrow> ib_declarations b \<noteq> []" for rs by auto
  show ?thesis
    unfolding check_bundle_def Let_def in_turn_ok set_append ball_Un set_map ball_simps list.set insert_iff
      refuse_if_ok bundle_checks_ok bundle_names_def [symmetric] bundle_order_ok [OF True] bundle_well_formed_def
    using True d ne [of "ib_root_declarations b"] by auto
next
  case False
  then show ?thesis
    unfolding check_bundle_def Let_def in_turn_ok bundle_well_formed_def by (auto simp: bundle_names_def)
qed

text \<open>
  The constructor accepts exactly the well-formed bundles: the roots are declared, names are
  unique across the bundle and its proof base, each declaration comes after all that it needs, the
  interface digest is that of the interface, and packages and imports are unambiguous.
\<close>

theorem bundle_accepted_iff: "check_bundle sha b = Inr () \<longleftrightarrow> bundle_well_formed sha b"
  by (rule bundle_accepted)

text \<open>The order of a bundle leaves no room for circular dependencies.\<close>

lemma bundle_acyclic:
  assumes "check_bundle sha b = Inr ()"
  shows "acyclic (bundle_needs b)" and "fst ` bundle_needs b \<subseteq> set (bundle_names b)"
proof -
  have o: "ordered_from (bundle_needs b) {} (bundle_names b)" and d: "distinct (bundle_names b)"
    using assms by (simp_all add: bundle_accepted bundle_well_formed_def)
  have n: "bundle_needs b \<subseteq> UNIV \<times> set (bundle_names b)"
    by (force simp: bundle_needs_def ordered_declarations_def bundle_names_def)
  show "acyclic (bundle_needs b)" by (rule ordered_acyclic [OF o n])
  show "fst ` bundle_needs b \<subseteq> set (bundle_names b)"
  proof
    fix m assume "m \<in> fst ` bundle_needs b"
    then obtain k where mk: "(m, k) \<in> bundle_needs b" by auto
    then have "k \<in> set (bundle_names b)" using n by blast
    then obtain xs ys where "bundle_names b = xs @ k # ys" by (auto dest: split_list)
    with ordered_from_before [of "bundle_needs b" "{}" xs k ys] o mk show "m \<in> set (bundle_names b)" by auto
  qed
qed

section \<open>Texts without NUL\<close>

text \<open>JSON texts escape the NUL character, so it separates the manifest from the source.\<close>

fun nul_free :: "json \<Rightarrow> bool" where
  "nul_free (JFloat t) = (CHR 0x00 \<notin> set t)"
| "nul_free (JList vs) = list_all nul_free vs"
| "nul_free (JObj kvs) = list_all (\<lambda>(k, v). nul_free v) kvs"
| "nul_free v = True"

lemma hex_digit_no_nul: "n < 16 \<Longrightarrow> hex_digit n \<noteq> CHR 0x00"
proof
  assume "n < 16" and "hex_digit n = CHR 0x00"
  then have "is_hex CHR 0x00" using hex_digit_simps(1) by metis
  then show False by (simp add: is_hex_def)
qed

lemma js_char_no_nul: "CHR 0x00 \<notin> set (js_char c)"
proof -
  have "CHR 0x00 \<notin> set (hex_byte c)"
    using hex_digit_no_nul [of "of_char c div 16"] hex_digit_no_nul [of "of_char c mod 16"] by (simp add: hex_byte_def)
  moreover have "c = CHR 0x00 \<Longrightarrow> c < CHR 0x20" by (simp add: less_char_def)
  ultimately show ?thesis by (auto simp: js_char_def)
qed

lemma json_string_no_nul: "CHR 0x00 \<notin> set (json_string s)"
  using js_char_no_nul by (auto simp: json_string_def)

lemma str_join_no_nul: "CHR 0x00 \<notin> set sep \<Longrightarrow> \<forall>s \<in> set ss. CHR 0x00 \<notin> set s \<Longrightarrow> CHR 0x00 \<notin> set (str_join sep ss)"
  by (induction sep ss rule: str_join.induct) auto

lemma int_str_no_nul: "CHR 0x00 \<notin> set (int_str i)"
proof -
  have "CHR 0x00 \<notin> set (nat_str n)" for n using nat_str_digits [of n] by (auto simp: is_digit_def)
  then show ?thesis by (simp add: int_str_def)
qed

lemma dumps_no_nul: "nul_free v \<Longrightarrow> CHR 0x00 \<notin> set (dumps v)"
proof (induction v)
  case (JList vs)
  then have "CHR 0x00 \<notin> set (str_join '','' (map dumps vs))" by (intro str_join_no_nul) (auto simp: list_all_iff)
  then show ?case by simp
next
  case (JObj kvs)
  then have "CHR 0x00 \<notin> set (str_join '','' (map (\<lambda>(k, v). json_string k @ CHR '':'' # dumps v) kvs))"
    using json_string_no_nul by (intro str_join_no_nul) (fastforce simp: list_all_iff)+
  then show ?case by simp
qed (simp_all add: json_string_no_nul int_str_no_nul)

lemma nul_free_sort: "nul_free v \<Longrightarrow> nul_free (sort_keys v)"
  by (induction v) (fastforce simp: list_all_iff)+

lemma canonical_no_nul: "nul_free v \<Longrightarrow> CHR 0x00 \<notin> set (canonical_json v)"
  unfolding canonical_json_def by (intro dumps_no_nul nul_free_sort)

lemma split_at_nul:
  assumes "m @ z # s = m' @ z # s'" and "z \<notin> set m" and "z \<notin> set m'"
  shows "m = m' \<and> s = s'"
  using assms by (induction m arbitrary: m') (case_tac m'; auto)+

section \<open>What a digest identifies\<close>

text \<open>
  The manifest lists the roots, the imports, the dependencies and the sources in sorted order: two
  bundles that differ only in these orders are one bundle.
\<close>

definition sorted_identity :: "declaration_identity \<Rightarrow> declaration_identity" where
  "sorted_identity d = d\<lparr>bd_dependencies := sort (bd_dependencies d)\<rparr>"

definition sorted_base :: "base_identity \<Rightarrow> base_identity" where
  "sorted_base d = d\<lparr>bi_dependencies := sort (bi_dependencies d)\<rparr>"

definition sorted_bundle :: "independent_bundle \<Rightarrow> independent_bundle" where
  "sorted_bundle b = b\<lparr>ib_root_declarations := sort (ib_root_declarations b), ib_base_imports := sort (ib_base_imports b),
     ib_resolved_sources := sort_key bs_package_id (ib_resolved_sources b),
     ib_base_declarations := map sorted_base (ib_base_declarations b),
     ib_declarations := map sorted_identity (ib_declarations b)\<rparr>"

lemma record_ok:
  "json_ok fl (environment_record e)" "json_ok fl (resolved_record s)" "json_ok fl (identity_record d)"
  "json_ok fl (base_record i)" "nul_free (environment_record e)" "nul_free (resolved_record s)"
  "nul_free (identity_record d)" "nul_free (base_record i)"
  by (cases "be_repo_url e"; cases "be_revision e"; cases "be_subdir e"; cases "bi_value i";
      simp add: environment_record_def resolved_record_def identity_record_def base_record_def json_option_def list_all_iff)+

lemma manifest_ok: "json_ok fl (JObj (manifest_members b d))" "nul_free (JObj (manifest_members b d))"
  by (simp_all add: manifest_members_def list_all_iff record_ok)

lemma names_inject [simp]: "map (sort_keys \<circ> JStr) ss = map (sort_keys \<circ> JStr) ts \<longleftrightarrow> ss = ts"
  by (rule inj_map_eq_map) (simp add: inj_def)

lemma record_inject:
  "sort_keys (environment_record e) = sort_keys (environment_record e') \<Longrightarrow> e = e'"
  "sort_keys (resolved_record s) = sort_keys (resolved_record s') \<Longrightarrow> s = s'"
  "sort_keys (identity_record d) = sort_keys (identity_record d') \<Longrightarrow> sorted_identity d = sorted_identity d'"
  "sort_keys (base_record i) = sort_keys (base_record i') \<Longrightarrow> sorted_base i = sorted_base i'"
  by (simp_all add: environment_record_def resolved_record_def identity_record_def base_record_def sorted_identity_def
      sorted_base_def json_option_inject)

lemma map_inject:
  assumes "map f xs = map f ys" and "\<And>x y. f x = f y \<Longrightarrow> g x = g y"
  shows "map g xs = map g ys"
  using assms(1)
proof (induction xs arbitrary: ys)
  case (Cons x xs)
  then obtain y zs where "ys = y # zs" "f x = f y" "map f xs = map f zs" by (auto simp: Cons_eq_map_conv)
  with Cons.IH [of zs] assms(2) [of x y] show ?case by simp
qed simp

lemma manifest_items:
  "item (manifest_members b d) ''axle_environment'' = environment_record (ib_environment b)"
  "item (manifest_members b d) ''declarations'' = JList (map identity_record (ib_declarations b))"
  "item (manifest_members b d) ''lean_toolchain'' = JStr (ib_toolchain b)"
  "item (manifest_members b d) ''proof_base_declarations'' = JList (map base_record (ib_base_declarations b))"
  "item (manifest_members b d) ''proof_base_imports'' = json_names (sort (ib_base_imports b))"
  "item (manifest_members b d) ''proof_base_interface_digest'' = JStr (ib_interface_digest b)"
  "item (manifest_members b d) ''resolved_sources'' =
     JList (map resolved_record (sort_key bs_package_id (ib_resolved_sources b)))"
  "item (manifest_members b d) ''root_declarations'' = json_names (sort (ib_root_declarations b))"
  "item (manifest_members b d) ''root_module'' = JStr (ib_root_module b)"
  "item (manifest_members b d) ''schema_id'' = JStr (ib_schema_id b)"
  unfolding manifest_members_def item_def dict_get_or_def by simp_all

lemma sort_keys_list: "sort_keys (JList (map f xs)) = JList (map (sort_keys \<circ> f) xs)"
  by simp

lemma manifest_equal_items:
  assumes "canonical_json (JObj (manifest_members b d)) = canonical_json (JObj (manifest_members b' d'))"
  shows "sort_keys (item (manifest_members b d) k) = sort_keys (item (manifest_members b' d') k)"
  by (rule canonical_items [OF manifest_ok(1) manifest_ok(1) assms])

lemma manifest_identifies:
  assumes "canonical_json (JObj (manifest_members b d)) = canonical_json (JObj (manifest_members b' d'))"
    and "ib_source b = ib_source b'"
  shows "sorted_bundle b = sorted_bundle b'"
proof -
  note i = manifest_equal_items [OF assms(1)]
  have e: "ib_environment b = ib_environment b'"
    by (rule record_inject(1) [OF i [of "''axle_environment''", unfolded manifest_items]])
  have d: "map sorted_identity (ib_declarations b) = map sorted_identity (ib_declarations b')"
    by (rule map_inject [OF i [of "''declarations''", unfolded manifest_items sort_keys_list json.inject]])
      (rule record_inject(3), simp only: o_apply)
  have p: "map sorted_base (ib_base_declarations b) = map sorted_base (ib_base_declarations b')"
    by (rule map_inject [OF i [of "''proof_base_declarations''", unfolded manifest_items sort_keys_list json.inject]])
      (rule record_inject(4), simp only: o_apply)
  have "map id (sort_key bs_package_id (ib_resolved_sources b)) = map id (sort_key bs_package_id (ib_resolved_sources b'))"
    by (rule map_inject [OF i [of "''resolved_sources''", unfolded manifest_items sort_keys_list json.inject]])
      (unfold o_apply id_apply, rule record_inject(2))
  then have s: "sort_key bs_package_id (ib_resolved_sources b) = sort_key bs_package_id (ib_resolved_sources b')" by simp
  note l = i [of "''proof_base_imports''", unfolded manifest_items sort_keys_list json.inject names_inject]
    i [of "''root_declarations''", unfolded manifest_items sort_keys_list json.inject names_inject]
  have "ib_toolchain b = ib_toolchain b'" "ib_interface_digest b = ib_interface_digest b'"
    "ib_root_module b = ib_root_module b'" "ib_schema_id b = ib_schema_id b'"
    using i [of "''lean_toolchain''"] i [of "''proof_base_interface_digest''"] i [of "''root_module''"] i [of "''schema_id''"]
    unfolding manifest_items by simp_all
  with assms(2) show ?thesis
    unfolding sorted_bundle_def by (cases b; cases b') (use e d p s l in simp)
qed

text \<open>The text that a digest is taken of.\<close>

definition bundle_payload :: "(bytes \<Rightarrow> bytes) \<Rightarrow> independent_bundle \<Rightarrow> bytes" where
  "bundle_payload sha b =
     canonical_json (JObj (manifest_members b (sha256_digest sha (ib_source b)))) @ CHR 0x00 # ib_source b"

lemma bundle_digest_Inr: "bundle_digest sha b = Inr d \<Longrightarrow> d = sha256_digest sha (bundle_payload sha b)"
  by (auto simp: bundle_digest_def bundle_manifest_def canonical_source_digest_def bundle_encode_def bundle_payload_def
      split: if_splits)

text \<open>
  C25. The digest of a bundle identifies it: two bundles with one digest have the same environment,
  sources, interface, declarations and canonical text, up to the orders that the manifest sorts,
  unless SHA-256 collides on the two texts. No text can be shifted between manifest and source.
\<close>

theorem bundle_digest_identifies:
  assumes "bundle_digest sha b = Inr d" and "bundle_digest sha b' = Inr d"
    and "inj_on sha {bundle_payload sha b, bundle_payload sha b'}"
  shows "sorted_bundle b = sorted_bundle b' \<and> ib_source b = ib_source b'"
proof -
  have "sha256_digest sha (bundle_payload sha b) = sha256_digest sha (bundle_payload sha b')"
    using bundle_digest_Inr [OF assms(1)] bundle_digest_Inr [OF assms(2)] by (rule subst)
  then have "sha (bundle_payload sha b) = sha (bundle_payload sha b')" unfolding sha256_digest_def by simp
  then have p: "bundle_payload sha b = bundle_payload sha b'" by (rule inj_onD [OF assms(3)]) blast+
  note x = split_at_nul [OF p [unfolded bundle_payload_def] canonical_no_nul [OF manifest_ok(2)] canonical_no_nul [OF manifest_ok(2)]]
  from manifest_identifies [OF conjunct1 [OF x] conjunct2 [OF x]] conjunct2 [OF x] show ?thesis by (rule conjI)
qed

section \<open>Two bundles that the manifest does not tell apart\<close>

lemma bundle_digest_ascii:
  assumes "all_ascii (ib_source b)" and "json_ascii (JObj (manifest_members b (sha256_digest sha (ib_source b))))"
  shows "bundle_digest sha b = Inr (sha256_digest sha (bundle_payload sha b))"
  using canonical_ascii [OF sort_keys_ascii [OF assms(2)]] ascii_utf8 [OF assms(1)]
  unfolding bundle_digest_def bundle_manifest_def canonical_source_digest_def bundle_encode_def bundle_payload_def
  by simp

definition ex_bundle_declaration :: "string \<Rightarrow> string list \<Rightarrow> declaration_identity" where
  "ex_bundle_declaration name deps =
     \<lparr>bd_name = name, bd_kind = ''theorem'', bd_owner_path = ''P/Main.lean'', bd_owner_digest = ''sha256:'' @ replicate 64 CHR ''0'',
      bd_dependencies = deps\<rparr>"

definition ex_bundle :: "string list \<Rightarrow> independent_bundle" where
  "ex_bundle roots =
     \<lparr>ib_root_module = ''P.Main'', ib_root_declarations = roots, ib_toolchain = ''4.9.0'',
      ib_environment = \<lparr>be_name = ''lean'', be_toolchain = ''4.9.0'', be_imports = [''Mathlib''], be_repo_url = None,
        be_revision = None, be_subdir = None\<rparr>,
      ib_resolved_sources = [\<lparr>bs_package_id = ''P'', bs_revision = ''1'', bs_tree_digest = ''sha256:'' @ replicate 64 CHR ''0'',
        bs_manifest_digest = ''sha256:'' @ replicate 64 CHR ''0''\<rparr>],
      ib_base_imports = [], ib_interface_digest = interface_digest id [] [], ib_base_declarations = [],
      ib_declarations = [ex_bundle_declaration ''P.a'' [], ex_bundle_declaration ''P.b'' [''P.a'']],
      ib_source = ''theorem a'', ib_schema_id = BUNDLE_SCHEMA\<rparr>"

lemma ex_bundle_sorted: "sorted_bundle (ex_bundle [''P.b'', ''P.a'']) = sorted_bundle (ex_bundle [''P.a'', ''P.b''])"
  by (simp add: sorted_bundle_def ex_bundle_def)

lemma replicate_ascii: "\<not> digit7 c \<Longrightarrow> all_ascii (replicate n c)"
  by (simp add: all_ascii_def list_all_iff)

lemma ex_bundle_ascii:
  assumes "list_all all_ascii roots"
  shows "json_ascii (JObj (manifest_members (ex_bundle roots) (sha256_digest sha s)))"
proof -
  have "list_all all_ascii (sort roots)" using assms by (simp add: list_all_iff)
  then have r: "json_ascii (json_names (sort roots))" by (simp add: list_all_iff)
  have d: "all_ascii (sha256_digest f t)" for f t by (simp add: sha256_digest_def hex_text_ascii)
  show ?thesis
    by (simp add: manifest_members_def ex_bundle_def ex_bundle_declaration_def environment_record_def identity_record_def
        resolved_record_def json_option_def interface_digest_def d BUNDLE_SCHEMA_def replicate_ascii)
      (use r in simp)
qed

theorem bundle_digest_identifies_witness:
  "\<exists>d. bundle_digest id (ex_bundle [''P.b'', ''P.a'']) = Inr d \<and> bundle_digest id (ex_bundle [''P.a'', ''P.b'']) = Inr d \<and>
     sorted_bundle (ex_bundle [''P.b'', ''P.a'']) = sorted_bundle (ex_bundle [''P.a'', ''P.b'']) \<and>
     ib_source (ex_bundle [''P.b'', ''P.a'']) = ib_source (ex_bundle [''P.a'', ''P.b''])"
proof -
  let ?b = "ex_bundle [''P.b'', ''P.a'']" and ?c = "ex_bundle [''P.a'', ''P.b'']"
  have s: "all_ascii (ib_source (ex_bundle roots))" for roots by (simp add: ex_bundle_def)
  have p: "bundle_payload id ?b = bundle_payload id ?c"
    by (simp add: bundle_payload_def manifest_members_def ex_bundle_def)
  have b: "bundle_digest id ?b = Inr (sha256_digest id (bundle_payload id ?b))"
    by (rule bundle_digest_ascii [OF s ex_bundle_ascii]) simp
  have c: "bundle_digest id ?c = Inr (sha256_digest id (bundle_payload id ?b))"
    unfolding p by (rule bundle_digest_ascii [OF s ex_bundle_ascii]) simp
  show ?thesis using b c bundle_digest_identifies [OF b c inj_on_id] by blast
qed

end
