(* ===== verification/Source_Ranges.thy ===== *)
theory Source_Ranges
  imports Source_Closure "HOL-Library.Multiset"
begin

text \<open>
  Source ranges and the anchors of declarations (\<open>poo_flow_proof/axle_exact_closure.py\<close>): ranges that
  lie in one another are coalesced, ranges that overlap otherwise are refused, and each declaration
  is an alias of the anchor of its range. Ranges are compared as Python does, by their numbers.
\<close>

section \<open>Ranges\<close>

definition range_ints :: "source_range \<Rightarrow> int list" where
  "range_ints r = map int_of [sr_start_line r, sr_start_column r, sr_start_char r, sr_end_line r, sr_end_column r, sr_end_char r]"

definition range_key :: "source_range \<Rightarrow> int \<times> int" where
  "range_key r = (int_of (sr_start_line r), int_of (sr_start_char r))"

definition range_end_key :: "source_range \<Rightarrow> int \<times> int" where
  "range_end_key r = (int_of (sr_end_line r), int_of (sr_end_char r))"

definition range_contains :: "source_range \<Rightarrow> source_range \<Rightarrow> bool" where
  "range_contains outer inner \<longleftrightarrow> range_key outer \<le> range_key inner \<and> range_end_key inner \<le> range_end_key outer"

text \<open>The \<open>repr\<close> of a range.\<close>

fun py_int_repr :: "py_int \<Rightarrow> string" where
  "py_int_repr (PyInt i) = int_str i"
| "py_int_repr (PyBool b) = (if b then ''True'' else ''False'')"

definition range_repr :: "source_range \<Rightarrow> string" where
  "range_repr r = ''LeanSourceRange('' @ str_join '', '' (map (\<lambda>(k, v). k @ ''='' @ py_int_repr v)
     [(''start_line'', sr_start_line r), (''start_column'', sr_start_column r), (''start_char_utf16'', sr_start_char r),
      (''end_line'', sr_end_line r), (''end_column'', sr_end_column r), (''end_char_utf16'', sr_end_char r)]) @ '')''"

type_synonym ranged = "(source_range \<times> string list) list"

text \<open>\<open>setdefault(source_range, []).append(name)\<close>.\<close>

fun add_ranged :: "source_range \<Rightarrow> string \<Rightarrow> ranged \<Rightarrow> ranged" where
  "add_ranged r n [] = [(r, [n])]"
| "add_ranged r n ((r', ns) # d) =
     (if range_ints r' = range_ints r then (r', ns @ [n]) # d else (r', ns) # add_ranged r n d)"

fun ranges_by_module :: "lean_declaration list \<Rightarrow> ranged pydict \<Rightarrow> ranged pydict xresult" where
  "ranges_by_module [] t = Inr t"
| "ranges_by_module (d # ds) t =
     (case ld_range d of
        None \<Rightarrow> axle_err ''declaration-source-range-missing'' (ld_name d)
      | Some r \<Rightarrow>
          ranges_by_module ds (dict_set (ld_owner d) (add_ranged r (ld_name d) (dict_get_or t (ld_owner d) [])) t))"

definition range_order :: "source_range \<Rightarrow> int \<times> int \<times> int \<times> int" where
  "range_order r = (int_of (sr_start_line r), int_of (sr_start_char r), - int_of (sr_end_line r), - int_of (sr_end_char r))"

text \<open>The names go to the first range that contains theirs.\<close>

fun extend_containing :: "source_range \<Rightarrow> string list \<Rightarrow> ranged \<Rightarrow> ranged option" where
  "extend_containing r names [] = None"
| "extend_containing r names ((r', ns) # cs) =
     (if range_contains r' r then Some ((r', ns @ names) # cs)
      else map_option ((#) (r', ns)) (extend_containing r names cs))"

fun coalesce_loop :: "ranged \<Rightarrow> ranged \<Rightarrow> ranged xresult" where
  "coalesce_loop [] cs = Inr cs"
| "coalesce_loop ((r, names) # rs) cs =
     (case extend_containing r names cs of
        Some cs' \<Rightarrow> coalesce_loop rs cs'
      | None \<Rightarrow>
          (case find (\<lambda>(r', _). range_key r < range_end_key r') cs of
             Some (r', _) \<Rightarrow> axle_err ''partially-overlapping-source-ranges'' (range_repr r' @ '' <> '' @ range_repr r)
           | None \<Rightarrow> coalesce_loop rs (cs @ [(r, names)])))"

definition coalesce_ranges :: "ranged \<Rightarrow> ranged xresult" where
  "coalesce_ranges d =
     res_bind (coalesce_loop (sort_key (range_order \<circ> fst) d) []) (\<lambda>cs. Inr (map (\<lambda>(r, ns). (r, fromkeys ns)) cs))"

section \<open>Anchors\<close>

definition has_range :: "lean_declaration pydict \<Rightarrow> source_range \<Rightarrow> string \<Rightarrow> bool" where
  "has_range by_name outer n \<longleftrightarrow>
     (case dict_get by_name n of
        None \<Rightarrow> False
      | Some d \<Rightarrow> (case ld_range d of None \<Rightarrow> False | Some r \<Rightarrow> range_ints r = range_ints outer))"

text \<open>\<open>min\<close> by the number of dots, the length and the name.\<close>

definition anchor_of :: "string list \<Rightarrow> string" where
  "anchor_of names = hd (sort_key (\<lambda>n. (count_list n CHR ''.'', length n, n)) names)"

fun alias_ranges :: "lean_declaration pydict \<Rightarrow> ranged \<Rightarrow> string pydict \<Rightarrow> string pydict xresult" where
  "alias_ranges by_name [] aliases = Inr aliases"
| "alias_ranges by_name ((outer, names) # cs) aliases =
     (let outer_names = filter (has_range by_name outer) names in
      if outer_names = [] then axle_err ''source-declaration-anchor-missing'' (str_join '','' names)
      else alias_ranges by_name cs (fold (\<lambda>n. dict_set n (anchor_of outer_names)) names aliases))"

fun alias_modules :: "lean_declaration pydict \<Rightarrow> ranged list \<Rightarrow> string pydict \<Rightarrow> string pydict xresult" where
  "alias_modules by_name [] aliases = Inr aliases"
| "alias_modules by_name (d # ds) aliases =
     res_bind (coalesce_ranges d) (\<lambda>cs. res_bind (alias_ranges by_name cs aliases) (alias_modules by_name ds))"

definition source_declaration_aliases :: "lean_closure \<Rightarrow> string pydict xresult" where
  "source_declaration_aliases c =
     (let by_name = dict_of (map (\<lambda>d. (ld_name d, d)) (lc_declarations c)) in
      res_bind (ranges_by_module (lc_declarations c) []) (\<lambda>t. alias_modules by_name (map snd t) []))"

section \<open>Coalesced ranges\<close>

text \<open>Ranges that follow one another without an overlap.\<close>

definition disjoint_ranges :: "ranged \<Rightarrow> bool" where
  "disjoint_ranges cs \<longleftrightarrow> sorted_wrt (\<lambda>(a, _) (b, _). range_end_key a \<le> range_key b) cs"

text \<open>Each range of \<open>d\<close> lies, with its names, in one of \<open>cs\<close>.\<close>

definition lies_in :: "source_range \<times> string list \<Rightarrow> ranged \<Rightarrow> bool" where
  "lies_in x cs \<longleftrightarrow> (\<exists>y \<in> set cs. range_contains (fst y) (fst x) \<and> set (snd x) \<subseteq> set (snd y))"

definition range_names :: "ranged \<Rightarrow> string list" where
  "range_names d = concat (map snd d)"

lemma range_names_simps [simp]:
  "range_names [] = []" "range_names (x # d) = snd x @ range_names d" "range_names (d @ e) = range_names d @ range_names e"
  by (simp_all add: range_names_def)

lemma range_names_perm: "mset d = mset e \<Longrightarrow> mset (range_names d) = mset (range_names e)"
proof -
  have "mset (range_names d) = sum_mset (image_mset (mset \<circ> snd) (mset d))" for d by (induction d) simp_all
  then show "mset d = mset e \<Longrightarrow> ?thesis" by simp
qed

text \<open>A range of \<open>d\<close> with its names and those of ranges of \<open>d\<close> that lie in it.\<close>

definition gathered :: "ranged \<Rightarrow> source_range \<times> string list \<Rightarrow> bool" where
  "gathered d x \<longleftrightarrow> (\<exists>y \<in> set d. fst y = fst x \<and> set (snd y) \<subseteq> set (snd x)) \<and>
     (\<forall>n \<in> set (snd x). \<exists>y \<in> set d. n \<in> set (snd y) \<and> range_contains (fst x) (fst y))"

lemma fromkeys_set [simp]: "set (fromkeys xs) = set xs"
  by (simp add: fromkeys_def)

lemma contains_refl [simp]: "range_contains r r"
  by (simp add: range_contains_def)

lemma gathered_self: "x \<in> set d \<Longrightarrow> gathered d x"
  using contains_refl unfolding gathered_def by blast

lemma gathered_more:
  assumes "gathered d (R, ns)" and "(r, names) \<in> set d" and "range_contains R r"
  shows "gathered d (R, ns @ names)"
proof -
  obtain y where y: "y \<in> set d" "fst y = R" "set (snd y) \<subseteq> set ns" using assms(1) by (auto simp: gathered_def)
  moreover have "\<exists>y \<in> set d. n \<in> set (snd y) \<and> range_contains R (fst y)" if n: "n \<in> set (ns @ names)" for n
  proof (cases "n \<in> set ns")
    case True
    with assms(1) show ?thesis by (simp add: gathered_def)
  next
    case False
    with n assms(2,3) show ?thesis by (intro bexI [of _ "(r, names)"]) auto
  qed
  ultimately show ?thesis unfolding gathered_def by (intro conjI bexI [of _ y]) auto
qed

lemma extend_Some:
  "extend_containing r names cs = Some cs' \<Longrightarrow>
   map fst cs' = map fst cs \<and> lies_in (r, names) cs' \<and> (\<forall>x. lies_in x cs \<longrightarrow> lies_in x cs') \<and>
   mset (range_names cs') = mset (range_names cs) + mset names \<and>
   ((r, names) \<in> set d \<and> (\<forall>x \<in> set cs. gathered d x) \<longrightarrow> (\<forall>x \<in> set cs'. gathered d x))"
proof (induction r names cs arbitrary: cs' rule: extend_containing.induct)
  case (2 r names r' ns cs)
  show ?case
  proof (cases "range_contains r' r")
    case True
    with 2(2) have c: "cs' = (r', ns @ names) # cs" by simp
    show ?thesis unfolding c using True gathered_more [of d r' ns r names] by (auto simp: lies_in_def)
  next
    case False
    with 2(2) obtain cs1 where cs1: "extend_containing r names cs = Some cs1" "cs' = (r', ns) # cs1" by auto
    from 2(1) [OF False cs1(1)] show ?thesis unfolding cs1(2) by (auto simp: lies_in_def)
  qed
qed simp

lemma extend_None: "extend_containing r names cs = None \<longleftrightarrow> (\<forall>x \<in> set cs. \<not> range_contains (fst x) r)"
  by (induction r names cs rule: extend_containing.induct) auto

lemma disjoint_fst: "map fst cs = map fst cs' \<Longrightarrow> disjoint_ranges cs = disjoint_ranges cs'"
proof -
  have "disjoint_ranges cs \<longleftrightarrow> sorted_wrt (\<lambda>a b. range_end_key a \<le> range_key b) (map fst cs)" for cs
    by (simp add: disjoint_ranges_def sorted_wrt_map case_prod_unfold)
  then show "map fst cs = map fst cs' \<Longrightarrow> ?thesis" by metis
qed

lemma coalesce_loop_Inr:
  "coalesce_loop rs cs = Inr cs' \<Longrightarrow> disjoint_ranges cs \<Longrightarrow> (\<forall>x \<in> set cs. gathered d x) \<Longrightarrow> set rs \<subseteq> set d \<Longrightarrow>
   disjoint_ranges cs' \<and> (\<forall>x \<in> set cs'. gathered d x) \<and> (\<forall>x. lies_in x cs \<or> x \<in> set rs \<longrightarrow> lies_in x cs') \<and>
   mset (range_names cs') = mset (range_names cs) + mset (range_names rs)"
proof (induction rs cs rule: coalesce_loop.induct)
  case (2 r names rs cs)
  have d: "(r, names) \<in> set d" "set rs \<subseteq> set d" using 2(6) by simp_all
  show ?case
  proof (cases "extend_containing r names cs")
    case (Some cs1)
    note e = extend_Some [OF Some, of d]
    have "disjoint_ranges cs1" using e 2(4) disjoint_fst by metis
    moreover have "(\<forall>x \<in> set cs1. gathered d x)" using e d(1) 2(5) by blast
    moreover have "coalesce_loop rs cs1 = Inr cs'" using 2(3) Some by simp
    ultimately have "disjoint_ranges cs' \<and> (\<forall>x \<in> set cs'. gathered d x) \<and> (\<forall>x. lies_in x cs1 \<or> x \<in> set rs \<longrightarrow> lies_in x cs') \<and>
        mset (range_names cs') = mset (range_names cs1) + mset (range_names rs)" using 2(2) [OF Some] d(2) by blast
    with e show ?thesis by auto
  next
    case None
    have f: "find (\<lambda>(r', _). range_key r < range_end_key r') cs = None"
      and c: "coalesce_loop rs (cs @ [(r, names)]) = Inr cs'"
      using 2(3) None by (auto split: option.splits)
    from f have "disjoint_ranges (cs @ [(r, names)])"
      using 2(4) by (auto simp: disjoint_ranges_def sorted_wrt_append find_None_iff)
    moreover have "(\<forall>x \<in> set (cs @ [(r, names)]). gathered d x)" using 2(5) gathered_self [OF d(1)] by auto
    ultimately have "disjoint_ranges cs' \<and> (\<forall>x \<in> set cs'. gathered d x) \<and>
        (\<forall>x. lies_in x (cs @ [(r, names)]) \<or> x \<in> set rs \<longrightarrow> lies_in x cs') \<and>
        mset (range_names cs') = mset (range_names (cs @ [(r, names)])) + mset (range_names rs)" using 2(1) [OF None f c] d(2) by blast
    then show ?thesis by (auto simp: lies_in_def)
  qed
qed simp

text \<open>What makes two ranges overlap without one lying in the other.\<close>

definition overlapping :: "source_range \<Rightarrow> source_range \<Rightarrow> bool" where
  "overlapping a b \<longleftrightarrow> range_key a < range_key b \<and> range_key b < range_end_key a \<and> range_end_key a < range_end_key b"

lemma range_order_le:
  "range_order a \<le> range_order b \<longleftrightarrow> range_key a < range_key b \<or> range_key a = range_key b \<and> range_end_key b \<le> range_end_key a"
  by (auto simp: range_order_def range_key_def range_end_key_def less_eq_prod_def less_prod_def)

lemma coalesce_loop_Inl:
  "coalesce_loop rs cs = Inl e \<Longrightarrow> sorted_wrt (\<lambda>a b. range_order (fst a) \<le> range_order (fst b)) (cs @ rs) \<Longrightarrow>
   (\<exists>detail. e = AxleExactClosureError ''partially-overlapping-source-ranges'' detail) \<and>
   (\<exists>a \<in> fst ` set (cs @ rs). \<exists>b \<in> fst ` set (cs @ rs). overlapping a b)"
proof (induction rs cs rule: coalesce_loop.induct)
  case (2 r names rs cs)
  show ?case
  proof (cases "extend_containing r names cs")
    case (Some cs1)
    have m: "map fst cs1 = map fst cs" using extend_Some [OF Some] by blast
    have w: "sorted_wrt (\<lambda>a b. range_order (fst a) \<le> range_order (fst b)) xs \<longleftrightarrow> sorted_wrt (\<lambda>a b. range_order a \<le> range_order b) (map fst xs)"
      for xs :: ranged by (simp add: sorted_wrt_map)
    have "sorted_wrt (\<lambda>a b. range_order (fst a) \<le> range_order (fst b)) (cs @ rs)" using 2(4) by (auto simp: sorted_wrt_append)
    then have "sorted_wrt (\<lambda>a b. range_order (fst a) \<le> range_order (fst b)) (cs1 @ rs)" unfolding w by (simp add: m)
    moreover have "coalesce_loop rs cs1 = Inl e" using 2(3) Some by simp
    moreover have "fst ` set cs1 = fst ` set cs" using arg_cong [OF m, of set] by simp
    ultimately have "(\<exists>detail. e = AxleExactClosureError ''partially-overlapping-source-ranges'' detail) \<and>
        (\<exists>a \<in> fst ` set (cs @ rs). \<exists>b \<in> fst ` set (cs @ rs). overlapping a b)"
      using 2(2) [OF Some] by (simp add: image_Un)
    then show ?thesis by auto
  next
    case None
    show ?thesis
    proof (cases "find (\<lambda>(r', _). range_key r < range_end_key r') cs")
      case f: None
      with 2(3) None have "coalesce_loop rs (cs @ [(r, names)]) = Inl e" by simp
      from 2(1) [OF None f this] 2(4) show ?thesis by simp
    next
      case (Some y)
      obtain r' ns where y: "y = (r', ns)" by (cases y)
      with Some have y': "(r', ns) \<in> set cs" "range_key r < range_end_key r'"
        by (auto simp: find_Some_iff) (metis nth_mem)
      have "range_order r' \<le> range_order r" using 2(4) y'(1) by (auto simp: sorted_wrt_append)
      moreover have "\<not> range_contains r' r" using None y'(1) unfolding extend_None by force
      ultimately have "overlapping r' r" using y'(2) unfolding range_order_le range_contains_def overlapping_def by auto
      moreover have "r' \<in> fst ` set (cs @ (r, names) # rs)" using y'(1) by force
      moreover have "r \<in> fst ` set (cs @ (r, names) # rs)" by simp
      moreover have "\<exists>detail. e = AxleExactClosureError ''partially-overlapping-source-ranges'' detail"
        using 2(3) None Some y by auto
      ultimately show ?thesis by blast
    qed
  qed
qed simp

lemma gathered_fromkeys: "gathered d (r, fromkeys ns) \<longleftrightarrow> gathered d (r, ns)"
  by (simp add: gathered_def)

lemma fromkeys_distinct: "distinct xs \<Longrightarrow> fromkeys xs = xs"
  by (simp add: fromkeys_def distinct_remdups_id)

lemma coalesce_Inr:
  assumes "coalesce_ranges d = Inr cs"
  shows "disjoint_ranges cs" and "\<forall>x \<in> set d. lies_in x cs" and "\<forall>x \<in> set cs. gathered d x"
    and "distinct (range_names d) \<Longrightarrow> mset (range_names cs) = mset (range_names d)"
proof -
  let ?d = "sort_key (range_order \<circ> fst) d"
  obtain cs0 where l: "coalesce_loop ?d [] = Inr cs0" and cs: "cs = map (\<lambda>(r, ns). (r, fromkeys ns)) cs0"
    using assms by (auto simp: coalesce_ranges_def res_bind_Inr_iff)
  from coalesce_loop_Inr [OF l, of d] have x: "disjoint_ranges cs0" "\<forall>x \<in> set cs0. gathered d x" "\<forall>x \<in> set d. lies_in x cs0"
    "mset (range_names cs0) = mset (range_names ?d)" by (auto simp: disjoint_ranges_def)
  have "map fst cs = map fst cs0" unfolding cs by (simp add: case_prod_unfold)
  with x(1) show "disjoint_ranges cs" using disjoint_fst by metis
  show "\<forall>x \<in> set d. lies_in x cs" using x(3) unfolding cs by (force simp: lies_in_def)
  show "\<forall>x \<in> set cs. gathered d x" using x(2) unfolding cs by (auto simp: gathered_fromkeys)
  show "mset (range_names cs) = mset (range_names d)" if "distinct (range_names d)"
  proof -
    have p: "mset (range_names cs0) = mset (range_names d)" using x(4) range_names_perm [of ?d d] by simp
    then have "distinct (range_names cs0)" using that mset_eq_imp_distinct_iff by blast
    then have "range_names cs = range_names cs0" unfolding cs by (induction cs0) (auto simp: fromkeys_distinct)
    with p show ?thesis by simp
  qed
qed

lemma coalesce_Inl:
  assumes "coalesce_ranges d = Inl e"
  shows "(\<exists>detail. e = AxleExactClosureError ''partially-overlapping-source-ranges'' detail) \<and>
    (\<exists>a \<in> fst ` set d. \<exists>b \<in> fst ` set d. overlapping a b)"
proof -
  let ?d = "sort_key (range_order \<circ> fst) d"
  have "coalesce_loop ?d [] = Inl e" using assms by (auto simp: coalesce_ranges_def res_bind_Inl_iff)
  moreover have "sorted (map (range_order \<circ> fst) ?d)" by (rule sorted_sort_key)
  then have "sorted_wrt (\<lambda>a b. range_order (fst a) \<le> range_order (fst b)) ([] @ ?d)" by (simp add: sorted_wrt_map)
  ultimately show ?thesis using coalesce_loop_Inl [of ?d "[]" e] by simp
qed

text \<open>
  Coalescing is exact: the ranges that are left follow one another without an overlap, each is a
  range of the module, every range lies with its names in one of them, and none holds a name whose
  range is not in it. It fails only when two ranges overlap and neither lies in the other.
\<close>

theorem coalesce_exact:
  "case coalesce_ranges d of
     Inr cs \<Rightarrow> disjoint_ranges cs \<and> (\<forall>x \<in> set d. lies_in x cs) \<and> (\<forall>x \<in> set cs. gathered d x)
   | Inl e \<Rightarrow> (\<exists>detail. e = AxleExactClosureError ''partially-overlapping-source-ranges'' detail) \<and>
       (\<exists>a \<in> fst ` set d. \<exists>b \<in> fst ` set d. overlapping a b)"
  using coalesce_Inr [of d] coalesce_Inl [of d] by (cases "coalesce_ranges d") simp_all

end
