(* ===== verification/Source_Aliases.thy ===== *)
theory Source_Aliases
  imports Source_Ranges
begin

text \<open>
  Each declaration of a closure is an alias of one anchor, whose range contains its own.
\<close>

section \<open>The ranges of the modules\<close>

text \<open>The table holds the named ranges of the declarations that were read.\<close>

definition table_sound :: "lean_declaration set \<Rightarrow> ranged pydict \<Rightarrow> bool" where
  "table_sound A t \<longleftrightarrow> (\<forall>owner d. dict_get t owner = Some d \<longrightarrow> (\<forall>x \<in> set d. snd x \<noteq> [] \<and>
     (\<forall>n \<in> set (snd x). \<exists>a \<in> A. ld_name a = n \<and> ld_owner a = owner \<and>
       (\<exists>r. ld_range a = Some r \<and> range_ints r = range_ints (fst x)))))"

lemma add_ranged_in:
  "x \<in> set (add_ranged r n d) \<Longrightarrow>
   x \<in> set d \<or> (range_ints (fst x) = range_ints r \<and> (\<exists>ns. snd x = ns @ [n] \<and> (ns = [] \<or> (fst x, ns) \<in> set d)))"
  by (induction r n d rule: add_ranged.induct) (auto split: if_splits)

lemma add_ranged_names: "mset (range_names (add_ranged r n d)) = add_mset n (mset (range_names d))"
  by (induction r n d rule: add_ranged.induct) auto

lemma range_ints_keys:
  assumes "range_ints a = range_ints b"
  shows "range_key a = range_key b" and "range_end_key a = range_end_key b"
  using assms by (simp_all add: range_ints_def range_key_def range_end_key_def)

lemma table_sound_step:
  assumes "table_sound A t" and "ld_range d = Some r"
  shows "table_sound (insert d A) (dict_set (ld_owner d) (add_ranged r (ld_name d) (dict_get_or t (ld_owner d) [])) t)"
proof -
  let ?d = "dict_get_or t (ld_owner d) []"
  have old: "snd x \<noteq> [] \<and> (\<forall>n \<in> set (snd x). \<exists>a \<in> A. ld_name a = n \<and> ld_owner a = ld_owner d \<and>
      (\<exists>r. ld_range a = Some r \<and> range_ints r = range_ints (fst x)))" if "x \<in> set ?d" for x
  proof -
    from that obtain e where "dict_get t (ld_owner d) = Some e" "x \<in> set e"
      by (cases "dict_get t (ld_owner d)") (simp_all add: dict_get_or_def)
    with assms(1) show ?thesis unfolding table_sound_def by blast
  qed
  have new: "snd x \<noteq> [] \<and> (\<forall>n \<in> set (snd x). \<exists>a \<in> insert d A. ld_name a = n \<and> ld_owner a = ld_owner d \<and>
      (\<exists>r. ld_range a = Some r \<and> range_ints r = range_ints (fst x)))" if x: "x \<in> set (add_ranged r (ld_name d) ?d)" for x
  proof -
    from add_ranged_in [OF x] consider "x \<in> set ?d"
      | ns where "range_ints (fst x) = range_ints r" "snd x = ns @ [ld_name d]" "ns = [] \<or> (fst x, ns) \<in> set ?d" by blast
    then show ?thesis
    proof cases
      case 1
      from old [OF this] show ?thesis by blast
    next
      case 2
      have "\<exists>a \<in> insert d A. ld_name a = n \<and> ld_owner a = ld_owner d \<and>
          (\<exists>r. ld_range a = Some r \<and> range_ints r = range_ints (fst x))" if n: "n \<in> set (snd x)" for n
      proof (cases "n = ld_name d")
        case True
        with 2(1) assms(2) show ?thesis by auto
      next
        case False
        with n 2(2) have "n \<in> set ns" by simp
        with 2(3) have "(fst x, ns) \<in> set ?d" by auto
        from old [OF this] \<open>n \<in> set ns\<close> show ?thesis by auto
      qed
      with 2(2) show ?thesis by simp
    qed
  qed
  show ?thesis
    unfolding table_sound_def
  proof (intro allI impI)
    fix owner e
    assume e: "dict_get (dict_set (ld_owner d) (add_ranged r (ld_name d) ?d) t) owner = Some e"
    show "\<forall>x \<in> set e. snd x \<noteq> [] \<and> (\<forall>n \<in> set (snd x). \<exists>a \<in> insert d A. ld_name a = n \<and> ld_owner a = owner \<and>
        (\<exists>r. ld_range a = Some r \<and> range_ints r = range_ints (fst x)))"
    proof (cases "owner = ld_owner d")
      case True
      with e have "e = add_ranged r (ld_name d) ?d" by simp
      with True new show ?thesis by blast
    next
      case False
      with e have "dict_get t owner = Some e" by simp
      with assms(1) show ?thesis unfolding table_sound_def by blast
    qed
  qed
qed

text \<open>All the names of a table.\<close>

definition table_names :: "ranged pydict \<Rightarrow> string list" where
  "table_names t = concat (map (range_names \<circ> snd) t)"

lemma table_names_step:
  "dict_wf t \<Longrightarrow> mset (table_names (dict_set owner (add_ranged r n (dict_get_or t owner [])) t)) = add_mset n (mset (table_names t))"
proof (induction t)
  case (Cons x t)
  then show ?case by (cases x) (auto simp: table_names_def dict_get_or_def add_ranged_names split: option.splits)
qed (simp add: table_names_def)

lemma ranges_by_module_Inr:
  "ranges_by_module ds t = Inr t' \<Longrightarrow> table_sound A t \<Longrightarrow> dict_wf t \<Longrightarrow>
   table_sound (A \<union> set ds) t' \<and> dict_wf t' \<and> mset (table_names t') = mset (table_names t) + mset (map ld_name ds) \<and>
   (\<forall>d \<in> set ds. ld_range d \<noteq> None)"
proof (induction ds t arbitrary: A rule: ranges_by_module.induct)
  case (2 d ds t)
  then obtain r where r: "ld_range d = Some r" by (cases "ld_range d") simp_all
  let ?t = "dict_set (ld_owner d) (add_ranged r (ld_name d) (dict_get_or t (ld_owner d) [])) t"
  have "table_sound (insert d A) ?t" by (rule table_sound_step [OF 2(3) r])
  moreover have "dict_wf ?t" using 2(4) by simp
  moreover have "ranges_by_module ds ?t = Inr t'" using 2(2) r by simp
  ultimately have "table_sound (insert d A \<union> set ds) t' \<and> dict_wf t' \<and>
      mset (table_names t') = mset (table_names ?t) + mset (map ld_name ds) \<and> (\<forall>d \<in> set ds. ld_range d \<noteq> None)"
    using 2(1) [OF r] by blast
  then show ?case using table_names_step [OF 2(4)] r by simp
qed simp

lemma ranges_by_module_Inl:
  "ranges_by_module ds t = Inl e \<Longrightarrow>
   \<exists>d \<in> set ds. ld_range d = None \<and> e = AxleExactClosureError ''declaration-source-range-missing'' (ld_name d)"
  by (induction ds t rule: ranges_by_module.induct) (auto split: option.splits)

section \<open>The aliases of a module\<close>

lemma fold_dict_set:
  "dict_get (fold (\<lambda>n. dict_set n v) ns d) k = (if k \<in> set ns then Some v else dict_get d k)"
  by (induction ns arbitrary: d) auto

lemma anchor_in: "names \<noteq> [] \<Longrightarrow> anchor_of names \<in> set names"
proof -
  let ?s = "sort_key (\<lambda>n. (count_list n CHR ''.'', length n, n)) names"
  assume "names \<noteq> []"
  moreover have "length ?s = length names" by simp
  ultimately have "?s \<noteq> []" by (auto simp del: length_sort)
  then have "hd ?s \<in> set ?s" by (rule hd_in_set)
  then show ?thesis by (simp add: anchor_of_def)
qed

text \<open>An anchor that every name of a range has, and that is its own anchor.\<close>

definition anchored :: "lean_declaration pydict \<Rightarrow> string pydict \<Rightarrow> source_range \<times> string list \<Rightarrow> bool" where
  "anchored by_name aliases x \<longleftrightarrow> (\<exists>a \<in> set (snd x). has_range by_name (fst x) a \<and>
     (\<forall>n \<in> set (snd x). dict_get aliases n = Some a))"

lemma anchored_mono:
  "anchored by_name al x \<Longrightarrow> (\<And>n. n \<in> set (snd x) \<Longrightarrow> dict_get al' n = dict_get al n) \<Longrightarrow> anchored by_name al' x"
  unfolding anchored_def by auto

lemma alias_ranges_Inr:
  "alias_ranges by_name cs al = Inr al' \<Longrightarrow> distinct (range_names cs) \<Longrightarrow>
   (\<forall>x \<in> set cs. anchored by_name al' x) \<and> (\<forall>n. n \<notin> set (range_names cs) \<longrightarrow> dict_get al' n = dict_get al n)"
proof (induction by_name cs al rule: alias_ranges.induct)
  case (2 by_name outer names cs al)
  let ?o = "filter (has_range by_name outer) names"
  let ?al = "fold (\<lambda>n. dict_set n (anchor_of ?o)) names al"
  have ne: "?o \<noteq> []" and r: "alias_ranges by_name cs ?al = Inr al'" using 2(2) by (auto simp: Let_def split: if_splits)
  have d: "distinct (range_names cs)" "set names \<inter> set (range_names cs) = {}" using 2(3) by auto
  from 2(1) [OF HOL.refl ne r d(1)]
  have i: "\<forall>x \<in> set cs. anchored by_name al' x" "\<forall>n. n \<notin> set (range_names cs) \<longrightarrow> dict_get al' n = dict_get ?al n" by auto
  have "dict_get al' n = Some (anchor_of ?o)" if "n \<in> set names" for n
    using i(2) that d(2) by (auto simp: fold_dict_set)
  then have "anchored by_name al' (outer, names)"
    using anchor_in [OF ne] unfolding anchored_def by (intro bexI [of _ "anchor_of ?o"]) auto
  moreover have "dict_get al' n = dict_get al n" if "n \<notin> set (range_names ((outer, names) # cs))" for n
    using i(2) that by (simp add: fold_dict_set)
  ultimately show ?case using i(1) by auto
qed simp

lemma alias_ranges_total:
  "\<forall>x \<in> set cs. \<exists>n \<in> set (snd x). has_range by_name (fst x) n \<Longrightarrow> alias_ranges by_name cs al \<noteq> Inl e"
proof (induction by_name cs al rule: alias_ranges.induct)
  case (2 by_name outer names cs al)
  have ne: "filter (has_range by_name outer) names \<noteq> []" using 2(2) by (auto simp: filter_empty_conv)
  with 2(1) [OF HOL.refl ne] 2(2) show ?case by (simp add: Let_def)
qed simp

text \<open>The ranges of a module whose names have them.\<close>

definition ranges_ok :: "lean_declaration pydict \<Rightarrow> ranged \<Rightarrow> bool" where
  "ranges_ok by_name d \<longleftrightarrow> (\<forall>x \<in> set d. snd x \<noteq> [] \<and> (\<forall>n \<in> set (snd x). has_range by_name (fst x) n))"

lemma coalesced_anchors:
  assumes "ranges_ok by_name d" and "coalesce_ranges d = Inr cs" and "x \<in> set cs"
  shows "\<exists>n \<in> set (snd x). has_range by_name (fst x) n"
proof -
  obtain y where y: "y \<in> set d" "fst y = fst x" "set (snd y) \<subseteq> set (snd x)"
    using coalesce_Inr(3) [OF assms(2)] assms(3) unfolding gathered_def by blast
  with assms(1) obtain n where "n \<in> set (snd y)" "has_range by_name (fst y) n"
    unfolding ranges_ok_def by (metis hd_in_set)
  with y show ?thesis by auto
qed

definition modules_names :: "ranged list \<Rightarrow> string list" where
  "modules_names ds = concat (map range_names ds)"

lemma alias_modules_Inr:
  "alias_modules by_name ds al = Inr al' \<Longrightarrow> distinct (modules_names ds) \<Longrightarrow>
   (\<forall>d \<in> set ds. \<exists>cs. coalesce_ranges d = Inr cs \<and> (\<forall>x \<in> set cs. anchored by_name al' x)) \<and>
   (\<forall>n. n \<notin> set (modules_names ds) \<longrightarrow> dict_get al' n = dict_get al n)"
proof (induction by_name ds al rule: alias_modules.induct)
  case (2 by_name d ds al)
  from 2(2) obtain cs al1 where cs: "coalesce_ranges d = Inr cs" and a1: "alias_ranges by_name cs al = Inr al1"
    and r: "alias_modules by_name ds al1 = Inr al'" by (auto simp: res_bind_Inr_iff)
  have dd: "distinct (range_names d)" "distinct (modules_names ds)" "set (range_names d) \<inter> set (modules_names ds) = {}"
    using 2(3) by (auto simp: modules_names_def)
  have m: "mset (range_names cs) = mset (range_names d)" by (rule coalesce_Inr(4) [OF cs dd(1)])
  then have s: "set (range_names cs) = set (range_names d)" and dc: "distinct (range_names cs)"
    using mset_eq_setD mset_eq_imp_distinct_iff dd(1) by blast+
  note i = alias_ranges_Inr [OF a1 dc, unfolded s]
  note j = 2(1) [OF cs a1 r dd(2)]
  have "anchored by_name al' x" if x: "x \<in> set cs" for x
  proof (rule anchored_mono [of by_name al1])
    show "anchored by_name al1 x" using i x by blast
    fix n assume "n \<in> set (snd x)"
    then have "n \<in> set (range_names cs)" using x by (auto simp: range_names_def)
    then have "n \<notin> set (modules_names ds)" using s dd(3) by blast
    then show "dict_get al' n = dict_get al1 n" using j by blast
  qed
  with cs j i show ?case by (auto simp: modules_names_def)
qed (simp add: modules_names_def)

lemma alias_modules_Inl:
  "alias_modules by_name ds al = Inl e \<Longrightarrow> \<forall>d \<in> set ds. ranges_ok by_name d \<Longrightarrow>
   (\<exists>detail. e = AxleExactClosureError ''partially-overlapping-source-ranges'' detail) \<and>
   (\<exists>d \<in> set ds. \<exists>a \<in> fst ` set d. \<exists>b \<in> fst ` set d. overlapping a b)"
proof (induction by_name ds al rule: alias_modules.induct)
  case (2 by_name d ds al)
  show ?case
  proof (cases "coalesce_ranges d")
    case (Inl x)
    with coalesce_Inl [OF Inl] 2(2) show ?thesis by auto
  next
    case (Inr cs)
    have "alias_ranges by_name cs al \<noteq> Inl e'" for e'
      by (rule alias_ranges_total) (use coalesced_anchors [OF _ Inr] 2(3) in auto)
    then obtain al1 where a: "alias_ranges by_name cs al = Inr al1" by (cases "alias_ranges by_name cs al") auto
    with 2(2) Inr have "alias_modules by_name ds al1 = Inl e" by simp
    from 2(1) [OF Inr a this] 2(3) show ?thesis by auto
  qed
qed simp

section \<open>The aliases of a closure\<close>

definition declared :: "lean_closure \<Rightarrow> lean_declaration pydict" where
  "declared c = dict_of (map (\<lambda>d. (ld_name d, d)) (lc_declarations c))"

lemma declared_get:
  assumes "distinct (map ld_name (lc_declarations c))"
  shows "dict_get (declared c) n = Some d \<longleftrightarrow> d \<in> set (lc_declarations c) \<and> ld_name d = n"
proof -
  have w: "dict_wf (map (\<lambda>d. (ld_name d, d)) (lc_declarations c))" using assms by (simp add: comp_def)
  show ?thesis unfolding declared_def dict_of_distinct [OF w] map_of_eq_Some_iff [OF w] by auto
qed

lemma has_range_declared:
  assumes "distinct (map ld_name (lc_declarations c))"
  shows "has_range (declared c) R n \<longleftrightarrow>
    (\<exists>d \<in> set (lc_declarations c). ld_name d = n \<and> (\<exists>r. ld_range d = Some r \<and> range_ints r = range_ints R))"
proof -
  have "has_range (declared c) R n \<longleftrightarrow>
      (\<exists>d. dict_get (declared c) n = Some d \<and> (\<exists>r. ld_range d = Some r \<and> range_ints r = range_ints R))"
    by (auto simp: has_range_def split: option.splits)
  then show ?thesis unfolding declared_get [OF assms] by blast
qed

lemma module_table:
  assumes "distinct (map ld_name (lc_declarations c))" and "ranges_by_module (lc_declarations c) [] = Inr t"
  shows "distinct (modules_names (map snd t))" and "set (modules_names (map snd t)) = ld_name ` set (lc_declarations c)"
    and "\<And>owner d x n. (owner, d) \<in> set t \<Longrightarrow> x \<in> set d \<Longrightarrow> n \<in> set (snd x) \<Longrightarrow>
      \<exists>a \<in> set (lc_declarations c). ld_name a = n \<and> ld_owner a = owner \<and> (\<exists>r. ld_range a = Some r \<and> range_ints r = range_ints (fst x))"
    and "\<forall>d \<in> set (map snd t). ranges_ok (declared c) d"
proof -
  have "table_sound {} []" by (simp add: table_sound_def)
  from ranges_by_module_Inr [OF assms(2) this]
  have s: "table_sound (set (lc_declarations c)) t" "dict_wf t" "mset (table_names t) = mset (map ld_name (lc_declarations c))"
    by (simp_all add: table_names_def)
  have e: "modules_names (map snd t) = table_names t" by (simp add: modules_names_def table_names_def)
  show "distinct (modules_names (map snd t))" unfolding e using s(3) assms(1) mset_eq_imp_distinct_iff by blast
  show "set (modules_names (map snd t)) = ld_name ` set (lc_declarations c)"
    unfolding e using mset_eq_setD [OF s(3)] by simp
  have k: "snd x \<noteq> [] \<and> (\<forall>n \<in> set (snd x). \<exists>a \<in> set (lc_declarations c). ld_name a = n \<and> ld_owner a = owner \<and>
      (\<exists>r. ld_range a = Some r \<and> range_ints r = range_ints (fst x)))" if "(owner, d) \<in> set t" "x \<in> set d" for owner d x
    using s(1,2) that map_of_is_SomeI [OF s(2) that(1)] unfolding table_sound_def by blast
  then show "\<exists>a \<in> set (lc_declarations c). ld_name a = n \<and> ld_owner a = owner \<and>
      (\<exists>r. ld_range a = Some r \<and> range_ints r = range_ints (fst x))"
    if "(owner, d) \<in> set t" "x \<in> set d" "n \<in> set (snd x)" for owner d x n using that by blast
  show "\<forall>d \<in> set (map snd t). ranges_ok (declared c) d"
  proof
    fix d assume "d \<in> set (map snd t)"
    then obtain owner where "(owner, d) \<in> set t" by auto
    from k [OF this] show "ranges_ok (declared c) d" unfolding ranges_ok_def has_range_declared [OF assms(1)] by blast
  qed
qed

text \<open>The declaration that stands for another: of its module, with a range that contains the other's.\<close>

definition stands_for :: "lean_declaration \<Rightarrow> lean_declaration \<Rightarrow> bool" where
  "stands_for a d \<longleftrightarrow> ld_owner a = ld_owner d \<and>
     (\<exists>R r. ld_range a = Some R \<and> ld_range d = Some r \<and> range_contains R r)"

lemma range_contains_ints:
  "range_ints R = range_ints R' \<Longrightarrow> range_ints r = range_ints r' \<Longrightarrow> range_contains R r \<longleftrightarrow> range_contains R' r'"
  using range_ints_keys [of R R'] range_ints_keys [of r r'] by (simp add: range_contains_def)

lemma alias_stands_for:
  assumes "distinct (map ld_name (lc_declarations c))" and "ranges_by_module (lc_declarations c) [] = Inr t"
    and "alias_modules (declared c) (map snd t) [] = Inr al" and "d \<in> set (lc_declarations c)"
  shows "\<exists>a \<in> set (lc_declarations c). dict_get al (ld_name d) = Some (ld_name a) \<and>
    dict_get al (ld_name a) = Some (ld_name a) \<and> stands_for a d"
proof -
  note m = module_table [OF assms(1,2)]
  have one: "a = b" if "a \<in> set (lc_declarations c)" "b \<in> set (lc_declarations c)" "ld_name a = ld_name b" for a b
    using that assms(1) by (metis inj_onD distinct_map)
  have "ld_name d \<in> set (modules_names (map snd t))" unfolding m(2) using assms(4) by simp
  then obtain owner rd x where x: "(owner, rd) \<in> set t" "x \<in> set rd" "ld_name d \<in> set (snd x)"
    by (auto simp: modules_names_def range_names_def)
  from m(3) [OF x] one assms(4) obtain r where d: "ld_owner d = owner" "ld_range d = Some r" "range_ints r = range_ints (fst x)"
    by metis
  have "rd \<in> set (map snd t)" using x(1) by force
  with alias_modules_Inr [OF assms(3) m(1)] obtain cs where cs: "coalesce_ranges rd = Inr cs"
    "\<forall>y \<in> set cs. anchored (declared c) al y" by blast
  from coalesce_Inr(2) [OF cs(1)] x(2) obtain y where y: "y \<in> set cs" "range_contains (fst y) (fst x)" "set (snd x) \<subseteq> set (snd y)"
    unfolding lies_in_def by blast
  with cs(2) obtain n where n: "n \<in> set (snd y)" "has_range (declared c) (fst y) n" "\<forall>k \<in> set (snd y). dict_get al k = Some n"
    unfolding anchored_def by blast
  from coalesce_Inr(3) [OF cs(1)] y(1) n(1) obtain z where z: "z \<in> set rd" "n \<in> set (snd z)" unfolding gathered_def by blast
  from m(3) [OF x(1) z] obtain a where a: "a \<in> set (lc_declarations c)" "ld_name a = n" "ld_owner a = owner" by blast
  with n(2) one obtain R where R: "ld_range a = Some R" "range_ints R = range_ints (fst y)"
    unfolding has_range_declared [OF assms(1)] by metis
  have "stands_for a d" unfolding stands_for_def using a(3) d R y(2) range_contains_ints [OF R(2) d(3)] by simp
  moreover have "dict_get al (ld_name d) = Some n" "dict_get al n = Some n" using n(1,3) x(3) y(3) by blast+
  ultimately show ?thesis using a(1,2) by blast
qed

text \<open>
  C27. The aliases of a closure are sound: they name an anchor for each declaration and for nothing
  else, an anchor is its own anchor, and it is a declaration of the same module whose range contains
  the declaration's. They fail only for a declaration without a range or for two ranges of a module
  that overlap; an anchor is never missing.
\<close>

theorem source_aliases_sound:
  assumes "distinct (map ld_name (lc_declarations c))"
  shows "case source_declaration_aliases c of
      Inr al \<Rightarrow> (\<forall>d \<in> set (lc_declarations c). \<exists>a \<in> set (lc_declarations c). dict_get al (ld_name d) = Some (ld_name a) \<and>
          dict_get al (ld_name a) = Some (ld_name a) \<and> stands_for a d) \<and>
        (\<forall>n. n \<notin> ld_name ` set (lc_declarations c) \<longrightarrow> dict_get al n = None)
    | Inl (AxleExactClosureError code detail) \<Rightarrow>
        code = ''declaration-source-range-missing'' \<and> (\<exists>d \<in> set (lc_declarations c). ld_range d = None) \<or>
        code = ''partially-overlapping-source-ranges'' \<and> (\<exists>d \<in> set (lc_declarations c). \<exists>e \<in> set (lc_declarations c).
          ld_owner d = ld_owner e \<and> (\<exists>r s. ld_range d = Some r \<and> ld_range e = Some s \<and> overlapping r s))
    | Inl (AxleKeyError _) \<Rightarrow> False"
proof (cases "ranges_by_module (lc_declarations c) []")
  case (Inl e)
  with ranges_by_module_Inl [OF Inl] show ?thesis by (auto simp: source_declaration_aliases_def)
next
  case t: (Inr t)
  note m = module_table [OF assms t]
  have s: "source_declaration_aliases c = alias_modules (declared c) (map snd t) []"
    unfolding source_declaration_aliases_def declared_def Let_def t by simp
  show ?thesis
  proof (cases "alias_modules (declared c) (map snd t) []")
    case (Inr al)
    have "dict_get al n = None" if "n \<notin> ld_name ` set (lc_declarations c)" for n
      using alias_modules_Inr [OF Inr m(1)] that unfolding m(2) by simp
    then show ?thesis unfolding s Inr using alias_stands_for [OF assms t Inr] by simp
  next
    case (Inl e)
    from alias_modules_Inl [OF Inl m(4)] obtain owner rd x y detail where
      x: "e = AxleExactClosureError ''partially-overlapping-source-ranges'' detail" "(owner, rd) \<in> set t" "x \<in> set rd" "y \<in> set rd"
        "overlapping (fst x) (fst y)" by auto
    have named: "\<exists>d \<in> set (lc_declarations c). ld_owner d = owner \<and> (\<exists>r. ld_range d = Some r \<and> range_ints r = range_ints (fst z))"
      if "z \<in> set rd" for z
    proof -
      have "snd z \<noteq> []" using m(4) x(2) that by (force simp: ranges_ok_def)
      then have "hd (snd z) \<in> set (snd z)" by simp
      from m(3) [OF x(2) that this] show ?thesis by blast
    qed
    from named [OF x(3)] named [OF x(4)] obtain d r e' s' where "d \<in> set (lc_declarations c)" "e' \<in> set (lc_declarations c)"
      "ld_owner d = ld_owner e'" "ld_range d = Some r" "ld_range e' = Some s'" "range_ints r = range_ints (fst x)"
      "range_ints s' = range_ints (fst y)" by metis
    moreover from this x(5) have "overlapping r s'"
      using range_ints_keys [of r "fst x"] range_ints_keys [of s' "fst y"] by (simp add: overlapping_def)
    ultimately show ?thesis unfolding s Inl x(1) by auto
  qed
qed

definition ex_lines :: "int \<Rightarrow> int \<Rightarrow> source_range" where
  "ex_lines a b = \<lparr>sr_start_line = PyInt a, sr_start_column = PyInt 0, sr_start_char = PyInt 0,
     sr_end_line = PyInt b, sr_end_column = PyInt 0, sr_end_char = PyInt 0\<rparr>"

definition ex_ranged :: "string \<Rightarrow> source_range \<Rightarrow> lean_declaration" where
  "ex_ranged name r = \<lparr>ld_name = name, ld_kind = ''def'', ld_owner = ''P'', ld_dependencies = [], ld_range = Some r\<rparr>"

text \<open>The constructor \<open>P.T.mk\<close> lies in the range of the type \<open>P.T\<close>.\<close>

definition ex_ranged_closure :: lean_closure where
  "ex_ranged_closure =
     \<lparr>lc_lean_version = ''4'', lc_root_module = ''P'', lc_root_declarations = [''P.T''], lc_base_imports = [''Init''],
      lc_proof_base_imports = [], lc_interface = [], lc_owner_modules = [''P''],
      lc_declarations = [ex_ranged ''P.T.mk'' (ex_lines 3 4), ex_ranged ''P.T'' (ex_lines 2 6), ex_ranged ''P.f'' (ex_lines 8 9)],
      lc_schema_id = CLOSURE_SCHEMA\<rparr>"

theorem source_aliases_sound_witness:
  "source_declaration_aliases ex_ranged_closure = Inr [(''P.T'', ''P.T''), (''P.T.mk'', ''P.T''), (''P.f'', ''P.f'')] \<and>
   dict_get [(''P.T'', ''P.T''), (''P.T.mk'', ''P.T''), (''P.f'', ''P.f'')] ''P.g'' = None"
proof -
  have d: "distinct (map ld_name (lc_declarations ex_ranged_closure))" by code_simp
  have r: "source_declaration_aliases ex_ranged_closure = Inr [(''P.T'', ''P.T''), (''P.T.mk'', ''P.T''), (''P.f'', ''P.f'')]"
    by code_simp
  have "''P.g'' \<notin> ld_name ` set (lc_declarations ex_ranged_closure)" by code_simp
  with source_aliases_sound [OF d] r show ?thesis by (simp only: sum.case) blast
qed

end
