(* ===== verification/Bundle_Projection.thy ===== *)
theory Bundle_Projection
  imports Independent_Bundle_Props Source_Aliases
begin

text \<open>
  The projection of an exact AXLE closure to an independent declaration bundle
  (\<open>poo_flow_proof/independent_bundle_projection.py\<close>), with the data of an exact closure and its
  digest (\<open>ExactAxleClosure\<close> of \<open>axle_exact_closure.py\<close>). The file \<open>lake-manifest.json\<close> is an
  argument: its bytes with the value that they decode to, or the text of the error.
\<close>

section \<open>Exact closures\<close>

definition EXACT_SCHEMA :: string where
  "EXACT_SCHEMA = ''poo-flow.axle-exact-declaration-closure.v1''"

record source_declaration =
  sd_name :: string
  sd_kind :: string
  sd_declaration :: string
  sd_dependencies :: "string list"

record exact_closure =
  ec_lean_digest :: string
  ec_environment :: string
  ec_root_declarations :: "string list"
  ec_source_declarations :: "string list"
  ec_declarations :: "source_declaration list"
  ec_canonical_source :: string
  ec_theorem2sorry :: "(string \<times> json) list"
  ec_verification :: "(string \<times> json) list"
  ec_schema_id :: string

datatype projection_error =
    ProjectionError string string
  | ProjectionBundle bundle_error
  | ProjectionAxle axle_error
  | ProjectionEncodeError

type_synonym 'a presult = "projection_error + 'a"

abbreviation projection_err :: "string \<Rightarrow> string \<Rightarrow> 'a presult" where
  "projection_err code detail \<equiv> Inl (ProjectionError code detail)"

definition encoded_digest :: "(bytes \<Rightarrow> bytes) \<Rightarrow> string \<Rightarrow> string presult" where
  "encoded_digest sha s = (if utf8_valid s then Inr (sha256_digest sha s) else Inl ProjectionEncodeError)"

definition exact_members :: "exact_closure \<Rightarrow> string \<Rightarrow> (string \<times> json) list" where
  "exact_members e source_digest =
     [(''schema_id'', JStr (ec_schema_id e)), (''lean_closure_digest'', JStr (ec_lean_digest e)),
      (''environment'', JStr (ec_environment e)), (''root_declarations'', json_names (ec_root_declarations e)),
      (''source_declarations'', json_names (ec_source_declarations e)),
      (''declarations'', JList (map (\<lambda>d. JObj [(''name'', JStr (sd_name d)), (''kind'', JStr (sd_kind d)),
         (''local_dependencies'', json_names (sd_dependencies d))]) (ec_declarations e))),
      (''canonical_source_digest'', JStr source_digest)]"

definition exact_identity :: "(bytes \<Rightarrow> bytes) \<Rightarrow> exact_closure \<Rightarrow> (string \<times> json) list presult" where
  "exact_identity sha e = res_bind (encoded_digest sha (ec_canonical_source e)) (\<lambda>d. Inr (exact_members e d))"

definition exact_bundle_digest :: "(bytes \<Rightarrow> bytes) \<Rightarrow> exact_closure \<Rightarrow> string presult" where
  "exact_bundle_digest sha e = res_bind (exact_identity sha e) (\<lambda>m. encoded_digest sha (canonical_json (JObj m)))"

definition exact_manifest :: "(bytes \<Rightarrow> bytes) \<Rightarrow> exact_closure \<Rightarrow> (string \<times> json) list presult" where
  "exact_manifest sha e =
     res_bind (exact_identity sha e) (\<lambda>m. res_bind (exact_bundle_digest sha e) (\<lambda>d.
     Inr (m @ [(''bundle_digest'', JStr d), (''canonical_source'', JStr (ec_canonical_source e)),
       (''theorem2sorry'', JObj (ec_theorem2sorry e)), (''verification'', JObj (ec_verification e))])))"

section \<open>Packages and owners\<close>

record owner_source =
  os_module :: string
  os_owner_path :: string
  os_source_digest :: string

definition remove_suffix :: "string \<Rightarrow> string \<Rightarrow> string" where
  "remove_suffix p s = (if ends_with s p then take (length s - length p) s else s)"

text \<open>The guillemets are two bytes each.\<close>

definition root_package_id :: "(string \<times> json) list \<Rightarrow> string presult" where
  "root_package_id manifest =
     (case item manifest ''name'' of
        JStr s \<Rightarrow>
          if s = [] then projection_err ''lake-manifest-package-name-missing'' ''lake-manifest.json''
          else Inr (remove_suffix [CHR 0xC2, CHR 0xBB] (remove_prefix [CHR 0xC2, CHR 0xAB] s))
      | _ \<Rightarrow> projection_err ''lake-manifest-package-name-missing'' ''lake-manifest.json'')"

definition source_tree_digest :: "(bytes \<Rightarrow> bytes) \<Rightarrow> owner_source list \<Rightarrow> string presult" where
  "source_tree_digest sha sources =
     encoded_digest sha (str_join [CHR 0x0A] (map (\<lambda>s. os_owner_path s @ CHR 0x00 # os_source_digest s)
       (sort_key os_owner_path sources)))"

definition owner_source_of :: "string \<Rightarrow> lean_closure \<Rightarrow> owner_source pydict \<Rightarrow> owner_source presult" where
  "owner_source_of name c by_module =
     (case sort (remdups (map ld_owner (filter (\<lambda>d. covers name (ld_name d)) (lc_declarations c)))) of
        [] \<Rightarrow> projection_err ''source-declaration-owner-missing'' name
      | [m] \<Rightarrow> (case dict_get by_module m of
                 None \<Rightarrow> projection_err ''owner-module-source-missing'' m
               | Some s \<Rightarrow> Inr s)
      | ms \<Rightarrow> projection_err ''source-declaration-owner-ambiguous'' (name @ '': '' @ repr_list ms))"

section \<open>The projection\<close>

definition checked :: "('a \<Rightarrow> unit bresult) \<Rightarrow> 'a \<Rightarrow> 'a presult" where
  "checked f x = (case f x of Inl e \<Rightarrow> Inl (ProjectionBundle e) | Inr _ \<Rightarrow> Inr x)"

definition projection_aliases :: "lean_closure \<Rightarrow> string pydict presult" where
  "projection_aliases c =
     (if list_all (\<lambda>d. ld_range d \<noteq> None) (lc_declarations c)
      then (case source_declaration_aliases c of Inl e \<Rightarrow> Inl (ProjectionAxle e) | Inr al \<Rightarrow> Inr al)
      else Inr (dict_of (map (\<lambda>d. (ld_name d, ld_name d)) (lc_declarations c))))"

text \<open>A declaration of the proof base, with the dependencies that the exact closure gives it.\<close>

definition project_base :: "source_declaration pydict \<Rightarrow> string list \<Rightarrow> interface_declaration \<Rightarrow> base_identity presult" where
  "project_base exact_by_name base_names d =
     (let (kind, deps) = (case dict_get exact_by_name (li_name d) of
            None \<Rightarrow> (if li_role d \<in> {''abbrev'', ''definition''} then ''def'' else ''axiom'', [])
          | Some e \<Rightarrow> (sd_kind e, sort (filter (\<lambda>k. k \<in> set base_names \<and> k \<noteq> li_name d) (sd_dependencies e))))
      in checked check_base_identity
        \<lparr>bi_name = li_name d, bi_kind = kind, bi_levels = li_levels d, bi_type = li_type d, bi_value = li_value d,
         bi_dependencies = deps\<rparr>)"

text \<open>The two passes over the declarations: with the dependencies as they are, then normalized.\<close>

definition project_declaration ::
  "lean_closure \<Rightarrow> owner_source pydict \<Rightarrow> source_declaration \<Rightarrow> declaration_identity presult" where
  "project_declaration c by_module e =
     res_bind (owner_source_of (sd_name e) c by_module) (\<lambda>owner.
     checked check_declaration
       \<lparr>bd_name = sd_name e, bd_kind = sd_kind e, bd_owner_path = os_owner_path owner,
        bd_owner_digest = os_source_digest owner, bd_dependencies = sd_dependencies e\<rparr>)"

definition normalize_declaration ::
  "(string list \<Rightarrow> string list) \<Rightarrow> string pydict \<Rightarrow> declaration_identity \<Rightarrow> declaration_identity presult" where
  "normalize_declaration pick aliases d =
     checked check_declaration
       (d\<lparr>bd_dependencies := sort (remdups (filter (\<lambda>k. k \<noteq> bd_name d)
          (map (normalized_name pick aliases) (bd_dependencies d))))\<rparr>)"

definition owned_exact :: "(string list \<Rightarrow> string list) \<Rightarrow> string pydict \<Rightarrow> exact_closure \<Rightarrow> source_declaration list" where
  "owned_exact pick aliases e =
     filter (\<lambda>d. normalized_name pick aliases (sd_name d) \<in> set (map snd aliases)) (ec_declarations e)"

definition base_exact :: "string list \<Rightarrow> exact_closure \<Rightarrow> source_declaration list" where
  "base_exact base_names e = filter (\<lambda>d. sd_name d \<in> set base_names) (ec_declarations e)"

definition unclassified :: "source_declaration list \<Rightarrow> exact_closure \<Rightarrow> string list" where
  "unclassified classified e = sort (filter (\<lambda>n. n \<notin> set (map sd_name classified)) (map sd_name (ec_declarations e)))"

definition build_bundle ::
  "(bytes \<Rightarrow> bytes) \<Rightarrow> (string list \<Rightarrow> string list) \<Rightarrow> string \<Rightarrow> string + bytes \<times> json \<Rightarrow> lean_closure \<Rightarrow> exact_closure \<Rightarrow>
   owner_source list \<Rightarrow> independent_bundle presult" where
  "build_bundle sha pick path manifest c exact sources =
     (case manifest of
        Inl error \<Rightarrow> projection_err ''lake-manifest-unreadable'' (path @ '': '' @ error)
      | Inr (manifest_bytes, JObj members) \<Rightarrow>
          res_bind (source_tree_digest sha sources) (\<lambda>tree.
          res_bind (root_package_id members) (\<lambda>package.
          res_bind (checked check_resolved_source
            \<lparr>bs_package_id = package, bs_revision = ''workspace:'' @ remove_prefix ''sha256:'' tree, bs_tree_digest = tree,
             bs_manifest_digest = sha256_digest sha manifest_bytes\<rparr>) (\<lambda>resolved.
          res_bind (projection_aliases c) (\<lambda>aliases.
          let by_module = dict_of (map (\<lambda>s. (os_module s, s)) sources);
              base_names = map li_name (lc_interface c);
              owned = owned_exact pick aliases exact;
              base = base_exact base_names exact;
              names = unclassified (owned @ base) exact
          in if names \<noteq> [] then projection_err ''unclassified-exact-declaration'' (str_join '', '' names)
          else
          res_bind (res_map (project_base (dict_of (map (\<lambda>d. (sd_name d, d)) base)) base_names) (lc_interface c)) (\<lambda>base_declarations.
          res_bind (res_map (project_declaration c by_module) owned) (\<lambda>first.
          res_bind (res_map (normalize_declaration pick aliases) first) (\<lambda>declarations.
          res_bind (checked check_environment
            \<lparr>be_name = ec_environment exact, be_toolchain = lc_lean_version c, be_imports = lc_base_imports c,
             be_repo_url = None, be_revision = None, be_subdir = None\<rparr>) (\<lambda>environment.
          checked (check_bundle sha)
            \<lparr>ib_root_module = lc_root_module c, ib_root_declarations = ec_root_declarations exact,
             ib_toolchain = lc_lean_version c, ib_environment = environment, ib_resolved_sources = [resolved],
             ib_base_imports = lc_proof_base_imports c,
             ib_interface_digest = interface_digest sha (lc_proof_base_imports c) base_declarations,
             ib_base_declarations = base_declarations, ib_declarations = declarations,
             ib_source = ec_canonical_source exact, ib_schema_id = BUNDLE_SCHEMA\<rparr>))))))))
      | Inr (_, _) \<Rightarrow> projection_err ''lake-manifest-invalid'' path)"

section \<open>What is projected\<close>

lemma checked_Inr: "checked f x = Inr y \<longleftrightarrow> y = x \<and> f x = Inr ()"
  by (auto simp: checked_def split: sum.splits)

text \<open>The source that owns a declaration: the one of the only module that declares it.\<close>

definition owns :: "lean_closure \<Rightarrow> owner_source \<Rightarrow> string \<Rightarrow> bool" where
  "owns c s name \<longleftrightarrow> ld_owner ` {d \<in> set (lc_declarations c). covers name (ld_name d)} = {os_module s}"

lemma owner_source_Inr:
  assumes "owner_source_of name c (dict_of (map (\<lambda>s. (os_module s, s)) sources)) = Inr s"
  shows "s \<in> set sources \<and> owns c s name"
proof -
  let ?ms = "map ld_owner (filter (\<lambda>d. covers name (ld_name d)) (lc_declarations c))"
  obtain m where m: "sort (remdups ?ms) = [m]" and s: "dict_get (dict_of (map (\<lambda>s. (os_module s, s)) sources)) m = Some s"
    using assms by (auto simp: owner_source_of_def split: list.splits option.splits)
  have "set (sort (remdups ?ms)) = {m}" unfolding m by simp
  then have o': "ld_owner ` {d \<in> set (lc_declarations c). covers name (ld_name d)} = {m}" by simp
  have "map_of (rev (map (\<lambda>s. (os_module s, s)) sources)) m = Some s"
    using s dict_get_update_rev [of "[]" "map (\<lambda>s. (os_module s, s)) sources"] by (simp add: dict_of_def split: option.splits)
  then have "(m, s) \<in> set (map (\<lambda>s. (os_module s, s)) sources)" by (auto dest: map_of_SomeD)
  then show ?thesis using o' by (auto simp: owns_def)
qed

text \<open>What ties a declaration of a bundle to one of the exact closure and to the source of its owner.\<close>

definition projects ::
  "(string list \<Rightarrow> string list) \<Rightarrow> string pydict \<Rightarrow> lean_closure \<Rightarrow> owner_source list \<Rightarrow> source_declaration \<Rightarrow> declaration_identity \<Rightarrow> bool" where
  "projects pick aliases c sources e d \<longleftrightarrow>
     bd_name d = sd_name e \<and> bd_kind d = sd_kind e \<and> check_declaration d = Inr () \<and>
     (\<exists>s \<in> set sources. owns c s (sd_name e) \<and> bd_owner_path d = os_owner_path s \<and> bd_owner_digest d = os_source_digest s) \<and>
     set (bd_dependencies d) = normalized_name pick aliases ` set (sd_dependencies e) - {sd_name e}"

lemma projected_declaration:
  assumes "project_declaration c (dict_of (map (\<lambda>s. (os_module s, s)) sources)) e = Inr d"
    and "normalize_declaration pick aliases d = Inr d'"
  shows "projects pick aliases c sources e d'"
proof -
  from assms(1) obtain s where s: "owner_source_of (sd_name e) c (dict_of (map (\<lambda>s. (os_module s, s)) sources)) = Inr s"
    and d: "d = \<lparr>bd_name = sd_name e, bd_kind = sd_kind e, bd_owner_path = os_owner_path s, bd_owner_digest = os_source_digest s,
      bd_dependencies = sd_dependencies e\<rparr>"
    by (auto simp: project_declaration_def res_bind_Inr_iff checked_Inr)
  from assms(2) have d': "d' = d\<lparr>bd_dependencies := sort (remdups (filter (\<lambda>k. k \<noteq> bd_name d)
      (map (normalized_name pick aliases) (bd_dependencies d))))\<rparr>" and c: "check_declaration d' = Inr ()"
    unfolding normalize_declaration_def checked_Inr by simp_all
  show ?thesis using owner_source_Inr [OF s] c unfolding projects_def d' d by auto
qed

lemma build_bundle_Inr:
  assumes "build_bundle sha pick path manifest c exact sources = Inr b"
  obtains aliases where "projection_aliases c = Inr aliases" and "check_bundle sha b = Inr ()"
    and "check_environment (ib_environment b) = Inr ()"
    and "list_all2 (projects pick aliases c sources) (owned_exact pick aliases exact) (ib_declarations b)"
    and "map bi_name (ib_base_declarations b) = map li_name (lc_interface c)"
    and "list_all (\<lambda>d. check_base_identity d = Inr ()) (ib_base_declarations b)"
    and "set (map sd_name (ec_declarations exact)) \<subseteq>
      set (map sd_name (owned_exact pick aliases exact)) \<union> set (map li_name (lc_interface c))"
    and "ib_root_declarations b = ec_root_declarations exact" and "ib_source b = ec_canonical_source exact"
    and "ib_toolchain b = lc_lean_version c" and "ib_root_module b = lc_root_module c"
    and "ib_interface_digest b = interface_digest sha (lc_proof_base_imports c) (ib_base_declarations b)"
proof -
  let ?m = "dict_of (map (\<lambda>s. (os_module s, s)) sources)" and ?n = "map li_name (lc_interface c)"
  obtain mb members where m: "manifest = Inr (mb, JObj members)"
    using assms unfolding build_bundle_def by (auto split: sum.splits prod.splits json.splits)
  obtain aliases bases first ds env where a: "projection_aliases c = Inr aliases"
    and u: "unclassified (owned_exact pick aliases exact @ base_exact ?n exact) exact = []"
    and bs: "res_map (project_base (dict_of (map (\<lambda>d. (sd_name d, d)) (base_exact ?n exact))) ?n) (lc_interface c) = Inr bases"
    and f: "res_map (project_declaration c ?m) (owned_exact pick aliases exact) = Inr first"
    and ds: "res_map (normalize_declaration pick aliases) first = Inr ds"
    and env: "check_environment env = Inr ()" and cb: "check_bundle sha b = Inr ()"
    and b: "ib_environment b = env" "ib_declarations b = ds" "ib_base_declarations b = bases"
      "ib_root_declarations b = ec_root_declarations exact" "ib_source b = ec_canonical_source exact"
      "ib_toolchain b = lc_lean_version c" "ib_root_module b = lc_root_module c"
      "ib_interface_digest b = interface_digest sha (lc_proof_base_imports c) bases"
    using assms unfolding build_bundle_def m sum.case prod.case json.case Let_def res_bind_Inr_iff
    by (clarsimp simp: checked_Inr res_bind_Inr_iff split: if_split_asm)
  have "list_all2 (projects pick aliases c sources) (owned_exact pick aliases exact) ds"
    by (rule list_all2_trans [OF projected_declaration f [unfolded res_map_Inr_iff] ds [unfolded res_map_Inr_iff]])
  moreover have p: "bi_name i = li_name d \<and> check_base_identity i = Inr ()" if "project_base t n d = Inr i" for t n d i
    using that by (auto simp: project_base_def Let_def checked_Inr split: option.splits)
  have "map bi_name bases = ?n"
    using bs p unfolding res_map_Inr_iff by (auto simp: list_all2_conv_all_nth intro!: nth_equalityI)
  moreover have "list_all (\<lambda>d. check_base_identity d = Inr ()) bases"
    using bs p unfolding res_map_Inr_iff by (auto simp: list_all2_conv_all_nth list_all_length)
  moreover have "set (map sd_name (ec_declarations exact)) \<subseteq> set (map sd_name (owned_exact pick aliases exact)) \<union> set ?n"
    using u by (auto simp: unclassified_def filter_empty_conv base_exact_def)
  ultimately show ?thesis using that [OF a cb] env b by simp
qed

text \<open>
  C24. A projected bundle is sound: it passes all checks, so that it is closed and ordered; each of its
  declarations is one of the exact closure with the digest of the source of the only module that
  declares it and with its dependencies normalized; and no declaration of the exact closure is lost.
\<close>

theorem bundle_projection_sound:
  assumes "build_bundle sha pick path manifest c exact sources = Inr b"
  shows "bundle_well_formed sha b \<and> ib_source b = ec_canonical_source exact \<and>
    ib_root_declarations b = ec_root_declarations exact \<and>
    sd_name ` set (ec_declarations exact) \<subseteq> set (bundle_names b) \<and>
    (\<exists>aliases. projection_aliases c = Inr aliases \<and>
      (\<forall>d \<in> set (ib_declarations b). \<exists>e \<in> set (ec_declarations exact). projects pick aliases c sources e d))"
proof -
  obtain aliases where x: "projection_aliases c = Inr aliases" "check_bundle sha b = Inr ()"
    "list_all2 (projects pick aliases c sources) (owned_exact pick aliases exact) (ib_declarations b)"
    "map bi_name (ib_base_declarations b) = map li_name (lc_interface c)"
    "set (map sd_name (ec_declarations exact)) \<subseteq>
      set (map sd_name (owned_exact pick aliases exact)) \<union> set (map li_name (lc_interface c))"
    "ib_root_declarations b = ec_root_declarations exact" "ib_source b = ec_canonical_source exact"
    using assms by (rule build_bundle_Inr)
  have "map sd_name (owned_exact pick aliases exact) = map bd_name (ib_declarations b)"
    using x(3) by (auto simp: list_all2_conv_all_nth projects_def intro!: nth_equalityI)
  with x(4,5) have "sd_name ` set (ec_declarations exact) \<subseteq> set (bundle_names b)"
    unfolding bundle_names_def by (metis Un_commute list.set_map set_append)
  moreover have "\<exists>e \<in> set (ec_declarations exact). projects pick aliases c sources e d" if "d \<in> set (ib_declarations b)" for d
  proof -
    from x(3) that obtain e where "e \<in> set (owned_exact pick aliases exact)" "projects pick aliases c sources e d"
      by (metis (no_types, lifting) in_set_conv_nth list_all2_conv_all_nth)
    then show ?thesis by (auto simp: owned_exact_def)
  qed
  ultimately show ?thesis using x(1,2,6,7) bundle_accepted by blast
qed

section \<open>A projection\<close>

definition ex_null_sha :: "bytes \<Rightarrow> bytes" where
  "ex_null_sha b = replicate 32 CHR 0x00"

definition ex_exact :: "source_declaration list \<Rightarrow> exact_closure" where
  "ex_exact ds =
     \<lparr>ec_lean_digest = ''d'', ec_environment = ''lean'', ec_root_declarations = [''P.T''], ec_source_declarations = [''P.T'', ''P.f''],
      ec_declarations = ds, ec_canonical_source = ''T'', ec_theorem2sorry = [], ec_verification = [], ec_schema_id = EXACT_SCHEMA\<rparr>"

definition ex_owner :: owner_source where
  "ex_owner = \<lparr>os_module = ''P'', os_owner_path = ''P.lean'', os_source_digest = ''sha256:'' @ replicate 64 CHR ''0''\<rparr>"

definition ex_source :: "string \<Rightarrow> string list \<Rightarrow> source_declaration" where
  "ex_source name deps = \<lparr>sd_name = name, sd_kind = ''def'', sd_declaration = ''def'', sd_dependencies = deps\<rparr>"

definition ex_build :: "source_declaration list \<Rightarrow> independent_bundle presult" where
  "ex_build ds = build_bundle ex_null_sha rev ''m'' (Inr (''x'', JObj [(''name'', JStr ''p'')])) ex_ranged_closure (ex_exact ds) [ex_owner]"

text \<open>The function \<open>P.f\<close> uses the constructor \<open>P.T.mk\<close>, whose anchor is \<open>P.T\<close>.\<close>

lemma ex_build_ok:
  "ok_option (ex_build [ex_source ''P.T'' [], ex_source ''P.f'' [''P.T.mk'']]) \<noteq> None"
  by code_simp

theorem bundle_projection_sound_witness:
  "\<exists>b. ex_build [ex_source ''P.T'' [], ex_source ''P.f'' [''P.T.mk'']] = Inr b \<and> bundle_well_formed ex_null_sha b \<and>
     ib_source b = ''T'' \<and> ib_root_declarations b = [''P.T''] \<and> {''P.T'', ''P.f''} \<subseteq> set (bundle_names b)"
proof -
  let ?ds = "[ex_source ''P.T'' [], ex_source ''P.f'' [''P.T.mk'']]"
  obtain b where b: "ex_build ?ds = Inr b" using ex_build_ok by (cases "ex_build ?ds") auto
  from bundle_projection_sound [OF b [unfolded ex_build_def]] b show ?thesis
    by (intro exI [of _ b]) (simp add: ex_exact_def ex_source_def)
qed

text \<open>
  The first pass checks the dependencies before the second takes the name itself out of them: a
  declaration that the exact closure lists among its own dependencies is refused.
\<close>

lemma recursive_declaration_refused:
  "ex_build [ex_source ''P.T'' [], ex_source ''P.f'' [''P.f'']] =
     Inl (ProjectionBundle (BundleValidationError ''self-dependency'' ''P.f''))"
  by code_simp

end
