(* ===== verification/Spec2Isabelle.thy ===== *)
theory Spec2Isabelle
  imports Durable_Threads File_Store Turso_Store Graph_Stream Durable_Receipt Ordered_Map FunFlow_Scheme Native_Sink Owner_Order Axle_Witness
    Security_Witness Admission_Guards Relation_Graph_Props Source_Closure_Props Bundle_Projection
begin

text \<open>
  A verification library for the Python runtime of poo-flow
  (\<open>src/packages/python-runtime/src/poo_flow_runtime/\<close>; file names below are relative to it). The
  runtime executes plans of named actions over a dictionary state, pauses and resumes them,
  stores what they leave behind, schedules DAGs of steps, and keeps evidence of the effects
  they were authorized to have.

  \<^bold>\<open>Parts of the program and the theories that model them.\<close>

  \<^item> Plans and their execution (\<open>_runtime_graph_types.py\<close>, \<open>_runtime_graph_state.py\<close>,
    \<open>_runtime_graph_context.py\<close>, \<open>_runtime_graph_executor.py\<close>): \<open>Graph_Types\<close> has the data,
    \<open>Graph_State\<close> the helpers and the run context, \<open>Graph_Executor\<close> construction, validation, routing,
    one step, the run loop and resumption. An action is a function from state to an action
    result that also threads the world \<open>'w\<close>, so that effects and their order are visible. The run
    loop is a fuel-free recursion bounded by the step limit. \<open>Graph_Run\<close> restates the loop as a
    step relation with reachability and invariants; \<open>Graph_Props\<close> has the properties.
  \<^item> The asynchronous executor (\<open>Graph_Async\<close>): an action may return an awaitable, of which one
    layer is awaited; every asynchronous method is shown equal to the synchronous one on the
    awaited actions.
  \<^item> Streaming (\<open>_runtime_graph_stream.py\<close>, \<open>event_stream.py\<close>; \<open>Graph_Stream\<close>): the publisher's eight
    modes and both stream loops, with the chunks yielded before an exception.
  \<^item> Messages, tools and builders (\<open>messages.py\<close>, \<open>tools.py\<close>, \<open>prebuilt.py\<close>, \<open>builder.py\<close>,
    \<open>runtime.py\<close>, \<open>subgraphs.py\<close>; \<open>Messages\<close>, \<open>Builder\<close>).
  \<^item> Programs (\<open>_program_runtime.py\<close>, \<open>_program_resolution.py\<close>, \<open>materialization.py\<close>, \<open>receipts.py\<close>;
    \<open>Materialization\<close>, \<open>Program\<close>): a plan bound to named functions, its canonical text, digest and
    receipt, runs on threads of a checkpointer, and the digest check before a resume.
  \<^item> Checkpointers and stores (\<open>checkpoints.py\<close>, \<open>stores.py\<close>, \<open>durable.py\<close>; \<open>Checkpoints\<close>, \<open>Stores\<close>,
    \<open>File_Store\<close>, \<open>Durable\<close>, \<open>Turso_Store\<close>): dictionaries, directories of files and SQL tables, each
    with an invariant, each refining one abstract map. The locale \<open>checkpointer\<close> states the
    contract, is interpreted on the three implementations, and \<open>Durable_Threads\<close> runs programs
    on it.
  \<^item> Durable policies, envelopes and adapters (\<open>durable_policy.py\<close>, \<open>durable_envelope.py\<close>,
    \<open>durable_adapter.py\<close>, \<open>durable_turso_backend.py\<close>; \<open>Durable_Policy\<close>, \<open>Durable_Envelope\<close>,
    \<open>Durable_Receipt\<close>).
  \<^item> The ordered concurrent map (\<open>_anyio_runtime.py\<close>; \<open>Ordered_Map\<close>): a step relation over all
    interleavings of the workers.
  \<^item> FunFlow (\<open>_funflow_types.py\<close>, \<open>_funflow_runtime.py\<close>, \<open>_funflow_cicd.py\<close>,
    \<open>_funflow_scheme_projection.py\<close>, \<open>_scheme_datum.py\<close>; \<open>FunFlow\<close>, \<open>FunFlow_Scheme\<close>, \<open>Scheme_Datum\<close>): waves of
    ready steps in any completion order, plans loaded from Scheme tables, and the Scheme data
    writer and parser.
  \<^item> Evidence (\<open>evidence_model.py\<close>, \<open>batched_evidence.py\<close>, \<open>evidence.py\<close>, \<open>batched_evidence_store.py\<close>,
    \<open>native_evidence_sink.py\<close>; \<open>Hex_Text\<close>, \<open>Batched_Evidence\<close>, \<open>Evidence_Model\<close>, \<open>Evidence_Store\<close>,
    \<open>Evidence_Journal\<close>, \<open>Evidence_Recovery\<close>, \<open>Native_Sink\<close>): Merkle batches, the transactional journal
    as five tables, its invariant and its reachable states, and the native callbacks over the
    locale \<open>evidence_journal\<close>.
  \<^item> \<open>Prelude\<close> and \<open>Py_Text\<close> hold what all share: exceptions as values, insertion-ordered
    dictionaries, Python's text and integer printing.

  \<^bold>\<open>What the lemmas show.\<close> Execution: a resumed run equals the run that was not interrupted, the
  event log and the step limit, that no reachable run is stuck on an unknown node, and that the
  asynchronous and streaming variants agree with the plain run. Storage: each implementation
  refines its map under every sequence of operations, searches are exact, retention is
  bounded, texts and receipts round-trip. Programs: a paused run is only resumed by the plan it
  was paused in; equal digests mean equal plans up to a collision. FunFlow: the trace is a
  topological order, the result does not depend on the schedule, a run is deadlocked exactly on a cycle.
  Evidence: a session's receipts form one gapless chain of execution roots in every reachable
  journal, Merkle proofs are complete and sound, a flush commits the staged leaves, recovery
  can always flush, and a callback that raises leaves the database alone. Lemmas named in the
  findings record where the code falls short of such a statement.

  \<^bold>\<open>Fuel and termination.\<close> The Scheme parser has fuel \<open>2 * length + 1\<close>, proved enough for every text.
  All other definitions are total: loops recur on a list, on the remaining step limit, on the
  pending steps of a DAG or on the length of a Merkle level.

  \<^bold>\<open>Parameters.\<close> SHA-256 is a function \<open>sha\<close>; where it matters a statement assumes that it is injective on
  the texts it names, or that its digests have 32 bytes. Clocks and generated identifiers are
  arguments. \<open>str\<close> and \<open>repr\<close> of values other than texts and integers, the durations and return
  order of awaited calls, and the actions, routers and reducers of a plan are parameters too.
  Pickling keeps the value. Text is ASCII or the list of its UTF-8 bytes.

  \<^bold>\<open>Not modelled.\<close> The native library and its CFFI bindings, subprocesses around the Scheme compiler
  and the build tool, the adapters to other packages, benchmarks and automation: input and
  output, or code that is not in the repository. The streaming methods of a program, batch
  invocation, the language receipts and the proof package (\<open>src/packages/proofs/python\<close>) are left for a
  later extension. Python's recursion limit, the width of SQL integers, cancellation between
  two awaits, and concurrent use of one store by several processes are outside the model.
\<close>

end
